(* ===== verification/Py_Prelude.thy ===== *)
theory Py_Prelude
  imports Main "HOL-Library.AList"
begin

text \<open>
  The vocabulary every component theory shares: Python's built-in types and the
  library calls the sources make on them.

  \<^item> \<open>str\<close> is a list of Unicode code points, \<open>bytes\<close> a list of \<open>char\<close> (a HOL
    character is exactly one byte). \<open>S ''abc''\<close> is the Python literal \<open>"abc"\<close>,
    \<open>''abc''\<close> the literal \<open>b"abc"\<close>.
  \<^item> \<open>str.lower\<close> and \<open>str.upper\<close> are exact on code points below 256 (the range of
    Latin-1, to which every HTTP header decodes) and leave the others alone.
  \<^item> A \<open>dict\<close> is an association list in insertion order with distinct keys, as
    Python iterates it: assigning to an existing key keeps its position.
  \<^item> A call that may raise returns \<open>exn + 'a\<close>, \<open>Inl\<close> the exception, and calls are
    composed with \<open>rbind\<close>.
\<close>

named_theorems py_simps \<open>rewrite rules for the Python library model\<close>
named_theorems dict_simps \<open>rewrite rules for insertion-ordered dictionaries\<close>
named_theorems dict_intros \<open>well-formedness of insertion-ordered dictionaries\<close>

type_synonym str = "nat list"
type_synonym bytes = "char list"

subsection \<open>Literals and exceptions\<close>

definition S :: "string \<Rightarrow> str" where
  "S s = map of_char s"

text \<open>
  What the framework's own exceptions (\<open>astraapi/exceptions.py\<close>) carry: the detail of an
  \<open>HTTPException\<close> is any object, an item of a validation error has a type and a location, and
  a validation error names the endpoint it was raised for.
\<close>

datatype detail = DNone | DText str | DObj nat

datatype err = Err (err_type: str) (err_loc: "str list")

datatype endpoint_ctx =
  EndpointContext (ec_function: "str option") (ec_path: "str option") (ec_file: "str option") (ec_line: "nat option")

datatype validation_kind = OfRequest | OfWebSocket | OfResponse

text \<open>
  The exceptions the modelled code raises, with the argument it gives them.
  \<open>UserException c\<close> is an exception of the application's class number \<open>c\<close>, \<open>Interrupt\<close> one that is
  no \<open>Exception\<close> (such as the cancellation of a task).
\<close>

datatype exn =
    KeyError str
  | AttributeError str
  | IndexError
  | TypeError str
  | ValueError str
  | RuntimeError str
  | AssertionError str
  | UnicodeEncodeError
  | UnicodeDecodeError
  | CookieError
  | NoMatchFound str
  | WebSocketDisconnect int str
  | StructError
  | NotImplementedError
  | OSError
  | UnboundLocalError str
  | JSONDecodeError str nat
  | HTTPException int detail "(str \<times> str) list option"
  | WebSocketException int str
  | AstraAPIError str
  | ValidationError validation_kind "err list" endpoint_ctx
  | UserException nat
  | Interrupt

type_synonym 'a res = "exn + 'a"

fun rbind :: "'e + 'a \<Rightarrow> ('a \<Rightarrow> 'e + 'b) \<Rightarrow> 'e + 'b" where
  "rbind (Inl e) f = Inl e"
| "rbind (Inr x) f = f x"

fun rmap :: "('a \<Rightarrow> 'e + 'b) \<Rightarrow> 'a list \<Rightarrow> 'e + 'b list" where
  "rmap f [] = Inr []"
| "rmap f (x # xs) = rbind (f x) (\<lambda>y. rbind (rmap f xs) (\<lambda>ys. Inr (y # ys)))"

definition rassert :: "bool \<Rightarrow> exn \<Rightarrow> unit res" where
  "rassert b e = (if b then Inr () else Inl e)"

lemma rbind_cong [fundef_cong]:
  "\<lbrakk>m = m'; \<And>x. m' = Inr x \<Longrightarrow> f x = f' x\<rbrakk> \<Longrightarrow> rbind m f = rbind m' f'"
  by (cases m') auto

lemma rbind_assoc: "rbind (rbind m f) g = rbind m (\<lambda>x. rbind (f x) g)"
  by (cases m) auto

lemma find_SomeD: "find P xs = Some x \<Longrightarrow> x \<in> set xs \<and> P x"
  by (auto simp: find_Some_iff)

lemma rbind_eq_Inr_iff [simp]: "rbind m f = Inr y \<longleftrightarrow> (\<exists>x. m = Inr x \<and> f x = Inr y)"
  by (cases m) auto

lemma rbind_eq_Inl_iff: "rbind m f = Inl e \<longleftrightarrow> m = Inl e \<or> (\<exists>x. m = Inr x \<and> f x = Inl e)"
  by (cases m) auto

lemma rassert_eq_Inr_iff [simp]: "rassert b e = Inr u \<longleftrightarrow> b"
  by (simp add: rassert_def)

lemma rassert_eq_Inl_iff [simp]: "rassert b e = Inl e' \<longleftrightarrow> \<not> b \<and> e' = e"
  by (auto simp: rassert_def)

lemma rmap_Inr_iff: "rmap f xs = Inr ys \<longleftrightarrow> list_all2 (\<lambda>x y. f x = Inr y) xs ys"
proof (induction xs arbitrary: ys)
  case Nil
  then show ?case by auto
next
  case (Cons x xs)
  then show ?case by (cases ys) auto
qed

lemma rmap_total: "(\<And>x. x \<in> set xs \<Longrightarrow> f x = Inr (g x)) \<Longrightarrow> rmap f xs = Inr (map g xs)"
  by (induction xs) auto

lemma S_inject [simp]: "S a = S b \<longleftrightarrow> a = b"
  by (auto simp: S_def inj_map_eq_map inj_def)

lemma S_Nil [simp]: "S [] = []" and S_Cons: "S (c # cs) = of_char c # S cs"
  by (simp_all add: S_def)

lemma S_eq_Nil [simp]: "S s = [] \<longleftrightarrow> s = []" and S_eq_Nil2 [simp]: "[] = S s \<longleftrightarrow> s = []"
  by (auto simp: S_def)

lemma length_S [simp]: "length (S s) = length s"
  by (simp add: S_def)

lemma S_append: "S (a @ b) = S a @ S b"
  by (simp add: S_def)

subsection \<open>Searching, splitting and joining (\<open>str\<close> and \<open>bytes\<close> alike)\<close>

definition startswith :: "'a list \<Rightarrow> 'a list \<Rightarrow> bool" where
  "startswith s p \<longleftrightarrow> take (length p) s = p"

definition endswith :: "'a list \<Rightarrow> 'a list \<Rightarrow> bool" where
  "endswith s p \<longleftrightarrow> startswith (rev s) (rev p)"

fun contains :: "'a list \<Rightarrow> 'a list \<Rightarrow> bool" where
  "contains [] p \<longleftrightarrow> p = []"
| "contains (x # xs) p \<longleftrightarrow> startswith (x # xs) p \<or> contains xs p"

definition lstrip :: "'a \<Rightarrow> 'a list \<Rightarrow> 'a list" where
  "lstrip c s = dropWhile (\<lambda>x. x = c) s"

definition rstrip :: "'a \<Rightarrow> 'a list \<Rightarrow> 'a list" where
  "rstrip c s = rev (dropWhile (\<lambda>x. x = c) (rev s))"

text \<open>\<open>s.split(c)\<close>, and the pair \<open>s.split(c, 1)\<close> where \<open>c\<close> occurs in \<open>s\<close>.\<close>

fun split_on :: "'a \<Rightarrow> 'a list \<Rightarrow> 'a list list" where
  "split_on c [] = [[]]"
| "split_on c (x # xs) =
     (if x = c then [] # split_on c xs
      else (x # hd (split_on c xs)) # tl (split_on c xs))"

definition split_once :: "'a \<Rightarrow> 'a list \<Rightarrow> 'a list \<times> 'a list" where
  "split_once c s = (takeWhile (\<lambda>x. x \<noteq> c) s, drop 1 (dropWhile (\<lambda>x. x \<noteq> c) s))"

fun join :: "'a list \<Rightarrow> 'a list list \<Rightarrow> 'a list" where
  "join sep [] = []"
| "join sep [x] = x"
| "join sep (x # y # zs) = x @ sep @ join sep (y # zs)"

text \<open>\<open>s.replace(old, new)\<close> for a non-empty \<open>old\<close>: leftmost, non-overlapping.\<close>

function replace :: "'a list \<Rightarrow> 'a list \<Rightarrow> 'a list \<Rightarrow> 'a list" where
  "replace s old new =
     (if old = [] then s
      else if s = [] then []
      else if startswith s old then new @ replace (drop (length old) s) old new
      else hd s # replace (tl s) old new)"
  by pat_completeness auto
termination
  by (relation "measure (\<lambda>(s, old, new). length s)") (auto simp: startswith_def)

declare replace.simps [simp del]

lemma startswith_append [simp]: "startswith (p @ s) p"
  by (simp add: startswith_def)

lemma startswith_Nil [simp]: "startswith s []"
  by (simp add: startswith_def)

lemma startswith_Nil2 [simp]: "startswith [] p \<longleftrightarrow> p = []"
  by (auto simp: startswith_def)

lemma startswith_Cons [simp]:
  "startswith (x # xs) (y # ys) \<longleftrightarrow> x = y \<and> startswith xs ys"
  by (auto simp: startswith_def)

lemma startswith_iff: "startswith s p \<longleftrightarrow> (\<exists>r. s = p @ r)"
  unfolding startswith_def by (metis append_eq_conv_conj append_take_drop_id)

lemma endswith_iff: "endswith s p \<longleftrightarrow> (\<exists>r. s = r @ p)"
  unfolding endswith_def startswith_iff by (metis rev_append rev_rev_ident)

lemma contains_iff: "contains s p \<longleftrightarrow> (\<exists>a b. s = a @ p @ b)"
proof (induction s)
  case Nil
  then show ?case by auto
next
  case (Cons x xs)
  show ?case
  proof
    assume "contains (x # xs) p"
    then consider b where "x # xs = [] @ p @ b" | a b where "x # xs = (x # a) @ p @ b"
      using Cons by (auto simp: startswith_iff)
    then show "\<exists>a b. x # xs = a @ p @ b" by metis
  next
    assume "\<exists>a b. x # xs = a @ p @ b"
    then obtain a b where ab: "x # xs = a @ p @ b" by blast
    show "contains (x # xs) p"
    proof (cases a)
      case Nil
      with ab have "startswith (x # xs) p" unfolding startswith_iff by simp
      then show ?thesis by simp
    next
      case (Cons y a')
      with ab Cons.IH show ?thesis by auto
    qed
  qed
qed

lemma split_on_nonempty [simp]: "split_on c s \<noteq> []"
  by (cases s) auto

lemma split_on_no_sep: "c \<notin> set s \<Longrightarrow> split_on c s = [s]"
  by (induction s) auto

lemma split_on_sep: "c \<notin> set a \<Longrightarrow> split_on c (a @ c # b) = a # split_on c b"
  by (induction a) auto

lemma split_on_pieces: "x \<in> set (split_on c s) \<Longrightarrow> c \<notin> set x"
proof (induction s arbitrary: x)
  case Nil
  then show ?case by simp
next
  case (Cons y s)
  then show ?case
    by (cases "split_on c s") (auto split: if_splits)
qed

lemma join_Cons: "xs \<noteq> [] \<Longrightarrow> join sep (x # xs) = x @ sep @ join sep xs"
  by (cases xs) auto

lemma join_snoc: "xs \<noteq> [] \<Longrightarrow> join sep (xs @ [y]) = join sep xs @ sep @ y"
proof (induction xs rule: list_nonempty_induct)
  case (cons x xs)
  then show ?case by (simp add: join_Cons)
qed simp

lemma join_split_on: "join [c] (split_on c s) = s"
proof (induction s)
  case Nil
  then show ?case by simp
next
  case (Cons x s)
  then show ?case
    by (cases "split_on c s" rule: list.exhaust; cases "tl (split_on c s)")
       (auto simp: join_Cons)
qed

lemma split_on_join:
  assumes "xs \<noteq> []" and "\<And>x. x \<in> set xs \<Longrightarrow> c \<notin> set x"
  shows "split_on c (join [c] xs) = xs"
  using assms
proof (induction xs rule: list_nonempty_induct)
  case (single x)
  then show ?case by (simp add: split_on_no_sep)
next
  case (cons x xs)
  then show ?case by (simp add: join_Cons split_on_sep)
qed

lemma split_once_sep: "c \<notin> set a \<Longrightarrow> split_once c (a @ c # b) = (a, b)"
proof -
  assume "c \<notin> set a"
  then have "\<And>x. x \<in> set a \<Longrightarrow> x \<noteq> c" by auto
  then show ?thesis by (simp add: split_once_def takeWhile_append2 dropWhile_append2)
qed

lemma rstrip_prefix: "\<exists>n. s = rstrip c s @ replicate n c"
proof -
  let ?d = "takeWhile (\<lambda>x. x = c) (rev s)"
  have "rev s = ?d @ dropWhile (\<lambda>x. x = c) (rev s)" by simp
  then have "s = rstrip c s @ rev ?d" unfolding rstrip_def by (metis rev_append rev_rev_ident)
  moreover have "rev ?d = replicate (length ?d) c"
    by (intro replicate_eqI) (auto dest: set_takeWhileD)
  ultimately show ?thesis by metis
qed

lemma rstrip_last: "rstrip c s \<noteq> [] \<Longrightarrow> last (rstrip c s) \<noteq> c"
  unfolding rstrip_def by (metis (mono_tags) hd_dropWhile last_rev rev.simps(1) rev_rev_ident)

subsection \<open>Case mapping\<close>

definition lower_cp :: "nat \<Rightarrow> nat" where
  "lower_cp c = (if 65 \<le> c \<and> c \<le> 90 \<or> 192 \<le> c \<and> c \<le> 222 \<and> c \<noteq> 215 then c + 32 else c)"

definition lower :: "str \<Rightarrow> str" where
  "lower s = map lower_cp s"

definition upper_cp :: "nat \<Rightarrow> str" where
  "upper_cp c =
     (if 97 \<le> c \<and> c \<le> 122 \<or> 224 \<le> c \<and> c \<le> 254 \<and> c \<noteq> 247 then [c - 32]
      else if c = 223 then [83, 83]
      else if c = 181 then [924]
      else if c = 255 then [376]
      else [c])"

definition upper :: "str \<Rightarrow> str" where
  "upper s = concat (map upper_cp s)"

text \<open>\<open>bytes.lower\<close> changes ASCII letters only.\<close>

definition blower :: "bytes \<Rightarrow> bytes" where
  "blower b = map (\<lambda>c. if 65 \<le> (of_char c :: nat) \<and> (of_char c :: nat) \<le> 90
                         then char_of (of_char c + 32 :: nat) else c) b"

lemma lower_cp_idem [simp]: "lower_cp (lower_cp c) = lower_cp c"
  by (auto simp: lower_cp_def)

lemma lower_lower [simp]: "lower (lower s) = lower s"
  by (simp add: lower_def)

lemma length_lower [simp]: "length (lower s) = length s"
  by (simp add: lower_def)

lemma lower_append: "lower (a @ b) = lower a @ lower b"
  by (simp add: lower_def)

lemma lower_eq_Nil [simp]: "lower s = [] \<longleftrightarrow> s = []"
  by (simp add: lower_def)

lemma blower_idem [simp]: "blower (blower b) = blower b"
  by (auto simp: blower_def)

subsection \<open>Encodings\<close>

definition latin1_decode :: "bytes \<Rightarrow> str" where
  "latin1_decode b = map of_char b"

definition latin1_encode :: "str \<Rightarrow> bytes res" where
  "latin1_encode s =
     (if list_all (\<lambda>c. c < 256) s then Inr (map char_of s) else Inl UnicodeEncodeError)"

lemma latin1_encode_decode [simp]: "latin1_encode (latin1_decode b) = Inr b"
  by (simp add: latin1_encode_def latin1_decode_def list_all_iff comp_def)

lemma latin1_decode_encode: "latin1_encode s = Inr b \<Longrightarrow> latin1_decode b = s"
  by (auto simp: latin1_encode_def latin1_decode_def list_all_iff map_idI split: if_splits)

lemma latin1_decode_inj [simp]: "latin1_decode a = latin1_decode b \<longleftrightarrow> a = b"
  by (auto simp: latin1_decode_def inj_map_eq_map inj_def)

lemma latin1_encode_S [simp]: "latin1_encode (S s) = Inr s"
  using latin1_encode_decode [of s] by (simp add: S_def latin1_decode_def)

lemma map_char_of_S [simp]: "map char_of (S s) = s"
  by (simp add: S_def comp_def)

lemma latin1_decode_S: "latin1_decode s = S s"
  by (simp add: S_def latin1_decode_def)

subsection \<open>Insertion-ordered dictionaries\<close>

type_synonym ('k, 'v) dict = "('k \<times> 'v) list"

definition dict_wf :: "('k, 'v) dict \<Rightarrow> bool" where
  "dict_wf d \<longleftrightarrow> distinct (map fst d)"

definition dict_set :: "'k \<Rightarrow> 'v \<Rightarrow> ('k, 'v) dict \<Rightarrow> ('k, 'v) dict" where
  "dict_set k v d = AList.update k v d"

definition dict_setdefault :: "'k \<Rightarrow> 'v \<Rightarrow> ('k, 'v) dict \<Rightarrow> ('k, 'v) dict" where
  "dict_setdefault k v d = (case map_of d k of None \<Rightarrow> d @ [(k, v)] | Some _ \<Rightarrow> d)"

definition dict_del :: "'k \<Rightarrow> ('k, 'v) dict \<Rightarrow> ('k, 'v) dict" where
  "dict_del k d = AList.delete k d"

definition dict_get :: "('k, 'v) dict \<Rightarrow> 'k \<Rightarrow> 'v \<Rightarrow> 'v" where
  "dict_get d k dflt = (case map_of d k of None \<Rightarrow> dflt | Some v \<Rightarrow> v)"

definition dict_has :: "('k, 'v) dict \<Rightarrow> 'k \<Rightarrow> bool" where
  "dict_has d k \<longleftrightarrow> k \<in> set (map fst d)"

text \<open>\<open>d.update(pairs)\<close> assigns the pairs one after another.\<close>

definition dict_update :: "('k \<times> 'v) list \<Rightarrow> ('k, 'v) dict \<Rightarrow> ('k, 'v) dict" where
  "dict_update ps d = fold (\<lambda>(k, v). dict_set k v) ps d"

lemma dict_wf_Nil [dict_intros, simp]: "dict_wf []"
  by (simp add: dict_wf_def)

lemma dict_wf_set [dict_intros]: "dict_wf d \<Longrightarrow> dict_wf (dict_set k v d)"
  by (simp add: dict_wf_def dict_set_def distinct_update)

lemma dict_wf_setdefault [dict_intros]: "dict_wf d \<Longrightarrow> dict_wf (dict_setdefault k v d)"
  by (auto simp: dict_wf_def dict_setdefault_def map_of_eq_None_iff split: option.splits)

lemma dict_wf_del [dict_intros]: "dict_wf d \<Longrightarrow> dict_wf (dict_del k d)"
  by (simp add: dict_wf_def dict_del_def distinct_delete)

lemma dict_wf_update [dict_intros]: "dict_wf d \<Longrightarrow> dict_wf (dict_update ps d)"
  unfolding dict_update_def by (induction ps arbitrary: d) (auto intro: dict_wf_set)

lemma map_of_dict_set [dict_simps]: "map_of (dict_set k v d) = (map_of d)(k \<mapsto> v)"
  by (simp add: dict_set_def update_conv')

lemma map_of_dict_setdefault [dict_simps]:
  "map_of (dict_setdefault k v d) =
     (case map_of d k of None \<Rightarrow> (map_of d)(k \<mapsto> v) | Some _ \<Rightarrow> map_of d)"
  by (auto simp: dict_setdefault_def map_add_def fun_eq_iff split: option.splits)

lemma map_of_dict_del [dict_simps]: "map_of (dict_del k d) = (map_of d)(k := None)"
  by (simp add: dict_del_def delete_conv')

lemma dict_has_iff [dict_simps]: "dict_has d k \<longleftrightarrow> map_of d k \<noteq> None"
  by (auto simp: dict_has_def map_of_eq_None_iff)

lemma keys_dict_setdefault [dict_simps]:
  "map fst (dict_setdefault k v d) =
     (if k \<in> set (map fst d) then map fst d else map fst d @ [k])"
  by (auto simp: dict_setdefault_def map_of_eq_None_iff dom_map_of_conv_image_fst split: option.splits)
     (metis domI dom_map_of_conv_image_fst imageI fst_conv)

lemma keys_dict_set [dict_simps]:
  "map fst (dict_set k v d) = (if k \<in> set (map fst d) then map fst d else map fst d @ [k])"
  by (simp add: dict_set_def update_keys)

lemma dict_set_subset: "set (dict_set k v d) \<subseteq> insert (k, v) (set d)"
  unfolding dict_set_def by (induction d) auto

lemma map_of_dict_update [dict_simps]:
  "map_of (dict_update ps d) k =
     (case map_of (rev ps) k of Some v \<Rightarrow> Some v | None \<Rightarrow> map_of d k)"
  unfolding dict_update_def
proof (induction ps arbitrary: d)
  case Nil
  then show ?case by simp
next
  case (Cons p ps)
  then show ?case
    by (cases p) (auto simp: map_of_dict_set map_add_def split: option.splits)
qed

lemma map_of_rev_wf: "dict_wf d \<Longrightarrow> map_of (rev d) k = map_of d k"
  unfolding dict_wf_def by (metis distinct_rev map_of_inject_set rev_map set_rev)

subsection \<open>Whitespace\<close>

text \<open>\<open>str.isspace\<close> on the code points of Latin-1, and \<open>str.strip()\<close>.\<close>

definition is_space :: "nat \<Rightarrow> bool" where
  "is_space c \<longleftrightarrow> 9 \<le> c \<and> c \<le> 13 \<or> 28 \<le> c \<and> c \<le> 32 \<or> c = 133 \<or> c = 160"

definition strip :: "str \<Rightarrow> str" where
  "strip s = rev (dropWhile is_space (rev (dropWhile is_space s)))"

subsection \<open>Decimal and hexadecimal numerals\<close>

fun dec :: "nat \<Rightarrow> str" where
  "dec n = (if n < 10 then [48 + n] else dec (n div 10) @ [48 + n mod 10])"

declare dec.simps [simp del]

definition int_str :: "int \<Rightarrow> str" where
  "int_str i = (if i < 0 then 45 # dec (nat (- i)) else dec (nat i))"

definition undec :: "str \<Rightarrow> nat" where
  "undec s = foldl (\<lambda>a c. 10 * a + (c - 48)) 0 s"

definition is_digit :: "nat \<Rightarrow> bool" where
  "is_digit c \<longleftrightarrow> 48 \<le> c \<and> c \<le> 57"

text \<open>
  \<open>int(s)\<close> on ASCII digits: surrounding whitespace, a sign, and single underscores between
  digits are accepted. 43, 45 and 95 are plus, minus and the underscore.
\<close>

definition py_nat :: "str \<Rightarrow> nat option" where
  "py_nat s = (if list_all (\<lambda>p. p \<noteq> [] \<and> list_all is_digit p) (split_on 95 s)
               then Some (undec (concat (split_on 95 s))) else None)"

definition py_int :: "str \<Rightarrow> int res" where
  "py_int s =
     (let t = strip s;
          (neg, ds) = (case t of [] \<Rightarrow> (False, t)
                        | c # r \<Rightarrow> if c = 45 then (True, r) else if c = 43 then (False, r) else (False, t))
      in case py_nat ds of
           None \<Rightarrow> Inl (ValueError (S ''invalid literal for int() with base 10''))
         | Some n \<Rightarrow> Inr (if neg then - int n else int n))"

fun hex :: "nat \<Rightarrow> str" where
  "hex n = (let d = (\<lambda>x. if x < 10 then 48 + x else 87 + x) in
            if n < 16 then [d n] else hex (n div 16) @ [d (n mod 16)])"

declare hex.simps [simp del]

lemma dec_nonempty [simp]: "dec n \<noteq> []"
  by (subst dec.simps) simp

lemma dec_digits: "c \<in> set (dec n) \<Longrightarrow> is_digit c"
proof (induction n rule: dec.induct)
  case (1 n)
  then show ?case
    by (auto simp: dec.simps [of n] is_digit_def split: if_splits)
qed

lemma undec_append: "undec (s @ [c]) = 10 * undec s + (c - 48)"
  by (simp add: undec_def)

lemma undec_dec [simp]: "undec (dec n) = n"
proof (induction n rule: dec.induct)
  case (1 n)
  show ?case
  proof (cases "n < 10")
    case True
    then show ?thesis by (simp add: dec.simps [of n] undec_def)
  next
    case False
    with 1 show ?thesis by (simp add: dec.simps [of n] undec_append)
  qed
qed

lemma dec_inject [simp]: "dec m = dec n \<longleftrightarrow> m = n"
  by (metis undec_dec)

lemma dec_latin1 [simp]: "list_all (\<lambda>c. c < 256) (dec n)"
  using dec_digits by (fastforce simp: list_all_iff is_digit_def)

lemma strip_no_space:
  assumes "\<forall>c\<in>set s. \<not> is_space c"
  shows "strip s = s"
proof -
  have keep: "dropWhile is_space t = t" if "\<forall>c\<in>set t. \<not> is_space c" for t
    using that by (cases t) auto
  have "dropWhile is_space (rev s) = rev s" by (rule keep) (simp add: assms)
  with assms keep show ?thesis by (simp add: strip_def)
qed

lemma py_nat_digits: "s \<noteq> [] \<Longrightarrow> list_all is_digit s \<Longrightarrow> py_nat s = Some (undec s)"
proof -
  assume s: "s \<noteq> []" "list_all is_digit s"
  then have "95 \<notin> set s" by (auto simp: list_all_iff is_digit_def)
  with s show ?thesis by (simp add: py_nat_def split_on_no_sep)
qed

lemma py_int_digits: "s \<noteq> [] \<Longrightarrow> list_all is_digit s \<Longrightarrow> py_int s = Inr (int (undec s))"
proof -
  assume s: "s \<noteq> []" "list_all is_digit s"
  have "strip s = s"
    using s(2) by (intro strip_no_space) (auto simp: list_all_iff is_digit_def is_space_def)
  moreover obtain c r where cr: "s = c # r" using s(1) by (cases s) auto
  moreover have "c \<noteq> 45 \<and> c \<noteq> 43" using s(2) cr by (auto simp: is_digit_def)
  ultimately show ?thesis using py_nat_digits [OF s] by (simp add: py_int_def)
qed

lemma py_int_dec [simp]: "py_int (dec n) = Inr (int n)"
  using dec_digits by (simp add: py_int_digits list_all_iff)

lemma lower_latin1: "latin1_encode (lower s) = Inr b \<Longrightarrow> blower b = b"
proof -
  assume "latin1_encode (lower s) = Inr b"
  then have "b = map char_of (lower s)" and all: "\<And>c. c \<in> set (lower s) \<Longrightarrow> c < 256"
    by (auto simp: latin1_encode_def list_all_iff split: if_splits)
  moreover have "\<not> (65 \<le> c \<and> c \<le> 90)" if "c \<in> set (lower s)" for c
    using that by (auto simp: lower_def lower_cp_def)
  ultimately show ?thesis by (auto simp: blower_def)
qed

end
