(* ===== verification/Url_Codec.thy ===== *)
theory Url_Codec
  imports Py_Prelude
begin

text \<open>
  The parts of Python's standard library that query strings, redirects and UTF-8
  bodies go through: \<open>str.encode("utf-8")\<close>, \<open>bytes.decode("utf-8", "replace")\<close> and
  \<open>urllib.parse.quote\<close> / \<open>unquote\<close>. Bytes are numbers below 256 here; \<open>utf8_encode\<close>
  delivers them as \<open>bytes\<close>. The lemmas show that decoding inverts encoding, which the
  query-string and redirect theorems build on.
\<close>

subsection \<open>UTF-8\<close>

text \<open>A code point \<open>str.encode\<close> accepts: in range and not a surrogate.\<close>

definition scalar :: "nat \<Rightarrow> bool" where
  "scalar c \<longleftrightarrow> c < 1114112 \<and> \<not> (55296 \<le> c \<and> c \<le> 57343)"

definition utf8_cp :: "nat \<Rightarrow> nat list" where
  "utf8_cp c =
     (if c < 128 then [c]
      else if c < 2048 then [192 + c div 64, 128 + c mod 64]
      else if c < 65536 then [224 + c div 4096, 128 + c div 64 mod 64, 128 + c mod 64]
      else [240 + c div 262144, 128 + c div 4096 mod 64, 128 + c div 64 mod 64, 128 + c mod 64])"

definition utf8_units :: "str \<Rightarrow> nat list" where
  "utf8_units s = concat (map utf8_cp s)"

definition utf8_encode :: "str \<Rightarrow> bytes res" where
  "utf8_encode s =
     (if list_all scalar s then Inr (map char_of (utf8_units s)) else Inl UnicodeEncodeError)"

definition cont :: "nat \<Rightarrow> bool" where
  "cont b \<longleftrightarrow> 128 \<le> b \<and> b \<le> 191"

text \<open>
  The ranges of a second byte: a lead byte 224, 237, 240 or 244 narrows it (overlong
  forms, surrogates and code points beyond the last one are ill-formed).
\<close>

definition second_ok :: "nat \<Rightarrow> nat \<Rightarrow> bool" where
  "second_ok b0 b1 \<longleftrightarrow> cont b1 \<and> (b0 = 224 \<longrightarrow> 160 \<le> b1) \<and> (b0 = 237 \<longrightarrow> b1 \<le> 159)
     \<and> (b0 = 240 \<longrightarrow> 144 \<le> b1) \<and> (b0 = 244 \<longrightarrow> b1 \<le> 143)"

definition lead_len :: "nat \<Rightarrow> nat" where
  "lead_len b =
     (if b < 128 then 1 else if 194 \<le> b \<and> b \<le> 223 then 2
      else if 224 \<le> b \<and> b \<le> 239 then 3 else if 240 \<le> b \<and> b \<le> 244 then 4 else 0)"

text \<open>
  One step of the decoder: a code point and the number of bytes it took. An ill-formed
  sequence yields U+FFFD for its maximal valid prefix, as CPython's \<open>replace\<close> handler does.
\<close>

definition utf8_step :: "nat \<Rightarrow> nat list \<Rightarrow> nat \<times> nat" where
  "utf8_step b0 bs =
     (let n = lead_len b0 in
      if n = 1 then (b0, 1)
      else if n = 2 then
        (if bs \<noteq> [] \<and> cont (bs ! 0) then ((b0 - 192) * 64 + (bs ! 0 - 128), 2) else (65533, 1))
      else if n = 3 then
        (if bs \<noteq> [] \<and> second_ok b0 (bs ! 0) then
           (if 1 < length bs \<and> cont (bs ! 1)
            then ((b0 - 224) * 4096 + (bs ! 0 - 128) * 64 + (bs ! 1 - 128), 3)
            else (65533, 2))
         else (65533, 1))
      else if n = 4 then
        (if bs \<noteq> [] \<and> second_ok b0 (bs ! 0) then
           (if 1 < length bs \<and> cont (bs ! 1) then
              (if 2 < length bs \<and> cont (bs ! 2)
               then ((b0 - 240) * 262144 + (bs ! 0 - 128) * 4096 + (bs ! 1 - 128) * 64
                       + (bs ! 2 - 128), 4)
               else (65533, 3))
            else (65533, 2))
         else (65533, 1))
      else (65533, 1))"

function utf8_decode_replace :: "nat list \<Rightarrow> str" where
  "utf8_decode_replace [] = []"
| "utf8_decode_replace (b # bs) =
     fst (utf8_step b bs) # utf8_decode_replace (drop (snd (utf8_step b bs) - 1) bs)"
  by pat_completeness auto
termination
  by (relation "measure length") auto

text \<open>A code point as base-64 digits, so that the byte ranges become linear arithmetic.\<close>

lemma base64_digits:
  fixes c :: nat
  obtains h m l where "c = 4096 * h + 64 * m + l" "m < 64" "l < 64" "c mod 64 = l"
    "c div 64 mod 64 = m" "c div 4096 = h" "c div 64 = 64 * h + m"
proof
  have "c div 64 div 64 = c div 4096" by (simp flip: div_mult2_eq)
  then show "c div 64 = 64 * (c div 4096) + c div 64 mod 64"
    by (metis mult_div_mod_eq)
  then show "c = 4096 * (c div 4096) + 64 * (c div 64 mod 64) + c mod 64"
    using mult_div_mod_eq [of 64 c] by linarith
qed simp_all

lemma utf8_step_cp:
  assumes "scalar c"
  shows "utf8_cp c = hd (utf8_cp c) # tl (utf8_cp c)"
    and "utf8_step (hd (utf8_cp c)) (tl (utf8_cp c) @ t) = (c, length (utf8_cp c))"
proof -
  show "utf8_cp c = hd (utf8_cp c) # tl (utf8_cp c)"
    by (simp add: utf8_cp_def)
  have "c < 1114112" using assms by (simp add: scalar_def)
  obtain h m l where c: "c = 4096 * h + 64 * m + l" and ml: "m < 64" "l < 64"
    and digits: "c mod 64 = l" "c div 64 mod 64 = m" "c div 4096 = h" "c div 64 = 64 * h + m"
    by (rule base64_digits)
  consider "c < 128" | "128 \<le> c" "c < 2048" | "2048 \<le> c" "c < 65536" | "65536 \<le> c"
    by linarith
  then show "utf8_step (hd (utf8_cp c)) (tl (utf8_cp c) @ t) = (c, length (utf8_cp c))"
  proof cases
    case 1
    then show ?thesis by (simp add: utf8_cp_def utf8_step_def lead_len_def)
  next
    case 2
    with c ml have "h = 0" by linarith
    with 2 c ml have "2 \<le> m" "m < 32" by linarith+
    with 2 c ml \<open>h = 0\<close> show ?thesis
      by (simp add: utf8_cp_def utf8_step_def lead_len_def cont_def digits)
  next
    case 3
    with c ml have "h < 16" "h = 0 \<Longrightarrow> 32 \<le> m" by linarith+
    moreover have "h = 13 \<Longrightarrow> m < 32"
      using assms c ml unfolding scalar_def by linarith
    ultimately have "second_ok (224 + h) (128 + m)" using ml
      unfolding second_ok_def cont_def by auto
    moreover have "utf8_cp c = [224 + h, 128 + m, 128 + l]"
      using 3 ml by (simp add: utf8_cp_def digits)
    ultimately show ?thesis using ml \<open>h < 16\<close> c
      by (simp add: utf8_step_def lead_len_def cont_def)
  next
    case 4
    have "c div 262144 = c div 4096 div 64" by (simp flip: div_mult2_eq)
    then have hq: "h = 64 * (h div 64) + h mod 64" "h mod 64 < 64" "c div 262144 = h div 64"
      using mult_div_mod_eq [of 64 h] by (simp_all add: digits(3))
    define q r where "q = h div 64" and "r = h mod 64"
    with hq c ml 4 \<open>c < 1114112\<close> have "q < 5" "q = 0 \<Longrightarrow> 16 \<le> r" "q = 4 \<Longrightarrow> r < 16" "r < 64"
      "h = 64 * q + r"
      by linarith+
    then have "second_ok (240 + q) (128 + r)"
      unfolding second_ok_def cont_def by auto
    moreover have "utf8_cp c = [240 + q, 128 + r, 128 + m, 128 + l]"
      using 4 ml by (simp add: utf8_cp_def digits hq(3) flip: q_def r_def)
    ultimately show ?thesis using ml \<open>q < 5\<close> \<open>r < 64\<close> c \<open>h = 64 * q + r\<close>
      by (simp add: utf8_step_def lead_len_def cont_def)
  qed
qed

lemma utf8_decode_cp:
  assumes "scalar c"
  shows "utf8_decode_replace (utf8_cp c @ t) = c # utf8_decode_replace t"
proof -
  have split: "utf8_cp c @ t = hd (utf8_cp c) # (tl (utf8_cp c) @ t)"
    using utf8_step_cp(1) [OF assms] by (metis append_Cons)
  show ?thesis
    unfolding split by (simp add: utf8_step_cp(2) [OF assms])
qed

text \<open>Decoding what \<open>encode\<close> produced gives the text back.\<close>

lemma utf8_roundtrip:
  "list_all scalar s \<Longrightarrow> utf8_decode_replace (utf8_units s) = s"
  by (induction s) (simp_all add: utf8_units_def utf8_decode_cp)

text \<open>
  \<open>bytes.decode("utf-8")\<close>: the text whose encoding the bytes are, or an error. (A byte
  sequence that is not well-formed decodes to a text with U+FFFD in it, whose encoding
  differs from the sequence.)
\<close>

definition utf8_decode :: "bytes \<Rightarrow> str res" where
  "utf8_decode b =
     (let s = utf8_decode_replace (map of_char b) in
      if utf8_units s = map of_char b then Inr s else Inl UnicodeDecodeError)"

lemma utf8_cp_byte: "scalar c \<Longrightarrow> b \<in> set (utf8_cp c) \<Longrightarrow> b < 256"
  unfolding utf8_cp_def scalar_def by (auto split: if_splits)

lemma utf8_units_byte: "list_all scalar s \<Longrightarrow> b \<in> set (utf8_units s) \<Longrightarrow> b < 256"
  by (auto simp: utf8_units_def list_all_iff intro: utf8_cp_byte)

lemma utf8_units_ascii: "(\<And>c. c \<in> set s \<Longrightarrow> c < 128) \<Longrightarrow> utf8_units s = s"
  by (induction s) (simp_all add: utf8_units_def utf8_cp_def)

lemma utf8_encode_ascii: "list_all (\<lambda>c. c < 128) (S s) \<Longrightarrow> utf8_encode (S s) = Inr s"
  by (auto simp: utf8_encode_def utf8_units_ascii list_all_iff scalar_def)

lemma utf8_decode_encode: "utf8_encode s = Inr b \<Longrightarrow> utf8_decode b = Inr s"
proof -
  assume "utf8_encode s = Inr b"
  then have valid: "list_all scalar s" and b: "b = map char_of (utf8_units s)"
    by (auto simp: utf8_encode_def split: if_splits)
  have "map of_char b = utf8_units s"
    unfolding b using utf8_units_byte [OF valid] by (simp add: comp_def map_idI)
  then show ?thesis by (simp add: utf8_decode_def utf8_roundtrip [OF valid])
qed

subsection \<open>\<open>urllib.parse.quote\<close> and \<open>unquote\<close>\<close>

definition hexval :: "nat \<Rightarrow> nat option" where
  "hexval c =
     (if 48 \<le> c \<and> c \<le> 57 then Some (c - 48)
      else if 65 \<le> c \<and> c \<le> 70 then Some (c - 55)
      else if 97 \<le> c \<and> c \<le> 102 then Some (c - 87) else None)"

definition hexdigit :: "nat \<Rightarrow> nat" where
  "hexdigit n = (if n < 10 then 48 + n else 55 + n)"

definition always_safe :: "nat \<Rightarrow> bool" where
  "always_safe c \<longleftrightarrow> 65 \<le> c \<and> c \<le> 90 \<or> 97 \<le> c \<and> c \<le> 122 \<or> 48 \<le> c \<and> c \<le> 57
     \<or> c \<in> {45, 46, 95, 126}"

definition quote_byte :: "str \<Rightarrow> nat \<Rightarrow> str" where
  "quote_byte safe b =
     (if always_safe b \<or> b < 128 \<and> b \<in> set safe then [b]
      else [37, hexdigit (b div 16), hexdigit (b mod 16)])"

definition quote :: "str \<Rightarrow> str \<Rightarrow> str res" where
  "quote safe s =
     (if list_all scalar s then Inr (concat (map (quote_byte safe) (utf8_units s)))
      else Inl UnicodeEncodeError)"

text \<open>Percent-decoding keeps a \<open>%\<close> that no two hexadecimal digits follow.\<close>

fun pct_decode :: "nat list \<Rightarrow> nat list" where
  "pct_decode [] = []"
| "pct_decode [a] = [a]"
| "pct_decode [a, b] = a # pct_decode [b]"
| "pct_decode (a # b # c # cs) =
     (if a = 37 then
        (case hexval b of
           Some x \<Rightarrow> (case hexval c of Some y \<Rightarrow> (16 * x + y) # pct_decode cs
                                  | None \<Rightarrow> a # pct_decode (b # c # cs))
         | None \<Rightarrow> a # pct_decode (b # c # cs))
      else a # pct_decode (b # c # cs))"

text \<open>\<open>unquote\<close> decodes each maximal run of ASCII characters and copies the others.\<close>

function unquote_parts :: "str \<Rightarrow> str" where
  "unquote_parts s =
     (if s = [] then []
      else if hd s < 128
      then utf8_decode_replace (pct_decode (takeWhile (\<lambda>c. c < 128) s))
             @ unquote_parts (dropWhile (\<lambda>c. c < 128) s)
      else hd s # unquote_parts (tl s))"
  by pat_completeness auto
termination
proof (relation "measure length")
  fix s :: str
  assume "s \<noteq> []" and "hd s < 128"
  then show "(dropWhile (\<lambda>c. c < 128) s, s) \<in> measure length"
    by (cases s) (auto simp: le_imp_less_Suc length_dropWhile_le)
qed auto

declare unquote_parts.simps [simp del]

definition unquote :: "str \<Rightarrow> str" where
  "unquote s = (if 37 \<in> set s then unquote_parts s else s)"

lemma hexval_hexdigit [simp]: "n < 16 \<Longrightarrow> hexval (hexdigit n) = Some n"
  by (auto simp: hexval_def hexdigit_def)

lemma hexdigit_ascii: "n < 16 \<Longrightarrow> hexdigit n < 128"
  by (simp add: hexdigit_def)

lemma pct_decode_plain: "a \<noteq> 37 \<Longrightarrow> pct_decode (a # cs) = a # pct_decode cs"
  by (cases cs rule: pct_decode.cases) auto

lemma pct_decode_quote_byte:
  assumes "b < 256" and "37 \<notin> set safe"
  shows "pct_decode (quote_byte safe b @ t) = b # pct_decode t"
proof (cases "always_safe b \<or> b < 128 \<and> b \<in> set safe")
  case True
  with assms have "b \<noteq> 37" by (auto simp: always_safe_def)
  with True show ?thesis by (simp add: quote_byte_def pct_decode_plain)
next
  case False
  then have "quote_byte safe b = [37, hexdigit (b div 16), hexdigit (b mod 16)]"
    by (auto simp: quote_byte_def)
  with assms(1) show ?thesis by simp
qed

lemma pct_decode_quote:
  assumes "\<And>b. b \<in> set bs \<Longrightarrow> b < 256" and "37 \<notin> set safe"
  shows "pct_decode (concat (map (quote_byte safe) bs)) = bs"
  using assms(1) by (induction bs) (simp_all add: pct_decode_quote_byte assms(2))

lemma quote_byte_ascii: "b < 256 \<Longrightarrow> c \<in> set (quote_byte safe b) \<Longrightarrow> c < 128"
  by (auto simp: quote_byte_def always_safe_def hexdigit_ascii less_mult_imp_div_less split: if_splits)

lemma quote_ascii:
  assumes "quote safe s = Inr q" and "c \<in> set q"
  shows "c < 128"
proof -
  from assms obtain b where "list_all scalar s" "b \<in> set (utf8_units s)" "c \<in> set (quote_byte safe b)"
    by (auto simp: quote_def split: if_splits)
  then show ?thesis using utf8_units_byte quote_byte_ascii by blast
qed

lemma unquote_ascii:
  assumes "\<And>c. c \<in> set s \<Longrightarrow> c < 128" and "utf8_decode_replace (pct_decode s) = t"
    and "37 \<notin> set s \<Longrightarrow> t = s"
  shows "unquote s = t"
proof (cases s)
  case Nil
  with assms show ?thesis by (auto simp: unquote_def)
next
  case (Cons a s')
  have run: "takeWhile (\<lambda>c. c < 128) s = s" "dropWhile (\<lambda>c. c < 128) s = []"
    using assms(1) by (simp_all add: takeWhile_eq_all_conv)
  have "s \<noteq> []" "hd s < 128" using assms(1) [of a] Cons by simp_all
  moreover have "unquote_parts [] = []" by (simp add: unquote_parts.simps)
  ultimately have "unquote_parts s = t"
    by (subst unquote_parts.simps) (simp only: run assms(2) if_False if_True append_Nil2 simp_thms)
  with assms(3) show ?thesis by (auto simp: unquote_def)
qed

lemma pct_decode_id: "37 \<notin> set s \<Longrightarrow> pct_decode s = s"
  by (induction s) (auto simp: pct_decode_plain)

lemma utf8_decode_ascii: "(\<And>c. c \<in> set s \<Longrightarrow> c < 128) \<Longrightarrow> utf8_decode_replace s = s"
  by (induction s) (simp_all add: utf8_step_def lead_len_def)

text \<open>\<open>unquote\<close> inverts \<open>quote\<close> as long as \<open>%\<close> itself is not declared safe.\<close>

lemma unquote_quote:
  assumes "quote safe s = Inr q" and "37 \<notin> set safe"
  shows "unquote q = s"
proof (rule unquote_ascii)
  show "c < 128" if "c \<in> set q" for c
    using quote_ascii [OF assms(1) that] .
  have valid: "list_all scalar s" and q: "q = concat (map (quote_byte safe) (utf8_units s))"
    using assms(1) by (auto simp: quote_def split: if_splits)
  have "pct_decode q = utf8_units s"
    unfolding q by (rule pct_decode_quote) (auto intro: utf8_units_byte [OF valid] simp: assms(2))
  then show decoded: "utf8_decode_replace (pct_decode q) = s"
    by (simp add: utf8_roundtrip [OF valid])
  show "s = q" if "37 \<notin> set q"
    using that decoded quote_ascii [OF assms(1)] by (simp add: pct_decode_id utf8_decode_ascii)
qed

end
