(* ===== verification/Multi_Mapping.thy ===== *)
theory Multi_Mapping
  imports Py_Prelude
begin

text \<open>
  The interface every multi-value mapping of the program offers to the code that reads
  requests: all pairs (\<open>multi_items\<close>), all values of one key (\<open>getlist\<close>), the single
  value of a key (\<open>get\<close>) and the keys. The classes differ in how a key is normalised
  (\<open>norm\<close>: lower case for headers, nothing for query and form data) and in which of
  several values \<open>get\<close> delivers (\<open>pick\<close>: the first, the last, or all of them joined).
  The laws are stated once here; the component theories interpret the locale on their
  definitions.
\<close>

text \<open>The values of the pairs whose key is \<open>k\<close>, in order.\<close>

definition values_of :: "('k \<times> 'v) list \<Rightarrow> 'k \<Rightarrow> 'v list" where
  "values_of ps k = map snd (filter (\<lambda>p. fst p = k) ps)"

lemma values_of_Nil [simp]: "values_of [] k = []"
  by (simp add: values_of_def)

lemma values_of_Cons [simp]:
  "values_of ((k', v) # ps) k = (if k' = k then v # values_of ps k else values_of ps k)"
  by (simp add: values_of_def)

lemma values_of_append [simp]: "values_of (ps @ qs) k = values_of ps k @ values_of qs k"
  by (simp add: values_of_def)

lemma values_of_eq_Nil: "values_of ps k = [] \<longleftrightarrow> k \<notin> fst ` set ps"
  by (auto simp: values_of_def filter_empty_conv)

lemma values_of_const_key: "values_of (map (\<lambda>v. (k, v)) vs) k' = (if k = k' then vs else [])"
  by (induction vs) auto

text \<open>The first value of each key, as a chain of \<open>setdefault\<close> calls builds it.\<close>

definition first_dict :: "('k \<times> 'v) list \<Rightarrow> ('k, 'v) dict \<Rightarrow> ('k, 'v) dict" where
  "first_dict ps d = fold (\<lambda>(k, v). dict_setdefault k v) ps d"

lemma first_dict_Nil [simp]: "first_dict [] d = d"
  by (simp add: first_dict_def)

lemma first_dict_Cons [simp]: "first_dict ((k, v) # ps) d = first_dict ps (dict_setdefault k v d)"
  by (simp add: first_dict_def)

lemma dict_wf_first_dict [dict_intros]: "dict_wf d \<Longrightarrow> dict_wf (first_dict ps d)"
proof (induction ps arbitrary: d)
  case Nil
  then show ?case by simp
next
  case (Cons p ps)
  then show ?case by (cases p) (simp add: dict_wf_setdefault)
qed

lemma map_of_first_dict:
  "map_of (first_dict ps d) k =
     (case map_of d k of Some v \<Rightarrow> Some v
        | None \<Rightarrow> (case values_of ps k of [] \<Rightarrow> None | v # _ \<Rightarrow> Some v))"
proof (induction ps arbitrary: d)
  case Nil
  then show ?case by (simp split: option.split)
next
  case (Cons p ps)
  then show ?case by (cases p) (auto simp: map_of_dict_setdefault split: option.splits)
qed

lemma keys_first_dict: "fst ` set (first_dict ps d) = fst ` set d \<union> fst ` set ps"
proof -
  have "dom (map_of (first_dict ps d)) = dom (map_of d) \<union> fst ` set ps"
    by (auto simp: map_of_first_dict dom_def values_of_eq_Nil split: option.splits list.splits)
  then show ?thesis by (simp add: dom_map_of_conv_image_fst)
qed

locale multi_mapping =
  fixes multi_items :: "'m \<Rightarrow> ('k \<times> 'v) list"
    and getlist :: "'m \<Rightarrow> 'k \<Rightarrow> 'v list"
    and get :: "'m \<Rightarrow> 'k \<Rightarrow> 'v option"
    and keys :: "'m \<Rightarrow> 'k list"
    and norm :: "'k \<Rightarrow> 'k"
    and pick :: "'v list \<Rightarrow> 'v"
    and invar :: "'m \<Rightarrow> bool"
  assumes getlist_law: "invar m \<Longrightarrow> getlist m k = values_of (multi_items m) (norm k)"
    and get_law: "invar m \<Longrightarrow> get m k =
          (if getlist m k = [] then None else Some (pick (getlist m k)))"
    and keys_law: "invar m \<Longrightarrow> set (keys m) = fst ` set (multi_items m)"
    and distinct_keys: "invar m \<Longrightarrow> distinct (keys m)"
    and norm_idem: "norm (norm k) = norm k"
begin

text \<open>A key is present exactly when it has a value, and spelling does not matter.\<close>

lemma get_None_iff: "invar m \<Longrightarrow> get m k = None \<longleftrightarrow> norm k \<notin> set (keys m)"
  by (simp add: get_law getlist_law keys_law values_of_eq_Nil)

lemma get_norm: "invar m \<Longrightarrow> get m (norm k) = get m k"
  by (simp add: get_law getlist_law norm_idem)

lemma getlist_norm: "invar m \<Longrightarrow> getlist m (norm k) = getlist m k"
  by (simp add: getlist_law norm_idem)

text \<open>One value only: \<open>get\<close> and \<open>getlist\<close> agree on it.\<close>

lemma get_single:
  "invar m \<Longrightarrow> (\<And>v. pick [v] = v) \<Longrightarrow> getlist m k = [v] \<Longrightarrow> get m k = Some v"
  by (simp add: get_law)

text \<open>The number of keys never exceeds the number of pairs.\<close>

lemma length_keys: "invar m \<Longrightarrow> length (keys m) \<le> length (multi_items m)"
proof -
  assume "invar m"
  then have "length (keys m) = card (fst ` set (multi_items m))"
    using distinct_card [OF distinct_keys] keys_law by metis
  also have "\<dots> \<le> length (multi_items m)"
    using card_image_le [of "set (multi_items m)" fst] card_length [of "multi_items m"] by simp
  finally show ?thesis .
qed

end

text \<open>Mappings whose \<open>get\<close> delivers one of the stored values rather than a combination.\<close>

locale selecting_mapping = multi_mapping +
  assumes pick_in: "vs \<noteq> [] \<Longrightarrow> pick vs \<in> set vs"
begin

lemma get_stored: "invar m \<Longrightarrow> get m k = Some v \<Longrightarrow> (norm k, v) \<in> set (multi_items m)"
proof -
  assume inv: "invar m" and g: "get m k = Some v"
  then have "v \<in> set (getlist m k)"
    using pick_in [of "getlist m k"] by (auto simp: get_law split: if_splits)
  then show ?thesis using inv by (auto simp: getlist_law values_of_def)
qed

end

text \<open>
  The interface of a mapping that can be assigned to: a lookup after a store sees the new
  value at that key and the old ones elsewhere. Assigning a list of pairs one after another,
  as every \<open>update\<close> method does, is derived once.
\<close>

locale mutable_mapping =
  fixes look :: "'m \<Rightarrow> 'k \<Rightarrow> 'v option"
    and store :: "'k \<Rightarrow> 'w \<Rightarrow> 'm \<Rightarrow> 'm"
    and view :: "'w \<Rightarrow> 'v"
    and invar :: "'m \<Rightarrow> bool"
    and good_key :: "'k \<Rightarrow> bool"
  assumes look_store: "invar m \<Longrightarrow> good_key k \<Longrightarrow> look (store k w m) = (look m)(k \<mapsto> view w)"
    and invar_store: "invar m \<Longrightarrow> good_key k \<Longrightarrow> invar (store k w m)"
begin

lemma store_all:
  assumes "invar m" and "\<And>k w. (k, w) \<in> set ps \<Longrightarrow> good_key k"
  shows "invar (fold (\<lambda>(k, w). store k w) ps m) \<and>
         look (fold (\<lambda>(k, w). store k w) ps m) = look m ++ map_of (rev (map (\<lambda>(k, w). (k, view w)) ps))"
  using assms
proof (induction ps arbitrary: m)
  case Nil
  then show ?case by simp
next
  case (Cons p ps)
  obtain k w where p: "p = (k, w)" by fastforce
  have "good_key k" using Cons.prems(2) [of k w] p by simp
  with Cons.prems(1) have "invar (store k w m)" "look (store k w m) = (look m)(k \<mapsto> view w)"
    by (simp_all add: invar_store look_store)
  moreover have "good_key k'" if "(k', w') \<in> set ps" for k' w'
    using Cons.prems(2) [of k' w'] that by simp
  ultimately have "invar (fold (\<lambda>(k, w). store k w) ps (store k w m)) \<and>
      look (fold (\<lambda>(k, w). store k w) ps (store k w m)) =
        (look m)(k \<mapsto> view w) ++ map_of (rev (map (\<lambda>(k, w). (k, view w)) ps))"
    using Cons.IH [of "store k w m"] by (simp add: fun_upd_def)
  then show ?case by (simp add: p)
qed

end

interpretation py_dict: mutable_mapping map_of dict_set "\<lambda>v. v" dict_wf "\<lambda>_. True"
  by unfold_locales (simp_all add: map_of_dict_set dict_wf_set)

end
