(* ===== verification/Asgi.thy ===== *)
theory Asgi
  imports Py_Prelude
begin

text \<open>
  The ASGI vocabulary the components exchange: the connection scope, the messages an
  application sends and receives, and what a complete HTTP response is.

  A scope is a Python dict; its keys that may be absent are options, so that
  \<open>scope.get("k", d)\<close> is the default where the field is \<open>None\<close>. A raw header is a
  pair whose halves are \<open>bytes\<close> or \<open>str\<close>, since the code tests for both.
\<close>

datatype hval = HB bytes | HS str

type_synonym raw_headers = "(hval \<times> hval) list"
type_synonym resp_headers = "(bytes \<times> bytes) list"

text \<open>Values a path convertor produces (\<open>_routing_base.CONVERTOR_TYPES\<close>).\<close>

datatype pval = PStr str | PInt int | PUuid nat

record scope =
  sc_type :: str
  sc_method :: "str option"
  sc_path :: "str option"
  sc_root_path :: "str option"
  sc_scheme :: "str option"
  sc_server :: "(str \<times> int) option"
  sc_client :: "(str \<times> int) option"
  sc_query :: "hval option"
  sc_headers :: "raw_headers option"
  sc_path_params :: "(str, pval) dict option"
  sc_endpoint :: "nat option"
  sc_app_root_path :: "str option"
  sc_app :: bool
  sc_body :: "bytes option"

definition get_or :: "'a option \<Rightarrow> 'a \<Rightarrow> 'a" where
  "get_or x d = (case x of None \<Rightarrow> d | Some v \<Rightarrow> v)"

lemma get_or_simps [simp]: "get_or None d = d" "get_or (Some v) d = v"
  by (simp_all add: get_or_def)

text \<open>Messages an HTTP application sends, with the keys \<open>msg.get\<close> may not find.\<close>

datatype message =
    RespStart int "resp_headers option"
  | RespBody "bytes option" "bool option"
  | OtherMsg str

definition more_body :: "bool option \<Rightarrow> bool" where
  "more_body m = get_or m False"

definition body_bytes :: "bytes option \<Rightarrow> bytes" where
  "body_bytes b = get_or b []"

lemma more_body_simps [simp]: "more_body None = False" "more_body (Some b) = b"
  by (simp_all add: more_body_def)

lemma body_bytes_simps [simp]: "body_bytes None = []" "body_bytes (Some b) = b"
  by (simp_all add: body_bytes_def)

text \<open>
  The response protocol of ASGI as an automaton: one start message, then body messages
  until one that announces no further body; nothing after it.
\<close>

datatype rstate = Idle | Streaming | Complete | Broken

fun rstep :: "rstate \<Rightarrow> message \<Rightarrow> rstate" where
  "rstep Idle (RespStart st h) = Streaming"
| "rstep Streaming (RespBody b m) = (if more_body m then Streaming else Complete)"
| "rstep s (OtherMsg t) = s"
| "rstep s m = Broken"

definition run_response :: "rstate \<Rightarrow> message list \<Rightarrow> rstate" where
  "run_response s ms = foldl rstep s ms"

definition response_complete :: "message list \<Rightarrow> bool" where
  "response_complete ms \<longleftrightarrow> run_response Idle ms = Complete"

fun body_of :: "message list \<Rightarrow> bytes" where
  "body_of [] = []"
| "body_of (RespBody b m # ms) = body_bytes b @ body_of ms"
| "body_of (_ # ms) = body_of ms"

lemma run_response_Nil [simp]: "run_response s [] = s"
  by (simp add: run_response_def)

lemma run_response_Cons [simp]: "run_response s (m # ms) = run_response (rstep s m) ms"
  by (simp add: run_response_def)

lemma run_response_append [simp]:
  "run_response s (ms @ ns) = run_response (run_response s ms) ns"
  by (simp add: run_response_def)

lemma rstep_Broken [simp]: "rstep Broken m = Broken"
  by (cases m) auto

lemma run_response_Broken [simp]: "run_response Broken ms = Broken"
  by (induction ms) auto

lemma body_of_append [simp]: "body_of (ms @ ns) = body_of ms @ body_of ns"
  by (induction ms rule: body_of.induct) auto

text \<open>A request body as it arrives on the receive channel.\<close>

datatype event =
    HttpRequest "bytes option" "bool option"
  | HttpDisconnect

fun ev_body :: "event \<Rightarrow> bytes" where
  "ev_body (HttpRequest b m) = body_bytes b"
| "ev_body HttpDisconnect = []"

fun ev_more :: "event \<Rightarrow> bool" where
  "ev_more (HttpRequest b m) = more_body m"
| "ev_more HttpDisconnect = False"

end
