(* ===== verification/DataStructures.thy ===== *)
theory DataStructures
  imports Multi_Mapping Asgi Url_Codec
begin

text \<open>
  The data structures of \<open>astraapi/_datastructures_impl.py\<close>: \<open>State\<close>, \<open>Address\<close>,
  \<open>Headers\<close>, \<open>QueryParams\<close>, \<open>UploadFile\<close> and \<open>FormData\<close>. The two header and query
  classes parse lazily: their records keep the raw input and the caches the code fills
  on first use, every reading operation returns the record with its caches filled, and
  the invariant says that a filled cache holds what parsing the raw input gives.
  \<open>Headers\<close>, \<open>QueryParams\<close> and \<open>FormData\<close> interpret \<open>selecting_mapping\<close>.
\<close>

subsection \<open>State\<close>

type_synonym 'v state_obj = "(str, 'v) dict"

definition state_init :: "(str, 'v) dict option \<Rightarrow> 'v state_obj" where
  "state_init st = (case st of None \<Rightarrow> [] | Some d \<Rightarrow> d)"

definition state_setattr :: "'v state_obj \<Rightarrow> str \<Rightarrow> 'v \<Rightarrow> 'v state_obj" where
  "state_setattr s name v = dict_set name v s"

text \<open>\<open>"'State' object has no attribute 'name'"\<close>; 39 is the apostrophe.\<close>

definition attr_message :: "str \<Rightarrow> str" where
  "attr_message name = 39 # S ''State'' @ 39 # S '' object has no attribute '' @ 39 # name @ [39]"

definition state_getattr :: "'v state_obj \<Rightarrow> str \<Rightarrow> 'v res" where
  "state_getattr s name =
     (case map_of s name of Some v \<Rightarrow> Inr v | None \<Rightarrow> Inl (AttributeError (attr_message name)))"

definition state_delattr :: "'v state_obj \<Rightarrow> str \<Rightarrow> 'v state_obj res" where
  "state_delattr s name =
     (case map_of s name of Some _ \<Rightarrow> Inr (dict_del name s)
        | None \<Rightarrow> Inl (AttributeError (attr_message name)))"

definition state_contains :: "'v state_obj \<Rightarrow> str \<Rightarrow> bool" where
  "state_contains s key = dict_has s key"

text \<open>\<open>dict\<close> equality ignores the order of insertion.\<close>

definition state_eq :: "'v state_obj \<Rightarrow> 'v state_obj \<Rightarrow> bool" where
  "state_eq s t \<longleftrightarrow> length s = length t \<and> list_all (\<lambda>(k, v). map_of t k = Some v) s"

definition state_copy :: "'v state_obj \<Rightarrow> 'v state_obj" where
  "state_copy s = s"

subsection \<open>Address\<close>

record address =
  addr_host :: str
  addr_port :: int

datatype addr_item = AHost str | APort int

definition addr_iter :: "address \<Rightarrow> addr_item list" where
  "addr_iter a = [AHost (addr_host a), APort (addr_port a)]"

text \<open>Indexing the tuple \<open>(host, port)\<close>: negative indices count from the end.\<close>

definition addr_getitem :: "address \<Rightarrow> int \<Rightarrow> addr_item res" where
  "addr_getitem a i =
     (let j = (if i < 0 then i + 2 else i) in
      if j = 0 then Inr (AHost (addr_host a))
      else if j = 1 then Inr (APort (addr_port a)) else Inl IndexError)"

subsection \<open>Headers\<close>

record headers =
  hd_raw :: raw_headers
  hd_dict :: "(str, str) dict option"
  hd_list :: "(str \<times> str) list option"

text \<open>
  The three ways to construct headers, in the order the code tries them; a scope is
  given by its \<open>headers\<close> entry. Encoding a plain dict fails outside Latin-1.
\<close>

definition headers_of_dict :: "(str, str) dict \<Rightarrow> raw_headers res" where
  "headers_of_dict d =
     rmap (\<lambda>(k, v). rbind (latin1_encode (lower k)) (\<lambda>kb. rbind (latin1_encode v)
              (\<lambda>vb. Inr (HB kb, HB vb)))) d"

definition headers_init ::
  "raw_headers option \<Rightarrow> raw_headers option option \<Rightarrow> (str, str) dict option \<Rightarrow> headers res" where
  "headers_init raw scope hdrs =
     rbind
       (case raw of Some r \<Rightarrow> Inr r
        | None \<Rightarrow> (case scope of Some h \<Rightarrow> Inr (get_or h [])
        | None \<Rightarrow> (case hdrs of Some d \<Rightarrow> headers_of_dict d | None \<Rightarrow> Inr [])))
       (\<lambda>r. Inr \<lparr>hd_raw = r, hd_dict = None, hd_list = None\<rparr>)"

definition hname :: "hval \<Rightarrow> str" where
  "hname n = (case n of HB b \<Rightarrow> lower (latin1_decode b) | HS s \<Rightarrow> lower s)"

definition hvalue :: "hval \<Rightarrow> str" where
  "hvalue v = (case v of HB b \<Rightarrow> latin1_decode b | HS s \<Rightarrow> s)"

fun headers_loop ::
  "raw_headers \<Rightarrow> (str, str) dict \<Rightarrow> (str \<times> str) list \<Rightarrow> (str, str) dict \<times> (str \<times> str) list" where
  "headers_loop [] d items = (d, items)"
| "headers_loop ((n, v) # raw) d items =
     headers_loop raw (dict_setdefault (hname n) (hvalue v) d) (items @ [(hname n, hvalue v)])"

definition headers_ensure_parsed :: "headers \<Rightarrow> headers" where
  "headers_ensure_parsed h =
     (case hd_dict h of
        Some _ \<Rightarrow> h
      | None \<Rightarrow> (let (d, items) = headers_loop (hd_raw h) [] []
                 in h\<lparr>hd_dict := Some d, hd_list := Some items\<rparr>))"

abbreviation headers_dict :: "headers \<Rightarrow> (str, str) dict" where
  "headers_dict h \<equiv> get_or (hd_dict (headers_ensure_parsed h)) []"

abbreviation headers_list :: "headers \<Rightarrow> (str \<times> str) list" where
  "headers_list h \<equiv> get_or (hd_list (headers_ensure_parsed h)) []"

text \<open>Each reading operation returns its result and the header object with filled caches.\<close>

definition headers_get :: "headers \<Rightarrow> str \<Rightarrow> str option \<Rightarrow> str option \<times> headers" where
  "headers_get h key dflt =
     ((case map_of (headers_dict h) (lower key) of Some v \<Rightarrow> Some v | None \<Rightarrow> dflt),
      headers_ensure_parsed h)"

definition headers_getlist :: "headers \<Rightarrow> str \<Rightarrow> str list \<times> headers" where
  "headers_getlist h key =
     (map snd (filter (\<lambda>(k, v). k = lower key) (headers_list h)), headers_ensure_parsed h)"

definition headers_keys :: "headers \<Rightarrow> str list \<times> headers" where
  "headers_keys h = (map fst (headers_dict h), headers_ensure_parsed h)"

definition headers_values :: "headers \<Rightarrow> str list \<times> headers" where
  "headers_values h = (map snd (headers_dict h), headers_ensure_parsed h)"

definition headers_items :: "headers \<Rightarrow> (str \<times> str) list \<times> headers" where
  "headers_items h = (headers_dict h, headers_ensure_parsed h)"

definition headers_multi_items :: "headers \<Rightarrow> (str \<times> str) list \<times> headers" where
  "headers_multi_items h = (headers_list h, headers_ensure_parsed h)"

definition headers_getitem :: "headers \<Rightarrow> str \<Rightarrow> str res \<times> headers" where
  "headers_getitem h key =
     ((case map_of (headers_dict h) (lower key) of Some v \<Rightarrow> Inr v | None \<Rightarrow> Inl (KeyError key)),
      headers_ensure_parsed h)"

definition headers_contains :: "headers \<Rightarrow> str \<Rightarrow> bool \<times> headers" where
  "headers_contains h key = (dict_has (headers_dict h) (lower key), headers_ensure_parsed h)"

definition headers_len :: "headers \<Rightarrow> nat \<times> headers" where
  "headers_len h = (length (headers_dict h), headers_ensure_parsed h)"

subsection \<open>QueryParams\<close>

record query_params =
  qp_raw :: str
  qp_dict :: "(str, str) dict option"
  qp_multi :: "(str, str list) dict option"

definition qp_init :: "hval \<Rightarrow> query_params" where
  "qp_init qs = \<lparr>qp_raw = (case qs of HB b \<Rightarrow> latin1_decode b | HS s \<Rightarrow> s),
                 qp_dict = None, qp_multi = None\<rparr>"

text \<open>\<open>k.replace("+", " ")\<close>: 43 is the plus sign, 32 the space.\<close>

definition plus_to_space :: "str \<Rightarrow> str" where
  "plus_to_space s = map (\<lambda>c. if c = 43 then 32 else c) s"

text \<open>One part of the query string; 61 is the equals sign.\<close>

definition qp_pair :: "str \<Rightarrow> str \<times> str" where
  "qp_pair part =
     (let (k, v) = (if 61 \<in> set part then split_once 61 part else (part, []))
      in (unquote (plus_to_space k), unquote (plus_to_space v)))"

text \<open>\<open>multi.setdefault(k, []).append(v)\<close>.\<close>

definition multi_append :: "'k \<Rightarrow> 'v \<Rightarrow> ('k, 'v list) dict \<Rightarrow> ('k, 'v list) dict" where
  "multi_append k v d = dict_set k (dict_get d k [] @ [v]) d"

fun qp_loop :: "str list \<Rightarrow> (str, str list) dict \<Rightarrow> (str, str list) dict" where
  "qp_loop [] multi = multi"
| "qp_loop (part # parts) multi =
     (if part = [] then qp_loop parts multi
      else (let (k, v) = qp_pair part in qp_loop parts (multi_append k v multi)))"

text \<open>38 is the ampersand.\<close>

definition qp_parse :: "str \<Rightarrow> (str, str list) dict" where
  "qp_parse raw = (if raw = [] then [] else qp_loop (split_on 38 raw) [])"

definition qp_last :: "(str, str list) dict \<Rightarrow> (str, str) dict" where
  "qp_last multi = map (\<lambda>(k, v). (k, last v)) (filter (\<lambda>(k, v). v \<noteq> []) multi)"

definition qp_ensure_parsed :: "query_params \<Rightarrow> query_params" where
  "qp_ensure_parsed q =
     (case qp_dict q of
        Some _ \<Rightarrow> q
      | None \<Rightarrow> q\<lparr>qp_multi := Some (qp_parse (qp_raw q)),
                  qp_dict := Some (qp_last (qp_parse (qp_raw q)))\<rparr>)"

abbreviation qp_the_dict :: "query_params \<Rightarrow> (str, str) dict" where
  "qp_the_dict q \<equiv> get_or (qp_dict (qp_ensure_parsed q)) []"

abbreviation qp_the_multi :: "query_params \<Rightarrow> (str, str list) dict" where
  "qp_the_multi q \<equiv> get_or (qp_multi (qp_ensure_parsed q)) []"

definition qp_get :: "query_params \<Rightarrow> str \<Rightarrow> str option \<Rightarrow> str option \<times> query_params" where
  "qp_get q key dflt =
     ((case map_of (qp_the_dict q) key of Some v \<Rightarrow> Some v | None \<Rightarrow> dflt), qp_ensure_parsed q)"

definition qp_getlist :: "query_params \<Rightarrow> str \<Rightarrow> str list \<times> query_params" where
  "qp_getlist q key = (dict_get (qp_the_multi q) key [], qp_ensure_parsed q)"

definition qp_multi_items :: "query_params \<Rightarrow> (str \<times> str) list \<times> query_params" where
  "qp_multi_items q =
     (concat (map (\<lambda>(k, vs). map (\<lambda>v. (k, v)) vs) (qp_the_multi q)), qp_ensure_parsed q)"

definition qp_keys :: "query_params \<Rightarrow> str list \<times> query_params" where
  "qp_keys q = (map fst (qp_the_dict q), qp_ensure_parsed q)"

definition qp_getitem :: "query_params \<Rightarrow> str \<Rightarrow> str res \<times> query_params" where
  "qp_getitem q key =
     ((case map_of (qp_the_dict q) key of Some v \<Rightarrow> Inr v | None \<Rightarrow> Inl (KeyError key)),
      qp_ensure_parsed q)"

definition qp_contains :: "query_params \<Rightarrow> str \<Rightarrow> bool \<times> query_params" where
  "qp_contains q key = (dict_has (qp_the_dict q) key, qp_ensure_parsed q)"

definition qp_len :: "query_params \<Rightarrow> nat \<times> query_params" where
  "qp_len q = (length (qp_the_dict q), qp_ensure_parsed q)"

definition qp_bool :: "query_params \<Rightarrow> bool \<times> query_params" where
  "qp_bool q = (qp_the_dict q \<noteq> [], qp_ensure_parsed q)"

subsection \<open>UploadFile\<close>

text \<open>The in-memory binary file an upload wraps (\<open>io.BytesIO\<close>).\<close>

record bytes_io =
  io_data :: bytes
  io_pos :: nat
  io_closed :: bool

definition closed_error :: exn where
  "closed_error = ValueError (S ''I/O operation on closed file.'')"

definition io_read :: "bytes_io \<Rightarrow> int \<Rightarrow> (bytes \<times> bytes_io) res" where
  "io_read f sz =
     (if io_closed f then Inl closed_error
      else (let rest = drop (io_pos f) (io_data f);
                out = (if sz < 0 then rest else take (nat sz) rest)
            in Inr (out, f\<lparr>io_pos := io_pos f + length out\<rparr>)))"

text \<open>Writing beyond the end pads with zero bytes; writing nothing changes nothing.\<close>

definition io_write :: "bytes_io \<Rightarrow> bytes \<Rightarrow> bytes_io res" where
  "io_write f d =
     (if io_closed f then Inl closed_error
      else if d = [] then Inr f
      else (let p = io_pos f; padded = io_data f @ replicate (p - length (io_data f)) (char_of (0::nat))
            in Inr (f\<lparr>io_data := take p padded @ d @ drop (p + length d) (io_data f),
                      io_pos := p + length d\<rparr>)))"

definition io_seek :: "bytes_io \<Rightarrow> int \<Rightarrow> bytes_io res" where
  "io_seek f off =
     (if io_closed f then Inl closed_error
      else if off < 0 then Inl (ValueError (S ''negative seek value''))
      else Inr (f\<lparr>io_pos := nat off\<rparr>))"

definition io_close :: "bytes_io \<Rightarrow> bytes_io" where
  "io_close f = f\<lparr>io_closed := True\<rparr>"

record upload_file =
  uf_filename :: "str option"
  uf_content_type :: str
  uf_headers :: headers
  uf_size :: "int option"
  uf_file :: bytes_io

text \<open>\<open>headers or Headers()\<close>: an empty mapping is falsy, since \<open>Headers\<close> has \<open>__len__\<close>.\<close>

definition uf_init ::
  "str option \<Rightarrow> bytes_io option \<Rightarrow> str \<Rightarrow> headers option \<Rightarrow> int option \<Rightarrow> upload_file" where
  "uf_init filename file content_type hdrs sz =
     \<lparr>uf_filename = filename, uf_content_type = content_type,
      uf_headers = (let empty = \<lparr>hd_raw = [], hd_dict = None, hd_list = None\<rparr> in
                    case hdrs of None \<Rightarrow> empty
                    | Some h \<Rightarrow> (if fst (headers_len h) = 0 then empty else snd (headers_len h))),
      uf_size = sz,
      uf_file = (case file of Some f \<Rightarrow> f
                 | None \<Rightarrow> \<lparr>io_data = [], io_pos = 0, io_closed = False\<rparr>)\<rparr>"

definition uf_read :: "upload_file \<Rightarrow> int \<Rightarrow> (bytes \<times> upload_file) res" where
  "uf_read u sz =
     rbind (io_read (uf_file u) sz) (\<lambda>(out, f). Inr (out, u\<lparr>uf_file := f\<rparr>))"

text \<open>
  The size is counted before the file is written, so a failing write still changes it:
  the object is returned with the outcome.
\<close>

definition uf_write :: "upload_file \<Rightarrow> bytes \<Rightarrow> unit res \<times> upload_file" where
  "uf_write u d =
     (let u1 = (case uf_size u of None \<Rightarrow> u | Some n \<Rightarrow> u\<lparr>uf_size := Some (n + int (length d))\<rparr>)
      in case io_write (uf_file u1) d of
           Inl e \<Rightarrow> (Inl e, u1)
         | Inr f \<Rightarrow> (Inr (), u1\<lparr>uf_file := f\<rparr>))"

definition uf_seek :: "upload_file \<Rightarrow> int \<Rightarrow> upload_file res" where
  "uf_seek u off = rbind (io_seek (uf_file u) off) (\<lambda>f. Inr (u\<lparr>uf_file := f\<rparr>))"

definition uf_close :: "upload_file \<Rightarrow> upload_file" where
  "uf_close u = u\<lparr>uf_file := io_close (uf_file u)\<rparr>"

definition uf_eq :: "upload_file \<Rightarrow> upload_file \<Rightarrow> bool" where
  "uf_eq u w \<longleftrightarrow> uf_filename u = uf_filename w \<and> uf_content_type u = uf_content_type w
     \<and> uf_size u = uf_size w"

subsection \<open>FormData\<close>

text \<open>
  A form value is text or an upload. Uploads are objects shared between the list and the
  dictionary of the form, so they are references into a store of files.
\<close>

datatype form_value = FText str | FUpload nat

type_synonym file_store = "nat \<Rightarrow> upload_file"

record form_data =
  fd_list :: "(str \<times> form_value) list"
  fd_dict :: "(str, form_value) dict"

text \<open>
  The argument may be a dict, a list or tuple, another form, or any other iterable of
  pairs; keyword arguments are appended.
\<close>

datatype form_arg =
    ArgDict "(str, form_value) dict"
  | ArgSeq "(str \<times> form_value) list"
  | ArgForm form_data
  | ArgIter "(str \<times> form_value) list"

fun fd_arg_items :: "form_arg \<Rightarrow> (str \<times> form_value) list" where
  "fd_arg_items (ArgDict d) = d"
| "fd_arg_items (ArgSeq l) = l"
| "fd_arg_items (ArgForm f) = fd_list f"
| "fd_arg_items (ArgIter l) = l"

definition fd_init :: "form_arg option \<Rightarrow> (str, form_value) dict \<Rightarrow> form_data" where
  "fd_init arg kwargs =
     (let items = (case arg of None \<Rightarrow> [] | Some a \<Rightarrow> fd_arg_items a) @ kwargs
      in \<lparr>fd_list = items, fd_dict = first_dict items []\<rparr>)"

definition fd_get :: "form_data \<Rightarrow> str \<Rightarrow> form_value option \<Rightarrow> form_value option" where
  "fd_get f key dflt = (case map_of (fd_dict f) key of Some v \<Rightarrow> Some v | None \<Rightarrow> dflt)"

definition fd_getlist :: "form_data \<Rightarrow> str \<Rightarrow> form_value list" where
  "fd_getlist f key = map snd (filter (\<lambda>(k, v). k = key) (fd_list f))"

definition fd_multi_items :: "form_data \<Rightarrow> (str \<times> form_value) list" where
  "fd_multi_items f = fd_list f"

definition fd_keys :: "form_data \<Rightarrow> str list" where
  "fd_keys f = map fst (fd_dict f)"

definition fd_getitem :: "form_data \<Rightarrow> str \<Rightarrow> form_value res" where
  "fd_getitem f key = (case map_of (fd_dict f) key of Some v \<Rightarrow> Inr v | None \<Rightarrow> Inl (KeyError key))"

definition fd_contains :: "form_data \<Rightarrow> str \<Rightarrow> bool" where
  "fd_contains f key = dict_has (fd_dict f) key"

definition fd_len :: "form_data \<Rightarrow> nat" where
  "fd_len f = length (fd_dict f)"

definition fd_bool :: "form_data \<Rightarrow> bool" where
  "fd_bool f \<longleftrightarrow> fd_list f \<noteq> []"

fun fd_close_loop :: "(str \<times> form_value) list \<Rightarrow> file_store \<Rightarrow> file_store" where
  "fd_close_loop [] st = st"
| "fd_close_loop ((k, FUpload r) # ps) st = fd_close_loop ps (st(r := uf_close (st r)))"
| "fd_close_loop ((k, FText t) # ps) st = fd_close_loop ps st"

definition fd_close :: "form_data \<Rightarrow> file_store \<Rightarrow> file_store" where
  "fd_close f st = fd_close_loop (fd_list f) st"

subsection \<open>Lemmas: headers\<close>

definition headers_ok :: "headers \<Rightarrow> bool" where
  "headers_ok h \<longleftrightarrow>
     (hd_dict h = None \<and> hd_list h = None \<or>
      hd_dict h = Some (fst (headers_loop (hd_raw h) [] [])) \<and>
      hd_list h = Some (snd (headers_loop (hd_raw h) [] [])))"

definition header_pairs :: "raw_headers \<Rightarrow> (str \<times> str) list" where
  "header_pairs raw = map (\<lambda>(n, v). (hname n, hvalue v)) raw"

lemma headers_loop_eq:
  "headers_loop raw d items = (first_dict (header_pairs raw) d, items @ header_pairs raw)"
  by (induction raw d items rule: headers_loop.induct) (simp_all add: header_pairs_def)

lemma headers_caches:
  assumes "headers_ok h"
  shows "headers_dict h = first_dict (header_pairs (hd_raw h)) []"
    and "headers_list h = header_pairs (hd_raw h)"
  using assms by (auto simp: headers_ok_def headers_ensure_parsed_def headers_loop_eq)

lemma headers_ok_ensure: "headers_ok h \<Longrightarrow> headers_ok (headers_ensure_parsed h)"
  by (auto simp: headers_ok_def headers_ensure_parsed_def headers_loop_eq)

lemma hd_raw_ensure [simp]: "hd_raw (headers_ensure_parsed h) = hd_raw h"
  by (simp add: headers_ensure_parsed_def split: option.splits prod.splits)

lemma headers_ensure_idem: "headers_ensure_parsed (headers_ensure_parsed h) = headers_ensure_parsed h"
  by (simp add: headers_ensure_parsed_def split: option.splits prod.splits)

lemma headers_ok_init: "headers_init raw sc hdrs = Inr h \<Longrightarrow> headers_ok h"
  by (auto simp: headers_init_def headers_ok_def)

lemma hname_lower [simp]: "lower (hname n) = hname n"
  by (cases n) (simp_all add: hname_def)

lemma headers_getlist_eq: "fst (headers_getlist h k) = values_of (headers_list h) (lower k)"
  by (simp add: headers_getlist_def values_of_def split_def)

interpretation ds_headers: selecting_mapping
  "\<lambda>h. fst (headers_multi_items h)" "\<lambda>h k. fst (headers_getlist h k)"
  "\<lambda>h k. fst (headers_get h k None)" "\<lambda>h. fst (headers_keys h)" lower hd headers_ok
proof (unfold_locales, goal_cases)
  case (1 m k)
  then show ?case by (simp add: headers_getlist_eq headers_multi_items_def)
next
  case (2 m k)
  then show ?case
    by (auto simp: headers_get_def headers_getlist_eq headers_caches map_of_first_dict
        split: list.splits)
next
  case (3 m)
  then show ?case
    by (simp add: headers_keys_def headers_multi_items_def headers_caches keys_first_dict)
next
  case (4 m)
  then show ?case
    using dict_wf_first_dict [of "[]" "header_pairs (hd_raw m)"]
    by (simp add: headers_keys_def headers_caches dict_wf_def)
next
  case (5 k)
  then show ?case by simp
next
  case (6 vs)
  then show ?case by simp
qed

subsection \<open>Lemmas: query parameters\<close>

definition multi_ok :: "('k, 'v list) dict \<Rightarrow> bool" where
  "multi_ok d \<longleftrightarrow> dict_wf d \<and> (\<forall>(k, vs) \<in> set d. vs \<noteq> [])"

definition qp_ok :: "query_params \<Rightarrow> bool" where
  "qp_ok q \<longleftrightarrow>
     (qp_dict q = None \<and> qp_multi q = None \<or>
      qp_multi q = Some (qp_parse (qp_raw q)) \<and> qp_dict q = Some (qp_last (qp_parse (qp_raw q))))"

text \<open>The pairs a query string denotes, before they are grouped by key.\<close>

definition qp_pairs :: "str \<Rightarrow> (str \<times> str) list" where
  "qp_pairs raw = map qp_pair (filter (\<lambda>p. p \<noteq> []) (split_on 38 raw))"

lemma dict_get_multi_append:
  "dict_get (multi_append k v d) k' [] = dict_get d k' [] @ (if k = k' then [v] else [])"
  by (simp add: multi_append_def dict_get_def map_of_dict_set)

lemma update_in_set: "(k', w) \<in> set (AList.update k v d) \<Longrightarrow> (k', w) = (k, v) \<or> (k', w) \<in> set d"
  by (induction d) (auto split: if_splits)

lemma multi_ok_append: "multi_ok d \<Longrightarrow> multi_ok (multi_append k v d)"
  using dict_wf_set [of d k "dict_get d k [] @ [v]"]
  by (auto simp: multi_ok_def multi_append_def dict_set_def dest!: update_in_set)

lemma qp_loop_get:
  "dict_get (qp_loop parts d) k [] =
     dict_get d k [] @ values_of (map qp_pair (filter (\<lambda>p. p \<noteq> []) parts)) k"
proof (induction parts arbitrary: d)
  case Nil
  then show ?case by simp
next
  case (Cons p ps)
  then show ?case
    by (cases "qp_pair p") (simp add: dict_get_multi_append)
qed

lemma multi_ok_loop: "multi_ok d \<Longrightarrow> multi_ok (qp_loop parts d)"
proof (induction parts arbitrary: d)
  case Nil
  then show ?case by simp
next
  case (Cons p ps)
  then show ?case by (cases "qp_pair p") (simp add: multi_ok_append)
qed

lemma multi_ok_parse: "multi_ok (qp_parse raw)"
  using multi_ok_loop [of "[]"] by (simp add: qp_parse_def) (simp add: multi_ok_def)

lemma qp_parse_get: "dict_get (qp_parse raw) k [] = values_of (qp_pairs raw) k"
  by (simp add: qp_parse_def qp_pairs_def qp_loop_get) (simp add: dict_get_def)

lemma map_of_qp_last:
  "multi_ok d \<Longrightarrow> map_of (qp_last d) k =
     (if dict_get d k [] = [] then None else Some (last (dict_get d k [])))"
proof -
  assume "multi_ok d"
  then have "qp_last d = map (\<lambda>(k, v). (k, last v)) d" and ne: "\<And>vs. map_of d k = Some vs \<Longrightarrow> vs \<noteq> []"
    by (auto simp: qp_last_def multi_ok_def intro!: arg_cong [where f = "map _"] filter_True dest: map_of_SomeD)
  then show ?thesis by (auto simp: map_of_map dict_get_def split: option.splits)
qed

lemma keys_qp_last: "multi_ok d \<Longrightarrow> map fst (qp_last d) = map fst d"
proof -
  assume "multi_ok d"
  then have "filter (\<lambda>(k, v). v \<noteq> []) d = d" by (auto simp: multi_ok_def intro: filter_True)
  then show ?thesis by (simp add: qp_last_def split_def)
qed

lemma values_of_grouped:
  "dict_wf d \<Longrightarrow> values_of (concat (map (\<lambda>(k, vs). map (\<lambda>v. (k, v)) vs) d)) k = dict_get d k []"
proof (induction d)
  case Nil
  then show ?case by (simp add: dict_get_def)
next
  case (Cons p d)
  obtain k' vs where p: "p = (k', vs)" by fastforce
  have IH: "values_of (concat (map (\<lambda>(k, vs). map (\<lambda>v. (k, v)) vs) d)) k = dict_get d k []"
    using Cons by (simp add: dict_wf_def)
  have "k' \<notin> fst ` set d" using Cons.prems p by (auto simp: dict_wf_def)
  then have "k' = k \<Longrightarrow> map_of d k = None" by (auto simp: map_of_eq_None_iff)
  then show ?case using p IH by (auto simp: values_of_const_key dict_get_def)
qed

lemma keys_grouped:
  "multi_ok d \<Longrightarrow> fst ` set (concat (map (\<lambda>(k, vs). map (\<lambda>v. (k, v)) vs) d)) = fst ` set d"
  by (force simp: multi_ok_def image_iff neq_Nil_conv)

lemma qp_caches:
  "qp_ok q \<Longrightarrow> qp_the_dict q = qp_last (qp_parse (qp_raw q))"
  "qp_ok q \<Longrightarrow> qp_the_multi q = qp_parse (qp_raw q)"
  by (auto simp: qp_ok_def qp_ensure_parsed_def)

lemma qp_ok_init: "qp_ok (qp_init qs)"
  by (simp add: qp_ok_def qp_init_def)

lemma qp_ok_ensure: "qp_ok q \<Longrightarrow> qp_ok (qp_ensure_parsed q)"
  by (auto simp: qp_ok_def qp_ensure_parsed_def)

interpretation ds_query: selecting_mapping
  "\<lambda>q. fst (qp_multi_items q)" "\<lambda>q k. fst (qp_getlist q k)"
  "\<lambda>q k. fst (qp_get q k None)" "\<lambda>q. fst (qp_keys q)" "\<lambda>k. k" last qp_ok
proof (unfold_locales, goal_cases)
  case (1 m k)
  then show ?case
    using multi_ok_parse [of "qp_raw m"]
    by (simp add: qp_getlist_def qp_multi_items_def qp_caches values_of_grouped multi_ok_def)
next
  case (2 m k)
  then show ?case
    by (simp add: qp_get_def qp_getlist_def qp_caches map_of_qp_last multi_ok_parse)
next
  case (3 m)
  then have "set (map fst (qp_last (qp_parse (qp_raw m)))) = fst ` set (qp_parse (qp_raw m))"
    by (simp only: keys_qp_last [OF multi_ok_parse] list.set_map)
  with 3 show ?case
    by (simp only: qp_keys_def qp_multi_items_def fst_conv qp_caches keys_grouped [OF multi_ok_parse])
next
  case (4 m)
  then show ?case
    using multi_ok_parse [of "qp_raw m", unfolded multi_ok_def dict_wf_def]
    by (simp only: qp_keys_def fst_conv qp_caches keys_qp_last [OF multi_ok_parse])
next
  case (5 k)
  then show ?case by simp
next
  case (6 vs)
  then show ?case by simp
qed

subsection \<open>Lemmas: form data\<close>

definition fd_ok :: "form_data \<Rightarrow> bool" where
  "fd_ok f \<longleftrightarrow> fd_dict f = first_dict (fd_list f) []"

lemma fd_ok_init: "fd_ok (fd_init arg kwargs)"
  by (simp add: fd_ok_def fd_init_def Let_def)

interpretation ds_form: selecting_mapping
  fd_multi_items fd_getlist "\<lambda>f k. fd_get f k None" fd_keys "\<lambda>k. k" hd fd_ok
proof (unfold_locales, goal_cases)
  case (1 m k)
  then show ?case by (simp add: fd_getlist_def fd_multi_items_def values_of_def split_def)
next
  case (2 m k)
  then show ?case
    by (auto simp: fd_get_def fd_ok_def map_of_first_dict fd_getlist_def values_of_def split_def
        split: list.splits)
next
  case (3 m)
  then show ?case by (simp add: fd_keys_def fd_multi_items_def fd_ok_def keys_first_dict)
next
  case (4 m)
  then show ?case
    using dict_wf_first_dict [of "[]" "fd_list m"] by (simp add: fd_keys_def fd_ok_def dict_wf_def)
next
  case (5 k)
  then show ?case by simp
next
  case (6 vs)
  then show ?case by simp
qed

lemma uf_close_idem [simp]: "uf_close (uf_close u) = uf_close u"
  by (simp add: uf_close_def io_close_def)

lemma fd_close_loop_at:
  "fd_close_loop ps st r = (if \<exists>k. (k, FUpload r) \<in> set ps then uf_close (st r) else st r)"
proof (induction ps st rule: fd_close_loop.induct)
  case (2 k r' ps st)
  show ?case
  proof (cases "\<exists>k. (k, FUpload r) \<in> set ps")
    case True
    then have "\<exists>k'. (k', FUpload r) \<in> set ((k, FUpload r') # ps)" by auto
    with True 2 show ?thesis by (simp add: fun_upd_def)
  next
    case False
    with 2 show ?thesis by (auto simp: fun_upd_def)
  qed
qed auto

subsection \<open>Lemmas: query strings as encoders write them\<close>

text \<open>
  The query string of a list of pairs, as \<open>urllib.parse.quote\<close> with no extra safe
  characters encodes keys and values (43 and 38 and 61 are then percent-encoded).
\<close>

definition qs_part :: "str \<times> str \<Rightarrow> str res" where
  "qs_part p = rbind (quote [] (fst p)) (\<lambda>qk. rbind (quote [] (snd p)) (\<lambda>qv. Inr (qk @ 61 # qv)))"

definition qs_encode :: "(str \<times> str) list \<Rightarrow> str res" where
  "qs_encode ps = rbind (rmap qs_part ps) (\<lambda>parts. Inr (join [38] parts))"

lemma quote_byte_chars:
  assumes "b < 256" and "c \<in> {38, 43, 61}"
  shows "c \<notin> set (quote_byte [] b)"
proof (cases "always_safe b")
  case True
  then have "quote_byte [] b = [b]" by (simp add: quote_byte_def)
  moreover have "\<not> always_safe c" using assms(2) by (auto simp: always_safe_def)
  ultimately show ?thesis using True by auto
next
  case False
  then have "quote_byte [] b = [37, hexdigit (b div 16), hexdigit (b mod 16)]"
    by (simp add: quote_byte_def)
  moreover have "hexval c = None" "c \<noteq> 37" using assms(2) by (auto simp: hexval_def)
  moreover have "hexval (hexdigit (b div 16)) \<noteq> None" "hexval (hexdigit (b mod 16)) \<noteq> None"
    using assms(1) by simp_all
  ultimately show ?thesis by auto
qed

lemma quote_chars:
  assumes "quote [] s = Inr q" and "c \<in> {38, 43, 61}"
  shows "c \<notin> set q"
proof -
  from assms(1) have "list_all scalar s" "q = concat (map (quote_byte []) (utf8_units s))"
    by (auto simp: quote_def split: if_splits)
  then show ?thesis using quote_byte_chars [OF _ assms(2)] utf8_units_byte by fastforce
qed

lemma plus_to_space_id: "43 \<notin> set s \<Longrightarrow> plus_to_space s = s"
  by (induction s) (auto simp: plus_to_space_def)

lemma qp_pair_quoted:
  assumes "quote [] k = Inr qk" and "quote [] v = Inr qv"
  shows "qp_pair (qk @ 61 # qv) = (k, v)"
  using assms quote_chars [OF assms(1)] quote_chars [OF assms(2)]
  by (simp add: qp_pair_def split_once_sep plus_to_space_id unquote_quote)

lemma qp_pair_part: "qs_part p = Inr part \<Longrightarrow> qp_pair part = p \<and> part \<noteq> [] \<and> 38 \<notin> set part"
  by (cases p) (auto simp: qs_part_def qp_pair_quoted quote_chars)

lemma qp_pair_parts:
  "rmap qs_part ps = Inr parts \<Longrightarrow>
   map qp_pair parts = ps \<and> (\<forall>p \<in> set parts. p \<noteq> [] \<and> 38 \<notin> set p)"
proof (induction ps arbitrary: parts)
  case Nil
  then show ?case by simp
next
  case (Cons p ps)
  then obtain q qs where "qs_part p = Inr q" "rmap qs_part ps = Inr qs" "parts = q # qs"
    by auto
  with Cons.IH [of qs] show ?case using qp_pair_part [of p q] by simp
qed

lemma qp_pairs_encode:
  assumes "qs_encode ps = Inr raw"
  shows "qp_pairs raw = ps"
proof -
  from assms obtain parts where parts: "rmap qs_part ps = Inr parts" and raw: "raw = join [38] parts"
    by (auto simp: qs_encode_def)
  show ?thesis
  proof (cases "parts = []")
    case True
    with raw qp_pair_parts [OF parts] show ?thesis by (simp add: qp_pairs_def)
  next
    case False
    then have "split_on 38 raw = parts"
      unfolding raw using qp_pair_parts [OF parts] by (intro split_on_join) auto
    moreover have "filter (\<lambda>p. p \<noteq> []) parts = parts"
      using qp_pair_parts [OF parts] by (intro filter_True) auto
    ultimately show ?thesis using qp_pair_parts [OF parts] by (simp add: qp_pairs_def)
  qed
qed

lemma qp_getlist_pairs: "qp_ok q \<Longrightarrow> fst (qp_getlist q k) = values_of (qp_pairs (qp_raw q)) k"
  by (simp add: qp_getlist_def qp_caches qp_parse_get)

subsection \<open>Lemmas: uploads\<close>

lemma uf_seek_0: "\<not> io_closed (uf_file u) \<Longrightarrow> uf_seek u 0 = Inr (u\<lparr>uf_file := (uf_file u)\<lparr>io_pos := 0\<rparr>\<rparr>)"
  by (simp add: uf_seek_def io_seek_def)

lemma io_write_appends:
  "\<not> io_closed f \<Longrightarrow> io_pos f = length (io_data f) \<Longrightarrow>
   io_write f d = Inr (f\<lparr>io_data := io_data f @ d, io_pos := length (io_data f) + length d\<rparr>)"
  by (cases "d = []") (auto simp: io_write_def)

subsection \<open>Properties\<close>

lemma uf_write_appends:
  assumes "\<not> io_closed (uf_file u)" and "io_pos (uf_file u) = length (io_data (uf_file u))"
    and "uf_size u = Some (int (length (io_data (uf_file u))))"
  shows "uf_write u d = (Inr (), u\<lparr>uf_size := Some (int (length (io_data (uf_file u) @ d))),
           uf_file := (uf_file u)\<lparr>io_data := io_data (uf_file u) @ d,
                                  io_pos := length (io_data (uf_file u) @ d)\<rparr>\<rparr>)"
  using assms by (simp add: uf_write_def io_write_appends)

lemma uf_write_all:
  assumes "\<not> io_closed (uf_file u)" and "io_pos (uf_file u) = length (io_data (uf_file u))"
    and "uf_size u = Some (int (length (io_data (uf_file u))))"
  shows "foldl (\<lambda>u d. snd (uf_write u d)) u ds =
           u\<lparr>uf_size := Some (int (length (io_data (uf_file u) @ concat ds))),
             uf_file := (uf_file u)\<lparr>io_data := io_data (uf_file u) @ concat ds,
                                    io_pos := length (io_data (uf_file u) @ concat ds)\<rparr>\<rparr>"
  using assms
proof (induction ds arbitrary: u)
  case Nil
  then show ?case by (intro upload_file.equality bytes_io.equality) simp_all
next
  case (Cons d ds)
  then show ?case by (simp add: uf_write_appends)
qed

text \<open>
  A header lookup is case-insensitive and delivers the first value sent under that
  name (the default if there is none), \<open>getlist\<close> delivers all of them in order, and
  filling the caches on the first lookup changes no later answer.
\<close>

theorem headers_lookup:
  assumes "headers_init raw sc hdrs = Inr h"
  shows "fst (headers_get h k d) =
           (case values_of (header_pairs (hd_raw h)) (lower k) of [] \<Rightarrow> d | v # _ \<Rightarrow> Some v)
    \<and> fst (headers_getlist h k) = values_of (header_pairs (hd_raw h)) (lower k)
    \<and> fst (headers_get (snd (headers_get h k' d')) k d) = fst (headers_get h (lower k) d)
    \<and> (fst (headers_contains (snd (headers_getlist h k')) k) \<longleftrightarrow>
           lower k \<in> fst ` set (header_pairs (hd_raw h)))"
proof (intro conjI)
  note ok = headers_ok_init [OF assms]
  show "fst (headers_get h k d) =
           (case values_of (header_pairs (hd_raw h)) (lower k) of [] \<Rightarrow> d | v # _ \<Rightarrow> Some v)"
    by (simp add: headers_get_def headers_caches [OF ok] map_of_first_dict split: list.splits)
  show "fst (headers_getlist h k) = values_of (header_pairs (hd_raw h)) (lower k)"
    by (simp add: headers_getlist_eq headers_caches [OF ok])
  show "fst (headers_get (snd (headers_get h k' d')) k d) = fst (headers_get h (lower k) d)"
    by (simp add: headers_get_def headers_ensure_idem)
  show "fst (headers_contains (snd (headers_getlist h k')) k) \<longleftrightarrow>
           lower k \<in> fst ` set (header_pairs (hd_raw h))"
    by (simp add: headers_contains_def headers_getlist_def headers_ensure_idem dict_has_def
        headers_caches [OF ok] keys_first_dict)
qed

theorem headers_lookup_witness:
  "headers_init (Some [(HB ''X-Id'', HB ''1''), (HS (S ''x-id''), HB ''2'')]) None None =
     Inr \<lparr>hd_raw = [(HB ''X-Id'', HB ''1''), (HS (S ''x-id''), HB ''2'')], hd_dict = None, hd_list = None\<rparr>
   \<and> fst (headers_getlist \<lparr>hd_raw = [(HB ''X-Id'', HB ''1''), (HS (S ''x-id''), HB ''2'')],
                          hd_dict = None, hd_list = None\<rparr> (S ''X-ID'')) = [S ''1'', S ''2'']"
proof -
  have h: "headers_init (Some [(HB ''X-Id'', HB ''1''), (HS (S ''x-id''), HB ''2'')]) None None =
     Inr \<lparr>hd_raw = [(HB ''X-Id'', HB ''1''), (HS (S ''x-id''), HB ''2'')], hd_dict = None, hd_list = None\<rparr>"
    by (simp add: headers_init_def)
  show ?thesis
    using h headers_lookup [OF h, of "S ''X-ID''"]
    by (simp add: header_pairs_def hname_def hvalue_def lower_def lower_cp_def S_def latin1_decode_def)
qed

text \<open>
  Query strings round-trip. For every list of key-value pairs that can be encoded,
  \<open>QueryParams\<close> over the percent-encoded string returns for each key exactly its values in
  order, and \<open>get\<close> returns the last one.
\<close>

theorem query_roundtrip:
  assumes "qs_encode ps = Inr raw"
  shows "fst (qp_getlist (qp_init (HS raw)) k) = values_of ps k
    \<and> fst (qp_get (qp_init (HS raw)) k None) =
           (if values_of ps k = [] then None else Some (last (values_of ps k)))"
proof (intro conjI)
  show all: "fst (qp_getlist (qp_init (HS raw)) k) = values_of ps k"
    by (subst qp_getlist_pairs [OF qp_ok_init]) (simp add: qp_init_def qp_pairs_encode [OF assms])
  show "fst (qp_get (qp_init (HS raw)) k None) =
           (if values_of ps k = [] then None else Some (last (values_of ps k)))"
    using ds_query.get_law [OF qp_ok_init, of "HS raw" k] by (simp add: all)
qed

theorem query_roundtrip_witness:
  "qs_encode [(S ''a b'', S ''1&2''), (S ''x'', []), (S ''a b'', [8364])] =
     Inr (S ''a%20b=1%262&x=&a%20b=%E2%82%AC'')
   \<and> fst (qp_getlist (qp_init (HS (S ''a%20b=1%262&x=&a%20b=%E2%82%AC''))) (S ''a b'')) =
       [S ''1&2'', [8364]]"
proof -
  have h: "qs_encode [(S ''a b'', S ''1&2''), (S ''x'', []), (S ''a b'', [8364])] =
     Inr (S ''a%20b=1%262&x=&a%20b=%E2%82%AC'')"
    by (simp add: qs_encode_def qs_part_def quote_def quote_byte_def utf8_units_def utf8_cp_def
        scalar_def always_safe_def hexdigit_def S_def)
  show ?thesis using h query_roundtrip [OF h, of "S ''a b''"] by simp
qed

text \<open>
  An upload keeps what is written to it. After writing any chunks to a fresh upload of
  known size and seeking to the start, reading everything returns the chunks in order, and
  the recorded size is their total length.
\<close>

theorem upload_roundtrip:
  "let u = foldl (\<lambda>u d. snd (uf_write u d)) (uf_init name None ctype hdrs (Some 0)) ds in
   rbind (uf_seek u 0) (\<lambda>u'. rbind (uf_read u' (-1)) (\<lambda>(out, u''). Inr out)) = Inr (concat ds)
   \<and> uf_size u = Some (int (length (concat ds)))"
proof -
  let ?u0 = "uf_init name None ctype hdrs (Some 0)"
  have "foldl (\<lambda>u d. snd (uf_write u d)) ?u0 ds = ?u0\<lparr>uf_size := Some (int (length (concat ds))),
      uf_file := (uf_file ?u0)\<lparr>io_data := concat ds, io_pos := length (concat ds)\<rparr>\<rparr>"
    by (subst uf_write_all) (simp_all add: uf_init_def)
  then show ?thesis
    by (simp add: uf_seek_def io_seek_def uf_read_def io_read_def uf_init_def Let_def)
qed

text \<open>
  Closing a form closes every upload it holds, under whatever key and however often it
  occurs, and leaves every other file untouched; afterwards reading a file obtained from
  the form raises the closed-file error.
\<close>

theorem form_close:
  "(FUpload r \<in> set (fd_getlist f k) \<longrightarrow> uf_read (fd_close f st r) n = Inl closed_error)
   \<and> ((\<forall>k. FUpload r \<notin> set (fd_getlist f k)) \<longrightarrow> fd_close f st r = st r)"
proof (intro conjI impI)
  show "uf_read (fd_close f st r) n = Inl closed_error" if "FUpload r \<in> set (fd_getlist f k)"
    using that by (auto simp: fd_close_def fd_close_loop_at fd_getlist_def uf_read_def uf_close_def
        io_close_def io_read_def)
  show "fd_close f st r = st r" if "\<forall>k. FUpload r \<notin> set (fd_getlist f k)"
    using that by (force simp: fd_close_def fd_close_loop_at fd_getlist_def)
qed

theorem form_close_witness:
  "FUpload 7 \<in> set (fd_getlist (fd_init (Some (ArgSeq [(S ''doc'', FUpload 7)])) []) (S ''doc''))
   \<and> uf_read (fd_close (fd_init (Some (ArgSeq [(S ''doc'', FUpload 7)])) [])
        (\<lambda>_. uf_init None None [] None None) 7) 3 = Inl closed_error"
proof -
  have h: "FUpload 7 \<in> set (fd_getlist (fd_init (Some (ArgSeq [(S ''doc'', FUpload 7)])) []) (S ''doc''))"
    by (simp add: fd_getlist_def fd_init_def)
  show ?thesis using h form_close by blast
qed

end
