(* ===== verification/Responses.thy ===== *)
theory Responses
  imports DataStructures
begin

text \<open>
  \<open>astraapi/_response.py\<close>: \<open>MutableHeaders\<close> with its position index, the \<open>Response\<close>
  classes from construction to the ASGI messages they send, cookies, server-sent events
  and \<open>FileResponse\<close>. JSON serialisation, the MIME table and the file system are
  parameters of the definitions that use them.
\<close>

subsection \<open>MutableHeaders\<close>

record mutable_headers =
  mh_raw :: raw_headers
  mh_index :: "(bytes, nat) dict"

text \<open>\<open>(name if bytes else name.encode("latin-1")).lower()\<close>.\<close>

definition name_key :: "hval \<Rightarrow> bytes res" where
  "name_key n = (case n of HB b \<Rightarrow> Inr (blower b)
                 | HS s \<Rightarrow> rbind (latin1_encode s) (\<lambda>b. Inr (blower b)))"

text \<open>\<open>key.lower().encode("latin-1")\<close>.\<close>

definition str_key :: "str \<Rightarrow> bytes res" where
  "str_key key = latin1_encode (lower key)"

fun mh_index_loop :: "raw_headers \<Rightarrow> nat \<Rightarrow> (bytes, nat) dict \<Rightarrow> (bytes, nat) dict res" where
  "mh_index_loop [] i ix = Inr ix"
| "mh_index_loop ((n, v) # raw) i ix =
     rbind (name_key n) (\<lambda>key. mh_index_loop raw (Suc i) (dict_set key i ix))"

definition mh_init :: "raw_headers option \<Rightarrow> raw_headers option option \<Rightarrow> mutable_headers res" where
  "mh_init raw scope =
     (let r = (case raw of Some r \<Rightarrow> r
               | None \<Rightarrow> (case scope of Some h \<Rightarrow> get_or h [] | None \<Rightarrow> []))
      in rbind (mh_index_loop r 0 []) (\<lambda>ix. Inr \<lparr>mh_raw = r, mh_index = ix\<rparr>))"

definition mh_find :: "mutable_headers \<Rightarrow> hval \<Rightarrow> nat option res" where
  "mh_find m key =
     rbind (case key of HS s \<Rightarrow> str_key s | HB b \<Rightarrow> Inr (blower b))
       (\<lambda>k. Inr (map_of (mh_index m) k))"

definition mh_value_at :: "mutable_headers \<Rightarrow> nat \<Rightarrow> str res" where
  "mh_value_at m i =
     (if i < length (mh_raw m) then Inr (hvalue (snd (mh_raw m ! i))) else Inl IndexError)"

definition mh_get :: "mutable_headers \<Rightarrow> str \<Rightarrow> str option \<Rightarrow> str option res" where
  "mh_get m key dflt =
     rbind (mh_find m (HS key)) (\<lambda>idx. case idx of
         None \<Rightarrow> Inr dflt
       | Some i \<Rightarrow> rbind (mh_value_at m i) (\<lambda>v. Inr (Some v)))"

fun mh_getlist_loop :: "raw_headers \<Rightarrow> bytes \<Rightarrow> str list res" where
  "mh_getlist_loop [] k = Inr []"
| "mh_getlist_loop ((n, v) # raw) k =
     rbind (name_key n) (\<lambda>nk. rbind (mh_getlist_loop raw k)
       (\<lambda>vs. Inr (if nk = k then hvalue v # vs else vs)))"

definition mh_getlist :: "mutable_headers \<Rightarrow> str \<Rightarrow> str list res" where
  "mh_getlist m key = rbind (str_key key) (\<lambda>k. mh_getlist_loop (mh_raw m) k)"

fun mh_keys_loop :: "raw_headers \<Rightarrow> str list \<Rightarrow> str list" where
  "mh_keys_loop [] seen = seen"
| "mh_keys_loop ((n, v) # raw) seen =
     mh_keys_loop raw (if hname n \<in> set seen then seen else seen @ [hname n])"

definition mh_keys :: "mutable_headers \<Rightarrow> str list" where
  "mh_keys m = mh_keys_loop (mh_raw m) []"

definition mh_values :: "mutable_headers \<Rightarrow> str list" where
  "mh_values m = map (\<lambda>(n, v). hvalue v) (mh_raw m)"

definition mh_items :: "mutable_headers \<Rightarrow> (str \<times> str) list" where
  "mh_items m = map (\<lambda>(n, v). (hvalue n, hvalue v)) (mh_raw m)"

text \<open>The assignment once key and value are encoded.\<close>

definition mh_store :: "bytes \<Rightarrow> bytes \<Rightarrow> mutable_headers \<Rightarrow> mutable_headers" where
  "mh_store kb vb m =
     (case map_of (mh_index m) kb of
        Some i \<Rightarrow> m\<lparr>mh_raw := (mh_raw m)[i := (HB kb, HB vb)]\<rparr>
      | None \<Rightarrow> \<lparr>mh_raw = mh_raw m @ [(HB kb, HB vb)],
                 mh_index = dict_set kb (length (mh_raw m)) (mh_index m)\<rparr>)"

definition mh_setitem :: "mutable_headers \<Rightarrow> str \<Rightarrow> str \<Rightarrow> mutable_headers res" where
  "mh_setitem m key value =
     rbind (str_key key) (\<lambda>kb. rbind (latin1_encode value) (\<lambda>vb.
       (case map_of (mh_index m) kb of
          Some i \<Rightarrow> if i < length (mh_raw m) then Inr (mh_store kb vb m) else Inl IndexError
        | None \<Rightarrow> Inr (mh_store kb vb m))))"

definition mh_getitem :: "mutable_headers \<Rightarrow> str \<Rightarrow> str res" where
  "mh_getitem m key =
     rbind (mh_find m (HS key)) (\<lambda>idx. case idx of
         None \<Rightarrow> Inl (KeyError key) | Some i \<Rightarrow> mh_value_at m i)"

definition remove_at :: "nat \<Rightarrow> 'a list \<Rightarrow> 'a list" where
  "remove_at i xs = take i xs @ drop (Suc i) xs"

definition mh_delitem :: "mutable_headers \<Rightarrow> str \<Rightarrow> mutable_headers res" where
  "mh_delitem m key =
     rbind (str_key key) (\<lambda>kb. case map_of (mh_index m) kb of
         None \<Rightarrow> Inl (KeyError key)
       | Some idx \<Rightarrow>
           (if idx < length (mh_raw m)
            then Inr \<lparr>mh_raw = remove_at idx (mh_raw m),
                      mh_index = map (\<lambda>(k, v). (k, if v > idx then v - 1 else v))
                                   (dict_del kb (mh_index m))\<rparr>
            else Inl IndexError))"

definition mh_contains :: "mutable_headers \<Rightarrow> hval \<Rightarrow> bool res" where
  "mh_contains m key = rbind (mh_find m key) (\<lambda>idx. Inr (idx \<noteq> None))"

definition mh_len :: "mutable_headers \<Rightarrow> nat" where
  "mh_len m = length (mh_raw m)"

definition mh_append :: "mutable_headers \<Rightarrow> str \<Rightarrow> str \<Rightarrow> mutable_headers res" where
  "mh_append m key value =
     rbind (str_key key) (\<lambda>kb. rbind (latin1_encode value) (\<lambda>vb.
       Inr \<lparr>mh_raw = mh_raw m @ [(HB kb, HB vb)],
            mh_index = (if dict_has (mh_index m) kb then mh_index m
                        else dict_set kb (length (mh_raw m)) (mh_index m))\<rparr>))"

text \<open>An exception leaves the pairs before it assigned: the outcome and the object.\<close>

fun mh_update :: "mutable_headers \<Rightarrow> (str \<times> str) list \<Rightarrow> unit res \<times> mutable_headers" where
  "mh_update m [] = (Inr (), m)"
| "mh_update m ((k, v) # ps) =
     (case mh_setitem m k v of Inl e \<Rightarrow> (Inl e, m) | Inr m' \<Rightarrow> mh_update m' ps)"

subsection \<open>Response\<close>

datatype content = CNone | CBytes bytes | CText str

record response =
  r_status :: int
  r_media :: "str option"
  r_body :: bytes
  r_raw :: resp_headers
  r_background :: bool

definition render :: "content \<Rightarrow> bytes res" where
  "render c = (case c of CNone \<Rightarrow> Inr [] | CBytes b \<Rightarrow> Inr b | CText s \<Rightarrow> utf8_encode s)"

text \<open>The first entry with the name is replaced in place, otherwise one is appended.\<close>

fun set_raw_loop :: "resp_headers \<Rightarrow> bytes \<Rightarrow> bytes \<Rightarrow> resp_headers" where
  "set_raw_loop [] name v = [(name, v)]"
| "set_raw_loop ((n, w) # hs) name v =
     (if blower n = name then (name, v) # hs else (n, w) # set_raw_loop hs name v)"

definition set_raw_header :: "bytes \<Rightarrow> bytes \<Rightarrow> 'a response_scheme \<Rightarrow> 'a response_scheme" where
  "set_raw_header name v r = r\<lparr>r_raw := set_raw_loop (r_raw r) (blower name) v\<rparr>"

definition content_type_of :: "str \<Rightarrow> str" where
  "content_type_of media =
     (if startswith media (S ''text/'') \<and> \<not> contains media (S ''charset='')
      then media @ S ''; charset=utf-8'' else media)"

definition set_content_type :: "'a response_scheme \<Rightarrow> 'a response_scheme res" where
  "set_content_type r =
     (case r_media r of None \<Rightarrow> Inr r
      | Some media \<Rightarrow> rbind (latin1_encode (content_type_of media))
          (\<lambda>b. Inr (set_raw_header ''content-type'' b r)))"

text \<open>A decimal number as header bytes.\<close>

definition num_bytes :: "nat \<Rightarrow> bytes" where
  "num_bytes n = map char_of (dec n)"

definition populate_content_headers :: "'a response_scheme \<Rightarrow> 'a response_scheme res" where
  "populate_content_headers r =
     (if r_status r \<in> {204, 304} then Inr (r\<lparr>r_body := []\<rparr>)
      else rbind (set_content_type r)
        (\<lambda>r'. Inr (set_raw_header ''content-length'' (num_bytes (length (r_body r))) r')))"

definition encode_headers :: "(str, str) dict option \<Rightarrow> resp_headers res" where
  "encode_headers hdrs =
     rmap (\<lambda>(k, v). rbind (latin1_encode (lower k)) (\<lambda>kb. rbind (latin1_encode v)
             (\<lambda>vb. Inr (kb, vb)))) (get_or hdrs [])"

text \<open>\<open>cls_media\<close> is the class attribute \<open>media_type\<close>, overridden by the argument.\<close>

definition response_init ::
  "str option \<Rightarrow> content \<Rightarrow> int \<Rightarrow> (str, str) dict option \<Rightarrow> str option \<Rightarrow> bool \<Rightarrow> response res" where
  "response_init cls_media c status hdrs media background =
     rbind (render c) (\<lambda>body. rbind (encode_headers hdrs) (\<lambda>raw.
       populate_content_headers
         \<lparr>r_status = status, r_media = (case media of None \<Rightarrow> cls_media | Some m \<Rightarrow> Some m),
          r_body = body, r_raw = raw, r_background = background\<rparr>))"

definition html_response_init where
  "html_response_init = response_init (Some (S ''text/html''))"

definition plain_text_response_init where
  "plain_text_response_init = response_init (Some (S ''text/plain''))"

text \<open>\<open>safe=":/%#?=@[]!$&'()*+,;"\<close>; 39 is the apostrophe.\<close>

definition redirect_safe :: str where
  "redirect_safe = S '':/%#?=@[]!$&'' @ 39 # S ''()*+,;''"

definition redirect_response_init ::
  "str \<Rightarrow> int \<Rightarrow> (str, str) dict option \<Rightarrow> bool \<Rightarrow> response res" where
  "redirect_response_init url status hdrs background =
     rbind (quote redirect_safe url) (\<lambda>loc.
       response_init None (CBytes []) status
         (Some (dict_set (S ''location'') loc (get_or hdrs []))) None background)"

text \<open>
  \<open>JSONResponse.render\<close>: \<open>core\<close> is the C++ serialiser if it could be imported, \<open>encoder\<close>
  is \<open>jsonable_encoder\<close>, \<open>dumps\<close> the pure Python serialiser; \<open>prim\<close> and \<open>pyd\<close> are the
  two type tests.
\<close>

definition json_render ::
  "('j \<Rightarrow> bytes res) option \<Rightarrow> ('j \<Rightarrow> 'j res) option \<Rightarrow> ('j \<Rightarrow> bool) \<Rightarrow> ('j \<Rightarrow> bool) \<Rightarrow>
   ('j \<Rightarrow> bytes res) \<Rightarrow> 'j option \<Rightarrow> bytes res" where
  "json_render core encoder prim pyd dumps content =
     (case content of
        None \<Rightarrow> Inr ''null''
      | Some c \<Rightarrow>
          (case core of
             None \<Rightarrow> dumps c
           | Some enc \<Rightarrow>
               (let c' = (if prim c \<or> pyd c then c
                          else case encoder of None \<Rightarrow> c
                               | Some f \<Rightarrow> (case f c of Inl _ \<Rightarrow> c | Inr x \<Rightarrow> x))
                in case enc c' of
                     Inr b \<Rightarrow> Inr b
                   | Inl (ValueError _) \<Rightarrow> dumps c'
                   | Inl (TypeError _) \<Rightarrow> dumps c'
                   | Inl e \<Rightarrow> Inl e)))"

subsection \<open>Cookies\<close>

definition legal_cookie_char :: "nat \<Rightarrow> bool" where
  "legal_cookie_char c \<longleftrightarrow> 65 \<le> c \<and> c \<le> 90 \<or> 97 \<le> c \<and> c \<le> 122 \<or> is_digit c
     \<or> c \<in> set (S ''!#$%&*+-.^_`|~:'') \<or> c = 39"

definition reserved_cookie_names :: "str list" where
  "reserved_cookie_names = map S [''expires'', ''path'', ''comment'', ''domain'', ''max-age'',
     ''secure'', ''httponly'', ''version'', ''samesite'', ''partitioned'']"

definition morsel_attr :: "string \<Rightarrow> str option \<Rightarrow> str list" where
  "morsel_attr name v =
     (case v of None \<Rightarrow> [] | Some x \<Rightarrow> if x = [] then [] else [S name @ 61 # x])"

text \<open>
  \<open>Morsel.OutputString\<close>: the pair, then the attributes that are set, ordered by their
  dictionary key. \<open>BaseCookie\<close> encodes a value as itself.
\<close>

definition set_cookie ::
  "str \<Rightarrow> str \<Rightarrow> int option \<Rightarrow> int option \<Rightarrow> str \<Rightarrow> str option \<Rightarrow> bool \<Rightarrow> bool \<Rightarrow> str option \<Rightarrow>
   'a response_scheme \<Rightarrow> 'a response_scheme res" where
  "set_cookie key value max_age expires path domain secure httponly samesite r =
     (if lower key \<in> set reserved_cookie_names \<or> key = [] \<or> \<not> list_all legal_cookie_char key
      then Inl CookieError
      else
        (let parts = [key @ 61 # value]
               @ morsel_attr ''Domain'' domain
               @ morsel_attr ''expires'' (map_option int_str expires)
               @ (if httponly then [S ''HttpOnly''] else [])
               @ morsel_attr ''Max-Age'' (map_option int_str max_age)
               @ morsel_attr ''Path'' (Some path)
               @ morsel_attr ''SameSite'' samesite
               @ (if secure then [S ''Secure''] else [])
         in rbind (latin1_encode (join (S ''; '') parts))
              (\<lambda>b. Inr (r\<lparr>r_raw := r_raw r @ [(''set-cookie'', b)]\<rparr>))))"

definition delete_cookie ::
  "str \<Rightarrow> str \<Rightarrow> str option \<Rightarrow> bool \<Rightarrow> bool \<Rightarrow> str option \<Rightarrow> 'a response_scheme \<Rightarrow>
   'a response_scheme res" where
  "delete_cookie key path domain secure httponly samesite r =
     set_cookie key [] (Some 0) (Some 0) path domain secure httponly samesite r"

text \<open>\<open>Response.headers\<close> wraps the raw list itself, so operations on it write through.\<close>

definition with_headers ::
  "(mutable_headers \<Rightarrow> mutable_headers res) \<Rightarrow> raw_headers \<Rightarrow> raw_headers res" where
  "with_headers f raw = rbind (mh_init (Some raw) None) (\<lambda>m. rbind (f m) (\<lambda>m'. Inr (mh_raw m')))"

subsection \<open>Sending\<close>

text \<open>What one call of a response sends, and whether the background task was then run.\<close>

definition response_call :: "response \<Rightarrow> message list \<times> bool" where
  "response_call r =
     ([RespStart (r_status r) (Some (r_raw r)), RespBody (Some (r_body r)) None], r_background r)"

text \<open>A chunk of a stream: \<open>bytes\<close>, or text that is encoded when it is sent.\<close>

datatype chunk = ChBytes bytes | ChText str

definition streaming_response_init ::
  "str option \<Rightarrow> int \<Rightarrow> (str, str) dict option \<Rightarrow> str option \<Rightarrow> bool \<Rightarrow> response res" where
  "streaming_response_init cls_media status hdrs media background =
     rbind (encode_headers hdrs) (\<lambda>raw.
       set_content_type
         \<lparr>r_status = status, r_media = (case media of None \<Rightarrow> cls_media | Some m \<Rightarrow> Some m),
          r_body = [], r_raw = raw, r_background = background\<rparr>)"

definition chunk_bytes :: "chunk \<Rightarrow> bytes res" where
  "chunk_bytes c = (case c of ChBytes b \<Rightarrow> Inr b | ChText s \<Rightarrow> utf8_encode s)"

text \<open>
  The messages sent so far and the outcome: an exception from encoding a chunk ends the
  call after the messages already sent.
\<close>

fun stream_loop :: "chunk list \<Rightarrow> message list \<times> unit res" where
  "stream_loop [] = ([RespBody (Some []) (Some False)], Inr ())"
| "stream_loop (c # cs) =
     (case chunk_bytes c of
        Inl e \<Rightarrow> ([], Inl e)
      | Inr b \<Rightarrow> (let (ms, out) = stream_loop cs in (RespBody (Some b) (Some True) # ms, out)))"

definition streaming_call :: "response \<Rightarrow> chunk list \<Rightarrow> message list \<times> bool res" where
  "streaming_call r cs =
     (let (ms, out) = stream_loop cs
      in (RespStart (r_status r) (Some (r_raw r)) # ms, rbind out (\<lambda>_. Inr (r_background r))))"

subsection \<open>Server-sent events\<close>

text \<open>
  Payloads: \<open>None\<close>, a dict (serialised by \<open>json_dumps\<close>), \<open>bytes\<close>, or an object with its
  \<open>str()\<close>.
\<close>

datatype 'j sse_data = SseNone | SseDict 'j | SseBytes bytes | SseText str

definition sse_text :: "('j \<Rightarrow> bytes res) \<Rightarrow> 'j sse_data \<Rightarrow> str option res" where
  "sse_text dumps d =
     (case d of
        SseNone \<Rightarrow> Inr None
      | SseDict j \<Rightarrow> rbind (dumps j) (\<lambda>b. rbind (utf8_decode b) (\<lambda>s. Inr (Some s)))
      | SseBytes b \<Rightarrow> rbind (utf8_decode b) (\<lambda>s. Inr (Some s))
      | SseText s \<Rightarrow> Inr (Some s))"

text \<open>10 is the line feed.\<close>

definition sse_lines :: "str option \<Rightarrow> str option \<Rightarrow> str option \<Rightarrow> int option \<Rightarrow> str list" where
  "sse_lines text event ident retry =
     (case event of None \<Rightarrow> [] | Some e \<Rightarrow> [S ''event: '' @ e])
     @ (case ident of None \<Rightarrow> [] | Some i \<Rightarrow> [S ''id: '' @ i])
     @ (case retry of None \<Rightarrow> [] | Some n \<Rightarrow> [S ''retry: '' @ int_str n])
     @ (case text of None \<Rightarrow> [] | Some t \<Rightarrow> map (\<lambda>l. S ''data: '' @ l) (split_on 10 t))"

definition sse_format_event ::
  "('j \<Rightarrow> bytes res) \<Rightarrow> 'j sse_data \<Rightarrow> str option \<Rightarrow> str option \<Rightarrow> int option \<Rightarrow> str res" where
  "sse_format_event dumps d event ident retry =
     rbind (sse_text dumps d) (\<lambda>text. Inr (join [10] (sse_lines text event ident retry @ [[], []])))"

record 'j sse_event =
  ev_data :: "'j sse_data"
  ev_event :: "str option"
  ev_id :: "str option"
  ev_retry :: "int option"

text \<open>An item of the source: an event, a dict with the four keys, or a bare payload.\<close>

datatype 'j sse_item =
    ItemEvent "'j sse_event"
  | ItemDict "'j sse_data option" "str option" "str option" "int option"
  | ItemOther "'j sse_data"

definition sse_format_item :: "('j \<Rightarrow> bytes res) \<Rightarrow> 'j sse_item \<Rightarrow> str res" where
  "sse_format_item dumps item =
     (case item of
        ItemEvent e \<Rightarrow> sse_format_event dumps (ev_data e) (ev_event e) (ev_id e) (ev_retry e)
      | ItemDict d e i n \<Rightarrow> sse_format_event dumps (get_or d (SseText [])) e i n
      | ItemOther d \<Rightarrow> sse_format_event dumps d None None None)"

definition event_source_response_init ::
  "int \<Rightarrow> (str, str) dict option \<Rightarrow> bool \<Rightarrow> response res" where
  "event_source_response_init status hdrs background =
     (let h = dict_setdefault (S ''x-accel-buffering'') (S ''no'')
                (dict_setdefault (S ''connection'') (S ''keep-alive'')
                  (dict_setdefault (S ''cache-control'') (S ''no-cache'') (get_or hdrs [])))
      in streaming_response_init (Some (S ''text/event-stream'')) status (Some h) None background)"

subsection \<open>FileResponse\<close>

record stat_result =
  st_size :: nat
  st_mtime :: nat

datatype stat_outcome = StatOk stat_result | StatNotFound | StatPermission | StatOther

record file_system =
  fs_stat :: "str \<Rightarrow> stat_outcome"
  fs_open :: "str \<Rightarrow> bytes option"

record file_response = response +
  f_path :: str
  f_filename :: "str option"
  f_stat :: "stat_result option"
  f_head_only :: bool
  f_disposition :: str
  f_populated :: bool

text \<open>
  \<open>email.utils.formatdate(t, usegmt=True)\<close>, for a time in whole seconds: the civil date of
  the day number, counted from 1 March of year 0 so that leap days end a year.
\<close>

definition year_of_era :: "nat \<Rightarrow> nat" where
  "year_of_era doe = (doe - doe div 1460 + doe div 36524 - doe div 146096) div 365"

definition day_of_year :: "nat \<Rightarrow> nat \<Rightarrow> nat" where
  "day_of_year doe yoe = doe - (365 * yoe + yoe div 4 - yoe div 100)"

definition month_day :: "nat \<Rightarrow> nat \<times> nat" where
  "month_day doy =
     (let mp = (5 * doy + 2) div 153
      in (if mp < 10 then mp + 3 else mp - 9, doy - (153 * mp + 2) div 5 + 1))"

definition civil_of_days :: "nat \<Rightarrow> nat \<times> nat \<times> nat" where
  "civil_of_days days =
     (let z = days + 719468; doe = z mod 146097; yoe = year_of_era doe;
          (m, d) = month_day (day_of_year doe yoe)
      in (yoe + z div 146097 * 400 + (if m \<le> 2 then 1 else 0), m, d))"

definition two_digits :: "nat \<Rightarrow> str" where
  "two_digits n = [48 + n div 10, 48 + n mod 10]"

definition formatdate :: "nat \<Rightarrow> str" where
  "formatdate t =
     (let days = t div 86400; secs = t mod 86400; (y, m, d) = civil_of_days days;
          wd = [''Thu'', ''Fri'', ''Sat'', ''Sun'', ''Mon'', ''Tue'', ''Wed''] ! (days mod 7);
          mn = [''Jan'', ''Feb'', ''Mar'', ''Apr'', ''May'', ''Jun'', ''Jul'', ''Aug'', ''Sep'',
                ''Oct'', ''Nov'', ''Dec''] ! (m - 1)
      in S wd @ S '', '' @ two_digits d @ S '' '' @ S mn @ S '' '' @ dec y @ S '' ''
         @ two_digits (secs div 3600) @ S '':'' @ two_digits (secs div 60 mod 60) @ S '':''
         @ two_digits (secs mod 60) @ S '' GMT'')"

text \<open>34 is the double quote.\<close>

definition etag_of :: "stat_result \<Rightarrow> str" where
  "etag_of st = 34 # hex (st_mtime st) @ 45 # hex (st_size st) @ [34]"

definition file_stat_headers :: "stat_result \<Rightarrow> file_response \<Rightarrow> file_response res" where
  "file_stat_headers st r =
     (let r1 = set_raw_header ''content-length'' (num_bytes (st_size st)) r in
      rbind (latin1_encode (formatdate (st_mtime st))) (\<lambda>lm.
      rbind (latin1_encode (etag_of st)) (\<lambda>tag.
        (let r2 = set_raw_header ''etag'' tag (set_raw_header ''last-modified'' lm r1) in
         case f_filename r2 of
           None \<Rightarrow> Inr r2
         | Some name \<Rightarrow>
             rbind (latin1_encode (f_disposition r2 @ S ''; filename='' @ 34 # name @ [34]))
               (\<lambda>cd. Inr (set_raw_header ''content-disposition'' cd r2))))))"

definition populate_file_headers :: "file_system \<Rightarrow> file_response \<Rightarrow> file_response res" where
  "populate_file_headers fs r =
     rbind (set_content_type r) (\<lambda>r1.
       case f_stat r1 of
         Some st \<Rightarrow> file_stat_headers st r1
       | None \<Rightarrow>
           (case fs_stat fs (f_path r1) of
              StatOk st \<Rightarrow> file_stat_headers st (r1\<lparr>f_stat := Some st\<rparr>)
            | StatNotFound \<Rightarrow>
                Inr (set_raw_header ''content-length'' ''9'' (r1\<lparr>r_status := 404, r_body := ''Not Found''\<rparr>))
            | StatPermission \<Rightarrow>
                Inr (set_raw_header ''content-length'' ''9'' (r1\<lparr>r_status := 403, r_body := ''Forbidden''\<rparr>))
            | StatOther \<Rightarrow> Inl OSError))"

definition guess_media_type :: "(str \<Rightarrow> str option) \<Rightarrow> str \<Rightarrow> str" where
  "guess_media_type guess_type path =
     (case guess_type path of None \<Rightarrow> S ''application/octet-stream''
      | Some m \<Rightarrow> if m = [] then S ''application/octet-stream'' else m)"

definition file_response_init ::
  "file_system \<Rightarrow> (str \<Rightarrow> str option) \<Rightarrow> str \<Rightarrow> int \<Rightarrow> (str, str) dict option \<Rightarrow> str option \<Rightarrow> bool \<Rightarrow>
   str option \<Rightarrow> stat_result option \<Rightarrow> str option \<Rightarrow> str \<Rightarrow> file_response res" where
  "file_response_init fs guess_type path status hdrs media background filename stat method disp =
     (let m = (case media of Some m \<Rightarrow> m
               | None \<Rightarrow> guess_media_type guess_type
                   (case filename of Some f \<Rightarrow> (if f = [] then path else f) | None \<Rightarrow> path))
      in rbind (encode_headers hdrs) (\<lambda>raw.
           populate_file_headers fs
             \<lparr>r_status = status, r_media = Some m, r_body = [], r_raw = raw,
              r_background = background, f_path = path, f_filename = filename, f_stat = stat,
              f_head_only = (case method of None \<Rightarrow> False | Some x \<Rightarrow> upper x = S ''HEAD''),
              f_disposition = disp, f_populated = False\<rparr>))"

text \<open>
  Calling a file response: an empty body is filled from the file, unless only headers are
  wanted; a file that cannot be read leaves the body empty.
\<close>

definition file_response_call ::
  "file_system \<Rightarrow> file_response \<Rightarrow> (message list \<times> bool \<times> file_response) res" where
  "file_response_call fs r =
     (let send = (\<lambda>(r' :: file_response) body.
            ([RespStart (r_status r') (Some (r_raw r')), RespBody (Some body) None],
             r_background r', r'))
      in if r_body r = [] \<and> f_path r \<noteq> [] \<and> \<not> f_head_only r
         then rbind (if f_populated r then Inr r
                     else rbind (populate_file_headers fs r) (\<lambda>r'. Inr (r'\<lparr>f_populated := True\<rparr>)))
                (\<lambda>r'. Inr (send r' (get_or (fs_open fs (f_path r')) [])))
         else Inr (send r (r_body r)))"

subsection \<open>Lemmas: the position index\<close>

text \<open>
  The index is sound: every position it records holds an entry of that name. It is
  complete when every name of the list is in it.
\<close>

definition mh_ok :: "mutable_headers \<Rightarrow> bool" where
  "mh_ok m \<longleftrightarrow> dict_wf (mh_index m) \<and>
     (\<forall>(k, i) \<in> set (mh_index m). i < length (mh_raw m) \<and> name_key (fst (mh_raw m ! i)) = Inr k)"

definition mh_complete :: "mutable_headers \<Rightarrow> bool" where
  "mh_complete m \<longleftrightarrow> (\<forall>(n, v) \<in> set (mh_raw m). \<exists>k. name_key n = Inr k \<and> k \<in> fst ` set (mh_index m))"

text \<open>The value the index leads to.\<close>

definition mh_look :: "mutable_headers \<Rightarrow> bytes \<Rightarrow> str option" where
  "mh_look m kb = map_option (\<lambda>i. hvalue (snd (mh_raw m ! i))) (map_of (mh_index m) kb)"

lemma mh_ok_lookup:
  "mh_ok m \<Longrightarrow> map_of (mh_index m) k = Some i \<Longrightarrow>
   i < length (mh_raw m) \<and> name_key (fst (mh_raw m ! i)) = Inr k"
  by (auto simp: mh_ok_def dest!: map_of_SomeD)

lemma mh_okI:
  assumes "dict_wf (mh_index m)"
    and "\<And>k i. map_of (mh_index m) k = Some i \<Longrightarrow>
      i < length (mh_raw m) \<and> name_key (fst (mh_raw m ! i)) = Inr k"
  shows "mh_ok m"
  using assms by (auto simp: mh_ok_def dict_wf_def)

lemma mh_index_loop_ok:
  assumes "mh_index_loop raw (length pre) ix = Inr ix'" and "mh_ok \<lparr>mh_raw = pre @ raw, mh_index = ix\<rparr>"
  shows "mh_ok \<lparr>mh_raw = pre @ raw, mh_index = ix'\<rparr> \<and> fst ` set ix \<subseteq> fst ` set ix'
    \<and> (\<forall>(n, v) \<in> set raw. \<exists>k. name_key n = Inr k \<and> k \<in> fst ` set ix')"
  using assms
proof (induction raw arbitrary: pre ix)
  case Nil
  then show ?case by auto
next
  case (Cons p raw)
  obtain n v where p: "p = (n, v)" by fastforce
  from Cons.prems(1) obtain key where key: "name_key n = Inr key"
    and rec: "mh_index_loop raw (length (pre @ [p])) (dict_set key (length pre) ix) = Inr ix'"
    by (auto simp: p)
  have "mh_ok \<lparr>mh_raw = pre @ p # raw, mh_index = dict_set key (length pre) ix\<rparr>"
  proof (rule mh_okI)
    show "dict_wf (mh_index \<lparr>mh_raw = pre @ p # raw, mh_index = dict_set key (length pre) ix\<rparr>)"
      using Cons.prems(2) by (simp add: mh_ok_def dict_wf_set)
  qed (use key p Cons.prems(2) in \<open>auto simp: map_of_dict_set split: if_splits dest: mh_ok_lookup\<close>)
  then have IH: "mh_ok \<lparr>mh_raw = (pre @ [p]) @ raw, mh_index = ix'\<rparr>
      \<and> fst ` set (dict_set key (length pre) ix) \<subseteq> fst ` set ix'
      \<and> (\<forall>(n, v) \<in> set raw. \<exists>k. name_key n = Inr k \<and> k \<in> fst ` set ix')"
    by (intro Cons.IH rec) simp
  moreover have "fst ` set (dict_set key (length pre) ix) = insert key (fst ` set ix)"
    using keys_dict_set [of key "length pre" ix, THEN arg_cong [of _ _ set]]
    by (auto split: if_splits)
  ultimately show ?case using key p by auto
qed

lemma mh_init_ok: "mh_init raw sc = Inr m \<Longrightarrow> mh_ok m \<and> mh_complete m"
  using mh_index_loop_ok [of _ "[]" "[]"]
  by (fastforce simp: mh_init_def Let_def mh_complete_def mh_ok_def)

lemma mh_store_ok: "mh_ok m \<Longrightarrow> blower kb = kb \<Longrightarrow> mh_ok (mh_store kb vb m)"
proof (rule mh_okI)
  assume ok: "mh_ok m" and kb: "blower kb = kb"
  then show "dict_wf (mh_index (mh_store kb vb m))"
    by (auto simp: mh_store_def mh_ok_def dict_wf_set split: option.splits)
  fix k i
  assume "map_of (mh_index (mh_store kb vb m)) k = Some i"
  then show "i < length (mh_raw (mh_store kb vb m)) \<and> name_key (fst (mh_raw (mh_store kb vb m) ! i)) = Inr k"
    using ok kb mh_ok_lookup [OF ok, of k i] mh_ok_lookup [OF ok, of kb]
    by (auto simp: mh_store_def map_of_dict_set nth_list_update nth_append name_key_def
        split: option.splits if_splits)
qed

lemma mh_look_store:
  assumes "mh_ok m" and "blower kb = kb"
  shows "mh_look (mh_store kb vb m) = (mh_look m)(kb \<mapsto> latin1_decode vb)"
proof
  fix k
  show "mh_look (mh_store kb vb m) k = ((mh_look m)(kb \<mapsto> latin1_decode vb)) k"
  proof (cases "map_of (mh_index m) k")
    case None
    then show ?thesis
      by (auto simp: mh_look_def mh_store_def map_of_dict_set hvalue_def nth_append
          dest: mh_ok_lookup [OF assms(1)] split: option.splits)
  next
    case (Some i)
    note at_i = mh_ok_lookup [OF assms(1) Some]
    have "j \<noteq> i" if "map_of (mh_index m) kb = Some j" "kb \<noteq> k" for j
      using mh_ok_lookup [OF assms(1) that(1)] at_i that(2) by auto
    with Some at_i show ?thesis
      by (auto simp: mh_look_def mh_store_def map_of_dict_set hvalue_def nth_append
          nth_list_update split: option.splits)
  qed
qed

interpretation mut_headers: mutable_mapping
  mh_look mh_store latin1_decode mh_ok "\<lambda>kb. blower kb = kb"
  by unfold_locales (simp_all add: mh_look_store mh_store_ok)

lemma mh_get_look:
  "mh_ok m \<Longrightarrow> str_key key = Inr kb \<Longrightarrow>
   mh_get m key d = Inr (case mh_look m kb of Some v \<Rightarrow> Some v | None \<Rightarrow> d)"
  by (auto simp: mh_get_def mh_find_def mh_look_def mh_value_at_def
      dest: mh_ok_lookup split: option.splits)

text \<open>The pairs an \<open>update\<close> assigns, once encoded.\<close>

definition encode_pair :: "str \<times> str \<Rightarrow> (bytes \<times> bytes) res" where
  "encode_pair p = rbind (str_key (fst p)) (\<lambda>kb. rbind (latin1_encode (snd p)) (\<lambda>vb. Inr (kb, vb)))"

lemma mh_setitem_store:
  "mh_ok m \<Longrightarrow> encode_pair (k, v) = Inr (kb, vb) \<Longrightarrow> mh_setitem m k v = Inr (mh_store kb vb m)"
  by (auto simp: mh_setitem_def encode_pair_def dest: mh_ok_lookup split: option.splits)

lemma str_key_blower: "str_key key = Inr kb \<Longrightarrow> blower kb = kb"
  unfolding str_key_def by (rule lower_latin1)

lemma encode_pair_blower: "encode_pair p = Inr (kb, vb) \<Longrightarrow> blower kb = kb"
  by (auto simp: encode_pair_def dest: str_key_blower)

lemma mh_update_fold:
  "mh_ok m \<Longrightarrow> rmap encode_pair ps = Inr eps \<Longrightarrow>
   mh_update m ps = (Inr (), fold (\<lambda>(kb, vb). mh_store kb vb) eps m)"
proof (induction ps arbitrary: m eps)
  case Nil
  then show ?case by simp
next
  case (Cons p ps)
  obtain k v where p: "p = (k, v)" by fastforce
  from Cons.prems obtain kb vb eps' where e: "encode_pair (k, v) = Inr (kb, vb)"
    "rmap encode_pair ps = Inr eps'" "eps = (kb, vb) # eps'"
    by (auto simp: p)
  then show ?case
    using Cons.IH [OF mh_store_ok [OF Cons.prems(1) encode_pair_blower [OF e(1)]] e(2), of vb]
    by (simp add: p mh_setitem_store [OF Cons.prems(1) e(1)])
qed

lemma mh_index_loop_last:
  assumes "mh_index_loop raw n ix = Inr ix'" and "map_of ix' k = Some i"
  shows "map_of ix k = Some i \<and> (\<forall>x \<in> set raw. name_key (fst x) \<noteq> Inr k) \<or>
         (n \<le> i \<and> i < n + length raw \<and> (\<forall>x \<in> set (drop (Suc (i - n)) raw). name_key (fst x) \<noteq> Inr k))"
  using assms
proof (induction raw arbitrary: n ix)
  case Nil
  then show ?case by simp
next
  case (Cons p raw)
  obtain h v where p: "p = (h, v)" by fastforce
  from Cons.prems(1) obtain key where key: "name_key h = Inr key"
    and rec: "mh_index_loop raw (Suc n) (dict_set key n ix) = Inr ix'"
    by (auto simp: p)
  from Cons.IH [OF rec Cons.prems(2)] show ?case
  proof
    assume "map_of (dict_set key n ix) k = Some i \<and> (\<forall>x \<in> set raw. name_key (fst x) \<noteq> Inr k)"
    then show ?thesis using key p by (auto simp: map_of_dict_set split: if_splits)
  next
    assume tail: "Suc n \<le> i \<and> i < Suc n + length raw \<and>
      (\<forall>x \<in> set (drop (Suc (i - Suc n)) raw). name_key (fst x) \<noteq> Inr k)"
    then have "Suc (i - n) = Suc (Suc (i - Suc n))" by arith
    with tail show ?thesis by simp
  qed
qed

lemma mh_getlist_loop_append:
  "mh_getlist_loop (xs @ ys) k =
     rbind (mh_getlist_loop xs k) (\<lambda>a. rbind (mh_getlist_loop ys k) (\<lambda>b. Inr (a @ b)))"
proof (induction xs)
  case Nil
  then show ?case by (cases "mh_getlist_loop ys k") auto
next
  case (Cons p xs)
  obtain n v where p: "p = (n, v)" by fastforce
  show ?case
    by (cases "name_key n"; cases "mh_getlist_loop xs k"; cases "mh_getlist_loop ys k")
       (simp_all add: p Cons)
qed

lemma mh_getlist_loop_total:
  assumes "\<forall>(n, v) \<in> set raw. \<exists>k'. name_key n = Inr k'"
  shows "mh_getlist_loop raw k = Inr (map (\<lambda>(n, v). hvalue v) (filter (\<lambda>(n, v). name_key n = Inr k) raw))"
  using assms by (induction raw k rule: mh_getlist_loop.induct) auto

lemma mh_getlist_loop_none:
  "\<forall>x \<in> set raw. name_key (fst x) \<noteq> Inr k \<Longrightarrow> mh_getlist_loop raw k = Inr b \<Longrightarrow> b = []"
  by (induction raw k arbitrary: b rule: mh_getlist_loop.induct) (auto split: if_splits)

lemma mh_getlist_remove_last:
  assumes "i < length raw" and "name_key (fst (raw ! i)) = Inr k"
    and "\<forall>x \<in> set (drop (Suc i) raw). name_key (fst x) \<noteq> Inr k"
    and "mh_getlist_loop raw k = Inr vs"
  shows "mh_getlist_loop (remove_at i raw) k = Inr (butlast vs) \<and> vs \<noteq> []"
proof -
  obtain n v where p: "raw ! i = (n, v)" by fastforce
  have raw: "raw = take i raw @ (n, v) # drop (Suc i) raw"
    using assms(1) p by (metis id_take_nth_drop)
  from assms(4) obtain a b where ab: "mh_getlist_loop (take i raw) k = Inr a"
    "mh_getlist_loop (drop (Suc i) raw) k = Inr b" "vs = a @ hvalue v # b"
    using assms(2) p by (subst (asm) raw) (auto simp: mh_getlist_loop_append)
  have "b = []"
    using mh_getlist_loop_none [OF assms(3) ab(2)] .
  with ab show ?thesis by (simp add: remove_at_def mh_getlist_loop_append)
qed

subsection \<open>Lemmas: raw headers, bodies and events\<close>

definition raw_values :: "resp_headers \<Rightarrow> bytes \<Rightarrow> bytes list" where
  "raw_values hs name = map snd (filter (\<lambda>h. blower (fst h) = name) hs)"

lemma raw_values_set:
  "raw_values (set_raw_loop hs name v) name' =
     (if name' = blower name \<and> blower name = name then v # tl (raw_values hs name)
      else if name' = blower name then raw_values (set_raw_loop hs name v) name'
      else raw_values hs name')"
  by (induction hs) (auto simp: raw_values_def)

lemma raw_values_set_raw_header [simp]:
  "raw_values (r_raw (set_raw_header name v r)) name' =
     (if name' = blower name then v # tl (raw_values (r_raw r) name') else raw_values (r_raw r) name')"
  by (simp add: set_raw_header_def raw_values_set)

lemma set_raw_loop_idem: "set_raw_loop (set_raw_loop hs (blower n) v) (blower n) v = set_raw_loop hs (blower n) v"
  by (induction hs) auto

lemma set_raw_header_simps [simp]:
  "r_status (set_raw_header n v r) = r_status r" "r_body (set_raw_header n v r) = r_body r"
  "r_media (set_raw_header n v r) = r_media r" "r_background (set_raw_header n v r) = r_background r"
  by (simp_all add: set_raw_header_def)

lemma set_content_type_body [simp]: "set_content_type r = Inr r' \<Longrightarrow> r_body r' = r_body r"
  "set_content_type r = Inr r' \<Longrightarrow> r_status r' = r_status r"
  by (auto simp: set_content_type_def split: option.splits)

lemma blower_lit [simp]:
  "blower ''content-length'' = ''content-length''" "blower ''content-type'' = ''content-type''"
  "blower ''etag'' = ''etag''" "blower ''last-modified'' = ''last-modified''"
  "blower ''content-disposition'' = ''content-disposition''"
  by (simp_all add: blower_def)

lemma stream_loop_run:
  "stream_loop cs = (ms, out) \<Longrightarrow>
     (case rmap chunk_bytes cs of
        Inr bs \<Rightarrow> out = Inr () \<and> run_response Streaming ms = Complete \<and> body_of ms = concat bs
      | Inl e \<Rightarrow> out = Inl e \<and> run_response Streaming ms = Streaming)"
proof (induction cs arbitrary: ms out)
  case Nil
  then show ?case by auto
next
  case (Cons c cs)
  then show ?case
    by (cases "chunk_bytes c"; cases "stream_loop cs"; cases "rmap chunk_bytes cs") fastforce+
qed

text \<open>
  What an event-stream client reads: the fields of the lines before the first empty one,
  with one space after the colon removed, and the data lines joined by line feeds.
\<close>

definition sse_field :: "string \<Rightarrow> str \<Rightarrow> str option" where
  "sse_field name l =
     (if startswith l (S name @ [58]) then
        (let v = drop (Suc (length name)) l in Some (if startswith v [32] then tl v else v))
      else None)"

definition sse_client_data :: "str \<Rightarrow> str" where
  "sse_client_data s =
     join [10] (List.map_filter (sse_field ''data'') (takeWhile (\<lambda>l. l \<noteq> []) (split_on 10 s)))"

definition sse_client_event :: "str \<Rightarrow> str list" where
  "sse_client_event s =
     List.map_filter (sse_field ''event'') (takeWhile (\<lambda>l. l \<noteq> []) (split_on 10 s))"

lemma sse_field_data [simp]: "sse_field ''data'' (S ''data: '' @ l) = Some l"
  "sse_field ''event'' (S ''data: '' @ l) = None"
  by (simp_all add: sse_field_def S_def startswith_def)

lemma sse_field_event [simp]: "sse_field ''event'' (S ''event: '' @ l) = Some l"
  "sse_field ''data'' (S ''event: '' @ l) = None"
  by (simp_all add: sse_field_def S_def startswith_def)

lemma sse_field_other [simp]: "sse_field ''data'' (S ''id: '' @ l) = None"
  "sse_field ''data'' (S ''retry: '' @ l) = None"
  "sse_field ''event'' (S ''id: '' @ l) = None" "sse_field ''event'' (S ''retry: '' @ l) = None"
  by (simp_all add: sse_field_def S_def startswith_def)

lemma map_filter_append [simp]: "List.map_filter f (xs @ ys) = List.map_filter f xs @ List.map_filter f ys"
  by (simp add: List.map_filter_def)

lemma map_filter_data: "List.map_filter (sse_field ''data'') (map (\<lambda>l. S ''data: '' @ l) ls) = ls"
  "List.map_filter (sse_field ''event'') (map (\<lambda>l. S ''data: '' @ l) ls) = []"
  by (induction ls) (simp_all add: List.map_filter_simps)

lemma int_str_no_lf: "10 \<notin> set (int_str n)"
  using dec_digits [of 10] by (auto simp: int_str_def is_digit_def)

lemma sse_lines_split:
  fixes event ident payload retry
  assumes "\<And>e. event = Some e \<Longrightarrow> 10 \<notin> set e" and "\<And>i. ident = Some i \<Longrightarrow> 10 \<notin> set i"
  shows "takeWhile (\<lambda>l. l \<noteq> []) (split_on 10 (join [10] (sse_lines payload event ident retry @ [[], []]))) =
    sse_lines payload event ident retry"
proof -
  have lf: "10 \<notin> set (S ''event: '')" "10 \<notin> set (S ''id: '')" "10 \<notin> set (S ''retry: '')"
    "10 \<notin> set (S ''data: '')"
    by (simp_all add: S_def)
  have "10 \<notin> set l \<and> l \<noteq> []" if "l \<in> set (sse_lines payload event ident retry)" for l
    using that assms lf int_str_no_lf
    by (auto simp: sse_lines_def dest: split_on_pieces split: option.splits)
  then have "split_on 10 (join [10] (sse_lines payload event ident retry @ [[], []])) =
      sse_lines payload event ident retry @ [[], []]" and "\<forall>l \<in> set (sse_lines payload event ident retry). l \<noteq> []"
    by (auto intro!: split_on_join)
  then show ?thesis by (simp add: takeWhile_append2)
qed

text \<open>A header that is already set as wanted.\<close>

definition header_fixed :: "bytes \<Rightarrow> bytes \<Rightarrow> 'a response_scheme \<Rightarrow> bool" where
  "header_fixed n v r \<longleftrightarrow> set_raw_header n v r = r"

lemma set_raw_loop_other:
  "n \<noteq> n' \<Longrightarrow> blower n = n \<Longrightarrow> set_raw_loop hs n v = hs \<Longrightarrow>
   set_raw_loop (set_raw_loop hs n' v') n v = set_raw_loop hs n' v'"
  by (induction hs) (auto split: if_splits)

lemma header_fixed_set [simp]: "header_fixed n v (set_raw_header n v r)"
  by (simp add: header_fixed_def set_raw_header_def set_raw_loop_idem)

lemma header_fixed_raw: "header_fixed n v r \<longleftrightarrow> set_raw_loop (r_raw r) (blower n) v = r_raw r"
proof
  assume "header_fixed n v r"
  then have "r_raw (set_raw_header n v r) = r_raw r" by (simp add: header_fixed_def)
  then show "set_raw_loop (r_raw r) (blower n) v = r_raw r" by (simp add: set_raw_header_def)
next
  assume "set_raw_loop (r_raw r) (blower n) v = r_raw r"
  then show "header_fixed n v r" by (simp add: header_fixed_def set_raw_header_def)
qed

lemma header_fixed_other:
  "blower n \<noteq> blower n' \<Longrightarrow> header_fixed n v r \<Longrightarrow> header_fixed n v (set_raw_header n' v' r)"
  unfolding header_fixed_raw by (simp add: set_raw_header_def set_raw_loop_other)

lemma file_fields_set [simp]:
  "f_stat (set_raw_header n v r) = f_stat r" "f_filename (set_raw_header n v r) = f_filename r"
  "f_disposition (set_raw_header n v r) = f_disposition r" "f_path (set_raw_header n v r) = f_path r"
  by (simp_all add: set_raw_header_def)

text \<open>The content type is set as the media type wants it.\<close>

definition content_type_fixed :: "'a response_scheme \<Rightarrow> bool" where
  "content_type_fixed r \<longleftrightarrow>
     (case r_media r of None \<Rightarrow> True
      | Some m \<Rightarrow> (case latin1_encode (content_type_of m) of Inl e \<Rightarrow> False
                   | Inr b \<Rightarrow> header_fixed ''content-type'' b r))"

lemma content_type_fixedD: "content_type_fixed r \<Longrightarrow> set_content_type r = Inr r"
  by (cases "r_media r"; cases "latin1_encode (content_type_of (the (r_media r)))")
     (simp_all add: content_type_fixed_def set_content_type_def header_fixed_def)

lemma set_content_type_fixes: "set_content_type r = Inr r' \<Longrightarrow> content_type_fixed r'"
  by (cases "r_media r"; cases "latin1_encode (content_type_of (the (r_media r)))")
     (auto simp: content_type_fixed_def set_content_type_def)

lemma content_type_fixed_set:
  "content_type_fixed r \<Longrightarrow> blower n \<noteq> ''content-type'' \<Longrightarrow> content_type_fixed (set_raw_header n v r)"
  using header_fixed_other [of "''content-type''" n]
  by (simp add: content_type_fixed_def split: option.splits sum.splits)

lemma content_type_fixed_stat [simp]: "content_type_fixed (r\<lparr>f_stat := x\<rparr>) \<longleftrightarrow> content_type_fixed r"
  by (simp add: content_type_fixed_def header_fixed_raw split: option.splits sum.splits)

lemma file_stat_headers_fixed:
  assumes "file_stat_headers st r = Inr r'" and "content_type_fixed r"
  shows "file_stat_headers st r' = Inr r' \<and> content_type_fixed r' \<and> f_stat r' = f_stat r"
proof -
  from assms(1) obtain lm tag where e: "latin1_encode (formatdate (st_mtime st)) = Inr lm"
    "latin1_encode (etag_of st) = Inr tag"
    by (auto simp: file_stat_headers_def Let_def)
  define r2 where "r2 = set_raw_header ''etag'' tag (set_raw_header ''last-modified'' lm
      (set_raw_header ''content-length'' (num_bytes (st_size st)) r))"
  have r2: "header_fixed ''content-length'' (num_bytes (st_size st)) r2"
    "header_fixed ''last-modified'' lm r2" "header_fixed ''etag'' tag r2"
    by (simp_all add: r2_def header_fixed_other)
  have ct: "content_type_fixed r2"
    by (simp add: r2_def content_type_fixed_set assms(2))
  have fields: "f_filename r2 = f_filename r" "f_disposition r2 = f_disposition r" "f_stat r2 = f_stat r"
    by (simp_all add: r2_def)
  show ?thesis
  proof (cases "f_filename r")
    case None
    with assms(1) e have "r' = r2" by (simp add: file_stat_headers_def Let_def r2_def)
    with None e r2 ct fields show ?thesis
      by (simp add: file_stat_headers_def Let_def header_fixed_def)
  next
    case (Some name)
    with assms(1) e obtain cd where cd: "latin1_encode (f_disposition r @ S ''; filename='' @ 34 # name @ [34]) = Inr cd"
      and r': "r' = set_raw_header ''content-disposition'' cd r2"
      by (auto simp: file_stat_headers_def Let_def r2_def)
    have "header_fixed ''content-length'' (num_bytes (st_size st)) r'" "header_fixed ''last-modified'' lm r'"
      "header_fixed ''etag'' tag r'" "header_fixed ''content-disposition'' cd r'"
      unfolding r' using r2 by (simp_all add: header_fixed_other)
    moreover have "f_filename r' = Some name" "f_disposition r' = f_disposition r" "f_stat r' = f_stat r"
      "content_type_fixed r'"
      using Some fields by (simp_all add: r' content_type_fixed_set ct)
    ultimately show ?thesis using e cd
      by (simp add: file_stat_headers_def Let_def header_fixed_def)
  qed
qed

lemma join_fuse: "join sep ((a @ sep @ b) # xs) = join sep (a # b # xs)"
  by (cases xs) simp_all

subsection \<open>Properties\<close>

text \<open>
  Assigning header pairs through \<open>MutableHeaders.update\<close> never fails on encodable pairs,
  keeps the position index sound, and afterwards a lookup of any spelling of a key returns
  the last value assigned to it, or what it returned before.
\<close>

theorem mutable_headers_update:
  assumes "mh_init raw sc = Inr m" and "rmap encode_pair ps = Inr eps" and "str_key key = Inr kb"
  shows "fst (mh_update m ps) = Inr () \<and> mh_ok (snd (mh_update m ps)) \<and>
    mh_get (snd (mh_update m ps)) key d =
      (case map_of (rev eps) kb of Some vb \<Rightarrow> Inr (Some (latin1_decode vb)) | None \<Rightarrow> mh_get m key d)"
proof -
  note ok = mh_init_ok [OF assms(1), THEN conjunct1]
  have keys: "blower k = k" if "(k, v) \<in> set eps" for k v
  proof -
    from that obtain i where "i < length eps" "eps ! i = (k, v)"
      by (auto simp: in_set_conv_nth)
    then have "encode_pair (ps ! i) = Inr (k, v)"
      using assms(2) by (auto simp: rmap_Inr_iff list_all2_conv_all_nth)
    then show ?thesis by (rule encode_pair_blower)
  qed
  note upd = mh_update_fold [OF ok assms(2)]
  note all = mut_headers.store_all [of m eps, OF ok keys]
  have "map_of (rev (map (\<lambda>(k, w). (k, latin1_decode w)) eps)) kb = map_option latin1_decode (map_of (rev eps) kb)"
    by (simp add: rev_map map_of_map)
  then show ?thesis
    using all mh_get_look [OF ok assms(3), of d]
    by (auto simp: upd mh_get_look [OF _ assms(3)] map_add_def split: option.splits)
qed

theorem mutable_headers_update_witness:
  "mh_get (snd (mh_update \<lparr>mh_raw = [(HB ''x-a'', HB ''1'')], mh_index = [(''x-a'', 0)]\<rparr>
       [(S ''x-a'', S ''2''), (S ''B'', S ''3'')])) (S ''X-a'') None = Inr (Some (S ''2''))"
proof -
  have 1: "mh_init (Some [(HB ''x-a'', HB ''1'')]) None =
      Inr \<lparr>mh_raw = [(HB ''x-a'', HB ''1'')], mh_index = [(''x-a'', 0)]\<rparr>"
    by (simp add: mh_init_def name_key_def blower_def dict_set_def)
  have keys: "lower (S ''x-a'') = S ''x-a''" "lower (S ''B'') = S ''b''" "lower (S ''X-a'') = S ''x-a''"
    by (simp_all add: lower_def lower_cp_def S_def)
  have 2: "rmap encode_pair [(S ''x-a'', S ''2''), (S ''B'', S ''3'')] = Inr [(''x-a'', ''2''), (''b'', ''3'')]"
    using keys by (simp add: encode_pair_def str_key_def)
  have 3: "str_key (S ''X-a'') = Inr ''x-a''"
    using keys by (simp add: str_key_def)
  show ?thesis using mutable_headers_update [OF 1 2 3, of None] by (simp add: S_def latin1_decode_def)
qed

text \<open>
  Deleting a header removes exactly its last value: the earlier values of a repeated
  header stay in the raw list and are still sent and listed by \<open>getlist\<close>, while membership
  and item access report the key as absent.
\<close>

theorem mutable_headers_delete:
  assumes "mh_init raw sc = Inr m" and "mh_delitem m key = Inr m'"
  shows "\<exists>vs. mh_getlist m key = Inr vs \<and> vs \<noteq> [] \<and> mh_getlist m' key = Inr (butlast vs)
    \<and> mh_contains m' (HS key) = Inr False \<and> mh_getitem m' key = Inl (KeyError key)"
proof -
  note ok = mh_init_ok [OF assms(1)]
  from assms(2) obtain kb i where kb: "str_key key = Inr kb" and i: "map_of (mh_index m) kb = Some i"
    and m': "m' = \<lparr>mh_raw = remove_at i (mh_raw m),
      mh_index = map (\<lambda>(k, v). (k, if v > i then v - 1 else v)) (dict_del kb (mh_index m))\<rparr>"
    by (auto simp: mh_delitem_def split: option.splits if_splits)
  from assms(1) have loop: "mh_index_loop (mh_raw m) 0 [] = Inr (mh_index m)"
    by (auto simp: mh_init_def Let_def)
  from ok have total: "\<forall>(n, v) \<in> set (mh_raw m). \<exists>k'. name_key n = Inr k'"
    by (fastforce simp: mh_complete_def)
  obtain vs where vs: "mh_getlist_loop (mh_raw m) kb = Inr vs"
    using mh_getlist_loop_total [OF total, of kb] by blast
  have last: "\<forall>x \<in> set (drop (Suc i) (mh_raw m)). name_key (fst x) \<noteq> Inr kb"
    using mh_index_loop_last [OF loop i] by simp
  have "map_of (mh_index m') kb = None"
    by (simp add: m' map_of_map map_of_dict_del)
  then have "mh_find m' (HS key) = Inr None" by (simp add: mh_find_def kb)
  moreover have "mh_getlist_loop (mh_raw m') kb = Inr (butlast vs) \<and> vs \<noteq> []"
    using mh_getlist_remove_last [OF _ _ last vs] mh_ok_lookup [OF conjunct1 [OF ok] i] by (simp add: m')
  ultimately show ?thesis
    by (simp add: mh_getlist_def kb vs mh_contains_def mh_getitem_def)
qed

theorem mutable_headers_delete_witness:
  "\<exists>vs. mh_getlist \<lparr>mh_raw = [(HB ''a'', HB ''1''), (HB ''a'', HB ''2'')], mh_index = [(''a'', 1)]\<rparr> (S ''a'') = Inr vs
    \<and> vs \<noteq> [] \<and> mh_getlist \<lparr>mh_raw = [(HB ''a'', HB ''1'')], mh_index = []\<rparr> (S ''a'') = Inr (butlast vs)
    \<and> mh_contains \<lparr>mh_raw = [(HB ''a'', HB ''1'')], mh_index = []\<rparr> (HS (S ''a'')) = Inr False
    \<and> mh_getitem \<lparr>mh_raw = [(HB ''a'', HB ''1'')], mh_index = []\<rparr> (S ''a'') = Inl (KeyError (S ''a''))"
proof -
  have 1: "mh_init (Some [(HB ''a'', HB ''1''), (HB ''a'', HB ''2'')]) None =
      Inr \<lparr>mh_raw = [(HB ''a'', HB ''1''), (HB ''a'', HB ''2'')], mh_index = [(''a'', 1)]\<rparr>"
    by (simp add: mh_init_def name_key_def blower_def dict_set_def)
  have key: "lower (S ''a'') = S ''a''" by (simp add: lower_def lower_cp_def S_def)
  have 2: "mh_delitem \<lparr>mh_raw = [(HB ''a'', HB ''1''), (HB ''a'', HB ''2'')], mh_index = [(''a'', 1)]\<rparr> (S ''a'') =
      Inr \<lparr>mh_raw = [(HB ''a'', HB ''1'')], mh_index = []\<rparr>"
    using key by (simp add: mh_delitem_def str_key_def remove_at_def dict_del_def)
  show ?thesis by (rule mutable_headers_delete [OF 1 2])
qed

text \<open>
  A constructed response announces its body: its first \<open>content-length\<close> header is the
  exact body length, whatever headers the caller passed; for status 204 and 304 the body is
  empty and no content header is added.
\<close>

theorem response_content_length:
  assumes "response_init cls c status hdrs media bg = Inr r"
  shows "(status \<notin> {204, 304} \<longrightarrow>
            (\<exists>rest. raw_values (r_raw r) ''content-length'' = num_bytes (length (r_body r)) # rest)
            \<and> render c = Inr (r_body r))
    \<and> (status \<in> {204, 304} \<longrightarrow> r_body r = [] \<and> encode_headers hdrs = Inr (r_raw r))
    \<and> r_status r = status"
proof -
  from assms obtain body raw where body: "render c = Inr body" and raw: "encode_headers hdrs = Inr raw"
    and pop: "populate_content_headers \<lparr>r_status = status,
         r_media = (case media of None \<Rightarrow> cls | Some m \<Rightarrow> Some m), r_body = body, r_raw = raw,
         r_background = bg\<rparr> = Inr r"
    by (auto simp: response_init_def)
  show ?thesis
  proof (cases "status \<in> {204, 304}")
    case True
    with pop raw show ?thesis by (auto simp: populate_content_headers_def)
  next
    case False
    with pop obtain r' where ct: "set_content_type \<lparr>r_status = status,
         r_media = (case media of None \<Rightarrow> cls | Some m \<Rightarrow> Some m), r_body = body, r_raw = raw,
         r_background = bg\<rparr> = Inr r'"
      and r: "r = set_raw_header ''content-length'' (num_bytes (length body)) r'"
      by (auto simp: populate_content_headers_def)
    have "r_body r' = body" "r_status r' = status"
      using set_content_type_body [OF ct] by simp_all
    with False body r show ?thesis by simp
  qed
qed

theorem response_content_length_witness:
  "html_response_init (CText (S ''hi'')) 200 None None False =
    Inr \<lparr>r_status = 200, r_media = Some (S ''text/html''), r_body = ''hi'',
     r_raw = [(''content-type'', ''text/html; charset=utf-8''), (''content-length'', ''2'')],
     r_background = False\<rparr>
   \<and> render (CText (S ''hi'')) = Inr ''hi''"
proof -
  have "content_type_of (S ''text/html'') = S ''text/html; charset=utf-8''"
    by (simp add: content_type_of_def startswith_def S_def)
  moreover have "dec (Suc (Suc 0)) = S ''2''" by (simp add: dec.simps S_def)
  moreover have "utf8_encode (S ''hi'') = Inr ''hi''" by (rule utf8_encode_ascii) (simp add: S_def)
  ultimately have init: "html_response_init (CText (S ''hi'')) 200 None None False =
    Inr \<lparr>r_status = 200, r_media = Some (S ''text/html''), r_body = ''hi'',
     r_raw = [(''content-type'', ''text/html; charset=utf-8''), (''content-length'', ''2'')],
     r_background = False\<rparr>"
    by (simp add: html_response_init_def response_init_def render_def encode_headers_def
        populate_content_headers_def set_content_type_def set_raw_header_def num_bytes_def)
  from response_content_length [OF this [unfolded html_response_init_def]] init show ?thesis by simp
qed

text \<open>
  A streaming response obeys the ASGI protocol: if every chunk can be encoded, it sends
  one complete response whose body is the concatenation of the encoded chunks, and then runs
  the background task; otherwise it stops with the first encoding error, with the response
  still open and the background task not run.
\<close>

theorem streaming_response_protocol:
  "case rmap chunk_bytes cs of
     Inr bs \<Rightarrow> response_complete (fst (streaming_call r cs)) \<and> body_of (fst (streaming_call r cs)) = concat bs
        \<and> snd (streaming_call r cs) = Inr (r_background r)
   | Inl e \<Rightarrow> run_response Idle (fst (streaming_call r cs)) = Streaming \<and> snd (streaming_call r cs) = Inl e"
proof -
  obtain ms out where s: "stream_loop cs = (ms, out)" by fastforce
  show ?thesis
    using stream_loop_run [OF s]
    by (auto simp: streaming_call_def s response_complete_def split: sum.splits)
qed

text \<open>
  Server-sent events round-trip: a client that reads the formatted event gets back the
  payload text, line feeds included, and the event name, provided event name and id contain
  no line feed.
\<close>

theorem sse_roundtrip:
  assumes "sse_text dumps d = Inr (Some t)" and "\<And>e. event = Some e \<Longrightarrow> 10 \<notin> set e"
    and "\<And>i. ident = Some i \<Longrightarrow> 10 \<notin> set i"
  shows "\<exists>out. sse_format_event dumps d event ident retry = Inr out \<and> sse_client_data out = t
    \<and> sse_client_event out = (case event of None \<Rightarrow> [] | Some e \<Rightarrow> [e])
    \<and> endswith out [10, 10]"
proof (intro exI conjI)
  let ?out = "join [10] (sse_lines (Some t) event ident retry @ [[], []])"
  show "sse_format_event dumps d event ident retry = Inr ?out"
    by (simp add: sse_format_event_def assms(1))
  note lines = sse_lines_split [OF assms(2,3), where payload = "Some t" and retry = retry]
  show "sse_client_data ?out = t"
    by (simp add: sse_client_data_def lines)
       (simp add: sse_lines_def map_filter_data List.map_filter_simps join_split_on split: option.splits)
  show "sse_client_event ?out = (case event of None \<Rightarrow> [] | Some e \<Rightarrow> [e])"
    by (simp add: sse_client_event_def lines)
       (simp add: sse_lines_def map_filter_data List.map_filter_simps split: option.splits)
  have "join [10] (ls @ [[], []]) = join [10] ls @ [10, 10]" if "ls \<noteq> []" for ls :: "str list"
    using that by (induction ls rule: list_nonempty_induct) (simp_all add: join_Cons)
  moreover have "sse_lines (Some t) event ident retry \<noteq> []"
    by (simp add: sse_lines_def)
  ultimately show "endswith ?out [10, 10]" unfolding endswith_iff by blast
qed

theorem sse_roundtrip_witness:
  "\<exists>out. sse_format_event (\<lambda>_. Inr []) (SseText (S ''a'' @ 10 # S ''b'') :: nat sse_data) (Some (S ''tick'')) None (Some 5) = Inr out
    \<and> sse_client_data out = S ''a'' @ 10 # S ''b''
    \<and> sse_client_event out = (case Some (S ''tick'') of None \<Rightarrow> [] | Some e \<Rightarrow> [e]) \<and> endswith out [10, 10]"
  by (rule sse_roundtrip) (auto simp: sse_text_def S_def)

text \<open>
  Populating the headers of a file response is idempotent once the file has been found,
  whatever the file system answers the second time: the first call of the response, which
  populates again, sends the headers the constructor computed.
\<close>

theorem file_headers_idempotent:
  assumes "populate_file_headers fs r = Inr r'" and "f_stat r' = Some st"
  shows "populate_file_headers fs' r' = Inr r'"
proof -
  from assms(1) obtain r1 where r1: "set_content_type r = Inr r1"
    by (auto simp: populate_file_headers_def)
  note fixed = set_content_type_fixes [OF r1]
  obtain st' r2 where r2: "file_stat_headers st' r2 = Inr r'" "f_stat r2 = Some st'" "content_type_fixed r2"
  proof (cases "f_stat r1")
    case None
    have "\<exists>st'. fs_stat fs (f_path r1) = StatOk st'"
      using assms None by (cases "fs_stat fs (f_path r1)") (auto simp: populate_file_headers_def r1)
    then obtain st' where "fs_stat fs (f_path r1) = StatOk st'" ..
    then show ?thesis
      using assms(1) None fixed that [of st' "r1\<lparr>f_stat := Some st'\<rparr>"]
      by (simp add: populate_file_headers_def r1)
  next
    case (Some st')
    then show ?thesis using assms(1) fixed that [of st' r1] by (simp add: populate_file_headers_def r1)
  qed
  from file_stat_headers_fixed [OF r2(1,3)] r2(2) show ?thesis
    by (simp add: populate_file_headers_def content_type_fixedD)
qed

theorem file_headers_idempotent_witness:
  "populate_file_headers \<lparr>fs_stat = (\<lambda>_. StatNotFound), fs_open = (\<lambda>_. None)\<rparr>
     \<lparr>r_status = 200, r_media = None, r_body = [],
      r_raw = [(''content-length'', ''0''), (''last-modified'', ''Thu, 01 Jan 1970 00:00:00 GMT''),
               (''etag'', char_of (34::nat) # ''0-0'' @ [char_of (34::nat)])],
      r_background = False, f_path = S ''f'', f_filename = None, f_stat = Some \<lparr>st_size = 0, st_mtime = 0\<rparr>,
      f_head_only = False, f_disposition = [], f_populated = False\<rparr> =
   Inr \<lparr>r_status = 200, r_media = None, r_body = [],
      r_raw = [(''content-length'', ''0''), (''last-modified'', ''Thu, 01 Jan 1970 00:00:00 GMT''),
               (''etag'', char_of (34::nat) # ''0-0'' @ [char_of (34::nat)])],
      r_background = False, f_path = S ''f'', f_filename = None, f_stat = Some \<lparr>st_size = 0, st_mtime = 0\<rparr>,
      f_head_only = False, f_disposition = [], f_populated = False\<rparr>"
proof (rule file_headers_idempotent)
  have date: "formatdate 0 = S ''Thu, 01 Jan 1970 00:00:00 GMT''"
  proof -
    have "year_of_era 135080 = 369" by (simp add: year_of_era_def)
    moreover have "day_of_year 135080 369 = 306" by (simp add: day_of_year_def)
    moreover have "month_day 306 = (1, 1)" by (simp add: month_day_def)
    ultimately have "civil_of_days 0 = (1970, 1, 1)" by (simp add: civil_of_days_def)
    moreover have "dec 1970 = S ''1970''" by (simp add: dec.simps S_def)
    ultimately show ?thesis by (simp add: formatdate_def Let_def two_digits_def S_def)
  qed
  have tag: "etag_of \<lparr>st_size = 0, st_mtime = 0\<rparr> = 34 # S ''0-0'' @ [34]"
    by (simp add: etag_of_def hex.simps S_def)
  have tagb: "latin1_encode (34 # S ''0-0'' @ [34]) = Inr (char_of (34::nat) # ''0-0'' @ [char_of (34::nat)])"
  proof -
    have "34 # S ''0-0'' @ [34] = S (char_of (34::nat) # ''0-0'' @ [char_of (34::nat)])"
      by (simp add: S_def)
    then show ?thesis by (simp only: latin1_encode_S)
  qed
  have len: "num_bytes 0 = ''0''"
  proof -
    have "dec 0 = S ''0''" by (simp add: dec.simps S_def)
    then show ?thesis by (simp add: num_bytes_def)
  qed
  show "populate_file_headers \<lparr>fs_stat = (\<lambda>_. StatOk \<lparr>st_size = 0, st_mtime = 0\<rparr>), fs_open = (\<lambda>_. None)\<rparr>
     \<lparr>r_status = 200, r_media = None, r_body = [], r_raw = [], r_background = False, f_path = S ''f'',
      f_filename = None, f_stat = None, f_head_only = False, f_disposition = [], f_populated = False\<rparr> =
   Inr \<lparr>r_status = 200, r_media = None, r_body = [],
      r_raw = [(''content-length'', ''0''), (''last-modified'', ''Thu, 01 Jan 1970 00:00:00 GMT''),
               (''etag'', char_of (34::nat) # ''0-0'' @ [char_of (34::nat)])],
      r_background = False, f_path = S ''f'', f_filename = None, f_stat = Some \<lparr>st_size = 0, st_mtime = 0\<rparr>,
      f_head_only = False, f_disposition = [], f_populated = False\<rparr>"
    by (simp add: populate_file_headers_def set_content_type_def file_stat_headers_def date tag tagb len
        set_raw_header_def)
qed simp

text \<open>
  A cookie value is written verbatim, without quoting: a value that ends in an attribute
  produces the very header that setting the attribute would have produced.
\<close>

theorem set_cookie_value_verbatim:
  "set_cookie key (value @ S ''; HttpOnly'') max_age None path None secure False samesite r =
   set_cookie key value max_age None path None secure True samesite r"
proof -
  have lit: "S ''; HttpOnly'' = S ''; '' @ S ''HttpOnly''" by (simp add: S_def)
  have "key @ 61 # value @ S ''; HttpOnly'' = (key @ 61 # value) @ S ''; '' @ S ''HttpOnly''"
    by (simp add: lit)
  then show ?thesis
    by (simp only: set_cookie_def Let_def morsel_attr_def option.map option.case append_Cons append_Nil
        if_True if_False join_fuse)
qed

end
