(* ===== verification/Requests.thy ===== *)
theory Requests
  imports DataStructures Responses
begin

text \<open>
  \<open>astraapi/_request.py\<close>: the URL of a connection, the request's headers (repeated headers
  joined), query parameters, \<open>HTTPConnection\<close> and \<open>Request\<close> with its body, stream, JSON, form
  and disconnection operations. The receive channel is the list of messages still to come; an
  operation that would wait for ever on it returns \<open>None\<close>. The C++ parsers of \<open>_core_bridge\<close>,
  the JSON decoder and the cookie parser are parameters.
\<close>

subsection \<open>URL\<close>

text \<open>
  \<open>urllib.parse.urlparse\<close>: 58 colon, 47 slash, 63 question mark, 35 hash, 59 semicolon, 91
  and 93 brackets. The host between brackets is not validated further.
\<close>

record url_parts =
  u_scheme :: str
  u_netloc :: str
  u_path :: str
  u_params :: str
  u_query :: str
  u_fragment :: str

definition is_alpha :: "nat \<Rightarrow> bool" where
  "is_alpha c \<longleftrightarrow> 65 \<le> c \<and> c \<le> 90 \<or> 97 \<le> c \<and> c \<le> 122"

definition scheme_char :: "nat \<Rightarrow> bool" where
  "scheme_char c \<longleftrightarrow> is_alpha c \<or> is_digit c \<or> c = 43 \<or> c = 45 \<or> c = 46"

definition scheme_split :: "str \<Rightarrow> str \<times> str" where
  "scheme_split s =
     (let (a, b) = split_once 58 s in
      if 58 \<in> set s \<and> a \<noteq> [] \<and> is_alpha (hd a) \<and> list_all scheme_char a then (lower a, b) else ([], s))"

definition netloc_split :: "str \<Rightarrow> str \<times> str" where
  "netloc_split s =
     (if startswith s (S ''//'')
      then (takeWhile (\<lambda>c. c \<noteq> 47 \<and> c \<noteq> 63 \<and> c \<noteq> 35) (drop 2 s),
            dropWhile (\<lambda>c. c \<noteq> 47 \<and> c \<noteq> 63 \<and> c \<noteq> 35) (drop 2 s))
      else ([], s))"

definition cut_at :: "nat \<Rightarrow> str \<Rightarrow> str \<times> str" where
  "cut_at c s = (if c \<in> set s then split_once c s else (s, []))"

definition uses_params :: "str list" where
  "uses_params = map S [[], ''ftp'', ''hdl'', ''prospero'', ''http'', ''https'', ''shttp'', ''rtsp'',
     ''rtsps'', ''rtspu'', ''sip'', ''sips'', ''mms'', ''sftp'', ''tel'']"

text \<open>The parameters of the last path segment.\<close>

definition split_params :: "str \<Rightarrow> str \<times> str" where
  "split_params p =
     (let seg = rev (takeWhile (\<lambda>c. c \<noteq> 47) (rev p));
          dir = take (length p - length seg) p;
          (a, b) = cut_at 59 seg
      in (dir @ a, b))"

definition urlparse :: "str \<Rightarrow> url_parts res" where
  "urlparse url0 =
     (let url = filter (\<lambda>c. c \<noteq> 9 \<and> c \<noteq> 10 \<and> c \<noteq> 13) (dropWhile (\<lambda>c. c \<le> 32) url0);
          (sch, r1) = scheme_split url;
          (net, r2) = netloc_split r1
      in if (91 \<in> set net) \<noteq> (93 \<in> set net) then Inl (ValueError (S ''Invalid IPv6 URL''))
         else
          (let (r3, frag) = cut_at 35 r2;
               (r4, qry) = cut_at 63 r3;
               (p, params) = (if sch \<in> set uses_params \<and> 59 \<in> set r4 then split_params r4 else (r4, []))
           in Inr \<lparr>u_scheme = sch, u_netloc = net, u_path = p, u_params = params,
                   u_query = qry, u_fragment = frag\<rparr>))"

record url =
  url_str :: str
  url_parts :: url_parts

definition url_init :: "str \<Rightarrow> url res" where
  "url_init s = rbind (urlparse s) (\<lambda>c. Inr \<lparr>url_str = s, url_parts = c\<rparr>)"

definition default_port :: "str \<Rightarrow> int option" where
  "default_port scheme =
     (if scheme = S ''http'' then Some 80 else if scheme = S ''https'' then Some 443
      else if scheme = S ''ws'' then Some 80 else if scheme = S ''wss'' then Some 443 else None)"

definition netloc_of :: "str \<Rightarrow> str \<Rightarrow> int \<Rightarrow> str" where
  "netloc_of scheme host port =
     (if default_port scheme = Some port then host else host @ S '':'' @ int_str port)"

definition url_string :: "scope \<Rightarrow> str" where
  "url_string sc =
     (let scheme = get_or (sc_scheme sc) (S ''http'');
          path = get_or (sc_root_path sc) [] @ get_or (sc_path sc) (S ''/'');
          url = (case sc_server sc of
                   None \<Rightarrow> path
                 | Some (host, port) \<Rightarrow> scheme @ S ''://'' @ netloc_of scheme host port @ path);
          qs = hvalue (get_or (sc_query sc) (HB []))
      in if qs \<noteq> [] then url @ S ''?'' @ qs else url)"

definition url_of_scope :: "scope \<Rightarrow> url res" where
  "url_of_scope sc = url_init (url_string sc)"

definition url_is_secure :: "url \<Rightarrow> bool" where
  "url_is_secure u \<longleftrightarrow> u_scheme (url_parts u) = S ''https'' \<or> u_scheme (url_parts u) = S ''wss''"

subsection \<open>Headers and query parameters of a request\<close>

definition rq_headers_init :: "raw_headers option \<Rightarrow> raw_headers option option \<Rightarrow> headers" where
  "rq_headers_init raw scope =
     \<lparr>hd_raw = (case raw of Some r \<Rightarrow> r | None \<Rightarrow> (case scope of Some h \<Rightarrow> get_or h [] | None \<Rightarrow> [])),
      hd_dict = None, hd_list = None\<rparr>"

fun rq_headers_loop ::
  "raw_headers \<Rightarrow> (str, str) dict \<Rightarrow> (str \<times> str) list \<Rightarrow> (str, str) dict \<times> (str \<times> str) list" where
  "rq_headers_loop [] d items = (d, items)"
| "rq_headers_loop ((n, v) # raw) d items =
     rq_headers_loop raw
       (case map_of d (hname n) of
          Some old \<Rightarrow> dict_set (hname n) (old @ S '', '' @ hvalue v) d
        | None \<Rightarrow> dict_set (hname n) (hvalue v) d)
       (items @ [(hname n, hvalue v)])"

definition rq_headers_ensure :: "headers \<Rightarrow> headers" where
  "rq_headers_ensure h =
     (case hd_dict h of
        Some _ \<Rightarrow> h
      | None \<Rightarrow> (let (d, items) = rq_headers_loop (hd_raw h) [] []
                 in h\<lparr>hd_dict := Some d, hd_list := Some items\<rparr>))"

abbreviation rq_dict :: "headers \<Rightarrow> (str, str) dict" where
  "rq_dict h \<equiv> get_or (hd_dict (rq_headers_ensure h)) []"

abbreviation rq_list :: "headers \<Rightarrow> (str \<times> str) list" where
  "rq_list h \<equiv> get_or (hd_list (rq_headers_ensure h)) []"

definition rq_headers_get :: "headers \<Rightarrow> str \<Rightarrow> str option \<Rightarrow> str option \<times> headers" where
  "rq_headers_get h key dflt =
     ((case map_of (rq_dict h) (lower key) of Some v \<Rightarrow> Some v | None \<Rightarrow> dflt), rq_headers_ensure h)"

definition rq_headers_getlist :: "headers \<Rightarrow> str \<Rightarrow> str list \<times> headers" where
  "rq_headers_getlist h key =
     (map snd (filter (\<lambda>(k, v). k = lower key) (rq_list h)), rq_headers_ensure h)"

definition rq_headers_keys :: "headers \<Rightarrow> str list \<times> headers" where
  "rq_headers_keys h = (map fst (rq_dict h), rq_headers_ensure h)"

definition rq_headers_items :: "headers \<Rightarrow> (str \<times> str) list \<times> headers" where
  "rq_headers_items h = (rq_dict h, rq_headers_ensure h)"

definition rq_headers_getitem :: "headers \<Rightarrow> str \<Rightarrow> str res \<times> headers" where
  "rq_headers_getitem h key =
     ((case map_of (rq_dict h) (lower key) of Some v \<Rightarrow> Inr v | None \<Rightarrow> Inl (KeyError (lower key))),
      rq_headers_ensure h)"

definition rq_headers_contains :: "headers \<Rightarrow> str \<Rightarrow> bool \<times> headers" where
  "rq_headers_contains h key = (dict_has (rq_dict h) (lower key), rq_headers_ensure h)"

text \<open>
  Query parameters; \<open>core\<close> is the C++ parser when it is available. The pure Python parser is
  the same text as the one of \<open>_datastructures_impl\<close>.
\<close>

fun parse_qs_loop :: "str list \<Rightarrow> (str, str list) dict \<Rightarrow> (str, str list) dict" where
  "parse_qs_loop [] result = result"
| "parse_qs_loop (part # parts) result =
     (if part = [] then parse_qs_loop parts result
      else (let (k, v) = (if 61 \<in> set part then split_once 61 part else (part, []))
            in parse_qs_loop parts (multi_append (unquote (plus_to_space k)) (unquote (plus_to_space v)) result)))"

definition parse_qs_python :: "str \<Rightarrow> (str, str list) dict" where
  "parse_qs_python qs = (if qs = [] then [] else parse_qs_loop (split_on 38 qs) [])"

definition rq_query_init :: "str option \<Rightarrow> hval option option \<Rightarrow> query_params" where
  "rq_query_init raw scope =
     \<lparr>qp_raw = (case raw of Some r \<Rightarrow> r
                | None \<Rightarrow> (case scope of Some q \<Rightarrow> hvalue (get_or q (HB [])) | None \<Rightarrow> [])),
      qp_dict = None, qp_multi = None\<rparr>"

definition rq_query_ensure :: "(str \<Rightarrow> (str, str list) dict) option \<Rightarrow> query_params \<Rightarrow> query_params" where
  "rq_query_ensure core q =
     (case qp_dict q of
        Some _ \<Rightarrow> q
      | None \<Rightarrow>
          (let multi = (case core of
                          Some parse \<Rightarrow> if qp_raw q \<noteq> [] then parse (qp_raw q) else parse_qs_python (qp_raw q)
                        | None \<Rightarrow> parse_qs_python (qp_raw q))
           in q\<lparr>qp_multi := Some multi, qp_dict := Some (qp_last multi)\<rparr>))"

definition rq_query_get :: "(str \<Rightarrow> (str, str list) dict) option \<Rightarrow> query_params \<Rightarrow> str \<Rightarrow> str option \<Rightarrow> str option" where
  "rq_query_get core q key dflt =
     (case map_of (get_or (qp_dict (rq_query_ensure core q)) []) key of Some v \<Rightarrow> Some v | None \<Rightarrow> dflt)"

definition rq_query_getlist :: "(str \<Rightarrow> (str, str list) dict) option \<Rightarrow> query_params \<Rightarrow> str \<Rightarrow> str list" where
  "rq_query_getlist core q key = dict_get (get_or (qp_multi (rq_query_ensure core q)) []) key []"

definition rq_query_multi_items :: "(str \<Rightarrow> (str, str list) dict) option \<Rightarrow> query_params \<Rightarrow> (str \<times> str) list" where
  "rq_query_multi_items core q =
     concat (map (\<lambda>(k, vs). map (\<lambda>v. (k, v)) vs) (get_or (qp_multi (rq_query_ensure core q)) []))"

subsection \<open>HTTPConnection\<close>

definition connection_ok :: "scope \<Rightarrow> unit res" where
  "connection_ok sc = rassert (sc_type sc = S ''http'' \<or> sc_type sc = S ''websocket'') (AssertionError [])"

definition base_url_string :: "scope \<Rightarrow> str" where
  "base_url_string sc =
     (let scheme = get_or (sc_scheme sc) (S ''http''); root = get_or (sc_root_path sc) [] in
      case sc_server sc of
        None \<Rightarrow> root @ S ''/''
      | Some (host, port) \<Rightarrow> scheme @ S ''://'' @ netloc_of scheme host port @ root @ S ''/'')"

definition base_url :: "scope \<Rightarrow> url res" where
  "base_url sc = url_init (base_url_string sc)"

text \<open>\<open>url_for\<close>; \<open>path_for\<close> is the router's \<open>url_path_for\<close>, absent without a router in scope.\<close>

definition url_for :: "scope \<Rightarrow> (str \<Rightarrow> (str, pval) dict \<Rightarrow> str res) option \<Rightarrow> str \<Rightarrow> (str, pval) dict \<Rightarrow> url res" where
  "url_for sc path_for name params =
     (case path_for of
        None \<Rightarrow> Inl (RuntimeError (S ''Router not available in scope''))
      | Some f \<Rightarrow> rbind (f name params) (\<lambda>p.
          rbind (base_url sc) (\<lambda>b. url_init (rstrip 47 (url_str b) @ p))))"

text \<open>Cookies: \<open>load\<close> is \<open>SimpleCookie.load\<close> with the values of its morsels.\<close>

definition parse_cookies_python :: "(str \<Rightarrow> (str, str) dict res) \<Rightarrow> str \<Rightarrow> (str, str) dict" where
  "parse_cookies_python load header =
     (if header = [] then []
      else case load header of Inl e \<Rightarrow> [] | Inr ms \<Rightarrow> dict_update ms [])"

definition cookies_of :: "(str \<Rightarrow> (str, str) dict) option \<Rightarrow> (str \<Rightarrow> (str, str) dict res) \<Rightarrow> headers \<Rightarrow> (str, str) dict" where
  "cookies_of core load h =
     (let header = get_or (fst (rq_headers_get h (S ''cookie'') (Some []))) [] in
      case core of
        Some parse \<Rightarrow> if header \<noteq> [] then parse header else parse_cookies_python load header
      | None \<Rightarrow> parse_cookies_python load header)"

subsection \<open>Request\<close>

text \<open>\<open>rq_has_receive\<close> is false for the lightweight request without a receive channel.\<close>

record ('j, 'f) request =
  rq_scope :: scope
  rq_headers :: headers
  rq_has_receive :: bool
  rq_body :: "bytes option"
  rq_json :: "'j option"
  rq_json_loaded :: bool
  rq_form :: "'f option"
  rq_disconnected :: bool
  rq_consumed :: bool
  rq_buffered :: "event list"

definition request_init :: "scope \<Rightarrow> bool \<Rightarrow> ('j, 'f) request res" where
  "request_init sc has_receive =
     rbind (connection_ok sc) (\<lambda>_.
     Inr \<lparr>rq_scope = sc, rq_headers = rq_headers_init None (Some (sc_headers sc)),
          rq_has_receive = has_receive, rq_body = None, rq_json = None, rq_json_loaded = False,
          rq_form = None, rq_disconnected = False, rq_consumed = False, rq_buffered = []\<rparr>)"

text \<open>The receive loop of \<open>stream\<close>, run to its end: the chunks it yields and the rest of the channel.\<close>

fun stream_loop_rq :: "event list \<Rightarrow> bytes list \<Rightarrow> (bytes list \<times> event list) option" where
  "stream_loop_rq [] acc = None"
| "stream_loop_rq (e # es) acc =
     (let acc' = (if ev_body e \<noteq> [] then acc @ [ev_body e] else acc)
      in if ev_more e then stream_loop_rq es acc' else Some (acc', es))"

text \<open>An operation on the channel: its result, the request and the channel after it.\<close>

type_synonym ('j, 'f, 'a) channel_op =
  "('j, 'f) request \<Rightarrow> event list \<Rightarrow> ('a res \<times> ('j, 'f) request \<times> event list) option"

definition stream :: "('j, 'f, bytes list) channel_op" where
  "stream r ch =
     (case rq_body r of
        Some b \<Rightarrow> Some (Inr [b, []], r, ch)
      | None \<Rightarrow>
          if rq_consumed r then Some (Inl (RuntimeError (S ''Stream already consumed'')), r, ch)
          else if \<not> rq_has_receive r
          then Some (Inl (AssertionError (S ''No receive channel available'')), r\<lparr>rq_consumed := True\<rparr>, ch)
          else (case stream_loop_rq ch [] of
                  None \<Rightarrow> None
                | Some (chunks, ch') \<Rightarrow> Some (Inr chunks, r\<lparr>rq_consumed := True\<rparr>, ch')))"

definition request_body :: "('j, 'f, bytes) channel_op" where
  "request_body r ch =
     (case rq_body r of
        Some b \<Rightarrow> Some (Inr b, r, ch)
      | None \<Rightarrow>
          (case (if rq_has_receive r then None else sc_body (rq_scope r)) of
             Some b \<Rightarrow> Some (Inr b, r\<lparr>rq_body := Some b\<rparr>, ch)
           | None \<Rightarrow>
               (case stream r ch of
                  None \<Rightarrow> None
                | Some (Inl e, r', ch') \<Rightarrow> Some (Inl e, r', ch')
                | Some (Inr chunks, r', ch') \<Rightarrow>
                    Some (Inr (concat chunks), r'\<lparr>rq_body := Some (concat chunks)\<rparr>, ch'))))"

definition request_json :: "(bytes \<Rightarrow> 'j res) \<Rightarrow> ('j, 'f, 'j option) channel_op" where
  "request_json loads r ch =
     (if rq_json_loaded r then Some (Inr (rq_json r), r, ch)
      else case request_body r ch of
        None \<Rightarrow> None
      | Some (Inl e, r', ch') \<Rightarrow> Some (Inl e, r', ch')
      | Some (Inr b, r', ch') \<Rightarrow>
          (case loads b of
             Inl e \<Rightarrow> Some (Inl e, r', ch')
           | Inr j \<Rightarrow> Some (Inr (Some j), r'\<lparr>rq_json := Some j, rq_json_loaded := True\<rparr>, ch')))"

text \<open>The form parsers: the C++ ones, which may raise, their fallbacks, and the empty form.\<close>

record 'f form_parsers =
  fp_multipart :: "bytes \<Rightarrow> str \<Rightarrow> 'f res"
  fp_multipart_fallback :: "bytes \<Rightarrow> str \<Rightarrow> nat \<Rightarrow> nat \<Rightarrow> 'f res"
  fp_urlencoded :: "bytes \<Rightarrow> 'f res"
  fp_of_dict :: "(str, str list) dict \<Rightarrow> 'f"

definition parse_form :: "'f form_parsers \<Rightarrow> str \<Rightarrow> bytes \<Rightarrow> nat \<Rightarrow> nat \<Rightarrow> 'f res" where
  "parse_form fp ct b max_files max_fields =
     (if contains ct (S ''multipart/form-data'') then
        (case fp_multipart fp b ct of
           Inr f \<Rightarrow> Inr f | Inl e \<Rightarrow> fp_multipart_fallback fp b ct max_files max_fields)
      else if contains ct (S ''application/x-www-form-urlencoded'') then
        (case fp_urlencoded fp b of
           Inr f \<Rightarrow> Inr f | Inl e \<Rightarrow> Inr (fp_of_dict fp (parse_qs_python (latin1_decode b))))
      else Inr (fp_of_dict fp []))"

definition request_form :: "'f form_parsers \<Rightarrow> nat \<Rightarrow> nat \<Rightarrow> ('j, 'f, 'f) channel_op" where
  "request_form fp max_files max_fields r ch =
     (case rq_form r of
        Some f \<Rightarrow> Some (Inr f, r, ch)
      | None \<Rightarrow>
          (let (ct, h) = rq_headers_get (rq_headers r) (S ''content-type'') (Some []);
               r0 = r\<lparr>rq_headers := h\<rparr>
           in case request_body r0 ch of
                None \<Rightarrow> None
              | Some (Inl e, r', ch') \<Rightarrow> Some (Inl e, r', ch')
              | Some (Inr b, r', ch') \<Rightarrow>
                  (case parse_form fp (get_or ct []) b max_files max_fields of
                     Inl e \<Rightarrow> Some (Inl e, r', ch')
                   | Inr f \<Rightarrow> Some (Inr f, r'\<lparr>rq_form := Some f\<rparr>, ch'))))"

text \<open>
  What polling the channel with a timeout of zero gives: the next message, a timeout, or
  another exception. A message taken is gone from the channel.
\<close>

datatype poll = PollMessage | PollTimeout | PollError

definition is_disconnected :: "poll \<Rightarrow> ('j, 'f, bool) channel_op" where
  "is_disconnected p r ch =
     (if rq_disconnected r then Some (Inr True, r, ch)
      else if \<not> rq_has_receive r then Some (Inr True, r\<lparr>rq_disconnected := True\<rparr>, ch)
      else case (p, ch) of
        (PollMessage, HttpDisconnect # ch') \<Rightarrow> Some (Inr True, r\<lparr>rq_disconnected := True\<rparr>, ch')
      | (PollMessage, e # ch') \<Rightarrow> Some (Inr False, r\<lparr>rq_buffered := rq_buffered r @ [e]\<rparr>, ch')
      | (PollError, _) \<Rightarrow> Some (Inr True, r\<lparr>rq_disconnected := True\<rparr>, ch)
      | _ \<Rightarrow> Some (Inr False, r, ch))"

subsection \<open>Properties of the request headers\<close>

definition rq_headers_ok :: "headers \<Rightarrow> bool" where
  "rq_headers_ok h \<longleftrightarrow>
     (hd_dict h = None \<and> hd_list h = None \<or>
      hd_dict h = Some (fst (rq_headers_loop (hd_raw h) [] [])) \<and>
      hd_list h = Some (snd (rq_headers_loop (hd_raw h) [] [])))"

definition joined :: "str list \<Rightarrow> str option" where
  "joined vs = (if vs = [] then None else Some (join (S '', '') vs))"

lemma rq_loop_step:
  assumes "map_of d k = joined vs"
  shows "map_of (case map_of d k of Some old \<Rightarrow> dict_set k (old @ S '', '' @ v) d | None \<Rightarrow> dict_set k v d) k
     = joined (vs @ [v])"
  using assms by (auto simp: joined_def map_of_dict_set join_snoc split: option.splits if_splits)

lemma rq_loop_items: "snd (rq_headers_loop raw d items) = items @ header_pairs raw"
  by (induction raw d items rule: rq_headers_loop.induct) (simp_all add: header_pairs_def)

lemma rq_loop_wf: "dict_wf d \<Longrightarrow> dict_wf (fst (rq_headers_loop raw d items))"
  by (induction raw d items rule: rq_headers_loop.induct) (simp_all add: dict_wf_set split: option.splits)

lemma rq_loop_lookup:
  "map_of d k = joined vs \<Longrightarrow>
   map_of (fst (rq_headers_loop raw d items)) k = joined (vs @ values_of (header_pairs raw) k)"
proof (induction raw d items arbitrary: vs rule: rq_headers_loop.induct)
  case (1 d items)
  then show ?case by (simp add: header_pairs_def)
next
  case (2 n v raw d items)
  let ?d = "case map_of d (hname n) of
          Some old \<Rightarrow> dict_set (hname n) (old @ S '', '' @ hvalue v) d
        | None \<Rightarrow> dict_set (hname n) (hvalue v) d"
  have "map_of ?d k = joined (vs @ (if hname n = k then [hvalue v] else []))"
  proof (cases "hname n = k")
    case True
    with rq_loop_step [OF 2(2), of "hvalue v"] show ?thesis by (simp only: refl if_True)
  next
    case False
    with 2(2) show ?thesis by (simp add: map_of_dict_set split: option.splits)
  qed
  from 2(1) [OF this] show ?case by (simp add: header_pairs_def)
qed

lemma rq_caches:
  assumes "rq_headers_ok h"
  shows "rq_dict h = fst (rq_headers_loop (hd_raw h) [] [])" and "rq_list h = header_pairs (hd_raw h)"
  using assms by (auto simp: rq_headers_ok_def rq_headers_ensure_def rq_loop_items split_def)

lemma rq_lookup: "rq_headers_ok h \<Longrightarrow> map_of (rq_dict h) k = joined (values_of (rq_list h) k)"
  using rq_loop_lookup [of "[]" k "[]" "hd_raw h" "[]"] by (simp add: rq_caches joined_def)

interpretation rq_headers: multi_mapping rq_list "\<lambda>h k. fst (rq_headers_getlist h k)"
  "\<lambda>h k. fst (rq_headers_get h k None)" "\<lambda>h. fst (rq_headers_keys h)" lower "join (S '', '')" rq_headers_ok
proof (unfold_locales, goal_cases)
  case (1 m k)
  then show ?case by (simp add: rq_headers_getlist_def values_of_def split_def)
next
  case (2 m k)
  then show ?case
    by (simp add: rq_headers_get_def rq_headers_getlist_def rq_lookup joined_def values_of_def split_def)
next
  case (3 m)
  have "k \<in> set (map fst (rq_dict m)) \<longleftrightarrow> k \<in> fst ` set (rq_list m)" for k
  proof -
    have "k \<in> set (map fst (rq_dict m)) \<longleftrightarrow> map_of (rq_dict m) k \<noteq> None"
      by (auto simp: map_of_eq_None_iff)
    also have "\<dots> \<longleftrightarrow> k \<in> fst ` set (rq_list m)"
      using 3 by (simp add: rq_lookup joined_def values_of_eq_Nil)
    finally show ?thesis .
  qed
  then show ?case by (auto simp: rq_headers_keys_def)
next
  case (4 m)
  then show ?case using rq_loop_wf [of "[]"] by (simp add: rq_headers_keys_def rq_caches dict_wf_def)
next
  case (5 k)
  then show ?case by simp
qed

lemma rq_headers_ok_init [simp]: "rq_headers_ok (rq_headers_init raw sc)"
  by (simp add: rq_headers_ok_def rq_headers_init_def)

lemma parse_qs_agrees: "parse_qs_python qs = qp_parse qs"
proof -
  have "parse_qs_loop parts d = qp_loop parts d" for parts d
    by (induction parts d rule: parse_qs_loop.induct) (simp_all add: qp_pair_def split_def Let_def)
  then show ?thesis by (simp add: parse_qs_python_def qp_parse_def)
qed

text \<open>
  the headers of a request join the values of a repeated name with a comma and a blank in
  arrival order, and look names up without regard to case; \<open>getlist\<close> keeps the values apart.
\<close>

theorem request_headers_joined:
  "fst (rq_headers_get (rq_headers_init (Some raw) None) k None) =
     joined (values_of (header_pairs raw) (lower k))
   \<and> fst (rq_headers_getlist (rq_headers_init (Some raw) None) k) = values_of (header_pairs raw) (lower k)"
proof -
  let ?h = "rq_headers_init (Some raw) None"
  have "hd_raw ?h = raw" by (simp add: rq_headers_init_def)
  then have "rq_list ?h = header_pairs raw" using rq_caches(2) [OF rq_headers_ok_init] by metis
  then show ?thesis
    using rq_headers.get_law [of ?h k] rq_headers.getlist_law [of ?h k] by (simp add: joined_def)
qed

subsection \<open>Properties of URLs\<close>

text \<open>Characters with no meaning of their own in a URL.\<close>

definition plain_char :: "nat \<Rightarrow> bool" where
  "plain_char c \<longleftrightarrow> 32 < c \<and> c \<notin> {35, 59, 63, 91, 93}"

lemma cut_absent: "c \<notin> set s \<Longrightarrow> cut_at c s = (s, [])"
  by (simp add: cut_at_def)

lemma cut_present: "c \<notin> set a \<Longrightarrow> cut_at c (a @ c # b) = (a, b)"
  by (simp add: cut_at_def split_once_sep)

lemma scheme_split_present:
  assumes "list_all is_alpha sch" "sch \<noteq> []"
  shows "scheme_split (sch @ 58 # r) = (lower sch, r)"
proof -
  have "58 \<notin> set sch" using assms(1) by (auto simp: list_all_iff is_alpha_def)
  moreover have "list_all scheme_char sch" using assms(1) by (auto simp: list_all_iff scheme_char_def)
  moreover have "is_alpha (hd sch)" using assms by (cases sch) auto
  ultimately show ?thesis using assms(2) by (simp add: scheme_split_def split_once_sep)
qed

lemma netloc_split_present:
  assumes "list_all plain_char host" "47 \<notin> set host"
  shows "netloc_split (S ''//'' @ host @ 47 # r) = (host, 47 # r)"
proof -
  have "c \<noteq> 47 \<and> c \<noteq> 63 \<and> c \<noteq> 35" if "c \<in> set host" for c
    using assms that by (auto simp: list_all_iff plain_char_def)
  moreover have "startswith (S ''//'' @ x) (S ''//'')" for x by simp
  moreover have "drop 2 (S ''//'' @ x) = x" for x by (simp add: S_def)
  ultimately show ?thesis
    by (simp add: netloc_split_def takeWhile_append2 dropWhile_append2)
qed

lemma urlparse_plain:
  assumes "list_all is_alpha sch" "sch \<noteq> []" "list_all plain_char host" "47 \<notin> set host"
    "list_all plain_char p" "list_all (\<lambda>c. 32 < c \<and> c \<noteq> 35) q"
  shows "urlparse (sch @ S ''://'' @ host @ 47 # p @ (if q = [] then [] else 63 # q)) =
     Inr \<lparr>u_scheme = lower sch, u_netloc = host, u_path = 47 # p, u_params = [], u_query = q, u_fragment = []\<rparr>"
proof -
  define tail where "tail = 47 # p @ (if q = [] then [] else 63 # q)"
  let ?u = "sch @ S ''://'' @ host @ tail"
  have "32 < c" if "c \<in> set ?u" for c
    using that assms by (auto simp: list_all_iff is_alpha_def plain_char_def S_def tail_def split: if_splits)
  then have "\<forall>c\<in>set ?u. c \<noteq> 9 \<and> c \<noteq> 10 \<and> c \<noteq> 13" by fastforce
  moreover have "dropWhile (\<lambda>c. c \<le> 32) ?u = ?u" using assms(1,2) by (cases sch) (auto simp: is_alpha_def)
  ultimately have clean: "filter (\<lambda>c. c \<noteq> 9 \<and> c \<noteq> 10 \<and> c \<noteq> 13) (dropWhile (\<lambda>c. c \<le> 32) ?u) = ?u"
    by (simp only: filter_True)
  have u: "?u = sch @ 58 # S ''//'' @ host @ tail" by (simp add: S_def)
  have brackets: "91 \<notin> set host" "93 \<notin> set host" using assms(3) by (auto simp: list_all_iff plain_char_def)
  have p: "35 \<notin> set p" "63 \<notin> set p" "59 \<notin> set p" using assms(5) by (auto simp: list_all_iff plain_char_def)
  have "35 \<notin> set q" using assms(6) by (auto simp: list_all_iff)
  with p have c35: "cut_at 35 tail = (tail, [])" by (intro cut_absent) (auto simp: tail_def)
  have c63: "cut_at 63 tail = (47 # p, q)"
    using p cut_present [of 63 "47 # p" q] cut_absent [of 63 "47 # p"] by (cases "q = []") (simp_all add: tail_def)
  have split: "scheme_split ?u = (lower sch, S ''//'' @ host @ tail)"
    unfolding u by (rule scheme_split_present [OF assms(1,2)])
  have net: "netloc_split (S ''//'' @ host @ tail) = (host, tail)"
    unfolding tail_def by (rule netloc_split_present [OF assms(3,4)])
  have "urlparse ?u = Inr \<lparr>u_scheme = lower sch, u_netloc = host, u_path = 47 # p, u_params = [],
      u_query = q, u_fragment = []\<rparr>"
    unfolding urlparse_def clean using brackets p by (simp add: split net c35 c63)
  then show ?thesis by (simp only: tail_def)
qed

text \<open>
  the URL built from a scope with a server splits back into its parts: the scheme, the
  host (with the port unless it is the scheme's default), root path and path one after the
  other, and the query string.
\<close>

theorem url_of_scope_parts:
  assumes "sc_server sc = Some (host, port)" and "sc_scheme sc = Some sch" and "sc_path sc = Some (47 # p)"
    and "get_or (sc_root_path sc) [] = root" and "root = [] \<or> hd root = 47"
    and "hvalue (get_or (sc_query sc) (HB [])) = q"
    and "list_all is_alpha sch" and "sch \<noteq> []" and "list_all plain_char host" and "47 \<notin> set host"
    and "list_all plain_char root" and "list_all plain_char p" and "list_all (\<lambda>c. 32 < c \<and> c \<noteq> 35) q"
  shows "\<exists>u. url_of_scope sc = Inr u \<and> url_str u = url_string sc
     \<and> u_scheme (url_parts u) = lower sch \<and> u_netloc (url_parts u) = netloc_of sch host port
     \<and> u_path (url_parts u) = root @ 47 # p \<and> u_query (url_parts u) = q
     \<and> u_params (url_parts u) = [] \<and> u_fragment (url_parts u) = []"
proof -
  obtain rp where rp: "root @ 47 # p = 47 # rp" "list_all plain_char rp"
    using assms(5,11,12) by (cases root) (auto simp: plain_char_def)
  have dig: "list_all plain_char (dec n)" "47 \<notin> set (dec n)" for n
    by (fastforce dest: dec_digits simp: list_all_iff plain_char_def is_digit_def)+
  have net: "list_all plain_char (netloc_of sch host port)" "47 \<notin> set (netloc_of sch host port)"
    using assms(9,10) dig by (auto simp: netloc_of_def int_str_def plain_char_def S_def)
  have str: "url_string sc = sch @ S ''://'' @ netloc_of sch host port @ 47 # rp @ (if q = [] then [] else 63 # q)"
    using assms(1-4,6) rp(1) by (simp add: url_string_def Let_def) (simp add: S_def)
  show ?thesis
    using urlparse_plain [OF assms(7,8) net rp(2) assms(13)] rp(1)
    by (simp add: url_of_scope_def url_init_def str)
qed

definition url_scope :: scope where
  "url_scope = \<lparr>sc_type = S ''http'', sc_method = Some (S ''GET''), sc_path = Some (S ''/items''),
     sc_root_path = Some (S ''/api''), sc_scheme = Some (S ''http''), sc_server = Some (S ''h'', 8000),
     sc_client = None, sc_query = Some (HB ''a=1''), sc_headers = None, sc_path_params = None,
     sc_endpoint = None, sc_app_root_path = None, sc_app = False, sc_body = None\<rparr>"

theorem url_of_scope_parts_witness:
  "\<exists>u. url_of_scope url_scope = Inr u \<and> u_path (url_parts u) = S ''/api/items'' \<and> u_query (url_parts u) = S ''a=1''"
  using url_of_scope_parts [of url_scope "S ''h''" 8000 "S ''http''" "S ''items''" "S ''/api''" "S ''a=1''"]
  by (simp add: url_scope_def hvalue_def latin1_decode_S) (auto simp: S_def is_alpha_def plain_char_def)

subsection \<open>Properties of the request body\<close>

lemma stream_loop_collects:
  assumes "\<forall>e\<in>set es. ev_more e" and "\<not> ev_more e"
  shows "\<exists>chunks. stream_loop_rq (es @ e # rest) acc = Some (chunks, rest)
     \<and> concat chunks = concat acc @ concat (map ev_body es) @ ev_body e"
  using assms(1)
proof (induction es arbitrary: acc)
  case Nil
  then show ?case by (simp add: assms(2))
next
  case (Cons a es)
  from Cons.IH [of "if ev_body a \<noteq> [] then acc @ [ev_body a] else acc"] Cons.prems show ?case
    by (cases "ev_body a = []") simp_all
qed


definition demo_request :: "scope \<Rightarrow> bool \<Rightarrow> (nat, nat) request" where
  "demo_request sc recv = \<lparr>rq_scope = sc, rq_headers = rq_headers_init None (Some (sc_headers sc)),
     rq_has_receive = recv, rq_body = None, rq_json = None, rq_json_loaded = False,
     rq_form = None, rq_disconnected = False, rq_consumed = False, rq_buffered = []\<rparr>"


text \<open>
  the body can be read through \<open>stream()\<close> once: after it, \<open>stream()\<close> and \<open>body()\<close> both raise
  \<open>RuntimeError\<close> and take nothing from the channel, so no later message is mistaken for body.
\<close>

theorem request_stream_once:
  assumes "rq_body r = None" and "rq_has_receive r" and "stream r ch = Some (Inr chunks, r', ch')"
  shows "stream r' ch' = Some (Inl (RuntimeError (S ''Stream already consumed'')), r', ch')
     \<and> request_body r' ch' = Some (Inl (RuntimeError (S ''Stream already consumed'')), r', ch')"
  using assms by (auto simp: stream_def request_body_def split: if_splits option.splits)

theorem request_stream_once_witness:
  "\<exists>r'. stream (demo_request url_scope True) [HttpRequest (Some ''ab'') None] = Some (Inr [''ab''], r', [])
     \<and> request_body r' [] = Some (Inl (RuntimeError (S ''Stream already consumed'')), r', [])"
proof -
  let ?r = "demo_request url_scope True"
  have s: "stream ?r [HttpRequest (Some ''ab'') None] = Some (Inr [''ab''], ?r\<lparr>rq_consumed := True\<rparr>, [])"
    by (simp add: stream_def demo_request_def)
  show ?thesis using request_stream_once [OF _ _ s] s by (simp add: demo_request_def)
qed

text \<open>
  polling \<open>is_disconnected()\<close> before reading loses data: when the poll receives a body
  message, the message is stored in \<open>_buffered_messages\<close>, which nothing reads, and the body
  read afterwards lacks its chunk.
\<close>

theorem is_disconnected_loses_chunk:
  assumes "rq_body r = None" and "\<not> rq_consumed r" and "rq_has_receive r" and "\<not> rq_disconnected r"
    and "\<forall>e\<in>set es. ev_more e" and "\<not> ev_more e"
  shows "\<exists>r' r''. is_disconnected PollMessage r (HttpRequest (Some b) (Some True) # es @ e # rest) =
           Some (Inr False, r', es @ e # rest)
     \<and> request_body r' (es @ e # rest) = Some (Inr (concat (map ev_body es) @ ev_body e), r'', rest)"
proof -
  obtain chunks where c: "stream_loop_rq (es @ e # rest) [] = Some (chunks, rest)"
    "concat chunks = concat (map ev_body es) @ ev_body e"
    using stream_loop_collects [OF assms(5,6), of rest "[]"] by auto
  then show ?thesis
    using assms(1-4) by (simp add: is_disconnected_def request_body_def stream_def)
qed

theorem is_disconnected_loses_chunk_witness:
  "\<exists>r' r''. is_disconnected PollMessage (demo_request url_scope True)
        (HttpRequest (Some ''ab'') (Some True) # [] @ HttpRequest (Some ''c'') None # []) =
          Some (Inr False, r', [] @ HttpRequest (Some ''c'') None # [])
     \<and> request_body r' ([] @ HttpRequest (Some ''c'') None # []) = Some (Inr ''c'', r'', [])"
  using is_disconnected_loses_chunk [of "demo_request url_scope True" "[]" "HttpRequest (Some ''c'') None" "''ab''" "[]"]
  by (simp add: demo_request_def)

end
