(* ===== verification/Middleware.thy ===== *)
theory Middleware
  imports Responses
begin

text \<open>
  \<open>astraapi/_middleware_impl.py\<close>: the CORS, gzip, trusted-host and WSGI middleware. A
  middleware is a function of the connection scope and of the messages its inner
  application sends, so the inner application is the list of its messages. \<open>zlib\<close> and
  compiled regular expressions are parameters. The locale \<open>send_wrapper\<close> is the contract of
  a middleware that rewrites messages one by one: the response protocol and the body are
  those of the inner application.
\<close>

subsection \<open>The contract of a message-by-message wrapper\<close>

locale send_wrapper =
  fixes wrap :: "message \<Rightarrow> message"
  assumes wrap_step: "rstep s (wrap m) = rstep s m"
    and wrap_body: "body_of [wrap m] = body_of [m]"
begin

lemma run_wrapped: "run_response s (map wrap ms) = run_response s ms"
  by (induction ms arbitrary: s) (simp_all add: wrap_step)

lemma body_wrapped: "body_of (map wrap ms) = body_of ms"
proof (induction ms)
  case Nil
  then show ?case by simp
next
  case (Cons m ms)
  have "body_of (map wrap (m # ms)) = body_of [wrap m] @ body_of (map wrap ms)"
    using body_of_append [of "[wrap m]" "map wrap ms"] by simp
  also have "\<dots> = body_of (m # ms)"
    using body_of_append [of "[m]" ms] by (simp add: wrap_body Cons)
  finally show ?case .
qed

lemma complete_wrapped: "response_complete (map wrap ms) \<longleftrightarrow> response_complete ms"
  by (simp add: response_complete_def run_wrapped)

end

subsection \<open>CORS\<close>

record cors =
  co_all_origins :: bool
  co_origins :: "str list"
  co_regex :: "(str \<Rightarrow> bool) option"
  co_methods :: "str list"
  co_all_headers :: bool
  co_headers :: "str list"
  co_credentials :: bool
  co_expose :: "str list"
  co_max_age :: int
  co_simple :: resp_headers
  co_preflight :: resp_headers

definition all_methods :: "str list" where
  "all_methods = map S [''DELETE'', ''GET'', ''HEAD'', ''OPTIONS'', ''PATCH'', ''POST'', ''PUT'']"

definition comma_join :: "str list \<Rightarrow> str" where
  "comma_join xs = join (S '', '') xs"

definition star :: str where
  "star = S ''*''"

text \<open>
  The constructor; \<open>regex\<close> is \<open>fullmatch\<close> of the compiled \<open>allow_origin_regex\<close>. Both header
  lists are computed once; encoding them may fail outside Latin-1.
\<close>

definition cors_init ::
  "str list \<Rightarrow> (str \<Rightarrow> bool) option \<Rightarrow> str list \<Rightarrow> str list \<Rightarrow> bool \<Rightarrow> str list \<Rightarrow> int \<Rightarrow> cors res" where
  "cors_init origins regex methods hdrs credentials expose max_age =
     (let all_o = star \<in> set origins;
          ms = (if star \<in> set methods then all_methods else map upper methods)
      in rbind (latin1_encode (comma_join expose)) (\<lambda>exp.
         rbind (latin1_encode (comma_join ms)) (\<lambda>mb.
         rbind (latin1_encode (int_str max_age)) (\<lambda>ab.
         Inr \<lparr>co_all_origins = all_o, co_origins = map lower origins, co_regex = regex,
              co_methods = ms, co_all_headers = (star \<in> set hdrs), co_headers = map lower hdrs,
              co_credentials = credentials, co_expose = expose, co_max_age = max_age,
              co_simple =
                (if all_o then [(''access-control-allow-origin'', ''*'')] else [])
                @ (if expose \<noteq> [] then [(''access-control-expose-headers'', exp)] else [])
                @ (if credentials then [(''access-control-allow-credentials'', ''true'')] else []),
              co_preflight =
                (if all_o then [(''access-control-allow-origin'', ''*'')] else [])
                @ (if credentials then [(''access-control-allow-credentials'', ''true'')] else [])
                @ [(''access-control-allow-methods'', mb), (''access-control-max-age'', ab)]\<rparr>))))"

definition is_origin_allowed :: "cors \<Rightarrow> str \<Rightarrow> bool" where
  "is_origin_allowed c origin \<longleftrightarrow>
     co_all_origins c \<or> lower origin \<in> set (co_origins c)
     \<or> (case co_regex c of None \<Rightarrow> False | Some m \<Rightarrow> m origin)"

text \<open>
  The headers the send wrapper appends to a response start, for an origin that is present
  and allowed.
\<close>

definition cors_extra :: "cors \<Rightarrow> str \<Rightarrow> resp_headers res" where
  "cors_extra c origin =
     rbind (if co_all_origins c \<and> \<not> co_credentials c
            then Inr [(''access-control-allow-origin'', ''*'')]
            else rbind (latin1_encode origin) (\<lambda>ob.
              Inr [(''access-control-allow-origin'', ob), (''vary'', ''Origin'')])) (\<lambda>a.
     rbind (if co_expose c \<noteq> []
            then rbind (latin1_encode (comma_join (co_expose c))) (\<lambda>eb.
              Inr [(''access-control-expose-headers'', eb)])
            else Inr []) (\<lambda>e.
     Inr (a @ (if co_credentials c then [(''access-control-allow-credentials'', ''true'')] else []) @ e)))"

definition cors_granted :: "cors \<Rightarrow> str option \<Rightarrow> bool" where
  "cors_granted c origin \<longleftrightarrow>
     (case origin of None \<Rightarrow> False | Some o' \<Rightarrow> o' \<noteq> [] \<and> is_origin_allowed c o')"

definition cors_apply :: "resp_headers \<Rightarrow> message \<Rightarrow> message" where
  "cors_apply extra m =
     (case m of RespStart st h \<Rightarrow> RespStart st (Some (get_or h [] @ extra)) | _ \<Rightarrow> m)"

definition cors_send :: "cors \<Rightarrow> str option \<Rightarrow> message \<Rightarrow> message res" where
  "cors_send c origin m =
     (case m of
        RespStart st h \<Rightarrow>
          rbind (case origin of None \<Rightarrow> Inr []
                 | Some o' \<Rightarrow> if o' \<noteq> [] \<and> is_origin_allowed c o' then cors_extra c o' else Inr [])
            (\<lambda>extra. Inr (cors_apply extra m))
      | _ \<Rightarrow> Inr m)"

text \<open>The value of the first header whose lower-cased name is \<open>origin\<close>.\<close>

fun cors_origin :: "raw_headers \<Rightarrow> str option res" where
  "cors_origin [] = Inr None"
| "cors_origin ((n, v) # hs) =
     rbind (name_key n) (\<lambda>k. if k = ''origin'' then Inr (Some (hvalue v)) else cors_origin hs)"

text \<open>
  The two request headers of a preflight: the last method, and the header lists joined.
  Adding a \<open>str\<close> to \<open>bytes\<close> raises, as does decoding a \<open>str\<close>.
\<close>

fun cors_requested :: "raw_headers \<Rightarrow> hval \<Rightarrow> hval \<Rightarrow> (hval \<times> hval) res" where
  "cors_requested [] rm rh = Inr (rm, rh)"
| "cors_requested ((n, v) # hs) rm rh =
     (if n = HB ''access-control-request-method'' then cors_requested hs v rh
      else if n = HB ''access-control-request-headers'' then
        (if rh = HB [] \<or> rh = HS [] then cors_requested hs rm v
         else case (rh, v) of
                (HB a, HB b) \<Rightarrow> cors_requested hs rm (HB (a @ '', '' @ b))
              | _ \<Rightarrow> Inl (TypeError (S ''concat'')))
      else cors_requested hs rm rh)"

definition decode_bytes :: "hval \<Rightarrow> str res" where
  "decode_bytes v = (case v of HB b \<Rightarrow> Inr (latin1_decode b) | HS s \<Rightarrow> Inl (AttributeError (S ''decode'')))"

text \<open>44 is the comma.\<close>

definition requested_set :: "str \<Rightarrow> str list" where
  "requested_set rh = map (\<lambda>h. lower (strip h)) (split_on 44 rh)"

definition allow_headers_header :: "str \<Rightarrow> resp_headers res" where
  "allow_headers_header s =
     rbind (latin1_encode s) (\<lambda>b. Inr [(''access-control-allow-headers'', b)])"

definition preflight_origin :: "cors \<Rightarrow> str \<Rightarrow> resp_headers res" where
  "preflight_origin c origin =
     (if co_all_origins c then Inr []
      else rbind (latin1_encode origin) (\<lambda>ob.
        Inr [(''access-control-allow-origin'', ob), (''vary'', ''Origin'')]))"

text \<open>\<open>None\<close> when a requested header is not allowed.\<close>

definition preflight_allow :: "cors \<Rightarrow> str \<Rightarrow> resp_headers option res" where
  "preflight_allow c rh =
     (if co_all_headers c \<and> rh \<noteq> []
      then rbind (allow_headers_header rh) (\<lambda>h. Inr (Some h))
      else if rh \<noteq> [] \<and> co_headers c \<noteq> [] then
        (if \<not> list_all (\<lambda>h. h \<in> set (co_headers c)) (requested_set rh) \<and> \<not> co_all_headers c then Inr None
         else rbind (allow_headers_header rh) (\<lambda>h. Inr (Some h)))
      else if co_headers c \<noteq> []
      then rbind (allow_headers_header (comma_join (co_headers c))) (\<lambda>h. Inr (Some h))
      else Inr (Some []))"

definition cors_preflight_headers :: "cors \<Rightarrow> str \<Rightarrow> str \<Rightarrow> str \<Rightarrow> resp_headers option res" where
  "cors_preflight_headers c origin rm rh =
     rbind (preflight_origin c origin) (\<lambda>po.
     rbind (preflight_allow c rh) (\<lambda>allow.
     (case allow of
        None \<Rightarrow> Inr None
      | Some ah \<Rightarrow>
          rbind (if rm \<noteq> [] then rbind (latin1_encode rm) (\<lambda>b. Inr [(''access-control-allow-methods'', b)])
                 else Inr []) (\<lambda>meth.
          Inr (Some (co_preflight c @ po @ ah @ meth))))))"

definition cors_call :: "cors \<Rightarrow> scope \<Rightarrow> message list \<Rightarrow> message list res" where
  "cors_call c sc app_msgs =
     (if sc_type sc \<noteq> S ''http'' then Inr app_msgs
      else rbind (cors_origin (get_or (sc_headers sc) [])) (\<lambda>origin.
        (case origin of
           Some o' \<Rightarrow>
             if get_or (sc_method sc) (S ''GET'') = S ''OPTIONS'' \<and> o' \<noteq> [] \<and> is_origin_allowed c o'
             then rbind (cors_requested (get_or (sc_headers sc) []) (HB []) (HB [])) (\<lambda>(m, h).
                  rbind (decode_bytes m) (\<lambda>rm. rbind (decode_bytes h) (\<lambda>rh.
                  rbind (cors_preflight_headers c o' rm rh) (\<lambda>hs.
                    Inr (case hs of
                           None \<Rightarrow> [RespStart 400 (Some []), RespBody (Some ''Disallowed CORS headers'') None]
                         | Some pre \<Rightarrow> [RespStart 200 (Some pre), RespBody (Some ''OK'') None])))))
             else rmap (cors_send c origin) app_msgs
         | None \<Rightarrow> rmap (cors_send c origin) app_msgs)))"

text \<open>\<open>_preflight_response\<close>: the status and the headers of the response it builds.\<close>

definition preflight_response :: "cors \<Rightarrow> str \<Rightarrow> (str, str) dict \<Rightarrow> response res" where
  "preflight_response c origin hdrs =
     (if \<not> is_origin_allowed c origin
      then plain_text_response_init (CText (S ''Disallowed CORS origin'')) 400 None None False
      else
        rbind (preflight_origin c origin) (\<lambda>po.
        rbind (if co_all_headers c \<and> dict_get hdrs (S ''access-control-request-headers'') [] \<noteq> []
               then allow_headers_header (dict_get hdrs (S ''access-control-request-headers'') [])
               else if co_headers c \<noteq> [] then allow_headers_header (comma_join (co_headers c))
               else Inr []) (\<lambda>ah.
        rbind (response_init None CNone 200 None None False) (\<lambda>r.
          Inr (r\<lparr>r_raw := co_preflight c @ po @ ah, r_body := []\<rparr>)))))"

subsection \<open>GZip\<close>

text \<open>
  The compressor: a streaming object with \<open>compress\<close> and the final \<open>flush\<close>, and the one-shot
  \<open>gzip.compress\<close>.
\<close>

record 'z zlib =
  z_new :: "int \<Rightarrow> 'z"
  z_compress :: "'z \<Rightarrow> bytes \<Rightarrow> bytes \<times> 'z"
  z_flush :: "'z \<Rightarrow> bytes"
  z_oneshot :: "int \<Rightarrow> bytes \<Rightarrow> bytes"

record gzip =
  gz_min :: nat
  gz_level :: int

record 'z gzip_state =
  g_initial :: bytes
  g_started :: bool
  g_headers :: resp_headers
  g_status :: int
  g_comp :: "'z option"
  g_more :: bool

definition gzip_start :: "'z gzip_state" where
  "gzip_start = \<lparr>g_initial = [], g_started = False, g_headers = [], g_status = 200,
                 g_comp = None, g_more = False\<rparr>"

definition gzip_strip :: "resp_headers \<Rightarrow> resp_headers" where
  "gzip_strip hs = filter (\<lambda>(k, v). blower k \<notin> {''content-length'', ''content-encoding''}) hs"

definition gzip_send :: "'z zlib \<Rightarrow> gzip \<Rightarrow> 'z gzip_state \<Rightarrow> message \<Rightarrow> 'z gzip_state \<times> message list" where
  "gzip_send z g st msg =
     (case msg of
        RespStart code h \<Rightarrow>
          (st\<lparr>g_status := code, g_headers := get_or h [], g_started := True\<rparr>, [])
      | OtherMsg t \<Rightarrow> (st, [])
      | RespBody b m \<Rightarrow>
          (case g_comp st of
             Some cz \<Rightarrow>
               (let (out, cz') = z_compress z cz (body_bytes b);
                    out' = (if more_body m then out else out @ z_flush z cz')
                in (st\<lparr>g_comp := Some cz'\<rparr>,
                    if out' \<noteq> [] then [RespBody (Some out') (Some (more_body m))]
                    else if \<not> more_body m then [RespBody (Some []) (Some False)] else []))
           | None \<Rightarrow>
               (if more_body m then
                  (let buf = g_initial st @ body_bytes b in
                   if gz_min g \<le> length buf then
                     (let hdrs = gzip_strip (g_headers st)
                            @ [(''content-encoding'', ''gzip''), (''vary'', ''Accept-Encoding'')];
                          (out, cz') = z_compress z (z_new z (gz_level g)) buf
                      in (st\<lparr>g_initial := buf, g_comp := Some cz', g_more := True\<rparr>,
                          RespStart (g_status st) (Some hdrs)
                            # (if out \<noteq> [] then [RespBody (Some out) (Some True)] else [])))
                   else (st\<lparr>g_initial := buf, g_more := True\<rparr>, []))
                else
                  (let full = g_initial st @ body_bytes b in
                   if gz_min g \<le> length full then
                     (let out = z_oneshot z (gz_level g) full;
                          hdrs = gzip_strip (g_headers st)
                            @ [(''content-encoding'', ''gzip''),
                               (''content-length'', num_bytes (length out)), (''vary'', ''Accept-Encoding'')]
                      in (st, [RespStart (g_status st) (Some hdrs), RespBody (Some out) None]))
                   else
                     (st, (if \<not> g_more st then [RespStart (g_status st) (Some (g_headers st))] else [])
                          @ [RespBody (Some full) None])))))"

fun gzip_run :: "'z zlib \<Rightarrow> gzip \<Rightarrow> 'z gzip_state \<Rightarrow> message list \<Rightarrow> 'z gzip_state \<times> message list" where
  "gzip_run z g st [] = (st, [])"
| "gzip_run z g st (m # ms) =
     (let (st', out) = gzip_send z g st m; (st'', outs) = gzip_run z g st' ms in (st'', out @ outs))"

text \<open>After the application returns, buffered content is flushed.\<close>

definition gzip_finish :: "'z zlib \<Rightarrow> gzip \<Rightarrow> 'z gzip_state \<Rightarrow> message list" where
  "gzip_finish z g st =
     (if g_started st \<and> g_comp st = None \<and> g_more st \<and> g_initial st \<noteq> [] then
        (if gz_min g \<le> length (g_initial st) then
           (let out = z_oneshot z (gz_level g) (g_initial st) in
            [RespStart (g_status st) (Some (gzip_strip (g_headers st)
                @ [(''content-encoding'', ''gzip''), (''content-length'', num_bytes (length out))])),
             RespBody (Some out) None])
         else [RespStart (g_status st) (Some (g_headers st)), RespBody (Some (g_initial st)) None])
      else [])"

text \<open>The first header named exactly \<open>b'accept-encoding'\<close>.\<close>

fun gzip_accept :: "raw_headers \<Rightarrow> str res" where
  "gzip_accept [] = Inr []"
| "gzip_accept ((n, v) # hs) = (if n = HB ''accept-encoding'' then decode_bytes v else gzip_accept hs)"

definition gzip_call :: "'z zlib \<Rightarrow> gzip \<Rightarrow> scope \<Rightarrow> message list \<Rightarrow> message list res" where
  "gzip_call z g sc app_msgs =
     (if sc_type sc \<noteq> S ''http'' then Inr app_msgs
      else rbind (gzip_accept (get_or (sc_headers sc) [])) (\<lambda>enc.
        if \<not> contains enc (S ''gzip'') then Inr app_msgs
        else (let (st, out) = gzip_run z g gzip_start app_msgs in Inr (out @ gzip_finish z g st))))"

subsection \<open>TrustedHost\<close>

record trusted_host =
  th_allowed :: "str list"
  th_any :: bool
  th_exact :: "str list"
  th_suffixes :: "str list"
  th_bare :: "str list"

fun th_loop :: "str list \<Rightarrow> trusted_host \<Rightarrow> trusted_host" where
  "th_loop [] t = t"
| "th_loop (h # hs) t =
     th_loop hs
       (if startswith h (S ''*.'')
        then t\<lparr>th_suffixes := th_suffixes t @ [drop 1 h], th_bare := th_bare t @ [drop 2 h]\<rparr>
        else t\<lparr>th_exact := th_exact t @ [h]\<rparr>)"

definition th_init :: "str list option \<Rightarrow> trusted_host" where
  "th_init hosts =
     (case hosts of
        None \<Rightarrow> \<lparr>th_allowed = [star], th_any = True, th_exact = [], th_suffixes = [], th_bare = []\<rparr>
      | Some hs \<Rightarrow>
          if star \<in> set hs
          then \<lparr>th_allowed = [star], th_any = True, th_exact = [], th_suffixes = [], th_bare = []\<rparr>
          else th_loop (map lower hs)
                 \<lparr>th_allowed = map lower hs, th_any = False, th_exact = [], th_suffixes = [], th_bare = []\<rparr>)"

text \<open>58 is the colon.\<close>

definition host_without_port :: "str \<Rightarrow> str" where
  "host_without_port host = lower (hd (split_on 58 host))"

definition is_host_allowed :: "trusted_host \<Rightarrow> str \<Rightarrow> bool" where
  "is_host_allowed t host \<longleftrightarrow>
     th_any t \<or> host_without_port host \<in> set (th_exact t)
     \<or> host_without_port host \<in> set (th_bare t)
     \<or> list_ex (\<lambda>suffix. endswith (host_without_port host) suffix) (th_suffixes t)"

subsection \<open>WSGI\<close>

datatype wsgi_value = WStr str | WInput bytes | WErrors | WBool bool | WVersion nat nat

text \<open>The read loop; \<open>None\<close> when the channel has no further message.\<close>

fun wsgi_read :: "event list \<Rightarrow> bytes list \<Rightarrow> (bytes \<times> event list) option" where
  "wsgi_read [] parts = None"
| "wsgi_read (e # es) parts =
     (let parts' = (if ev_body e \<noteq> [] then parts @ [ev_body e] else parts)
      in if ev_more e then wsgi_read es parts' else Some (concat parts', es))"

text \<open>45 is the hyphen and 95 the underscore.\<close>

definition wsgi_name :: "str \<Rightarrow> str" where
  "wsgi_name n = map (\<lambda>c. if c = 45 then 95 else c) (upper n)"

fun wsgi_headers :: "raw_headers \<Rightarrow> (str, wsgi_value) dict \<Rightarrow> (str, wsgi_value) dict" where
  "wsgi_headers [] env = env"
| "wsgi_headers ((n, v) # hs) env =
     wsgi_headers hs
       (let name = wsgi_name (hvalue n); value = hvalue v in
        if name = S ''CONTENT_TYPE'' then dict_set (S ''CONTENT_TYPE'') (WStr value) env
        else if name = S ''CONTENT_LENGTH'' then dict_set (S ''CONTENT_LENGTH'') (WStr value) env
        else (let key = S ''HTTP_'' @ name in
              case map_of env key of
                Some (WStr x) \<Rightarrow>
                  dict_set key (WStr (if x \<noteq> [] then x @ S '','' @ value else value)) env
              | _ \<Rightarrow> dict_set key (WStr value) env))"

definition build_wsgi_environ :: "scope \<Rightarrow> str \<Rightarrow> bytes \<Rightarrow> (str, wsgi_value) dict" where
  "build_wsgi_environ sc http_version body =
     (let (host, port) = get_or (sc_server sc) (S ''localhost'', 80);
          base = [(S ''REQUEST_METHOD'', WStr (get_or (sc_method sc) (S ''GET''))),
            (S ''SCRIPT_NAME'', WStr (get_or (sc_root_path sc) [])),
            (S ''PATH_INFO'', WStr (get_or (sc_path sc) (S ''/''))),
            (S ''QUERY_STRING'', WStr (hvalue (get_or (sc_query sc) (HB [])))),
            (S ''SERVER_NAME'', WStr host), (S ''SERVER_PORT'', WStr (int_str port)),
            (S ''SERVER_PROTOCOL'', WStr (S ''HTTP/'' @ http_version)),
            (S ''wsgi.version'', WVersion 1 0),
            (S ''wsgi.url_scheme'', WStr (get_or (sc_scheme sc) (S ''http''))),
            (S ''wsgi.input'', WInput body), (S ''wsgi.errors'', WErrors),
            (S ''wsgi.multithread'', WBool True), (S ''wsgi.multiprocess'', WBool True),
            (S ''wsgi.run_once'', WBool False)];
          env = wsgi_headers (get_or (sc_headers sc) []) base
      in case sc_client sc of
           None \<Rightarrow> env
         | Some (h, p) \<Rightarrow> dict_set (S ''REMOTE_PORT'') (WStr (int_str p))
                             (dict_set (S ''REMOTE_ADDR'') (WStr h) env))"


text \<open>
  What a WSGI application does while it runs, in order: it calls \<open>start_response\<close>, writes
  through the callable that returns, yields chunks of its result, or raises. Writing and
  yielding extend the same list of parts; only yielded chunks are tested for being empty.
\<close>

datatype wsgi_act = WStart str "(str \<times> str) list" | WWrite bytes | WYield bytes | WRaise

fun run_wsgi :: "wsgi_act list \<Rightarrow> int \<Rightarrow> (str \<times> str) list \<Rightarrow> bytes list \<Rightarrow> int \<times> (str \<times> str) list \<times> bytes" where
  "run_wsgi [] st hs parts = (st, hs, concat parts)"
| "run_wsgi (WStart status headers # acts) st hs parts =
     (case py_int (fst (split_once 32 status)) of
        Inl e \<Rightarrow> (500, [(S ''Content-Type'', S ''text/plain'')], ''Internal Server Error'')
      | Inr n \<Rightarrow> run_wsgi acts n headers parts)"
| "run_wsgi (WWrite b # acts) st hs parts = run_wsgi acts st hs (parts @ [b])"
| "run_wsgi (WYield b # acts) st hs parts =
     run_wsgi acts st hs (if b \<noteq> [] then parts @ [b] else parts)"
| "run_wsgi (WRaise # acts) st hs parts =
     (500, [(S ''Content-Type'', S ''text/plain'')], ''Internal Server Error'')"

definition wsgi_raw :: "(str \<times> str) list \<Rightarrow> resp_headers res" where
  "wsgi_raw hs = rmap (\<lambda>(n, v). rbind (latin1_encode (lower n)) (\<lambda>nb. rbind (latin1_encode v) (\<lambda>vb.
     Inr (nb, vb)))) hs"

text \<open>The call; \<open>None\<close> when the receive channel never ends the request body.\<close>

definition wsgi_call ::
  "((str, wsgi_value) dict \<Rightarrow> wsgi_act list) \<Rightarrow> scope \<Rightarrow> str \<Rightarrow> event list \<Rightarrow> message list res option" where
  "wsgi_call app sc http_version evs =
     (if sc_type sc \<noteq> S ''http''
      then Some (Inl (TypeError (S ''WSGIMiddleware does not support scope type'')))
      else case wsgi_read evs [] of
        None \<Rightarrow> None
      | Some (body, rest) \<Rightarrow>
          (case run_wsgi (app (build_wsgi_environ sc http_version body)) 500 [] [] of
             (status, hs, out) \<Rightarrow>
               Some (rbind (wsgi_raw hs) (\<lambda>raw.
                 Inr [RespStart status (Some raw), RespBody (Some out) None]))))"

subsection \<open>ExceptionMiddleware\<close>

text \<open>Exception classes are values of any type; an exception is its class's \<open>__mro__\<close>.\<close>

datatype 'c handler_key = OnStatus int | OnClass 'c

record ('c, 'h) exception_middleware =
  em_exceptions :: "('c, 'h) dict"
  em_status :: "(int, 'h) dict"

definition em_add :: "'c handler_key \<Rightarrow> 'h \<Rightarrow> ('c, 'h) exception_middleware \<Rightarrow> ('c, 'h) exception_middleware" where
  "em_add k h m =
     (case k of OnStatus n \<Rightarrow> m\<lparr>em_status := dict_set n h (em_status m)\<rparr>
              | OnClass c \<Rightarrow> m\<lparr>em_exceptions := dict_set c h (em_exceptions m)\<rparr>)"

definition em_init :: "('c handler_key, 'h) dict \<Rightarrow> ('c, 'h) exception_middleware" where
  "em_init hs = fold (\<lambda>(k, h). em_add k h) hs \<lparr>em_exceptions = [], em_status = []\<rparr>"

fun em_lookup :: "('c, 'h) exception_middleware \<Rightarrow> 'c list \<Rightarrow> 'h option" where
  "em_lookup m [] = None"
| "em_lookup m (c # mro) =
     (case map_of (em_exceptions m) c of Some h \<Rightarrow> Some h | None \<Rightarrow> em_lookup m mro)"

subsection \<open>Properties of CORS\<close>

interpretation cors_wrapper: send_wrapper "cors_apply extra" for extra
proof unfold_locales
  show "rstep s (cors_apply extra m) = rstep s m" for s m
    by (cases m; cases s) (simp_all add: cors_apply_def)
  show "body_of [cors_apply extra m] = body_of [m]" for m
    by (cases m) (simp_all add: cors_apply_def)
qed

text \<open>The headers of the first response start.\<close>

fun start_headers :: "message list \<Rightarrow> resp_headers" where
  "start_headers [] = []"
| "start_headers (RespStart st h # ms) = get_or h []"
| "start_headers (_ # ms) = start_headers ms"

lemma start_headers_apply:
  assumes "response_complete ms"
  shows "start_headers (map (cors_apply extra) ms) = start_headers ms @ extra"
proof -
  have "run_response Idle ms = Complete \<Longrightarrow> ?thesis"
    by (induction ms rule: start_headers.induct) (auto simp: cors_apply_def)
  with assms show ?thesis by (simp add: response_complete_def)
qed

lemma cors_send_denied:
  "\<not> cors_granted c origin \<Longrightarrow> rmap (cors_send c origin) ms = Inr (map (cors_apply []) ms)"
  by (rule rmap_total)
     (auto simp: cors_send_def cors_apply_def cors_granted_def split: message.splits option.splits)

lemma cors_send_granted:
  assumes "cors_granted c (Some origin)" and "cors_extra c origin = Inr extra"
  shows "rmap (cors_send c (Some origin)) ms = Inr (map (cors_apply extra) ms)"
  using assms by (intro rmap_total) (auto simp: cors_send_def cors_apply_def cors_granted_def
      split: message.splits)

lemma cors_send_raises:
  assumes "cors_granted c (Some origin)" and "cors_extra c origin = Inl e"
    and "run_response Idle ms = Complete"
  shows "\<exists>e'. rmap (cors_send c (Some origin)) ms = Inl e'"
  using assms(3)
proof (induction ms rule: start_headers.induct)
  case (2 st h ms)
  then show ?case using assms(1,2) by (simp add: cors_send_def cors_granted_def)
qed (auto simp: cors_send_def)

lemma cors_send_cases:
  assumes "rmap (cors_send c origin) ms = Inr out" and "response_complete ms"
  obtains (denied) "\<not> cors_granted c origin" "out = map (cors_apply []) ms"
  | (granted) o' extra where "origin = Some o'" "cors_granted c origin"
      "cors_extra c o' = Inr extra" "out = map (cors_apply extra) ms"
proof (cases "cors_granted c origin")
  case False
  with assms(1) show ?thesis by (intro denied) (simp_all add: cors_send_denied)
next
  case True
  then obtain o' where o: "origin = Some o'" by (auto simp: cors_granted_def split: option.splits)
  show ?thesis
  proof (cases "cors_extra c o'")
    case (Inl e)
    with True o assms(2) obtain e' where "rmap (cors_send c origin) ms = Inl e'"
      using cors_send_raises [of c o' e ms] by (auto simp: response_complete_def)
    with assms(1) show ?thesis by simp
  next
    case (Inr extra)
    with True o assms(1) show ?thesis by (intro granted) (auto simp: cors_send_granted)
  qed
qed

text \<open>The origin a response announces, and whether it admits credentials.\<close>

definition allow_origin :: "resp_headers \<Rightarrow> bytes list" where
  "allow_origin hs = map snd (filter (\<lambda>(k, v). k = ''access-control-allow-origin'') hs)"

definition allow_credentials :: "resp_headers \<Rightarrow> bytes list" where
  "allow_credentials hs = map snd (filter (\<lambda>(k, v). k = ''access-control-allow-credentials'') hs)"

lemmas cors_views = allow_origin_def allow_credentials_def

lemma cors_extra_views:
  assumes "cors_extra c origin = Inr extra"
  shows "\<exists>v. allow_origin extra = [v] \<and> (v = ''*'' \<and> \<not> co_credentials c \<or> latin1_encode origin = Inr v)"
    and "allow_credentials extra = (if co_credentials c then [''true''] else [])"
  using assms by (auto simp: cors_extra_def cors_views split: if_splits)

text \<open>
  C10: a request that is not a preflight goes through CORS unharmed: the response keeps its
  protocol state and its body, and the middleware adds an \<open>access-control-allow-origin\<close>
  header exactly when the request has a non-empty allowed origin. It announces that origin
  itself, or a star, the star never together with credentials.
\<close>

theorem cors_simple_request:
  assumes "sc_type sc = S ''http''" and "get_or (sc_method sc) (S ''GET'') \<noteq> S ''OPTIONS''"
    and "cors_origin (get_or (sc_headers sc) []) = Inr origin"
    and "response_complete ms" and "cors_call c sc ms = Inr out"
  shows "response_complete out \<and> body_of out = body_of ms
    \<and> (\<exists>extra. start_headers out = start_headers ms @ extra
        \<and> (\<not> cors_granted c origin \<longrightarrow> extra = [])
        \<and> (cors_granted c origin \<longrightarrow>
             (\<exists>v. allow_origin extra = [v]
                \<and> (v = ''*'' \<and> allow_credentials extra = [] \<or> latin1_encode (the origin) = Inr v))))"
proof -
  from assms have "rmap (cors_send c origin) ms = Inr out"
    by (auto simp: cors_call_def split: option.splits)
  then show ?thesis using assms(4)
  proof (cases rule: cors_send_cases)
    case denied
    then show ?thesis
      using assms(4) by (simp add: start_headers_apply cors_wrapper.complete_wrapped cors_wrapper.body_wrapped)
  next
    case (granted o' extra)
    then show ?thesis
      using assms(4) cors_extra_views [OF granted(3)]
      by (auto simp: start_headers_apply cors_wrapper.complete_wrapped cors_wrapper.body_wrapped)
  qed
qed

definition demo_scope :: "str \<Rightarrow> raw_headers \<Rightarrow> scope" where
  "demo_scope meth hs = \<lparr>sc_type = S ''http'', sc_method = Some meth, sc_path = None,
     sc_root_path = None, sc_scheme = None, sc_server = None, sc_client = None, sc_query = None,
     sc_headers = Some hs, sc_path_params = None, sc_endpoint = None, sc_app_root_path = None,
     sc_app = False, sc_body = None\<rparr>"

definition demo_cors :: "bool \<Rightarrow> cors" where
  "demo_cors all_o = \<lparr>co_all_origins = all_o, co_origins = [S ''http://a''], co_regex = None,
     co_methods = [S ''GET''], co_all_headers = False, co_headers = [], co_credentials = True,
     co_expose = [], co_max_age = 600,
     co_simple = [],
     co_preflight = (if all_o then [(''access-control-allow-origin'', ''*'')] else [])
       @ [(''access-control-allow-credentials'', ''true''),
          (''access-control-allow-methods'', ''GET''), (''access-control-max-age'', ''600'')]\<rparr>"

lemmas demo_defs = demo_scope_def demo_cors_def cors_call_def cors_send_def cors_extra_def
  cors_apply_def cors_granted_def is_origin_allowed_def name_key_def
  hvalue_def latin1_decode_S

lemma lower_http_a [simp]: "lower (S ''http://a'') = S ''http://a''"
  by (simp add: lower_def S_def lower_cp_def)

lemma blower_origin [simp]: "blower ''origin'' = ''origin''"
  by (simp add: blower_def)

theorem cors_simple_request_witness:
  "\<exists>out extra. cors_call (demo_cors False) (demo_scope (S ''GET'') [(HB ''origin'', HB ''http://a'')])
            [RespStart 200 None, RespBody (Some ''hi'') None] = Inr out
     \<and> start_headers out = extra \<and> allow_origin extra = [''http://a''] \<and> body_of out = ''hi''"
proof -
  let ?sc = "demo_scope (S ''GET'') [(HB ''origin'', HB ''http://a'')]"
  let ?ms = "[RespStart 200 None, RespBody (Some ''hi'') None]"
  let ?c = "demo_cors False"
  have out: "cors_call ?c ?sc ?ms = Inr [RespStart 200 (Some
      [(''access-control-allow-origin'', ''http://a''), (''vary'', ''Origin''),
       (''access-control-allow-credentials'', ''true'')]), RespBody (Some ''hi'') None]"
    by (simp add: demo_defs)
  have origin: "cors_origin (get_or (sc_headers ?sc) []) = Inr (Some (S ''http://a''))"
    by (simp add: demo_defs)
  have granted: "cors_granted ?c (Some (S ''http://a''))"
    by (simp add: demo_defs)
  show ?thesis
    using cors_simple_request [OF _ _ origin _ out] granted out
    by (auto simp: demo_scope_def response_complete_def cors_views)
qed

lemma preflight_shape:
  assumes "cors_preflight_headers c origin rm rh = Inr (Some hs)"
  obtains po rest where "preflight_origin c origin = Inr po" "hs = co_preflight c @ po @ rest"
    "fst ` set rest \<subseteq> {''access-control-allow-headers'', ''access-control-allow-methods''}"
proof -
  from assms obtain po ah meth where *: "preflight_origin c origin = Inr po"
      "preflight_allow c rh = Inr (Some ah)"
      "(if rm \<noteq> [] then rbind (latin1_encode rm) (\<lambda>b. Inr [(''access-control-allow-methods'', b)])
                 else Inr []) = Inr meth" "hs = co_preflight c @ po @ ah @ meth"
    by (auto simp: cors_preflight_headers_def split: option.splits)
  have "fst ` set ah \<subseteq> {''access-control-allow-headers''}"
    using *(2) by (auto simp: preflight_allow_def allow_headers_header_def split: if_splits)
  moreover have "fst ` set meth \<subseteq> {''access-control-allow-methods''}"
    using *(3) by (auto split: if_splits)
  ultimately have "fst ` set (ah @ meth) \<subseteq> {''access-control-allow-headers'', ''access-control-allow-methods''}"
    by auto
  with *(1,4) show ?thesis by (intro that)
qed

lemma allow_origin_append [simp]: "allow_origin (a @ b) = allow_origin a @ allow_origin b"
  and allow_credentials_append [simp]: "allow_credentials (a @ b) = allow_credentials a @ allow_credentials b"
  by (simp_all add: cors_views)

lemma allow_origin_none: "''access-control-allow-origin'' \<notin> fst ` set hs \<Longrightarrow> allow_origin hs = []"
  by (force simp: allow_origin_def filter_empty_conv)

lemma cors_init_preflight:
  assumes "cors_init origins regex methods hdrs credentials expose max_age = Inr c"
  shows "co_all_origins c = (star \<in> set origins)"
    and "allow_origin (co_preflight c) = (if star \<in> set origins then [''*''] else [])"
    and "allow_credentials (co_preflight c) = (if credentials then [''true''] else [])"
  using assms by (auto simp: cors_init_def Let_def cors_views)

text \<open>
  the answer to a preflight grants the requested method whatever \<open>allow_methods\<close> says:
  the request's own \<open>access-control-request-method\<close> is appended as a second
  \<open>access-control-allow-methods\<close> header, with no test against the configured methods.
\<close>

theorem preflight_echoes_method:
  assumes "cors_preflight_headers c origin rm rh = Inr (Some hs)" and "rm \<noteq> []"
    and "latin1_encode rm = Inr b"
  shows "(''access-control-allow-methods'', b) \<in> set hs"
  using assms by (auto simp: cors_preflight_headers_def split: option.splits)

theorem preflight_echoes_method_witness:
  "S ''DELETE'' \<notin> set (co_methods (demo_cors False))
   \<and> (\<exists>hs. cors_preflight_headers (demo_cors False) (S ''http://a'') (S ''DELETE'') [] = Inr (Some hs)
        \<and> (''access-control-allow-methods'', ''DELETE'') \<in> set hs)"
proof -
  obtain hs where hs: "cors_preflight_headers (demo_cors False) (S ''http://a'') (S ''DELETE'') [] = Inr (Some hs)"
    by (simp add: cors_preflight_headers_def demo_cors_def preflight_origin_def preflight_allow_def)
  show ?thesis
    using hs preflight_echoes_method [OF hs] by (simp add: demo_cors_def)
qed

text \<open>
  unlike the simple response, the preflight of a middleware that allows all origins
  announces the star also when credentials are allowed, the combination the Fetch standard
  makes a browser refuse.
\<close>

theorem preflight_star_with_credentials:
  assumes "cors_init origins regex methods hdrs True expose max_age = Inr c" and "star \<in> set origins"
    and "cors_preflight_headers c origin rm rh = Inr (Some hs)"
  shows "allow_origin hs = [''*''] \<and> ''true'' \<in> set (allow_credentials hs)"
proof -
  note c = cors_init_preflight [OF assms(1)]
  from assms(3) obtain po rest where hs: "preflight_origin c origin = Inr po" "hs = co_preflight c @ po @ rest"
    and rest: "fst ` set rest \<subseteq> {''access-control-allow-headers'', ''access-control-allow-methods''}"
    by (rule preflight_shape)
  from rest have "''access-control-allow-origin'' \<notin> fst ` set rest" by auto
  then have "allow_origin rest = []" by (rule allow_origin_none)
  moreover from hs(1) c(1) assms(2) have "po = []" by (simp add: preflight_origin_def)
  ultimately show ?thesis using hs(2) c assms(2) by simp
qed

theorem preflight_star_with_credentials_witness:
  "\<exists>c hs. cors_init [S ''*''] None [S ''get''] [] True [] 600 = Inr c
     \<and> cors_preflight_headers c (S ''http://a'') (S ''GET'') [] = Inr (Some hs)
     \<and> allow_origin hs = [''*''] \<and> ''true'' \<in> set (allow_credentials hs)"
proof -
  have init: "\<exists>c. cors_init [S ''*''] None [S ''get''] [] True [] 600 = Inr c \<and> co_headers c = []
      \<and> \<not> co_all_headers c \<and> co_all_origins c"
    by (simp add: cors_init_def Let_def star_def comma_join_def int_str_def latin1_encode_def
        upper_def upper_cp_def S_def)
  then obtain c where c: "cors_init [S ''*''] None [S ''get''] [] True [] 600 = Inr c"
    and e: "co_headers c = []" "\<not> co_all_headers c" "co_all_origins c" by blast
  from e obtain hs where hs: "cors_preflight_headers c (S ''http://a'') (S ''GET'') [] = Inr (Some hs)"
    by (simp add: cors_preflight_headers_def preflight_origin_def preflight_allow_def)
  show ?thesis
    using c hs preflight_star_with_credentials [OF c _ hs] by (auto simp: star_def)
qed

text \<open>
  a preflight is never answered with the headers of the inner application, and when the
  allow-list of headers is neither empty nor a star, it succeeds exactly when every header
  the browser asks for is, up to case and surrounding blanks, on the list; otherwise the
  answer is a 400 without any CORS header.
\<close>

theorem preflight_checks_headers:
  assumes "sc_type sc = S ''http''" and "sc_method sc = Some (S ''OPTIONS'')"
    and "cors_origin (get_or (sc_headers sc) []) = Inr (Some origin)" and "cors_granted c (Some origin)"
    and "cors_requested (get_or (sc_headers sc) []) (HB []) (HB []) = Inr (HB m, HB h)"
    and "h \<noteq> []" and "co_headers c \<noteq> []" and "\<not> co_all_headers c"
    and "cors_call c sc ms = Inr out"
  shows "response_complete out
    \<and> (if \<forall>x\<in>set (split_on 44 (latin1_decode h)). lower (strip x) \<in> set (co_headers c)
       then \<exists>hs. out = [RespStart 200 (Some hs), RespBody (Some ''OK'') None]
                 \<and> (''access-control-allow-headers'', h) \<in> set hs
       else out = [RespStart 400 (Some []), RespBody (Some ''Disallowed CORS headers'') None])"
proof -
  let ?rh = "latin1_decode h"
  let ?ok = "\<forall>x\<in>set (split_on 44 ?rh). lower (strip x) \<in> set (co_headers c)"
  have rh: "?rh \<noteq> []" using assms(6) by (simp add: latin1_decode_def)
  obtain hs where hs: "cors_preflight_headers c origin (latin1_decode m) ?rh = Inr hs"
    and out: "out = (case hs of
        None \<Rightarrow> [RespStart 400 (Some []), RespBody (Some ''Disallowed CORS headers'') None]
      | Some pre \<Rightarrow> [RespStart 200 (Some pre), RespBody (Some ''OK'') None])"
    using assms(1-5,9) by (auto simp: cors_call_def cors_granted_def decode_bytes_def)
  have allow: "preflight_allow c ?rh = Inr (if ?ok then Some [(''access-control-allow-headers'', h)] else None)"
    using rh assms(7,8) by (simp add: preflight_allow_def allow_headers_header_def requested_set_def list_all_iff)
  show ?thesis
  proof (cases ?ok)
    case True
    with hs allow obtain pre where "hs = Some pre" "(''access-control-allow-headers'', h) \<in> set pre"
      by (auto simp: cors_preflight_headers_def)
    with True out show ?thesis by (simp add: response_complete_def)
  next
    case False
    with hs allow have "hs = None" by (auto simp: cors_preflight_headers_def)
    with False out show ?thesis by (simp add: response_complete_def)
  qed
qed

definition demo_preflight :: scope where
  "demo_preflight = demo_scope (S ''OPTIONS'') [(HB ''origin'', HB ''http://a''),
     (HB ''access-control-request-method'', HB ''GET''), (HB ''access-control-request-headers'', HB ''x-b'')]"

theorem preflight_checks_headers_witness:
  "cors_call (demo_cors False\<lparr>co_headers := [S ''x-a'']\<rparr>) demo_preflight []
     = Inr [RespStart 400 (Some []), RespBody (Some ''Disallowed CORS headers'') None]"
proof -
  let ?c = "demo_cors False\<lparr>co_headers := [S ''x-a'']\<rparr>"
  have rq: "lower (strip (S ''x-b'')) = S ''x-b''" and sp: "split_on 44 (S ''x-b'') = [S ''x-b'']"
    by (simp_all add: strip_def is_space_def lower_def lower_cp_def S_def)
  have o: "cors_origin (get_or (sc_headers demo_preflight) []) = Inr (Some (S ''http://a''))"
    by (simp add: demo_preflight_def demo_defs)
  have g: "cors_granted ?c (Some (S ''http://a''))" by (simp add: demo_defs)
  have r: "cors_requested (get_or (sc_headers demo_preflight) []) (HB []) (HB []) = Inr (HB ''GET'', HB ''x-b'')"
    by (simp add: demo_preflight_def demo_defs)
  have sc: "sc_type demo_preflight = S ''http''" "sc_method demo_preflight = Some (S ''OPTIONS'')"
    by (simp_all add: demo_preflight_def demo_scope_def)
  have pf: "cors_preflight_headers ?c (S ''http://a'') (S ''GET'') (S ''x-b'') = Inr None"
    by (simp add: cors_preflight_headers_def preflight_origin_def preflight_allow_def
        requested_set_def rq sp demo_cors_def)
  have "\<exists>out. cors_call ?c demo_preflight [] = Inr out"
    using g by (simp add: cors_call_def sc o r pf decode_bytes_def cors_granted_def latin1_decode_S)
  then obtain out where out: "cors_call ?c demo_preflight [] = Inr out" by blast
  show ?thesis
    using preflight_checks_headers [OF _ _ o g r _ _ _ out] out
    by (simp add: demo_preflight_def demo_scope_def demo_cors_def latin1_decode_S sp rq)
qed

subsection \<open>Properties of gzip\<close>

text \<open>
  What the middleware relies on of \<open>zlib\<close>: decompression inverts both the one-shot call and
  a stream of \<open>compress\<close> calls closed by \<open>flush\<close>.
\<close>

fun z_stream :: "'z zlib \<Rightarrow> 'z \<Rightarrow> bytes list \<Rightarrow> bytes" where
  "z_stream z cz [] = z_flush z cz"
| "z_stream z cz (b # bs) = (let (out, cz') = z_compress z cz b in out @ z_stream z cz' bs)"

definition zlib_inverse :: "'z zlib \<Rightarrow> (bytes \<Rightarrow> bytes) \<Rightarrow> bool" where
  "zlib_inverse z gunzip \<longleftrightarrow>
     (\<forall>level b. gunzip (z_oneshot z level b) = b)
     \<and> (\<forall>level bs. gunzip (z_stream z (z_new z level) bs) = concat bs)"

lemma gzip_run_append:
  "gzip_run z g st (ms @ ns) =
     (let (st', out) = gzip_run z g st ms; (st'', outs) = gzip_run z g st' ns in (st'', out @ outs))"
  by (induction ms arbitrary: st) (simp_all add: split_def Let_def)

text \<open>Once the compressor exists, the rest of the stream is its output, chunk by chunk.\<close>

lemma gzip_streaming:
  assumes "g_comp st = Some cz"
  shows "\<exists>st' outs. gzip_run z g st (map (\<lambda>b. RespBody (Some b) (Some True)) bs @ [RespBody (Some b) m]) = (st', outs)
     \<and> g_comp st' \<noteq> None \<and> (\<not> more_body m \<longrightarrow> run_response Streaming outs = Complete
        \<and> body_of outs = z_stream z cz (bs @ [b]))"
  using assms
proof (induction bs arbitrary: st cz)
  case Nil
  then show ?case by (auto simp: gzip_send_def split_def Let_def)
next
  case (Cons c bs)
  obtain out cz' where oc: "z_compress z cz c = (out, cz')" by (cases "z_compress z cz c")
  let ?st = "st\<lparr>g_comp := Some cz'\<rparr>"
  have step: "gzip_send z g st (RespBody (Some c) (Some True)) =
      (?st, if out \<noteq> [] then [RespBody (Some out) (Some True)] else [])"
    using Cons.prems oc by (simp add: gzip_send_def)
  have "g_comp ?st = Some cz'" by simp
  from Cons.IH [OF this] obtain st' outs where
    "gzip_run z g ?st (map (\<lambda>b. RespBody (Some b) (Some True)) bs @ [RespBody (Some b) m]) = (st', outs)"
    "g_comp st' \<noteq> None" "\<not> more_body m \<longrightarrow> run_response Streaming outs = Complete
        \<and> body_of outs = z_stream z cz' (bs @ [b])" by blast
  with step oc show ?case by simp
qed


text \<open>The compressor that stores: decompression is the identity.\<close>

definition stored :: "unit zlib" where
  "stored = \<lparr>z_new = (\<lambda>_. ()), z_compress = (\<lambda>_ b. (b, ())), z_flush = (\<lambda>_. []), z_oneshot = (\<lambda>_ b. b)\<rparr>"

lemma stored_inverse: "zlib_inverse stored (\<lambda>b. b)"
proof -
  have "z_stream stored () bs = concat bs" for bs by (induction bs) (simp_all add: stored_def)
  then show ?thesis by (simp add: zlib_inverse_def stored_def)
qed

definition gzip_scope :: scope where
  "gzip_scope = demo_scope (S ''GET'') [(HB ''accept-encoding'', HB ''gzip'')]"

lemma gzip_scope_accept:
  "gzip_accept (get_or (sc_headers gzip_scope) []) = Inr (S ''gzip'')" "sc_type gzip_scope = S ''http''"
  "contains (S ''gzip'') (S ''gzip'')"
  by (simp_all add: gzip_scope_def demo_scope_def decode_bytes_def latin1_decode_S contains_iff)
     (metis append_Nil append_Nil2)


text \<open>
  a response sent in one body message is answered by one complete response. Below the
  minimum size it is the application's own; from the minimum size on it is the compressed
  body, with its length.
\<close>

theorem gzip_single_roundtrip:
  assumes "zlib_inverse z gunzip"
    and "gzip_accept (get_or (sc_headers sc) []) = Inr enc" and "contains enc (S ''gzip'')"
    and "sc_type sc = S ''http''"
  shows "\<exists>out. gzip_call z g sc [RespStart status h, RespBody (Some b) None] = Inr out
     \<and> response_complete out
     \<and> (if length b < gz_min g
        then start_headers out = get_or h [] \<and> body_of out = b
        else gunzip (body_of out) = b
           \<and> map snd (filter (\<lambda>(k, v). blower k = ''content-length'') (start_headers out))
               = [num_bytes (length (body_of out))])"
proof -
  let ?ms = "[RespStart status h, RespBody (Some b) None]"
  have inv: "gunzip (z_oneshot z (gz_level g) b) = b" using assms(1) by (simp add: zlib_inverse_def)
  have strip: "filter (\<lambda>(k, v). blower k = ''content-length'') (gzip_strip hs) = []" for hs
    by (auto simp: gzip_strip_def filter_empty_conv)
  have lower: "blower ''content-length'' = ''content-length''" "blower ''content-encoding'' \<noteq> ''content-length''"
    "blower ''vary'' \<noteq> ''content-length''" by (simp_all add: blower_def)
  show ?thesis
  proof (cases "length b < gz_min g")
    case True
    then have "gzip_call z g sc ?ms = Inr [RespStart status (Some (get_or h [])), RespBody (Some b) None]"
      using assms(2-4) by (simp add: gzip_call_def gzip_send_def gzip_start_def gzip_finish_def)
    with True show ?thesis by (simp add: response_complete_def)
  next
    case False
    let ?out = "z_oneshot z (gz_level g) b"
    have "gzip_call z g sc ?ms = Inr [RespStart status (Some (gzip_strip (get_or h [])
            @ [(''content-encoding'', ''gzip''), (''content-length'', num_bytes (length ?out)),
               (''vary'', ''Accept-Encoding'')])), RespBody (Some ?out) None]"
      using False assms(2-4) by (simp add: gzip_call_def gzip_send_def gzip_start_def gzip_finish_def Let_def)
    with False inv show ?thesis by (simp add: response_complete_def strip lower)
  qed
qed

theorem gzip_single_roundtrip_witness:
  "\<exists>out. gzip_call stored \<lparr>gz_min = 2, gz_level = 9\<rparr> gzip_scope
      [RespStart 200 None, RespBody (Some ''abc'') None] = Inr out
     \<and> response_complete out \<and> body_of out = ''abc''"
  using gzip_single_roundtrip [OF stored_inverse gzip_scope_accept(1,3,2),
      of "\<lparr>gz_min = 2, gz_level = 9\<rparr>" 200 None "''abc''"] by auto

text \<open>
  when the first chunk of a two-chunk response is not empty but below the minimum size,
  what the middleware sends is never a legal response: the buffered part is sent a second
  time with a second start, and if the total stays below the minimum the first body even
  precedes every start.
\<close>

theorem gzip_small_first_chunk_broken:
  assumes "gzip_accept (get_or (sc_headers sc) []) = Inr enc" and "contains enc (S ''gzip'')"
    and "sc_type sc = S ''http''" and "c \<noteq> []" and "length c < gz_min g"
  shows "\<exists>out. gzip_call z g sc [RespStart status h, RespBody (Some c) (Some True), RespBody (Some d) None] = Inr out
     \<and> run_response Idle out = Broken"
  using assms by (simp add: gzip_call_def gzip_send_def gzip_start_def gzip_finish_def Let_def)

theorem gzip_small_first_chunk_broken_witness:
  "\<exists>out. gzip_call stored \<lparr>gz_min = 500, gz_level = 9\<rparr> gzip_scope
      [RespStart 200 None, RespBody (Some ''ab'') (Some True), RespBody (Some ''c'') None] = Inr out
     \<and> run_response Idle out = Broken"
  using gzip_small_first_chunk_broken [OF gzip_scope_accept(1,3,2),
      of "''ab''" "\<lparr>gz_min = 500, gz_level = 9\<rparr>" stored 200 None "''c''"] by simp

subsection \<open>Properties of TrustedHost\<close>

text \<open>What one entry of the allow list admits.\<close>

definition host_matches :: "str \<Rightarrow> str \<Rightarrow> bool" where
  "host_matches pat host \<longleftrightarrow>
     (if startswith pat (S ''*.'') then host = drop 2 pat \<or> (\<exists>sub. host = sub @ drop 1 pat)
      else host = pat)"

lemma th_loop_invariant:
  "th_any (th_loop hs t) = th_any t"
  "set (th_exact (th_loop hs t)) = set (th_exact t) \<union> {h \<in> set hs. \<not> startswith h (S ''*.'')}"
  "set (th_bare (th_loop hs t)) = set (th_bare t) \<union> drop 2 ` {h \<in> set hs. startswith h (S ''*.'')}"
  "set (th_suffixes (th_loop hs t)) = set (th_suffixes t) \<union> drop 1 ` {h \<in> set hs. startswith h (S ''*.'')}"
  by (induction hs arbitrary: t) auto

text \<open>
  the three lookup structures decide the allow list: a host, without its port and in
  lower case, is admitted exactly when some entry matches it, an entry \<open>*.d\<close> matching \<open>d\<close>
  and every name that ends in \<open>.d\<close>; no list and a list with a star admit every host.
\<close>

theorem trusted_host_spec:
  "is_host_allowed (th_init hosts) host \<longleftrightarrow>
     (case hosts of None \<Rightarrow> True
      | Some hs \<Rightarrow> star \<in> set hs \<or> (\<exists>h\<in>set hs. host_matches (lower h) (host_without_port host)))"
proof (cases hosts)
  case None
  then show ?thesis by (simp add: th_init_def is_host_allowed_def)
next
  case (Some hs)
  then show ?thesis
    by (auto simp: th_init_def is_host_allowed_def th_loop_invariant host_matches_def list_ex_iff
        endswith_iff)
qed

lemma host_without_port_no_colon: "58 \<notin> set (host_without_port host)"
proof -
  have "58 \<notin> set (hd (split_on 58 host))" by (rule split_on_pieces [of _ _ host]) simp
  moreover have "lower_cp c \<noteq> 58 \<or> c = 58" for c by (auto simp: lower_cp_def)
  ultimately show ?thesis by (force simp: host_without_port_def lower_def)
qed

text \<open>
  entries that contain a colon, such as the IPv6 literal \<open>[::1]\<close> or a host with its port,
  admit no request at all, not even one whose Host header is that very entry: the host is cut
  at its first colon, inside the brackets.
\<close>

theorem trusted_host_colon_entries:
  assumes "\<forall>h\<in>set hs. 58 \<in> set h \<and> \<not> startswith (lower h) (S ''*.'')"
  shows "\<not> is_host_allowed (th_init (Some hs)) host"
proof -
  have "\<not> host_matches (lower h) (host_without_port host)" if "h \<in> set hs" for h
  proof -
    have "58 \<in> set (lower h)" using assms that by (force simp: lower_def lower_cp_def)
    then have "host_without_port host \<noteq> lower h" using host_without_port_no_colon by metis
    with assms that show ?thesis by (simp add: host_matches_def)
  qed
  moreover have "star \<notin> set hs" using assms by (force simp: star_def S_def)
  ultimately show ?thesis
    by (force simp: th_init_def is_host_allowed_def th_loop_invariant host_matches_def list_ex_iff
        endswith_iff)
qed

theorem trusted_host_colon_entries_witness:
  "\<not> is_host_allowed (th_init (Some [S ''[::1]''])) (S ''[::1]'')"
  by (rule trusted_host_colon_entries) (simp add: S_def lower_def lower_cp_def)

subsection \<open>Properties of WSGI\<close>

lemma wsgi_read_collects:
  assumes "\<forall>e\<in>set es. ev_more e" and "\<not> ev_more e"
  shows "wsgi_read (es @ e # rest) parts = Some (concat parts @ concat (map ev_body es) @ ev_body e, rest)"
  using assms(1) by (induction es arbitrary: parts) (auto simp: assms(2) Let_def)

text \<open>The values of the request headers that become one environ key.\<close>

definition wsgi_values :: "raw_headers \<Rightarrow> str \<Rightarrow> str list" where
  "wsgi_values hs name = map (hvalue \<circ> snd) (filter (\<lambda>(n, v). wsgi_name (hvalue n) = name) hs)"

definition wsgi_special :: "str \<Rightarrow> bool" where
  "wsgi_special name \<longleftrightarrow> name = S ''CONTENT_TYPE'' \<or> name = S ''CONTENT_LENGTH''"

lemma HTTP_prefix [simp]: "S ''HTTP_'' @ x \<noteq> S ''CONTENT_TYPE''" "S ''HTTP_'' @ x \<noteq> S ''CONTENT_LENGTH''"
  "S ''CONTENT_TYPE'' \<noteq> S ''HTTP_'' @ x" "S ''CONTENT_LENGTH'' \<noteq> S ''HTTP_'' @ x"
  by (simp_all add: S_def)

lemma join_nonempty: "xs \<noteq> [] \<Longrightarrow> \<forall>x\<in>set xs. x \<noteq> [] \<Longrightarrow> join sep xs \<noteq> []"
  by (cases xs; cases "tl xs") (auto simp: join_Cons)

lemma wsgi_headers_values:
  assumes "\<not> wsgi_special name" and "\<forall>v\<in>set (acc @ wsgi_values hs name). v \<noteq> []"
    and "map_of env (S ''HTTP_'' @ name) = (if acc = [] then None else Some (WStr (join (S '','') acc)))"
  shows "map_of (wsgi_headers hs env) (S ''HTTP_'' @ name) =
     (if acc @ wsgi_values hs name = [] then None
      else Some (WStr (join (S '','') (acc @ wsgi_values hs name))))"
  using assms(2,3)
proof (induction hs arbitrary: env acc)
  case Nil
  then show ?case by (simp add: wsgi_values_def)
next
  case (Cons p hs)
  obtain n v where p: "p = (n, v)" by (cases p)
  let ?nm = "wsgi_name (hvalue n)"
  let ?env = "(let name = ?nm; value = hvalue v in
        if name = S ''CONTENT_TYPE'' then dict_set (S ''CONTENT_TYPE'') (WStr value) env
        else if name = S ''CONTENT_LENGTH'' then dict_set (S ''CONTENT_LENGTH'') (WStr value) env
        else (let key = S ''HTTP_'' @ name in
              case map_of env key of
                Some (WStr x) \<Rightarrow>
                  dict_set key (WStr (if x \<noteq> [] then x @ S '','' @ value else value)) env
              | _ \<Rightarrow> dict_set key (WStr value) env))"
  have step: "wsgi_headers (p # hs) env = wsgi_headers hs ?env" using p by simp
  show ?case
  proof (cases "?nm = name")
    case True
    then have vals: "wsgi_values (p # hs) name = hvalue v # wsgi_values hs name"
      by (simp add: p wsgi_values_def)
    with Cons.prems(1) have ne: "\<forall>w\<in>set ((acc @ [hvalue v]) @ wsgi_values hs name). w \<noteq> []" by simp
    then have "acc \<noteq> [] \<Longrightarrow> join (S '','') acc \<noteq> []" by (intro join_nonempty) auto
    with True assms(1) Cons.prems(2)
    have "map_of ?env (S ''HTTP_'' @ name) = Some (WStr (join (S '','') (acc @ [hvalue v])))"
      by (simp add: wsgi_special_def map_of_dict_set join_snoc)
    then have "map_of (wsgi_headers hs ?env) (S ''HTTP_'' @ name) =
      Some (WStr (join (S '','') ((acc @ [hvalue v]) @ wsgi_values hs name)))"
      using Cons.IH [OF ne, of ?env] by simp
    with step vals show ?thesis by simp
  next
    case False
    then have "wsgi_values (p # hs) name = wsgi_values hs name" by (simp add: p wsgi_values_def)
    moreover have "map_of ?env (S ''HTTP_'' @ name) = map_of env (S ''HTTP_'' @ name)"
      using False by (simp add: map_of_dict_set Let_def split: option.splits wsgi_value.splits)
    ultimately show ?thesis using Cons step by simp
  qed
qed

text \<open>
  a request header other than the two content headers reaches the WSGI application under
  \<open>HTTP_\<close> and its upper-case name; when it is repeated, the values are joined with commas in
  the order of the request, none lost, provided none of them is empty.
\<close>

theorem wsgi_environ_header:
  assumes "\<not> wsgi_special name" and "\<forall>v\<in>set (wsgi_values (get_or (sc_headers sc) []) name). v \<noteq> []"
  shows "map_of (build_wsgi_environ sc version body) (S ''HTTP_'' @ name) =
     (let vs = wsgi_values (get_or (sc_headers sc) []) name
      in if vs = [] then None else Some (WStr (join (S '','') vs)))"
  using wsgi_headers_values [of name "[]"] assms
  by (auto simp: build_wsgi_environ_def Let_def split_def map_of_dict_set S_def split: option.splits)

theorem wsgi_environ_header_witness:
  "map_of (build_wsgi_environ (demo_scope (S ''GET'') [(HB ''x-a'', HB ''1''), (HB ''X-A'', HB ''2'')])
     (S ''1.1'') []) (S ''HTTP_'' @ S ''X_A'') = Some (WStr (S ''1,2''))"
proof -
  let ?sc = "demo_scope (S ''GET'') [(HB ''x-a'', HB ''1''), (HB ''X-A'', HB ''2'')]"
  have vs: "wsgi_values (get_or (sc_headers ?sc) []) (S ''X_A'') = [S ''1'', S ''2'']"
    by (simp add: wsgi_values_def demo_scope_def wsgi_name_def hvalue_def upper_def upper_cp_def
        latin1_decode_def S_def)
  show ?thesis
    using wsgi_environ_header [of "S ''X_A''" ?sc "S ''1.1''" "[]"]
    by (simp add: vs wsgi_special_def) (simp add: S_def)
qed

lemma run_wsgi_plain:
  assumes "\<forall>a\<in>set acts. (\<exists>b. a = WWrite b) \<or> (\<exists>b. a = WYield b)"
  shows "run_wsgi acts st hs parts = (st, hs, concat parts @ concat (map (\<lambda>a. case a of WWrite b \<Rightarrow> b | WYield b \<Rightarrow> b) acts))"
  using assms by (induction acts arbitrary: parts) auto

lemma run_wsgi_raise:
  assumes "WRaise \<in> set acts"
  shows "run_wsgi acts st hs parts = (500, [(S ''Content-Type'', S ''text/plain'')], ''Internal Server Error'')"
  using assms
proof (induction acts arbitrary: st hs parts)
  case (Cons a acts)
  then show ?case by (cases a) (auto split: sum.splits)
qed simp

text \<open>
  an application that raises at any moment, after any output, is answered by the plain
  500 response alone: the status, headers and body parts it produced before are dropped, and
  the response on the wire is complete.
\<close>

theorem wsgi_error_response:
  assumes "sc_type sc = S ''http''" and "wsgi_read evs [] = Some (body, rest)"
    and "WRaise \<in> set (app (build_wsgi_environ sc version body))"
  shows "\<exists>out. wsgi_call app sc version evs = Some (Inr out) \<and> response_complete out
     \<and> out = [RespStart 500 (Some [(''content-type'', ''text/plain'')]), RespBody (Some ''Internal Server Error'') None]"
proof -
  have "lower (S ''Content-Type'') = S ''content-type''" by (simp add: lower_def lower_cp_def S_def)
  then show ?thesis
    using assms by (simp add: wsgi_call_def run_wsgi_raise wsgi_raw_def response_complete_def)
qed

theorem wsgi_error_response_witness:
  "\<exists>out. wsgi_call (\<lambda>env. [WStart (S ''200 OK'') [], WYield ''part'', WRaise]) gzip_scope (S ''1.1'')
      [HttpRequest (Some ''a'') (Some True), HttpRequest None None] = Some (Inr out)
     \<and> response_complete out \<and> body_of out = ''Internal Server Error''"
  using wsgi_error_response [OF gzip_scope_accept(2), of "[HttpRequest (Some ''a'') (Some True), HttpRequest None None]"
      "''a''" "[]" "\<lambda>env. [WStart (S ''200 OK'') [], WYield ''part'', WRaise]" "S ''1.1''"]
  by auto

text \<open>
  the WSGI application sees the whole request body, whatever the chunks it arrived in,
  and the body of the response is everything it writes and yields after \<open>start_response\<close>,
  in order.
\<close>

theorem wsgi_body_delivery:
  assumes "sc_type sc = S ''http''" and "\<forall>e\<in>set es. ev_more e" and "\<not> ev_more e"
    and "app (build_wsgi_environ sc version (concat (map ev_body es) @ ev_body e)) = WStart (dec n @ 32 # reason) hs # acts"
    and "\<forall>a\<in>set acts. (\<exists>b. a = WWrite b) \<or> (\<exists>b. a = WYield b)" and "wsgi_raw hs = Inr raw"
  shows "\<exists>out. wsgi_call app sc version (es @ e # rest) = Some (Inr out) \<and> response_complete out
     \<and> start_headers out = raw
     \<and> body_of out = concat (map (\<lambda>a. case a of WWrite b \<Rightarrow> b | WYield b \<Rightarrow> b) acts)"
proof -
  have "32 \<notin> set (dec n)" using dec_digits [of 32 n] by (auto simp: is_digit_def)
  then have "py_int (fst (split_once 32 (dec n @ 32 # reason))) = Inr (int n)"
    by (simp add: split_once_sep)
  then show ?thesis
    using assms by (simp add: wsgi_call_def wsgi_read_collects run_wsgi_plain response_complete_def)
qed

theorem wsgi_body_delivery_witness:
  "\<exists>out. wsgi_call (\<lambda>env. [WStart (dec 200 @ 32 # S ''OK'') [], WYield ''he'', WWrite ''y'']) gzip_scope (S ''1.1'')
      ([HttpRequest (Some ''a'') (Some True)] @ HttpRequest None None # []) = Some (Inr out)
     \<and> response_complete out \<and> body_of out = ''hey''"
  using wsgi_body_delivery [OF gzip_scope_accept(2), of "[HttpRequest (Some ''a'') (Some True)]" "HttpRequest None None"
      "\<lambda>env. [WStart (dec 200 @ 32 # S ''OK'') [], WYield ''he'', WWrite ''y'']" "S ''1.1''" 200 "S ''OK''" "[]"
      "[WYield ''he'', WWrite ''y'']" "[]" "[]"]
  by (auto simp: wsgi_raw_def)

subsection \<open>Properties of ExceptionMiddleware\<close>

lemma em_add_exceptions [simp]:
  "em_exceptions (em_add (OnClass c) h m) = dict_set c h (em_exceptions m)"
  "em_exceptions (em_add (OnStatus n) h m) = em_exceptions m"
  by (simp_all add: em_add_def)

lemma em_init_exceptions:
  "map_of (em_exceptions (fold (\<lambda>(k, h). em_add k h) hs m)) c =
     (case map_of (rev hs) (OnClass c) of Some h \<Rightarrow> Some h | None \<Rightarrow> map_of (em_exceptions m) c)"
proof (induction hs arbitrary: m)
  case (Cons p hs)
  show ?case
    by (cases p; cases "fst p") (simp_all add: Cons map_of_dict_set map_add_def split: option.splits)
qed simp

lemma em_lookup_first:
  "em_lookup m (pre @ c # post) = Some h"
  if "\<forall>d\<in>set pre. map_of (em_exceptions m) d = None" "map_of (em_exceptions m) c = Some h"
  using that by (induction pre) auto

text \<open>
  the handler of an exception is the one registered for the most specific class of its
  method resolution order that has one; handlers registered for status codes never interfere.
\<close>

theorem em_lookup_most_specific:
  assumes "dict_wf hs" and "\<forall>d\<in>set pre. OnClass d \<notin> fst ` set hs" and "(OnClass c, h) \<in> set hs"
  shows "em_lookup (em_init hs) (pre @ c # post) = Some h"
proof -
  have wf: "distinct (map fst (rev hs))" using assms(1) by (simp add: dict_wf_def rev_map [symmetric])
  have "map_of (em_exceptions (em_init hs)) d = map_of (rev hs) (OnClass d)" for d
    by (simp add: em_init_def em_init_exceptions split: option.splits)
  moreover have "map_of (rev hs) (OnClass c) = Some h"
    using wf assms(3) by (simp add: map_of_is_SomeI)
  moreover have "map_of (rev hs) (OnClass d) = None" if "d \<in> set pre" for d
    using assms(2) that by (simp add: map_of_eq_None_iff)
  ultimately show ?thesis by (simp add: em_lookup_first)
qed

theorem em_lookup_most_specific_witness:
  "em_lookup (em_init [(OnStatus 404, ''s''), (OnClass (7::nat), ''a''), (OnClass 1, ''b'')]) ([3, 5] @ 7 # [1]) = Some ''a''"
  by (rule em_lookup_most_specific) (simp_all add: dict_wf_def)

end
