(* ===== verification/Routing.thy ===== *)
theory Routing
  imports Requests
begin

text \<open>
  \<open>astraapi/_routing_base.py\<close>: path convertors, path compilation and matching, HTTP and
  WebSocket routes, mounts, the router's dispatch and redirects, reverse URLs and the lifespan
  protocol. Endpoints and mounted applications are numbered; dispatching ends in an \<open>outcome\<close>
  that says which of them is called with which scope, or which response is sent. The locale
  \<open>convertor_law\<close> is the contract between a convertor's two directions.
\<close>

subsection \<open>Convertors\<close>

text \<open>
  \<open>cv_accepts\<close> is the full match of the convertor's regular expression. Python's greedy
  matching tries the accepted prefixes longest first.
\<close>

record convertor =
  cv_accepts :: "str \<Rightarrow> bool"
  cv_convert :: "str \<Rightarrow> pval res"
  cv_to_string :: "pval \<Rightarrow> str res"

definition is_hex :: "nat \<Rightarrow> bool" where
  "is_hex c \<longleftrightarrow> is_digit c \<or> 65 \<le> c \<and> c \<le> 70 \<or> 97 \<le> c \<and> c \<le> 102"

definition hex_value :: "nat \<Rightarrow> nat" where
  "hex_value c = (if is_digit c then c - 48 else if c \<le> 70 then c - 55 else c - 87)"

definition hex_char :: "nat \<Rightarrow> nat" where
  "hex_char d = (if d < 10 then 48 + d else 87 + d)"

text \<open>The last \<open>k\<close> hexadecimal digits, most significant first.\<close>

fun hex_digits :: "nat \<Rightarrow> nat \<Rightarrow> str" where
  "hex_digits 0 n = []"
| "hex_digits (Suc k) n = hex_digits k (n div 16) @ [hex_char (n mod 16)]"

definition unhex :: "str \<Rightarrow> nat" where
  "unhex s = foldl (\<lambda>a c. 16 * a + hex_value c) 0 s"

definition uuid_str :: "nat \<Rightarrow> str" where
  "uuid_str n =
     (let h = hex_digits 32 n in
      take 8 h @ S ''-'' @ take 4 (drop 8 h) @ S ''-'' @ take 4 (drop 12 h) @ S ''-''
      @ take 4 (drop 16 h) @ S ''-'' @ drop 20 h)"

definition py_str :: "pval \<Rightarrow> str" where
  "py_str v = (case v of PStr s \<Rightarrow> s | PInt i \<Rightarrow> int_str i | PUuid n \<Rightarrow> uuid_str n)"

text \<open>47 is the slash, 10 the newline, which a dot does not match, and 45 the hyphen.\<close>

definition str_convertor :: convertor where
  "str_convertor =
     \<lparr>cv_accepts = (\<lambda>s. s \<noteq> [] \<and> 47 \<notin> set s),
      cv_convert = (\<lambda>s. Inr (PStr s)),
      cv_to_string = (\<lambda>v.
        rbind (rassert (47 \<notin> set (py_str v)) (AssertionError (S ''May not contain path separators''))) (\<lambda>_.
        rbind (rassert (py_str v \<noteq> []) (AssertionError (S ''Must not be empty''))) (\<lambda>_.
        Inr (py_str v))))\<rparr>"

definition to_int :: "pval \<Rightarrow> int res" where
  "to_int v = (case v of PStr s \<Rightarrow> py_int s | PInt i \<Rightarrow> Inr i | PUuid n \<Rightarrow> Inr (int n))"

definition int_convertor :: convertor where
  "int_convertor =
     \<lparr>cv_accepts = (\<lambda>s. s \<noteq> [] \<and> list_all is_digit s),
      cv_convert = (\<lambda>s. rbind (py_int s) (\<lambda>i. Inr (PInt i))),
      cv_to_string = (\<lambda>v. rbind (to_int v) (\<lambda>i.
        rbind (rassert (0 \<le> i) (AssertionError (S ''Negative integers are not supported''))) (\<lambda>_.
        Inr (int_str i))))\<rparr>"

definition path_convertor :: convertor where
  "path_convertor =
     \<lparr>cv_accepts = (\<lambda>s. 10 \<notin> set s), cv_convert = (\<lambda>s. Inr (PStr s)),
      cv_to_string = (\<lambda>v. Inr (py_str v))\<rparr>"

fun hex_groups :: "nat list \<Rightarrow> str \<Rightarrow> bool" where
  "hex_groups [] s \<longleftrightarrow> s = []"
| "hex_groups (n # ns) s \<longleftrightarrow>
     length (take n s) = n \<and> list_all is_hex (take n s)
     \<and> hex_groups ns (let r = drop n s in if ns \<noteq> [] \<and> r \<noteq> [] \<and> hd r = 45 then tl r else r)"

definition uuid_convert :: "str \<Rightarrow> pval res" where
  "uuid_convert s =
     (let h = filter (\<lambda>c. c \<noteq> 45) s in
      if length h = 32 \<and> list_all is_hex h then Inr (PUuid (unhex h))
      else Inl (ValueError (S ''badly formed hexadecimal UUID string'')))"

definition uuid_convertor :: convertor where
  "uuid_convertor =
     \<lparr>cv_accepts = hex_groups [8, 4, 4, 4, 12], cv_convert = uuid_convert,
      cv_to_string = (\<lambda>v. Inr (py_str v))\<rparr>"

text \<open>
  The table of convertors. The float convertor works on binary floating-point values and is
  left to the caller, like every convertor an application registers.
\<close>

definition convertor_types :: "(str, convertor) dict" where
  "convertor_types = [(S ''str'', str_convertor), (S ''path'', path_convertor),
     (S ''int'', int_convertor), (S ''uuid'', uuid_convertor)]"

definition register_url_convertor :: "str \<Rightarrow> convertor \<Rightarrow> (str, convertor) dict \<Rightarrow> (str, convertor) dict" where
  "register_url_convertor key cv tab = dict_set key cv tab"

subsection \<open>URLPath and route paths\<close>

record url_path =
  up_path :: str
  up_protocol :: str
  up_host :: str

definition url_path_init :: "str \<Rightarrow> str \<Rightarrow> str \<Rightarrow> url_path res" where
  "url_path_init path protocol host =
     rbind (rassert (protocol = S ''http'' \<or> protocol = S ''websocket'' \<or> protocol = []) (AssertionError [])) (\<lambda>_.
     Inr \<lparr>up_path = path, up_protocol = protocol, up_host = host\<rparr>)"

definition make_absolute_url :: "url_path \<Rightarrow> url \<Rightarrow> url res" where
  "make_absolute_url u base =
     (let scheme = (if up_protocol u = S ''http'' then (if url_is_secure base then S ''https'' else S ''http'')
                    else if up_protocol u = S ''websocket'' then (if url_is_secure base then S ''wss'' else S ''ws'')
                    else u_scheme (url_parts base));
          netloc = (if up_host u \<noteq> [] then up_host u else u_netloc (url_parts base));
          path = rstrip 47 (u_path (url_parts base)) @ up_path u
      in url_init (scheme @ S ''://'' @ netloc @ path))"

definition get_route_path :: "scope \<Rightarrow> str res" where
  "get_route_path sc =
     (case sc_path sc of
        None \<Rightarrow> Inl (KeyError (S ''path''))
      | Some path \<Rightarrow>
          (let root = get_or (sc_root_path sc) [] in
           Inr (if root = [] then path
                else if \<not> startswith path root then path
                else if path = root then []
                else if path ! length root = 47 then drop (length root) path
                else path)))"

subsection \<open>Compiling paths\<close>

definition ident_start :: "nat \<Rightarrow> bool" where
  "ident_start c \<longleftrightarrow> is_alpha c \<or> c = 95"

definition ident_char :: "nat \<Rightarrow> bool" where
  "ident_char c \<longleftrightarrow> ident_start c \<or> is_digit c"

definition ident_prefix :: "str \<Rightarrow> (str \<times> str) option" where
  "ident_prefix s =
     (if s \<noteq> [] \<and> ident_start (hd s) then Some (takeWhile ident_char s, dropWhile ident_char s) else None)"

text \<open>\<open>PARAM_REGEX\<close> at the start of \<open>s\<close>: 123 and 125 are the braces, 58 the colon.\<close>

definition param_at :: "str \<Rightarrow> (str \<times> str \<times> str) option" where
  "param_at s =
     (if s = [] \<or> hd s \<noteq> 123 then None
      else case ident_prefix (tl s) of
        None \<Rightarrow> None
      | Some (name, r) \<Rightarrow>
          if startswith r [125] then Some (name, S ''str'', tl r)
          else if startswith r [58] then
            (case ident_prefix (tl r) of
               None \<Rightarrow> None
             | Some (ty, r') \<Rightarrow> if startswith r' [125] then Some (name, ty, tl r') else None)
          else None)"

lemma ident_prefix_length: "ident_prefix s = Some (a, b) \<Longrightarrow> length b < length s"
proof -
  assume "ident_prefix s = Some (a, b)"
  then have s: "s \<noteq> []" "ident_start (hd s)" "b = dropWhile ident_char s"
    by (auto simp: ident_prefix_def split: if_splits)
  then obtain c r where "s = c # r" by (cases s) auto
  with s show ?thesis by (simp add: ident_char_def le_imp_less_Suc length_dropWhile_le)
qed

lemma param_at_length: "param_at s = Some (n, t, r) \<Longrightarrow> length r < length s"
  by (fastforce simp: param_at_def split: if_splits option.splits dest!: ident_prefix_length)

text \<open>
  The loop over \<open>PARAM_REGEX.finditer\<close>: the literal before each parameter, its name and the
  type of its convertor, and the literal after the last one.
\<close>

function scan_path :: "str \<Rightarrow> str \<Rightarrow> (str \<times> str \<times> str) list \<times> str" where
  "scan_path s lit =
     (if s = [] then ([], lit)
      else case param_at s of
        Some (n, ty, r) \<Rightarrow> (let (ps, fin) = scan_path r [] in ((lit, n, ty) # ps, fin))
      | None \<Rightarrow> scan_path (tl s) (lit @ [hd s]))"
  by pat_completeness auto
termination
  by (relation "measure (\<lambda>(s, lit). length s)") (auto dest: param_at_length)

declare scan_path.simps [simp del]

datatype seg = Lit str | Par str convertor

record compiled =
  cp_segs :: "seg list"
  cp_format :: str
  cp_convs :: "(str, convertor) dict"

definition braces :: "str \<Rightarrow> str" where
  "braces n = S ''{'' @ n @ S ''}''"

fun compile_loop ::
  "(str, convertor) dict \<Rightarrow> (str \<times> str \<times> str) list \<Rightarrow> compiled \<Rightarrow> bool \<Rightarrow> (compiled \<times> bool) res" where
  "compile_loop tab [] c dup = Inr (c, dup)"
| "compile_loop tab ((lit, n, ty) # ps) c dup =
     (case map_of tab ty of
        None \<Rightarrow> Inl (AssertionError (S ''Unknown path convertor''))
      | Some cv \<Rightarrow>
          compile_loop tab ps
            \<lparr>cp_segs = cp_segs c @ [Lit lit, Par n cv], cp_format = cp_format c @ lit @ braces n,
             cp_convs = dict_set n cv (cp_convs c)\<rparr>
            (dup \<or> dict_has (cp_convs c) n))"

definition compile_path :: "(str, convertor) dict \<Rightarrow> str \<Rightarrow> compiled res" where
  "compile_path tab path =
     (let (ps, fin) = scan_path path [] in
      rbind (compile_loop tab ps \<lparr>cp_segs = [], cp_format = [], cp_convs = []\<rparr> False) (\<lambda>(c, dup).
        if dup then Inl (ValueError (S ''Duplicated param name''))
        else Inr \<lparr>cp_segs = cp_segs c
                    @ [Lit (if startswith path (S ''/'') then fin else hd (split_on 58 fin))],
                  cp_format = cp_format c @ fin, cp_convs = cp_convs c\<rparr>))"

subsection \<open>Matching paths\<close>

fun first_some :: "('a \<Rightarrow> 'b option) \<Rightarrow> 'a list \<Rightarrow> 'b option" where
  "first_some f [] = None"
| "first_some f (x # xs) = (case f x of Some y \<Rightarrow> Some y | None \<Rightarrow> first_some f xs)"

text \<open>
  The backtracking match of the compiled expression. The final \<open>$\<close> also matches before a
  newline at the end of the path.
\<close>

fun match_segs :: "seg list \<Rightarrow> str \<Rightarrow> (str \<times> str) list option" where
  "match_segs [] s = (if s = [] \<or> s = [10] then Some [] else None)"
| "match_segs (Lit l # segs) s = (if startswith s l then match_segs segs (drop (length l) s) else None)"
| "match_segs (Par n cv # segs) s =
     first_some (\<lambda>k. if cv_accepts cv (take k s)
                      then map_option (\<lambda>m. (n, take k s) # m) (match_segs segs (drop k s)) else None)
       (rev [0..<Suc (length s)])"

definition convert_params :: "(str, convertor) dict \<Rightarrow> (str \<times> str) list \<Rightarrow> (str, pval) dict res" where
  "convert_params convs m =
     rmap (\<lambda>(k, v). case map_of convs k of
                       None \<Rightarrow> Inl (KeyError k)
                     | Some cv \<Rightarrow> rbind (cv_convert cv v) (\<lambda>x. Inr (k, x))) m"

datatype match = M_None | M_Partial | M_Full

text \<open>What a match adds to the scope.\<close>

record child =
  ch_endpoint :: nat
  ch_params :: "(str, pval) dict"
  ch_mount :: "(str \<times> str) option"

definition apply_child :: "child \<Rightarrow> scope \<Rightarrow> scope" where
  "apply_child ch sc =
     (let sc' = sc\<lparr>sc_endpoint := Some (ch_endpoint ch), sc_path_params := Some (ch_params ch)\<rparr> in
      case ch_mount ch of
        None \<Rightarrow> sc'
      | Some (app_root, root) \<Rightarrow> sc'\<lparr>sc_app_root_path := Some app_root, sc_root_path := Some root\<rparr>)"

definition no_match :: "match \<times> child" where
  "no_match = (M_None, \<lparr>ch_endpoint = 0, ch_params = [], ch_mount = None\<rparr>)"

definition merged_params :: "scope \<Rightarrow> (str, pval) dict \<Rightarrow> (str, pval) dict" where
  "merged_params sc ps = dict_update ps (get_or (sc_path_params sc) [])"

subsection \<open>Routes\<close>

text \<open>
  The method set of a route is a list without repetitions, in the order in which Python
  iterates the set.
\<close>

record route =
  rt_path :: str
  rt_endpoint :: nat
  rt_name :: str
  rt_methods :: "str list option"
  rt_compiled :: compiled

definition method_set :: "str list \<Rightarrow> str list" where
  "method_set ms =
     (let us = remdups (map upper ms) in
      if S ''GET'' \<in> set us \<and> S ''HEAD'' \<notin> set us then us @ [S ''HEAD''] else us)"

text \<open>\<open>plain\<close> says that the endpoint is a function or a method, \<open>dname\<close> is its name.\<close>

definition route_init ::
  "(str, convertor) dict \<Rightarrow> str \<Rightarrow> nat \<Rightarrow> bool \<Rightarrow> str \<Rightarrow> str list option \<Rightarrow> str option \<Rightarrow> route res" where
  "route_init tab path endpoint plain dname methods name =
     rbind (rassert (startswith path (S ''/'')) (AssertionError (S ''Routed paths must start with /''))) (\<lambda>_.
     rbind (compile_path tab path) (\<lambda>c.
     Inr \<lparr>rt_path = path, rt_endpoint = endpoint, rt_name = get_or name dname,
          rt_methods = (case methods of Some ms \<Rightarrow> Some (method_set ms)
                        | None \<Rightarrow> if plain then Some (method_set [S ''GET'']) else None),
          rt_compiled = c\<rparr>))"

definition method_refused :: "route \<Rightarrow> scope \<Rightarrow> bool res" where
  "method_refused rt sc =
     (case rt_methods rt of
        None \<Rightarrow> Inr False
      | Some ms \<Rightarrow> if ms = [] then Inr False
                   else (case sc_method sc of None \<Rightarrow> Inl (KeyError (S ''method''))
                         | Some m \<Rightarrow> Inr (m \<notin> set ms)))"

definition route_matches :: "route \<Rightarrow> scope \<Rightarrow> (match \<times> child) res" where
  "route_matches rt sc =
     (if sc_type sc \<noteq> S ''http'' then Inr no_match
      else rbind (get_route_path sc) (\<lambda>rp.
        case match_segs (cp_segs (rt_compiled rt)) rp of
          None \<Rightarrow> Inr no_match
        | Some m \<Rightarrow>
            rbind (convert_params (cp_convs (rt_compiled rt)) m) (\<lambda>ps.
            rbind (method_refused rt sc) (\<lambda>refused.
              Inr (if refused then M_Partial else M_Full,
                   \<lparr>ch_endpoint = rt_endpoint rt, ch_params = merged_params sc ps, ch_mount = None\<rparr>)))))"

record ws_route =
  ws_path :: str
  ws_endpoint :: nat
  ws_name :: str
  ws_compiled :: compiled

definition ws_route_init :: "(str, convertor) dict \<Rightarrow> str \<Rightarrow> nat \<Rightarrow> str \<Rightarrow> str option \<Rightarrow> ws_route res" where
  "ws_route_init tab path endpoint dname name =
     rbind (rassert (startswith path (S ''/'')) (AssertionError (S ''Routed paths must start with /''))) (\<lambda>_.
     rbind (compile_path tab path) (\<lambda>c.
     Inr \<lparr>ws_path = path, ws_endpoint = endpoint, ws_name = get_or name dname, ws_compiled = c\<rparr>))"

definition ws_route_matches :: "ws_route \<Rightarrow> scope \<Rightarrow> (match \<times> child) res" where
  "ws_route_matches rt sc =
     (if sc_type sc \<noteq> S ''websocket'' then Inr no_match
      else rbind (get_route_path sc) (\<lambda>rp.
        case match_segs (cp_segs (ws_compiled rt)) rp of
          None \<Rightarrow> Inr no_match
        | Some m \<Rightarrow>
            rbind (convert_params (cp_convs (ws_compiled rt)) m) (\<lambda>ps.
              Inr (M_Full, \<lparr>ch_endpoint = ws_endpoint rt, ch_params = merged_params sc ps, ch_mount = None\<rparr>))))"

record mount =
  mt_path :: str
  mt_app :: nat
  mt_name :: "str option"
  mt_compiled :: compiled

definition mount_init :: "(str, convertor) dict \<Rightarrow> str \<Rightarrow> nat \<Rightarrow> str option \<Rightarrow> mount res" where
  "mount_init tab path app name =
     rbind (rassert (path = [] \<or> startswith path (S ''/'')) (AssertionError (S ''Routed paths must start with /''))) (\<lambda>_.
     rbind (compile_path tab (rstrip 47 path @ S ''/{path:path}'')) (\<lambda>c.
     Inr \<lparr>mt_path = rstrip 47 path, mt_app = app, mt_name = name, mt_compiled = c\<rparr>))"

definition mount_matches :: "mount \<Rightarrow> scope \<Rightarrow> (match \<times> child) res" where
  "mount_matches mt sc =
     (if sc_type sc \<noteq> S ''http'' \<and> sc_type sc \<noteq> S ''websocket'' then Inr no_match
      else rbind (get_route_path sc) (\<lambda>rp.
        case match_segs (cp_segs (mt_compiled mt)) rp of
          None \<Rightarrow> Inr no_match
        | Some m \<Rightarrow>
            rbind (convert_params (cp_convs (mt_compiled mt)) m) (\<lambda>ps.
              case map_of ps (S ''path'') of
                Some (PStr rest) \<Rightarrow>
                  (let root = get_or (sc_root_path sc) [];
                       matched = take (length rp - length (S ''/'' @ rest)) rp
                   in Inr (M_Full,
                        \<lparr>ch_endpoint = mt_app mt, ch_params = merged_params sc (dict_del (S ''path'') ps),
                         ch_mount = Some (get_or (sc_app_root_path sc) root, root @ matched)\<rparr>))
              | Some _ \<Rightarrow> Inl (TypeError (S ''concat''))
              | None \<Rightarrow> Inl (KeyError (S ''path'')))))"

subsection \<open>Reverse URLs\<close>

fun replace_params ::
  "str \<Rightarrow> (str, convertor) dict \<Rightarrow> (str, pval) dict \<Rightarrow> (str, pval) dict \<Rightarrow> (str \<times> (str, pval) dict) res" where
  "replace_params path convs [] rest = Inr (path, rest)"
| "replace_params path convs ((k, v) # ps) rest =
     (if contains path (braces k) then
        (case map_of convs k of
           None \<Rightarrow> Inl (KeyError k)
         | Some cv \<Rightarrow> rbind (cv_to_string cv v) (\<lambda>s.
             replace_params (replace path (braces k) s) convs ps (dict_del k rest)))
      else replace_params path convs ps rest)"

definition same_keys :: "('a, 'b) dict \<Rightarrow> ('a, 'c) dict \<Rightarrow> bool" where
  "same_keys a b \<longleftrightarrow> set (map fst a) = set (map fst b)"

definition compiled_url :: "compiled \<Rightarrow> str \<Rightarrow> str \<Rightarrow> str \<Rightarrow> (str, pval) dict \<Rightarrow> url_path res" where
  "compiled_url c own protocol name params =
     (if name \<noteq> own \<or> \<not> same_keys params (cp_convs c) then Inl (NoMatchFound name)
      else rbind (replace_params (cp_format c) (cp_convs c) params params) (\<lambda>(path, rest).
           rbind (rassert (rest = []) (AssertionError [])) (\<lambda>_. url_path_init path protocol [])))"

definition route_url_path_for :: "route \<Rightarrow> str \<Rightarrow> (str, pval) dict \<Rightarrow> url_path res" where
  "route_url_path_for rt name params = compiled_url (rt_compiled rt) (rt_name rt) (S ''http'') name params"

definition ws_url_path_for :: "ws_route \<Rightarrow> str \<Rightarrow> (str, pval) dict \<Rightarrow> url_path res" where
  "ws_url_path_for rt name params = compiled_url (ws_compiled rt) (ws_name rt) (S ''websocket'') name params"

subsection \<open>The route tree\<close>

text \<open>
  A mount holds another router, or an application without routes. A router is its routes, the
  slash redirection flag and its default application, \<open>None\<close> for \<open>not_found\<close>.
\<close>

datatype node = NRoute route | NWebSocket ws_route | NMount mount "router option"
  and router = Router "node list" bool "nat option"

definition router_init :: "node list option \<Rightarrow> bool \<Rightarrow> nat option \<Rightarrow> router" where
  "router_init routes redirect_slashes default_app = Router (get_or routes []) redirect_slashes default_app"

definition node_matches :: "node \<Rightarrow> scope \<Rightarrow> (match \<times> child) res" where
  "node_matches n sc =
     (case n of NRoute rt \<Rightarrow> route_matches rt sc
              | NWebSocket rt \<Rightarrow> ws_route_matches rt sc
              | NMount mt r \<Rightarrow> mount_matches mt sc)"

text \<open>The end of a dispatch; \<open>OCall\<close> is the call of an endpoint or application.\<close>

datatype outcome =
    OCall nat scope
  | OPlain str int "(str \<times> str) list"
  | OHttpException int "(str \<times> str) list"
  | OClose int str
  | ORedirect str
  | OLifespan

definition route_handle :: "route \<Rightarrow> scope \<Rightarrow> outcome res" where
  "route_handle rt sc =
     rbind (method_refused rt sc) (\<lambda>refused.
       Inr (if refused then
              (let hs = [(S ''Allow'', join (S '', '') (get_or (rt_methods rt) []))] in
               if sc_app sc then OHttpException 405 hs else OPlain (S ''Method Not Allowed'') 405 hs)
            else OCall (rt_endpoint rt) sc))"

definition not_found :: "scope \<Rightarrow> outcome" where
  "not_found sc =
     (if sc_type sc = S ''websocket'' then OClose 1000 []
      else if sc_app sc then OHttpException 404 [] else OPlain (S ''Not Found'') 404 [])"

fun any_match :: "node list \<Rightarrow> scope \<Rightarrow> bool res" where
  "any_match [] sc = Inr False"
| "any_match (n # ns) sc = rbind (node_matches n sc) (\<lambda>(m, ch). if m \<noteq> M_None then Inr True else any_match ns sc)"

definition slash_scope :: "scope \<Rightarrow> str \<Rightarrow> scope" where
  "slash_scope sc rp =
     sc\<lparr>sc_path := map_option (\<lambda>p. if endswith rp (S ''/'') then rstrip 47 p else p @ S ''/'') (sc_path sc)\<rparr>"

text \<open>No route matched: redirect to the path with the final slash toggled, or the default.\<close>

definition unmatched :: "node list \<Rightarrow> bool \<Rightarrow> nat option \<Rightarrow> scope \<Rightarrow> outcome res" where
  "unmatched rs redirect dflt sc =
     (let default = (case dflt of None \<Rightarrow> not_found sc | Some a \<Rightarrow> OCall a sc) in
      rbind (get_route_path sc) (\<lambda>rp.
        if sc_type sc = S ''http'' \<and> redirect \<and> rp \<noteq> S ''/'' then
          rbind (any_match rs (slash_scope sc rp)) (\<lambda>hit.
            if hit then rbind (url_of_scope (slash_scope sc rp)) (\<lambda>u. Inr (ORedirect (url_str u)))
            else Inr default)
        else Inr default))"

fun router_app :: "router \<Rightarrow> scope \<Rightarrow> outcome res"
  and route_loop :: "node list \<Rightarrow> node list \<Rightarrow> bool \<Rightarrow> nat option \<Rightarrow> scope \<Rightarrow> (node \<times> child) option \<Rightarrow> outcome res"
  and node_handle :: "node \<Rightarrow> scope \<Rightarrow> outcome res" where
  "router_app (Router rs redirect dflt) sc =
     (if sc_type sc \<noteq> S ''http'' \<and> sc_type sc \<noteq> S ''websocket'' \<and> sc_type sc \<noteq> S ''lifespan''
      then Inl (AssertionError [])
      else if sc_type sc = S ''lifespan'' then Inr OLifespan
      else route_loop rs rs redirect dflt sc None)"
| "route_loop [] rs redirect dflt sc partial =
     (case partial of
        Some (NRoute rt, ch) \<Rightarrow> route_handle rt (apply_child ch sc)
      | _ \<Rightarrow> unmatched rs redirect dflt sc)"
| "route_loop (n # ns) rs redirect dflt sc partial =
     rbind (node_matches n sc) (\<lambda>(m, ch).
       case m of
         M_Full \<Rightarrow> node_handle n (apply_child ch sc)
       | M_Partial \<Rightarrow>
           route_loop ns rs redirect dflt sc (case partial of None \<Rightarrow> Some (n, ch) | Some p \<Rightarrow> Some p)
       | M_None \<Rightarrow> route_loop ns rs redirect dflt sc partial)"
| "node_handle (NRoute rt) sc = route_handle rt sc"
| "node_handle (NWebSocket rt) sc = Inr (OCall (ws_endpoint rt) sc)"
| "node_handle (NMount mt None) sc = Inr (OCall (mt_app mt) sc)"
| "node_handle (NMount mt (Some r)) sc = router_app r sc"

text \<open>A route used as an application on its own (\<open>BaseRoute.__call__\<close>).\<close>

definition base_route_call :: "node \<Rightarrow> scope \<Rightarrow> outcome option res" where
  "base_route_call n sc =
     rbind (node_matches n sc) (\<lambda>(m, ch).
       if m = M_None then
         Inr (if sc_type sc = S ''http'' then Some (OPlain (S ''Not Found'') 404 [])
              else if sc_type sc = S ''websocket'' then Some (OClose 1000 []) else None)
       else rbind (node_handle n (apply_child ch sc)) (\<lambda>out. Inr (Some out)))"

text \<open>
  Reverse URLs through the tree. A mount answers for its own name with the remaining path, or
  delegates a name with its prefix to the routes below; \<open>NoMatchFound\<close> moves on to the next
  route, any other exception ends the search.
\<close>

definition mount_own_url :: "mount \<Rightarrow> str \<Rightarrow> (str, pval) dict \<Rightarrow> url_path res" where
  "mount_own_url mt name params =
     (case map_of params (S ''path'') of
        Some (PStr p) \<Rightarrow>
          (let params' = dict_set (S ''path'') (PStr (lstrip 47 p)) params in
           rbind (replace_params (cp_format (mt_compiled mt)) (cp_convs (mt_compiled mt)) params' params')
             (\<lambda>(path, rest). if rest = [] then url_path_init path [] [] else Inl (NoMatchFound name)))
      | _ \<Rightarrow> Inl (AttributeError (S ''lstrip'')))"

definition mount_child_params :: "mount \<Rightarrow> (str, pval) dict \<Rightarrow> (str \<times> (str, pval) dict) res" where
  "mount_child_params mt params =
     (let params' = dict_set (S ''path'') (PStr []) params in
      rbind (replace_params (cp_format (mt_compiled mt)) (cp_convs (mt_compiled mt)) params' params')
        (\<lambda>(prefix, rest). Inr (prefix,
           case map_of params (S ''path'') of None \<Rightarrow> rest | Some v \<Rightarrow> dict_set (S ''path'') v rest)))"

definition remaining_name :: "str option \<Rightarrow> str \<Rightarrow> str option" where
  "remaining_name own name =
     (case own of
        None \<Rightarrow> Some name
      | Some o' \<Rightarrow> if startswith name (o' @ S '':'') then Some (drop (length o' + 1) name) else None)"

definition is_no_match :: "exn \<Rightarrow> bool" where
  "is_no_match e = (case e of NoMatchFound n \<Rightarrow> True | _ \<Rightarrow> False)"

fun node_url :: "node \<Rightarrow> str \<Rightarrow> (str, pval) dict \<Rightarrow> url_path res"
  and nodes_url :: "node list \<Rightarrow> str \<Rightarrow> (str, pval) dict \<Rightarrow> url_path res option" where
  "node_url (NRoute rt) name params = route_url_path_for rt name params"
| "node_url (NWebSocket rt) name params = ws_url_path_for rt name params"
| "node_url (NMount mt r) name params =
     (if mt_name mt = Some name \<and> dict_has params (S ''path'') then mount_own_url mt name params
      else case remaining_name (mt_name mt) name of
        None \<Rightarrow> Inl (NoMatchFound name)
      | Some rn \<Rightarrow>
          rbind (mount_child_params mt params) (\<lambda>(prefix, rest).
            case (case r of None \<Rightarrow> None | Some (Router rs redirect dflt) \<Rightarrow> nodes_url rs rn rest) of
              None \<Rightarrow> Inl (NoMatchFound name)
            | Some found \<Rightarrow> rbind found (\<lambda>u.
                url_path_init (rstrip 47 prefix @ up_path u) (up_protocol u) [])))"
| "nodes_url [] name params = None"
| "nodes_url (n # ns) name params =
     (case node_url n name params of
        Inr u \<Rightarrow> Some (Inr u)
      | Inl e \<Rightarrow> if is_no_match e then nodes_url ns name params else Some (Inl e))"

definition router_url_path_for :: "router \<Rightarrow> str \<Rightarrow> (str, pval) dict \<Rightarrow> url_path res" where
  "router_url_path_for r name params =
     (case r of Router rs redirect dflt \<Rightarrow>
        (case nodes_url rs name params of None \<Rightarrow> Inl (NoMatchFound name) | Some x \<Rightarrow> x))"

definition router_mount :: "(str, convertor) dict \<Rightarrow> str \<Rightarrow> nat \<Rightarrow> router option \<Rightarrow> str option \<Rightarrow> router \<Rightarrow> router res" where
  "router_mount tab path app sub name r =
     (case r of Router rs redirect dflt \<Rightarrow>
        rbind (mount_init tab path app name) (\<lambda>mt. Inr (Router (rs @ [NMount mt sub]) redirect dflt)))"

definition add_route ::
  "(str, convertor) dict \<Rightarrow> str \<Rightarrow> nat \<Rightarrow> bool \<Rightarrow> str \<Rightarrow> str list option \<Rightarrow> str option \<Rightarrow> router \<Rightarrow> router res" where
  "add_route tab path endpoint plain dname methods name r =
     (case r of Router rs redirect dflt \<Rightarrow>
        rbind (route_init tab path endpoint plain dname methods name) (\<lambda>rt.
          Inr (Router (rs @ [NRoute rt]) redirect dflt)))"

definition add_websocket_route ::
  "(str, convertor) dict \<Rightarrow> str \<Rightarrow> nat \<Rightarrow> str \<Rightarrow> str option \<Rightarrow> router \<Rightarrow> router res" where
  "add_websocket_route tab path endpoint dname name r =
     (case r of Router rs redirect dflt \<Rightarrow>
        rbind (ws_route_init tab path endpoint dname name) (\<lambda>rt.
          Inr (Router (rs @ [NWebSocket rt]) redirect dflt)))"

subsection \<open>Lifespan\<close>

record 's handlers =
  on_startup :: "('s \<Rightarrow> unit res \<times> 's) list"
  on_shutdown :: "('s \<Rightarrow> unit res \<times> 's) list"

definition add_event_handler :: "str \<Rightarrow> ('s \<Rightarrow> unit res \<times> 's) \<Rightarrow> 's handlers \<Rightarrow> 's handlers res" where
  "add_event_handler event f h =
     rbind (rassert (event = S ''startup'' \<or> event = S ''shutdown'') (AssertionError [])) (\<lambda>_.
     Inr (if event = S ''startup'' then h\<lparr>on_startup := on_startup h @ [f]\<rparr>
          else h\<lparr>on_shutdown := on_shutdown h @ [f]\<rparr>))"

text \<open>Handlers run in order on the application's state, up to the first that raises.\<close>

fun run_handlers :: "('s \<Rightarrow> unit res \<times> 's) list \<Rightarrow> 's \<Rightarrow> unit res \<times> 's" where
  "run_handlers [] s = (Inr (), s)"
| "run_handlers (f # fs) s =
     (case f s of (Inl e, s') \<Rightarrow> (Inl e, s') | (Inr _, s') \<Rightarrow> run_handlers fs s')"

text \<open>
  An asynchronous context manager: entering yields the lifespan state or nothing, leaving is
  told the exception in flight and says whether it swallows it.
\<close>

record 's context_manager =
  cm_enter :: "'s \<Rightarrow> bool res \<times> 's"
  cm_exit :: "exn option \<Rightarrow> 's \<Rightarrow> bool res \<times> 's"

definition default_lifespan :: "'s handlers \<Rightarrow> 's context_manager" where
  "default_lifespan h =
     \<lparr>cm_enter = (\<lambda>s. case run_handlers (on_startup h) s of (r, s') \<Rightarrow> (rbind r (\<lambda>_. Inr False), s')),
      cm_exit = (\<lambda>e s. case run_handlers (on_shutdown h) s of (r, s') \<Rightarrow> (rbind r (\<lambda>_. Inr False), s'))\<rparr>"

datatype lifespan_message = StartupComplete | StartupFailed | ShutdownComplete | ShutdownFailed

text \<open>
  The lifespan call, after its first \<open>receive\<close>: \<open>has_state\<close> says that the server offers a state,
  \<open>second\<close> is the exception of the second \<open>receive\<close>, if any. The result is what was sent, the
  exception raised and the final state of the application.
\<close>

definition leave_context :: "'s context_manager \<Rightarrow> exn option \<Rightarrow> 's \<Rightarrow> exn option \<times> 's" where
  "leave_context cm e s =
     (case cm_exit cm e s of
        (Inl e', s') \<Rightarrow> (Some e', s')
      | (Inr swallow, s') \<Rightarrow> (if swallow then None else e, s'))"

definition lifespan_call ::
  "'s context_manager \<Rightarrow> bool \<Rightarrow> exn option \<Rightarrow> 's \<Rightarrow> lifespan_message list \<times> exn option \<times> 's" where
  "lifespan_call cm has_state second s =
     (case cm_enter cm s of
        (Inl e, s1) \<Rightarrow> ([StartupFailed], Some e, s1)
      | (Inr gives_state, s1) \<Rightarrow>
          if gives_state \<and> \<not> has_state then
            (case leave_context cm (Some (RuntimeError (S ''The server does not support state''))) s1 of
               (Some e, s2) \<Rightarrow> ([StartupFailed], Some e, s2)
             | (None, s2) \<Rightarrow> ([ShutdownComplete], None, s2))
          else
            (case leave_context cm second s1 of
               (Some e, s2) \<Rightarrow> ([StartupComplete, ShutdownFailed], Some e, s2)
             | (None, s2) \<Rightarrow> ([StartupComplete, ShutdownComplete], None, s2)))"

subsection \<open>The contract of a convertor\<close>

text \<open>
  Printing a valid value gives a text the convertor's expression accepts and that converts
  back to the value.
\<close>

locale convertor_law =
  fixes cv :: convertor and valid :: "pval \<Rightarrow> bool"
  assumes printable: "valid v \<Longrightarrow>
    \<exists>s. cv_to_string cv v = Inr s \<and> cv_accepts cv s \<and> cv_convert cv s = Inr v"
begin

lemma print_convert: "valid v \<Longrightarrow> cv_to_string cv v = Inr s \<Longrightarrow> cv_accepts cv s \<and> cv_convert cv s = Inr v"
  using printable [of v] by auto

lemma print_inject: "valid v \<Longrightarrow> valid w \<Longrightarrow> cv_to_string cv v = cv_to_string cv w \<Longrightarrow> v = w"
  using printable [of v] printable [of w] by auto

end

text \<open>Convertors whose texts never contain a slash delimit one path segment.\<close>

definition slash_free :: "convertor \<Rightarrow> bool" where
  "slash_free cv \<longleftrightarrow> (\<forall>s. cv_accepts cv s \<longrightarrow> 47 \<notin> set s)"

lemma hex_char_props: "d < 16 \<Longrightarrow> is_hex (hex_char d) \<and> hex_value (hex_char d) = d \<and> hex_char d \<noteq> 45"
  by (auto simp: hex_char_def is_hex_def hex_value_def is_digit_def)

lemma hex_digits_props:
  "length (hex_digits k n) = k" "list_all is_hex (hex_digits k n)" "45 \<notin> set (hex_digits k n)"
  by (induction k arbitrary: n) (use hex_char_props [of "_ mod 16"] in \<open>auto\<close>)

lemma unhex_snoc: "unhex (s @ [c]) = 16 * unhex s + hex_value c"
  by (simp add: unhex_def)

lemma unhex_hex_digits: "n < 16 ^ k \<Longrightarrow> unhex (hex_digits k n) = n"
proof (induction k arbitrary: n)
  case 0
  then show ?case by (simp add: unhex_def)
next
  case (Suc k)
  then have "n div 16 < 16 ^ k" by (simp add: less_mult_imp_div_less mult.commute)
  with Suc.IH show ?case using hex_char_props [of "n mod 16"] by (simp add: unhex_snoc)
qed

text \<open>The five groups of a UUID text.\<close>

lemma uuid_groups:
  obtains a b c d e where "uuid_str n = a @ 45 # b @ 45 # c @ 45 # d @ 45 # e"
    "hex_digits 32 n = a @ b @ c @ d @ e"
    "length a = 8" "length b = 4" "length c = 4" "length d = 4" "length e = 12"
proof -
  define h where "h = hex_digits 32 n"
  have len: "length h = 32" by (simp add: h_def hex_digits_props)
  have parts: "take 8 h @ take 4 (drop 8 h) @ take 4 (drop 12 h) @ take 4 (drop 16 h) @ drop 20 h = h"
    using append_take_drop_id [of 8 h] append_take_drop_id [of 4 "drop 8 h"]
      append_take_drop_id [of 4 "drop 12 h"] append_take_drop_id [of 4 "drop 16 h"] by simp
  show ?thesis
  proof (rule that)
    show "uuid_str n = take 8 h @ 45 # take 4 (drop 8 h) @ 45 # take 4 (drop 12 h) @ 45 # take 4 (drop 16 h) @ 45 # drop 20 h"
      by (simp add: uuid_str_def Let_def h_def [symmetric] S_def)
    show "hex_digits 32 n = take 8 h @ take 4 (drop 8 h) @ take 4 (drop 12 h) @ take 4 (drop 16 h) @ drop 20 h"
      using parts by (simp only: h_def)
  qed (simp_all add: len)
qed

lemma hex_groups_step:
  "length a = n \<Longrightarrow> list_all is_hex a \<Longrightarrow> ns \<noteq> [] \<Longrightarrow> hex_groups ns r \<Longrightarrow> hex_groups (n # ns) (a @ 45 # r)"
  by simp

lemma uuid_str_law: "n < 16 ^ 32 \<Longrightarrow> hex_groups [8, 4, 4, 4, 12] (uuid_str n) \<and> uuid_convert (uuid_str n) = Inr (PUuid n)"
proof -
  assume n: "n < 16 ^ 32"
  obtain a b c d e where g: "uuid_str n = a @ 45 # b @ 45 # c @ 45 # d @ 45 # e"
    "hex_digits 32 n = a @ b @ c @ d @ e"
    "length a = 8" "length b = 4" "length c = 4" "length d = 4" "length e = 12" by (rule uuid_groups)
  have x: "list_all is_hex (a @ b @ c @ d @ e)" and nh: "45 \<notin> set (a @ b @ c @ d @ e)"
    using hex_digits_props [of 32 n] g(2) by simp_all
  have "hex_groups [8, 4, 4, 4, 12] (uuid_str n)"
    unfolding g(1) using g(3-) x by (intro hex_groups_step) simp_all
  moreover have "filter (\<lambda>c. c \<noteq> 45) (uuid_str n) = hex_digits 32 n"
  proof -
    have keep: "filter (\<lambda>c. c \<noteq> 45) s = s" if "45 \<notin> set s" for s :: str
      using that by (induction s) auto
    show ?thesis unfolding g(1,2) using nh by (simp add: keep)
  qed
  ultimately show ?thesis
    using hex_digits_props [of 32 n] unhex_hex_digits [OF n] by (simp add: uuid_convert_def del: hex_groups.simps)
qed

interpretation str_cv: convertor_law str_convertor "\<lambda>v. \<exists>s. v = PStr s \<and> s \<noteq> [] \<and> 47 \<notin> set s"
  by unfold_locales (auto simp: str_convertor_def py_str_def rassert_def)

interpretation int_cv: convertor_law int_convertor "\<lambda>v. \<exists>i. v = PInt i \<and> 0 \<le> i"
proof unfold_locales
  fix v assume "\<exists>i. v = PInt i \<and> 0 \<le> i"
  then obtain i where i: "v = PInt i" "0 \<le> i" by blast
  then have "cv_to_string int_convertor v = Inr (dec (nat i))"
    by (simp add: int_convertor_def to_int_def rassert_def int_str_def)
  moreover have "cv_accepts int_convertor (dec (nat i))"
    using dec_digits by (simp add: int_convertor_def list_all_iff)
  moreover have "cv_convert int_convertor (dec (nat i)) = Inr v"
    using i by (simp add: int_convertor_def)
  ultimately show "\<exists>s. cv_to_string int_convertor v = Inr s \<and> cv_accepts int_convertor s
      \<and> cv_convert int_convertor s = Inr v" by blast
qed

interpretation path_cv: convertor_law path_convertor "\<lambda>v. \<exists>s. v = PStr s \<and> 10 \<notin> set s"
  by unfold_locales (auto simp: path_convertor_def py_str_def)

interpretation uuid_cv: convertor_law uuid_convertor "\<lambda>v. \<exists>n. v = PUuid n \<and> n < 16 ^ 32"
  by unfold_locales (use uuid_str_law in \<open>auto simp: uuid_convertor_def py_str_def simp del: hex_groups.simps\<close>)

lemma slash_free_convertors: "slash_free str_convertor" "slash_free int_convertor"
  by (auto simp: slash_free_def str_convertor_def int_convertor_def list_all_iff is_digit_def)

subsection \<open>Rendering and matching a compiled path\<close>

text \<open>The format of a path, with the texts of some parameters filled in.\<close>

fun fill_path :: "seg list \<Rightarrow> (str \<rightharpoonup> str) \<Rightarrow> str" where
  "fill_path [] f = []"
| "fill_path (Lit l # segs) f = l @ fill_path segs f"
| "fill_path (Par n cv # segs) f = (case f n of None \<Rightarrow> braces n | Some v \<Rightarrow> v) @ fill_path segs f"

fun pars :: "seg list \<Rightarrow> (str, convertor) dict" where
  "pars [] = []"
| "pars (Lit l # segs) = pars segs"
| "pars (Par n cv # segs) = (n, cv) # pars segs"

fun plain_literals :: "seg list \<Rightarrow> bool" where
  "plain_literals [] = True"
| "plain_literals (Lit l # segs) = (123 \<notin> set l \<and> plain_literals segs)"
| "plain_literals (Par n cv # segs) = plain_literals segs"

fun separated :: "seg list \<Rightarrow> bool" where
  "separated [] = True"
| "separated (Lit l # segs) = separated segs"
| "separated (Par n cv # segs) =
     ((case segs of Lit l # r \<Rightarrow> l = [] \<and> r = [] \<or> slash_free cv \<and> l \<noteq> [] \<and> hd l = 47 | _ \<Rightarrow> False)
      \<and> separated segs)"

lemma pars_append [simp]: "pars (a @ b) = pars a @ pars b"
  by (induction a rule: pars.induct) auto

lemma render_append [simp]: "fill_path (a @ b) f = fill_path a f @ fill_path b f"
  by (induction a f rule: fill_path.induct) auto

lemma first_some_greatest:
  assumes "f k = Some y" and "\<And>j. k < j \<Longrightarrow> j \<le> n \<Longrightarrow> f j = None" and "k \<le> n"
  shows "first_some f (rev [0..<Suc n]) = Some y"
  using assms
proof (induction n)
  case 0
  then show ?case by simp
next
  case (Suc n)
  show ?case
  proof (cases "k = Suc n")
    case True
    then show ?thesis using Suc.prems(1) by simp
  next
    case False
    then have "f (Suc n) = None" using Suc.prems by simp
    moreover have "first_some f (rev [0..<Suc n]) = Some y" using Suc False by simp
    ultimately show ?thesis by simp
  qed
qed

lemma match_render:
  assumes "separated segs" and "\<forall>(n, cv) \<in> set (pars segs). \<exists>v. f n = Some v \<and> cv_accepts cv v"
  shows "match_segs segs (fill_path segs f) = Some (map (\<lambda>(n, cv). (n, the (f n))) (pars segs))"
  using assms
proof (induction segs rule: separated.induct)
  case (3 n cv segs)
  from 3(3) obtain v where v: "f n = Some v" "cv_accepts cv v" by auto
  have IH: "match_segs segs (fill_path segs f) = Some (map (\<lambda>(n, cv). (n, the (f n))) (pars segs))"
    using 3 by auto
  let ?s = "v @ fill_path segs f"
  let ?f = "\<lambda>k. if cv_accepts cv (take k ?s)
      then map_option (\<lambda>m. (n, take k ?s) # m) (match_segs segs (drop k ?s)) else None"
  have "?f j = None" if j: "length v < j" "j \<le> length ?s" for j
  proof -
    from 3(2) j obtain l r where "segs = Lit l # r" "slash_free cv" "l \<noteq> []" "hd l = 47"
      by (auto split: list.splits seg.splits)
    then obtain l' where "?s = v @ 47 # l' @ fill_path r f" by (cases l) auto
    then have "47 \<in> set (take j ?s)" using j by (cases "j - length v") auto
    then show ?thesis using \<open>slash_free cv\<close> by (auto simp: slash_free_def)
  qed
  then have "first_some ?f (rev [0..<Suc (length ?s)]) = Some ((n, v) # map (\<lambda>(n, cv). (n, the (f n))) (pars segs))"
    using v IH by (intro first_some_greatest [of ?f "length v"]) simp_all
  then show ?case using v by simp
qed auto

lemma braces_Cons: "braces k = 123 # k @ [125]"
  by (simp add: braces_def S_def)

text \<open>Textual replacement skips what contains no opening brace, and other placeholders.\<close>

lemma replace_skip: "123 \<notin> set l \<Longrightarrow> replace (l @ r) (braces k) v = l @ replace r (braces k) v"
proof (induction l)
  case (Cons c l)
  then show ?case by (subst replace.simps) (simp add: braces_Cons)
qed simp

lemma replace_hit: "replace (braces k @ r) (braces k) v = v @ replace r (braces k) v"
proof -
  have "startswith (braces k @ r) (braces k)" by simp
  moreover have "drop (length (braces k)) (braces k @ r) = r" by simp
  ultimately show ?thesis by (subst replace.simps) (simp add: braces_Cons del: startswith_Cons)
qed

lemma replace_other:
  assumes "n \<noteq> k" and "123 \<notin> set n" and "125 \<notin> set n" and "125 \<notin> set k"
  shows "replace (braces n @ r) (braces k) v = braces n @ replace r (braces k) v"
proof -
  have "\<not> startswith (n @ 125 # r) (k @ [125])"
  proof
    assume "startswith (n @ 125 # r) (k @ [125])"
    then obtain r' where "n @ 125 # r = k @ 125 # r'" by (auto simp: startswith_iff)
    then have "split_once 125 (n @ 125 # r) = split_once 125 (k @ 125 # r')" by simp
    with assms show False by (simp add: split_once_sep)
  qed
  then have "replace (braces n @ r) (braces k) v = 123 # replace ((n @ [125]) @ r) (braces k) v"
    by (subst replace.simps) (simp add: braces_Cons)
  also have "replace ((n @ [125]) @ r) (braces k) v = (n @ [125]) @ replace r (braces k) v"
    using assms(2) by (intro replace_skip) simp
  finally show ?thesis by (simp add: braces_Cons)
qed

definition name_ok :: "str \<Rightarrow> bool" where
  "name_ok n \<longleftrightarrow> 123 \<notin> set n \<and> 125 \<notin> set n"

lemma replace_Nil [simp]: "replace [] old new = []"
  by (subst replace.simps) simp

lemma replace_render:
  assumes "plain_literals segs" and "\<forall>n\<in>fst ` set (pars segs). name_ok n" and "name_ok k"
    and "\<forall>n v. f n = Some v \<longrightarrow> 123 \<notin> set v" and "f k = None"
    and g: "g k = Some v" "\<And>n. n \<noteq> k \<Longrightarrow> g n = f n"
  shows "replace (fill_path segs f) (braces k) v = fill_path segs g"
  using assms(1,2)
proof (induction segs rule: pars.induct)
  case (2 l segs)
  then show ?case using replace_skip by simp
next
  case (3 n cv segs)
  then have IH: "replace (fill_path segs f) (braces k) v = fill_path segs g" by simp
  show ?case
  proof (cases "f n")
    case None
    then show ?thesis
      using replace_hit [of k "fill_path segs f" v] replace_other [of n k "fill_path segs f" v] 3(3) assms(3) IH g
      by (cases "n = k") (simp_all add: name_ok_def)
  next
    case (Some w)
    then have "n \<noteq> k" "123 \<notin> set w" using assms(4,5) by auto
    then show ?thesis using replace_skip [of w "fill_path segs f" k v] Some IH g by simp
  qed
qed simp

lemma contains_placeholder:
  assumes "k \<in> fst ` set (pars segs)" and "f k = None"
  shows "contains (fill_path segs f) (braces k)"
proof -
  have "\<exists>a b. fill_path segs f = a @ braces k @ b"
    using assms
  proof (induction segs rule: pars.induct)
    case (2 l segs)
    then obtain a b where "fill_path segs f = a @ braces k @ b" by auto
    then show ?case by (intro exI [of _ "l @ a"] exI [of _ b]) simp
  next
    case (3 n cv segs)
    show ?case
    proof (cases "n = k")
      case True
      with 3(3) show ?thesis by (intro exI [of _ "[]"] exI [of _ "fill_path segs f"]) simp
    next
      case False
      with 3 obtain a b where "fill_path segs f = a @ braces k @ b" by auto
      then show ?thesis
        by (intro exI [of _ "(case f n of None \<Rightarrow> braces n | Some v \<Rightarrow> v) @ a"] exI [of _ b]) simp
    qed
  qed auto
  then show ?thesis by (simp add: contains_iff)
qed

lemma dict_del_keys: "set (map fst (dict_del k d)) = set (map fst d) - {k}"
  by (auto simp: dict_del_def delete_keys)

text \<open>Replacing all parameters of a plain format fills it.\<close>

lemma replace_params_fill:
  assumes "plain_literals segs" and "\<forall>n\<in>fst ` set (pars segs). name_ok n"
    and "\<forall>(k, v)\<in>set ps. k \<in> fst ` set (pars segs) \<and> (\<exists>cv s. map_of convs k = Some cv
            \<and> cv_to_string cv v = Inr s \<and> g k = Some s \<and> 123 \<notin> set s)"
    and "distinct (map fst ps)" and "\<forall>k\<in>fst ` set ps. f k = None" and "\<forall>n v. f n = Some v \<longrightarrow> 123 \<notin> set v"
  shows "\<exists>rest'. replace_params (fill_path segs f) convs ps rest =
     Inr (fill_path segs (\<lambda>n. if n \<in> fst ` set ps then g n else f n), rest')
     \<and> set (map fst rest') = set (map fst rest) - fst ` set ps"
  using assms(3-)
proof (induction ps arbitrary: f rest)
  case Nil
  then show ?case by simp
next
  case (Cons p ps)
  obtain k v where p: "p = (k, v)" by (cases p)
  from Cons.prems(1) p obtain cv s where k: "k \<in> fst ` set (pars segs)" "map_of convs k = Some cv"
    "cv_to_string cv v = Inr s" "g k = Some s" "123 \<notin> set s" by auto
  have fk: "f k = None" and kd: "k \<notin> fst ` set ps" using Cons.prems p by auto
  define h where "h = f(k \<mapsto> s)"
  have h: "h k = Some s" "\<And>n. n \<noteq> k \<Longrightarrow> h n = f n" by (simp_all add: h_def)
  have nk: "name_ok k" using assms(2) k(1) by blast
  have hv: "\<forall>n v. h n = Some v \<longrightarrow> 123 \<notin> set v" using Cons.prems(4) k(5) by (simp add: h_def)
  have hn: "\<forall>k\<in>fst ` set ps. h k = None" using Cons.prems(3) kd by (auto simp: h_def p)
  have step: "replace_params (fill_path segs f) convs (p # ps) rest =
      replace_params (fill_path segs h) convs ps (dict_del k rest)"
    using k contains_placeholder [of k segs f, OF k(1) fk]
      replace_render [of segs k f h, OF assms(1,2) nk Cons.prems(4) fk h] p by simp
  have ps: "\<forall>(k, v)\<in>set ps. k \<in> fst ` set (pars segs) \<and> (\<exists>cv s. map_of convs k = Some cv
            \<and> cv_to_string cv v = Inr s \<and> g k = Some s \<and> 123 \<notin> set s)"
    using Cons.prems(1) by simp
  have ds: "distinct (map fst ps)" using Cons.prems(2) by simp
  from Cons.IH [OF ps ds hn hv] obtain rest' where
    r: "replace_params (fill_path segs h) convs ps (dict_del k rest) =
     Inr (fill_path segs (\<lambda>n. if n \<in> fst ` set ps then g n else h n), rest')"
     "set (map fst rest') = set (map fst (dict_del k rest)) - fst ` set ps" by blast
  have same: "(\<lambda>n. if n \<in> fst ` set ps then g n else h n) = (\<lambda>n. if n \<in> fst ` set (p # ps) then g n else f n)"
    using k(4) by (auto simp: p h_def)
  have "set (map fst rest') = set (map fst rest) - fst ` set (p # ps)"
    using r(2) unfolding dict_del_keys by (auto simp: p)
  with r(1) show ?case unfolding step same by blast
qed

subsection \<open>What compilation establishes\<close>

lemma ident_prefix_ok: "ident_prefix s = Some (a, b) \<Longrightarrow> name_ok a"
  by (auto simp: ident_prefix_def name_ok_def ident_char_def ident_start_def is_alpha_def is_digit_def
      dest!: set_takeWhileD split: if_splits)

lemma param_at_name: "param_at s = Some (n, t, r) \<Longrightarrow> name_ok n"
  by (auto simp: param_at_def split: if_splits option.splits) (rule ident_prefix_ok, assumption)+

lemma scan_path_names: "(lit', n, ty) \<in> set (fst (scan_path s lit)) \<Longrightarrow> name_ok n"
proof (induction s lit rule: scan_path.induct)
  case (1 s lit)
  show ?case
  proof (cases "s = [] \<or> param_at s = None")
    case True
    then show ?thesis using 1(1,3) by (auto simp: scan_path.simps [of s lit] split: if_splits)
  next
    case False
    then obtain m t r where p: "param_at s = Some (m, t, r)" "s \<noteq> []" by auto
    then show ?thesis
      using 1(2,3) param_at_name [OF p(1)] by (auto simp: scan_path.simps [of s lit] split_def Let_def)
  qed
qed

definition compiled_ok :: "compiled \<Rightarrow> bool" where
  "compiled_ok c \<longleftrightarrow> cp_format c = fill_path (cp_segs c) Map.empty \<and> cp_convs c = pars (cp_segs c)
     \<and> distinct (map fst (pars (cp_segs c))) \<and> (\<forall>n\<in>fst ` set (pars (cp_segs c)). name_ok n)"

lemma dict_set_fresh: "\<not> dict_has d k \<Longrightarrow> dict_set k v d = d @ [(k, v)]"
  unfolding dict_set_def dict_has_def by (induction d) auto

lemma compile_loop_ok:
  assumes "compile_loop tab ps c dup = Inr (c', False)" and "compiled_ok c"
    and "\<forall>(l, n, ty)\<in>set ps. name_ok n"
  shows "compiled_ok c'"
  using assms
proof (induction tab ps c dup rule: compile_loop.induct)
  case (1 tab c dup)
  then show ?case by simp
next
  case (2 tab lit n ty ps c dup)
  have mono: "d = False" if "compile_loop tab ps c1 d = Inr (c2, False)" for ps c1 d c2
    using that by (induction tab ps c1 d rule: compile_loop.induct) (auto split: option.splits)
  from 2(2) obtain cv where cv: "map_of tab ty = Some cv" by (auto split: option.splits)
  let ?c = "\<lparr>cp_segs = cp_segs c @ [Lit lit, Par n cv], cp_format = cp_format c @ lit @ braces n,
             cp_convs = dict_set n cv (cp_convs c)\<rparr>"
  have run: "compile_loop tab ps ?c (dup \<or> dict_has (cp_convs c) n) = Inr (c', False)" using 2(2) cv by simp
  with mono have fresh: "\<not> dict_has (cp_convs c) n" by blast
  have "compiled_ok ?c"
    using 2(3,4) fresh by (auto simp: compiled_ok_def dict_set_fresh dict_has_def)
  with 2 cv run show ?case by auto
qed

lemma compile_path_ok:
  assumes "compile_path tab path = Inr c" and "startswith path (S ''/'')"
  shows "compiled_ok c"
proof -
  obtain ps fin where sp: "scan_path path [] = (ps, fin)" by fastforce
  have names: "\<forall>(l, n, ty)\<in>set ps. name_ok n"
    using scan_path_names [of _ _ _ path "[]"] sp by auto
  from assms sp obtain c0 where c0: "compile_loop tab ps \<lparr>cp_segs = [], cp_format = [], cp_convs = []\<rparr> False = Inr (c0, False)"
    and c: "c = \<lparr>cp_segs = cp_segs c0 @ [Lit fin], cp_format = cp_format c0 @ fin, cp_convs = cp_convs c0\<rparr>"
    by (auto simp: compile_path_def split: if_splits)
  have "compiled_ok c0"
    by (rule compile_loop_ok [OF c0 _ names]) (simp add: compiled_ok_def)
  with c show ?thesis by (simp add: compiled_ok_def)
qed

text \<open>A parameter value a route can print and read back.\<close>

definition param_ok :: "compiled \<Rightarrow> str \<times> pval \<Rightarrow> bool" where
  "param_ok c p \<longleftrightarrow> (\<exists>cv s. map_of (cp_convs c) (fst p) = Some cv \<and> cv_to_string cv (snd p) = Inr s
     \<and> cv_accepts cv s \<and> cv_convert cv s = Inr (snd p) \<and> 123 \<notin> set s)"

lemma compiled_url_match:
  assumes "compiled_ok c" and "separated (cp_segs c)" and "plain_literals (cp_segs c)"
    and "dict_wf params" and "same_keys params (cp_convs c)" and "\<forall>p\<in>set params. param_ok c p"
  shows "\<exists>path m ps. replace_params (cp_format c) (cp_convs c) params params = Inr (path, [])
     \<and> match_segs (cp_segs c) path = Some m \<and> convert_params (cp_convs c) m = Inr ps
     \<and> dict_wf ps \<and> map_of ps = map_of params"
proof -
  let ?segs = "cp_segs c"
  define g where "g k = (case map_of params k of None \<Rightarrow> None
      | Some v \<Rightarrow> (case map_of (cp_convs c) k of None \<Rightarrow> None
      | Some cv \<Rightarrow> (case cv_to_string cv v of Inl _ \<Rightarrow> None | Inr s \<Rightarrow> Some s)))" for k
  have convs: "cp_convs c = pars ?segs" and names: "\<forall>n\<in>fst ` set (pars ?segs). name_ok n"
    and fmt: "cp_format c = fill_path ?segs Map.empty" and dist: "distinct (map fst (pars ?segs))"
    using assms(1) by (auto simp: compiled_ok_def)
  have keys: "fst ` set params = fst ` set (pars ?segs)" using assms(5) convs by (auto simp: same_keys_def)
  have look: "map_of params k = Some v" if "(k, v) \<in> set params" for k v
    using assms(4) that by (simp add: dict_wf_def)
  have gk: "\<exists>cv s. map_of (cp_convs c) k = Some cv \<and> cv_to_string cv v = Inr s \<and> g k = Some s
      \<and> 123 \<notin> set s \<and> cv_accepts cv s \<and> cv_convert cv s = Inr v" if "(k, v) \<in> set params" for k v
    using assms(6) that look [OF that] by (fastforce simp: param_ok_def g_def)
  have "\<exists>rest'. replace_params (fill_path ?segs Map.empty) (cp_convs c) params params =
     Inr (fill_path ?segs (\<lambda>n. if n \<in> fst ` set params then g n else None), rest')
     \<and> set (map fst rest') = set (map fst params) - fst ` set params"
  proof (rule replace_params_fill [OF assms(3) names])
    show "\<forall>(k, v)\<in>set params. k \<in> fst ` set (pars ?segs) \<and> (\<exists>cv s. map_of (cp_convs c) k = Some cv
            \<and> cv_to_string cv v = Inr s \<and> g k = Some s \<and> 123 \<notin> set s)"
    proof clarify
      fix k v assume kv: "(k, v) \<in> set params"
      then have "k \<in> fst ` set (pars ?segs)" using keys by force
      then show "k \<in> fst ` set (pars ?segs) \<and> (\<exists>cv s. map_of (cp_convs c) k = Some cv
            \<and> cv_to_string cv v = Inr s \<and> g k = Some s \<and> 123 \<notin> set s)" using gk [OF kv] by blast
    qed
    show "distinct (map fst params)" using assms(4) by (simp add: dict_wf_def)
  qed simp_all
  moreover have "(\<lambda>n. if n \<in> fst ` set params then g n else None) = g"
  proof
    show "(if n \<in> fst ` set params then g n else None) = g n" for n
      using map_of_eq_None_iff [of params n] by (auto simp: g_def)
  qed
  ultimately have rep: "replace_params (cp_format c) (cp_convs c) params params = Inr (fill_path ?segs g, [])"
    using fmt by auto
  have pv: "\<exists>v s. map_of params n = Some v \<and> g n = Some s \<and> cv_accepts cv s \<and> cv_convert cv s = Inr v
      \<and> map_of (cp_convs c) n = Some cv" if "(n, cv) \<in> set (pars ?segs)" for n cv
  proof -
    have "n \<in> fst ` set params" using keys that by force
    then obtain v where v: "(n, v) \<in> set params" by force
    have "map_of (cp_convs c) n = Some cv" using that dist convs by simp
    with gk [OF v] look [OF v] show ?thesis by auto
  qed
  let ?m = "map (\<lambda>(n, cv). (n, the (g n))) (pars ?segs)"
  let ?ps = "map (\<lambda>(n, cv). (n, the (map_of params n))) (pars ?segs)"
  have match: "match_segs ?segs (fill_path ?segs g) = Some ?m"
    using assms(2) pv by (intro match_render) fastforce+
  have "rmap (\<lambda>(k, v). case map_of (cp_convs c) k of None \<Rightarrow> Inl (KeyError k)
         | Some cv \<Rightarrow> rbind (cv_convert cv v) (\<lambda>x. Inr (k, x))) ?m = Inr ?ps"
    unfolding rmap_Inr_iff by (auto simp: list_all2_map1 list_all2_map2 intro!: list.rel_refl_strong dest!: pv)
  then have conv: "convert_params (cp_convs c) ?m = Inr ?ps" by (simp add: convert_params_def)
  have wf: "dict_wf ?ps" using dist by (simp add: dict_wf_def split_def comp_def)
  have "map_of ?ps k = map_of params k" for k
  proof (cases "k \<in> fst ` set (pars ?segs)")
    case True
    then obtain cv where "(k, cv) \<in> set (pars ?segs)" by force
    from pv [OF this] obtain v where v: "map_of params k = Some v" by blast
    with \<open>(k, cv) \<in> set (pars ?segs)\<close> have "(k, v) \<in> set ?ps" by force
    with wf v show ?thesis by (simp add: dict_wf_def)
  next
    case False
    then have "map_of params k = None" "map_of ?ps k = None" using keys by (force simp: map_of_eq_None_iff)+
    then show ?thesis by simp
  qed
  then have "map_of ?ps = map_of params" ..
  with rep match conv wf show ?thesis by blast
qed

subsection \<open>Properties: reverse URLs\<close>

lemma method_refused_total: "sc_method sc = Some m \<Longrightarrow> \<exists>r. method_refused rt sc = Inr r"
  by (cases "rt_methods rt") (auto simp: method_refused_def)

text \<open>
  C2: a URL built for a route is routed back to it. For a route whose parameters are separated
  by slashes and whose values its convertors can print, \<open>url_path_for\<close> succeeds, and a request
  for the resulting path matches the route and delivers exactly the parameters given.
\<close>

theorem route_url_roundtrip:
  assumes "route_init tab path ep plain dname methods name = Inr rt" and "c = rt_compiled rt"
    and "separated (cp_segs c)" and "plain_literals (cp_segs c)"
    and "dict_wf params" and "same_keys params (cp_convs c)" and "\<forall>p\<in>set params. param_ok c p"
    and "sc_type sc = S ''http''" and "sc_method sc = Some m" and "sc_root_path sc = None" and "sc_path_params sc = None"
  shows "\<exists>u mt ch. route_url_path_for rt (rt_name rt) params = Inr u
     \<and> route_matches rt (sc\<lparr>sc_path := Some (up_path u)\<rparr>) = Inr (mt, ch)
     \<and> mt \<noteq> M_None \<and> ch_endpoint ch = ep \<and> map_of (ch_params ch) = map_of params"
proof -
  have "startswith path (S ''/'')" and comp: "compile_path tab path = Inr c" and ep: "rt_endpoint rt = ep"
    using assms(1,2) by (auto simp: route_init_def)
  then have "compiled_ok c" by (intro compile_path_ok)
  from compiled_url_match [OF this assms(3-7)] obtain url mm ps where
    u: "replace_params (cp_format c) (cp_convs c) params params = Inr (url, [])"
       "match_segs (cp_segs c) url = Some mm" "convert_params (cp_convs c) mm = Inr ps"
       "dict_wf ps" "map_of ps = map_of params" by blast
  let ?u = "\<lparr>up_path = url, up_protocol = S ''http'', up_host = []\<rparr>"
  have "route_url_path_for rt (rt_name rt) params = Inr ?u"
    using u(1) assms(2,6) by (simp add: route_url_path_for_def compiled_url_def url_path_init_def rassert_def)
  moreover obtain refused where "method_refused rt (sc\<lparr>sc_path := Some url\<rparr>) = Inr refused"
    using method_refused_total [of "sc\<lparr>sc_path := Some url\<rparr>" m] assms(9) by auto
  then have "route_matches rt (sc\<lparr>sc_path := Some url\<rparr>) = Inr (if refused then M_Partial else M_Full,
      \<lparr>ch_endpoint = ep, ch_params = dict_update ps [], ch_mount = None\<rparr>)"
    using assms(2,8,10,11) u(2,3) ep by (simp add: route_matches_def get_route_path_def merged_params_def)
  moreover have "map_of (dict_update ps []) = map_of params"
  proof
    have "distinct (map fst (rev ps))" using u(4) by (simp add: dict_wf_def rev_map [symmetric])
    then have "map_of (rev ps) k = map_of ps k" for k
      using u(4) by (metis dict_wf_def map_of_inject_set set_rev)
    then show "map_of (dict_update ps []) k = map_of params k" for k
      using u(5) by (simp add: map_of_dict_update split: option.splits)
  qed
  ultimately show ?thesis by fastforce
qed

text \<open>Compiling a path with one parameter after a plain literal.\<close>

lemma scan_path_skip: "123 \<notin> set l \<Longrightarrow> scan_path (l @ r) acc = scan_path r (acc @ l)"
proof (induction l arbitrary: acc)
  case (Cons c l)
  then have "scan_path ((c # l) @ r) acc = scan_path (l @ r) (acc @ [c])"
    by (subst scan_path.simps) (simp add: param_at_def)
  with Cons show ?case by simp
qed simp

lemma scan_path_Nil: "scan_path [] lit = ([], lit)"
  by (subst scan_path.simps) simp

lemma scan_path_param: "param_at s = Some (n, ty, []) \<Longrightarrow> scan_path s lit = ([(lit, n, ty)], [])"
  by (subst scan_path.simps) (auto simp: scan_path_Nil param_at_def)

lemma param_at_int: "param_at (S ''{id:int}'') = Some (S ''id'', S ''int'', [])"
  and param_at_path: "param_at (S ''{path:path}'') = Some (S ''path'', S ''path'', [])"
  by (simp_all add: param_at_def ident_prefix_def ident_char_def ident_start_def is_alpha_def is_digit_def S_def)

lemma compile_one_param:
  assumes "123 \<notin> set l" and "param_at s = Some (n, ty, [])" and "map_of tab ty = Some cv"
    and "startswith (l @ s) (S ''/'')"
  shows "compile_path tab (l @ s) = Inr \<lparr>cp_segs = [Lit l, Par n cv, Lit []], cp_format = l @ braces n, cp_convs = [(n, cv)]\<rparr>"
  using assms by (simp add: compile_path_def scan_path_skip scan_path_param dict_has_def dict_set_def)

definition item_route :: route where
  "item_route = \<lparr>rt_path = S ''/items/{id:int}'', rt_endpoint = 7, rt_name = S ''item'',
     rt_methods = Some [S ''GET'', S ''HEAD''],
     rt_compiled = \<lparr>cp_segs = [Lit (S ''/items/''), Par (S ''id'') int_convertor, Lit []],
       cp_format = S ''/items/{id}'', cp_convs = [(S ''id'', int_convertor)]\<rparr>\<rparr>"

lemma item_route_init: "route_init convertor_types (S ''/items/{id:int}'') 7 True (S ''item'') None None = Inr item_route"
proof -
  have split: "S ''/items/{id:int}'' = S ''/items/'' @ S ''{id:int}''" by (simp add: S_def)
  have "compile_path convertor_types (S ''/items/'' @ S ''{id:int}'') =
      Inr \<lparr>cp_segs = [Lit (S ''/items/''), Par (S ''id'') int_convertor, Lit []],
           cp_format = S ''/items/'' @ braces (S ''id''), cp_convs = [(S ''id'', int_convertor)]\<rparr>"
    by (rule compile_one_param [OF _ param_at_int]) (simp_all add: S_def convertor_types_def)
  moreover have "method_set [S ''GET''] = [S ''GET'', S ''HEAD'']"
    by (simp add: method_set_def upper_def upper_cp_def S_def)
  ultimately show ?thesis
    unfolding split by (simp add: route_init_def item_route_def rassert_def) (simp add: braces_def S_def)
qed

definition get_scope :: "str \<Rightarrow> str \<Rightarrow> scope" where
  "get_scope meth path = \<lparr>sc_type = S ''http'', sc_method = Some meth, sc_path = Some path,
     sc_root_path = None, sc_scheme = None, sc_server = None, sc_client = None, sc_query = None,
     sc_headers = None, sc_path_params = None, sc_endpoint = None, sc_app_root_path = None,
     sc_app = False, sc_body = None\<rparr>"

theorem route_url_roundtrip_witness:
  "\<exists>u mt ch. route_url_path_for item_route (S ''item'') [(S ''id'', PInt 42)] = Inr u
     \<and> route_matches item_route (get_scope (S ''GET'') []\<lparr>sc_path := Some (up_path u)\<rparr>) = Inr (mt, ch)
     \<and> mt \<noteq> M_None \<and> map_of (ch_params ch) (S ''id'') = Some (PInt 42)"
proof -
  have id: "param_ok (rt_compiled item_route) (S ''id'', PInt 42)"
    using int_cv.printable [of "PInt 42"] dec_digits [of 123 42]
    by (auto simp: param_ok_def item_route_def int_convertor_def to_int_def int_str_def is_digit_def)
  have "\<exists>u mt ch. route_url_path_for item_route (rt_name item_route) [(S ''id'', PInt 42)] = Inr u
     \<and> route_matches item_route (get_scope (S ''GET'') []\<lparr>sc_path := Some (up_path u)\<rparr>) = Inr (mt, ch)
     \<and> mt \<noteq> M_None \<and> ch_endpoint ch = 7 \<and> map_of (ch_params ch) = map_of [(S ''id'', PInt 42)]"
    by (rule route_url_roundtrip [OF item_route_init refl])
       (use id in \<open>simp_all add: get_scope_def dict_wf_def same_keys_def item_route_def S_def\<close>)
  then show ?thesis by (auto simp: item_route_def)
qed

subsection \<open>Properties: dispatch\<close>

lemma route_loop_skip:
  assumes "\<forall>n\<in>set pre. \<exists>m ch. node_matches n sc = Inr (m, ch) \<and> m \<noteq> M_Full"
  shows "\<exists>partial'. route_loop (pre @ ns) rs redirect dflt sc partial = route_loop ns rs redirect dflt sc partial'
     \<and> (partial \<noteq> None \<longrightarrow> partial' = partial)
     \<and> ((\<forall>n\<in>set pre. \<exists>ch. node_matches n sc = Inr (M_None, ch)) \<longrightarrow> partial' = partial)"
  using assms
proof (induction pre arbitrary: partial)
  case Nil
  then show ?case by auto
next
  case (Cons n pre)
  then obtain m ch where m: "node_matches n sc = Inr (m, ch)" "m \<noteq> M_Full" by auto
  let ?p = "if m = M_Partial then (case partial of None \<Rightarrow> Some (n, ch) | Some p \<Rightarrow> Some p) else partial"
  have "route_loop ((n # pre) @ ns) rs redirect dflt sc partial = route_loop (pre @ ns) rs redirect dflt sc ?p"
    using m by (cases m) simp_all
  moreover obtain p' where p': "route_loop (pre @ ns) rs redirect dflt sc ?p = route_loop ns rs redirect dflt sc p'"
     "?p \<noteq> None \<longrightarrow> p' = ?p" "(\<forall>n\<in>set pre. \<exists>ch. node_matches n sc = Inr (M_None, ch)) \<longrightarrow> p' = ?p"
    using Cons.IH [of ?p] Cons.prems by auto
  ultimately show ?case using m by (intro exI [of _ p']) (auto split: option.splits)
qed

text \<open>
  C24: the first route that matches fully handles the request, whatever partial matches come
  before it and whatever comes after it.
\<close>

theorem router_first_full_match:
  assumes "sc_type sc = S ''http'' \<or> sc_type sc = S ''websocket''"
    and "\<forall>n\<in>set pre. \<exists>m ch. node_matches n sc = Inr (m, ch) \<and> m \<noteq> M_Full"
    and "node_matches n sc = Inr (M_Full, ch)"
  shows "router_app (Router (pre @ n # post) redirect dflt) sc = node_handle n (apply_child ch sc)"
proof -
  obtain p where "route_loop (pre @ n # post) (pre @ n # post) redirect dflt sc None
      = route_loop (n # post) (pre @ n # post) redirect dflt sc p"
    using route_loop_skip [OF assms(2)] by blast
  then show ?thesis using assms(1,3) by auto
qed

text \<open>
  when no route matches fully, the first route that matches the path but not the method
  answers 405 with its own methods in the \<open>Allow\<close> header: as an exception for the application
  to handle when there is one, as a plain response otherwise.
\<close>

theorem router_method_not_allowed:
  assumes "sc_type sc = S ''http''"
    and "\<forall>n\<in>set pre. \<exists>ch. node_matches n sc = Inr (M_None, ch)"
    and "node_matches (NRoute rt) sc = Inr (M_Partial, ch)"
    and "\<forall>n\<in>set post. \<exists>m ch. node_matches n sc = Inr (m, ch) \<and> m \<noteq> M_Full"
  shows "router_app (Router (pre @ NRoute rt # post) redirect dflt) sc =
     (let allow = [(S ''Allow'', join (S '', '') (get_or (rt_methods rt) []))]
      in Inr (if sc_app sc then OHttpException 405 allow else OPlain (S ''Method Not Allowed'') 405 allow))"
proof -
  let ?rs = "pre @ NRoute rt # post"
  have pre: "\<forall>n\<in>set pre. \<exists>m ch. node_matches n sc = Inr (m, ch) \<and> m \<noteq> M_Full" using assms(2) by fastforce
  have "route_loop ?rs ?rs redirect dflt sc None = route_loop (NRoute rt # post) ?rs redirect dflt sc None"
    using route_loop_skip [OF pre, of "NRoute rt # post" ?rs redirect dflt None] assms(2) by auto
  also have "\<dots> = route_loop post ?rs redirect dflt sc (Some (NRoute rt, ch))" using assms(3) by simp
  also have "\<dots> = route_loop [] ?rs redirect dflt sc (Some (NRoute rt, ch))"
    using route_loop_skip [OF assms(4), of "[]" ?rs redirect dflt "Some (NRoute rt, ch)"] by auto
  also have "\<dots> = route_handle rt (apply_child ch sc)" by simp
  finally have run: "route_loop ?rs ?rs redirect dflt sc None = route_handle rt (apply_child ch sc)" .
  have "method_refused rt sc = Inr True"
    using assms(1,3) by (auto simp: node_matches_def route_matches_def no_match_def split: option.splits if_splits)
  moreover have "method_refused rt (apply_child ch sc) = method_refused rt sc" "sc_app (apply_child ch sc) = sc_app sc"
    by (auto simp: method_refused_def apply_child_def Let_def split: option.splits)
  ultimately show ?thesis using run assms(1) by (simp add: route_handle_def Let_def)
qed

definition plain_route :: "str \<Rightarrow> nat \<Rightarrow> str list \<Rightarrow> route" where
  "plain_route path ep methods = \<lparr>rt_path = path, rt_endpoint = ep, rt_name = [], rt_methods = Some methods,
     rt_compiled = \<lparr>cp_segs = [Lit path], cp_format = path, cp_convs = []\<rparr>\<rparr>"

lemma plain_route_matches:
  "node_matches (NRoute (plain_route path ep methods)) (get_scope m p) =
     Inr (if startswith p path \<and> (drop (length path) p = [] \<or> drop (length path) p = [10])
          then (if methods \<noteq> [] \<and> m \<notin> set methods then M_Partial else M_Full,
                \<lparr>ch_endpoint = ep, ch_params = [], ch_mount = None\<rparr>)
          else no_match)"
  by (auto simp: node_matches_def route_matches_def get_scope_def get_route_path_def plain_route_def
      convert_params_def method_refused_def merged_params_def dict_update_def)

lemma get_scope_simps [simp]:
  "sc_type (get_scope m p) = S ''http''" "sc_method (get_scope m p) = Some m" "sc_path (get_scope m p) = Some p"
  "sc_root_path (get_scope m p) = None" "sc_app (get_scope m p) = False" "sc_path_params (get_scope m p) = None"
  "sc_server (get_scope m p) = None" "sc_query (get_scope m p) = None" "sc_app_root_path (get_scope m p) = None"
  by (simp_all add: get_scope_def)

theorem router_first_full_match_witness:
  "\<exists>ch. router_app (Router ([NRoute (plain_route (S ''/a'') 1 [S ''POST''])]
        @ NRoute (plain_route (S ''/a'') 2 [S ''GET'']) # [NRoute (plain_route (S ''/a'') 3 [S ''GET''])]) True None)
      (get_scope (S ''GET'') (S ''/a''))
    = node_handle (NRoute (plain_route (S ''/a'') 2 [S ''GET''])) (apply_child ch (get_scope (S ''GET'') (S ''/a'')))"
proof -
  have "node_matches (NRoute (plain_route (S ''/a'') 2 [S ''GET''])) (get_scope (S ''GET'') (S ''/a''))
      = Inr (M_Full, \<lparr>ch_endpoint = 2, ch_params = [], ch_mount = None\<rparr>)"
    by (simp add: plain_route_matches startswith_def)
  then show ?thesis
    by (intro exI router_first_full_match) (simp_all add: plain_route_matches startswith_def)
qed

theorem router_method_not_allowed_witness:
  "router_app (Router ([] @ NRoute (plain_route (S ''/a'') 1 [S ''POST'']) # []) True None) (get_scope (S ''GET'') (S ''/a''))
   = Inr (OPlain (S ''Method Not Allowed'') 405 [(S ''Allow'', S ''POST'')])"
proof -
  have "node_matches (NRoute (plain_route (S ''/a'') 1 [S ''POST''])) (get_scope (S ''GET'') (S ''/a''))
      = Inr (M_Partial, \<lparr>ch_endpoint = 1, ch_params = [], ch_mount = None\<rparr>)"
    by (simp add: plain_route_matches startswith_def)
  from router_method_not_allowed [OF _ _ this, of "[]" "[]" True None] show ?thesis
    by (simp add: plain_route_def)
qed

subsection \<open>Properties: mounts\<close>

lemma S_slash: "S ''/'' = [47]"
  by (simp add: S_def)

lemma rstrip_slash:
  assumes "path = [] \<or> startswith path (S ''/'')"
  shows "rstrip 47 path = [] \<or> hd (rstrip 47 path) = 47"
proof -
  from rstrip_prefix [where s = path and c = 47]
  obtain k where k: "path = rstrip 47 path @ replicate k 47" ..
  show ?thesis
  proof (cases "rstrip 47 path")
    case (Cons c r)
    with k have "path = c # (r @ replicate k 47)" by (metis append_Cons)
    with assms have "c = 47" by (auto simp: S_slash)
    with Cons show ?thesis by simp
  qed simp
qed

lemma mount_init_compiled:
  assumes "mount_init convertor_types path app name = Inr mt" and "123 \<notin> set path"
  shows "cp_segs (mt_compiled mt) = [Lit (rstrip 47 path @ S ''/''), Par (S ''path'') path_convertor, Lit []]"
    and "cp_convs (mt_compiled mt) = [(S ''path'', path_convertor)]" and "mt_app mt = app"
    and "path = [] \<or> startswith path (S ''/'')"
proof -
  let ?l = "rstrip 47 path @ S ''/''"
  have path: "path = [] \<or> startswith path (S ''/'')" using assms(1) by (auto simp: mount_init_def)
  from rstrip_prefix [where s = path and c = 47]
  obtain k where k: "path = rstrip 47 path @ replicate k 47" ..
  have "set (rstrip 47 path) \<subseteq> set path" by (subst (2) k) simp
  with assms(2) have l: "123 \<notin> set ?l" by (auto simp: S_def)
  have start: "startswith (?l @ s) (S ''/'')" for s
  proof (cases "rstrip 47 path")
    case Nil
    then show ?thesis by (simp add: S_def)
  next
    case (Cons c r)
    with rstrip_slash [OF path] have "c = 47" by simp
    with Cons show ?thesis by (simp add: S_def)
  qed
  have "?l @ S ''{path:path}'' = rstrip 47 path @ S ''/{path:path}''" by (simp add: S_def)
  moreover have "compile_path convertor_types (?l @ S ''{path:path}'') = Inr \<lparr>cp_segs = [Lit ?l, Par (S ''path'') path_convertor, Lit []],
      cp_format = ?l @ braces (S ''path''), cp_convs = [(S ''path'', path_convertor)]\<rparr>"
    by (rule compile_one_param [OF l param_at_path _ start]) (simp add: convertor_types_def)
  ultimately have "compile_path convertor_types (rstrip 47 path @ S ''/{path:path}'') = Inr \<lparr>cp_segs = [Lit ?l, Par (S ''path'') path_convertor, Lit []],
      cp_format = ?l @ braces (S ''path''), cp_convs = [(S ''path'', path_convertor)]\<rparr>" by metis
  with assms(1) show "cp_segs (mt_compiled mt) = [Lit ?l, Par (S ''path'') path_convertor, Lit []]"
     and "cp_convs (mt_compiled mt) = [(S ''path'', path_convertor)]" and "mt_app mt = app"
     and "path = [] \<or> startswith path (S ''/'')"
    using path by (auto simp: mount_init_def)
qed

lemma path_param_matches:
  "10 \<notin> set rest \<Longrightarrow> match_segs [Lit l, Par n path_convertor, Lit []] (l @ rest) = Some [(n, rest)]"
  using match_render [of "[Par n path_convertor, Lit []]" "Map.empty(n \<mapsto> rest)"]
  by (simp add: path_convertor_def)

lemma get_route_path_prefix:
  assumes "sc_path sc = Some (root @ 47 # r)" and "get_or (sc_root_path sc) [] = root"
  shows "get_route_path sc = Inr (47 # r)"
  using assms by (auto simp: get_route_path_def Let_def startswith_def)

text \<open>
  a mount splits the path at its prefix. A request whose path is the root path, the mount's
  path, a slash and a rest reaches the mounted application with the mount's path moved to the
  root path, so that the routes below see exactly the slash and the rest; the parameter
  \<open>path\<close> of the mount's own expression does not leak into the path parameters.
\<close>

theorem mount_splits_path:
  assumes "mount_init convertor_types path app name = Inr mt" and "123 \<notin> set path"
    and "sc_type sc = S ''http'' \<or> sc_type sc = S ''websocket''"
    and "get_or (sc_root_path sc) [] = root" and "sc_path sc = Some (root @ rstrip 47 path @ 47 # rest)"
    and "10 \<notin> set rest"
  shows "\<exists>ch. mount_matches mt sc = Inr (M_Full, ch)
     \<and> get_route_path (apply_child ch sc) = Inr (47 # rest)
     \<and> sc_root_path (apply_child ch sc) = Some (root @ rstrip 47 path)
     \<and> sc_path_params (apply_child ch sc) = Some (get_or (sc_path_params sc) [])
     \<and> sc_endpoint (apply_child ch sc) = Some app"
proof -
  note mt = mount_init_compiled [OF assms(1,2)]
  let ?p = "rstrip 47 path"
  have "?p = [] \<or> hd ?p = 47" by (rule rstrip_slash [OF mt(4)])
  then obtain q where q: "?p @ 47 # rest = 47 # q" by (cases ?p) auto
  have rp: "get_route_path sc = Inr (?p @ 47 # rest)"
    using get_route_path_prefix [of sc root q] assms(4,5) q by simp
  have "match_segs (cp_segs (mt_compiled mt)) (?p @ 47 # rest) = Some [(S ''path'', rest)]"
    using path_param_matches [OF assms(6), of "?p @ [47]" "S ''path''"] by (simp only: mt(1) S_slash append_assoc append.simps)
  moreover have "convert_params (cp_convs (mt_compiled mt)) [(S ''path'', rest)] = Inr [(S ''path'', PStr rest)]"
    by (simp add: mt(2) convert_params_def path_convertor_def)
  moreover have "take (length (?p @ 47 # rest) - length (S ''/'' @ rest)) (?p @ 47 # rest) = ?p" by simp
  ultimately have m: "mount_matches mt sc = Inr (M_Full, \<lparr>ch_endpoint = app,
      ch_params = get_or (sc_path_params sc) [],
      ch_mount = Some (get_or (sc_app_root_path sc) root, root @ ?p)\<rparr>)" (is "_ = Inr (_, ?ch)")
    using assms(3,4) rp mt(3) by (auto simp: mount_matches_def merged_params_def dict_update_def dict_del_def)
  have "get_route_path (apply_child ?ch sc) = Inr (47 # rest)"
    by (rule get_route_path_prefix [of _ "root @ ?p"]) (simp_all add: apply_child_def assms(5))
  with m show ?thesis by (intro exI [of _ ?ch]) (simp add: apply_child_def)
qed

lemma api_mount: "\<exists>mt. mount_init convertor_types (S ''/api'') 5 None = Inr mt"
proof -
  have strip: "rstrip 47 (S ''/api'') = S ''/api''" by (simp add: rstrip_def S_def)
  have "S ''/api'' @ S ''/{path:path}'' = S ''/api/'' @ S ''{path:path}''" by (simp add: S_def)
  moreover have "compile_path convertor_types (S ''/api/'' @ S ''{path:path}'') = Inr \<lparr>cp_segs = [Lit (S ''/api/''),
      Par (S ''path'') path_convertor, Lit []], cp_format = S ''/api/'' @ braces (S ''path''), cp_convs = [(S ''path'', path_convertor)]\<rparr>"
    by (rule compile_one_param [OF _ param_at_path]) (simp_all add: convertor_types_def S_def)
  ultimately have "\<exists>c. compile_path convertor_types (rstrip 47 (S ''/api'') @ S ''/{path:path}'') = Inr c"
    unfolding strip by auto
  then show ?thesis by (auto simp: mount_init_def rassert_def S_slash startswith_def) (simp_all add: S_def)
qed

theorem mount_splits_path_witness:
  "\<exists>mt ch. mount_init convertor_types (S ''/api'') 5 None = Inr mt
     \<and> mount_matches mt (get_scope (S ''GET'') (S ''/api/items'')) = Inr (M_Full, ch)
     \<and> get_route_path (apply_child ch (get_scope (S ''GET'') (S ''/api/items''))) = Inr (S ''/items'')"
proof -
  obtain mt where mt: "mount_init convertor_types (S ''/api'') 5 None = Inr mt" using api_mount by blast
  have strip: "rstrip 47 (S ''/api'') = S ''/api''" by (simp add: rstrip_def S_def)
  have path: "S ''/api/items'' = rstrip 47 (S ''/api'') @ 47 # S ''items''" "S ''/items'' = 47 # S ''items''"
    unfolding strip by (simp_all add: S_def)
  have brace: "123 \<notin> set (S ''/api'')" "10 \<notin> set (S ''items'')" by (simp_all add: S_def)
  show ?thesis
    using mount_splits_path [OF mt brace(1), of "get_scope (S ''GET'') (S ''/api/items'')" "[]" "S ''items''"] mt brace(2) path
    by auto
qed

subsection \<open>Properties: slash redirection\<close>

lemma any_match_none_loop:
  assumes "\<forall>n\<in>set rs. \<exists>ch. node_matches n sc = Inr (M_None, ch)"
    and "sc_type sc = S ''http'' \<or> sc_type sc = S ''websocket''"
  shows "router_app (Router rs redirect dflt) sc = unmatched rs redirect dflt sc"
proof -
  have "\<forall>n\<in>set rs. \<exists>m ch. node_matches n sc = Inr (m, ch) \<and> m \<noteq> M_Full" using assms(1) by fastforce
  from route_loop_skip [OF this, of "[]" rs redirect dflt None] assms(1)
  have "route_loop rs rs redirect dflt sc None = route_loop [] rs redirect dflt sc None" by auto
  with assms(2) show ?thesis by auto
qed

lemma url_of_scope_str: "url_of_scope sc = Inr u \<Longrightarrow> url_str u = url_string sc"
  by (auto simp: url_of_scope_def url_init_def)

text \<open>
  a router answers a path that only lacks its final slash with a redirect. Below a mount
  the target is wrong: the path of the scope still contains the root path, and the URL of the
  scope puts the root path in front of it once more, so the redirect leads to a path with the
  mount's prefix doubled.
\<close>

theorem mounted_redirect_doubles_prefix:
  assumes "\<forall>n\<in>set rs. \<exists>ch. node_matches n sc = Inr (M_None, ch)"
    and "sc_type sc = S ''http''" and "sc_root_path sc = Some root"
    and "sc_path sc = Some (root @ 47 # r)" and "r \<noteq> []" and "last r \<noteq> 47"
    and "any_match rs (sc\<lparr>sc_path := Some (root @ 47 # r @ [47])\<rparr>) = Inr True"
    and "sc_server sc = None" and "sc_query sc = None"
    and "url_of_scope (sc\<lparr>sc_path := Some (root @ 47 # r @ [47])\<rparr>) = Inr u"
  shows "router_app (Router rs True dflt) sc = Inr (ORedirect (root @ root @ 47 # r @ [47]))"
proof -
  have rp: "get_route_path sc = Inr (47 # r)" by (rule get_route_path_prefix) (simp_all add: assms(3,4))
  obtain r0 c where r: "r = r0 @ [c]" "c \<noteq> 47" using assms(5,6) by (cases r rule: rev_cases) auto
  have no_slash: "\<not> endswith (47 # r) (S ''/'')" using r by (auto simp: S_slash endswith_def)
  have ss: "slash_scope sc (47 # r) = sc\<lparr>sc_path := Some (root @ 47 # r @ [47])\<rparr>"
    using no_slash assms(4) by (simp add: slash_scope_def S_slash)
  have "url_str u = root @ root @ 47 # r @ [47]"
    using url_of_scope_str [OF assms(10)] assms(3,8,9)
    by (simp add: url_string_def hvalue_def latin1_decode_def)
  then have "unmatched rs True dflt sc = Inr (ORedirect (root @ root @ 47 # r @ [47]))"
    using rp ss assms(2,5,7,10) by (simp add: unmatched_def S_slash)
  with any_match_none_loop [OF assms(1)] assms(2) show ?thesis by simp
qed

theorem mounted_redirect_doubles_prefix_witness:
  "router_app (Router [NRoute (plain_route (S ''/items/'') 1 [S ''GET''])] True None)
      (get_scope (S ''GET'') (S ''/api/items'')\<lparr>sc_root_path := Some (S ''/api'')\<rparr>)
   = Inr (ORedirect (S ''/api/api/items/''))"
proof -
  let ?sc = "get_scope (S ''GET'') (S ''/api/items'')\<lparr>sc_root_path := Some (S ''/api'')\<rparr>"
  let ?n = "NRoute (plain_route (S ''/items/'') 1 [S ''GET''])"
  have path: "S ''/api/items'' = S ''/api'' @ 47 # S ''items''" by (simp add: S_def)
  have "get_route_path ?sc = Inr (S ''/items'')"
    using get_route_path_prefix [of ?sc "S ''/api''" "S ''items''"] by (simp add: path) (simp add: S_def)
  then have none: "node_matches ?n ?sc = Inr no_match"
    by (simp add: node_matches_def route_matches_def plain_route_def) (simp add: S_def)
  let ?sc' = "?sc\<lparr>sc_path := Some (S ''/api'' @ 47 # S ''items'' @ [47])\<rparr>"
  have "get_route_path ?sc' = Inr (S ''/items/'')"
    using get_route_path_prefix [of ?sc' "S ''/api''" "S ''items'' @ [47]"] by simp (simp add: S_def)
  then have hit: "any_match [?n] ?sc' = Inr True"
    by (simp add: node_matches_def route_matches_def plain_route_def convert_params_def method_refused_def startswith_def)
  obtain u where u: "url_of_scope ?sc' = Inr u"
    by (simp add: url_of_scope_def url_init_def urlparse_def url_string_def hvalue_def latin1_decode_def
        scheme_split_def netloc_split_def split_once_def cut_at_def S_def)
  have "router_app (Router [?n] True None) ?sc = Inr (ORedirect (S ''/api'' @ S ''/api'' @ 47 # S ''items'' @ [47]))"
    by (rule mounted_redirect_doubles_prefix [OF _ _ _ _ _ _ hit _ _ u])
       (use none in \<open>simp_all add: path no_match_def\<close>, simp add: S_def)
  then show ?thesis by (simp add: S_def)
qed

subsection \<open>Properties: lifespan\<close>

text \<open>
  with the default lifespan a server sees a complete protocol: a failing startup handler
  gives exactly one \<open>startup.failed\<close>, no later handler runs and no shutdown handler runs;
  otherwise \<open>startup.complete\<close> is followed by the shutdown handlers, run once and in order
  even when waiting for the shutdown message raised, and by one message that reports whether
  anything failed. The exception reported is raised again.
\<close>

theorem default_lifespan_protocol:
  "lifespan_call (default_lifespan h) has_state second s =
     (case run_handlers (on_startup h) s of
        (Inl e, s1) \<Rightarrow> ([StartupFailed], Some e, s1)
      | (Inr _, s1) \<Rightarrow>
          (case run_handlers (on_shutdown h) s1 of
             (Inl e, s2) \<Rightarrow> ([StartupComplete, ShutdownFailed], Some e, s2)
           | (Inr _, s2) \<Rightarrow>
               (case second of
                  None \<Rightarrow> ([StartupComplete, ShutdownComplete], None, s2)
                | Some e \<Rightarrow> ([StartupComplete, ShutdownFailed], Some e, s2))))"
  by (simp add: lifespan_call_def default_lifespan_def leave_context_def split: prod.splits sum.splits option.splits)

end
