(* ===== verification/WsServer.thy ===== *)
theory WsServer
  imports Url_Codec Asgi
begin

text \<open>
  The parts of \<open>astraapi/_cpp_server.py\<close> that are written in Python around the C++ core: the LRU
  route cache, the WebSocket message channel with its backpressure, frame building, the
  \<open>CppWebSocket\<close> connection (sending, corking, receiving, closing), the frame handlers of the
  protocol and the object pools. The C++ frame functions are the fields of the parameter
  \<open>ws_core\<close>; what they parsed out of the received bytes is an argument of the handlers.
\<close>

subsection \<open>The LRU route cache\<close>

text \<open>An \<open>OrderedDict\<close>, oldest entry first.\<close>

record 'v lru =
  lru_cache :: "(str, 'v) dict"
  lru_max :: nat

definition lru_init :: "nat \<Rightarrow> 'v lru" where
  "lru_init n = \<lparr>lru_cache = [], lru_max = n\<rparr>"

definition move_to_end :: "'k \<Rightarrow> 'v \<Rightarrow> ('k, 'v) dict \<Rightarrow> ('k, 'v) dict" where
  "move_to_end k v d = dict_del k d @ [(k, v)]"

definition lru_get :: "'v lru \<Rightarrow> str \<Rightarrow> 'v option \<times> 'v lru" where
  "lru_get c k =
     (case map_of (lru_cache c) k of
        Some v \<Rightarrow> (Some v, c\<lparr>lru_cache := move_to_end k v (lru_cache c)\<rparr>)
      | None \<Rightarrow> (None, c))"

definition lru_put :: "'v lru \<Rightarrow> str \<Rightarrow> 'v \<Rightarrow> 'v lru res" where
  "lru_put c k v =
     (if dict_has (lru_cache c) k
      then Inr (c\<lparr>lru_cache := move_to_end k v (lru_cache c)\<rparr>)
      else if lru_max c \<le> length (lru_cache c) then
        (case lru_cache c of
           [] \<Rightarrow> Inl (KeyError (S ''dictionary is empty''))
         | _ # rest \<Rightarrow> Inr (c\<lparr>lru_cache := rest @ [(k, v)]\<rparr>))
      else Inr (c\<lparr>lru_cache := lru_cache c @ [(k, v)]\<rparr>))"

definition lru_contains :: "'v lru \<Rightarrow> str \<Rightarrow> bool" where
  "lru_contains c k = dict_has (lru_cache c) k"

definition lru_getitem :: "'v lru \<Rightarrow> str \<Rightarrow> 'v res \<times> 'v lru" where
  "lru_getitem c k =
     (case lru_get c k of (Some v, c') \<Rightarrow> (Inr v, c') | (None, c') \<Rightarrow> (Inl (KeyError k), c'))"

subsection \<open>The message channel\<close>

text \<open>A payload as C++ delivers it: bytes, text, or an already parsed JSON value.\<close>

datatype payload = PBytes bytes | PText str | PParsed nat

fun plen :: "payload \<Rightarrow> int" where
  "plen (PBytes b) = int (length b)"
| "plen (PText s) = int (length s)"
| "plen (PParsed n) = 0"

type_synonym frame = "nat \<times> payload"

text \<open>
  The future a receiver waits on. \<open>ch_fut\<close> is the latest future created by \<open>get\<close>, \<open>ch_waiter\<close>
  says that \<open>_waiter\<close> still refers to it.
\<close>

datatype fut = FPending | FResult frame | FCancelled

record channel =
  ch_waiter :: bool
  ch_fut :: fut
  ch_buffer :: "frame list"
  ch_protocol :: bool
  ch_transport :: bool
  ch_reading :: bool
  ch_high :: nat
  ch_low :: nat
  ch_paused :: bool
  ch_total :: int
  ch_byte_high :: int
  ch_byte_low :: int

definition channel_init :: "bool \<Rightarrow> nat \<Rightarrow> nat \<Rightarrow> channel" where
  "channel_init protocol high low =
     \<lparr>ch_waiter = False, ch_fut = FCancelled, ch_buffer = [], ch_protocol = protocol,
      ch_transport = True, ch_reading = True, ch_high = high, ch_low = low, ch_paused = False,
      ch_total = 0, ch_byte_high = 8388608, ch_byte_low = 2097152\<rparr>"

definition waiter_open :: "channel \<Rightarrow> bool" where
  "waiter_open c \<longleftrightarrow> ch_waiter c \<and> ch_fut c = FPending"

definition channel_feed :: "nat \<Rightarrow> payload \<Rightarrow> channel \<Rightarrow> channel" where
  "channel_feed op p c =
     (if waiter_open c then c\<lparr>ch_waiter := False, ch_fut := FResult (op, p)\<rparr>
      else
       (let c' = c\<lparr>ch_total := ch_total c + plen p, ch_buffer := ch_buffer c @ [(op, p)]\<rparr> in
        if \<not> ch_paused c' \<and> (ch_high c' \<le> length (ch_buffer c') \<or> ch_byte_high c' \<le> ch_total c') \<and> ch_protocol c'
        then c'\<lparr>ch_paused := True, ch_reading := (if ch_transport c' then False else ch_reading c')\<rparr>
        else c'))"

text \<open>\<open>get\<close>: the frame it returns at once, or \<open>None\<close> when it waits on a new future.\<close>

definition channel_get :: "channel \<Rightarrow> frame option \<times> channel" where
  "channel_get c =
     (case ch_buffer c of
        [] \<Rightarrow> (None, c\<lparr>ch_waiter := True, ch_fut := FPending\<rparr>)
      | item # rest \<Rightarrow>
          (let c' = c\<lparr>ch_waiter := (ch_waiter c \<and> ch_fut c = FPending), ch_buffer := rest,
                     ch_total := ch_total c - plen (snd item)\<rparr>
           in (Some item,
               if ch_paused c' \<and> length rest \<le> ch_low c' \<and> ch_total c' \<le> ch_byte_low c' \<and> ch_protocol c'
               then c'\<lparr>ch_paused := False, ch_reading := (if ch_transport c' then True else ch_reading c')\<rparr>
               else c')))"

subsection \<open>Frames\<close>

definition byte :: "nat \<Rightarrow> char" where
  "byte n = char_of n"

text \<open>\<open>k\<close> bytes, most significant first (\<open>struct.pack("!H")\<close> and \<open>"!Q"\<close>).\<close>

fun pack :: "nat \<Rightarrow> nat \<Rightarrow> bytes" where
  "pack 0 n = []"
| "pack (Suc k) n = pack k (n div 256) @ [byte (n mod 256)]"

definition from_bytes :: "bytes \<Rightarrow> nat" where
  "from_bytes b = foldl (\<lambda>a c. 256 * a + of_char c) 0 b"

definition build_frame_py :: "nat \<Rightarrow> bytes \<Rightarrow> bytes" where
  "build_frame_py opcode payload =
     byte (128 + opcode) #
       (if length payload < 126 then [byte (length payload)]
        else if length payload \<le> 65535 then byte 126 # pack 2 (length payload)
        else byte 127 # pack 8 (length payload)) @ payload"

text \<open>\<open>struct.pack("!H", code)\<close>, which fails outside 16 bits.\<close>

definition pack_code :: "int \<Rightarrow> bytes res" where
  "pack_code code = (if 0 \<le> code \<and> code \<le> 65535 then Inr (pack 2 (nat code)) else Inl StructError)"

definition parse_close_code :: "bytes \<Rightarrow> nat" where
  "parse_close_code payload = (if 2 \<le> length payload then from_bytes (take 2 payload) else 1000)"

text \<open>The C++ frame builders.\<close>

record ws_core =
  co_frame :: "nat \<Rightarrow> bytes \<Rightarrow> bytes"
  co_close :: "int \<Rightarrow> bytes"
  co_batch :: "(nat \<times> bytes) list \<Rightarrow> bytes"

subsection \<open>The connection\<close>

datatype wstate = CONNECTING | CONNECTED | DISCONNECTED

text \<open>
  \<open>tr_written\<close> are the chunks given to the transport, which drops what comes after closing.
  \<open>cw_close_waiter\<close> is the future of the closing handshake and whether it is done. An entry
  of the cork buffer without an opcode is a finished frame. The echo detection is switched
  off by the constructor and never switched on, so its branches are left out.
\<close>

record transport =
  tr_closing :: bool
  tr_written :: "bytes list"

record cpp_ws =
  cw_transport :: transport
  cw_channel :: channel
  cw_closed :: bool
  cw_close_code :: int
  cw_corked :: bool
  cw_cork_buf :: "(nat option \<times> bytes) list"
  cw_pending :: "(nat \<times> bytes) list"
  cw_scheduled :: bool
  cw_close_waiter :: "bool option"
  cw_client :: wstate
  cw_app :: wstate
  cw_subprotocol :: "str option"

definition cw_init :: "transport \<Rightarrow> cpp_ws" where
  "cw_init tr =
     \<lparr>cw_transport = tr, cw_channel = channel_init False 256 64, cw_closed = False,
      cw_close_code = 1000, cw_corked = False, cw_cork_buf = [], cw_pending = [],
      cw_scheduled = False, cw_close_waiter = None, cw_client = CONNECTED,
      cw_app = CONNECTING, cw_subprotocol = None\<rparr>"

definition tr_write :: "bytes \<Rightarrow> transport \<Rightarrow> transport" where
  "tr_write b t = (if tr_closing t then t else t\<lparr>tr_written := tr_written t @ [b]\<rparr>)"

definition cw_write :: "bytes \<Rightarrow> cpp_ws \<Rightarrow> cpp_ws" where
  "cw_write b w = w\<lparr>cw_transport := tr_write b (cw_transport w)\<rparr>"

definition cw_accept :: "str option \<Rightarrow> cpp_ws \<Rightarrow> cpp_ws" where
  "cw_accept sub w =
     w\<lparr>cw_app := CONNECTED, cw_subprotocol := (case sub of None \<Rightarrow> cw_subprotocol w | Some s \<Rightarrow> Some s)\<rparr>"

definition cw_flush_pending :: "ws_core \<Rightarrow> cpp_ws \<Rightarrow> cpp_ws" where
  "cw_flush_pending co w0 =
     (let w = w0\<lparr>cw_scheduled := False\<rparr> in
      case cw_pending w of
        [] \<Rightarrow> w
      | [(op, p)] \<Rightarrow>
          if tr_closing (cw_transport w) then w\<lparr>cw_pending := []\<rparr>
          else (cw_write (co_frame co op p) w)\<lparr>cw_pending := []\<rparr>
      | ps \<Rightarrow>
          if tr_closing (cw_transport w) then w\<lparr>cw_pending := []\<rparr>
          else (cw_write (co_batch co ps) w)\<lparr>cw_pending := []\<rparr>)"

definition cw_queue_send :: "ws_core \<Rightarrow> nat \<Rightarrow> bytes \<Rightarrow> cpp_ws \<Rightarrow> cpp_ws" where
  "cw_queue_send co op p w =
     (if tr_closing (cw_transport w) then w
      else if \<not> cw_scheduled w \<and> cw_pending w = [] then cw_write (co_frame co op p) w
      else w\<lparr>cw_pending := cw_pending w @ [(op, p)], cw_scheduled := True\<rparr>)"

definition cw_write_frame :: "bytes \<Rightarrow> cpp_ws \<Rightarrow> cpp_ws" where
  "cw_write_frame f w = (if tr_closing (cw_transport w) then w else cw_write f w)"

definition ws_closed_error :: exn where
  "ws_closed_error = RuntimeError (S ''WebSocket is closed'')"

definition cw_send_raw :: "ws_core \<Rightarrow> nat \<Rightarrow> bytes \<Rightarrow> cpp_ws \<Rightarrow> cpp_ws" where
  "cw_send_raw co op p w =
     (if cw_corked w then w\<lparr>cw_cork_buf := cw_cork_buf w @ [(Some op, p)]\<rparr> else cw_queue_send co op p w)"

definition cw_send_text :: "ws_core \<Rightarrow> str \<Rightarrow> cpp_ws \<Rightarrow> cpp_ws res" where
  "cw_send_text co s w =
     (if cw_closed w then Inl ws_closed_error
      else rbind (utf8_encode s) (\<lambda>p. Inr (cw_send_raw co 1 p w)))"

definition cw_send_bytes :: "ws_core \<Rightarrow> bytes \<Rightarrow> cpp_ws \<Rightarrow> cpp_ws res" where
  "cw_send_bytes co b w =
     (if cw_closed w then Inl ws_closed_error else Inr (cw_send_raw co 2 b w))"

text \<open>\<open>frame\<close> is the finished frame C++ builds from the JSON value.\<close>

definition cw_send_json :: "bytes \<Rightarrow> cpp_ws \<Rightarrow> cpp_ws res" where
  "cw_send_json frame w =
     (if cw_closed w then Inl ws_closed_error
      else if cw_corked w then Inr (w\<lparr>cw_cork_buf := cw_cork_buf w @ [(None, frame)]\<rparr>)
      else Inr (cw_write_frame frame w))"

fun flush_cork_loop :: "ws_core \<Rightarrow> (nat option \<times> bytes) list \<Rightarrow> (nat \<times> bytes) list \<Rightarrow> cpp_ws \<Rightarrow> cpp_ws" where
  "flush_cork_loop co [] raw w = (if raw \<noteq> [] then cw_write (co_batch co raw) w else w)"
| "flush_cork_loop co ((None, p) # es) raw w =
     flush_cork_loop co es [] (cw_write p (if raw \<noteq> [] then cw_write (co_batch co raw) w else w))"
| "flush_cork_loop co ((Some op, p) # es) raw w = flush_cork_loop co es (raw @ [(op, p)]) w"

definition cw_flush_cork :: "ws_core \<Rightarrow> cpp_ws \<Rightarrow> cpp_ws" where
  "cw_flush_cork co w =
     (if cw_cork_buf w = [] then w
      else if tr_closing (cw_transport w) then w\<lparr>cw_cork_buf := []\<rparr>
      else (flush_cork_loop co (cw_cork_buf w) [] w)\<lparr>cw_cork_buf := []\<rparr>)"

definition cw_cork :: "cpp_ws \<Rightarrow> cpp_ws" where
  "cw_cork w = w\<lparr>cw_corked := True\<rparr>"

definition cw_uncork :: "ws_core \<Rightarrow> cpp_ws \<Rightarrow> cpp_ws" where
  "cw_uncork co w = (cw_flush_cork co w)\<lparr>cw_corked := False\<rparr>"

text \<open>
  The part of \<open>close\<close> before it waits for the peer; \<open>Inl\<close> also keeps the state, since an
  exception of \<open>struct.pack\<close> or of the encoder leaves the connection marked as closed.
\<close>

definition close_frame :: "ws_core \<Rightarrow> int \<Rightarrow> str option \<Rightarrow> bytes res" where
  "close_frame co code reason =
     (let (code', reason') =
        (if code = 1006 then (1000, Some (S ''1006:'' @ (case reason of None \<Rightarrow> [] | Some r \<Rightarrow> r)))
         else (code, reason))
      in case reason' of
           Some r \<Rightarrow>
             if r \<noteq> [] then rbind (pack_code code') (\<lambda>c. rbind (utf8_encode r) (\<lambda>rb. Inr (build_frame_py 8 (c @ rb))))
             else Inr (co_close co code')
         | None \<Rightarrow> Inr (co_close co code'))"

definition cw_close :: "ws_core \<Rightarrow> int \<Rightarrow> str option \<Rightarrow> cpp_ws \<Rightarrow> unit res \<times> cpp_ws" where
  "cw_close co code reason w =
     (if cw_closed w then (Inr (), w)
      else
       (let w1 = w\<lparr>cw_closed := True, cw_close_code := code, cw_app := DISCONNECTED\<rparr>;
            w2 = (if cw_corked w1 then cw_flush_cork co w1 else w1);
            w3 = (if cw_pending w2 \<noteq> [] then cw_flush_pending co w2 else w2)
        in case close_frame co code reason of
             Inl e \<Rightarrow> (Inl e, w3)
           | Inr f \<Rightarrow> (Inr (), (cw_write f w3)\<lparr>cw_close_waiter := Some False\<rparr>)))"

text \<open>The handshake is acknowledged, or two seconds have passed.\<close>

definition cw_close_done :: "cpp_ws \<Rightarrow> cpp_ws" where
  "cw_close_done w = w\<lparr>cw_close_waiter := None\<rparr>"

subsection \<open>Receiving\<close>

definition payload_bytes :: "payload \<Rightarrow> bytes" where
  "payload_bytes p = (case p of PBytes b \<Rightarrow> b | PText s \<Rightarrow> (case utf8_encode s of Inr b \<Rightarrow> b | Inl _ \<Rightarrow> []) | PParsed n \<Rightarrow> [])"

text \<open>What a receiving method does with the frame it got from the channel.\<close>

definition cw_peer_closed :: "cpp_ws \<Rightarrow> cpp_ws" where
  "cw_peer_closed w = w\<lparr>cw_closed := True, cw_client := DISCONNECTED\<rparr>"

definition cw_receive_text :: "frame \<Rightarrow> cpp_ws \<Rightarrow> str res \<times> cpp_ws" where
  "cw_receive_text f w =
     (case f of (op, p) \<Rightarrow>
        if op = 8 then (Inl (WebSocketDisconnect (int (parse_close_code (payload_bytes p))) []), cw_peer_closed w)
        else (case p of PText s \<Rightarrow> (Inr s, w) | PBytes b \<Rightarrow> (utf8_decode b, w)
              | PParsed n \<Rightarrow> (Inl (AttributeError (S ''decode'')), w)))"

definition cw_receive_bytes :: "frame \<Rightarrow> cpp_ws \<Rightarrow> payload res \<times> cpp_ws" where
  "cw_receive_bytes f w =
     (case f of (op, p) \<Rightarrow>
        if op = 8 then (Inl (WebSocketDisconnect (int (parse_close_code (payload_bytes p))) []), cw_peer_closed w)
        else (Inr p, w))"

text \<open>
  \<open>iter_binary_chunks\<close>: the chunks yielded for the frames of a connection up to its close
  frame; \<open>n\<close> is the chunk size. A size of zero would slice for ever.
\<close>

function slice_chunks :: "nat \<Rightarrow> bytes \<Rightarrow> bytes list \<times> bytes" where
  "slice_chunks n b =
     (if n = 0 \<or> length b < n then ([], b)
      else (let (cs, rest) = slice_chunks n (drop n b) in (take n b # cs, rest)))"
  by pat_completeness auto
termination
  by (relation "measure (\<lambda>(n, b). length b)") auto

declare slice_chunks.simps [simp del]

fun iter_binary_chunks :: "nat \<Rightarrow> frame list \<Rightarrow> bytes \<Rightarrow> bytes list option" where
  "iter_binary_chunks n [] acc = None"
| "iter_binary_chunks n ((op, p) # fs) acc =
     (if op = 8 then Some (if acc \<noteq> [] then [acc] else [])
      else case p of
        PBytes b \<Rightarrow>
          (let (cs, rest) = slice_chunks n (acc @ b)
           in map_option (\<lambda>out. cs @ out) (iter_binary_chunks n fs rest))
      | _ \<Rightarrow> iter_binary_chunks n fs acc)"

text \<open>
  \<open>receive_json\<close>: \<open>parse\<close> is the C++ JSON parser. The frames in JSON mode come from
  \<open>ws_handle_json_direct\<close>, which hands over the parsed value of a text message: a Python string
  when the message is a JSON string, and the message itself when it is no JSON.
\<close>

datatype jval = JString str | JOther nat

definition json_mode_payload :: "(str \<Rightarrow> jval res) \<Rightarrow> str \<Rightarrow> payload" where
  "json_mode_payload parse t =
     (case parse t of Inr (JString s) \<Rightarrow> PText s | Inr (JOther n) \<Rightarrow> PParsed n | Inl _ \<Rightarrow> PText t)"

definition cw_receive_json :: "(str \<Rightarrow> jval res) \<Rightarrow> (bytes \<Rightarrow> jval res) \<Rightarrow> frame \<Rightarrow> cpp_ws \<Rightarrow> jval res \<times> cpp_ws" where
  "cw_receive_json parse parse_bytes f w =
     (case f of (op, p) \<Rightarrow>
        if op = 8 then (Inl (WebSocketDisconnect (int (parse_close_code (payload_bytes p))) []), cw_peer_closed w)
        else (case p of PParsed n \<Rightarrow> (Inr (JOther n), w) | PText s \<Rightarrow> (parse s, w) | PBytes b \<Rightarrow> (parse_bytes b, w)))"

text \<open>The messages of the ASGI WebSocket protocol, a missing key as \<open>None\<close>.\<close>

datatype ws_event =
    WsConnect
  | WsReceive "str option" "payload option"
  | WsDisconnect "int option" "str option"
  | WsOtherEvent str

datatype ws_msg =
    WsAccept "str option" "resp_headers option"
  | WsSend "str option" "bytes option"
  | WsClose "int option" "str option"
  | WsOtherMsg str

text \<open>\<open>receive\<close>, where \<open>f\<close> is what the channel gives when it is asked.\<close>

definition cw_receive :: "frame \<Rightarrow> cpp_ws \<Rightarrow> ws_event res \<times> cpp_ws" where
  "cw_receive f w =
     (if cw_app w = CONNECTING then (Inr WsConnect, w)
      else case f of (op, p) \<Rightarrow>
        if op = 8 then (Inr (WsDisconnect (Some (int (parse_close_code (payload_bytes p)))) None), cw_peer_closed w)
        else if op = 1 then
          (case p of
             PText s \<Rightarrow> (Inr (WsReceive (Some s) None), w)
           | PBytes b \<Rightarrow> (rbind (utf8_decode b) (\<lambda>s. Inr (WsReceive (Some s) None)), w)
           | PParsed n \<Rightarrow> (Inl (AttributeError (S ''decode'')), w))
        else (Inr (WsReceive None (Some p)), w))"

definition lift_send :: "cpp_ws res \<Rightarrow> cpp_ws \<Rightarrow> unit res \<times> cpp_ws" where
  "lift_send r w = (case r of Inl e \<Rightarrow> (Inl e, w) | Inr w' \<Rightarrow> (Inr (), w'))"

definition cw_send :: "ws_core \<Rightarrow> ws_msg \<Rightarrow> cpp_ws \<Rightarrow> unit res \<times> cpp_ws" where
  "cw_send co m w =
     (case m of
        WsAccept sub hs \<Rightarrow> (Inr (), cw_accept sub w)
      | WsSend (Some s) b \<Rightarrow> lift_send (cw_send_text co s w) w
      | WsSend None (Some b) \<Rightarrow> lift_send (cw_send_bytes co b w) w
      | WsSend None None \<Rightarrow> (Inr (), w)
      | WsClose code reason \<Rightarrow> cw_close co (get_or code 1000) reason w
      | WsOtherMsg t \<Rightarrow> (Inr (), w))"

text \<open>
  \<open>iter_text\<close>, \<open>iter_bytes\<close> and \<open>iter_json\<close> share one loop around their receiving method: the
  values yielded, and how the loop ended (\<open>None\<close> while it waits for the next frame).
\<close>

fun iter_frames :: "(frame \<Rightarrow> cpp_ws \<Rightarrow> 'a res \<times> cpp_ws) \<Rightarrow> frame list \<Rightarrow> cpp_ws \<Rightarrow> 'a list \<times> unit res option \<times> cpp_ws" where
  "iter_frames recv [] w = ([], None, w)"
| "iter_frames recv (f # fs) w =
     (case recv f w of
        (Inr x, w') \<Rightarrow> (let (ys, r) = iter_frames recv fs w' in (x # ys, r))
      | (Inl (WebSocketDisconnect c r), w') \<Rightarrow> ([], Some (Inr ()), w')
      | (Inl e, w') \<Rightarrow> ([], Some (Inl e), w'))"

subsection \<open>Frame handlers of the protocol\<close>

definition send_close_response :: "ws_core \<Rightarrow> bytes \<Rightarrow> transport \<Rightarrow> transport" where
  "send_close_response co p t = tr_write (co_close co (int (parse_close_code p))) t"

definition resolve_close_waiter :: "cpp_ws \<Rightarrow> cpp_ws" where
  "resolve_close_waiter w = w\<lparr>cw_close_waiter := map_option (\<lambda>_. True) (cw_close_waiter w)\<rparr>"

text \<open>The C++ side puts frames into an open waiter or the buffer, and nothing else.\<close>

definition core_put :: "frame \<Rightarrow> channel \<Rightarrow> channel" where
  "core_put f c =
     (if waiter_open c then c\<lparr>ch_waiter := False, ch_fut := FResult f\<rparr>
      else c\<lparr>ch_buffer := ch_buffer c @ [f]\<rparr>)"

text \<open>\<open>_feed_frames\<close>; the result says whether a close frame was met.\<close>

fun feed_frames :: "ws_core \<Rightarrow> frame list \<Rightarrow> cpp_ws \<Rightarrow> bool \<times> cpp_ws" where
  "feed_frames co [] w = (False, w)"
| "feed_frames co ((op, p) # fs) w =
     (if op = 8 then
        (let w1 = resolve_close_waiter w;
             w2 = w1\<lparr>cw_channel := core_put (8, p) (cw_channel w1)\<rparr>
         in (True, w2\<lparr>cw_transport := send_close_response co (payload_bytes p) (cw_transport w2)\<rparr>))
      else feed_frames co fs (w\<lparr>cw_channel := core_put (op, p) (cw_channel w)\<rparr>))"

definition optional_write :: "bytes option \<Rightarrow> cpp_ws \<Rightarrow> cpp_ws" where
  "optional_write b w = (case b of None \<Rightarrow> w | Some x \<Rightarrow> cw_write x w)"

text \<open>
  \<open>_handle_ws_frames\<close>: \<open>fed\<close> are the frames C++ put into the channel, \<open>pong\<close> and \<open>close_payload\<close>
  the rest of its result.
\<close>

definition handle_ws_frames :: "ws_core \<Rightarrow> frame list \<Rightarrow> bytes option \<Rightarrow> bytes option \<Rightarrow> cpp_ws \<Rightarrow> cpp_ws" where
  "handle_ws_frames co fed pong close_payload w =
     (let w1 = optional_write pong (w\<lparr>cw_channel := fold core_put fed (cw_channel w)\<rparr>);
          w2 = (case close_payload of
                  None \<Rightarrow> w1
                | Some p \<Rightarrow>
                    (let w' = (if \<not> cw_closed w1
                               then (let v = resolve_close_waiter (cw_peer_closed w1)
                                     in if fed = [] then v\<lparr>cw_channel := channel_feed 8 (PBytes p) (cw_channel v)\<rparr> else v)
                               else w1)
                     in w'\<lparr>cw_transport := send_close_response co p (cw_transport w')\<rparr>))
      in if cw_pending w2 \<noteq> [] then cw_flush_pending co w2 else w2)"

definition handle_ws_frames_echo :: "ws_core \<Rightarrow> bytes option \<Rightarrow> bytes option \<Rightarrow> cpp_ws \<Rightarrow> cpp_ws" where
  "handle_ws_frames_echo co echo close_payload w =
     (let w1 = optional_write echo w in
      case close_payload of
        None \<Rightarrow> w1
      | Some p \<Rightarrow>
          (let v = resolve_close_waiter (cw_peer_closed w1);
               v' = v\<lparr>cw_channel := channel_feed 8 (PBytes p) (cw_channel v)\<rparr>
           in v'\<lparr>cw_transport := send_close_response co p (cw_transport v')\<rparr>))"

definition handle_ws_frames_json :: "ws_core \<Rightarrow> frame list \<Rightarrow> bytes option \<Rightarrow> cpp_ws \<Rightarrow> cpp_ws" where
  "handle_ws_frames_json co frames pong w =
     (let w1 = snd (feed_frames co frames (optional_write pong w))
      in if cw_pending w1 \<noteq> [] then cw_flush_pending co w1 else w1)"

text \<open>
  The heartbeat: \<open>True\<close> in the result asks for the next timer. Any received data sets the
  flag that a pong has come.
\<close>

definition send_ws_ping :: "bytes \<Rightarrow> bool \<Rightarrow> cpp_ws \<Rightarrow> bool \<times> bool \<times> cpp_ws" where
  "send_ws_ping ping pong_received w =
     (if cw_closed w \<or> tr_closing (cw_transport w) then (False, pong_received, w)
      else if \<not> pong_received then
        (False, pong_received,
         w\<lparr>cw_closed := True, cw_channel := channel_feed 8 (PBytes []) (cw_channel w),
           cw_transport := (cw_transport w)\<lparr>tr_closing := True\<rparr>\<rparr>)
      else (True, False, cw_write ping w))"

subsection \<open>Pools\<close>

record 'p pool =
  po_items :: "'p list"
  po_max :: nat

definition pool_acquire :: "('p \<Rightarrow> 'p) \<Rightarrow> 'p \<Rightarrow> 'p pool \<Rightarrow> 'p \<times> 'p pool" where
  "pool_acquire reinit fresh po =
     (case rev (po_items po) of
        [] \<Rightarrow> (fresh, po)
      | p # rest \<Rightarrow> (reinit p, po\<lparr>po_items := rev rest\<rparr>))"

definition pool_release :: "'p \<Rightarrow> 'p pool \<Rightarrow> 'p pool" where
  "pool_release p po =
     (if length (po_items po) < po_max po then po\<lparr>po_items := po_items po @ [p]\<rparr> else po)"

definition pool_trim :: "nat \<Rightarrow> 'p pool \<Rightarrow> nat \<times> 'p pool" where
  "pool_trim target po =
     (let current = length (po_items po) in
      if current \<le> target then (0, po)
      else (current - target, po\<lparr>po_items := take target (po_items po)\<rparr>))"

subsection \<open>Properties: frames\<close>

text \<open>An RFC 6455 reader for one final, unmasked frame: opcode, payload and the bytes after it.\<close>

definition read_frame :: "bytes \<Rightarrow> (nat \<times> bytes \<times> bytes) option" where
  "read_frame b =
     (case b of
        h # l # r \<Rightarrow>
          (let (n, r') = (if of_char l < (126::nat) then (of_char l, r)
                          else if of_char l = (126::nat) then (from_bytes (take 2 r), drop 2 r)
                          else (from_bytes (take 8 r), drop 8 r))
           in if of_char h < (128::nat) \<or> of_char l > (127::nat) \<or> length r' < n then None
              else Some (of_char h - 128, take n r', drop n r'))
      | _ \<Rightarrow> None)"

lemma of_char_byte [simp]: "n < 256 \<Longrightarrow> of_char (byte n) = (n :: nat)"
  by (simp add: byte_def)

lemma length_pack [simp]: "length (pack k n) = k"
  by (induction k arbitrary: n) auto

lemma from_bytes_snoc: "from_bytes (b @ [c]) = 256 * from_bytes b + of_char c"
  by (simp add: from_bytes_def)

lemma from_bytes_pack: "n < 256 ^ k \<Longrightarrow> from_bytes (pack k n) = n"
proof (induction k arbitrary: n)
  case 0
  then show ?case by (simp add: from_bytes_def)
next
  case (Suc k)
  then have "n div 256 < 256 ^ k" by (simp add: less_mult_imp_div_less mult.commute)
  with Suc.IH show ?case by (simp add: from_bytes_snoc)
qed

lemma read_build_frame:
  assumes "opcode < 16" and "length payload < 2 ^ 64"
  shows "read_frame (build_frame_py opcode payload @ rest) = Some (opcode, payload, rest)"
proof -
  let ?n = "length payload"
  have op: "of_char (byte (128 + opcode)) = 128 + opcode" using assms(1) by simp
  consider (short) "?n < 126" | (mid) "126 \<le> ?n" "?n \<le> 65535" | (long) "65535 < ?n" by linarith
  then show ?thesis
  proof cases
    case short
    then show ?thesis using op by (simp add: build_frame_py_def read_frame_def)
  next
    case mid
    then have "from_bytes (pack 2 ?n) = ?n" by (intro from_bytes_pack) simp
    with mid op show ?thesis by (simp add: build_frame_py_def read_frame_def)
  next
    case long
    have "from_bytes (pack 8 ?n) = ?n" using assms(2) by (intro from_bytes_pack) simp
    with long op show ?thesis by (simp add: build_frame_py_def read_frame_def)
  qed
qed

text \<open>
  a frame built by the server is read back as the opcode and payload it was built from,
  for every payload length a frame can carry, and a reader finds the following frame right
  after it; the three length encodings are used exactly at their boundaries.
\<close>

theorem build_frame_roundtrip:
  assumes "opcode < 16" and "length payload < 2 ^ 64"
  shows "read_frame (build_frame_py opcode payload @ rest) = Some (opcode, payload, rest)"
  using assms by (rule read_build_frame)

theorem build_frame_roundtrip_witness:
  "read_frame (build_frame_py 1 ''hello'' @ ''next'') = Some (1, ''hello'', ''next'')"
  by (rule build_frame_roundtrip) simp_all

text \<open>A close reason longer than 123 bytes makes a control frame longer than the protocol allows.\<close>

lemma close_frame_too_long:
  assumes "code \<noteq> 1006" and "0 \<le> code" and "code \<le> 65535" and "utf8_encode r = Inr rb" and "123 < length rb"
    and "length rb \<le> 65533" and "r \<noteq> []"
  shows "\<exists>f. close_frame co code (Some r) = Inr f \<and> read_frame f = Some (8, pack 2 (nat code) @ rb, []) \<and> f ! 1 = byte 126"
proof -
  have "close_frame co code (Some r) = Inr (build_frame_py 8 (pack 2 (nat code) @ rb))"
    using assms by (simp add: close_frame_def pack_code_def)
  moreover have "read_frame (build_frame_py 8 (pack 2 (nat code) @ rb) @ []) = Some (8, pack 2 (nat code) @ rb, [])"
    using assms(6) by (intro read_build_frame) simp_all
  moreover have "build_frame_py 8 (pack 2 (nat code) @ rb) ! 1 = byte 126"
    using assms(5,6) by (simp add: build_frame_py_def)
  ultimately show ?thesis by simp
qed

subsection \<open>Properties: the message channel\<close>

text \<open>
  A channel together with its receiver: whether the receiver waits, what was put into the
  channel and what the receiver has got. \<open>core\<close> says whether the C++ side also feeds it.
\<close>

record chan_sys =
  cs_chan :: channel
  cs_waiting :: bool
  cs_fed :: "frame list"
  cs_got :: "frame list"

inductive chan_step :: "bool \<Rightarrow> chan_sys \<Rightarrow> chan_sys \<Rightarrow> bool" for core :: bool where
  feed: "chan_step core s (s\<lparr>cs_chan := channel_feed op p (cs_chan s), cs_fed := cs_fed s @ [(op, p)]\<rparr>)"
| put: "core \<Longrightarrow> chan_step core s (s\<lparr>cs_chan := core_put f (cs_chan s), cs_fed := cs_fed s @ [f]\<rparr>)"
| get: "\<not> cs_waiting s \<Longrightarrow> channel_get (cs_chan s) = (Some f, c) \<Longrightarrow>
          chan_step core s (s\<lparr>cs_chan := c, cs_got := cs_got s @ [f]\<rparr>)"
| wait: "\<not> cs_waiting s \<Longrightarrow> channel_get (cs_chan s) = (None, c) \<Longrightarrow>
          chan_step core s (s\<lparr>cs_chan := c, cs_waiting := True\<rparr>)"
| resume: "cs_waiting s \<Longrightarrow> ch_fut (cs_chan s) = FResult f \<Longrightarrow>
          chan_step core s (s\<lparr>cs_waiting := False, cs_got := cs_got s @ [f]\<rparr>)"
| cancel: "cs_waiting s \<Longrightarrow> ch_fut (cs_chan s) = FPending \<Longrightarrow>
          chan_step core s (s\<lparr>cs_waiting := False, cs_chan := (cs_chan s)\<lparr>ch_fut := FCancelled\<rparr>\<rparr>)"

inductive_cases chan_stepE: "chan_step core s s'"

inductive chan_reach :: "bool \<Rightarrow> channel \<Rightarrow> chan_sys \<Rightarrow> bool" for core c0 where
  start: "chan_reach core c0 \<lparr>cs_chan = c0, cs_waiting = False, cs_fed = [], cs_got = []\<rparr>"
| step: "chan_reach core c0 s \<Longrightarrow> chan_step core s s' \<Longrightarrow> chan_reach core c0 s'"

definition in_flight :: "chan_sys \<Rightarrow> frame list" where
  "in_flight s = (if cs_waiting s then (case ch_fut (cs_chan s) of FResult f \<Rightarrow> [f] | _ \<Rightarrow> []) else [])"

definition chan_inv :: "chan_sys \<Rightarrow> bool" where
  "chan_inv s \<longleftrightarrow>
     cs_fed s = cs_got s @ in_flight s @ ch_buffer (cs_chan s)
     \<and> (cs_waiting s \<longrightarrow> ch_fut (cs_chan s) \<noteq> FCancelled)
     \<and> (cs_waiting s \<longrightarrow> ch_fut (cs_chan s) = FPending \<longrightarrow> ch_waiter (cs_chan s) \<and> ch_buffer (cs_chan s) = [])
     \<and> (\<not> cs_waiting s \<longrightarrow> \<not> waiter_open (cs_chan s))"

lemmas chan_defs = channel_feed_def core_put_def channel_get_def waiter_open_def in_flight_def chan_inv_def Let_def

lemma chan_inv_put:
  assumes "chan_inv s" and "ch_fut c = (if waiter_open (cs_chan s) then FResult f else ch_fut (cs_chan s))"
    and "ch_waiter c = (ch_waiter (cs_chan s) \<and> \<not> waiter_open (cs_chan s))"
    and "ch_buffer c = ch_buffer (cs_chan s) @ (if waiter_open (cs_chan s) then [] else [f])"
  shows "chan_inv (s\<lparr>cs_chan := c, cs_fed := cs_fed s @ [f]\<rparr>)"
  using assms by (cases "ch_fut (cs_chan s)") (auto simp: chan_inv_def in_flight_def waiter_open_def split: if_splits)

lemma channel_feed_fields:
  "ch_fut (channel_feed op p c) = (if waiter_open c then FResult (op, p) else ch_fut c)"
  "ch_waiter (channel_feed op p c) = (ch_waiter c \<and> \<not> waiter_open c)"
  "ch_buffer (channel_feed op p c) = ch_buffer c @ (if waiter_open c then [] else [(op, p)])"
  by (simp_all add: channel_feed_def Let_def)

lemma core_put_fields:
  "ch_fut (core_put f c) = (if waiter_open c then FResult f else ch_fut c)"
  "ch_waiter (core_put f c) = (ch_waiter c \<and> \<not> waiter_open c)"
  "ch_buffer (core_put f c) = ch_buffer c @ (if waiter_open c then [] else [f])"
  by (simp_all add: core_put_def)

lemma channel_get_fields:
  "channel_get c = (r, c') \<Longrightarrow> r = (case ch_buffer c of [] \<Rightarrow> None | f # fs \<Rightarrow> Some f)
    \<and> ch_buffer c' = tl (ch_buffer c)
    \<and> ch_fut c' = (if ch_buffer c = [] then FPending else ch_fut c)
    \<and> ch_waiter c' = (if ch_buffer c = [] then True else ch_waiter c \<and> ch_fut c = FPending)"
  by (auto simp: channel_get_def Let_def split: list.splits if_splits)

lemma chan_inv_step: "chan_step core s s' \<Longrightarrow> chan_inv s \<Longrightarrow> chan_inv s'"
proof (induction rule: chan_step.induct)
  case (feed s op p)
  then show ?case by (intro chan_inv_put) (simp_all only: channel_feed_fields)
next
  case (put s f)
  then show ?case by (intro chan_inv_put) (simp_all only: core_put_fields)
next
  case (get s f c)
  from channel_get_fields [OF get(2)] get(1,3) show ?case
    by (auto simp: chan_inv_def in_flight_def waiter_open_def split: list.splits)
next
  case (wait s c)
  from channel_get_fields [OF wait(2)] wait(1,3) show ?case
    by (auto simp: chan_inv_def in_flight_def waiter_open_def split: list.splits)
next
  case (resume s f)
  then show ?case by (auto simp: chan_inv_def in_flight_def waiter_open_def)
next
  case (cancel s)
  then show ?case by (auto simp: chan_inv_def in_flight_def waiter_open_def)
qed

lemma chan_reach_inv: "chan_reach core c0 s \<Longrightarrow> ch_buffer c0 = [] \<Longrightarrow> \<not> waiter_open c0 \<Longrightarrow> chan_inv s"
proof (induction rule: chan_reach.induct)
  case start
  then show ?case by (simp add: chan_inv_def in_flight_def)
next
  case (step s s')
  then show ?case by (blast intro: chan_inv_step)
qed

text \<open>
  C5: whatever the interleaving of feeding, of C++ deliveries and of receivers that wait, are
  resumed or are cancelled while they wait, the receiver gets the frames in the order in
  which they came, each once: what was fed is what was got, the frame on its way to a
  waiting receiver, and the buffer.
\<close>

theorem channel_fifo:
  assumes "chan_reach core (channel_init protocol high low) s"
  shows "cs_fed s = cs_got s @ in_flight s @ ch_buffer (cs_chan s)"
  using chan_reach_inv [OF assms] by (simp add: channel_init_def waiter_open_def chan_inv_def)

theorem channel_fifo_witness:
  "\<exists>s. chan_reach True (channel_init True 2 1) s \<and> cs_fed s = [(1, PText []), (2, PBytes [])]
     \<and> cs_got s @ in_flight s @ ch_buffer (cs_chan s) = [(1, PText []), (2, PBytes [])]"
proof -
  let ?c = "channel_init True 2 1"
  let ?s0 = "\<lparr>cs_chan = ?c, cs_waiting = False, cs_fed = [], cs_got = []\<rparr>"
  let ?s1 = "?s0\<lparr>cs_chan := channel_feed 1 (PText []) (cs_chan ?s0), cs_fed := cs_fed ?s0 @ [(1, PText [])]\<rparr>"
  let ?s2 = "?s1\<lparr>cs_chan := channel_feed 2 (PBytes []) (cs_chan ?s1), cs_fed := cs_fed ?s1 @ [(2, PBytes [])]\<rparr>"
  have "chan_reach True ?c ?s2"
    by (rule chan_reach.step [OF chan_reach.step [OF chan_reach.start chan_step.feed] chan_step.feed])
  with channel_fifo [OF this] show ?thesis by (intro exI [of _ ?s2]) simp
qed

text \<open>Byte accounting and backpressure, for a channel fed by \<open>feed\<close> alone.\<close>

definition pressure_inv :: "channel \<Rightarrow> channel \<Rightarrow> bool" where
  "pressure_inv c0 c \<longleftrightarrow>
     ch_protocol c \<and> ch_transport c \<and> ch_high c = ch_high c0 \<and> ch_low c = ch_low c0
     \<and> ch_byte_high c = ch_byte_high c0 \<and> ch_byte_low c = ch_byte_low c0
     \<and> ch_total c = (\<Sum>f\<leftarrow>ch_buffer c. plen (snd f))
     \<and> (ch_paused c \<longleftrightarrow> \<not> ch_reading c)
     \<and> (\<not> ch_paused c \<longrightarrow> length (ch_buffer c) < ch_high c \<and> ch_total c < ch_byte_high c)
     \<and> (ch_paused c \<longrightarrow> ch_buffer c \<noteq> [])"

lemma plen_nonneg [simp]: "0 \<le> plen p"
  by (cases p) auto

lemma pressure_feed:
  assumes "pressure_inv c0 c"
  shows "pressure_inv c0 (channel_feed op p c)"
  using assms by (auto simp: pressure_inv_def channel_feed_def Let_def)

lemma pressure_get:
  assumes "pressure_inv c0 c" and "channel_get c = (r, c')" and "0 \<le> ch_byte_low c0"
    and "ch_low c0 < ch_high c0" and "ch_byte_low c0 < ch_byte_high c0"
  shows "pressure_inv c0 c'"
proof (cases "ch_buffer c")
  case Nil
  with assms(1,2) show ?thesis by (auto simp: pressure_inv_def channel_get_def)
next
  case (Cons f fs)
  have "ch_total c - plen (snd f) = (\<Sum>f\<leftarrow>fs. plen (snd f))"
    using assms(1) Cons by (simp add: pressure_inv_def)
  moreover from this have "(\<Sum>f\<leftarrow>fs. plen (snd f)) \<le> ch_total c" using plen_nonneg [of "snd f"] by linarith
  ultimately show ?thesis
    using assms Cons by (auto simp: pressure_inv_def channel_get_def Let_def split: if_splits)
qed

lemma pressure_step:
  assumes "chan_step False s s'" and "pressure_inv c0 (cs_chan s)" and "0 \<le> ch_byte_low c0"
    and "ch_low c0 < ch_high c0" and "ch_byte_low c0 < ch_byte_high c0"
  shows "pressure_inv c0 (cs_chan s')"
  using assms
proof (cases rule: chan_step.cases)
  case (feed op p)
  with assms show ?thesis by (simp add: pressure_feed)
next
  case (cancel)
  with assms show ?thesis by (auto simp: pressure_inv_def)
qed (auto intro: pressure_get)

text \<open>
  the backpressure of a channel fed through \<open>feed\<close> is sound and cannot deadlock. The byte
  count is the size of the buffer; reading is paused exactly while the channel says so; as
  long as it is not paused the buffer is below both high-water marks; and a paused channel
  has a frame in its buffer, so the receiver that drains it resumes reading.
\<close>

theorem channel_backpressure:
  assumes "chan_reach False (channel_init True high low) s" and "low < high"
  shows "ch_total (cs_chan s) = (\<Sum>f\<leftarrow>ch_buffer (cs_chan s). plen (snd f))
    \<and> (ch_paused (cs_chan s) \<longleftrightarrow> \<not> ch_reading (cs_chan s))
    \<and> (\<not> ch_paused (cs_chan s) \<longrightarrow> length (ch_buffer (cs_chan s)) < high \<and> ch_total (cs_chan s) < 8388608)
    \<and> (ch_paused (cs_chan s) \<longrightarrow> ch_buffer (cs_chan s) \<noteq> [])"
proof -
  let ?c0 = "channel_init True high low"
  have "pressure_inv ?c0 (cs_chan s)"
    using assms(1)
  proof (induction rule: chan_reach.induct)
    case start
    then show ?case using assms(2) by (simp add: pressure_inv_def channel_init_def)
  next
    case (step s s')
    then show ?case using assms(2) by (intro pressure_step [OF step(2) step(3)]) (simp_all add: channel_init_def)
  qed
  then show ?thesis by (auto simp: pressure_inv_def channel_init_def)
qed

theorem channel_backpressure_witness:
  "\<exists>s. chan_reach False (channel_init True 1 0) s \<and> length (ch_buffer (cs_chan s)) = 1
     \<and> ch_total (cs_chan s) = 2 \<and> \<not> ch_reading (cs_chan s)"
proof -
  let ?c = "channel_init True 1 0"
  let ?s0 = "\<lparr>cs_chan = ?c, cs_waiting = False, cs_fed = [], cs_got = []\<rparr>"
  let ?s1 = "?s0\<lparr>cs_chan := channel_feed 2 (PBytes ''ab'') (cs_chan ?s0), cs_fed := cs_fed ?s0 @ [(2, PBytes ''ab'')]\<rparr>"
  have r: "chan_reach False ?c ?s1" by (rule chan_reach.step [OF chan_reach.start chan_step.feed])
  have "ch_buffer (cs_chan ?s1) = [(2, PBytes ''ab'')]" "ch_paused (cs_chan ?s1)"
    by (simp_all add: channel_feed_def channel_init_def waiter_open_def)
  with channel_backpressure [OF r] r show ?thesis by (intro exI [of _ ?s1]) simp
qed

lemma fold_core_put_untouched:
  "ch_paused (fold core_put fs c) = ch_paused c" "ch_reading (fold core_put fs c) = ch_reading c"
  "ch_total (fold core_put fs c) = ch_total c"
  by (induction fs arbitrary: c) (simp_all add: core_put_def)

lemma fold_core_put_buffer: "\<not> waiter_open c \<Longrightarrow> ch_buffer (fold core_put fs c) = ch_buffer c @ fs"
  by (induction fs arbitrary: c) (simp_all add: core_put_def waiter_open_def)

fun drain :: "nat \<Rightarrow> channel \<Rightarrow> channel" where
  "drain 0 c = c"
| "drain (Suc k) c = drain k (snd (channel_get c))"

lemma drain_total: "k \<le> length (ch_buffer c) \<Longrightarrow> ch_total (drain k c) = ch_total c - (\<Sum>f\<leftarrow>take k (ch_buffer c). plen (snd f))"
proof (induction k arbitrary: c)
  case (Suc k)
  then obtain f fs where b: "ch_buffer c = f # fs" by (cases "ch_buffer c") auto
  then have "ch_buffer (snd (channel_get c)) = fs" "ch_total (snd (channel_get c)) = ch_total c - plen (snd f)"
    by (simp_all add: channel_get_def Let_def)
  with Suc b show ?case by simp
qed simp

text \<open>
  frames that arrive over the network bypass the backpressure: the C++ handler puts them
  straight into the buffer, so however many and however large they are, reading is never
  paused, and since receiving still subtracts their size the byte count goes below zero by
  what was received, which also disables the byte limit for \<open>feed\<close>.
\<close>

theorem network_frames_bypass_backpressure:
  assumes "\<not> waiter_open (cw_channel w)" and "ch_buffer (cw_channel w) = []" and "ch_total (cw_channel w) = 0"
    and "cw_pending w = []"
  shows "let c = cw_channel (handle_ws_frames co fs pong None w) in
     ch_buffer c = fs \<and> ch_paused c = ch_paused (cw_channel w) \<and> ch_reading c = ch_reading (cw_channel w)
     \<and> ch_total (drain (length fs) c) = - (\<Sum>f\<leftarrow>fs. plen (snd f))"
proof -
  let ?c = "fold core_put fs (cw_channel w)"
  have "cw_channel (handle_ws_frames co fs pong None w) = ?c"
    using assms(4) by (simp add: handle_ws_frames_def optional_write_def cw_write_def Let_def split: option.splits)
  moreover have "ch_buffer ?c = fs" using assms(1,2) by (simp add: fold_core_put_buffer)
  moreover have "ch_total (drain (length fs) ?c) = - (\<Sum>f\<leftarrow>fs. plen (snd f))"
    using drain_total [of "length fs" ?c] assms(3) \<open>ch_buffer ?c = fs\<close> by (simp add: fold_core_put_untouched)
  ultimately show ?thesis by (simp add: fold_core_put_untouched)
qed

text \<open>The core functions as the Python fallbacks define them.\<close>

definition py_core :: ws_core where
  "py_core = \<lparr>co_frame = build_frame_py, co_close = (\<lambda>c. build_frame_py 8 (pack 2 (nat c))),
     co_batch = (\<lambda>fs. concat (map (\<lambda>(op, p). build_frame_py op p) fs))\<rparr>"

definition fresh_ws :: cpp_ws where
  "fresh_ws = cw_init \<lparr>tr_closing = False, tr_written = []\<rparr>"

theorem network_frames_bypass_backpressure_witness:
  "ch_total (drain 1 (cw_channel (handle_ws_frames py_core [(2, PBytes ''abc'')] None None fresh_ws))) = -3"
  using network_frames_bypass_backpressure [of fresh_ws py_core "[(2, PBytes ''abc'')]" None]
  by (simp add: fresh_ws_def cw_init_def channel_init_def waiter_open_def Let_def)

subsection \<open>Properties: closing\<close>

text \<open>Writing and flushing keep everything but the written bytes and the queues.\<close>

lemma cw_write_keeps [simp]:
  "tr_closing (cw_transport (cw_write b w)) = tr_closing (cw_transport w)"
  "cw_closed (cw_write b w) = cw_closed w" "cw_close_waiter (cw_write b w) = cw_close_waiter w"
  "cw_cork_buf (cw_write b w) = cw_cork_buf w" "cw_pending (cw_write b w) = cw_pending w"
  "cw_corked (cw_write b w) = cw_corked w" "cw_scheduled (cw_write b w) = cw_scheduled w" "cw_channel (cw_write b w) = cw_channel w"
  by (simp_all add: cw_write_def tr_write_def)

lemma flush_pending_keeps [simp]:
  "tr_closing (cw_transport (cw_flush_pending co w)) = tr_closing (cw_transport w)"
  "cw_closed (cw_flush_pending co w) = cw_closed w"
  "cw_pending (cw_flush_pending co w) = []"
  by (auto simp: cw_flush_pending_def Let_def split: list.splits prod.splits)

lemma flush_cork_loop_keeps [simp]:
  "tr_closing (cw_transport (flush_cork_loop co es raw w)) = tr_closing (cw_transport w)"
  "cw_closed (flush_cork_loop co es raw w) = cw_closed w"
  "cw_pending (flush_cork_loop co es raw w) = cw_pending w"
  by (induction co es raw w rule: flush_cork_loop.induct) auto

lemma flush_cork_keeps [simp]:
  "tr_closing (cw_transport (cw_flush_cork co w)) = tr_closing (cw_transport w)"
  "cw_closed (cw_flush_cork co w) = cw_closed w"
  by (simp_all add: cw_flush_cork_def)

lemma cw_close_state:
  assumes "\<not> cw_closed w" and "cw_close co code reason w = (Inr (), w1)"
  shows "cw_closed w1" and "cw_close_waiter w1 = Some False" and "cw_pending w1 = []"
    and "tr_closing (cw_transport w1) = tr_closing (cw_transport w)"
  using assms by (auto simp: cw_close_def Let_def split: sum.splits if_splits)

text \<open>
  when the peer acknowledges a close the server started, the normal frame handler does not
  notice: the handshake future stays pending, so that \<open>close\<close> always waits for its two-second
  timeout, and the acknowledgement is answered with a second close frame. (The handler tests
  \<open>_closed\<close>, which \<open>close\<close> has set before it waits; the echo handler has no such test and does
  resolve the future.)
\<close>

theorem close_ack_unnoticed:
  assumes "\<not> cw_closed w" and "cw_close co code reason w = (Inr (), w1)" and "\<not> tr_closing (cw_transport w)"
  shows "let w2 = handle_ws_frames co [(8, PBytes ack)] None (Some ack) w1 in
     cw_close_waiter w2 = Some False
     \<and> tr_written (cw_transport w2) = tr_written (cw_transport w1) @ [co_close co (int (parse_close_code ack))]
     \<and> cw_close_waiter (handle_ws_frames_echo co None (Some ack) w1) = Some True"
  using cw_close_state [OF assms(1,2)] assms(3)
  by (simp add: handle_ws_frames_def handle_ws_frames_echo_def optional_write_def Let_def
      resolve_close_waiter_def cw_peer_closed_def send_close_response_def tr_write_def)

theorem close_ack_unnoticed_witness:
  "\<exists>w1. cw_close py_core 1000 None fresh_ws = (Inr (), w1)
     \<and> cw_close_waiter (handle_ws_frames py_core [(8, PBytes ''ab'')] None (Some ''ab'') w1) = Some False"
proof -
  have "\<exists>w1. cw_close py_core 1000 None fresh_ws = (Inr (), w1)"
    by (simp add: cw_close_def fresh_ws_def cw_init_def close_frame_def Let_def)
  then obtain w1 where w1: "cw_close py_core 1000 None fresh_ws = (Inr (), w1)" by blast
  have "\<not> cw_closed fresh_ws" "\<not> tr_closing (cw_transport fresh_ws)" by (simp_all add: fresh_ws_def cw_init_def)
  with close_ack_unnoticed [of fresh_ws, OF _ w1, of "''ab''"] w1 show ?thesis by (auto simp: Let_def)
qed

subsection \<open>Properties: corking\<close>

text \<open>What the frame builders of the core promise.\<close>

definition core_ok :: "ws_core \<Rightarrow> bool" where
  "core_ok co \<longleftrightarrow> (\<forall>fs. co_batch co fs = concat (map (\<lambda>(op, p). co_frame co op p) fs))"

definition entry_frame :: "ws_core \<Rightarrow> nat option \<times> bytes \<Rightarrow> bytes" where
  "entry_frame co e = (case e of (None, p) \<Rightarrow> p | (Some op, p) \<Rightarrow> co_frame co op p)"

definition sent :: "cpp_ws \<Rightarrow> bytes" where
  "sent w = concat (tr_written (cw_transport w))"

lemma sent_write: "\<not> tr_closing (cw_transport w) \<Longrightarrow> sent (cw_write b w) = sent w @ b"
  by (simp add: sent_def cw_write_def tr_write_def)

lemma flush_cork_loop_sent:
  assumes "core_ok co" and "\<not> tr_closing (cw_transport w)"
  shows "sent (flush_cork_loop co es raw w) =
     sent w @ concat (map (\<lambda>(op, p). co_frame co op p) raw) @ concat (map (entry_frame co) es)"
  using assms(2)
proof (induction es arbitrary: raw w)
  case Nil
  then show ?case using assms(1) by (simp add: sent_write core_ok_def)
next
  case (Cons e es)
  obtain o' p where e: "e = (o', p)" by (cases e)
  show ?case
  proof (cases o')
    case None
    let ?w = "if raw \<noteq> [] then cw_write (co_batch co raw) w else w"
    have open_w: "\<not> tr_closing (cw_transport (cw_write p ?w))" using Cons.prems by simp
    have "sent ?w = sent w @ concat (map (\<lambda>(op, p). co_frame co op p) raw)"
      using assms(1) Cons.prems by (simp add: sent_write core_ok_def)
    then show ?thesis
      using Cons.IH [OF open_w, of "[]"] Cons.prems e None by (simp add: sent_write entry_frame_def)
  next
    case (Some op)
    then show ?thesis using Cons.IH [OF Cons.prems, of "raw @ [(op, p)]"] e by (simp add: entry_frame_def)
  qed
qed

text \<open>Sending operations of an endpoint, JSON messages given as their finished frames.\<close>

datatype send_op = SendText str | SendBytes bytes | SendJson bytes

fun do_send :: "ws_core \<Rightarrow> send_op \<Rightarrow> cpp_ws \<Rightarrow> cpp_ws res" where
  "do_send co (SendText s) w = cw_send_text co s w"
| "do_send co (SendBytes b) w = cw_send_bytes co b w"
| "do_send co (SendJson f) w = cw_send_json f w"

fun do_sends :: "ws_core \<Rightarrow> send_op list \<Rightarrow> cpp_ws \<Rightarrow> cpp_ws res" where
  "do_sends co [] w = Inr w"
| "do_sends co (x # xs) w = rbind (do_send co x w) (do_sends co xs)"

fun op_frame :: "ws_core \<Rightarrow> send_op \<Rightarrow> bytes" where
  "op_frame co (SendText s) = co_frame co 1 (case utf8_encode s of Inr b \<Rightarrow> b | Inl _ \<Rightarrow> [])"
| "op_frame co (SendBytes b) = co_frame co 2 b"
| "op_frame co (SendJson f) = f"

fun op_entry :: "send_op \<Rightarrow> nat option \<times> bytes" where
  "op_entry (SendText s) = (Some 1, case utf8_encode s of Inr b \<Rightarrow> b | Inl _ \<Rightarrow> [])"
| "op_entry (SendBytes b) = (Some 2, b)"
| "op_entry (SendJson f) = (None, f)"

lemma entry_op_frame: "entry_frame co (op_entry x) = op_frame co x"
  by (cases x) (simp_all add: entry_frame_def)

lemma corked_send:
  assumes "cw_corked w" and "do_send co x w = Inr w'"
  shows "w' = w\<lparr>cw_cork_buf := cw_cork_buf w @ [op_entry x]\<rparr>"
  using assms
  by (cases x) (auto simp: cw_send_text_def cw_send_bytes_def cw_send_json_def cw_send_raw_def split: if_splits)

lemma corked_sends:
  assumes "cw_corked w" and "do_sends co xs w = Inr w'"
  shows "\<exists>es. w' = w\<lparr>cw_cork_buf := cw_cork_buf w @ es\<rparr> \<and> map (entry_frame co) es = map (op_frame co) xs"
  using assms
proof (induction xs arbitrary: w)
  case Nil
  then show ?case by (intro exI [of _ "[]"]) simp
next
  case (Cons x xs)
  then obtain w1 where w1: "do_send co x w = Inr w1" "do_sends co xs w1 = Inr w'" by auto
  note e = corked_send [OF Cons.prems(1) w1(1)]
  with Cons.prems(1) have "cw_corked w1" by simp
  from Cons.IH [OF this w1(2)] obtain es where
    "w' = w1\<lparr>cw_cork_buf := cw_cork_buf w1 @ es\<rparr>" "map (entry_frame co) es = map (op_frame co) xs" by blast
  with e show ?case by (intro exI [of _ "op_entry x # es"]) (simp add: entry_op_frame)
qed

lemma uncorked_send:
  assumes "\<not> cw_corked w" and "cw_pending w = []" and "\<not> cw_scheduled w" and "\<not> tr_closing (cw_transport w)"
    and "do_send co x w = Inr w'"
  shows "sent w' = sent w @ op_frame co x \<and> \<not> cw_corked w' \<and> cw_pending w' = [] \<and> \<not> cw_scheduled w'
     \<and> \<not> tr_closing (cw_transport w')"
  using assms
  by (cases x) (auto simp: cw_send_text_def cw_send_bytes_def cw_send_json_def cw_send_raw_def
      cw_queue_send_def cw_write_frame_def sent_write split: if_splits)

lemma uncorked_sends:
  assumes "\<not> cw_corked w" and "cw_pending w = []" and "\<not> cw_scheduled w" and "\<not> tr_closing (cw_transport w)"
    and "do_sends co xs w = Inr w'"
  shows "sent w' = sent w @ concat (map (op_frame co) xs)"
  using assms
proof (induction xs arbitrary: w)
  case (Cons x xs)
  then obtain w1 where w1: "do_send co x w = Inr w1" "do_sends co xs w1 = Inr w'" by auto
  from uncorked_send [OF Cons.prems(1-4) w1(1)] Cons.IH [OF _ _ _ _ w1(2)] show ?case by simp
qed simp

text \<open>
  corking changes the timing of writes and nothing else: sending any mixture of text,
  binary and JSON messages between \<open>cork\<close> and \<open>uncork\<close> puts the same bytes on the wire as
  sending them one by one, every frame in order.
\<close>

theorem cork_preserves_wire:
  assumes "core_ok co" and "\<not> cw_corked w" and "cw_cork_buf w = []" and "cw_pending w = []" and "\<not> cw_scheduled w"
    and "\<not> tr_closing (cw_transport w)"
    and "do_sends co xs w = Inr w1" and "do_sends co xs (cw_cork w) = Inr w2"
  shows "sent (cw_uncork co w2) = sent w1 \<and> sent w1 = sent w @ concat (map (op_frame co) xs)"
proof -
  have direct: "sent w1 = sent w @ concat (map (op_frame co) xs)"
    by (rule uncorked_sends [OF assms(2,4,5,6,7)])
  have "cw_corked (cw_cork w)" by (simp add: cw_cork_def)
  from corked_sends [OF this assms(8)] obtain es where
    es: "w2 = (cw_cork w)\<lparr>cw_cork_buf := cw_cork_buf (cw_cork w) @ es\<rparr>" "map (entry_frame co) es = map (op_frame co) xs" by blast
  have buf: "cw_cork_buf w2 = es" and tr: "cw_transport w2 = cw_transport w"
    using es(1) assms(3) by (simp_all add: cw_cork_def)
  have "sent (flush_cork_loop co es [] w2) = sent w @ concat (map (op_frame co) xs)"
    using flush_cork_loop_sent [OF assms(1), of w2 es "[]"] assms(6) es(2) tr by (simp add: sent_def)
  then have "sent (cw_uncork co w2) = sent w @ concat (map (op_frame co) xs)"
    using buf tr assms(6) es(2) by (auto simp: cw_uncork_def cw_flush_cork_def sent_def)
  with direct show ?thesis by simp
qed

theorem cork_preserves_wire_witness:
  "\<exists>w1 w2. do_sends py_core [SendBytes ''ab'', SendJson ''x'', SendBytes ''c''] fresh_ws = Inr w1
     \<and> do_sends py_core [SendBytes ''ab'', SendJson ''x'', SendBytes ''c''] (cw_cork fresh_ws) = Inr w2
     \<and> sent (cw_uncork py_core w2) = sent w1"
proof -
  let ?xs = "[SendBytes ''ab'', SendJson ''x'', SendBytes ''c'']"
  have "\<exists>w1. do_sends py_core ?xs fresh_ws = Inr w1" "\<exists>w2. do_sends py_core ?xs (cw_cork fresh_ws) = Inr w2"
    by (simp_all add: fresh_ws_def cw_init_def cw_cork_def cw_send_bytes_def cw_send_json_def cw_send_raw_def
        cw_queue_send_def cw_write_def tr_write_def cw_write_frame_def)
  then obtain w1 w2 where w: "do_sends py_core ?xs fresh_ws = Inr w1" "do_sends py_core ?xs (cw_cork fresh_ws) = Inr w2" by blast
  have "core_ok py_core" by (simp add: core_ok_def py_core_def)
  from cork_preserves_wire [OF this _ _ _ _ _ w] w show ?thesis
    by (auto simp: fresh_ws_def cw_init_def)
qed

subsection \<open>Properties: chunked binary reading\<close>

lemma slice_chunks_props:
  "0 < n \<Longrightarrow> concat (fst (slice_chunks n b)) @ snd (slice_chunks n b) = b
     \<and> (\<forall>c\<in>set (fst (slice_chunks n b)). length c = n) \<and> length (snd (slice_chunks n b)) < n"
proof (induction n b rule: slice_chunks.induct)
  case (1 n b)
  show ?case
  proof (cases "length b < n")
    case True
    then show ?thesis using 1(2) by (subst (1 2 3 4) slice_chunks.simps) simp
  next
    case False
    obtain cs r where rec: "slice_chunks n (drop n b) = (cs, r)" by fastforce
    have IH: "concat cs @ r = drop n b" "\<forall>c\<in>set cs. length c = n" "length r < n"
      using 1(1) [OF _ 1(2)] False 1(2) rec by auto
    have "slice_chunks n b = (take n b # cs, r)" using False 1(2) rec by (simp add: slice_chunks.simps [of n b])
    then show ?thesis using IH False by simp
  qed
qed

text \<open>
  Reading in chunks loses nothing: the chunks make up the binary payloads before the close
  frame, and every chunk but the last has exactly the chunk size.
\<close>

lemma iter_binary_chunks_complete:
  assumes "0 < n" and "length acc < n" and "\<forall>f\<in>set fs. fst f \<noteq> 8"
  shows "\<exists>cs rest. iter_binary_chunks n (fs @ [(8, p)]) acc = Some (cs @ (if rest = [] then [] else [rest]))
     \<and> concat cs @ rest = acc @ concat (map (\<lambda>f. case snd f of PBytes b \<Rightarrow> b | _ \<Rightarrow> []) fs)
     \<and> (\<forall>c\<in>set cs. length c = n) \<and> length rest < n"
  using assms(2,3)
proof (induction fs arbitrary: acc)
  case Nil
  then show ?case by (intro exI [of _ "[]"] exI [of _ acc]) simp
next
  case (Cons f fs)
  obtain op q where f: "f = (op, q)" "op \<noteq> 8" using Cons.prems(2) by (cases f) auto
  show ?case
  proof (cases q)
    case (PBytes b)
    obtain cs0 r0 where sl: "slice_chunks n (acc @ b) = (cs0, r0)" by fastforce
    from slice_chunks_props [OF assms(1), of "acc @ b"] sl
    have s: "concat cs0 @ r0 = acc @ b" "\<forall>c\<in>set cs0. length c = n" "length r0 < n" by simp_all
    obtain cs rest where IH: "iter_binary_chunks n (fs @ [(8, p)]) r0 = Some (cs @ (if rest = [] then [] else [rest]))"
      "concat cs @ rest = r0 @ concat (map (\<lambda>f. case snd f of PBytes b \<Rightarrow> b | _ \<Rightarrow> []) fs)"
      "\<forall>c\<in>set cs. length c = n" "length rest < n" using Cons.IH [OF s(3)] Cons.prems(2) by auto
    have "concat (cs0 @ cs) @ rest = acc @ b @ concat (map (\<lambda>f. case snd f of PBytes b \<Rightarrow> b | _ \<Rightarrow> []) fs)"
      using IH(2) s(1) by (metis append_assoc concat_append)
    then show ?thesis
      using f PBytes sl IH s(2) by (intro exI [of _ "cs0 @ cs"] exI [of _ rest]) (auto split: if_splits)
  next
    case (PText x2)
    then show ?thesis using Cons f by auto
  next
    case (PParsed x3)
    then show ?thesis using Cons f by auto
  qed
qed

text \<open>The loops yield the text messages up to the close frame, end quietly and mark the connection.\<close>

lemma iter_text_until_close:
  assumes "\<forall>f\<in>set fs. fst f \<noteq> 8 \<and> (\<exists>s. snd f = PText s)"
  shows "iter_frames cw_receive_text (fs @ (8, p) # gs) w =
     (map (\<lambda>f. case snd f of PText s \<Rightarrow> s | _ \<Rightarrow> []) fs, Some (Inr ()), cw_peer_closed w)"
  using assms
proof (induction fs)
  case (Cons f fs)
  then obtain op s where "f = (op, PText s)" "op \<noteq> 8" by (cases f) auto
  with Cons show ?case by (simp add: cw_receive_text_def)
qed (simp add: cw_receive_text_def)

text \<open>
  In JSON mode a message that is a JSON string is parsed twice: C++ hands over the decoded
  string, \<open>receive_json\<close> cannot tell it from an unparsed message, and returns what the parser
  makes of the contents instead of the string that was sent.
\<close>

lemma json_string_parsed_twice:
  assumes "parse t = Inr (JString s)"
  shows "cw_receive_json parse pb (1, json_mode_payload parse t) w = (parse s, w)"
  using assms by (simp add: cw_receive_json_def json_mode_payload_def)

subsection \<open>Properties: the route cache\<close>

text \<open>
  The reference: all keys ever put, in the order of their last use, without a bound. Looking
  up a key that is no longer among the last \<open>n\<close> counts as a miss and is no use of it.
\<close>

datatype 'v lru_op = Put str 'v | Get str

definition last_n :: "nat \<Rightarrow> 'a list \<Rightarrow> 'a list" where
  "last_n n xs = drop (length xs - n) xs"

definition recency_step :: "nat \<Rightarrow> 'v lru_op \<Rightarrow> (str, 'v) dict \<Rightarrow> (str, 'v) dict" where
  "recency_step n x r =
     (case x of
        Put k v \<Rightarrow> dict_del k r @ [(k, v)]
      | Get k \<Rightarrow> (case map_of (last_n n r) k of None \<Rightarrow> r | Some v \<Rightarrow> dict_del k r @ [(k, v)]))"

fun lru_step :: "'v lru_op \<Rightarrow> 'v lru \<Rightarrow> 'v lru res" where
  "lru_step (Put k v) c = lru_put c k v"
| "lru_step (Get k) c = Inr (snd (lru_get c k))"

fun lru_run :: "'v lru_op list \<Rightarrow> 'v lru \<Rightarrow> 'v lru res" where
  "lru_run [] c = Inr c"
| "lru_run (x # xs) c = rbind (lru_step x c) (lru_run xs)"

lemma dict_del_append: "dict_del k (a @ b) = dict_del k a @ dict_del k b"
  by (induction a) (auto simp: dict_del_def)

lemma dict_del_absent: "k \<notin> fst ` set d \<Longrightarrow> dict_del k d = d"
  by (simp add: dict_del_def delete_id)

lemma length_dict_del: "dict_wf d \<Longrightarrow> k \<in> fst ` set d \<Longrightarrow> length (dict_del k d) = length d - 1"
proof -
  assume wf: "dict_wf d" and k: "k \<in> fst ` set d"
  then obtain v where "(k, v) \<in> set d" by auto
  then obtain a b where d: "d = a @ (k, v) # b" by (metis split_list)
  then have abs: "k \<notin> fst ` set a" "k \<notin> fst ` set b" using wf by (auto simp: dict_wf_def)
  have "dict_del k ((k, v) # b) = dict_del k b" by (simp add: dict_del_def)
  then have "dict_del k d = a @ b" using d abs by (simp add: dict_del_append dict_del_absent)
  with d show ?thesis by simp
qed

lemma dict_wf_move: "dict_wf r \<Longrightarrow> dict_wf (dict_del k r @ [(k, v)])"
  using dict_wf_del [of r k] by (auto simp: dict_wf_def dict_del_def delete_keys)

lemma last_n_snoc: "0 < n \<Longrightarrow> last_n n (xs @ [x]) = last_n (n - 1) xs @ [x]"
  by (simp add: last_n_def)

lemma last_n_append: "length b = m \<Longrightarrow> last_n m (a @ b) = b" "length b = Suc m \<Longrightarrow> last_n m (a @ b) = tl b"
  by (simp_all add: last_n_def drop_Suc Suc_diff_le)

lemma last_n_split:
  obtains a where "r = a @ last_n n r" "length (last_n n r) < n \<Longrightarrow> a = []" "length (last_n n r) \<le> n"
proof
  show "r = take (length r - n) r @ last_n n r" by (simp add: last_n_def)
qed (simp_all add: last_n_def)

text \<open>What the most recent \<open>n\<close> entries become when a key is moved to the end of the history.\<close>

lemma last_n_move:
  assumes n: "0 < n" and wf: "dict_wf r"
  shows "last_n n (dict_del k r @ [(k, v)]) =
    (if k \<in> fst ` set (last_n n r) then dict_del k (last_n n r) @ [(k, v)]
     else if n \<le> length (last_n n r) then tl (last_n n r) @ [(k, v)]
     else last_n n r @ [(k, v)])"
proof -
  obtain a where a: "r = a @ last_n n r" "length (last_n n r) < n \<Longrightarrow> a = []" "length (last_n n r) \<le> n"
    using last_n_split [of r n] by blast
  define b where "b = last_n n r"
  have r: "r = a @ b" and sh: "length b < n \<Longrightarrow> a = []" and le: "length b \<le> n" using a by (simp_all add: b_def)
  have wfb: "dict_wf b" and dis: "k \<in> fst ` set b \<Longrightarrow> k \<notin> fst ` set a"
    using wf r by (auto simp: dict_wf_def)
  have del: "dict_del k r = dict_del k a @ dict_del k b" by (simp add: r dict_del_append)
  have "last_n (n - 1) (dict_del k r) =
    (if k \<in> fst ` set b then dict_del k b else if n \<le> length b then tl b else b)"
  proof (cases "k \<in> fst ` set b")
    case True
    then have len: "length (dict_del k b) = length b - 1" and d: "dict_del k r = a @ dict_del k b"
      using wfb dis del by (simp_all add: length_dict_del dict_del_absent)
    show ?thesis
    proof (cases "length b = n")
      case False
      with len d sh le True show ?thesis by (simp add: last_n_def)
    qed (use len d True in \<open>simp add: last_n_append(1)\<close>)
  next
    case False
    then have d: "dict_del k r = dict_del k a @ b" using del by (simp add: dict_del_absent)
    show ?thesis
    proof (cases "length b = n")
      case True
      with d False n show ?thesis by (simp add: last_n_append(2))
    next
      case ne: False
      with sh le have "a = []" by simp
      with d False ne le show ?thesis by (simp add: last_n_def dict_del_def)
    qed
  qed
  then show ?thesis using n by (simp add: last_n_snoc b_def)
qed

lemma lru_step_refines:
  assumes "0 < n" and "dict_wf r" and "c = \<lparr>lru_cache = last_n n r, lru_max = n\<rparr>"
  shows "lru_step x c = Inr \<lparr>lru_cache = last_n n (recency_step n x r), lru_max = n\<rparr>
     \<and> dict_wf (recency_step n x r)"
proof (cases x)
  case (Put k v)
  have "last_n n r \<noteq> []" if "n \<le> length (last_n n r)" using that assms(1) by auto
  then show ?thesis using Put assms
    by (auto simp: lru_put_def recency_step_def last_n_move dict_wf_move dict_has_iff map_of_eq_None_iff move_to_end_def split: list.splits)
next
  case (Get k)
  have "k \<in> fst ` set (last_n n r)" if "map_of (last_n n r) k = Some v" for v
    using map_of_SomeD [OF that] by force
  then show ?thesis using Get assms
    by (auto simp: lru_get_def recency_step_def last_n_move dict_wf_move move_to_end_def split: option.splits)
qed

lemma lru_run_refines:
  assumes "0 < n"
  shows "dict_wf r \<Longrightarrow> lru_run xs \<lparr>lru_cache = last_n n r, lru_max = n\<rparr> =
     Inr \<lparr>lru_cache = last_n n (fold (recency_step n) xs r), lru_max = n\<rparr>
     \<and> dict_wf (fold (recency_step n) xs r)"
proof (induction xs arbitrary: r)
  case (Cons x xs)
  from lru_step_refines [OF assms Cons.prems refl, of x] Cons.IH show ?case by simp
qed simp

text \<open>
  The bounded route cache implements the unbounded history of uses: after any sequence of
  \<open>put\<close> and \<open>get\<close> on a fresh cache of positive size, no operation has raised and the cache holds
  exactly the \<open>n\<close> most recently used entries of the history, oldest first.
\<close>

theorem lru_refines_recency:
  assumes "0 < n"
  shows "lru_run xs (lru_init n) =
     Inr \<lparr>lru_cache = last_n n (fold (recency_step n) xs []), lru_max = n\<rparr>"
  using lru_run_refines [OF assms, of "[]" xs] by (simp add: lru_init_def last_n_def)

theorem lru_refines_recency_witness:
  "lru_run [Put (S ''a'') (1::nat), Put (S ''b'') 2, Get (S ''a''), Put (S ''c'') 3] (lru_init 2) =
     Inr \<lparr>lru_cache = [(S ''a'', 1), (S ''c'', 3)], lru_max = 2\<rparr>"
  using lru_refines_recency [of 2 "[Put (S ''a'') (1::nat), Put (S ''b'') 2, Get (S ''a''), Put (S ''c'') 3]"]
  by (simp add: recency_step_def last_n_def dict_del_def S_def)

end
