(* ===== verification/WebSockets.thy ===== *)
theory WebSockets
  imports WsServer
begin

text \<open>
  \<open>astraapi/_websocket.py\<close>, the ASGI \<open>WebSocket\<close> class, and \<open>astraapi/_ws_groups.py\<close>, the groups
  for broadcasting. A connection runs over the two callables it is given: over a plain ASGI
  channel, or over the bound methods of a \<open>CppWebSocket\<close>, whose sending and receiving methods
  it then calls directly. The callables are the record \<open>ws_ops\<close>; both instances are defined.
\<close>

subsection \<open>The channel below a connection\<close>

text \<open>\<open>None\<close> as the result of a receiving operation: nothing has arrived yet and it waits.\<close>

record 'c ws_direct =
  wd_send_text :: "str \<Rightarrow> 'c \<Rightarrow> unit res \<times> 'c"
  wd_send_bytes :: "bytes \<Rightarrow> 'c \<Rightarrow> unit res \<times> 'c"
  wd_receive_text :: "'c \<Rightarrow> (str res \<times> 'c) option"
  wd_receive_bytes :: "'c \<Rightarrow> (payload res \<times> 'c) option"

record 'c ws_ops =
  op_receive :: "'c \<Rightarrow> (ws_event res \<times> 'c) option"
  op_send :: "ws_msg \<Rightarrow> 'c \<Rightarrow> unit res \<times> 'c"
  op_direct :: "'c ws_direct option"

record 'c websocket =
  ws_client :: wstate
  ws_app :: wstate
  ws_chan :: 'c

definition ws_init :: "'c \<Rightarrow> 'c websocket" where
  "ws_init c = \<lparr>ws_client = CONNECTING, ws_app = CONNECTING, ws_chan = c\<rparr>"

text \<open>A plain channel: the events that will arrive and the messages sent.\<close>

record plain =
  pl_events :: "ws_event list"
  pl_sent :: "ws_msg list"

definition plain_receive :: "plain \<Rightarrow> (ws_event res \<times> plain) option" where
  "plain_receive c = (case pl_events c of [] \<Rightarrow> None | e # es \<Rightarrow> Some (Inr e, c\<lparr>pl_events := es\<rparr>))"

definition plain_send :: "ws_msg \<Rightarrow> plain \<Rightarrow> unit res \<times> plain" where
  "plain_send m c = (Inr (), c\<lparr>pl_sent := pl_sent c @ [m]\<rparr>)"

definition plain_ops :: "plain ws_ops" where
  "plain_ops = \<lparr>op_receive = plain_receive, op_send = plain_send, op_direct = None\<rparr>"

text \<open>
  The C++ connection as a channel: a receiving method takes the next frame of the message
  channel, and waits when there is none (the frame is then put in by the frame handlers).
\<close>

definition with_frame :: "(frame \<Rightarrow> cpp_ws \<Rightarrow> 'a res \<times> cpp_ws) \<Rightarrow> cpp_ws \<Rightarrow> ('a res \<times> cpp_ws) option" where
  "with_frame recv w =
     (case channel_get (cw_channel w) of
        (None, ch) \<Rightarrow> None
      | (Some f, ch) \<Rightarrow> Some (recv f (w\<lparr>cw_channel := ch\<rparr>)))"

definition cpp_receive :: "cpp_ws \<Rightarrow> (ws_event res \<times> cpp_ws) option" where
  "cpp_receive w = (if cw_app w = CONNECTING then Some (Inr WsConnect, w) else with_frame cw_receive w)"

definition cpp_ops :: "ws_core \<Rightarrow> cpp_ws ws_ops" where
  "cpp_ops co =
     \<lparr>op_receive = cpp_receive, op_send = cw_send co,
      op_direct = Some
        \<lparr>wd_send_text = (\<lambda>s w. lift_send (cw_send_text co s w) w),
         wd_send_bytes = (\<lambda>b w. lift_send (cw_send_bytes co b w) w),
         wd_receive_text = with_frame cw_receive_text,
         wd_receive_bytes = with_frame cw_receive_bytes\<rparr>\<rparr>"

subsection \<open>Operations of the connection\<close>

fun event_type :: "ws_event \<Rightarrow> str" where
  "event_type WsConnect = S ''websocket.connect''"
| "event_type (WsReceive t b) = S ''websocket.receive''"
| "event_type (WsDisconnect c r) = S ''websocket.disconnect''"
| "event_type (WsOtherEvent t) = t"

definition ws_put :: "'c \<Rightarrow> 'c websocket \<Rightarrow> 'c websocket" where
  "ws_put c w = w\<lparr>ws_chan := c\<rparr>"

text \<open>
  Sends \<open>m\<close>; the state changes only when \<open>send\<close> returned.
\<close>

definition send_then :: "'c ws_ops \<Rightarrow> ws_msg \<Rightarrow> ('c websocket \<Rightarrow> 'c websocket) \<Rightarrow> 'c websocket \<Rightarrow> unit res \<times> 'c websocket" where
  "send_then ops m f w =
     (case op_send ops m (ws_chan w) of
        (Inl e, c) \<Rightarrow> (Inl e, ws_put c w)
      | (Inr _, c) \<Rightarrow> (Inr (), f (ws_put c w)))"

definition ws_accept :: "'c ws_ops \<Rightarrow> str option \<Rightarrow> resp_headers option \<Rightarrow> 'c websocket \<Rightarrow> (unit res \<times> 'c websocket) option" where
  "ws_accept ops sub hs w =
     (let go = send_then ops (WsAccept sub hs) (\<lambda>v. v\<lparr>ws_app := CONNECTED\<rparr>) in
      if ws_client w = CONNECTING then
        (case op_receive ops (ws_chan w) of
           None \<Rightarrow> None
         | Some (Inl e, c) \<Rightarrow> Some (Inl e, ws_put c w)
         | Some (Inr ev, c) \<Rightarrow>
             if event_type ev \<noteq> S ''websocket.connect''
             then Some (Inl (RuntimeError (S ''Expected '' @ [39] @ S ''websocket.connect'' @ [39] @ S '', got '' @ [39] @ event_type ev @ [39])), ws_put c w)
             else Some (go ((ws_put c w)\<lparr>ws_client := CONNECTED\<rparr>)))
      else Some (go w))"

definition ws_close :: "'c ws_ops \<Rightarrow> int \<Rightarrow> str option \<Rightarrow> 'c websocket \<Rightarrow> unit res \<times> 'c websocket" where
  "ws_close ops code reason w =
     (if ws_app w \<in> {CONNECTING, CONNECTED}
      then send_then ops (WsClose (Some code) reason) (\<lambda>v. v\<lparr>ws_app := DISCONNECTED\<rparr>) w
      else (Inr (), w))"

definition state_name :: "wstate \<Rightarrow> str" where
  "state_name s = (case s of CONNECTING \<Rightarrow> S ''CONNECTING'' | CONNECTED \<Rightarrow> S ''CONNECTED'' | DISCONNECTED \<Rightarrow> S ''DISCONNECTED'')"

definition assert_connected :: "'c websocket \<Rightarrow> unit res" where
  "assert_connected w =
     (if ws_app w \<noteq> CONNECTED
      then Inl (RuntimeError (S ''WebSocket is not connected (state='' @ state_name (ws_app w) @ S '')''))
      else if ws_client w = DISCONNECTED then Inl (WebSocketDisconnect 1000 [])
      else Inr ())"

definition ws_send_text :: "'c ws_ops \<Rightarrow> str \<Rightarrow> 'c websocket \<Rightarrow> unit res \<times> 'c websocket" where
  "ws_send_text ops s w =
     (case assert_connected w of
        Inl e \<Rightarrow> (Inl e, w)
      | Inr _ \<Rightarrow>
          (case op_direct ops of
             Some d \<Rightarrow> (case wd_send_text d s (ws_chan w) of (r, c) \<Rightarrow> (r, ws_put c w))
           | None \<Rightarrow> send_then ops (WsSend (Some s) None) id w))"

definition ws_send_bytes :: "'c ws_ops \<Rightarrow> bytes \<Rightarrow> 'c websocket \<Rightarrow> unit res \<times> 'c websocket" where
  "ws_send_bytes ops b w =
     (case assert_connected w of
        Inl e \<Rightarrow> (Inl e, w)
      | Inr _ \<Rightarrow>
          (case op_direct ops of
             Some d \<Rightarrow> (case wd_send_bytes d b (ws_chan w) of (r, c) \<Rightarrow> (r, ws_put c w))
           | None \<Rightarrow> send_then ops (WsSend None (Some b)) id w))"

text \<open>
  \<open>dumps\<close> is the text the serializers make of the value, sent as UTF-8 in binary mode. (The code
  also catches a \<open>ValueError\<close> or \<open>TypeError\<close> of \<open>send\<close> itself and sends once more; the two channels
  raise neither for serialized text.)
\<close>

definition ws_send_json :: "'c ws_ops \<Rightarrow> str \<Rightarrow> bool \<Rightarrow> 'c websocket \<Rightarrow> unit res \<times> 'c websocket" where
  "ws_send_json ops dumps text_mode w =
     (case assert_connected w of
        Inl e \<Rightarrow> (Inl e, w)
      | Inr _ \<Rightarrow>
          if text_mode then send_then ops (WsSend (Some dumps) None) id w
          else (case utf8_encode dumps of
                  Inl e \<Rightarrow> (Inl e, w)
                | Inr b \<Rightarrow> send_then ops (WsSend None (Some b)) id w))"

definition receive_message :: "'c ws_ops \<Rightarrow> 'c websocket \<Rightarrow> ((str option \<times> payload option) res \<times> 'c websocket) option" where
  "receive_message ops w =
     (if ws_client w = DISCONNECTED then Some (Inl (WebSocketDisconnect 1000 []), w)
      else case op_receive ops (ws_chan w) of
             None \<Rightarrow> None
           | Some (Inl e, c) \<Rightarrow> Some (Inl e, ws_put c w)
           | Some (Inr ev, c) \<Rightarrow>
               (case ev of
                  WsReceive t b \<Rightarrow> Some (Inr (t, b), ws_put c w)
                | WsDisconnect code reason \<Rightarrow>
                    Some (Inl (WebSocketDisconnect (get_or code 1000) (get_or reason [])),
                          (ws_put c w)\<lparr>ws_client := DISCONNECTED\<rparr>)
                | _ \<Rightarrow> Some (Inl (RuntimeError (S ''Unexpected ASGI message type: '' @ event_type ev)), ws_put c w)))"

text \<open>Asserts the state, receives a message and takes a part of it.\<close>

definition receive_part :: "'c ws_ops \<Rightarrow> (str option \<times> payload option \<Rightarrow> 'a res) \<Rightarrow> 'c websocket \<Rightarrow> ('a res \<times> 'c websocket) option" where
  "receive_part ops part w =
     (case assert_connected w of
        Inl e \<Rightarrow> Some (Inl e, w)
      | Inr _ \<Rightarrow> map_option (\<lambda>(r, w'). (rbind r part, w')) (receive_message ops w))"

fun text_part :: "str option \<times> payload option \<Rightarrow> str res" where
  "text_part (None, b) = Inl (RuntimeError (S ''Expected text frame, got binary''))"
| "text_part (Some t, b) = Inr t"

fun bytes_part :: "str option \<times> payload option \<Rightarrow> payload res" where
  "bytes_part (t, None) = Inl (RuntimeError (S ''Expected binary frame, got text''))"
| "bytes_part (t, Some b) = Inr b"

definition ws_receive_text :: "'c ws_ops \<Rightarrow> 'c websocket \<Rightarrow> (str res \<times> 'c websocket) option" where
  "ws_receive_text ops w =
     (case op_direct ops of
        Some d \<Rightarrow> map_option (\<lambda>(r, c). (r, ws_put c w)) (wd_receive_text d (ws_chan w))
      | None \<Rightarrow> receive_part ops text_part w)"

definition ws_receive_bytes :: "'c ws_ops \<Rightarrow> 'c websocket \<Rightarrow> (payload res \<times> 'c websocket) option" where
  "ws_receive_bytes ops w =
     (case op_direct ops of
        Some d \<Rightarrow> map_option (\<lambda>(r, c). (r, ws_put c w)) (wd_receive_bytes d (ws_chan w))
      | None \<Rightarrow> receive_part ops bytes_part w)"

definition ws_receive_json :: "'c ws_ops \<Rightarrow> (payload \<Rightarrow> jval res) \<Rightarrow> bool \<Rightarrow> 'c websocket \<Rightarrow> (jval res \<times> 'c websocket) option" where
  "ws_receive_json ops loads text_mode w =
     receive_part ops
       (\<lambda>m. if text_mode then rbind (text_part m) (\<lambda>t. loads (PText t)) else rbind (bytes_part m) loads) w"

text \<open>
  \<open>__aiter__\<close> on at most \<open>n\<close> further messages: what is yielded, and the exception that ended the
  loop, \<open>None\<close> when it is still waiting or the count is used up.
\<close>

fun ws_aiter :: "'c ws_ops \<Rightarrow> nat \<Rightarrow> 'c websocket \<Rightarrow> (str option \<times> payload option) list \<times> unit res option \<times> 'c websocket" where
  "ws_aiter ops 0 w = ([], None, w)"
| "ws_aiter ops (Suc n) w =
     (case receive_message ops w of
        None \<Rightarrow> ([], None, w)
      | Some (Inl (WebSocketDisconnect c r), w') \<Rightarrow> ([], Some (Inr ()), w')
      | Some (Inl e, w') \<Rightarrow> ([], Some (Inl e), w')
      | Some (Inr (t, b), w') \<Rightarrow>
          (case ws_aiter ops n w' of
             (ys, r) \<Rightarrow> ((case t of Some s \<Rightarrow> (Some s, None) | None \<Rightarrow> (None, Some (get_or b (PBytes [])))) # ys, r)))"

subsection \<open>Connection groups\<close>

text \<open>
  \<open>WsConnectionGroup\<close>: the sets of a group as lists without duplicates, connections as the
  addresses of a heap. \<open>gr_collect\<close> is what the weak references do when a connection dies.
\<close>

type_synonym groups = "(str, nat list) dict"

definition set_add :: "nat \<Rightarrow> nat list \<Rightarrow> nat list" where
  "set_add x xs = (if x \<in> set xs then xs else xs @ [x])"

definition gr_join :: "nat \<Rightarrow> str \<Rightarrow> groups \<Rightarrow> groups" where
  "gr_join ws grp gs = dict_set grp (set_add ws (get_or (map_of gs grp) [])) gs"

definition gr_leave :: "nat \<Rightarrow> str \<Rightarrow> groups \<Rightarrow> groups" where
  "gr_leave ws grp gs =
     (case map_of gs grp of
        None \<Rightarrow> gs
      | Some s \<Rightarrow>
          if s = [] then gs
          else (let s' = removeAll ws s
                in if s' = [] then dict_del grp gs else dict_set grp s' gs))"

definition gr_collect :: "nat \<Rightarrow> groups \<Rightarrow> groups" where
  "gr_collect ws gs = map (\<lambda>(name, s). (name, removeAll ws s)) gs"

definition gr_leave_all :: "nat \<Rightarrow> groups \<Rightarrow> groups" where
  "gr_leave_all ws gs =
     (let gs' = gr_collect ws gs;
          empty = map fst (filter (\<lambda>(name, s). s = []) gs')
      in fold dict_del empty gs')"

fun broadcast_loop :: "bytes \<Rightarrow> nat list \<Rightarrow> (nat \<Rightarrow> cpp_ws) \<Rightarrow> nat \<Rightarrow> nat \<times> (nat \<Rightarrow> cpp_ws)" where
  "broadcast_loop frame [] h count = (count, h)"
| "broadcast_loop frame (w # ws) h count =
     (if \<not> cw_closed (h w) then broadcast_loop frame ws (h(w := cw_write_frame frame (h w))) (count + 1)
      else broadcast_loop frame ws h count)"

definition broadcast :: "ws_core \<Rightarrow> nat \<Rightarrow> str \<Rightarrow> bytes res \<Rightarrow> groups \<Rightarrow> (nat \<Rightarrow> cpp_ws) \<Rightarrow> (nat \<times> (nat \<Rightarrow> cpp_ws)) res" where
  "broadcast co opcode grp payload gs h =
     (case map_of gs grp of
        None \<Rightarrow> Inr (0, h)
      | Some s \<Rightarrow>
          if s = [] then Inr (0, h)
          else rbind payload (\<lambda>p. Inr (broadcast_loop (co_frame co opcode p) s h 0)))"

definition broadcast_text :: "ws_core \<Rightarrow> str \<Rightarrow> str \<Rightarrow> groups \<Rightarrow> (nat \<Rightarrow> cpp_ws) \<Rightarrow> (nat \<times> (nat \<Rightarrow> cpp_ws)) res" where
  "broadcast_text co grp data gs h = broadcast co 1 grp (utf8_encode data) gs h"

definition broadcast_bytes :: "ws_core \<Rightarrow> str \<Rightarrow> bytes \<Rightarrow> groups \<Rightarrow> (nat \<Rightarrow> cpp_ws) \<Rightarrow> (nat \<times> (nat \<Rightarrow> cpp_ws)) res" where
  "broadcast_bytes co grp data gs h = broadcast co 2 grp (Inr data) gs h"

text \<open>The serialized value, which goes out as a text frame unchanged; its failure comes first.\<close>

definition broadcast_json :: "ws_core \<Rightarrow> str \<Rightarrow> bytes res \<Rightarrow> groups \<Rightarrow> (nat \<Rightarrow> cpp_ws) \<Rightarrow> (nat \<times> (nat \<Rightarrow> cpp_ws)) res" where
  "broadcast_json co grp json_bytes gs h = rbind json_bytes (\<lambda>p. broadcast co 1 grp (Inr p) gs h)"

definition gr_members :: "str \<Rightarrow> groups \<Rightarrow> nat" where
  "gr_members grp gs = (case map_of gs grp of None \<Rightarrow> 0 | Some s \<Rightarrow> length s)"

definition groups_for :: "nat \<Rightarrow> groups \<Rightarrow> str list" where
  "groups_for ws gs = map fst (filter (\<lambda>(name, s). ws \<in> set s) gs)"

subsection \<open>Properties: the order of messages\<close>

text \<open>
  What an ASGI server accepts from a WebSocket application: an accept or a close first, data
  only while open, nothing after the close.
\<close>

datatype pstate = PIdle | POpen | PClosed | PBroken

fun pstep :: "pstate \<Rightarrow> ws_msg \<Rightarrow> pstate" where
  "pstep PIdle (WsAccept sub hs) = POpen"
| "pstep PIdle (WsClose code reason) = PClosed"
| "pstep POpen (WsSend t b) = POpen"
| "pstep POpen (WsClose code reason) = PClosed"
| "pstep s m = PBroken"

definition protocol_state :: "ws_msg list \<Rightarrow> pstate" where
  "protocol_state ms = foldl pstep PIdle ms"

fun pstate_of :: "wstate \<Rightarrow> pstate" where
  "pstate_of CONNECTING = PIdle"
| "pstate_of CONNECTED = POpen"
| "pstate_of DISCONNECTED = PClosed"

lemma protocol_state_simps [simp]:
  "protocol_state [] = PIdle" "protocol_state (ms @ [m]) = pstep (protocol_state ms) m"
  by (simp_all add: protocol_state_def)

datatype ws_call =
    CAccept "str option" "resp_headers option"
  | CClose int "str option"
  | CSendText str
  | CSendBytes bytes
  | CSendJson str bool
  | CReceiveText
  | CReceiveBytes
  | CReceiveJson bool
  | CIterate nat

text \<open>The state after a call; a call that waits leaves it as it is.\<close>

definition after_wait :: "('a \<times> 'c websocket) option \<Rightarrow> 'c websocket \<Rightarrow> 'c websocket" where
  "after_wait r w = (case r of None \<Rightarrow> w | Some (x, w') \<Rightarrow> w')"

fun run_call :: "'c ws_ops \<Rightarrow> (payload \<Rightarrow> jval res) \<Rightarrow> ws_call \<Rightarrow> 'c websocket \<Rightarrow> 'c websocket" where
  "run_call ops loads (CAccept sub hs) w = after_wait (ws_accept ops sub hs w) w"
| "run_call ops loads (CClose code reason) w = snd (ws_close ops code reason w)"
| "run_call ops loads (CSendText s) w = snd (ws_send_text ops s w)"
| "run_call ops loads (CSendBytes b) w = snd (ws_send_bytes ops b w)"
| "run_call ops loads (CSendJson s t) w = snd (ws_send_json ops s t w)"
| "run_call ops loads CReceiveText w = after_wait (ws_receive_text ops w) w"
| "run_call ops loads CReceiveBytes w = after_wait (ws_receive_bytes ops w) w"
| "run_call ops loads (CReceiveJson t) w = after_wait (ws_receive_json ops loads t w) w"
| "run_call ops loads (CIterate n) w = snd (snd (ws_aiter ops n w))"

fun run_calls :: "'c ws_ops \<Rightarrow> (payload \<Rightarrow> jval res) \<Rightarrow> ws_call list \<Rightarrow> 'c websocket \<Rightarrow> 'c websocket" where
  "run_calls ops loads [] w = w"
| "run_calls ops loads (c # cs) w = run_calls ops loads cs (run_call ops loads c w)"

text \<open>The application accepts only a connection it has not yet accepted or closed.\<close>

fun accepts_once :: "'c ws_ops \<Rightarrow> (payload \<Rightarrow> jval res) \<Rightarrow> ws_call list \<Rightarrow> 'c websocket \<Rightarrow> bool" where
  "accepts_once ops loads [] w = True"
| "accepts_once ops loads (c # cs) w =
     ((case c of CAccept sub hs \<Rightarrow> ws_app w = CONNECTING | _ \<Rightarrow> True)
      \<and> accepts_once ops loads cs (run_call ops loads c w))"

text \<open>The contract of a channel: sending records the message, receiving sends nothing.\<close>

locale ws_channel =
  fixes ops :: "'c ws_ops"
    and log :: "'c \<Rightarrow> ws_msg list"
  assumes receive_log: "op_receive ops c = Some (r, c') \<Longrightarrow> log c' = log c"
    and send_log: "op_send ops m c = (Inr (), c') \<Longrightarrow> log c' = log c @ [m]"
    and send_fails: "op_send ops m c = (Inl e, c') \<Longrightarrow> log c' = log c"
    and no_direct: "op_direct ops = None"
begin

definition follows :: "'c websocket \<Rightarrow> bool" where
  "follows w \<longleftrightarrow> protocol_state (log (ws_chan w)) = pstate_of (ws_app w)"

lemma send_then_follows:
  assumes "follows w" and "pstep (pstate_of (ws_app w)) m = pstate_of (ws_app (f w))"
    and "\<And>v. ws_chan (f v) = ws_chan v" and "\<And>v. ws_app (f v) = ws_app (f w) \<or> ws_app v \<noteq> ws_app w"
  shows "follows (snd (send_then ops m f w))"
proof -
  obtain r c where s: "op_send ops m (ws_chan w) = (r, c)" by fastforce
  show ?thesis
  proof (cases r)
    case (Inl e)
    with s assms(1) send_fails [of m "ws_chan w" e c] show ?thesis
      by (simp add: send_then_def follows_def ws_put_def)
  next
    case (Inr u)
    have "log c = log (ws_chan w) @ [m]" using send_log [of m "ws_chan w" c] s Inr by simp
    moreover have "ws_app (f (ws_put c w)) = ws_app (f w)" using assms(4) [of "ws_put c w"] by (auto simp: ws_put_def)
    ultimately show ?thesis using s Inr assms(1-3) by (simp add: send_then_def follows_def ws_put_def)
  qed
qed

lemma receive_message_follows:
  "follows w \<Longrightarrow> receive_message ops w = Some (r, w') \<Longrightarrow> follows w'"
proof (cases "op_receive ops (ws_chan w)")
  case (Some x)
  obtain e c where x: "x = (e, c)" by fastforce
  then have "log c = log (ws_chan w)" using receive_log Some by simp
  then show "follows w \<Longrightarrow> receive_message ops w = Some (r, w') \<Longrightarrow> follows w'"
    using Some x by (auto simp: receive_message_def follows_def ws_put_def split: if_splits sum.splits ws_event.splits)
qed (auto simp: receive_message_def split: if_splits)

lemma receive_part_follows: "follows w \<Longrightarrow> follows (after_wait (receive_part ops part w) w)"
  by (auto simp: receive_part_def after_wait_def dest: receive_message_follows split: option.splits sum.splits)

lemma aiter_follows: "follows w \<Longrightarrow> follows (snd (snd (ws_aiter ops n w)))"
proof (induction n arbitrary: w)
  case (Suc n)
  show ?case
  proof (cases "receive_message ops w")
    case (Some x)
    obtain r w' where x: "x = (r, w')" by fastforce
    have f: "follows w'" using receive_message_follows [OF Suc.prems] Some x by simp
    from Suc.IH [OF f] show ?thesis using Some x f
      by (auto simp: split_def split: sum.splits exn.splits prod.splits)
  qed (use Suc.prems in simp)
qed simp

lemma accept_follows:
  assumes "follows w" and "ws_app w = CONNECTING"
  shows "follows (after_wait (ws_accept ops sub hs w) w)"
proof -
  have go: "follows (snd (send_then ops (WsAccept sub hs) (\<lambda>v. v\<lparr>ws_app := CONNECTED\<rparr>) v))"
    if "follows v" "ws_app v = CONNECTING" for v
    by (rule send_then_follows [OF that(1)]) (simp_all add: that(2))
  show ?thesis
  proof (cases "ws_client w = CONNECTING")
    case True
    show ?thesis
    proof (cases "op_receive ops (ws_chan w)")
      case None
      then show ?thesis using True assms by (simp add: ws_accept_def after_wait_def)
    next
      case (Some x)
      obtain r c where x: "x = (r, c)" by fastforce
      have l: "log c = log (ws_chan w)" using receive_log Some x by simp
      have f: "follows (ws_put c w)" "follows ((ws_put c w)\<lparr>ws_client := CONNECTED\<rparr>)"
        using l assms(1) by (simp_all add: follows_def ws_put_def)
      show ?thesis using True Some x f go [OF f(2)] assms(2)
        by (auto simp: ws_accept_def after_wait_def ws_put_def Let_def split: sum.splits prod.splits)
    qed
  next
    case False
    then show ?thesis using go [OF assms] by (auto simp: ws_accept_def after_wait_def split: prod.splits)
  qed
qed

lemma call_follows:
  assumes "follows w" and "case c of CAccept sub hs \<Rightarrow> ws_app w = CONNECTING | _ \<Rightarrow> True"
  shows "follows (run_call ops loads c w)"
proof -
  have data: "follows (snd (send_then ops (WsSend t b) id w))" if "assert_connected w = Inr ()" for t b
    by (rule send_then_follows [OF assms(1)]) (use that in \<open>auto simp: assert_connected_def split: if_splits\<close>)
  have close: "follows (snd (send_then ops (WsClose (Some x) y) (\<lambda>v. v\<lparr>ws_app := DISCONNECTED\<rparr>) w))"
    if "ws_app w \<in> {CONNECTING, CONNECTED}" for x y
    by (rule send_then_follows [OF assms(1)]) (use that in auto)
  show ?thesis
    using assms data close accept_follows
    by (cases c)
      (auto intro: receive_part_follows aiter_follows simp: ws_close_def ws_send_text_def ws_send_bytes_def ws_send_json_def no_direct
        ws_receive_text_def ws_receive_bytes_def ws_receive_json_def split: sum.splits)
qed

lemma calls_follow: "follows w \<Longrightarrow> accepts_once ops loads cs w \<Longrightarrow> follows (run_calls ops loads cs w)"
  by (induction cs arbitrary: w) (auto simp del: run_call.simps intro: call_follows)

end

interpretation plain: ws_channel plain_ops pl_sent
  by unfold_locales (auto simp: plain_ops_def plain_receive_def plain_send_def split: list.splits)



text \<open>Nothing in \<open>accept\<close> looks at the state of the application: a closed connection is accepted again.\<close>

lemma accept_reopens:
  assumes "ws_client w = CONNECTED" and "ws_app w = DISCONNECTED" and "plain.follows w"
  shows "\<exists>w'. ws_accept plain_ops sub hs w = Some (Inr (), w') \<and> ws_app w' = CONNECTED
     \<and> protocol_state (pl_sent (ws_chan w')) = PBroken"
  using assms by (simp add: ws_accept_def plain_ops_def plain_send_def send_then_def ws_put_def plain.follows_def)

text \<open>
  Disconnection is final on a plain channel: once the client is gone every sending and
  receiving method raises (\<open>WebSocketDisconnect\<close>, or \<open>RuntimeError\<close> when the application has not
  accepted or has closed), sends nothing and takes nothing from the channel.
\<close>

theorem disconnect_is_final:
  assumes "ws_client w = DISCONNECTED"
  shows "(\<exists>e. ws_send_text plain_ops s w = (Inl e, w) \<and> ws_send_bytes plain_ops b w = (Inl e, w)
       \<and> ws_send_json plain_ops s t w = (Inl e, w)
       \<and> ws_receive_text plain_ops w = Some (Inl e, w) \<and> ws_receive_bytes plain_ops w = Some (Inl e, w)
       \<and> ws_receive_json plain_ops loads t w = Some (Inl e, w)
       \<and> (ws_app w = CONNECTED \<longrightarrow> e = WebSocketDisconnect 1000 []))
     \<and> ws_aiter plain_ops (Suc n) w = ([], Some (Inr ()), w)"
  using assms
  by (auto simp: ws_send_text_def ws_send_bytes_def ws_send_json_def ws_receive_text_def ws_receive_bytes_def
      ws_receive_json_def receive_part_def assert_connected_def plain_ops_def receive_message_def)

theorem disconnect_is_final_witness:
  "ws_client \<lparr>ws_client = DISCONNECTED, ws_app = CONNECTED, ws_chan = \<lparr>pl_events = [WsConnect], pl_sent = []\<rparr>\<rparr> = DISCONNECTED
   \<and> ws_receive_text plain_ops \<lparr>ws_client = DISCONNECTED, ws_app = CONNECTED, ws_chan = \<lparr>pl_events = [WsConnect], pl_sent = []\<rparr>\<rparr>
     = Some (Inl (WebSocketDisconnect 1000 []), \<lparr>ws_client = DISCONNECTED, ws_app = CONNECTED, ws_chan = \<lparr>pl_events = [WsConnect], pl_sent = []\<rparr>\<rparr>)"
  using disconnect_is_final [of "\<lparr>ws_client = DISCONNECTED, ws_app = CONNECTED, ws_chan = \<lparr>pl_events = [WsConnect], pl_sent = []\<rparr>\<rparr>"]
  by auto

text \<open>The loop over a connection yields the messages up to the disconnect, in order.\<close>

lemma aiter_complete:
  assumes "ws_client w \<noteq> DISCONNECTED" and "length ms < n"
    and "pl_events (ws_chan w) = map (\<lambda>(t, b). WsReceive t b) ms @ WsDisconnect c r # es"
  shows "\<exists>w'. ws_aiter plain_ops n w =
       (map (\<lambda>(t, b). case t of Some s \<Rightarrow> (Some s, None) | None \<Rightarrow> (None, Some (get_or b (PBytes [])))) ms, Some (Inr ()), w')
     \<and> ws_client w' = DISCONNECTED \<and> pl_events (ws_chan w') = es"
  using assms
proof (induction ms arbitrary: n w)
  case Nil
  then obtain m where "n = Suc m" by (cases n) auto
  with Nil show ?case
    by (simp add: receive_message_def plain_ops_def plain_receive_def ws_put_def)
next
  case (Cons x ms)
  obtain t b where x: "x = (t, b)" by fastforce
  obtain m where n: "n = Suc m" "length ms < m" using Cons.prems(2) by (cases n) auto
  define v where "v = ws_put ((ws_chan w)\<lparr>pl_events := map (\<lambda>(t, b). WsReceive t b) ms @ WsDisconnect c r # es\<rparr>) w"
  have "receive_message plain_ops w = Some (Inr (t, b), v)"
    using Cons.prems x by (simp add: receive_message_def plain_ops_def plain_receive_def v_def)
  moreover from Cons.IH [OF _ n(2), of v] obtain w' where "ws_aiter plain_ops m v =
       (map (\<lambda>(t, b). case t of Some s \<Rightarrow> (Some s, None) | None \<Rightarrow> (None, Some (get_or b (PBytes [])))) ms, Some (Inr ()), w')
     \<and> ws_client w' = DISCONNECTED \<and> pl_events (ws_chan w') = es"
    using Cons.prems(1) by (auto simp: v_def ws_put_def)
  ultimately show ?case using n x by simp
qed

text \<open>
  Over the C++ connection the disconnect is not seen by the \<open>WebSocket\<close> object:
  \<open>receive_text\<close> raises \<open>WebSocketDisconnect\<close>, but \<open>client_state\<close> stays \<open>CONNECTED\<close>, and the next
  \<open>send_text\<close> raises a \<open>RuntimeError\<close> where a plain channel gives \<open>WebSocketDisconnect\<close>.
\<close>

theorem cpp_disconnect_unseen:
  assumes "ws_client w = CONNECTED" and "ws_app w = CONNECTED"
    and "ch_buffer (cw_channel (ws_chan w)) = (8, p) # rest"
  shows "\<exists>w'. ws_receive_text (cpp_ops co) w =
         Some (Inl (WebSocketDisconnect (int (parse_close_code (payload_bytes p))) []), w')
     \<and> ws_client w' = CONNECTED
     \<and> ws_send_text (cpp_ops co) s w' = (Inl (RuntimeError (S ''WebSocket is closed'')), w')"
proof -
  obtain f ch where g: "channel_get (cw_channel (ws_chan w)) = (f, ch)" by fastforce
  then have f: "f = Some (8, p)" using assms(3) by (simp add: channel_get_def Let_def)
  let ?w' = "ws_put (cw_peer_closed ((ws_chan w)\<lparr>cw_channel := ch\<rparr>)) w"
  have "ws_receive_text (cpp_ops co) w = Some (Inl (WebSocketDisconnect (int (parse_close_code (payload_bytes p))) []), ?w')"
    by (simp add: ws_receive_text_def cpp_ops_def with_frame_def g f cw_receive_text_def)
  then show ?thesis using assms
    by (intro exI [of _ ?w']) (simp add: ws_send_text_def assert_connected_def ws_put_def cpp_ops_def
        cw_send_text_def cw_peer_closed_def lift_send_def ws_closed_error_def)
qed

definition closed_peer :: "cpp_ws websocket" where
  "closed_peer = \<lparr>ws_client = CONNECTED, ws_app = CONNECTED,
     ws_chan = fresh_ws\<lparr>cw_channel := core_put (8, PBytes []) (cw_channel fresh_ws)\<rparr>\<rparr>"

theorem cpp_disconnect_unseen_witness:
  "\<exists>w'. ws_receive_text (cpp_ops py_core) closed_peer = Some (Inl (WebSocketDisconnect 1000 []), w')
     \<and> ws_client w' = CONNECTED
     \<and> ws_send_text (cpp_ops py_core) [104] w' = (Inl (RuntimeError (S ''WebSocket is closed'')), w')"
  using cpp_disconnect_unseen [of closed_peer "PBytes []" "[]" py_core "[104]"]
  by (simp add: closed_peer_def fresh_ws_def cw_init_def channel_init_def core_put_def waiter_open_def
      parse_close_code_def payload_bytes_def)

subsection \<open>Properties: groups\<close>

definition gr_wf :: "groups \<Rightarrow> bool" where
  "gr_wf gs \<longleftrightarrow> dict_wf gs \<and> (\<forall>(name, s)\<in>set gs. distinct s)"

definition gr_rel :: "groups \<Rightarrow> (str \<times> nat) set" where
  "gr_rel gs = {(g, w). \<exists>s. map_of gs g = Some s \<and> w \<in> set s}"

lemma gr_rel_iff: "(g, w) \<in> gr_rel gs \<longleftrightarrow> w \<in> set (get_or (map_of gs g) [])"
  by (cases "map_of gs g") (simp_all add: gr_rel_def)

lemma gr_wf_map_of: "gr_wf gs \<longleftrightarrow> dict_wf gs \<and> (\<forall>g s. map_of gs g = Some s \<longrightarrow> distinct s)"
proof
  assume l: "gr_wf gs"
  show "dict_wf gs \<and> (\<forall>g s. map_of gs g = Some s \<longrightarrow> distinct s)"
    using l map_of_SomeD unfolding gr_wf_def by fastforce
next
  assume r: "dict_wf gs \<and> (\<forall>g s. map_of gs g = Some s \<longrightarrow> distinct s)"
  then show "gr_wf gs" unfolding gr_wf_def by (auto simp: dict_wf_def intro: map_of_is_SomeI)
qed

lemma map_of_collect: "map_of (gr_collect w gs) g = map_option (removeAll w) (map_of gs g)"
  by (induction gs) (auto simp: gr_collect_def)

lemma keys_collect: "map fst (gr_collect w gs) = map fst gs"
  by (simp add: gr_collect_def split_def)

lemma map_of_del_fold: "map_of (fold dict_del ks d) g = (if g \<in> set ks then None else map_of d g)"
  by (induction ks arbitrary: d) (auto simp: map_of_dict_del)

lemma dict_wf_del_fold: "dict_wf d \<Longrightarrow> dict_wf (fold dict_del ks d)"
  by (induction ks arbitrary: d) (auto intro: dict_wf_del)

lemma map_of_leave_all:
  assumes "dict_wf gs"
  shows "map_of (gr_leave_all w gs) g =
     (case map_of gs g of None \<Rightarrow> None | Some s \<Rightarrow> if removeAll w s = [] then None else Some (removeAll w s))"
proof -
  have wf: "dict_wf (gr_collect w gs)" using assms by (simp add: dict_wf_def keys_collect)
  have "g \<in> set (map fst (filter (\<lambda>(name, s). s = []) (gr_collect w gs))) \<longleftrightarrow> map_of (gr_collect w gs) g = Some []"
    using wf by (force simp: dict_wf_def)
  then show ?thesis unfolding gr_leave_all_def Let_def map_of_del_fold by (auto simp: map_of_collect split: option.splits)
qed

text \<open>What a keeper of group memberships promises to its users.\<close>

locale membership =
  fixes join leave :: "'w \<Rightarrow> 'g \<Rightarrow> 's \<Rightarrow> 's"
    and leave_all :: "'w \<Rightarrow> 's \<Rightarrow> 's"
    and rel :: "'s \<Rightarrow> ('g \<times> 'w) set"
    and inv :: "'s \<Rightarrow> bool"
    and empty :: 's
  assumes rel_join: "inv s \<Longrightarrow> rel (join w g s) = insert (g, w) (rel s)"
    and rel_leave: "inv s \<Longrightarrow> rel (leave w g s) = rel s - {(g, w)}"
    and rel_leave_all: "inv s \<Longrightarrow> rel (leave_all w s) = {(g, v) \<in> rel s. v \<noteq> w}"
    and inv_join: "inv s \<Longrightarrow> inv (join w g s)"
    and inv_leave: "inv s \<Longrightarrow> inv (leave w g s)"
    and inv_leave_all: "inv s \<Longrightarrow> inv (leave_all w s)"
    and inv_empty: "inv empty" and rel_empty: "rel empty = {}"
begin

lemma run_refines:
  assumes "\<And>x s. inv s \<Longrightarrow> inv (f x s) \<and> rel (f x s) = h x (rel s)"
  shows "inv s \<Longrightarrow> inv (fold f xs s) \<and> rel (fold f xs s) = fold h xs (rel s)"
  by (induction xs arbitrary: s) (simp_all add: assms)

text \<open>A session: a connection that joins groups and then leaves all leaves no trace.\<close>

lemma session_leaves_no_trace:
  assumes "inv s" and "\<forall>g. (g, w) \<notin> rel s"
  shows "rel (leave_all w (fold (join w) gs s)) = rel s"
proof -
  have r: "inv (fold (join w) gs s) \<and> rel (fold (join w) gs s) = fold (\<lambda>g r. insert (g, w) r) gs (rel s)"
    by (rule run_refines) (use assms in \<open>simp_all add: rel_join inv_join\<close>)
  have "fold (\<lambda>g r. insert (g, w) r) gs A = A \<union> (\<lambda>g. (g, w)) ` set gs" for A
    by (induction gs arbitrary: A) auto
  with r rel_leave_all [of "fold (join w) gs s" w] assms(2) show ?thesis by auto
qed

end

interpretation groups: membership gr_join gr_leave gr_leave_all gr_rel gr_wf "[]"
proof unfold_locales
  fix s :: groups and w :: nat and g :: str
  assume wf: "gr_wf s"
  have rem: "removeAll w x = [] \<longleftrightarrow> set x \<subseteq> {w}" for x by (induction x) auto
  show "gr_rel (gr_join w g s) = insert (g, w) (gr_rel s)"
    by (auto simp: gr_rel_iff gr_join_def map_of_dict_set set_add_def split: if_splits)
  show "gr_rel (gr_leave w g s) = gr_rel s - {(g, w)}"
    by (auto simp: gr_rel_iff gr_leave_def map_of_dict_set map_of_dict_del Let_def get_or_def rem
        split: option.splits if_splits)
  show "gr_rel (gr_leave_all w s) = {(g, v) \<in> gr_rel s. v \<noteq> w}"
  proof -
    have "dict_wf s" using wf by (simp add: gr_wf_def)
    then show ?thesis by (auto simp: gr_rel_def rem map_of_leave_all split: option.splits if_splits)
  qed
  show "gr_wf (gr_join w g s)"
    using wf by (auto simp: gr_wf_map_of gr_join_def map_of_dict_set set_add_def get_or_def
        intro: dict_wf_set split: option.splits)
  show "gr_wf (gr_leave w g s)"
    using wf by (auto simp: gr_wf_map_of gr_leave_def map_of_dict_set map_of_dict_del Let_def distinct_removeAll
        intro: dict_wf_set dict_wf_del split: option.splits if_splits)
  have "dict_wf (gr_leave_all w s)"
    unfolding gr_leave_all_def Let_def
    by (rule dict_wf_del_fold) (use wf in \<open>simp add: dict_wf_def gr_wf_def keys_collect\<close>)
  then show "gr_wf (gr_leave_all w s)"
    using wf by (auto simp: gr_wf_map_of map_of_leave_all distinct_removeAll split: option.splits if_splits)
qed (simp_all add: gr_wf_def gr_rel_def)

datatype group_op = Join nat str | Leave nat str | LeaveAll nat

fun group_step :: "group_op \<Rightarrow> groups \<Rightarrow> groups" where
  "group_step (Join w g) gs = gr_join w g gs"
| "group_step (Leave w g) gs = gr_leave w g gs"
| "group_step (LeaveAll w) gs = gr_leave_all w gs"

fun rel_step :: "group_op \<Rightarrow> (str \<times> nat) set \<Rightarrow> (str \<times> nat) set" where
  "rel_step (Join w g) r = insert (g, w) r"
| "rel_step (Leave w g) r = r - {(g, w)}"
| "rel_step (LeaveAll w) r = {(g, v) \<in> r. v \<noteq> w}"

lemma group_run:
  "gr_wf (fold group_step xs []) \<and> gr_rel (fold group_step xs []) = fold rel_step xs {}"
proof -
  have "gr_wf (group_step x s) \<and> gr_rel (group_step x s) = rel_step x (gr_rel s)" if "gr_wf s" for x s
    using that by (cases x) (simp_all add: groups.rel_join groups.rel_leave groups.rel_leave_all
        groups.inv_join groups.inv_leave groups.inv_leave_all)
  from groups.run_refines [of group_step rel_step "[]" xs, OF this]
  show ?thesis using groups.inv_empty groups.rel_empty by simp
qed

lemma members_card: "gr_wf gs \<Longrightarrow> gr_members g gs = card {w. (g, w) \<in> gr_rel gs}"
  by (auto simp: gr_members_def gr_rel_def gr_wf_map_of distinct_card split: option.splits)

lemma groups_for_rel: "gr_wf gs \<Longrightarrow> set (groups_for w gs) = {g. (g, w) \<in> gr_rel gs}"
  by (force simp: groups_for_def gr_rel_def gr_wf_def dict_wf_def)

text \<open>
  C26: The groups implement a relation between groups and connections: after any sequence of
  \<open>join\<close>, \<open>leave\<close> and \<open>leave_all\<close>, \<open>groups_for\<close> and \<open>members\<close> answer as the relation that the
  same sequence builds.
\<close>

theorem groups_refine_relation:
  "set (groups_for w (fold group_step xs [])) = {g. (g, w) \<in> fold rel_step xs {}}
   \<and> gr_members g (fold group_step xs []) = card {w. (g, w) \<in> fold rel_step xs {}}"
  using group_run [of xs] by (simp add: groups_for_rel members_card)

lemma broadcast_loop_exact:
  "distinct s \<Longrightarrow> broadcast_loop f s h n =
     (n + length (filter (\<lambda>w. \<not> cw_closed (h w)) s),
      \<lambda>w. if w \<in> set s \<and> \<not> cw_closed (h w) then cw_write_frame f (h w) else h w)"
proof (induction s arbitrary: h n)
  case (Cons v s)
  have f: "filter (\<lambda>w. (w = v \<longrightarrow> A) \<and> (w \<noteq> v \<longrightarrow> \<not> cw_closed (h w))) s = filter (\<lambda>w. \<not> cw_closed (h w)) s" for A
    by (rule filter_cong) (use Cons.prems in auto)
  from Cons show ?case by (auto simp: f fun_eq_iff)
qed simp

text \<open>
  A broadcast writes the frame exactly once to every open member of the group and touches
  no other connection; the count it returns is the number of open members.
\<close>

theorem broadcast_exact:
  assumes "gr_wf gs" and "utf8_encode data = Inr p"
  shows "broadcast_text co g data gs h =
     Inr (card {w. (g, w) \<in> gr_rel gs \<and> \<not> cw_closed (h w)},
          \<lambda>w. if (g, w) \<in> gr_rel gs \<and> \<not> cw_closed (h w) then cw_write_frame (co_frame co 1 p) (h w) else h w)"
proof (cases "map_of gs g")
  case (Some s)
  then have d: "distinct s" using assms(1) by (simp add: gr_wf_map_of)
  have r: "(g, w) \<in> gr_rel gs \<longleftrightarrow> w \<in> set s" for w using Some by (simp add: gr_rel_iff)
  have c: "card {w. w \<in> set s \<and> \<not> cw_closed (h w)} = length (filter (\<lambda>w. \<not> cw_closed (h w)) s)"
    using distinct_card [of "filter (\<lambda>w. \<not> cw_closed (h w)) s"] d by simp
  show ?thesis
    using Some assms(2) by (auto simp: broadcast_text_def broadcast_def r c broadcast_loop_exact [OF d])
qed (simp add: broadcast_text_def broadcast_def gr_rel_iff)

theorem broadcast_exact_witness:
  "broadcast_text py_core (S ''room'') (S ''hi'') [(S ''room'', [1, 2])] (\<lambda>w. fresh_ws\<lparr>cw_closed := (w = 2)\<rparr>) =
     Inr (1, \<lambda>w. if w = 1 then cw_write_frame (build_frame_py 1 ''hi'') fresh_ws else fresh_ws\<lparr>cw_closed := (w = 2)\<rparr>)"
proof -
  have wf: "gr_wf [(S ''room'', [1, 2])]" by (simp add: gr_wf_def dict_wf_def)
  have e: "utf8_encode (S ''hi'') = Inr ''hi''" by (rule utf8_encode_ascii) (simp add: S_def)
  let ?h = "\<lambda>w::nat. fresh_ws\<lparr>cw_closed := (w = 2)\<rparr>"
  have m: "(S ''room'', w) \<in> gr_rel [(S ''room'', [1, 2])] \<and> \<not> cw_closed (?h w) \<longleftrightarrow> w = 1" for w
    by (auto simp: gr_rel_iff)
  have h: "fresh_ws\<lparr>cw_closed := False\<rparr> = fresh_ws" by (simp add: fresh_ws_def cw_init_def)
  show ?thesis
    using broadcast_exact [OF wf e, of py_core "S ''room''" ?h] unfolding m
    by (simp add: py_core_def h cong: if_cong)
qed

end
