(* ===== verification/Params.thy ===== *)
theory Params
  imports Requests "HOL-Library.Multiset"
begin

text \<open>
  How the parameters of an endpoint get their values from a request: the extraction and
  validation functions of \<open>astraapi/dependencies/utils.py\<close>, the \<open>ModelField\<close> of
  \<open>astraapi/_compat/v2.py\<close> and the extraction helpers of the C++ core these functions call
  (\<open>param_extractor.cpp\<close>, \<open>utils.cpp\<close>). The pydantic type adapter of a field is the parameter
  \<open>ad\<close>, the C++ float parser the parameter \<open>flt\<close>.
\<close>

subsection \<open>Values and fields\<close>

datatype pyv =
    VNone
  | VBool bool
  | VInt int
  | VFloat nat
  | VStr str
  | VBytes bytes
  | VList "pyv list"
  | VDict "(str \<times> pyv) list"
  | VFile nat
  | VRequest
  | VResponse
  | VTasks
  | VScopes "str list"
  | VObj nat

datatype tag = TStr | TInt | TFloat | TBool

text \<open>
  The class of the field's \<open>field_info\<close>: a \<open>Param\<close> with its \<open>in_\<close>, or \<open>Body\<close>, \<open>Form\<close>, \<open>File\<close>,
  each a subclass of the one before.
\<close>

datatype field_kind = FParam str | FBody | FForm | FFile

text \<open>
  A \<open>ModelField\<close>. \<open>f_tag\<close> is the annotation when it is a plain scalar type, \<open>f_trivial\<close> the type
  of the core schema when it has no constraints, \<open>f_model\<close> the fields of a \<open>BaseModel\<close> type, and
  \<open>f_union\<close> says that the type is a union of models.
\<close>

datatype field =
  Field (f_name: str) (f_alias: "str option") (f_valias: "str option") (f_required: bool) (f_default: pyv)
    (f_kind: field_kind) (f_convert: "bool option") (f_seq: bool) (f_json: bool) (f_bytes: bool)
    (f_bytes_seq: bool) (f_tag: "tag option") (f_trivial: "tag option") (f_model: "field list option")
    (f_embed: bool) (f_union: bool)

definition field_alias :: "field \<Rightarrow> str" where
  "field_alias f = (case f_alias f of Some a \<Rightarrow> a | None \<Rightarrow> f_name f)"

definition validation_alias :: "field \<Rightarrow> str option" where
  "validation_alias f = (case f_valias f of Some va \<Rightarrow> if va \<noteq> [] then Some va else None | None \<Rightarrow> None)"

definition get_validation_alias :: "field \<Rightarrow> str" where
  "get_validation_alias f = (case validation_alias f of Some va \<Rightarrow> va | None \<Rightarrow> field_alias f)"

definition is_form_field :: "field \<Rightarrow> bool" where
  "is_form_field f \<longleftrightarrow> f_kind f = FForm \<or> f_kind f = FFile"

definition param_in :: "field \<Rightarrow> str res" where
  "param_in f =
     (case f_kind f of FParam s \<Rightarrow> Inr s | _ \<Rightarrow> Inl (AssertionError (S ''Params must be subclasses of Param'')))"

subsection \<open>Validation\<close>

datatype vres = VOk pyv | VErrors "err list" | VTypeError | VRaise exn

type_synonym adapter = "field \<Rightarrow> pyv \<Rightarrow> vres"

definition missing_field_error :: "str list \<Rightarrow> err" where
  "missing_field_error loc = Err (S ''missing'') loc"

definition regenerate_error_with_loc :: "err list \<Rightarrow> str list \<Rightarrow> err list" where
  "regenerate_error_with_loc es prefix = map (\<lambda>e. Err (err_type e) (prefix @ err_loc e)) es"

definition field_validate :: "adapter \<Rightarrow> field \<Rightarrow> pyv \<Rightarrow> str list \<Rightarrow> (pyv \<times> err list) res" where
  "field_validate ad f v loc =
     (case ad f v of
        VOk w \<Rightarrow> Inr (w, [])
      | VErrors es \<Rightarrow> Inr (VNone, regenerate_error_with_loc es loc)
      | VTypeError \<Rightarrow> Inr (VNone, regenerate_error_with_loc [Err (S ''response_validation_error'') loc] loc)
      | VRaise e \<Rightarrow> Inl e)"

text \<open>\<open>isinstance\<close> with the classes of the trivial schemas: a \<open>bool\<close> is an \<open>int\<close>, but no \<open>float\<close>.\<close>

fun has_type :: "tag \<Rightarrow> pyv \<Rightarrow> bool" where
  "has_type TStr (VStr s) = True"
| "has_type TInt (VInt n) = True"
| "has_type TInt (VBool b) = True"
| "has_type TFloat (VInt n) = True"
| "has_type TFloat (VFloat x) = True"
| "has_type TBool (VBool b) = True"
| "has_type t v = False"

definition validate_value :: "adapter \<Rightarrow> field \<Rightarrow> pyv \<Rightarrow> str list \<Rightarrow> (pyv \<times> err list) res" where
  "validate_value ad f v loc =
     (if v = VNone then Inr (if f_required f then (VNone, [missing_field_error loc]) else (f_default f, []))
      else if (loc = [] \<or> hd loc \<noteq> S ''body'') \<and> (case f_trivial f of Some t \<Rightarrow> has_type t v | None \<Rightarrow> False)
      then Inr (v, [])
      else field_validate ad f v loc)"

subsection \<open>Looking up a field\<close>

text \<open>
  What the functions use of the mapping they read from: \<open>so_multi\<close> says that it is an
  \<open>ImmutableMultiDict\<close>, \<open>so_headers\<close> that it is the \<open>Headers\<close> of \<open>_datastructures_impl\<close>.
\<close>

record source =
  so_get :: "str \<Rightarrow> pyv option"
  so_getlist :: "(str \<Rightarrow> pyv list) option"
  so_keys :: "str list"
  so_multi :: bool
  so_headers :: bool

definition dict_source :: "(str, pyv) dict \<Rightarrow> source" where
  "dict_source d = \<lparr>so_get = map_of d, so_getlist = None, so_keys = map fst d, so_multi = False, so_headers = False\<rparr>"

text \<open>\<open>FormData\<close> and \<open>_request.Headers\<close> have \<open>getlist\<close>, but neither extends \<open>ImmutableMultiDict\<close>.\<close>

definition form_source :: "(str \<times> pyv) list \<Rightarrow> source" where
  "form_source items =
     \<lparr>so_get = map_of (first_dict items []), so_getlist = Some (values_of items),
      so_keys = map fst (first_dict items []), so_multi = False, so_headers = False\<rparr>"

definition request_headers_source :: "headers \<Rightarrow> source" where
  "request_headers_source h =
     \<lparr>so_get = (\<lambda>k. map_option VStr (fst (rq_headers_get h k None))),
      so_getlist = Some (\<lambda>k. map VStr (fst (rq_headers_getlist h k))),
      so_keys = fst (rq_headers_keys h), so_multi = False, so_headers = False\<rparr>"

text \<open>The mapping the functions were written for.\<close>

definition multi_source :: "(str \<times> pyv) list \<Rightarrow> source" where
  "multi_source items =
     \<lparr>so_get = map_of (rev items), so_getlist = Some (values_of items),
      so_keys = map fst (first_dict items []), so_multi = True, so_headers = False\<rparr>"

fun pyv_len :: "pyv \<Rightarrow> nat res" where
  "pyv_len (VStr s) = Inr (length s)"
| "pyv_len (VBytes b) = Inr (length b)"
| "pyv_len (VList xs) = Inr (length xs)"
| "pyv_len (VDict d) = Inr (length d)"
| "pyv_len v = Inl (TypeError (S ''object has no len()''))"

definition get_multidict_value :: "field \<Rightarrow> source \<Rightarrow> str option \<Rightarrow> pyv res" where
  "get_multidict_value f src alias =
     (let a = (case alias of Some x \<Rightarrow> if x \<noteq> [] then x else get_validation_alias f | None \<Rightarrow> get_validation_alias f);
          value = (if \<not> f_json f \<and> f_seq f \<and> so_multi src
                   then VList (case so_getlist src of Some g \<Rightarrow> g a | None \<Rightarrow> [])
                   else get_or (so_get src a) VNone);
          absent = (if f_required f then VNone else f_default f)
      in if value = VNone \<or> (is_form_field f \<and> value = VStr []) then Inr absent
         else if f_seq f then rbind (pyv_len value) (\<lambda>n. Inr (if n = 0 then absent else value))
         else Inr value)"

subsection \<open>The reference extraction\<close>

definition underscores_to_dashes :: "str \<Rightarrow> str" where
  "underscores_to_dashes s = map (\<lambda>c. if c = 95 then 45 else c) s"

definition header_alias :: "source \<Rightarrow> bool \<Rightarrow> field \<Rightarrow> str option" where
  "header_alias src default_convert f =
     (if so_headers src \<and> get_or (f_convert f) default_convert
      then Some (let a = get_validation_alias f in if a = f_name f then underscores_to_dashes a else a)
      else None)"

fun extract_model_params :: "source \<Rightarrow> bool \<Rightarrow> field list \<Rightarrow> (str, pyv) dict \<Rightarrow> str list \<Rightarrow> ((str, pyv) dict \<times> str list) res" where
  "extract_model_params src dc [] ps processed = Inr (ps, processed)"
| "extract_model_params src dc (f # fs) ps processed =
     rbind (get_multidict_value f src (header_alias src dc f))
       (\<lambda>v. extract_model_params src dc fs
          (if v \<noteq> VNone then dict_set (get_validation_alias f) v ps else ps)
          (case header_alias src dc f of Some a \<Rightarrow> if a \<noteq> [] then a # processed else get_validation_alias f # processed
           | None \<Rightarrow> get_validation_alias f # processed))"

definition other_param :: "source \<Rightarrow> str \<Rightarrow> pyv" where
  "other_param src k =
     (case so_getlist src of
        Some g \<Rightarrow> (case g k of [v] \<Rightarrow> v | vs \<Rightarrow> VList vs)
      | None \<Rightarrow> get_or (so_get src k) VNone)"

definition other_params :: "source \<Rightarrow> str list \<Rightarrow> (str, pyv) dict \<Rightarrow> (str, pyv) dict" where
  "other_params src processed ps =
     fold (\<lambda>k. dict_set k (other_param src k)) (filter (\<lambda>k. k \<notin> set processed) (so_keys src)) ps"

text \<open>Takes the outcome of validating a field into the values and errors collected so far.\<close>

definition record_outcome :: "field \<Rightarrow> (pyv \<times> err list) \<Rightarrow> (str, pyv) dict \<times> err list \<Rightarrow> (str, pyv) dict \<times> err list" where
  "record_outcome f r acc =
     (if snd r \<noteq> [] then (fst acc, snd acc @ snd r) else (dict_set (f_name f) (fst r) (fst acc), snd acc))"

fun validate_fields :: "adapter \<Rightarrow> (field \<Rightarrow> pyv res) \<Rightarrow> field list \<Rightarrow> (str, pyv) dict \<times> err list \<Rightarrow> ((str, pyv) dict \<times> err list) res" where
  "validate_fields ad value [] acc = Inr acc"
| "validate_fields ad value (f # fs) acc =
     rbind (value f) (\<lambda>v.
     rbind (param_in f) (\<lambda>loc0.
     rbind (validate_value ad f v [loc0, get_validation_alias f]) (\<lambda>r.
       validate_fields ad value fs (record_outcome f r acc))))"

definition request_params_to_args :: "adapter \<Rightarrow> field list \<Rightarrow> source \<Rightarrow> ((str, pyv) dict \<times> err list) res" where
  "request_params_to_args ad fs src =
     (case fs of
        [] \<Rightarrow> Inr ([], [])
      | first # rest \<Rightarrow>
          let single = (rest = [] \<and> f_model first \<noteq> None);
              to_extract = (if single then the (f_model first) else fs);
              dc = (if single then get_or (f_convert first) True else True)
          in rbind (extract_model_params src dc to_extract [] []) (\<lambda>(ps, processed).
             if single then
               rbind (param_in first) (\<lambda>loc0.
               rbind (validate_value ad first (VDict (other_params src processed ps)) [loc0]) (\<lambda>r.
                 Inr ([(f_name first, fst r)], snd r)))
             else validate_fields ad (\<lambda>f. get_multidict_value f src None) fs ([], [])))"

subsection \<open>Extraction in the C++ core\<close>

text \<open>
  \<open>strtoll\<close>: the value, saturated to 64 bits, and how many characters were read; nothing is
  read when there is no digit.
\<close>

definition c_space :: "nat \<Rightarrow> bool" where
  "c_space c \<longleftrightarrow> 9 \<le> c \<and> c \<le> 13 \<or> c = 32"

definition strtoll :: "str \<Rightarrow> int \<times> nat" where
  "strtoll s =
     (let ws = length (takeWhile c_space s);
          t = drop ws s;
          neg = (t \<noteq> [] \<and> hd t = 45);
          sign = (if t \<noteq> [] \<and> (hd t = 45 \<or> hd t = 43) then 1 else 0);
          ds = takeWhile is_digit (drop sign t);
          v = (if neg then - int (undec ds) else int (undec ds))
      in if ds = [] then (0, 0)
         else (if v < - (2 ^ 63) then - (2 ^ 63) else if 2 ^ 63 \<le> v then 2 ^ 63 - 1 else v, ws + sign + length ds))"

definition true_strings :: "str list" where
  "true_strings = map S [''true'', ''True'', ''1'', ''yes'', ''Yes'', ''on'', ''On'']"

definition false_strings :: "str list" where
  "false_strings = map S [''false'', ''False'', ''0'', ''no'', ''No'', ''off'', ''Off'']"

definition coerce_value :: "(str \<Rightarrow> nat option) \<Rightarrow> pyv \<Rightarrow> tag \<Rightarrow> pyv" where
  "coerce_value flt v t =
     (case v of
        VStr s \<Rightarrow>
          (case t of
             TInt \<Rightarrow> if snd (strtoll s) = length s then VInt (fst (strtoll s)) else v
           | TFloat \<Rightarrow> (case flt s of Some x \<Rightarrow> VFloat x | None \<Rightarrow> v)
           | TBool \<Rightarrow> if s \<in> set true_strings then VBool True
                      else if s \<in> set false_strings then VBool False else v
           | TStr \<Rightarrow> v)
      | _ \<Rightarrow> v)"

record param_spec =
  ps_field :: str
  ps_key :: str
  ps_location :: nat
  ps_tag :: tag
  ps_seq :: bool

definition extract_one :: "(str \<Rightarrow> nat option) \<Rightarrow> (str, pyv) dict \<Rightarrow> param_spec \<Rightarrow> (str, pyv) dict \<Rightarrow> (str, pyv) dict" where
  "extract_one flt src ps result =
     (case map_of src (ps_key ps) of
        None \<Rightarrow> result
      | Some (VList xs) \<Rightarrow>
          if ps_seq ps then dict_set (ps_field ps) (VList xs) result
          else (case xs of [] \<Rightarrow> result | x # _ \<Rightarrow> dict_set (ps_field ps) (coerce_value flt x (ps_tag ps)) result)
      | Some v \<Rightarrow> dict_set (ps_field ps) (coerce_value flt v (ps_tag ps)) result)"

definition extract_from_source :: "(str \<Rightarrow> nat option) \<Rightarrow> (str, pyv) dict \<Rightarrow> param_spec list \<Rightarrow> nat \<Rightarrow> (str, pyv) dict \<Rightarrow> (str, pyv) dict" where
  "extract_from_source flt src specs loc result =
     fold (extract_one flt src) (filter (\<lambda>ps. ps_location ps = loc) specs) result"

definition batch_extract_params ::
  "(str \<Rightarrow> nat option) \<Rightarrow> (str, pyv) dict \<Rightarrow> (str, pyv) dict \<Rightarrow> (str, pyv) dict \<Rightarrow> (str, pyv) dict \<Rightarrow> param_spec list \<Rightarrow> (str, pyv) dict" where
  "batch_extract_params flt query hdrs cookies path specs =
     extract_from_source flt path specs 3 (extract_from_source flt cookies specs 2
       (extract_from_source flt hdrs specs 1 (extract_from_source flt query specs 0 [])))"

text \<open>\<open>parse_scope_headers\<close>: names in lower case, with \<open>convert\<close> dashes become underscores; the last value wins.\<close>

definition ascii_lower :: "str \<Rightarrow> str" where
  "ascii_lower s = map (\<lambda>c. if 65 \<le> c \<and> c \<le> 90 then c + 32 else c) s"

definition normalize_header :: "bool \<Rightarrow> str \<Rightarrow> str" where
  "normalize_header convert s = (if convert then map (\<lambda>c. if c = 45 then 95 else c) (ascii_lower s) else ascii_lower s)"

definition parse_scope_headers :: "(str \<times> str) list \<Rightarrow> bool \<Rightarrow> (str, str) dict" where
  "parse_scope_headers raw convert = fold (\<lambda>(n, v). dict_set (normalize_header convert n) v) raw []"

text \<open>
  \<open>batch_coerce_scalars\<close> reads its specifications from dictionaries and skips everything else;
  the callers pass tuples.
\<close>

datatype coerce_spec = TupleSpec str tag str | DictSpec str tag

definition batch_coerce_scalars :: "(str \<Rightarrow> nat option) \<Rightarrow> (str, pyv) dict \<Rightarrow> coerce_spec list \<Rightarrow> (str, pyv) dict" where
  "batch_coerce_scalars flt ps specs =
     fold (\<lambda>sp d. case sp of
             TupleSpec a t n \<Rightarrow> d
           | DictSpec n t \<Rightarrow>
               (case map_of d n of
                  Some (VStr s) \<Rightarrow>
                    (case t of
                       TStr \<Rightarrow> d
                     | TBool \<Rightarrow> dict_set n (VBool (s \<in> set true_strings)) d
                     | _ \<Rightarrow> dict_set n (coerce_value flt (VStr s) t) d)
                | _ \<Rightarrow> d)) specs ps"

subsection \<open>Extraction from parsed queries, headers and cookies\<close>

text \<open>The loop the three functions share: a missing value gives the default at once.\<close>

fun core_validate_fields ::
  "adapter \<Rightarrow> (field \<Rightarrow> pyv res) \<Rightarrow> (str, pyv) dict \<Rightarrow> field list \<Rightarrow> (str, pyv) dict \<times> err list \<Rightarrow> ((str, pyv) dict \<times> err list) res" where
  "core_validate_fields ad value coerced [] acc = Inr acc"
| "core_validate_fields ad value coerced (f # fs) acc =
     rbind (value f) (\<lambda>v.
       if v = VNone \<and> \<not> f_required f
       then core_validate_fields ad value coerced fs (dict_set (f_name f) (f_default f) (fst acc), snd acc)
       else
         (let v' = (case map_of coerced (f_name f) of Some c \<Rightarrow> c | None \<Rightarrow> v) in
          rbind (param_in f) (\<lambda>loc0.
          rbind (validate_value ad f v' [loc0, get_validation_alias f]) (\<lambda>r.
            core_validate_fields ad value coerced fs (record_outcome f r acc)))))"

definition query_raw_value :: "(str, str list) dict \<Rightarrow> field \<Rightarrow> pyv option" where
  "query_raw_value parsed f =
     (case map_of parsed (get_validation_alias f) of
        None \<Rightarrow> None
      | Some vs \<Rightarrow>
          if f_seq f \<and> \<not> f_json f then Some (VList (map VStr vs))
          else Some (case vs of [] \<Rightarrow> VNone | v # _ \<Rightarrow> VStr v))"

fun query_raw_values :: "(str, str list) dict \<Rightarrow> field list \<Rightarrow> (str, pyv) dict \<Rightarrow> coerce_spec list \<Rightarrow> (str, pyv) dict \<times> coerce_spec list" where
  "query_raw_values parsed [] raw specs = (raw, specs)"
| "query_raw_values parsed (f # fs) raw specs =
     (case query_raw_value parsed f of
        None \<Rightarrow> query_raw_values parsed fs raw specs
      | Some v \<Rightarrow>
          query_raw_values parsed fs (dict_set (get_validation_alias f) v raw)
            (case f_tag f of
               Some t \<Rightarrow> if v \<noteq> VNone \<and> \<not> (f_seq f \<and> \<not> f_json f)
                         then specs @ [TupleSpec (get_validation_alias f) t (f_name f)] else specs
             | None \<Rightarrow> specs))"

definition flat_query :: "(str, str list) dict \<Rightarrow> (str, pyv) dict" where
  "flat_query parsed =
     concat (map (\<lambda>(k, vs). case vs of [] \<Rightarrow> [] | [v] \<Rightarrow> [(k, VStr v)] | _ \<Rightarrow> [(k, VList (map VStr vs))]) parsed)"

text \<open>An empty list for a sequence field counts as absent.\<close>

definition present_value :: "field \<Rightarrow> pyv option \<Rightarrow> pyv res" where
  "present_value f v =
     (case v of
        None \<Rightarrow> Inr VNone
      | Some VNone \<Rightarrow> Inr VNone
      | Some w \<Rightarrow> if f_seq f then rbind (pyv_len w) (\<lambda>n. Inr (if n = 0 then VNone else w)) else Inr w)"

definition core_query_params_to_args ::
  "adapter \<Rightarrow> (str \<Rightarrow> nat option) \<Rightarrow> field list \<Rightarrow> (str, str list) dict \<Rightarrow> ((str, pyv) dict \<times> err list) res" where
  "core_query_params_to_args ad flt fs parsed =
     (case fs of
        [] \<Rightarrow> Inr ([], [])
      | first # rest \<Rightarrow>
          if rest = [] \<and> f_model first \<noteq> None
          then request_params_to_args ad fs (dict_source (flat_query parsed))
          else
           (let (raw, specs) = query_raw_values parsed fs [] [];
                coerced = (if specs \<noteq> [] then batch_coerce_scalars flt raw specs else [])
            in core_validate_fields ad (\<lambda>f. present_value f (map_of raw (get_validation_alias f))) coerced fs ([], [])))"

definition lookup_key_lower :: "bool \<Rightarrow> field \<Rightarrow> str" where
  "lookup_key_lower default_convert f =
     (let a = get_validation_alias f
      in lower (if get_or (f_convert f) default_convert \<and> a = f_name f then underscores_to_dashes a else a))"

definition core_header_params_to_args ::
  "adapter \<Rightarrow> (str \<Rightarrow> nat option) \<Rightarrow> field list \<Rightarrow> (str, str) dict \<Rightarrow> ((str, pyv) dict \<times> err list) res" where
  "core_header_params_to_args ad flt fs hdrs =
     (case fs of
        [] \<Rightarrow> Inr ([], [])
      | first # rest \<Rightarrow>
          let single = (rest = [] \<and> f_model first \<noteq> None);
              to_extract = (if single then the (f_model first) else fs);
              dc = (if single then get_or (f_convert first) True else True);
              ps = fold (\<lambda>f d. case map_of hdrs (lookup_key_lower dc f) of
                              Some v \<Rightarrow> dict_set (get_validation_alias f) (VStr v) d | None \<Rightarrow> d) to_extract [];
              processed = map (lookup_key_lower dc) to_extract
          in if single then
               rbind (param_in first) (\<lambda>loc0.
               rbind (validate_value ad first
                        (VDict (fold (\<lambda>(k, v). dict_set k (VStr v)) (filter (\<lambda>(k, v). k \<notin> set processed) hdrs) ps)) [loc0]) (\<lambda>r.
                 Inr ([(f_name first, fst r)], snd r)))
             else
               (let specs = concat (map (\<lambda>f. case f_tag f of
                                Some t \<Rightarrow> if dict_has ps (get_validation_alias f)
                                          then [TupleSpec (get_validation_alias f) t (f_name f)] else []
                              | None \<Rightarrow> []) fs);
                    coerced = (if specs \<noteq> [] then batch_coerce_scalars flt ps specs else [])
                in core_validate_fields ad
                     (\<lambda>f. Inr (case map_of hdrs (lookup_key_lower dc f) of Some v \<Rightarrow> VStr v | None \<Rightarrow> VNone)) coerced fs ([], [])))"

definition core_cookie_params_to_args ::
  "adapter \<Rightarrow> (str \<Rightarrow> nat option) \<Rightarrow> field list \<Rightarrow> (str, str) dict \<Rightarrow> ((str, pyv) dict \<times> err list) res" where
  "core_cookie_params_to_args ad flt fs cookies =
     (if fs = [] then Inr ([], [])
      else
       (let specs = concat (map (\<lambda>f. case f_tag f of
                        Some t \<Rightarrow> if dict_has cookies (get_validation_alias f)
                                  then [TupleSpec (get_validation_alias f) t (f_name f)] else []
                      | None \<Rightarrow> []) fs);
            coerced = (if specs \<noteq> [] then batch_coerce_scalars flt (map (\<lambda>(k, v). (k, VStr v)) cookies) specs else [])
        in core_validate_fields ad
             (\<lambda>f. Inr (case map_of cookies (get_validation_alias f) of Some v \<Rightarrow> VStr v | None \<Rightarrow> VNone)) coerced fs ([], [])))"

subsection \<open>All parameters of one dependency\<close>

text \<open>
  The request as the extraction sees it: the parsed query string and cookies (from the scope
  or from the C++ parsers), the raw headers, and the cached \<open>_core_headers\<close> of the scope.
\<close>

record dreq =
  dr_websocket :: bool
  dr_path :: "(str, pyv) dict"
  dr_query :: "(str, str list) dict"
  dr_headers :: "(str \<times> str) list"
  dr_core_headers :: "(str, str) dict option"
  dr_cookies :: "(str, str) dict"
  dr_header_obj :: headers

record params =
  pa_path :: "field list"
  pa_query :: "field list"
  pa_header :: "field list"
  pa_cookie :: "field list"
  pa_body :: "field list"

definition spec_of :: "nat \<Rightarrow> field \<Rightarrow> param_spec" where
  "spec_of loc f =
     \<lparr>ps_field = f_name f,
      ps_key = (if get_validation_alias f \<noteq> [] then get_validation_alias f else f_name f),
      ps_location = loc, ps_tag = get_or (f_tag f) TStr, ps_seq = (loc = 0 \<and> f_seq f)\<rparr>"

definition batch_specs :: "params \<Rightarrow> param_spec list" where
  "batch_specs pa =
     map (spec_of 0) (pa_query pa) @ map (spec_of 1) (pa_header pa) @ map (spec_of 2) (pa_cookie pa)
       @ map (spec_of 3) (pa_path pa)"

definition str_dict :: "(str, str) dict \<Rightarrow> (str, pyv) dict" where
  "str_dict d = map (\<lambda>(k, v). (k, VStr v)) d"

definition batch_extracted :: "(str \<Rightarrow> nat option) \<Rightarrow> dreq \<Rightarrow> params \<Rightarrow> (str, pyv) dict" where
  "batch_extracted flt rq pa =
     batch_extract_params flt (map (\<lambda>(k, vs). (k, VList (map VStr vs))) (dr_query rq))
       (if pa_header pa \<noteq> [] then str_dict (parse_scope_headers (dr_headers rq) False) else [])
       (str_dict (dr_cookies rq)) (dr_path rq) (batch_specs pa)"

text \<open>The batch loop; an exception ends it and keeps what was collected so far.\<close>

fun batch_loop :: "adapter \<Rightarrow> (str, pyv) dict \<Rightarrow> field list \<Rightarrow> (str, pyv) dict \<times> err list \<Rightarrow> ((str, pyv) dict \<times> err list) \<times> exn option" where
  "batch_loop ad extracted [] acc = (acc, None)"
| "batch_loop ad extracted (f # fs) acc =
     (let v = get_or (map_of extracted (f_name f)) VNone;
          v' = (if f_seq f \<and> v = VList [] then VNone else v)
      in case rbind (param_in f) (\<lambda>loc0. validate_value ad f v' [loc0, get_validation_alias f]) of
           Inl e \<Rightarrow> (acc, Some e)
         | Inr r \<Rightarrow> batch_loop ad extracted fs (record_outcome f r acc))"

definition has_model_header :: "params \<Rightarrow> bool" where
  "has_model_header pa = (case pa_header pa of [f] \<Rightarrow> f_model f \<noteq> None | _ \<Rightarrow> False)"

definition has_sequence_header :: "params \<Rightarrow> bool" where
  "has_sequence_header pa = list_ex (\<lambda>f. f_seq f \<and> \<not> f_json f) (pa_header pa)"

definition param_fields :: "params \<Rightarrow> field list" where
  "param_fields pa = pa_path pa @ pa_query pa @ pa_header pa @ pa_cookie pa"

definition single_params :: "adapter \<Rightarrow> (str \<Rightarrow> nat option) \<Rightarrow> dreq \<Rightarrow> params \<Rightarrow> (str, pyv) dict \<times> err list \<Rightarrow> ((str, pyv) dict \<times> err list) res" where
  "single_params ad flt rq pa acc =
     rbind (request_params_to_args ad (pa_path pa) (dict_source (dr_path rq))) (\<lambda>(pv, pe).
     rbind (core_query_params_to_args ad flt (pa_query pa) (dr_query rq)) (\<lambda>(qv, qe).
     rbind (if pa_header pa \<noteq> [] \<and> \<not> has_sequence_header pa
            then core_header_params_to_args ad flt (pa_header pa)
                   (get_or (dr_core_headers rq) (parse_scope_headers (dr_headers rq) True))
            else request_params_to_args ad (pa_header pa) (request_headers_source (dr_header_obj rq))) (\<lambda>(hv, he).
     rbind (core_cookie_params_to_args ad flt (pa_cookie pa) (dr_cookies rq)) (\<lambda>(cv, ce).
       Inr (dict_update cv (dict_update hv (dict_update qv (dict_update pv (fst acc)))),
            snd acc @ pe @ qe @ he @ ce)))))"

definition own_params :: "adapter \<Rightarrow> (str \<Rightarrow> nat option) \<Rightarrow> dreq \<Rightarrow> params \<Rightarrow> (str, pyv) dict \<times> err list \<Rightarrow> ((str, pyv) dict \<times> err list) res" where
  "own_params ad flt rq pa acc =
     (if \<not> has_model_header pa \<and> \<not> has_sequence_header pa \<and> param_fields pa \<noteq> []
      then (case batch_loop ad (batch_extracted flt rq pa) (param_fields pa) acc of
              (acc', None) \<Rightarrow> Inr acc'
            | (acc', Some e) \<Rightarrow> single_params ad flt rq pa acc')
      else single_params ad flt rq pa acc)"

subsection \<open>The request body\<close>

datatype body = NoBody | JsonBody pyv | FormBody "(str \<times> pyv) list"

definition should_embed_body_fields :: "field list \<Rightarrow> bool" where
  "should_embed_body_fields fs =
     (case fs of
        [] \<Rightarrow> False
      | first # _ \<Rightarrow>
          if 1 < card (set (map f_name fs)) then True
          else if f_embed first then True
          else is_form_field first \<and> f_model first = None \<and> \<not> f_union first)"

text \<open>\<open>rd\<close> reads an upload; a list of uploads is read in order.\<close>

fun read_file :: "(nat \<Rightarrow> bytes) \<Rightarrow> pyv \<Rightarrow> pyv res" where
  "read_file rd (VFile n) = Inr (VBytes (rd n))"
| "read_file rd v = Inl (AttributeError (S ''read''))"

definition form_field_value :: "(nat \<Rightarrow> bytes) \<Rightarrow> field \<Rightarrow> pyv \<Rightarrow> pyv res" where
  "form_field_value rd f v =
     (if f_kind f = FFile \<and> f_bytes f \<and> (case v of VFile n \<Rightarrow> True | _ \<Rightarrow> False) then read_file rd v
      else if f_bytes_seq f \<and> f_kind f = FFile then
        (case v of VList xs \<Rightarrow> rbind (rmap (read_file rd) xs) (\<lambda>ys. Inr (VList ys)) | _ \<Rightarrow> Inr v)
      else Inr v)"

fun form_fields_loop :: "(nat \<Rightarrow> bytes) \<Rightarrow> source \<Rightarrow> field list \<Rightarrow> (str, pyv) dict \<Rightarrow> (str, pyv) dict res" where
  "form_fields_loop rd src [] values = Inr values"
| "form_fields_loop rd src (f # fs) values =
     rbind (get_multidict_value f src None) (\<lambda>v.
     rbind (form_field_value rd f v) (\<lambda>w.
       form_fields_loop rd src fs (if w \<noteq> VNone then dict_set (get_validation_alias f) w values else values)))"

definition extract_form_body :: "(nat \<Rightarrow> bytes) \<Rightarrow> field list \<Rightarrow> (str \<times> pyv) list \<Rightarrow> (str, pyv) dict res" where
  "extract_form_body rd fs items =
     rbind (form_fields_loop rd (form_source items) fs [])
       (\<lambda>values. Inr (other_params (form_source items) (map get_validation_alias fs) values))"

text \<open>The loop over embedded fields; a body that is no mapping misses every field.\<close>

fun body_fields_loop :: "adapter \<Rightarrow> pyv \<Rightarrow> field list \<Rightarrow> (str, pyv) dict \<times> err list \<Rightarrow> ((str, pyv) dict \<times> err list) res" where
  "body_fields_loop ad b [] acc = Inr acc"
| "body_fields_loop ad b (f # fs) acc =
     (let loc = [S ''body'', get_validation_alias f];
          go = (\<lambda>v. rbind (validate_value ad f v loc) (\<lambda>r. body_fields_loop ad b fs (record_outcome f r acc)))
      in case b of
           VNone \<Rightarrow> go VNone
         | VDict d \<Rightarrow> go (get_or (map_of d (get_validation_alias f)) VNone)
         | _ \<Rightarrow> body_fields_loop ad b fs (fst acc, snd acc @ [missing_field_error loc]))"

definition request_body_to_args :: "adapter \<Rightarrow> (nat \<Rightarrow> bytes) \<Rightarrow> field list \<Rightarrow> body \<Rightarrow> bool \<Rightarrow> ((str, pyv) dict \<times> err list) res" where
  "request_body_to_args ad rd fs received emb =
     (case fs of
        [] \<Rightarrow> Inl (AssertionError (S ''request_body_to_args() should be called with fields''))
      | first # rest \<Rightarrow>
          let single = (rest = [] \<and> \<not> emb)
          in rbind (case received of
                      NoBody \<Rightarrow> Inr VNone
                    | JsonBody v \<Rightarrow> Inr v
                    | FormBody items \<Rightarrow>
                        rbind (extract_form_body rd
                                 (case f_model first of Some ms \<Rightarrow> if single then ms else fs | None \<Rightarrow> fs) items)
                          (\<lambda>d. Inr (VDict d))) (\<lambda>b.
             if single then
               rbind (validate_value ad first b [S ''body'']) (\<lambda>r. Inr ([(f_name first, fst r)], snd r))
             else body_fields_loop ad b fs ([], [])))"

subsection \<open>Properties: batch extraction\<close>

text \<open>
  The reference for the C++ batch extraction: every field looked up on its own in the mapping
  of its location. A list value is taken whole by a sequence query field and by its first
  element otherwise; strings are coerced to the field's scalar type.
\<close>

definition location_source :: "dreq \<Rightarrow> nat \<Rightarrow> (str, pyv) dict" where
  "location_source rq loc =
     (if loc = 0 then map (\<lambda>(k, vs). (k, VList (map VStr vs))) (dr_query rq)
      else if loc = 1 then str_dict (parse_scope_headers (dr_headers rq) False)
      else if loc = 2 then str_dict (dr_cookies rq) else dr_path rq)"

definition reference_value :: "(str \<Rightarrow> nat option) \<Rightarrow> dreq \<Rightarrow> nat \<Rightarrow> field \<Rightarrow> pyv" where
  "reference_value flt rq loc f =
     (let key = (if get_validation_alias f \<noteq> [] then get_validation_alias f else f_name f);
          t = get_or (f_tag f) TStr
      in case map_of (location_source rq loc) key of
           None \<Rightarrow> VNone
         | Some (VList xs) \<Rightarrow>
             if loc = 0 \<and> f_seq f then VList xs else (case xs of [] \<Rightarrow> VNone | x # _ \<Rightarrow> coerce_value flt x t)
         | Some v \<Rightarrow> coerce_value flt v t)"

definition located_fields :: "params \<Rightarrow> (nat \<times> field) list" where
  "located_fields pa =
     map (Pair 3) (pa_path pa) @ map (Pair 0) (pa_query pa) @ map (Pair 1) (pa_header pa) @ map (Pair 2) (pa_cookie pa)"

lemma located_snd: "map snd (located_fields pa) = param_fields pa"
  by (simp add: located_fields_def param_fields_def comp_def)

definition extracted_value :: "(str \<Rightarrow> nat option) \<Rightarrow> (str, pyv) dict \<Rightarrow> param_spec \<Rightarrow> pyv option" where
  "extracted_value flt src ps =
     (case map_of src (ps_key ps) of
        None \<Rightarrow> None
      | Some (VList xs) \<Rightarrow>
          if ps_seq ps then Some (VList xs) else (case xs of [] \<Rightarrow> None | x # _ \<Rightarrow> Some (coerce_value flt x (ps_tag ps)))
      | Some v \<Rightarrow> Some (coerce_value flt v (ps_tag ps)))"

lemma extract_one_value:
  "extract_one flt src ps d = (case extracted_value flt src ps of None \<Rightarrow> d | Some v \<Rightarrow> dict_set (ps_field ps) v d)"
proof (cases "map_of src (ps_key ps)")
  case (Some v)
  then show ?thesis by (cases v) (simp_all add: extract_one_def extracted_value_def split: list.splits)
qed (simp add: extract_one_def extracted_value_def)

lemma extract_fold_other:
  "\<forall>ps\<in>set specs. ps_field ps \<noteq> k \<Longrightarrow> map_of (fold (extract_one flt src) specs d) k = map_of d k"
  by (induction specs arbitrary: d) (auto simp: extract_one_value map_of_dict_set split: option.splits)

lemma extract_fold_hit:
  assumes "ps \<in> set specs" and "distinct (map ps_field specs)" and "map_of d (ps_field ps) = None"
  shows "map_of (fold (extract_one flt src) specs d) (ps_field ps) = extracted_value flt src ps"
  using assms
proof (induction specs arbitrary: d)
  case (Cons q specs)
  show ?case
  proof (cases "q = ps")
    case True
    have "\<forall>x\<in>set specs. ps_field x \<noteq> ps_field ps" using Cons.prems(2) True by (force simp: image_iff)
    then have "map_of (fold (extract_one flt src) (q # specs) d) (ps_field ps) = map_of (extract_one flt src ps d) (ps_field ps)"
      using True by (simp add: extract_fold_other)
    also have "\<dots> = extracted_value flt src ps"
      using Cons.prems(3) by (simp add: extract_one_value map_of_dict_set split: option.splits)
    finally show ?thesis .
  next
    case False
    then have "ps \<in> set specs" and ne: "ps_field q \<noteq> ps_field ps" using Cons.prems by auto
    moreover have "map_of (extract_one flt src q d) (ps_field ps) = None"
      using ne Cons.prems(3) by (simp add: extract_one_value map_of_dict_set split: option.splits)
    ultimately show ?thesis using Cons.IH Cons.prems(2) by simp
  qed
qed simp

lemma extract_from_hit:
  assumes "ps \<in> set specs" and "distinct (map ps_field specs)" and "map_of d (ps_field ps) = None"
  shows "map_of (extract_from_source flt src specs loc d) (ps_field ps) =
     (if ps_location ps = loc then extracted_value flt src ps else None)"
proof (cases "ps_location ps = loc")
  case True
  then show ?thesis unfolding extract_from_source_def
    using assms extract_fold_hit [of ps "filter (\<lambda>ps. ps_location ps = loc) specs" d flt src]
    by (simp add: distinct_map_filter)
next
  case False
  have "\<forall>q\<in>set (filter (\<lambda>ps. ps_location ps = loc) specs). ps_field q \<noteq> ps_field ps"
    using assms(1,2) False by (auto simp: distinct_map inj_on_def)
  then show ?thesis using False assms(3) by (simp add: extract_from_source_def extract_fold_other)
qed

lemma extract_from_keep:
  assumes "ps \<in> set specs" and "distinct (map ps_field specs)" and "ps_location ps \<noteq> loc"
  shows "map_of (extract_from_source flt src specs loc d) (ps_field ps) = map_of d (ps_field ps)"
proof -
  have "\<forall>q\<in>set (filter (\<lambda>ps. ps_location ps = loc) specs). ps_field q \<noteq> ps_field ps"
    using assms by (auto simp: distinct_map inj_on_def)
  then show ?thesis by (simp add: extract_from_source_def extract_fold_other)
qed

lemma batch_extract_hit:
  assumes "ps \<in> set specs" and "distinct (map ps_field specs)" and "ps_location ps \<in> {0, 1, 2, 3}"
  shows "map_of (batch_extract_params flt s0 s1 s2 s3 specs) (ps_field ps) =
     extracted_value flt (if ps_location ps = 0 then s0 else if ps_location ps = 1 then s1
       else if ps_location ps = 2 then s2 else s3) ps"
  using assms unfolding batch_extract_params_def
  by (auto simp: extract_from_hit extract_from_keep)

lemma set_batch_specs: "set (batch_specs pa) = (\<lambda>(loc, f). spec_of loc f) ` set (located_fields pa)"
  by (force simp: batch_specs_def located_fields_def)

lemma mset_batch_specs: "mset (map ps_field (batch_specs pa)) = mset (map f_name (param_fields pa))"
  by (simp add: batch_specs_def param_fields_def spec_of_def comp_def)

lemma batch_extracted_reference:
  assumes "distinct (map f_name (param_fields pa))" and lf: "(loc, f) \<in> set (located_fields pa)"
  shows "get_or (map_of (batch_extracted flt rq pa) (f_name f)) VNone = reference_value flt rq loc f"
proof -
  let ?ps = "spec_of loc f"
  have "?ps \<in> set (batch_specs pa)" using lf by (force simp: set_batch_specs)
  moreover have "distinct (map ps_field (batch_specs pa))"
    using assms(1) mset_batch_specs [of pa] by (metis mset_eq_imp_distinct_iff)
  moreover have loc: "loc \<in> {0, 1, 2, 3}" "loc = 1 \<Longrightarrow> pa_header pa \<noteq> []"
    using lf by (auto simp: located_fields_def)
  ultimately have "map_of (batch_extracted flt rq pa) (f_name f) = extracted_value flt (location_source rq loc) ?ps"
    using batch_extract_hit [of ?ps "batch_specs pa"]
    by (auto simp: batch_extracted_def location_source_def spec_of_def)
  also have "get_or \<dots> VNone = reference_value flt rq loc f"
  proof (cases "map_of (location_source rq loc) (ps_key ?ps)")
    case (Some v)
    then show ?thesis
      by (cases v) (simp_all add: extracted_value_def reference_value_def spec_of_def Let_def split: list.splits)
  qed (simp add: extracted_value_def reference_value_def spec_of_def Let_def)
  finally show ?thesis .
qed

text \<open>Validating the located fields one after the other on their reference values.\<close>

fun reference_loop :: "adapter \<Rightarrow> (nat \<Rightarrow> field \<Rightarrow> pyv) \<Rightarrow> (nat \<times> field) list \<Rightarrow> (str, pyv) dict \<times> err list \<Rightarrow> ((str, pyv) dict \<times> err list) res" where
  "reference_loop ad value [] acc = Inr acc"
| "reference_loop ad value ((loc, f) # lfs) acc =
     rbind (param_in f) (\<lambda>loc0.
     rbind (validate_value ad f (if f_seq f \<and> value loc f = VList [] then VNone else value loc f) [loc0, get_validation_alias f]) (\<lambda>r.
       reference_loop ad value lfs (record_outcome f r acc)))"

lemma batch_loop_reference:
  assumes "\<forall>(loc, f)\<in>set lfs. get_or (map_of d (f_name f)) VNone = value loc f"
  shows "(case batch_loop ad d (map snd lfs) acc of (acc', None) \<Rightarrow> Inr acc' | (acc', Some e) \<Rightarrow> Inl e) = reference_loop ad value lfs acc"
  using assms
proof (induction lfs arbitrary: acc)
  case (Cons x lfs)
  obtain loc f where x: "x = (loc, f)" by fastforce
  have v: "get_or (map_of d (f_name f)) VNone = value loc f" using Cons.prems x by simp
  show ?case
  proof (cases "param_in f")
    case (Inr l)
    show ?thesis using Cons x v Inr
      by (cases "validate_value ad f (if f_seq f \<and> value loc f = VList [] then VNone else value loc f) [l, get_validation_alias f]")
        (simp_all add: Let_def)
  qed (simp add: x)
qed simp

lemma own_params_reference:
  assumes "distinct (map f_name (param_fields pa))" and "\<not> has_model_header pa" and "\<not> has_sequence_header pa"
    and "param_fields pa \<noteq> []" and "reference_loop ad (reference_value flt rq) (located_fields pa) acc = Inr r"
  shows "own_params ad flt rq pa acc = Inr r"
proof -
  have "\<forall>(loc, f)\<in>set (located_fields pa). get_or (map_of (batch_extracted flt rq pa) (f_name f)) VNone = reference_value flt rq loc f"
    using batch_extracted_reference [OF assms(1)] by auto
  from batch_loop_reference [OF this, of ad acc] assms(2-5) show ?thesis
    by (auto simp: own_params_def located_snd split: prod.splits option.splits)
qed

text \<open>
  C11: The batch extraction in C++ is equivalent to looking up every parameter on its own: when the
  parameters of a dependency have distinct names and the reference raises no exception, the
  values and errors are those of the reference.
\<close>

theorem batch_equals_reference:
  assumes "distinct (map f_name (param_fields pa))" and "\<not> has_model_header pa" and "\<not> has_sequence_header pa"
    and "param_fields pa \<noteq> []" and "reference_loop ad (reference_value flt rq) (located_fields pa) acc = Inr r"
  shows "own_params ad flt rq pa acc = Inr r"
  by (rule own_params_reference [OF assms])

text \<open>A scalar query parameter alone, as the examples below use it.\<close>

definition query_field :: "string \<Rightarrow> tag \<Rightarrow> field" where
  "query_field n t = Field (S n) None None True VNone (FParam (S ''query'')) None False False False False (Some t) (Some t) None False False"

definition query_only :: "field list \<Rightarrow> params" where
  "query_only fs = \<lparr>pa_path = [], pa_query = fs, pa_header = [], pa_cookie = [], pa_body = []\<rparr>"

definition query_request :: "(str, str list) dict \<Rightarrow> dreq" where
  "query_request q = \<lparr>dr_websocket = False, dr_path = [], dr_query = q, dr_headers = [], dr_core_headers = None,
     dr_cookies = [], dr_header_obj = rq_headers_init None None\<rparr>"

lemmas query_example_defs = query_field_def query_only_def query_request_def located_fields_def param_fields_def
  has_model_header_def has_sequence_header_def reference_value_def location_source_def get_validation_alias_def
  validation_alias_def field_alias_def param_in_def validate_value_def record_outcome_def coerce_value_def

theorem batch_equals_reference_witness:
  "own_params (\<lambda>f v. VOk v) (\<lambda>s. None) (query_request [(S ''q'', [S ''x'', S ''y''])]) (query_only [query_field ''q'' TStr]) ([], [])
     = Inr ([(S ''q'', VStr (S ''x''))], [])"
  by (rule batch_equals_reference) (simp_all add: query_example_defs dict_set_def)

subsection \<open>Properties: integers\<close>

lemma strtoll_dec: "strtoll (dec n) = (if 2 ^ 63 \<le> int n then 2 ^ 63 - 1 else int n, length (dec n))"
proof -
  have dg: "\<forall>c\<in>set (dec n). is_digit c" using dec_digits by blast
  have ne: "dec n \<noteq> []" by (rule dec_nonempty)
  have hd: "is_digit (hd (dec n))" using dg ne by simp
  then have "\<not> c_space (hd (dec n))" "hd (dec n) \<noteq> 45" "hd (dec n) \<noteq> 43"
    by (auto simp: is_digit_def c_space_def)
  moreover have tw: "takeWhile is_digit (dec n) = dec n" using dg by simp
  moreover have "takeWhile c_space (dec n) = []" using ne calculation(1) by (cases "dec n") auto
  ultimately show ?thesis using ne by (simp add: strtoll_def Let_def undec_dec tw)
qed

text \<open>
  An integer query parameter without constraints is exact below \<open>2 ^ 63\<close> and is silently
  replaced by \<open>2 ^ 63 - 1\<close> from there on; the request is never rejected.
\<close>

theorem int_query_param_saturates:
  assumes "f_tag f = Some TInt" and "f_trivial f = Some TInt" and "f_kind f = FParam (S ''query'')" and "\<not> f_seq f"
    and "get_validation_alias f \<noteq> []" and "map_of (dr_query rq) (get_validation_alias f) = Some (dec n # vs')"
  shows "own_params ad flt rq (query_only [f]) ([], []) =
     Inr ([(f_name f, VInt (if n < 2 ^ 63 then int n else 2 ^ 63 - 1))], [])"
proof -
  have n: "(2 ^ 63 \<le> int n) = (\<not> n < 2 ^ 63)" by (simp add: not_less)
  have "map_of (map (\<lambda>(k, vs). (k, VList (map VStr vs))) (dr_query rq)) (get_validation_alias f)
     = Some (VList (map VStr (dec n # vs')))"
    using assms(6) by (simp add: map_of_map)
  then have "reference_value flt rq 0 f = VInt (if n < 2 ^ 63 then int n else 2 ^ 63 - 1)"
    using assms by (simp add: reference_value_def location_source_def coerce_value_def strtoll_dec n)
  then have "reference_loop ad (reference_value flt rq) (located_fields (query_only [f])) ([], []) =
     Inr ([(f_name f, VInt (if n < 2 ^ 63 then int n else 2 ^ 63 - 1))], [])"
    using assms by (simp add: located_fields_def query_only_def param_in_def validate_value_def record_outcome_def
        dict_set_def S_def)
  moreover have "\<not> has_model_header (query_only [f])" "\<not> has_sequence_header (query_only [f])" "param_fields (query_only [f]) = [f]"
    by (simp_all add: query_only_def has_model_header_def has_sequence_header_def param_fields_def)
  ultimately show ?thesis by (intro own_params_reference) simp_all
qed

theorem int_query_param_saturates_witness:
  "own_params (\<lambda>f v. VTypeError) (\<lambda>s. None) (query_request [(S ''n'', [dec (2 ^ 64)])]) (query_only [query_field ''n'' TInt]) ([], [])
     = Inr ([(S ''n'', VInt (2 ^ 63 - 1))], [])"
  using int_query_param_saturates [of "query_field ''n'' TInt" "query_request [(S ''n'', [dec (2 ^ 64)])]" "2 ^ 64" "[]"]
  by (simp add: query_field_def query_request_def get_validation_alias_def validation_alias_def field_alias_def del: dec.simps)

text \<open>The empty string is read as zero: \<open>?n=\<close> passes an integer parameter.\<close>

lemma empty_int_param_is_zero: "coerce_value flt (VStr []) TInt = VInt 0"
  by (simp add: coerce_value_def strtoll_def)

subsection \<open>Properties: headers and forms\<close>

lemma ascii_lower_no_upper: "c \<in> set (ascii_lower s) \<Longrightarrow> \<not> (65 \<le> c \<and> c \<le> 90)"
  by (auto simp: ascii_lower_def)

lemma keys_parse_scope_headers:
  "k \<in> fst ` set (fold (\<lambda>(n, v). dict_set (normalize_header False n) v) raw d) \<Longrightarrow>
   k \<in> fst ` set d \<or> (\<exists>n. k = ascii_lower n)"
proof (induction raw arbitrary: d)
  case (Cons x raw)
  obtain n v where x: "x = (n, v)" by fastforce
  from Cons.IH [of "dict_set (normalize_header False n) v d"] Cons.prems x
  have "k \<in> fst ` set (dict_set (normalize_header False n) v d) \<or> (\<exists>n. k = ascii_lower n)" by simp
  moreover have "fst ` set (dict_set (normalize_header False n) v d) = insert (ascii_lower n) (fst ` set d)"
    using keys_dict_set [of "normalize_header False n" v d] by (auto simp: normalize_header_def simp flip: set_map)
  ultimately show ?case by auto
qed simp

text \<open>
  A required header parameter whose alias has a capital letter is reported missing whatever
  the client sends: the batch extraction looks the alias up as it is written among names that
  were put in lower case.
\<close>

theorem header_alias_with_capital_missing:
  assumes "f_kind f = FParam (S ''header'')" and "f_required f" and "f_model f = None" and "\<not> f_seq f"
    and "c \<in> set (get_validation_alias f)" and "65 \<le> c" and "c \<le> 90"
  shows "own_params ad flt rq \<lparr>pa_path = [], pa_query = [], pa_header = [f], pa_cookie = [], pa_body = []\<rparr> ([], []) =
     Inr ([], [missing_field_error [S ''header'', get_validation_alias f]])"
proof -
  let ?pa = "\<lparr>pa_path = [], pa_query = [], pa_header = [f], pa_cookie = [], pa_body = []\<rparr>"
  have "get_validation_alias f \<notin> fst ` set (parse_scope_headers (dr_headers rq) False)"
  proof
    assume "get_validation_alias f \<in> fst ` set (parse_scope_headers (dr_headers rq) False)"
    then obtain n where "get_validation_alias f = ascii_lower n"
      using keys_parse_scope_headers [of "get_validation_alias f" "dr_headers rq" "[]"]
      unfolding parse_scope_headers_def by auto
    with ascii_lower_no_upper [of c n] assms(5-7) show False by simp
  qed
  then have "map_of (str_dict (parse_scope_headers (dr_headers rq) False)) (get_validation_alias f) = None"
    by (auto simp: str_dict_def map_of_eq_None_iff image_iff split_def)
  then have "reference_value flt rq 1 f = VNone"
    using assms(5) by (auto simp: reference_value_def location_source_def Let_def)
  then have "reference_loop ad (reference_value flt rq) (located_fields ?pa) ([], []) =
      Inr ([], [missing_field_error [S ''header'', get_validation_alias f]])"
    using assms by (simp add: located_fields_def param_in_def validate_value_def record_outcome_def)
  moreover have "\<not> has_model_header ?pa" "\<not> has_sequence_header ?pa" "param_fields ?pa = [f]"
    using assms by (simp_all add: has_model_header_def has_sequence_header_def param_fields_def)
  ultimately show ?thesis by (intro own_params_reference) simp_all
qed

definition token_header :: field where
  "token_header = Field (S ''token'') (Some (S ''X-Token'')) None True VNone (FParam (S ''header'')) (Some True)
     False False False False (Some TStr) (Some TStr) None False False"

theorem header_alias_with_capital_missing_witness:
  "own_params (\<lambda>f v. VOk v) (\<lambda>s. None) ((query_request [])\<lparr>dr_headers := [(S ''X-Token'', S ''secret'')]\<rparr>)
     \<lparr>pa_path = [], pa_query = [], pa_header = [token_header], pa_cookie = [], pa_body = []\<rparr> ([], []) =
   Inr ([], [missing_field_error [S ''header'', S ''X-Token'']])"
proof -
  have a: "get_validation_alias token_header = S ''X-Token''"
    by (simp add: token_header_def get_validation_alias_def validation_alias_def field_alias_def)
  show ?thesis
    using header_alias_with_capital_missing [of token_header 88 "\<lambda>f v. VOk v" "\<lambda>s. None" "(query_request [])\<lparr>dr_headers := [(S ''X-Token'', S ''secret'')]\<rparr>"]
    unfolding a by (simp add: token_header_def S_def)
qed

text \<open>
  A list field of a form gets the first of its values, and not as a list, where the mapping
  the lookup was written for gives all of them.
\<close>

theorem form_list_field_first_only:
  assumes "f_seq f" and "\<not> f_json f" and "values_of items (get_validation_alias f) = VStr s # vs" and "s \<noteq> []"
  shows "get_multidict_value f (form_source items) None = Inr (VStr s)
     \<and> get_multidict_value f (multi_source items) None = Inr (VList (VStr s # vs))"
proof -
  have "map_of (first_dict items []) (get_validation_alias f) = Some (VStr s)"
    using assms(3) by (simp add: map_of_first_dict)
  then show ?thesis using assms
    by (simp add: get_multidict_value_def form_source_def multi_source_def)
qed

definition tags_field :: field where
  "tags_field = Field (S ''tags'') None None True VNone FForm None True False False False None None None False False"

theorem form_list_field_first_only_witness:
  "get_multidict_value tags_field (form_source [(S ''tags'', VStr (S ''a'')), (S ''tags'', VStr (S ''b''))]) None = Inr (VStr (S ''a''))"
proof -
  have a: "get_validation_alias tags_field = S ''tags''"
    by (simp add: tags_field_def get_validation_alias_def validation_alias_def field_alias_def)
  show ?thesis
    using form_list_field_first_only [of tags_field "[(S ''tags'', VStr (S ''a'')), (S ''tags'', VStr (S ''b''))]" "S ''a''" "[VStr (S ''b'')]"]
    unfolding a by (simp add: tags_field_def values_of_def)
qed

subsection \<open>Properties: every parameter is accounted for\<close>

abbreviation keys :: "('k, 'v) dict \<Rightarrow> 'k set" where
  "keys d \<equiv> fst ` set d"

lemma keys_set: "keys (dict_set k v d) = insert k (keys d)"
  using keys_dict_set [of k v d] by (auto simp flip: set_map split: if_splits)

lemma keys_update: "keys (dict_update ps d) = keys ps \<union> keys d"
  unfolding dict_update_def by (induction ps arbitrary: d) (simp_all add: keys_set split_def)

text \<open>
  Errors are only added, bound names stay bound, and when no error was added every field of
  \<open>fs\<close> is bound.
\<close>

definition accounts :: "field list \<Rightarrow> (str, pyv) dict \<times> err list \<Rightarrow> (str, pyv) dict \<times> err list \<Rightarrow> bool" where
  "accounts fs acc acc' \<longleftrightarrow>
     (\<exists>new. snd acc' = snd acc @ new \<and> (new = [] \<longrightarrow> f_name ` set fs \<subseteq> keys (fst acc'))) \<and> keys (fst acc) \<subseteq> keys (fst acc')"

lemma accounts_Nil: "accounts [] acc acc"
  by (simp add: accounts_def)

lemma accounts_trans:
  assumes "accounts fs acc acc1" and "accounts gs acc1 acc2"
  shows "accounts (fs @ gs) acc acc2"
proof -
  obtain n1 where 1: "snd acc1 = snd acc @ n1" "n1 = [] \<Longrightarrow> f_name ` set fs \<subseteq> keys (fst acc1)" "keys (fst acc) \<subseteq> keys (fst acc1)"
    using assms(1) by (auto simp: accounts_def)
  obtain n2 where 2: "snd acc2 = snd acc1 @ n2" "n2 = [] \<Longrightarrow> f_name ` set gs \<subseteq> keys (fst acc2)" "keys (fst acc1) \<subseteq> keys (fst acc2)"
    using assms(2) by (auto simp: accounts_def)
  have "snd acc2 = snd acc @ (n1 @ n2)" using 1(1) 2(1) by simp
  moreover have "n1 @ n2 = [] \<longrightarrow> f_name ` set (fs @ gs) \<subseteq> keys (fst acc2)"
    using 1(2) 2(2,3) by (simp add: image_Un) blast
  ultimately show ?thesis unfolding accounts_def using 1(3) 2(3) by blast
qed

lemma accounts_weaken: "accounts fs acc acc' \<Longrightarrow> set gs \<subseteq> set fs \<Longrightarrow> accounts gs acc acc'"
  unfolding accounts_def using image_mono [of "set gs" "set fs" f_name] by (meson order_trans)

lemma accounts_outcome: "accounts [f] acc (record_outcome f r acc)"
  by (auto simp: accounts_def record_outcome_def keys_set)

lemma accounts_default: "accounts [f] acc (dict_set (f_name f) v (fst acc), snd acc)"
  by (auto simp: accounts_def keys_set)

lemma validate_fields_accounts: "validate_fields ad value fs acc = Inr acc' \<Longrightarrow> accounts fs acc acc'"
proof (induction fs arbitrary: acc)
  case (Cons f fs)
  then obtain r where "validate_fields ad value fs (record_outcome f r acc) = Inr acc'"
    by (auto simp: rbind_eq_Inr_iff)
  from accounts_trans [OF accounts_outcome Cons.IH [OF this]] show ?case by simp
qed (simp add: accounts_Nil)

lemma core_validate_fields_accounts: "core_validate_fields ad value co fs acc = Inr acc' \<Longrightarrow> accounts fs acc acc'"
proof (induction fs arbitrary: acc)
  case (Cons f fs)
  obtain v where v: "value f = Inr v" using Cons.prems by (auto simp: rbind_eq_Inr_iff)
  show ?case
  proof (cases "v = VNone \<and> \<not> f_required f")
    case True
    then have "core_validate_fields ad value co fs (dict_set (f_name f) (f_default f) (fst acc), snd acc) = Inr acc'"
      using Cons.prems v by simp
    from accounts_trans [OF accounts_default Cons.IH [OF this]] show ?thesis by simp
  next
    case False
    then obtain r where "core_validate_fields ad value co fs (record_outcome f r acc) = Inr acc'"
      using Cons.prems v by (auto simp: rbind_eq_Inr_iff Let_def)
    from accounts_trans [OF accounts_outcome Cons.IH [OF this]] show ?thesis by simp
  qed
qed (simp add: accounts_Nil)

lemma batch_loop_accounts: "accounts (if snd (batch_loop ad d fs acc) = None then fs else []) acc (fst (batch_loop ad d fs acc))"
proof (induction fs arbitrary: acc)
  case (Cons f fs)
  show ?case
  proof (cases "rbind (param_in f) (\<lambda>loc0. validate_value ad f
      (if f_seq f \<and> get_or (map_of d (f_name f)) VNone = VList [] then VNone else get_or (map_of d (f_name f)) VNone)
      [loc0, get_validation_alias f])")
    case (Inl e)
    then show ?thesis by (simp add: Let_def accounts_Nil)
  next
    case (Inr r)
    from accounts_trans [OF accounts_outcome [of f acc r] Cons.IH [of "record_outcome f r acc"]] Inr
    show ?thesis by (auto simp: Let_def intro: accounts_weaken split: if_splits)
  qed
qed (simp add: accounts_Nil)

lemma request_params_accounts: "request_params_to_args ad fs src = Inr acc' \<Longrightarrow> accounts fs ([], []) acc'"
proof (cases fs)
  case (Cons f rest)
  assume r: "request_params_to_args ad fs src = Inr acc'"
  show ?thesis
  proof (cases "rest = [] \<and> f_model f \<noteq> None")
    case True
    then show ?thesis using r Cons by (auto simp: request_params_to_args_def rbind_eq_Inr_iff accounts_def)
  next
    case False
    then have "validate_fields ad (\<lambda>f. get_multidict_value f src None) fs ([], []) = Inr acc'"
      using r Cons by (auto simp: request_params_to_args_def rbind_eq_Inr_iff Let_def)
    then show ?thesis by (rule validate_fields_accounts)
  qed
qed (simp add: request_params_to_args_def accounts_def)

lemma core_query_accounts: "core_query_params_to_args ad flt fs parsed = Inr acc' \<Longrightarrow> accounts fs ([], []) acc'"
proof (cases fs)
  case (Cons f rest)
  assume r: "core_query_params_to_args ad flt fs parsed = Inr acc'"
  show ?thesis
  proof (cases "rest = [] \<and> f_model f \<noteq> None")
    case True
    then have "request_params_to_args ad fs (dict_source (flat_query parsed)) = Inr acc'"
      using r Cons by (simp add: core_query_params_to_args_def)
    then show ?thesis by (rule request_params_accounts)
  next
    case False
    obtain raw specs where rs: "query_raw_values parsed fs [] [] = (raw, specs)" by fastforce
    have "core_validate_fields ad (\<lambda>f. present_value f (map_of raw (get_validation_alias f)))
       (if specs \<noteq> [] then batch_coerce_scalars flt raw specs else []) fs ([], []) = Inr acc'"
      using r False rs unfolding core_query_params_to_args_def Cons list.case by (simp only: if_False Let_def split_conv)
    then show ?thesis by (rule core_validate_fields_accounts)
  qed
qed (simp add: core_query_params_to_args_def accounts_def)

lemma core_header_accounts: "core_header_params_to_args ad flt fs hdrs = Inr acc' \<Longrightarrow> accounts fs ([], []) acc'"
proof (cases fs)
  case (Cons f rest)
  assume r: "core_header_params_to_args ad flt fs hdrs = Inr acc'"
  show ?thesis
  proof (cases "rest = [] \<and> f_model f \<noteq> None")
    case True
    then show ?thesis using r Cons by (auto simp: core_header_params_to_args_def rbind_eq_Inr_iff accounts_def Let_def)
  next
    case False
    then obtain vf co where "core_validate_fields ad vf co fs ([], []) = Inr acc'"
      using r unfolding core_header_params_to_args_def Cons list.case Let_def by (auto simp del: core_validate_fields.simps)
    then show ?thesis by (rule core_validate_fields_accounts)
  qed
qed (simp add: core_header_params_to_args_def accounts_def)

lemma core_cookie_accounts: "core_cookie_params_to_args ad flt fs cookies = Inr acc' \<Longrightarrow> accounts fs ([], []) acc'"
  by (cases "fs = []") (simp_all add: core_cookie_params_to_args_def accounts_Nil Let_def core_validate_fields_accounts)

lemma accounts_merge:
  assumes "accounts fs ([], []) (v, e)"
  shows "accounts fs acc (dict_update v (fst acc), snd acc @ e)"
proof -
  have "e = [] \<Longrightarrow> f_name ` set fs \<subseteq> keys v \<union> keys (fst acc)" using assms unfolding accounts_def by auto
  then show ?thesis by (simp add: accounts_def keys_update)
qed

lemma single_params_accounts:
  assumes "single_params ad flt rq pa acc = Inr acc'"
  shows "accounts (param_fields pa) acc acc'"
proof -
  obtain pv pe qv qe hv he cv ce where
    "accounts (pa_path pa) ([], []) (pv, pe)" "accounts (pa_query pa) ([], []) (qv, qe)"
    "accounts (pa_header pa) ([], []) (hv, he)" "accounts (pa_cookie pa) ([], []) (cv, ce)"
    and acc': "acc' = (dict_update cv (dict_update hv (dict_update qv (dict_update pv (fst acc)))), snd acc @ pe @ qe @ he @ ce)"
    using assms unfolding single_params_def
    by (auto simp: rbind_eq_Inr_iff dest!: request_params_accounts core_query_accounts core_header_accounts core_cookie_accounts
        split: if_splits)
  then have "accounts (pa_path pa @ pa_query pa @ pa_header pa @ pa_cookie pa) acc
     (dict_update cv (dict_update hv (dict_update qv (dict_update pv (fst acc)))), ((snd acc @ pe) @ qe @ he) @ ce)"
    using accounts_trans [OF accounts_trans [OF accounts_trans [OF accounts_merge accounts_merge] accounts_merge] accounts_merge, of "pa_path pa" pv pe "pa_query pa" qv qe "pa_header pa" hv he "pa_cookie pa" cv ce acc]
    by simp
  then show ?thesis by (simp add: acc' param_fields_def)
qed

lemma own_params_accounts:
  assumes "own_params ad flt rq pa acc = Inr acc'"
  shows "accounts (param_fields pa) acc acc'"
proof (cases "\<not> has_model_header pa \<and> \<not> has_sequence_header pa \<and> param_fields pa \<noteq> []")
  case True
  obtain acc1 e where b: "batch_loop ad (batch_extracted flt rq pa) (param_fields pa) acc = (acc1, e)" by fastforce
  from batch_loop_accounts [of ad "batch_extracted flt rq pa" "param_fields pa" acc] b
  have a: "accounts (if e = None then param_fields pa else []) acc acc1" by simp
  show ?thesis
  proof (cases e)
    case None
    then show ?thesis using a assms True b by (simp add: own_params_def)
  next
    case (Some x)
    then have "single_params ad flt rq pa acc1 = Inr acc'" using assms True b by (simp add: own_params_def)
    from accounts_trans [OF a single_params_accounts [OF this]] Some show ?thesis by simp
  qed
next
  case False
  then have "single_params ad flt rq pa acc = Inr acc'" using assms by (auto simp: own_params_def)
  then show ?thesis by (rule single_params_accounts)
qed

lemma accounts_error: "accounts [f] acc (fst acc, snd acc @ [e])"
  by (simp add: accounts_def)

lemma body_fields_accounts: "body_fields_loop ad b fs acc = Inr acc' \<Longrightarrow> accounts fs acc acc'"
proof (induction fs arbitrary: acc)
  case (Cons f fs)
  have "\<exists>acc1. body_fields_loop ad b fs acc1 = Inr acc' \<and> accounts [f] acc acc1"
  proof (cases "b = VNone \<or> (\<exists>d. b = VDict d)")
    case True
    then obtain r where "body_fields_loop ad b fs (record_outcome f r acc) = Inr acc'"
      using Cons.prems by (auto simp: rbind_eq_Inr_iff Let_def)
    then show ?thesis using accounts_outcome by blast
  next
    case False
    then have "body_fields_loop ad b fs (fst acc, snd acc @ [missing_field_error [S ''body'', get_validation_alias f]]) = Inr acc'"
      using Cons.prems by (cases b) (simp_all add: Let_def)
    then show ?thesis using accounts_error by blast
  qed
  then obtain acc1 where a: "body_fields_loop ad b fs acc1 = Inr acc'" "accounts [f] acc acc1" by blast
  from accounts_trans [OF a(2) Cons.IH [OF a(1)]] show ?case by simp
qed (simp add: accounts_Nil)

lemma request_body_accounts: "request_body_to_args ad rd fs b e = Inr acc' \<Longrightarrow> accounts fs ([], []) acc'"
proof (cases fs)
  case (Cons f rest)
  assume r: "request_body_to_args ad rd fs b e = Inr acc'"
  show ?thesis
  proof (cases "rest = [] \<and> \<not> e")
    case True
    then show ?thesis using r Cons by (auto simp: request_body_to_args_def rbind_eq_Inr_iff accounts_def Let_def)
  next
    case False
    then obtain v where "body_fields_loop ad v fs ([], []) = Inr acc'"
      using r unfolding request_body_to_args_def Cons list.case Let_def
      by (auto simp: rbind_eq_Inr_iff simp del: body_fields_loop.simps)
    then show ?thesis by (rule body_fields_accounts)
  qed
qed (simp add: request_body_to_args_def)

text \<open>
  When the extraction of a dependency's parameters reports no error, every path, query, header
  and cookie parameter has a value: the call that follows gets all its arguments. This holds
  for the batch extraction, for the fallback and for a batch that failed half way.
\<close>

theorem params_all_bound:
  assumes "own_params ad flt rq pa (vs, es) = Inr (vs', es)"
  shows "f_name ` set (param_fields pa) \<subseteq> keys vs'"
  using own_params_accounts [OF assms] by (auto simp: accounts_def)

theorem params_all_bound_witness:
  "f_name ` set (param_fields (query_only [query_field ''q'' TStr])) \<subseteq> keys [(S ''q'', VStr (S ''x''))]"
proof (rule params_all_bound)
  show "own_params (\<lambda>f v. VOk v) (\<lambda>s. None) (query_request [(S ''q'', [S ''x''])]) (query_only [query_field ''q'' TStr]) ([], [])
     = Inr ([(S ''q'', VStr (S ''x''))], [])"
    by (rule own_params_reference) (simp_all add: query_example_defs dict_set_def)
qed

end
