(* ===== verification/Dependencies.thy ===== *)
theory Dependencies
  imports Params "HOL-Library.List_Lexorder"
begin

text \<open>
  Dependency injection: \<open>astraapi/dependencies/models.py\<close> (the tree of dependants, its scopes and
  cache keys, what kind of callable a dependency is) and the rest of
  \<open>astraapi/dependencies/utils.py\<close> (building the tree, flattening it, solving it for a request).
  The result of \<open>analyze_param\<close> on a signature is the parameter \<open>de_sig\<close>, what a dependency
  computes the parameter \<open>se_run\<close>.
\<close>

subsection \<open>Callables\<close>

text \<open>
  Functions (with their \<open>__wrapped__\<close>), partial applications, classes, and instances with a
  \<open>__call__\<close> method, which may be security schemes.
\<close>

datatype fkind = KPlain | KGen | KAsyncGen | KCoro

datatype pycallable =
    PFunc fkind "pycallable option"
  | PPartial pycallable
  | PClass
  | PInst "pycallable option" bool

fun impartial :: "pycallable \<Rightarrow> pycallable" where
  "impartial (PPartial f) = impartial f"
| "impartial f = f"

text \<open>\<open>inspect.unwrap\<close>.\<close>

fun unwrap :: "pycallable \<Rightarrow> pycallable" where
  "unwrap (PFunc k (Some f)) = unwrap f"
| "unwrap f = f"

definition unwrapped_call :: "pycallable \<Rightarrow> pycallable" where
  "unwrapped_call f = unwrap (impartial f)"

text \<open>
  \<open>inspect.isgeneratorfunction\<close> and its relatives see through partial applications; the
  \<open>__call__\<close> of a function is a method wrapper and of no special kind.
\<close>

definition has_kind :: "fkind \<Rightarrow> pycallable \<Rightarrow> bool" where
  "has_kind k f = (case impartial f of PFunc k' w \<Rightarrow> k' = k | _ \<Rightarrow> False)"

definition is_routine :: "pycallable \<Rightarrow> bool" where
  "is_routine f = (case f of PFunc k w \<Rightarrow> True | _ \<Rightarrow> False)"

fun dunder_call :: "pycallable \<Rightarrow> pycallable option" where
  "dunder_call (PInst m s) = m"
| "dunder_call f = Some (PFunc KPlain None)"

definition dunder_has_kind :: "fkind \<Rightarrow> pycallable option \<Rightarrow> bool" where
  "dunder_has_kind k d = (case d of None \<Rightarrow> False | Some m \<Rightarrow> has_kind k (impartial m) \<or> has_kind k (unwrapped_call m))"

text \<open>The part the three tests share, after the test of the callable itself.\<close>

definition call_kind :: "fkind \<Rightarrow> pycallable \<Rightarrow> bool" where
  "call_kind k c =
     (if unwrapped_call c = PClass then False
      else case dunder_call (impartial c) of
             None \<Rightarrow> False
           | Some m \<Rightarrow>
               if dunder_has_kind k (Some m) then True else dunder_has_kind k (dunder_call (unwrapped_call c)))"

definition is_gen_callable :: "pycallable \<Rightarrow> bool" where
  "is_gen_callable c =
     (if has_kind KGen (impartial c) \<or> has_kind KGen (unwrapped_call c) then True else call_kind KGen c)"

definition is_async_gen_callable :: "pycallable \<Rightarrow> bool" where
  "is_async_gen_callable c =
     (if has_kind KAsyncGen (impartial c) \<or> has_kind KAsyncGen (unwrapped_call c) then True else call_kind KAsyncGen c)"

definition is_coroutine_callable :: "pycallable \<Rightarrow> bool" where
  "is_coroutine_callable c =
     (if is_routine (impartial c) \<and> has_kind KCoro (impartial c) then True
      else if is_routine (unwrapped_call c) \<and> has_kind KCoro (unwrapped_call c) then True
      else call_kind KCoro c)"

definition is_security_scheme :: "pycallable \<Rightarrow> bool" where
  "is_security_scheme c = (case unwrapped_call c of PInst m s \<Rightarrow> s | _ \<Rightarrow> False)"

subsection \<open>Dependants\<close>

datatype special = SpRequest | SpWebSocket | SpConnection | SpResponse | SpTasks | SpScopes

record specials =
  sn_request :: "str option"
  sn_websocket :: "str option"
  sn_connection :: "str option"
  sn_response :: "str option"
  sn_tasks :: "str option"
  sn_scopes :: "str option"

datatype dependant =
  Dependant (dp_params: params) (dp_deps: "dependant list") (dp_name: "str option") (dp_call: nat)
    (dp_special: specials) (dp_own: "str list option") (dp_parent: "str list option") (dp_use_cache: bool)
    (dp_path: str) (dp_scope: "str option")

definition add_scope :: "str \<Rightarrow> str list \<Rightarrow> str list" where
  "add_scope s scopes = (if s \<in> set scopes then scopes else scopes @ [s])"

definition oauth_scopes :: "dependant \<Rightarrow> str list" where
  "oauth_scopes d = fold add_scope (get_or (dp_own d) []) (get_or (dp_parent d) [])"

fun uses_scopes :: "(nat \<Rightarrow> pycallable) \<Rightarrow> dependant \<Rightarrow> bool" where
  "uses_scopes cl (Dependant pa deps nm c sp own par uc pth sc) =
     (if get_or own [] \<noteq> [] then True
      else if sn_scopes sp \<noteq> None then True
      else if is_security_scheme (cl c) then True
      else list_ex (uses_scopes cl) deps)"

definition computed_scope :: "(nat \<Rightarrow> pycallable) \<Rightarrow> dependant \<Rightarrow> str option" where
  "computed_scope cl d =
     (if get_or (dp_scope d) [] \<noteq> [] then dp_scope d
      else if is_gen_callable (cl (dp_call d)) \<or> is_async_gen_callable (cl (dp_call d)) then Some (S ''request'')
      else None)"

type_synonym cache_key = "nat \<times> str list \<times> str"

definition cache_key_of :: "(nat \<Rightarrow> pycallable) \<Rightarrow> dependant \<Rightarrow> cache_key" where
  "cache_key_of cl d =
     (dp_call d, if uses_scopes cl d then sort (remdups (oauth_scopes d)) else [], get_or (computed_scope cl d) [])"

definition security_dependencies :: "(nat \<Rightarrow> pycallable) \<Rightarrow> dependant \<Rightarrow> dependant list" where
  "security_dependencies cl d = filter (\<lambda>s. is_security_scheme (cl (dp_call s))) (dp_deps d)"

subsection \<open>Building the tree\<close>

text \<open>\<open>Depends\<close>, or \<open>Security\<close> with its scopes.\<close>

record depends =
  dd_call :: nat
  dd_use_cache :: bool
  dd_scope :: "str option"
  dd_scopes :: "str list"

datatype pdetail = PDepends depends | PSpecial special | PField field

record denv =
  de_sig :: "str \<Rightarrow> nat \<Rightarrow> (str \<times> pdetail) list"
  de_callable :: "nat \<Rightarrow> pycallable"

definition no_specials :: specials where
  "no_specials = \<lparr>sn_request = None, sn_websocket = None, sn_connection = None, sn_response = None,
     sn_tasks = None, sn_scopes = None\<rparr>"

definition no_params :: params where
  "no_params = \<lparr>pa_path = [], pa_query = [], pa_header = [], pa_cookie = [], pa_body = []\<rparr>"

definition set_special :: "special \<Rightarrow> str \<Rightarrow> specials \<Rightarrow> specials" where
  "set_special s n sp =
     (case s of
        SpRequest \<Rightarrow> sp\<lparr>sn_request := Some n\<rparr>
      | SpWebSocket \<Rightarrow> sp\<lparr>sn_websocket := Some n\<rparr>
      | SpConnection \<Rightarrow> sp\<lparr>sn_connection := Some n\<rparr>
      | SpResponse \<Rightarrow> sp\<lparr>sn_response := Some n\<rparr>
      | SpTasks \<Rightarrow> sp\<lparr>sn_tasks := Some n\<rparr>
      | SpScopes \<Rightarrow> sp\<lparr>sn_scopes := Some n\<rparr>)"

definition add_param_to_fields :: "field \<Rightarrow> params \<Rightarrow> params res" where
  "add_param_to_fields f pa =
     (case f_kind f of
        FParam w \<Rightarrow>
          if w = S ''path'' then Inr (pa\<lparr>pa_path := pa_path pa @ [f]\<rparr>)
          else if w = S ''query'' then Inr (pa\<lparr>pa_query := pa_query pa @ [f]\<rparr>)
          else if w = S ''header'' then Inr (pa\<lparr>pa_header := pa_header pa @ [f]\<rparr>)
          else if w = S ''cookie'' then Inr (pa\<lparr>pa_cookie := pa_cookie pa @ [f]\<rparr>)
          else Inl (AssertionError (S ''non-body parameters must be in path, query, header or cookie''))
      | _ \<Rightarrow> Inr (pa\<lparr>pa_body := pa_body pa @ [f]\<rparr>))"

text \<open>
  One parameter of the signature. \<open>rec\<close> builds the dependant of a sub-dependency. A generator
  that lives as long as the request cannot depend on one that ends with the function.
\<close>

definition add_param :: "denv \<Rightarrow> (depends \<Rightarrow> str \<Rightarrow> dependant res) \<Rightarrow> str \<times> pdetail \<Rightarrow> dependant \<Rightarrow> dependant res" where
  "add_param env rec x d =
     (case d of Dependant pa deps nm c sp own par uc pth sc \<Rightarrow>
      (case x of
         (n, PDepends dep) \<Rightarrow>
           if (is_gen_callable (de_callable env c) \<or> is_async_gen_callable (de_callable env c))
              \<and> computed_scope (de_callable env) d = Some (S ''request'') \<and> dd_scope dep = Some (S ''function'')
           then Inl (AstraAPIError (S ''DependencyScopeError''))
           else rbind (rec dep n) (\<lambda>sub. Inr (Dependant pa (deps @ [sub]) nm c sp own par uc pth sc))
       | (n, PSpecial s) \<Rightarrow> Inr (Dependant pa deps nm c (set_special s n sp) own par uc pth sc)
       | (n, PField f) \<Rightarrow>
           rbind (add_param_to_fields f pa) (\<lambda>pa'. Inr (Dependant pa' deps nm c sp own par uc pth sc))))"

fun rfold :: "('a \<Rightarrow> 'b \<Rightarrow> 'e + 'b) \<Rightarrow> 'a list \<Rightarrow> 'b \<Rightarrow> 'e + 'b" where
  "rfold f [] b = Inr b"
| "rfold f (x # xs) b = rbind (f x b) (rfold f xs)"

text \<open>\<open>get_dependant\<close> with the depth of the interpreter's stack as fuel.\<close>

fun get_dependant ::
  "denv \<Rightarrow> nat \<Rightarrow> str \<Rightarrow> nat \<Rightarrow> str option \<Rightarrow> str list option \<Rightarrow> str list option \<Rightarrow> bool \<Rightarrow> str option \<Rightarrow> dependant res" where
  "get_dependant env 0 path call name own par use_cache scope = Inl (RuntimeError (S ''maximum recursion depth exceeded''))"
| "get_dependant env (Suc n) path call name own par use_cache scope =
     (let current = get_or par [] @ get_or own []
      in rfold (add_param env (\<lambda>dep nm. get_dependant env n path (dd_call dep) (Some nm) (Some (dd_scopes dep))
                  (Some current) (dd_use_cache dep) (dd_scope dep)))
           (de_sig env path call)
           (Dependant no_params [] name call no_specials own par use_cache path scope))"

definition get_parameterless_sub_dependant :: "denv \<Rightarrow> nat \<Rightarrow> depends \<Rightarrow> str \<Rightarrow> dependant res" where
  "get_parameterless_sub_dependant env n dep path =
     get_dependant env n path (dd_call dep) None (Some (dd_scopes dep)) None True (dd_scope dep)"

subsection \<open>Flattening\<close>

definition append_params :: "params \<Rightarrow> params \<Rightarrow> params" where
  "append_params a b =
     \<lparr>pa_path = pa_path a @ pa_path b, pa_query = pa_query a @ pa_query b, pa_header = pa_header a @ pa_header b,
      pa_cookie = pa_cookie a @ pa_cookie b, pa_body = pa_body a @ pa_body b\<rparr>"

fun with_parent :: "str list option \<Rightarrow> dependant \<Rightarrow> dependant" where
  "with_parent p (Dependant pa deps nm c sp own par uc pth sc) = Dependant pa deps nm c sp own p uc pth sc"

text \<open>Adds a flattened sub-dependant: its parameters, itself, and its own dependencies.\<close>

fun add_flat :: "dependant \<Rightarrow> dependant \<Rightarrow> dependant" where
  "add_flat s (Dependant pa deps nm c sp own par uc pth sc) =
     Dependant (append_params pa (dp_params s)) (deps @ s # dp_deps s) nm c sp own par uc pth sc"

text \<open>\<open>visited\<close> is shared by the whole walk, so it is threaded through.\<close>

fun get_flat_dependant :: "(nat \<Rightarrow> pycallable) \<Rightarrow> bool \<Rightarrow> dependant \<Rightarrow> cache_key set \<Rightarrow> str list \<Rightarrow> dependant \<times> cache_key set"
  and flat_loop :: "(nat \<Rightarrow> pycallable) \<Rightarrow> bool \<Rightarrow> dependant list \<Rightarrow> dependant \<Rightarrow> cache_key set \<Rightarrow> dependant \<times> cache_key set" where
  "get_flat_dependant cl skip (Dependant pa deps nm c sp own par uc pth sc) visited parent =
     flat_loop cl skip deps (Dependant pa [] nm c sp own (Some (get_or own [] @ parent)) uc pth sc)
       (insert (cache_key_of cl (Dependant pa deps nm c sp own par uc pth sc)) visited)"
| "flat_loop cl skip [] flat visited = (flat, visited)"
| "flat_loop cl skip (s # ss) flat visited =
     (if skip \<and> cache_key_of cl s \<in> visited then flat_loop cl skip ss flat visited
      else (case get_flat_dependant cl skip s visited (oauth_scopes flat) of
              (fs, visited') \<Rightarrow> flat_loop cl skip ss (add_flat fs flat) visited'))"

definition flat_fields_from_params :: "field list \<Rightarrow> field list" where
  "flat_fields_from_params fs =
     (case fs of [f] \<Rightarrow> (case f_model f of Some ms \<Rightarrow> ms | None \<Rightarrow> fs) | _ \<Rightarrow> fs)"

definition get_flat_params :: "(nat \<Rightarrow> pycallable) \<Rightarrow> dependant \<Rightarrow> field list" where
  "get_flat_params cl d =
     (let pa = dp_params (fst (get_flat_dependant cl True d {} []))
      in flat_fields_from_params (pa_path pa) @ flat_fields_from_params (pa_query pa)
         @ flat_fields_from_params (pa_header pa) @ flat_fields_from_params (pa_cookie pa))"

subsection \<open>Solving\<close>

text \<open>
  What solving uses of the request and the application. \<open>se_overrides\<close> are the dependency
  overrides (none without a provider), \<open>se_stacks\<close> says that the scope has its exit stacks,
  \<open>se_limit\<close> is the interpreter's stack for building overridden dependants.
\<close>

record senv =
  se_env :: denv
  se_ad :: adapter
  se_flt :: "str \<Rightarrow> nat option"
  se_rd :: "nat \<Rightarrow> bytes"
  se_rq :: dreq
  se_body :: body
  se_embed :: bool
  se_overrides :: "(nat, nat) dict"
  se_stacks :: bool
  se_limit :: nat
  se_run :: "nat \<Rightarrow> (str, pyv) dict \<Rightarrow> pyv res"

text \<open>
  A call that was made: the cache key and \<open>use_cache\<close> of the sub-dependant, the dependant
  whose callable was called, and the arguments.
\<close>

type_synonym dep_call = "cache_key \<times> bool \<times> dependant \<times> (str, pyv) dict"

record sstate =
  st_cache :: "(cache_key, pyv) dict"
  st_tasks :: bool
  st_request_stack :: "nat list"
  st_function_stack :: "nat list"
  st_calls :: "dep_call list"

type_synonym 'a solving = "'a res \<times> sstate"

definition needs_nothing :: "dependant \<Rightarrow> bool" where
  "needs_nothing d \<longleftrightarrow>
     dp_deps d = [] \<and> param_fields (dp_params d) = [] \<and> pa_body (dp_params d) = []
     \<and> get_or (sn_request (dp_special d)) [] = [] \<and> get_or (sn_websocket (dp_special d)) [] = []
     \<and> get_or (sn_connection (dp_special d)) [] = [] \<and> get_or (sn_response (dp_special d)) [] = []
     \<and> get_or (sn_tasks (dp_special d)) [] = [] \<and> get_or (sn_scopes (dp_special d)) [] = []"

definition use_dependant :: "senv \<Rightarrow> dependant \<Rightarrow> dependant res" where
  "use_dependant env sub =
     (if se_overrides env = [] then Inr sub
      else get_dependant (se_env env) (se_limit env) (dp_path sub) (get_or (map_of (se_overrides env) (dp_call sub)) (dp_call sub))
             (dp_name sub) None (Some (oauth_scopes sub)) True (dp_scope sub))"

text \<open>The value of a dependency whose arguments are known: from the cache, or by calling it.\<close>

definition dep_value :: "senv \<Rightarrow> dependant \<Rightarrow> dependant \<Rightarrow> (str, pyv) dict \<Rightarrow> sstate \<Rightarrow> pyv solving" where
  "dep_value env sub use vals st =
     (let cl = de_callable (se_env env); key = cache_key_of cl sub; c = dp_call use
      in case (if dp_use_cache sub then map_of (st_cache st) key else None) of
           Some v \<Rightarrow> (Inr v, st)
         | None \<Rightarrow>
             (case se_run env c vals of
                Inl e \<Rightarrow> (Inl e, st)
              | Inr v \<Rightarrow>
                  (Inr v,
                   (if is_gen_callable (cl c) \<or> is_async_gen_callable (cl c)
                    then (if dp_scope sub = Some (S ''function'')
                          then st\<lparr>st_function_stack := st_function_stack st @ [c]\<rparr>
                          else st\<lparr>st_request_stack := st_request_stack st @ [c]\<rparr>)
                    else st)\<lparr>st_calls := st_calls st @ [(key, dp_use_cache sub, use, vals)]\<rparr>)))"

definition store_value :: "senv \<Rightarrow> dependant \<Rightarrow> pyv \<Rightarrow> sstate \<Rightarrow> sstate" where
  "store_value env sub v st =
     (let key = cache_key_of (de_callable (se_env env)) sub
      in if dp_use_cache sub \<and> \<not> dict_has (st_cache st) key then st\<lparr>st_cache := dict_set key v (st_cache st)\<rparr> else st)"

fun solve_subs ::
  "senv \<Rightarrow> (dependant \<Rightarrow> sstate \<Rightarrow> ((str, pyv) dict \<times> err list) solving) \<Rightarrow> dependant list
     \<Rightarrow> (str, pyv) dict \<times> err list \<Rightarrow> sstate \<Rightarrow> ((str, pyv) dict \<times> err list) solving" where
  "solve_subs env rec [] acc st = (Inr acc, st)"
| "solve_subs env rec (sub # subs) acc st =
     (case use_dependant env sub of
        Inl e \<Rightarrow> (Inl e, st)
      | Inr use \<Rightarrow>
          (case rec use st of
             (Inl e, st1) \<Rightarrow> (Inl e, st1)
           | (Inr (vals, errs), st1) \<Rightarrow>
               if errs \<noteq> [] then solve_subs env rec subs (fst acc, snd acc @ errs) st1
               else (case dep_value env sub use vals st1 of
                       (Inl e, st2) \<Rightarrow> (Inl e, st2)
                     | (Inr v, st2) \<Rightarrow>
                         solve_subs env rec subs
                           (case dp_name sub of None \<Rightarrow> fst acc | Some n \<Rightarrow> dict_set n v (fst acc), snd acc)
                           (store_value env sub v st2))))"

definition bind_name :: "str option \<Rightarrow> pyv \<Rightarrow> (str, pyv) dict \<Rightarrow> (str, pyv) dict" where
  "bind_name n v d = (case n of None \<Rightarrow> d | Some x \<Rightarrow> if x = [] then d else dict_set x v d)"

definition bind_specials :: "senv \<Rightarrow> dependant \<Rightarrow> (str, pyv) dict \<Rightarrow> (str, pyv) dict" where
  "bind_specials env d vs =
     (let sp = dp_special d;
          v1 = bind_name (sn_connection sp) VRequest vs;
          v2 = (if \<not> dr_websocket (se_rq env) \<and> get_or (sn_request sp) [] \<noteq> [] then bind_name (sn_request sp) VRequest v1
                else if dr_websocket (se_rq env) then bind_name (sn_websocket sp) VRequest v1 else v1);
          v3 = bind_name (sn_tasks sp) VTasks v2;
          v4 = bind_name (sn_response sp) VResponse v3
      in bind_name (sn_scopes sp) (VScopes (oauth_scopes d)) v4)"

definition body_args :: "senv \<Rightarrow> dependant \<Rightarrow> (str, pyv) dict \<times> err list \<Rightarrow> ((str, pyv) dict \<times> err list) res" where
  "body_args env d acc =
     (if pa_body (dp_params d) = [] then Inr acc
      else rbind (request_body_to_args (se_ad env) (se_rd env) (pa_body (dp_params d)) (se_body env) (se_embed env))
             (\<lambda>(bv, be). Inr (dict_update bv (fst acc), snd acc @ be)))"

definition solve_own :: "senv \<Rightarrow> dependant \<Rightarrow> (str, pyv) dict \<times> err list \<Rightarrow> sstate \<Rightarrow> ((str, pyv) dict \<times> err list) solving" where
  "solve_own env d acc st =
     (case rbind (own_params (se_ad env) (se_flt env) (se_rq env) (dp_params d) acc) (body_args env d) of
        Inl e \<Rightarrow> (Inl e, st)
      | Inr acc' \<Rightarrow>
          (Inr (bind_specials env d (fst acc'), snd acc'),
           if get_or (sn_tasks (dp_special d)) [] \<noteq> [] then st\<lparr>st_tasks := True\<rparr> else st))"

text \<open>The first argument counts how deep the resolution may still go: \<open>101 - _depth\<close>.\<close>

fun solve_dependencies :: "nat \<Rightarrow> senv \<Rightarrow> dependant \<Rightarrow> sstate \<Rightarrow> ((str, pyv) dict \<times> err list) solving" where
  "solve_dependencies 0 env d st = (Inl (RuntimeError (S ''Maximum dependency resolution depth exceeded'')), st)"
| "solve_dependencies (Suc n) env d st =
     (if needs_nothing d then (Inr ([], []), st)
      else if \<not> se_stacks env then (Inl (AssertionError (S ''astraapi_inner_astack not found in request scope'')), st)
      else (case solve_subs env (solve_dependencies n env) (dp_deps d) ([], []) st of
              (Inl e, st') \<Rightarrow> (Inl e, st')
            | (Inr acc, st') \<Rightarrow> solve_own env d acc st'))"

definition max_depth :: nat where
  "max_depth = 101"

definition fresh_sstate :: sstate where
  "fresh_sstate = \<lparr>st_cache = [], st_tasks = False, st_request_stack = [], st_function_stack = [], st_calls = []\<rparr>"

subsection \<open>Properties: what is called, and with what\<close>

lemma unwrapped_partial [simp]: "unwrapped_call (PPartial c) = unwrapped_call c"
  by (simp add: unwrapped_call_def)

lemma call_kind_partial [simp]: "call_kind k (PPartial c) = call_kind k c"
  by (cases "dunder_call (impartial c)") (simp_all add: call_kind_def)

text \<open>A partial application is of the kind of the function it applies.\<close>

lemma kind_of_partial: "is_gen_callable (PPartial c) = is_gen_callable c"
  "is_async_gen_callable (PPartial c) = is_async_gen_callable c"
  "is_coroutine_callable (PPartial c) = is_coroutine_callable c"
  by (simp_all add: is_gen_callable_def is_async_gen_callable_def is_coroutine_callable_def)

text \<open>The contract of one step of solving, shared by the properties below.\<close>

locale solve_invariant =
  fixes env :: senv and I :: "sstate \<Rightarrow> bool"
    and G :: "dependant \<Rightarrow> (str, pyv) dict \<Rightarrow> bool"
  assumes keep_tasks: "I st \<Longrightarrow> I (st\<lparr>st_tasks := b\<rparr>)"
    and call_keeps: "I st \<Longrightarrow> G use vals \<Longrightarrow> dep_value env sub use vals st = (Inr v, st') \<Longrightarrow> I (store_value env sub v st')"
    and own_good: "own_params (se_ad env) (se_flt env) (se_rq env) (dp_params d) acc = Inr acc1 \<Longrightarrow>
      body_args env d acc1 = Inr (vs, []) \<Longrightarrow>
      (\<And>s n. s \<in> set (dp_deps d) \<Longrightarrow> dp_name s = Some n \<Longrightarrow> n \<in> keys (fst acc)) \<Longrightarrow> G d (bind_specials env d vs)"
    and nothing_good: "needs_nothing d \<Longrightarrow> G d []"
begin

lemma dep_value_error: "dep_value env sub use vals st = (Inl e, st') \<Longrightarrow> st' = st"
  by (auto simp: dep_value_def Let_def split: option.splits sum.splits if_splits)

lemma solve_subs_step:
  assumes rec: "\<And>d st r st'. I st \<Longrightarrow> rec d st = (r, st') \<Longrightarrow> I st' \<and> (\<forall>vs. r = Inr (vs, []) \<longrightarrow> G d vs)"
  shows "I st \<Longrightarrow> solve_subs env rec subs acc st = (r, st') \<Longrightarrow>
    I st' \<and> (\<forall>vs es. r = Inr (vs, es) \<longrightarrow> keys (fst acc) \<subseteq> keys vs \<and> (\<exists>new. es = snd acc @ new \<and>
      (new = [] \<longrightarrow> (\<forall>s\<in>set subs. \<forall>n. dp_name s = Some n \<longrightarrow> n \<in> keys vs))))"
proof (induction subs arbitrary: acc st)
  case (Cons sub subs)
  show ?case
  proof (cases "use_dependant env sub")
    case (Inl e)
    then show ?thesis using Cons.prems by auto
  next
    case use: (Inr use)
    obtain r1 st1 where r1: "rec use st = (r1, st1)" by fastforce
    note I1 = rec [OF Cons.prems(1) r1]
    show ?thesis
    proof (cases r1)
      case (Inl e)
      then show ?thesis using Cons.prems use r1 I1 by auto
    next
      case (Inr p)
      obtain vals errs where p: "p = (vals, errs)" by fastforce
      show ?thesis
      proof (cases "errs = []")
        case False
        then have "solve_subs env rec subs (fst acc, snd acc @ errs) st1 = (r, st')"
          using Cons.prems(2) use r1 Inr p by simp
        from Cons.IH [OF conjunct1 [OF I1] this] False show ?thesis by auto
      next
        case True
        obtain r2 st2 where r2: "dep_value env sub use vals st1 = (r2, st2)" by fastforce
        show ?thesis
        proof (cases r2)
          case (Inl e)
          then show ?thesis using Cons.prems use r1 Inr p True r2 I1 dep_value_error [of sub use vals st1 e st2] by auto
        next
          case v: (Inr v)
          let ?acc = "(case dp_name sub of None \<Rightarrow> fst acc | Some n \<Rightarrow> dict_set n v (fst acc), snd acc)"
          have "I (store_value env sub v st2)"
            using call_keeps [OF conjunct1 [OF I1], of use vals sub v st2] I1 Inr p True r2 v by simp
          moreover have "solve_subs env rec subs ?acc (store_value env sub v st2) = (r, st')"
            using Cons.prems(2) use r1 Inr p True r2 v by simp
          moreover have grow: "keys (fst acc) \<subseteq> keys (fst ?acc)" and named: "\<And>n. dp_name sub = Some n \<Longrightarrow> n \<in> keys (fst ?acc)"
            by (auto simp: keys_set split: option.splits)
          moreover note IH = Cons.IH [of "store_value env sub v st2" ?acc]
          ultimately have st': "I st'" and IH: "\<And>vs es. r = Inr (vs, es) \<Longrightarrow> keys (fst ?acc) \<subseteq> keys vs \<and>
            (\<exists>new. es = snd acc @ new \<and> (new = [] \<longrightarrow> (\<forall>s\<in>set subs. \<forall>n. dp_name s = Some n \<longrightarrow> n \<in> keys vs)))"
            by simp_all
          show ?thesis
          proof (intro conjI allI impI)
            fix vs es
            assume "r = Inr (vs, es)"
            from IH [OF this] obtain new where new: "keys (fst ?acc) \<subseteq> keys vs" "es = snd acc @ new"
              "new = [] \<Longrightarrow> \<forall>s\<in>set subs. \<forall>n. dp_name s = Some n \<longrightarrow> n \<in> keys vs" by blast
            show "keys (fst acc) \<subseteq> keys vs" using new(1) grow by (rule order_trans [rotated])
            show "\<exists>new. es = snd acc @ new \<and> (new = [] \<longrightarrow> (\<forall>s\<in>set (sub # subs). \<forall>n. dp_name s = Some n \<longrightarrow> n \<in> keys vs))"
            proof (intro exI [of _ new] conjI impI ballI allI)
              fix s n
              assume "new = []" "s \<in> set (sub # subs)" "dp_name s = Some n"
              then show "n \<in> keys vs" using new(1,3) named by (cases "s = sub") auto
            qed (rule new(2))
          qed (rule st')
        qed
      qed
    qed
  qed
qed auto

lemma solve_step:
  "I st \<Longrightarrow> solve_dependencies n env d st = (r, st') \<Longrightarrow> I st' \<and> (\<forall>vs. r = Inr (vs, []) \<longrightarrow> G d vs)"
proof (induction n arbitrary: d st r st')
  case (Suc n)
  show ?case
  proof (cases "needs_nothing d \<or> \<not> se_stacks env")
    case True
    then show ?thesis using Suc.prems nothing_good by (auto split: if_splits)
  next
    case False
    obtain r1 st1 where r1: "solve_subs env (solve_dependencies n env) (dp_deps d) ([], []) st = (r1, st1)" by fastforce
    from solve_subs_step [OF Suc.IH Suc.prems(1) r1]
    have I1: "I st1" and sub: "\<And>vs es. r1 = Inr (vs, es) \<Longrightarrow> es = [] \<Longrightarrow> s \<in> set (dp_deps d) \<Longrightarrow> dp_name s = Some x \<Longrightarrow> x \<in> keys vs" for s x
      by auto
    show ?thesis
    proof (cases r1)
      case (Inl e)
      then show ?thesis using Suc.prems False r1 I1 by auto
    next
      case (Inr acc)
      then have own: "solve_own env d acc st1 = (r, st')" using Suc.prems(2) False r1 by simp
      then have "I st'" using I1 keep_tasks by (auto simp: solve_own_def split: sum.splits if_splits)
      moreover have "G d vs" if "r = Inr (vs, [])" for vs
      proof -
        obtain m where m: "rbind (own_params (se_ad env) (se_flt env) (se_rq env) (dp_params d) acc) (body_args env d) = m" by blast
        have "\<exists>us. m = Inr (us, []) \<and> vs = bind_specials env d us"
          using own that m by (cases m) (auto simp: solve_own_def)
        with m obtain us where us: "rbind (own_params (se_ad env) (se_flt env) (se_rq env) (dp_params d) acc) (body_args env d) = Inr (us, [])"
          "vs = bind_specials env d us" by blast
        then obtain acc1 where o: "own_params (se_ad env) (se_flt env) (se_rq env) (dp_params d) acc = Inr acc1"
          "body_args env d acc1 = Inr (us, [])" "vs = bind_specials env d us"
          by (cases "own_params (se_ad env) (se_flt env) (se_rq env) (dp_params d) acc") auto
        obtain n1 where n1: "snd acc1 = snd acc @ n1" using own_params_accounts [OF o(1)] by (auto simp: accounts_def)
        have "snd acc1 = []" using o(2) by (auto simp: body_args_def rbind_eq_Inr_iff split: if_splits)
        then have "snd acc = []" using n1 by simp
        then have "acc = (fst acc, [])" by (cases acc) simp
        then have "x \<in> keys (fst acc)" if "s \<in> set (dp_deps d)" "dp_name s = Some x" for s x
          using sub [of "fst acc" "[]" s x] Inr that by simp
        from own_good [OF o(1,2) this] o(3) show ?thesis by simp
      qed
      ultimately show ?thesis by simp
    qed
  qed
qed auto

end

text \<open>The names a dependant's callable takes its arguments by.\<close>

definition given_name :: "str option \<Rightarrow> str set" where
  "given_name n = (if get_or n [] = [] then {} else {get_or n []})"

definition special_names :: "senv \<Rightarrow> specials \<Rightarrow> str set" where
  "special_names env sp =
     given_name (sn_connection sp) \<union> given_name (if dr_websocket (se_rq env) then sn_websocket sp else sn_request sp)
       \<union> given_name (sn_tasks sp) \<union> given_name (sn_response sp) \<union> given_name (sn_scopes sp)"

definition arg_names :: "senv \<Rightarrow> dependant \<Rightarrow> str set" where
  "arg_names env d =
     f_name ` set (param_fields (dp_params d) @ pa_body (dp_params d))
       \<union> {n. \<exists>s\<in>set (dp_deps d). dp_name s = Some n} \<union> special_names env (dp_special d)"

definition calls_complete :: "senv \<Rightarrow> sstate \<Rightarrow> bool" where
  "calls_complete env st \<longleftrightarrow> (\<forall>(key, uc, d, args)\<in>set (st_calls st). arg_names env d \<subseteq> keys args)"

definition calls_cached :: "sstate \<Rightarrow> bool" where
  "calls_cached st \<longleftrightarrow>
     (let ks = map fst (filter (\<lambda>c. fst (snd c)) (st_calls st)) in distinct ks \<and> set ks = keys (st_cache st))"

lemma keys_bind_name: "keys (bind_name n v d) = given_name n \<union> keys d"
  by (auto simp: bind_name_def given_name_def keys_set split: option.splits)

lemma keys_bind_specials: "keys (bind_specials env d vs) = special_names env (dp_special d) \<union> keys vs"
  by (auto simp: bind_specials_def special_names_def keys_bind_name Let_def given_name_def)

lemma body_args_accounts: "body_args env d acc = Inr acc' \<Longrightarrow> accounts (pa_body (dp_params d)) acc acc'"
  using request_body_accounts
  by (auto simp: body_args_def rbind_eq_Inr_iff accounts_Nil intro!: accounts_merge split: if_splits)

lemma store_value_calls [simp]: "st_calls (store_value env sub v st) = st_calls st"
  by (simp add: store_value_def Let_def)

lemma dep_value_calls:
  assumes "dep_value env sub use vals st = (Inr v, st')"
  shows "(dp_use_cache sub \<and> map_of (st_cache st) (cache_key_of (de_callable (se_env env)) sub) = Some v \<and> st' = st)
    \<or> ((dp_use_cache sub \<longrightarrow> map_of (st_cache st) (cache_key_of (de_callable (se_env env)) sub) = None)
       \<and> st_cache st' = st_cache st \<and>
       st_calls st' = st_calls st @ [(cache_key_of (de_callable (se_env env)) sub, dp_use_cache sub, use, vals)])"
  using assms by (auto simp: dep_value_def Let_def split: option.splits sum.splits if_splits)

interpretation cached: solve_invariant env calls_cached "\<lambda>_ _. True" for env
proof unfold_locales
  fix st use vals sub v st'
  assume I: "calls_cached st" and dv: "dep_value env sub use vals st = (Inr v, st')"
  let ?key = "cache_key_of (de_callable (se_env env)) sub"
  from dep_value_calls [OF dv] show "calls_cached (store_value env sub v st')"
  proof (elim disjE conjE)
    assume "map_of (st_cache st) ?key = Some v" "st' = st"
    then show ?thesis using I by (simp add: store_value_def dict_has_iff Let_def)
  next
    assume c: "dp_use_cache sub \<longrightarrow> map_of (st_cache st) ?key = None" "st_cache st' = st_cache st"
      "st_calls st' = st_calls st @ [(?key, dp_use_cache sub, use, vals)]"
    show ?thesis
    proof (cases "dp_use_cache sub")
      case True
      then have "?key \<notin> keys (st_cache st)" using c(1) by (simp add: map_of_eq_None_iff)
      then show ?thesis using I c True
        by (simp add: store_value_def dict_has_iff Let_def calls_cached_def keys_set)
    next
      case False
      then show ?thesis using I c by (simp add: store_value_def calls_cached_def Let_def)
    qed
  qed
qed (simp_all add: calls_cached_def)

interpretation complete: solve_invariant env "calls_complete env" "\<lambda>d vs. arg_names env d \<subseteq> keys vs" for env
proof unfold_locales
  fix st use vals sub v st'
  assume I: "calls_complete env st" and g: "arg_names env use \<subseteq> keys vals" and dv: "dep_value env sub use vals st = (Inr v, st')"
  from dep_value_calls [OF dv] show "calls_complete env (store_value env sub v st')"
    using I g unfolding calls_complete_def by (elim disjE conjE) simp_all
next
  fix d acc acc1 vs
  assume o: "own_params (se_ad env) (se_flt env) (se_rq env) (dp_params d) acc = Inr acc1"
    and b: "body_args env d acc1 = Inr (vs, [])"
    and s: "\<And>s n. s \<in> set (dp_deps d) \<Longrightarrow> dp_name s = Some n \<Longrightarrow> n \<in> keys (fst acc)"
  from accounts_trans [OF own_params_accounts [OF o] body_args_accounts [OF b]]
  have f: "f_name ` set (param_fields (dp_params d) @ pa_body (dp_params d)) \<subseteq> keys vs" and k: "keys (fst acc) \<subseteq> keys vs"
    by (auto simp: accounts_def)
  have "{n. \<exists>s\<in>set (dp_deps d). dp_name s = Some n} \<subseteq> keys (fst acc)" using s by blast
  from order_trans [OF this k] have n: "{n. \<exists>s\<in>set (dp_deps d). dp_name s = Some n} \<subseteq> keys vs" .
  show "arg_names env d \<subseteq> keys (bind_specials env d vs)"
    unfolding arg_names_def keys_bind_specials
    by (intro Un_least order_trans [OF f Un_upper2] order_trans [OF n Un_upper2] Un_upper1)
next
  fix d
  assume "needs_nothing d"
  then show "arg_names env d \<subseteq> keys []"
    by (simp add: needs_nothing_def arg_names_def special_names_def given_name_def)
qed (simp_all add: calls_complete_def)

text \<open>
  C7: Solving calls a dependency at most once per cache key: over the whole tree, also with
  overrides and when solving fails, the calls made for dependencies that use the cache have
  distinct keys.
\<close>

theorem cached_dependency_called_once:
  "distinct (map fst (filter (\<lambda>c. fst (snd c)) (st_calls (snd (solve_dependencies n env d fresh_sstate)))))"
proof -
  have "calls_cached fresh_sstate" by (simp add: calls_cached_def fresh_sstate_def)
  from conjunct1 [OF cached.solve_step [OF this, of n env d "fst (solve_dependencies n env d fresh_sstate)" "snd (solve_dependencies n env d fresh_sstate)"]]
  show ?thesis by (simp add: calls_cached_def Let_def)
qed


text \<open>An endpoint with one dependency, for the examples.\<close>

definition plain_dependant :: "dependant list \<Rightarrow> str option \<Rightarrow> nat \<Rightarrow> dependant" where
  "plain_dependant deps nm c = Dependant no_params deps nm c no_specials None None True [] None"

definition example_senv :: senv where
  "example_senv = \<lparr>se_env = \<lparr>de_sig = (\<lambda>p c. []), de_callable = (\<lambda>c. PFunc KPlain None)\<rparr>, se_ad = (\<lambda>f v. VOk v), se_flt = (\<lambda>s. None),
     se_rd = (\<lambda>n. []), se_rq = query_request [], se_body = NoBody, se_embed = False, se_overrides = [], se_stacks = True,
     se_limit = 1, se_run = (\<lambda>c args. Inr (VObj c))\<rparr>"

definition example_endpoint :: dependant where
  "example_endpoint = plain_dependant [plain_dependant [] (Some (S ''dep'')) 1] None 0"

lemmas example_defs = example_endpoint_def plain_dependant_def no_params_def no_specials_def example_senv_def

lemma own_params_none: "own_params ad flt rq no_params acc = Inr acc"
  by (simp add: own_params_def param_fields_def no_params_def single_params_def request_params_to_args_def
      core_query_params_to_args_def core_cookie_params_to_args_def has_sequence_header_def dict_update_def)

lemma example_solved:
  "\<exists>st. solve_dependencies (Suc (Suc n)) example_senv example_endpoint fresh_sstate = (Inr ([(S ''dep'', VObj 1)], []), st)"
proof -
  define leaf where "leaf = plain_dependant [] (Some (S ''dep'')) 1"
  have leaf: "needs_nothing leaf" "dp_name leaf = Some (S ''dep'')"
    by (simp_all add: leaf_def needs_nothing_def plain_dependant_def no_params_def no_specials_def param_fields_def)
  have ep: "dp_deps example_endpoint = [leaf]" "dp_params example_endpoint = no_params" "dp_special example_endpoint = no_specials"
    by (simp_all add: example_endpoint_def leaf_def plain_dependant_def)
  have nn: "\<not> needs_nothing example_endpoint" by (simp add: needs_nothing_def ep)
  have env: "se_stacks example_senv" "use_dependant example_senv leaf = Inr leaf"
    by (simp_all add: example_senv_def use_dependant_def)
  have v: "\<exists>st. dep_value example_senv leaf leaf [] fresh_sstate = (Inr (VObj 1), st)"
    by (simp add: dep_value_def fresh_sstate_def example_senv_def leaf_def plain_dependant_def Let_def)
  have "\<exists>st. solve_subs example_senv (solve_dependencies (Suc n) example_senv) [leaf] ([], []) fresh_sstate = (Inr ([(S ''dep'', VObj 1)], []), st)"
    using v leaf env by (auto simp: dict_set_def)
  moreover have "solve_own example_senv example_endpoint acc st = (Inr acc, st)" for acc st
  proof -
    have "pa_body no_params = []" by (simp add: no_params_def)
    then show ?thesis
      by (simp add: solve_own_def ep own_params_none body_args_def bind_specials_def bind_name_def no_specials_def Let_def)
  qed
  ultimately show ?thesis using nn env(1) ep(1) by (auto simp only: solve_dependencies.simps(2) if_False simp_thms sum.case prod.case)
qed


subsection \<open>Properties: the depth limit\<close>

fun depth_ok :: "nat \<Rightarrow> dependant \<Rightarrow> bool" where
  "depth_ok 0 d = False"
| "depth_ok (Suc n) d = list_all (depth_ok n) (dp_deps d)"

lemma solve_subs_cong:
  assumes "se_overrides env = []" and "\<And>s st. s \<in> set subs \<Longrightarrow> rec s st = rec' s st"
  shows "solve_subs env rec subs acc st = solve_subs env rec' subs acc st"
  using assms(2)
proof (induction subs arbitrary: acc st)
  case (Cons s subs)
  then show ?case using assms(1)
    by (auto simp: use_dependant_def split: sum.splits prod.splits)
qed simp

lemma depth_ok_fuel:
  assumes "se_overrides env = []"
  shows "depth_ok n d \<Longrightarrow> n \<le> m \<Longrightarrow> solve_dependencies m env d st = solve_dependencies n env d st"
proof (induction n arbitrary: m d st)
  case (Suc n)
  obtain k where m: "m = Suc k" "n \<le> k" using Suc.prems(2) by (cases m) auto
  have "solve_dependencies k env s st = solve_dependencies n env s st" if "s \<in> set (dp_deps d)" for s st
    using Suc.IH [of s k st] Suc.prems(1) m(2) that by (auto simp: list_all_iff)
  then have "solve_subs env (solve_dependencies k env) (dp_deps d) ([], []) st = solve_subs env (solve_dependencies n env) (dp_deps d) ([], []) st"
    by (intro solve_subs_cong [OF assms]) simp
  then show ?case by (simp add: m(1))
qed simp

text \<open>A chain of dependencies one deeper than the limit.\<close>

fun chain :: "nat \<Rightarrow> dependant" where
  "chain 0 = plain_dependant [] None 0"
| "chain (Suc n) = plain_dependant [chain n] None (Suc n)"

lemma chain_too_deep:
  "se_overrides env = [] \<Longrightarrow> se_stacks env \<Longrightarrow>
   solve_dependencies n env (chain n) st = (Inl (RuntimeError (S ''Maximum dependency resolution depth exceeded'')), st)"
  by (induction n arbitrary: st) (simp_all add: plain_dependant_def needs_nothing_def use_dependant_def)

text \<open>
  The depth limit is exact: a tree of at most 101 levels is solved as if there were no limit,
  and a chain of 102 levels is refused.
\<close>

theorem depth_limit_exact:
  assumes "se_overrides env = []" and "se_stacks env"
  shows "(depth_ok max_depth d \<longrightarrow> solve_dependencies (max_depth + k) env d st = solve_dependencies max_depth env d st)
     \<and> solve_dependencies max_depth env (chain max_depth) st
         = (Inl (RuntimeError (S ''Maximum dependency resolution depth exceeded'')), st)"
  using depth_ok_fuel [OF assms(1), of max_depth d "max_depth + k" st] chain_too_deep [OF assms] by simp

theorem depth_limit_exact_witness:
  "solve_dependencies (max_depth + 900) example_senv example_endpoint fresh_sstate = solve_dependencies max_depth example_senv example_endpoint fresh_sstate"
proof -
  have "depth_ok (Suc (Suc n)) example_endpoint" for n by (simp add: example_endpoint_def plain_dependant_def)
  from this [of 99] have "depth_ok max_depth example_endpoint" by (simp add: max_depth_def eval_nat_numeral)
  then show ?thesis
    using depth_limit_exact [of example_senv example_endpoint 900 fresh_sstate] by (simp add: example_senv_def)
qed

subsection \<open>Properties: scopes\<close>

lemma set_add_scopes: "set (fold add_scope xs acc) = set acc \<union> set xs"
  by (induction xs arbitrary: acc) (auto simp: add_scope_def)

lemma set_oauth_scopes: "set (oauth_scopes d) = set (get_or (dp_parent d) []) \<union> set (get_or (dp_own d) [])"
  by (simp add: oauth_scopes_def set_add_scopes)

lemma rfold_invariant:
  assumes "\<And>x b b'. P b \<Longrightarrow> f x b = Inr b' \<Longrightarrow> P b'"
  shows "P b \<Longrightarrow> rfold f xs b = Inr b' \<Longrightarrow> P b'"
  by (induction xs arbitrary: b) (auto simp: rbind_eq_Inr_iff intro: assms)

lemma add_param_keeps:
  assumes "add_param env rec x d = Inr d'"
  shows "dp_own d' = dp_own d \<and> dp_parent d' = dp_parent d \<and> dp_call d' = dp_call d
     \<and> (\<forall>s\<in>set (dp_deps d'). s \<in> set (dp_deps d) \<or> (\<exists>(dep :: depends) nm. rec dep nm = Inr s))"
  using assms by (cases d) (auto simp: add_param_def rbind_eq_Inr_iff split: prod.splits pdetail.splits if_splits)

text \<open>\<open>s\<close> is somewhere below \<open>d\<close>.\<close>

inductive below :: "dependant \<Rightarrow> dependant \<Rightarrow> bool" where
  below_dep: "s \<in> set (dp_deps d) \<Longrightarrow> below s d"
| below_trans: "s \<in> set (dp_deps d) \<Longrightarrow> below t s \<Longrightarrow> below t d"

inductive_cases belowE: "below t d"

lemma get_dependant_tree:
  assumes "get_dependant env (Suc n) path call name own par uc sc = Inr d"
  shows "dp_own d = own \<and> dp_parent d = par \<and> (\<forall>s\<in>set (dp_deps d).
     \<exists>(dep :: depends) nm. get_dependant env n path (dd_call dep) (Some nm) (Some (dd_scopes dep)) (Some (get_or par [] @ get_or own [])) (dd_use_cache dep) (dd_scope dep) = Inr s)"
proof -
  let ?rec = "\<lambda>(dep :: depends) nm. get_dependant env n path (dd_call dep) (Some nm) (Some (dd_scopes dep)) (Some (get_or par [] @ get_or own [])) (dd_use_cache dep) (dd_scope dep)"
  let ?P = "\<lambda>d. dp_own d = own \<and> dp_parent d = par \<and> (\<forall>s\<in>set (dp_deps d). \<exists>dep nm. ?rec dep nm = Inr s)"
  have "?P d"
  proof (rule rfold_invariant [where P = ?P])
    show "rfold (add_param env ?rec) (de_sig env path call) (Dependant no_params [] name call no_specials own par uc path sc) = Inr d"
      using assms by (simp add: Let_def)
  next
    fix x b b'
    assume "?P b" and s: "add_param env ?rec x b = Inr b'"
    with add_param_keeps [OF s] show "?P b'" by auto
  qed simp
  then show ?thesis .
qed

lemma below_scopes:
  "below s d \<Longrightarrow> get_dependant env n path call name own par uc sc = Inr d \<Longrightarrow> set (oauth_scopes d) \<subseteq> set (oauth_scopes s)"
proof (induction arbitrary: n call name own par uc sc rule: below.induct)
  case (below_dep s d)
  obtain m where n: "n = Suc m" using below_dep.prems by (cases n) auto
  note t = get_dependant_tree [OF below_dep.prems [unfolded n]]
  then obtain dep :: depends and nm where "get_dependant env m path (dd_call dep) (Some nm) (Some (dd_scopes dep)) (Some (get_or par [] @ get_or own [])) (dd_use_cache dep) (dd_scope dep) = Inr s"
    using below_dep.hyps by blast
  moreover from this obtain k where "m = Suc k" by (cases m) auto
  ultimately have "dp_parent s = Some (get_or par [] @ get_or own [])" using get_dependant_tree by blast
  then show ?case using t by (auto simp: set_oauth_scopes)
next
  case (below_trans s d u)
  obtain m where n: "n = Suc m" using below_trans.prems by (cases n) auto
  note t = get_dependant_tree [OF below_trans.prems [unfolded n]]
  then obtain dep :: depends and nm where s: "get_dependant env m path (dd_call dep) (Some nm) (Some (dd_scopes dep)) (Some (get_or par [] @ get_or own [])) (dd_use_cache dep) (dd_scope dep) = Inr s"
    using below_trans.hyps(1) by blast
  moreover from this obtain k where "m = Suc k" by (cases m) auto
  ultimately have "dp_parent s = Some (get_or par [] @ get_or own [])" using get_dependant_tree by blast
  then have "set (oauth_scopes d) \<subseteq> set (oauth_scopes s)" using t by (auto simp: set_oauth_scopes)
  with below_trans.IH [OF s] show ?case by blast
qed

text \<open>
  Security scopes accumulate: in a tree built from signatures, a dependency anywhere below
  another is given all scopes of the one above, so a nested scheme checks every scope that
  was declared on the way to it.
\<close>

theorem scopes_accumulate:
  assumes "get_dependant env n path call name own par uc sc = Inr d" and "below s d"
  shows "set (oauth_scopes d) \<subseteq> set (oauth_scopes s)"
  by (rule below_scopes [OF assms(2,1)])

definition scoped_env :: denv where
  "scoped_env = \<lparr>de_sig = (\<lambda>p c. if c = 0 then [(S ''user'', PDepends \<lparr>dd_call = 1, dd_use_cache = True, dd_scope = None, dd_scopes = [S ''me'']\<rparr>)] else []),
     de_callable = (\<lambda>c. PFunc KPlain None)\<rparr>"

theorem scopes_accumulate_witness:
  "\<exists>d s. get_dependant scoped_env 2 [] 0 None (Some [S ''items'']) None True None = Inr d \<and> below s d
     \<and> set (oauth_scopes d) \<subseteq> set (oauth_scopes s)"
proof -
  obtain d where d: "get_dependant scoped_env 2 [] 0 None (Some [S ''items'']) None True None = Inr d" "dp_deps d \<noteq> []"
    by (simp add: numeral_2_eq_2 scoped_env_def add_param_def is_gen_callable_def is_async_gen_callable_def
        has_kind_def call_kind_def dunder_has_kind_def unwrapped_call_def)
  then obtain s where s: "below s d" by (metis below_dep list.set_intros(1) neq_Nil_conv)
  from scopes_accumulate [OF d(1) s] d s show ?thesis by blast
qed

text \<open>An override is solved with the scopes of the dependency it stands for.\<close>

lemma override_keeps_scopes:
  assumes "use_dependant env sub = Inr use" and "se_limit env \<noteq> 0"
  shows "set (oauth_scopes use) = set (oauth_scopes sub)"
proof (cases "se_overrides env = []")
  case False
  obtain k where "se_limit env = Suc k" using assms(2) by (cases "se_limit env") auto
  with assms(1) False have "get_dependant (se_env env) (Suc k) (dp_path sub) (get_or (map_of (se_overrides env) (dp_call sub)) (dp_call sub))
      (dp_name sub) None (Some (oauth_scopes sub)) True (dp_scope sub) = Inr use"
    by (simp only: use_dependant_def if_False)
  from get_dependant_tree [OF this] have "dp_own use = None" "dp_parent use = Some (oauth_scopes sub)" by simp_all
  then show ?thesis by (simp add: set_oauth_scopes)
qed (use assms in \<open>simp add: use_dependant_def\<close>)

subsection \<open>Properties: flattening\<close>

fun tree_params :: "dependant \<Rightarrow> params" where
  "tree_params (Dependant pa deps nm c sp own par uc pth sc) = foldl append_params pa (map tree_params deps)"

lemma dp_params_add_flat: "dp_params (add_flat s d) = append_params (dp_params d) (dp_params s)"
  by (cases d) simp

lemma flat_params:
  "\<not> skip \<Longrightarrow> dp_params (fst (get_flat_dependant cl skip d visited parent)) = tree_params d"
  "\<not> skip \<Longrightarrow> dp_params (fst (flat_loop cl skip ss flat visited)) = foldl append_params (dp_params flat) (map tree_params ss)"
proof (induction cl skip d visited parent and cl skip ss flat visited rule: get_flat_dependant_flat_loop.induct)
  case (3 cl skip s ss flat visited)
  obtain fs vis where f: "get_flat_dependant cl skip s visited (oauth_scopes flat) = (fs, vis)" by fastforce
  with 3 show ?case by (simp add: dp_params_add_flat)
qed simp_all

text \<open>
  Flattening without skipping loses no parameter and no repetition: the flat dependant has the
  parameters of the whole tree, each kind in the order of a walk from the root.
\<close>

theorem flat_dependant_collects_tree:
  "dp_params (fst (get_flat_dependant cl False d {} [])) = tree_params d"
  by (rule flat_params) simp

end
