(* ===== verification/Exceptions.thy ===== *)
theory Exceptions
  imports Responses WebSockets
begin

text \<open>
  Exceptions and their handlers: the classes of \<open>astraapi/exceptions.py\<close>, the wrapper of
  \<open>astraapi/_exception_handler.py\<close> that turns an exception into a response, and the default
  handlers of \<open>astraapi/exception_handlers.py\<close>. The JSON serialisers of the C++ core are
  parameters, as are the classes the application defines.
\<close>

subsection \<open>Classes\<close>

text \<open>
  \<open>type(exc).__mro__\<close>. The application's exception classes are described by \<open>cx_mro\<close>; those that
  extend \<open>HTTPException\<close> have their status code in \<open>cx_status\<close>.
\<close>

datatype pyclass = Cls string | UserCls nat

record classes =
  cx_mro :: "nat \<Rightarrow> pyclass list"
  cx_status :: "nat \<Rightarrow> int"

definition exception_bases :: "pyclass list" where
  "exception_bases = [Cls ''Exception'', Cls ''BaseException'', Cls ''object'']"

fun validation_class :: "validation_kind \<Rightarrow> string" where
  "validation_class OfRequest = ''RequestValidationError''"
| "validation_class OfWebSocket = ''WebSocketRequestValidationError''"
| "validation_class OfResponse = ''ResponseValidationError''"

fun own_classes :: "exn \<Rightarrow> string list" where
  "own_classes (KeyError k) = [''KeyError'', ''LookupError'']"
| "own_classes (AttributeError m) = [''AttributeError'']"
| "own_classes IndexError = [''IndexError'', ''LookupError'']"
| "own_classes (TypeError m) = [''TypeError'']"
| "own_classes (ValueError m) = [''ValueError'']"
| "own_classes (RuntimeError m) = [''RuntimeError'']"
| "own_classes (AssertionError m) = [''AssertionError'']"
| "own_classes UnicodeEncodeError = [''UnicodeEncodeError'', ''UnicodeError'', ''ValueError'']"
| "own_classes UnicodeDecodeError = [''UnicodeDecodeError'', ''UnicodeError'', ''ValueError'']"
| "own_classes CookieError = [''CookieError'']"
| "own_classes (NoMatchFound n) = [''NoMatchFound'']"
| "own_classes (WebSocketDisconnect c r) = [''WebSocketDisconnect'']"
| "own_classes StructError = [''error'']"
| "own_classes NotImplementedError = [''NotImplementedError'', ''RuntimeError'']"
| "own_classes OSError = [''OSError'']"
| "own_classes (UnboundLocalError n) = [''UnboundLocalError'', ''NameError'']"
| "own_classes (JSONDecodeError m p) = [''JSONDecodeError'', ''ValueError'']"
| "own_classes (HTTPException s d h) = [''HTTPException'', ''_BaseHTTPException'']"
| "own_classes (WebSocketException c r) = [''WebSocketException'']"
| "own_classes (AstraAPIError m) = [''AstraAPIError'', ''RuntimeError'']"
| "own_classes (ValidationError k es ctx) = [validation_class k, ''ValidationException'']"
| "own_classes (UserException c) = []"
| "own_classes Interrupt = [''CancelledError'']"

fun mro :: "classes \<Rightarrow> exn \<Rightarrow> pyclass list" where
  "mro cx (UserException c) = UserCls c # cx_mro cx c"
| "mro cx Interrupt = [Cls ''CancelledError'', Cls ''BaseException'', Cls ''object'']"
| "mro cx e = map Cls (own_classes e) @ exception_bases"

definition is_instance :: "classes \<Rightarrow> exn \<Rightarrow> string \<Rightarrow> bool" where
  "is_instance cx e c \<longleftrightarrow> Cls c \<in> set (mro cx e)"

fun exc_status :: "classes \<Rightarrow> exn \<Rightarrow> int" where
  "exc_status cx (HTTPException s d h) = s"
| "exc_status cx (UserException c) = cx_status cx c"
| "exc_status cx e = 0"

subsection \<open>Creating and printing exceptions\<close>

text \<open>
  \<open>_BaseHTTPException\<close> fills in the phrase of the status (\<open>http.HTTPStatus\<close>, the parameter
  \<open>phrase\<close>); \<open>HTTPException\<close> stores its arguments as they are.
\<close>

definition base_http_exception_init ::
  "(int \<Rightarrow> str res) \<Rightarrow> int \<Rightarrow> detail \<Rightarrow> (str \<times> str) list option \<Rightarrow> (int \<times> detail \<times> (str \<times> str) list option) res" where
  "base_http_exception_init phrase status d hs =
     (if d = DNone then rbind (phrase status) (\<lambda>p. Inr (status, DText p, hs)) else Inr (status, d, hs))"

definition http_exception_init :: "int \<Rightarrow> detail \<Rightarrow> (str \<times> str) list option \<Rightarrow> exn" where
  "http_exception_init status d hs = HTTPException status d hs"

definition websocket_exception_init :: "int \<Rightarrow> str option \<Rightarrow> exn" where
  "websocket_exception_init code reason = WebSocketException code (get_or reason [])"

definition no_ctx :: endpoint_ctx where
  "no_ctx = EndpointContext None None None None"

definition validation_error_init :: "validation_kind \<Rightarrow> err list \<Rightarrow> endpoint_ctx option \<Rightarrow> exn" where
  "validation_error_init k es ctx = ValidationError k es (get_or ctx no_ctx)"

text \<open>34 is the double quote; a missing, empty or zero part is false.\<close>

definition truthy :: "str option \<Rightarrow> bool" where
  "truthy s \<longleftrightarrow> get_or s [] \<noteq> []"

definition format_endpoint_context :: "endpoint_ctx \<Rightarrow> str" where
  "format_endpoint_context ctx =
     (if \<not> (truthy (ec_file ctx) \<and> get_or (ec_line ctx) 0 \<noteq> 0 \<and> truthy (ec_function ctx))
      then (if truthy (ec_path ctx) then 10 # S ''  Endpoint: '' @ the (ec_path ctx) else [])
      else (10 # S ''  File '' @ [34] @ the (ec_file ctx) @ [34] @ S '', line '' @ dec (the (ec_line ctx))
              @ S '', in '' @ the (ec_function ctx))
           @ (if truthy (ec_path ctx) then 10 # S ''    '' @ the (ec_path ctx) else []))"

definition rstrip_space :: "str \<Rightarrow> str" where
  "rstrip_space s = rev (dropWhile is_space (rev s))"

text \<open>\<open>show_err\<close> is \<open>str\<close> of one error.\<close>

definition validation_str :: "(err \<Rightarrow> str) \<Rightarrow> err list \<Rightarrow> endpoint_ctx \<Rightarrow> str" where
  "validation_str show_err es ctx =
     rstrip_space
       (dec (length es) @ S '' validation error'' @ (if length es \<noteq> 1 then S ''s'' else []) @ S '':'' @ [10]
        @ concat (map (\<lambda>e. S ''  '' @ show_err e @ [10]) es)
        @ format_endpoint_context ctx)"

subsection \<open>Catching exceptions\<close>

text \<open>
  One run of an ASGI application: the messages it passed to \<open>send\<close>, and the exception it
  ended with, if any. A handler gets the exception and answers with a response, given here by
  its run, or with \<open>None\<close>.
\<close>

type_synonym app_run = "message list \<times> unit res"
type_synonym handler = "exn \<Rightarrow> app_run option res"

fun lookup_mro :: "pyclass list \<Rightarrow> (pyclass, 'h) dict \<Rightarrow> 'h option" where
  "lookup_mro [] hs = None"
| "lookup_mro (c # cs) hs = (case map_of hs c of Some h \<Rightarrow> Some h | None \<Rightarrow> lookup_mro cs hs)"

definition lookup_exception_handler :: "classes \<Rightarrow> (pyclass, 'h) dict \<Rightarrow> exn \<Rightarrow> 'h option" where
  "lookup_exception_handler cx hs e = lookup_mro (mro cx e) hs"

fun is_start :: "message \<Rightarrow> bool" where
  "is_start (RespStart st h) = True"
| "is_start m = False"

definition find_handler :: "classes \<Rightarrow> (pyclass, 'h) dict \<Rightarrow> (int, 'h) dict \<Rightarrow> exn \<Rightarrow> 'h option" where
  "find_handler cx hs shs e =
     (case (if is_instance cx e ''HTTPException'' then map_of shs (exc_status cx e) else None) of
        Some h \<Rightarrow> Some h
      | None \<Rightarrow> lookup_exception_handler cx hs e)"

text \<open>The two tables come from \<open>scope["starlette.exception_handlers"]\<close>; without it both are empty.\<close>

definition wrapped_app ::
  "classes \<Rightarrow> ((pyclass, handler) dict \<times> (int, handler) dict) option \<Rightarrow> app_run \<Rightarrow> app_run" where
  "wrapped_app cx tables run =
     (case run of
        (ms, Inr ()) \<Rightarrow> (ms, Inr ())
      | (ms, Inl e) \<Rightarrow>
          if \<not> is_instance cx e ''Exception'' then (ms, Inl e)
          else (case find_handler cx (fst (get_or tables ([], []))) (snd (get_or tables ([], []))) e of
                  None \<Rightarrow> (ms, Inl e)
                | Some h \<Rightarrow>
                    if list_ex is_start ms
                    then (ms, Inl (RuntimeError (S ''Caught handled exception, but response already started.'')))
                    else (case h e of
                            Inl e' \<Rightarrow> (ms, Inl e')
                          | Inr None \<Rightarrow> (ms, Inr ())
                          | Inr (Some (ms', out)) \<Rightarrow> (ms @ ms', out))))"

subsection \<open>The default handlers\<close>

datatype status_code = StNone | StInt int | StText str

definition status_patterns :: "str list" where
  "status_patterns = [S ''default'', S ''1XX'', S ''2XX'', S ''3XX'', S ''4XX'', S ''5XX'']"

definition is_body_allowed_for_status_code :: "status_code \<Rightarrow> bool res" where
  "is_body_allowed_for_status_code sc =
     (case sc of
        StNone \<Rightarrow> Inr True
      | StInt n \<Rightarrow> Inr (\<not> (n < 200 \<or> n \<in> {204, 205, 304}))
      | StText s \<Rightarrow>
          if s \<in> set status_patterns then Inr True
          else rbind (py_int s) (\<lambda>n. Inr (\<not> (n < 200 \<or> n \<in> {204, 205, 304}))))"

text \<open>\<open>json\<close> renders \<open>{"detail": d}\<close>, \<open>ser\<close> is \<open>serialize_error_response\<close>, \<open>ser_list\<close> \<open>serialize_error_list\<close>.\<close>

definition http_exception_handler ::
  "(detail \<Rightarrow> bytes res) \<Rightarrow> int \<Rightarrow> detail \<Rightarrow> (str \<times> str) list option \<Rightarrow> response res" where
  "http_exception_handler json status d hs =
     rbind (is_body_allowed_for_status_code (StInt status)) (\<lambda>allowed.
       if \<not> allowed then response_init None CNone status hs None False
       else rbind (json d) (\<lambda>b. response_init (Some (S ''application/json'')) (CBytes b) status hs None False))"

definition request_validation_exception_handler :: "(err list \<Rightarrow> bytes) \<Rightarrow> err list \<Rightarrow> response res" where
  "request_validation_exception_handler ser es =
     response_init None (CBytes (ser es)) 422 None (Some (S ''application/json'')) False"

definition websocket_request_validation_exception_handler ::
  "(err list \<Rightarrow> bytes) \<Rightarrow> 'c ws_ops \<Rightarrow> err list \<Rightarrow> 'c websocket \<Rightarrow> unit res \<times> 'c websocket" where
  "websocket_request_validation_exception_handler ser_list ops es w =
     (case utf8_decode (ser_list es) of
        Inl e \<Rightarrow> (Inl e, w)
      | Inr reason \<Rightarrow> ws_close ops 1008 (Some reason) w)"

text \<open>The handlers as entries of the table: the response they make is then called.\<close>

definition respond :: "response res \<Rightarrow> app_run option res" where
  "respond r = rbind r (\<lambda>r'. Inr (Some (fst (response_call r'), Inr ())))"

fun default_http_handler :: "(detail \<Rightarrow> bytes res) \<Rightarrow> handler" where
  "default_http_handler json (HTTPException s d h) = respond (http_exception_handler json s d h)"
| "default_http_handler json e = Inl (AttributeError (S ''status_code''))"

fun default_validation_handler :: "(err list \<Rightarrow> bytes) \<Rightarrow> handler" where
  "default_validation_handler ser (ValidationError k es ctx) = respond (request_validation_exception_handler ser es)"
| "default_validation_handler ser e = Inl (AttributeError (S ''errors''))"

subsection \<open>Properties\<close>

text \<open>The handler found is that of the first class of the resolution order that has one.\<close>

lemma lookup_mro_first:
  assumes "lookup_mro cs hs = Some h"
  shows "\<exists>pre c post. cs = pre @ c # post \<and> map_of hs c = Some h \<and> (\<forall>c'\<in>set pre. map_of hs c' = None)"
  using assms
proof (induction cs)
  case Nil
  then show ?case by simp
next
  case (Cons c cs)
  show ?case
  proof (cases "map_of hs c")
    case None
    with Cons obtain pre d post where "cs = pre @ d # post" "map_of hs d = Some h" "\<forall>c'\<in>set pre. map_of hs c' = None"
      by auto
    with None have "c # cs = (c # pre) @ d # post \<and> map_of hs d = Some h \<and> (\<forall>c'\<in>set (c # pre). map_of hs c' = None)"
      by simp
    then show ?thesis by blast
  next
    case (Some h')
    with Cons.prems have "c # cs = [] @ c # cs \<and> map_of hs c = Some h \<and> (\<forall>c'\<in>set []. map_of hs c' = None)" by simp
    then show ?thesis by blast
  qed
qed

lemma find_handler_in_tables:
  "find_handler cx hs shs e = Some h \<Longrightarrow> h \<in> snd ` set hs \<union> snd ` set shs"
  by (auto simp: find_handler_def lookup_exception_handler_def
      dest!: lookup_mro_first map_of_SomeD split: option.splits if_splits intro: rev_image_eqI)

text \<open>Without a start message nothing of the response protocol has happened.\<close>

lemma idle_without_start:
  "\<not> list_ex is_start ms \<Longrightarrow> run_response Idle ms \<noteq> Broken \<Longrightarrow> run_response Idle ms = Idle"
proof (induction ms)
  case (Cons m ms)
  then show ?case by (cases m) auto
qed simp

text \<open>
  C22: Exception handling never spoils the response protocol: if neither the application nor the
  responses of the handlers violate it, no message the client sees does. And a handled
  exception is answered by the response of its handler exactly when no response was started.
\<close>

theorem exception_handling_safe:
  assumes app: "run_response Idle ms \<noteq> Broken"
    and handlers: "\<And>h e ms' o'. h \<in> snd ` set hs \<union> snd ` set shs \<Longrightarrow> h e = Inr (Some (ms', o')) \<Longrightarrow> run_response Idle ms' \<noteq> Broken"
  shows "run_response Idle (fst (wrapped_app cx (Some (hs, shs)) (ms, out))) \<noteq> Broken
    \<and> (\<forall>e h. out = Inl e \<longrightarrow> is_instance cx e ''Exception'' \<longrightarrow> find_handler cx hs shs e = Some h \<longrightarrow>
         (if list_ex is_start ms then fst (wrapped_app cx (Some (hs, shs)) (ms, out)) = ms
          else \<forall>ms' o'. h e = Inr (Some (ms', o')) \<longrightarrow> wrapped_app cx (Some (hs, shs)) (ms, out) = (ms @ ms', o')))"
proof -
  have "run_response Idle (ms @ ms') \<noteq> Broken"
    if "find_handler cx hs shs e = Some h" "\<not> list_ex is_start ms" "h e = Inr (Some (ms', o'))" for e h ms' o'
    using handlers [OF find_handler_in_tables [OF that(1)] that(3)] idle_without_start [OF that(2) app] by simp
  then show ?thesis using app by (auto simp: wrapped_app_def split: sum.splits option.splits unit.splits)
qed

lemma set_raw_loop_keeps:
  "(n, v) \<in> set hs \<Longrightarrow> blower n \<noteq> name \<Longrightarrow> (n, v) \<in> set (set_raw_loop hs name w)"
  by (induction hs) auto

text \<open>A response is made from encodable headers, keeping all but the two content headers.\<close>

lemma response_init_keeps:
  assumes "encode_headers hs = Inr raw" and "render c = Inr b"
    and "case media of None \<Rightarrow> True | Some m \<Rightarrow> \<exists>mb. latin1_encode (content_type_of m) = Inr mb"
  shows "\<exists>r. response_init media c status hs None bg = Inr r \<and> r_status r = status
    \<and> r_body r = (if status \<in> {204, 304} then [] else b)
    \<and> (\<forall>(n, v)\<in>set raw. blower n \<notin> {''content-type'', ''content-length''} \<longrightarrow> (n, v) \<in> set (r_raw r))"
proof -
  let ?r = "\<lparr>r_status = status, r_media = media, r_body = b, r_raw = raw, r_background = bg\<rparr>"
  have init: "response_init media c status hs None bg = populate_content_headers ?r"
    using assms(1,2) by (simp add: response_init_def)
  show ?thesis
  proof (cases "status \<in> {204, 304}")
    case True
    then show ?thesis unfolding init by (auto simp: populate_content_headers_def)
  next
    case False
    have "\<exists>r. set_content_type ?r = Inr r \<and> r_status r = status \<and> r_body r = b
        \<and> (\<forall>n v. (n, v) \<in> set raw \<longrightarrow> blower n \<noteq> ''content-type'' \<longrightarrow> (n, v) \<in> set (r_raw r))"
      using assms(3) by (cases media) (auto simp: set_content_type_def set_raw_header_def intro!: set_raw_loop_keeps)
    then obtain r where r: "set_content_type ?r = Inr r" "r_status r = status" "r_body r = b"
      and kept: "\<And>n v. (n, v) \<in> set raw \<Longrightarrow> blower n \<noteq> ''content-type'' \<Longrightarrow> (n, v) \<in> set (r_raw r)"
      by blast
    have "\<forall>(n, v)\<in>set raw. blower n \<notin> {''content-type'', ''content-length''} \<longrightarrow>
        (n, v) \<in> set (r_raw (set_raw_header ''content-length'' (num_bytes (length b)) r))"
      using kept by (auto simp: set_raw_header_def intro!: set_raw_loop_keeps)
    with False r show ?thesis unfolding init by (simp add: populate_content_headers_def set_raw_header_def)
  qed
qed

lemma json_content_type: "latin1_encode (content_type_of (S ''application/json'')) = Inr ''application/json''"
proof -
  have "content_type_of (S ''application/json'') = S ''application/json''"
    by (simp add: content_type_of_def startswith_def S_def)
  then show ?thesis by simp
qed

text \<open>
  An \<open>HTTPException\<close> that is raised before a response was started is answered by one complete
  response with its status and its headers; its body is the detail, unless the status
  forbids one.
\<close>

theorem http_exception_reported:
  assumes "map_of hs (Cls ''HTTPException'') = Some (default_http_handler json)" and "map_of shs st = None"
    and "run_response Idle ms \<noteq> Broken" and "\<not> list_ex is_start ms"
    and "json d = Inr b" and "encode_headers hdrs = Inr raw"
  shows "\<exists>sent. wrapped_app cx (Some (hs, shs)) (ms, Inl (HTTPException st d hdrs)) = (ms @ [RespStart st (Some sent),
        RespBody (Some (if st < 200 \<or> st \<in> {204, 205, 304} then [] else b)) None], Inr ())
    \<and> response_complete (ms @ [RespStart st (Some sent), RespBody (Some (if st < 200 \<or> st \<in> {204, 205, 304} then [] else b)) None])
    \<and> (\<forall>(n, v)\<in>set raw. blower n \<notin> {''content-type'', ''content-length''} \<longrightarrow> (n, v) \<in> set sent)"
proof -
  let ?body = "if st < 200 \<or> st \<in> {204, 205, 304} then [] else b"
  have "\<exists>r. http_exception_handler json st d hdrs = Inr r \<and> r_status r = st \<and> r_body r = ?body
      \<and> (\<forall>(n, v)\<in>set raw. blower n \<notin> {''content-type'', ''content-length''} \<longrightarrow> (n, v) \<in> set (r_raw r))"
  proof (cases "st < 200 \<or> st \<in> {204, 205, 304}")
    case True
    have "render CNone = Inr []" by (simp add: render_def)
    from response_init_keeps [OF assms(6) this, of None st False] True show ?thesis
      by (auto simp: http_exception_handler_def is_body_allowed_for_status_code_def)
  next
    case False
    have "render (CBytes b) = Inr b" by (simp add: render_def)
    from response_init_keeps [OF assms(6) this, of "Some (S ''application/json'')" st False] False show ?thesis
      using assms(5) json_content_type by (auto simp: http_exception_handler_def is_body_allowed_for_status_code_def)
  qed
  then obtain r where r: "http_exception_handler json st d hdrs = Inr r" "r_status r = st" "r_body r = ?body"
    and kept: "\<forall>(n, v)\<in>set raw. blower n \<notin> {''content-type'', ''content-length''} \<longrightarrow> (n, v) \<in> set (r_raw r)"
    by blast
  have "find_handler cx hs shs (HTTPException st d hdrs) = Some (default_http_handler json)"
    using assms(1,2) by (simp add: find_handler_def lookup_exception_handler_def)
  then have "wrapped_app cx (Some (hs, shs)) (ms, Inl (HTTPException st d hdrs))
      = (ms @ [RespStart st (Some (r_raw r)), RespBody (Some ?body) None], Inr ())"
    using assms(4) r by (simp add: wrapped_app_def respond_def response_call_def is_instance_def exception_bases_def)
  moreover have "response_complete (ms @ [RespStart st (Some (r_raw r)), RespBody (Some ?body) None])"
    using idle_without_start [OF assms(4,3)] by (simp add: response_complete_def)
  ultimately show ?thesis using kept by blast
qed

text \<open>A server error with a header, raised before anything was sent.\<close>

definition no_classes :: classes where
  "no_classes = \<lparr>cx_mro = (\<lambda>_. exception_bases), cx_status = (\<lambda>_. 0)\<rparr>"

theorem http_exception_reported_witness:
  "\<exists>sent. wrapped_app no_classes (Some ([(Cls ''HTTPException'', default_http_handler (\<lambda>_. Inr ''{}''))], []))
      ([], Inl (HTTPException 401 DNone (Some [(S ''www-authenticate'', S ''Basic'')])))
      = ([RespStart 401 (Some sent), RespBody (Some ''{}'') None], Inr ())
    \<and> (''www-authenticate'', ''Basic'') \<in> set sent"
proof -
  have "lower (S ''www-authenticate'') = S ''www-authenticate''" by (simp add: lower_def lower_cp_def S_def)
  then have enc: "encode_headers (Some [(S ''www-authenticate'', S ''Basic'')]) = Inr [(''www-authenticate'', ''Basic'')]"
    by (simp add: encode_headers_def)
  have "blower ''www-authenticate'' = ''www-authenticate''" by (simp add: blower_def)
  then show ?thesis
    using http_exception_reported [of "[(Cls ''HTTPException'', default_http_handler (\<lambda>_. Inr ''{}''))]" "\<lambda>_. Inr ''{}''"
      "[]" 401 "[]" DNone "''{}''" "Some [(S ''www-authenticate'', S ''Basic'')]" "[(''www-authenticate'', ''Basic'')]" no_classes] enc
    by auto
qed

theorem exception_handling_safe_witness:
  "run_response Idle (fst (wrapped_app no_classes (Some ([(Cls ''Exception'', \<lambda>e. Inr None)], [])) ([RespStart 200 None], Inl OSError))) \<noteq> Broken"
  using exception_handling_safe [of "[RespStart 200 None]" "[(Cls ''Exception'', \<lambda>e. Inr None)]" "[]" no_classes "Inl OSError"]
  by auto

end
