(* ===== verification/Handlers.thy ===== *)
theory Handlers
  imports Exceptions Dependencies
begin

text \<open>
  What happens between a matched route and its response, from \<open>astraapi/routing.py\<close>: the exit
  stacks around a request (\<open>request_response\<close>, \<open>websocket_session\<close>), reading and parsing the body
  (multipart, url-encoded, JSON), calling the endpoint with its dependencies
  (\<open>get_request_handler\<close>, \<open>get_websocket_app\<close>) and turning its result into a response
  (\<open>serialize_response\<close>). The C++ function \<open>process_request\<close> is modelled with it. The JSON library,
  the multipart tokenizer, pydantic and the endpoint itself are parameters.
\<close>

subsection \<open>Exit stacks\<close>

text \<open>
  A callback of an \<open>AsyncExitStack\<close> is told the exception in flight, if any, and leaves another
  one, the same one, or none if it swallows it. Callbacks are listed in the order in which they
  were registered and run in the opposite order.
\<close>

type_synonym exit_cb = "nat \<times> (exn option \<Rightarrow> exn option)"

definition unwind :: "exit_cb list \<Rightarrow> exn option \<Rightarrow> exn option" where
  "unwind cbs e = foldr (\<lambda>(i, f) e. f e) cbs e"

definition exit_order :: "exit_cb list \<Rightarrow> nat list" where
  "exit_order cbs = map fst (rev cbs)"

definition exc_of :: "'a res \<Rightarrow> exn option" where
  "exc_of r = (case r of Inl e \<Rightarrow> Some e | Inr _ \<Rightarrow> None)"

text \<open>What a request does, in order: messages sent and callbacks of the exit stacks run.\<close>

datatype step = Sent message | Exited nat

fun sent_messages :: "step list \<Rightarrow> message list" where
  "sent_messages [] = []"
| "sent_messages (Sent m # ss) = m # sent_messages ss"
| "sent_messages (Exited i # ss) = sent_messages ss"

text \<open>
  One call of the endpoint's function \<open>f(request)\<close>: the callbacks registered on the two stacks
  and its outcome, where a response is given by what calling it does.
\<close>

record endpoint_run =
  er_request :: "exit_cb list"
  er_function :: "exit_cb list"
  er_result :: "app_run res"

definition response_not_awaited :: exn where
  "response_not_awaited = AstraAPIError (S ''Response not awaited.'')"

definition request_app :: "endpoint_run \<Rightarrow> step list \<times> unit res" where
  "request_app run =
     (let inner = unwind (er_function run) (exc_of (er_result run));
          (ms, out) = (case inner of
             Some e \<Rightarrow> ([], Inl e)
           | None \<Rightarrow> (case er_result run of
                        Inl _ \<Rightarrow> ([], Inl (UnboundLocalError (S ''response'')))
                      | Inr (ms, out) \<Rightarrow> (ms, out)));
          outer = unwind (er_request run) (exc_of out)
      in (map Exited (exit_order (er_function run)) @ map Sent ms @ map Exited (exit_order (er_request run)),
          case outer of
            Some e \<Rightarrow> Inl e
          | None \<Rightarrow> if exc_of out = None then Inr () else Inl response_not_awaited))"

definition request_response ::
  "classes \<Rightarrow> ((pyclass, handler) dict \<times> (int, handler) dict) option \<Rightarrow> endpoint_run \<Rightarrow> app_run" where
  "request_response cx tables run =
     (case request_app run of (steps, out) \<Rightarrow> wrapped_app cx tables (sent_messages steps, out))"

text \<open>A WebSocket session: the endpoint sends its messages while both stacks are open.\<close>

record session_run =
  sr_request :: "exit_cb list"
  sr_function :: "exit_cb list"
  sr_sent :: "message list"
  sr_result :: "unit res"

definition session_app :: "session_run \<Rightarrow> step list \<times> unit res" where
  "session_app run =
     (let inner = unwind (sr_function run) (exc_of (sr_result run));
          outer = unwind (sr_request run) inner
      in (map Sent (sr_sent run) @ map Exited (exit_order (sr_function run)) @ map Exited (exit_order (sr_request run)),
          case outer of Some e \<Rightarrow> Inl e | None \<Rightarrow> Inr ()))"

definition websocket_session ::
  "classes \<Rightarrow> ((pyclass, handler) dict \<times> (int, handler) dict) option \<Rightarrow> session_run \<Rightarrow> app_run" where
  "websocket_session cx tables run =
     (case session_app run of (steps, out) \<Rightarrow> wrapped_app cx tables (sent_messages steps, out))"

subsection \<open>Parsing the body\<close>

text \<open>34 and 39 are the quotes, 59 is the semicolon.\<close>

fun boundary_loop :: "str list \<Rightarrow> str option" where
  "boundary_loop [] = None"
| "boundary_loop (part # parts) =
     (let p = strip part in
      if startswith (lower p) (S ''boundary='') then
        (let v = drop 9 p in
         Some (if 2 \<le> length v \<and> hd v = 34 \<and> last v = 34 then butlast (tl v) else v))
      else boundary_loop parts)"

definition extract_boundary :: "str \<Rightarrow> str option" where
  "extract_boundary ct = boundary_loop (split_on 59 ct)"

text \<open>
  The callbacks of the multipart parser. The tokenizer of \<open>python-multipart\<close> is a parameter that
  gives the calls it makes; \<open>mp_headers\<close> is \<open>None\<close> before the first part.
\<close>

datatype mp_event =
    PartBegin | HeaderField bytes | HeaderValue bytes | HeaderEnd | HeadersFinished
  | PartData bytes | PartEnd

datatype mp_item = MpText str | MpRaw bytes | MpUpload upload_file | MpFile bytes_io

record mp_state =
  mp_name :: str
  mp_filename :: "str option"
  mp_content_type :: str
  mp_headers :: "(str, str) dict option"
  mp_hname :: "bytes option"
  mp_hval :: "bytes option"
  mp_data :: "bytes option"
  mp_spooled :: "bytes_io option"
  mp_items :: "(str \<times> mp_item) list"

definition octet_stream :: str where
  "octet_stream = S ''application/octet-stream''"

definition mp_init :: mp_state where
  "mp_init = \<lparr>mp_name = [], mp_filename = None, mp_content_type = octet_stream, mp_headers = None,
     mp_hname = None, mp_hval = None, mp_data = None, mp_spooled = None, mp_items = []\<rparr>"

definition on_part_begin :: "mp_state \<Rightarrow> mp_state" where
  "on_part_begin s = mp_init\<lparr>mp_headers := Some [], mp_items := mp_items s\<rparr>"

definition strip_quotes :: "str \<Rightarrow> str" where
  "strip_quotes s = (let q = (\<lambda>c. c = 34 \<or> c = 39) in rev (dropWhile q (rev (dropWhile q s))))"

fun disposition_loop :: "str list \<Rightarrow> mp_state \<Rightarrow> mp_state" where
  "disposition_loop [] s = s"
| "disposition_loop (part # parts) s =
     (let seg = strip part in
      disposition_loop parts
        (if startswith seg (S ''name='') then s\<lparr>mp_name := strip_quotes (drop 5 seg)\<rparr>
         else if startswith seg (S ''filename='') then s\<lparr>mp_filename := Some (strip_quotes (drop 9 seg))\<rparr>
         else s))"

definition on_header_end :: "mp_state \<Rightarrow> mp_state res" where
  "on_header_end s =
     (let hname = latin1_decode (blower (get_or (mp_hname s) []));
          hval = latin1_decode (get_or (mp_hval s) []);
          s1 = s\<lparr>mp_hname := None, mp_hval := None\<rparr>
      in case mp_headers s of
           None \<Rightarrow> Inl (KeyError (S ''headers''))
         | Some hs \<Rightarrow>
             (let s2 = s1\<lparr>mp_headers := Some (dict_set hname hval hs)\<rparr> in
              Inr (if hname = S ''content-disposition'' then disposition_loop (split_on 59 hval) s2
                   else if hname = S ''content-type'' then s2\<lparr>mp_content_type := hval\<rparr>
                   else s2)))"

definition on_headers_finished :: "mp_state \<Rightarrow> mp_state" where
  "on_headers_finished s =
     (if mp_filename s \<noteq> None then s\<lparr>mp_spooled := Some \<lparr>io_data = [], io_pos = 0, io_closed = False\<rparr>\<rparr> else s)"

definition on_part_data :: "bytes \<Rightarrow> mp_state \<Rightarrow> mp_state res" where
  "on_part_data d s =
     (case mp_spooled s of
        Some f \<Rightarrow> rbind (io_write f d) (\<lambda>f'. Inr (s\<lparr>mp_spooled := Some f'\<rparr>))
      | None \<Rightarrow> Inr (s\<lparr>mp_data := Some (get_or (mp_data s) [] @ d)\<rparr>))"

definition text_or_raw :: "bytes \<Rightarrow> mp_item" where
  "text_or_raw raw = (case utf8_decode raw of Inr t \<Rightarrow> MpText t | Inl _ \<Rightarrow> MpRaw raw)"

definition header_list :: "(str, str) dict \<Rightarrow> raw_headers res" where
  "header_list hs =
     rmap (\<lambda>(k, v). rbind (latin1_encode k) (\<lambda>kb. rbind (latin1_encode v) (\<lambda>vb. Inr (HB kb, HB vb)))) hs"

definition on_part_end :: "mp_state \<Rightarrow> mp_state res" where
  "on_part_end s =
     (case (mp_filename s, mp_spooled s) of
        (Some fn, Some f) \<Rightarrow>
          rbind (io_seek f 0) (\<lambda>f0. rbind (header_list (get_or (mp_headers s) [])) (\<lambda>raw.
          rbind (headers_init (Some raw) None None) (\<lambda>h.
            Inr (s\<lparr>mp_items := mp_items s @ [(mp_name s, MpUpload (uf_init (Some fn) (Some f0) (mp_content_type s) (Some h) None))]\<rparr>))))
      | _ \<Rightarrow> Inr (s\<lparr>mp_items := mp_items s @ [(mp_name s, text_or_raw (get_or (mp_data s) []))]\<rparr>))"

fun mp_step :: "mp_event \<Rightarrow> mp_state \<Rightarrow> mp_state res" where
  "mp_step PartBegin s = Inr (on_part_begin s)"
| "mp_step (HeaderField d) s = Inr (s\<lparr>mp_hname := Some (get_or (mp_hname s) [] @ d)\<rparr>)"
| "mp_step (HeaderValue d) s = Inr (s\<lparr>mp_hval := Some (get_or (mp_hval s) [] @ d)\<rparr>)"
| "mp_step HeaderEnd s = on_header_end s"
| "mp_step HeadersFinished s = Inr (on_headers_finished s)"
| "mp_step (PartData d) s = on_part_data d s"
| "mp_step PartEnd s = on_part_end s"

fun mp_run :: "mp_event list \<Rightarrow> mp_state \<Rightarrow> mp_state res" where
  "mp_run [] s = Inr s"
| "mp_run (e # es) s = rbind (mp_step e s) (mp_run es)"

text \<open>\<open>tok\<close> gives the calls of the tokenizer for a boundary and a body, or its exception.\<close>

definition parse_multipart_streaming ::
  "(bytes \<Rightarrow> bytes \<Rightarrow> mp_event list res) \<Rightarrow> bytes \<Rightarrow> str \<Rightarrow> (str \<times> mp_item) list res" where
  "parse_multipart_streaming tok b boundary =
     rbind (utf8_encode boundary) (\<lambda>bnd. rbind (tok bnd b) (\<lambda>es. rbind (mp_run es mp_init) (\<lambda>s. Inr (mp_items s))))"

text \<open>
  \<open>_build_form_data\<close> on the parts of the C++ parser. The data of a part is \<open>bytes\<close> or, for a spooled
  upload, a file.
\<close>

datatype part_data = DataBytes bytes | DataFile bytes_io | DataText str

record form_part =
  fpt_name :: str
  fpt_data :: part_data
  fpt_filename :: "str option"
  fpt_content_type :: "str option"
  fpt_headers :: "(str, str) dict"

fun part_file :: "part_data \<Rightarrow> (bytes_io \<times> int) res" where
  "part_file (DataFile f) = Inr (f, 0)"
| "part_file (DataBytes b) = Inr (\<lparr>io_data = b, io_pos = 0, io_closed = False\<rparr>, int (length b))"
| "part_file (DataText t) = Inl (TypeError (S ''a bytes-like object is required''))"

fun part_value :: "part_data \<Rightarrow> mp_item" where
  "part_value (DataBytes b) = text_or_raw b"
| "part_value (DataText t) = MpText t"
| "part_value (DataFile f) = MpFile f"

definition build_part :: "form_part \<Rightarrow> (str \<times> mp_item) res" where
  "build_part p =
     (case fpt_filename p of
        Some fn \<Rightarrow>
          rbind (header_list (fpt_headers p)) (\<lambda>raw. rbind (part_file (fpt_data p)) (\<lambda>(f, n).
          rbind (headers_init (Some raw) None None) (\<lambda>h.
            Inr (fpt_name p, MpUpload (uf_init (Some fn) (Some f) octet_stream (Some h) (Some n))))))
      | None \<Rightarrow> Inr (fpt_name p, part_value (fpt_data p)))"

definition build_form_data ::
  "(bytes \<Rightarrow> bytes \<Rightarrow> mp_event list res) \<Rightarrow> form_part list \<Rightarrow> bool \<Rightarrow> bytes \<Rightarrow> str \<Rightarrow> (str \<times> mp_item) list res" where
  "build_form_data tok parts streaming b boundary =
     (if streaming \<and> boundary \<noteq> [] then parse_multipart_streaming tok b boundary else rmap build_part parts)"

text \<open>
  The C++ function \<open>process_request\<close>: headers with normalised names, cookies, and the JSON body
  when a header \<open>content-type\<close>, written in lower case, contains \<open>json\<close>. A body that does not
  parse leaves \<open>json_body\<close> \<open>None\<close>, as the JSON value \<open>null\<close> does. 61 is the equals sign.
\<close>

function cookie_loop :: "str \<Rightarrow> (str, str) dict \<Rightarrow> (str, str) dict" where
  "cookie_loop s d =
     (let t = dropWhile (\<lambda>c. c = 32 \<or> c = 59) s;
          k = takeWhile (\<lambda>c. c \<noteq> 61) t;
          u = dropWhile (\<lambda>c. c \<noteq> 61) t
      in if u = [] then d
         else cookie_loop (dropWhile (\<lambda>c. c \<noteq> 59) (tl u)) (dict_set k (takeWhile (\<lambda>c. c \<noteq> 59) (tl u)) d))"
  by pat_completeness auto
termination
proof (relation "measure (\<lambda>(s, d). length s)", goal_cases)
  case (2 s d t k u)
  have "length (dropWhile (\<lambda>c. c \<noteq> 59) (tl u)) \<le> length (tl u)" by (rule length_dropWhile_le)
  also have "length (tl u) < length u" using 2 by (cases u) auto
  also have "length u \<le> length t" unfolding 2 by (rule length_dropWhile_le)
  also have "length t \<le> length s" unfolding 2 by (rule length_dropWhile_le)
  finally show ?case by simp
qed simp

declare cookie_loop.simps [simp del]

record 'q request_data =
  rd_query :: 'q
  rd_headers :: "(str, str) dict"
  rd_cookies :: "(str, str) dict"
  rd_json :: "pyv option"

fun is_json_header :: "str \<times> str \<Rightarrow> bool" where
  "is_json_header (n, v) \<longleftrightarrow> n = S ''content-type'' \<and> contains (ascii_lower v) (S ''json'')"

fun cookies_of_header :: "str \<times> str \<Rightarrow> (str, str) dict \<Rightarrow> (str, str) dict" where
  "cookies_of_header (n, v) d = (if n = S ''cookie'' then cookie_loop v d else d)"

definition json_or_none :: "(bytes \<Rightarrow> pyv option) \<Rightarrow> bytes \<Rightarrow> pyv option" where
  "json_or_none yy b = (case (if b = [] then None else yy b) of Some v \<Rightarrow> if v = VNone then None else Some v | None \<Rightarrow> None)"

definition process_request ::
  "(str \<Rightarrow> 'q) \<Rightarrow> (bytes \<Rightarrow> pyv option) \<Rightarrow> str \<Rightarrow> (str \<times> str) list \<Rightarrow> bytes \<Rightarrow> 'q request_data" where
  "process_request parse_qs yy qs hs b =
     \<lparr>rd_query = parse_qs qs, rd_headers = parse_scope_headers hs True,
      rd_cookies = fold cookies_of_header hs [],
      rd_json = (if list_ex is_json_header hs then json_or_none yy b else None)\<rparr>"

subsection \<open>Reading the body\<close>

text \<open>
  The items of a parsed form as values; an upload is the number of its file, counted from \<open>n\<close>.
\<close>

fun form_values :: "nat \<Rightarrow> (str \<times> mp_item) list \<Rightarrow> (str \<times> pyv) list" where
  "form_values n [] = []"
| "form_values n ((k, MpText t) # xs) = (k, VStr t) # form_values n xs"
| "form_values n ((k, MpRaw b) # xs) = (k, VBytes b) # form_values n xs"
| "form_values n ((k, MpUpload u) # xs) = (k, VFile n) # form_values (Suc n) xs"
| "form_values n ((k, MpFile f) # xs) = (k, VObj n) # form_values (Suc n) xs"

text \<open>
  What reading the body uses: the multipart tokenizer, the parsers of \<open>Request.form\<close>, and the C++
  parsers of url-encoded bodies and JSON (\<open>bp_json\<close> returns \<open>None\<close> on malformed input).
\<close>

record 'q body_parsers =
  bp_tok :: "bytes \<Rightarrow> bytes \<Rightarrow> mp_event list res"
  bp_form :: "(str \<times> pyv) list form_parsers"
  bp_urlencoded :: "bytes \<Rightarrow> (str \<times> str) list res"
  bp_query :: "str \<Rightarrow> 'q"
  bp_json :: "bytes \<Rightarrow> pyv option"

type_synonym form_request = "(pyv, (str \<times> pyv) list) request"

text \<open>
  The body and whether closing its files was registered on the file stack. \<open>parsed\<close> says that the
  scope already has \<open>_core_query_params\<close> and \<open>_core_headers\<close>; \<open>qs\<close> and \<open>hs\<close> are the query string
  and the headers of the scope.
\<close>

definition read_form :: "'q body_parsers \<Rightarrow> (pyv, (str \<times> pyv) list, body \<times> bool) channel_op" where
  "read_form bp rq ch =
     (case request_body rq ch of
        None \<Rightarrow> None
      | Some (Inl e, rq', ch') \<Rightarrow> Some (Inl e, rq', ch')
      | Some (Inr b, rq', ch') \<Rightarrow>
          (let (ct', h) = rq_headers_get (rq_headers rq') (S ''content-type'') (Some []);
               ct = get_or ct' []; rq1 = rq'\<lparr>rq_headers := h\<rparr>;
               by_form = (case request_form (bp_form bp) 1000 1000 rq1 ch' of
                            None \<Rightarrow> None
                          | Some (Inl e, r, c) \<Rightarrow> Some (Inl e, r, c)
                          | Some (Inr f, r, c) \<Rightarrow> Some (Inr (FormBody f, True), r, c))
           in if contains ct (S ''multipart/form-data'') then
                (case extract_boundary ct of
                   Some bnd \<Rightarrow>
                     if bnd \<noteq> [] \<and> b \<noteq> []
                     then (case parse_multipart_streaming (bp_tok bp) b bnd of
                             Inl e \<Rightarrow> Some (Inl e, rq1, ch')
                           | Inr items \<Rightarrow> Some (Inr (FormBody (form_values 0 items), True), rq1, ch'))
                     else by_form
                 | None \<Rightarrow> by_form)
              else if contains ct (S ''application/x-www-form-urlencoded'') then
                (if b \<noteq> [] then
                   (case bp_urlencoded bp b of
                      Inl e \<Rightarrow> Some (Inl e, rq1, ch')
                    | Inr pairs \<Rightarrow> Some (Inr (FormBody (map (\<lambda>(k, v). (k, VStr v)) pairs), False), rq1, ch'))
                 else Some (Inr (FormBody [], False), rq1, ch'))
              else by_form))"

text \<open>
  When the scope is already parsed, the code imports \<open>parse_json_bytes\<close> from \<open>_core_bridge\<close>, which
  has no such name; the exception is swallowed and the body stays undecoded.
\<close>

definition json_body :: "'q body_parsers \<Rightarrow> bool \<Rightarrow> str \<Rightarrow> (str \<times> str) list \<Rightarrow> bytes \<Rightarrow> body" where
  "json_body bp parsed qs hs b =
     (if b = [] then NoBody
      else case (if parsed then None else rd_json (process_request (bp_query bp) (bp_json bp) qs hs b)) of
             Some v \<Rightarrow> JsonBody v
           | None \<Rightarrow> JsonBody (VBytes b))"

definition read_json :: "'q body_parsers \<Rightarrow> bool \<Rightarrow> str \<Rightarrow> (str \<times> str) list \<Rightarrow> (pyv, (str \<times> pyv) list, body \<times> bool) channel_op" where
  "read_json bp parsed qs hs rq ch =
     (case request_body rq ch of
        None \<Rightarrow> None
      | Some (Inl e, rq', ch') \<Rightarrow> Some (Inl e, rq', ch')
      | Some (Inr b, rq', ch') \<Rightarrow> Some (Inr (json_body bp parsed qs hs b, False), rq', ch'))"

text \<open>Exceptions while reading become a 422 for malformed JSON, else a 400; \<open>dec\<close> prints the position.\<close>

fun body_error :: "classes \<Rightarrow> endpoint_ctx \<Rightarrow> exn \<Rightarrow> exn" where
  "body_error cx ctx (JSONDecodeError m p) = ValidationError OfRequest [Err (S ''json_invalid'') [S ''body'', dec p]] ctx"
| "body_error cx ctx e =
     (if is_instance cx e ''HTTPException'' \<or> \<not> is_instance cx e ''Exception'' then e
      else HTTPException 400 (DText (S ''There was an error parsing the body'')) None)"

definition read_body ::
  "classes \<Rightarrow> 'q body_parsers \<Rightarrow> field option \<Rightarrow> endpoint_ctx \<Rightarrow> bool \<Rightarrow> str \<Rightarrow> (str \<times> str) list
     \<Rightarrow> (pyv, (str \<times> pyv) list, body \<times> bool) channel_op" where
  "read_body cx bp body_field ctx parsed qs hs rq ch =
     (case body_field of
        None \<Rightarrow> Some (Inr (NoBody, False), rq, ch)
      | Some f \<Rightarrow>
          (case (if is_form_field f then read_form bp rq ch else read_json bp parsed qs hs rq ch) of
             None \<Rightarrow> None
           | Some (Inl e, rq', ch') \<Rightarrow> Some (Inl (body_error cx ctx e), rq', ch')
           | Some (Inr x, rq', ch') \<Rightarrow> Some (Inr x, rq', ch')))"

subsection \<open>Making the response\<close>

text \<open>
  What \<open>serialize_response\<close> and the responses use: \<open>sz_field\<close> serialises a validated value (with the
  include and exclude options of the route), \<open>sz_dump\<close> is \<open>model_dump\<close> of the objects that have it,
  \<open>sz_encode\<close> is \<open>jsonable_encoder\<close>, \<open>sz_core\<close> the C++ JSON serialiser, \<open>sz_json\<close> the rendering of
  \<open>JSONResponse\<close>.
\<close>

record serializers =
  sz_field :: "field \<Rightarrow> pyv \<Rightarrow> pyv res"
  sz_dump :: "pyv \<Rightarrow> pyv res option"
  sz_encode :: "pyv \<Rightarrow> pyv res"
  sz_core :: "pyv \<Rightarrow> bytes res"
  sz_json :: "pyv \<Rightarrow> bytes res"

text \<open>\<open>isinstance(v, (dict, list, str, int, float, bool))\<close>.\<close>

fun is_plain :: "pyv \<Rightarrow> bool" where
  "is_plain (VDict d) = True"
| "is_plain (VList xs) = True"
| "is_plain (VStr s) = True"
| "is_plain (VInt n) = True"
| "is_plain (VFloat x) = True"
| "is_plain (VBool b) = True"
| "is_plain v = False"

definition serialize_response :: "serializers \<Rightarrow> adapter \<Rightarrow> field option \<Rightarrow> endpoint_ctx \<Rightarrow> pyv \<Rightarrow> pyv res" where
  "serialize_response sz ad fld ctx v =
     (case fld of
        Some f \<Rightarrow>
          rbind (field_validate ad f v [S ''response'']) (\<lambda>(w, errs).
            if errs \<noteq> [] then Inl (ValidationError OfResponse errs ctx) else sz_field sz f w)
      | None \<Rightarrow>
          if is_plain v \<or> v = VNone then Inr v
          else (case sz_dump sz v of
                  Some (Inr w) \<Rightarrow> Inr w
                | _ \<Rightarrow> sz_encode sz v))"

text \<open>The response class of the route: \<open>JSONResponse\<close> itself or another class, given by its constructor.\<close>

datatype response_class = JsonClass | OtherClass "pyv \<Rightarrow> int option \<Rightarrow> bool \<Rightarrow> response res"

definition json_response_init :: "serializers \<Rightarrow> pyv \<Rightarrow> int option \<Rightarrow> bool \<Rightarrow> response res" where
  "json_response_init sz v status bg =
     rbind (sz_json sz v) (\<lambda>b. response_init (Some (S ''application/json'')) (CBytes b) (get_or status 200) None None bg)"

definition make_response :: "serializers \<Rightarrow> response_class \<Rightarrow> pyv \<Rightarrow> int option \<Rightarrow> bool \<Rightarrow> response res" where
  "make_response sz cls v status bg =
     (case cls of
        OtherClass mk \<Rightarrow> mk v status bg
      | JsonClass \<Rightarrow>
          (case rbind (sz_core sz v) (\<lambda>b. response_init None (CBytes b) (get_or status 200) None (Some (S ''application/json'')) bg) of
             Inr r \<Rightarrow> Inr r
           | Inl (ValueError m) \<Rightarrow> json_response_init sz v status bg
           | Inl (TypeError m) \<Rightarrow> json_response_init sz v status bg
           | Inl UnicodeEncodeError \<Rightarrow> json_response_init sz v status bg
           | Inl UnicodeDecodeError \<Rightarrow> json_response_init sz v status bg
           | Inl (JSONDecodeError m q) \<Rightarrow> json_response_init sz v status bg
           | Inl e \<Rightarrow> Inl e))"

text \<open>
  The state of the \<open>Response\<close> object that dependencies and endpoint share: the status they set and
  the headers they added.
\<close>

record sub_response =
  su_status :: "int option"
  su_headers :: resp_headers

definition current_status :: "sub_response \<Rightarrow> int option \<Rightarrow> int option" where
  "current_status su status = (case su_status su of Some n \<Rightarrow> if n \<noteq> 0 then Some n else status | None \<Rightarrow> status)"

definition finish_response :: "sub_response \<Rightarrow> response \<Rightarrow> response res" where
  "finish_response su r =
     rbind (is_body_allowed_for_status_code (StInt (r_status r))) (\<lambda>allowed.
       Inr ((if allowed then r else r\<lparr>r_body := []\<rparr>)\<lparr>r_raw := r_raw r @ su_headers su\<rparr>))"

datatype endpoint_value = EResponse response | EValue pyv

text \<open>The route as \<open>get_request_handler\<close> gets it.\<close>

record route_config =
  rc_dependant :: dependant
  rc_body_field :: "field option"
  rc_status :: "int option"
  rc_class :: response_class
  rc_field :: "field option"

definition build_response ::
  "serializers \<Rightarrow> adapter \<Rightarrow> route_config \<Rightarrow> endpoint_ctx \<Rightarrow> bool \<Rightarrow> sub_response \<Rightarrow> endpoint_value \<Rightarrow> response res" where
  "build_response sz ad rc ctx tasks su ev =
     (case ev of
        EResponse r \<Rightarrow> Inr (if \<not> r_background r then r\<lparr>r_background := tasks\<rparr> else r)
      | EValue v \<Rightarrow>
          rbind (if rc_field rc = None \<and> is_plain v then Inr v else serialize_response sz ad (rc_field rc) ctx v) (\<lambda>content.
          rbind (make_response sz (rc_class rc) content (current_status su (rc_status rc)) tasks) (finish_response su)))"

text \<open>
  One request through the handler. \<open>ep\<close> is the endpoint: its outcome for the arguments, and the
  shared response object afterwards. The result has the response, the state of solving, which
  holds the exit stacks, and the arguments of the call if the endpoint was called.
\<close>

definition handler_app ::
  "classes \<Rightarrow> 'q body_parsers \<Rightarrow> serializers \<Rightarrow> route_config \<Rightarrow> senv \<Rightarrow> endpoint_ctx \<Rightarrow> bool \<Rightarrow> bool \<Rightarrow> str \<Rightarrow> (str \<times> str) list
   \<Rightarrow> ((str, pyv) dict \<Rightarrow> endpoint_value res \<times> sub_response) \<Rightarrow> form_request \<Rightarrow> event list
   \<Rightarrow> (response res \<times> sstate \<times> (str, pyv) dict option) option" where
  "handler_app cx bp sz rc env ctx has_stack parsed qs hs ep rq ch =
     (if \<not> has_stack
      then Some (Inl (AssertionError (S ''astraapi_middleware_astack not found in request scope'')), fresh_sstate, None)
      else case read_body cx bp (rc_body_field rc) ctx parsed qs hs rq ch of
        None \<Rightarrow> None
      | Some (Inl e, _) \<Rightarrow> Some (Inl e, fresh_sstate, None)
      | Some (Inr (b, _), _) \<Rightarrow>
          (if \<not> se_stacks env
           then Some (Inl (AssertionError (S ''astraapi_inner_astack not found in request scope'')), fresh_sstate, None)
           else case solve_dependencies max_depth (env\<lparr>se_body := b\<rparr>) (rc_dependant rc) fresh_sstate of
             (Inl e, st) \<Rightarrow> Some (Inl e, st, None)
           | (Inr (vals, errs), st) \<Rightarrow>
               if errs \<noteq> [] then Some (Inl (ValidationError OfRequest errs ctx), st, None)
               else (case ep vals of
                       (Inl e, su) \<Rightarrow> Some (Inl e, st, Some vals)
                     | (Inr ev, su) \<Rightarrow> Some (build_response sz (se_ad env) rc ctx (st_tasks st) su ev, st, Some vals))))"

definition websocket_app ::
  "senv \<Rightarrow> dependant \<Rightarrow> endpoint_ctx \<Rightarrow> ((str, pyv) dict \<Rightarrow> unit res) \<Rightarrow> unit res \<times> sstate \<times> (str, pyv) dict option" where
  "websocket_app env d ctx ep =
     (if \<not> se_stacks env
      then (Inl (AssertionError (S ''astraapi_inner_astack not found in request scope'')), fresh_sstate, None)
      else case solve_dependencies max_depth (env\<lparr>se_body := NoBody\<rparr>) d fresh_sstate of
        (Inl e, st) \<Rightarrow> (Inl e, st, None)
      | (Inr (vals, errs), st) \<Rightarrow>
          if errs \<noteq> [] then (Inl (ValidationError OfWebSocket errs ctx), st, None) else (ep vals, st, Some vals))"

subsection \<open>Tables about endpoints\<close>

text \<open>
  A function object: its identity number \<open>id(f)\<close>, its name, and what \<open>inspect\<close> finds of its source.
  The context cache is bounded; an entry is used again only if the cached \<open>function_name\<close>, a key
  the context never has, equals the name of the function. The handler later assigns the path of
  the route to the context it got, which is not part of the cache's model.
\<close>

record pyfunc =
  fn_id :: nat
  fn_name :: "str option"
  fn_file :: "str option"
  fn_line :: "nat option"

definition ctx_cache_max :: nat where
  "ctx_cache_max = 2048"

definition new_context :: "pyfunc \<Rightarrow> endpoint_ctx" where
  "new_context f = EndpointContext (fn_name f) None (fn_file f) (fn_line f)"

definition extract_endpoint_context :: "pyfunc \<Rightarrow> (nat, endpoint_ctx) dict \<Rightarrow> endpoint_ctx \<times> (nat, endpoint_ctx) dict" where
  "extract_endpoint_context f cache =
     (case map_of cache (fn_id f) of
        Some c \<Rightarrow>
          if fn_name f = None then (c, dict_del (fn_id f) cache @ [(fn_id f, c)])
          else (let cache' = dict_del (fn_id f) cache in
                (new_context f, (if ctx_cache_max \<le> length cache' then tl cache' else cache') @ [(fn_id f, new_context f)]))
      | None \<Rightarrow>
          (new_context f, (if ctx_cache_max \<le> length cache then tl cache else cache) @ [(fn_id f, new_context f)]))"

text \<open>
  The route of an endpoint is found by \<open>id\<close>, which is used again once the endpoint is gone. An
  object has a serial number besides its \<open>id\<close>; \<open>alive\<close> is the set of live serial numbers. Objects
  that allow no weak reference are stored with \<open>None\<close>. When an endpoint dies, the callback of its
  weak reference removes the entry under its \<open>id\<close>.
\<close>

record pyobject =
  ob_id :: nat
  ob_serial :: nat
  ob_weak :: bool

type_synonym 'r route_table = "(nat, nat option \<times> 'r) dict"

definition register_endpoint_route :: "pyobject \<Rightarrow> 'r \<Rightarrow> 'r route_table \<Rightarrow> 'r route_table" where
  "register_endpoint_route x r t = dict_set (ob_id x) (if ob_weak x then Some (ob_serial x) else None, r) t"

definition get_route_for_endpoint :: "nat set \<Rightarrow> pyobject \<Rightarrow> 'r route_table \<Rightarrow> 'r option \<times> 'r route_table" where
  "get_route_for_endpoint alive x t =
     (case map_of t (ob_id x) of
        None \<Rightarrow> (None, t)
      | Some (None, r) \<Rightarrow> (Some r, t)
      | Some (Some n, r) \<Rightarrow> if n \<notin> alive \<or> n \<noteq> ob_serial x then (None, dict_del (ob_id x) t) else (Some r, t))"

definition endpoint_died :: "pyobject \<Rightarrow> 'r route_table \<Rightarrow> 'r route_table" where
  "endpoint_died x t = (if ob_weak x then dict_del (ob_id x) t else t)"

subsection \<open>Properties: exit stacks\<close>

lemma sent_messages_append [simp]: "sent_messages (xs @ ys) = sent_messages xs @ sent_messages ys"
  by (induction xs rule: sent_messages.induct) auto

lemma sent_messages_Sent [simp]: "sent_messages (map Sent ms) = ms"
  by (induction ms) auto

lemma sent_messages_Exited [simp]: "sent_messages (map Exited is) = []"
  by (induction "is") auto

text \<open>A callback is transparent when it neither swallows nor raises.\<close>

lemma unwind_transparent: "\<forall>(i, f)\<in>set cbs. \<forall>x. f x = x \<Longrightarrow> unwind cbs e = e"
  unfolding unwind_def by (induction cbs) auto



subsection \<open>Properties: multipart bodies\<close>

text \<open>
  The calls a tokenizer makes for one part with the headers \<open>hs\<close> and the content \<open>d\<close>, however
  names, values and content are cut into pieces.
\<close>

definition header_events :: "bytes \<times> bytes \<Rightarrow> mp_event list \<Rightarrow> bool" where
  "header_events h es \<longleftrightarrow>
     (\<exists>ns vs. concat ns = fst h \<and> concat vs = snd h \<and> es = map HeaderField ns @ map HeaderValue vs @ [HeaderEnd])"

definition part_events :: "(bytes \<times> bytes) list \<times> bytes \<Rightarrow> mp_event list \<Rightarrow> bool" where
  "part_events p es \<longleftrightarrow>
     (\<exists>hes ds. list_all2 header_events (fst p) hes \<and> concat ds = snd p
        \<and> es = PartBegin # concat hes @ HeadersFinished # map PartData ds @ [PartEnd])"

text \<open>What the part should become: its headers are read one by one, its content is taken whole.\<close>

definition read_header :: "bytes \<times> bytes \<Rightarrow> mp_state \<Rightarrow> mp_state" where
  "read_header h s =
     (let n = latin1_decode (blower (fst h)); v = latin1_decode (snd h);
          s' = s\<lparr>mp_headers := Some (dict_set n v (get_or (mp_headers s) []))\<rparr>
      in if n = S ''content-disposition'' then disposition_loop (split_on 59 v) s'
         else if n = S ''content-type'' then s'\<lparr>mp_content_type := v\<rparr> else s')"

definition part_state :: "(bytes \<times> bytes) list \<Rightarrow> mp_state" where
  "part_state hs = fold read_header hs (mp_init\<lparr>mp_headers := Some []\<rparr>)"

definition part_item :: "(bytes \<times> bytes) list \<times> bytes \<Rightarrow> str \<times> mp_item" where
  "part_item p =
     (let s = part_state (fst p) in
      (mp_name s,
       case mp_filename s of
         None \<Rightarrow> text_or_raw (snd p)
       | Some fn \<Rightarrow> MpUpload (uf_init (Some fn) (Some \<lparr>io_data = snd p, io_pos = 0, io_closed = False\<rparr>) (mp_content_type s)
           (Some \<lparr>hd_raw = map (\<lambda>(k, v). (HB (map char_of k), HB (map char_of v))) (get_or (mp_headers s) []), hd_dict = None, hd_list = None\<rparr>) None)))"

lemma mp_run_append [simp]: "mp_run (es @ es') s = rbind (mp_run es s) (mp_run es')"
proof (induction es arbitrary: s)
  case (Cons e es)
  then show ?case by (cases "mp_step e s") auto
qed simp

lemma mp_run_fields:
  "mp_run (map HeaderField ns) s = Inr (s\<lparr>mp_hname := if ns = [] then mp_hname s else Some (get_or (mp_hname s) [] @ concat ns)\<rparr>)"
  by (induction ns arbitrary: s) auto

lemma mp_run_values:
  "mp_run (map HeaderValue vs) s = Inr (s\<lparr>mp_hval := if vs = [] then mp_hval s else Some (get_or (mp_hval s) [] @ concat vs)\<rparr>)"
  by (induction vs arbitrary: s) auto

lemma mp_run_data:
  "mp_spooled s = None \<Longrightarrow> mp_run (map PartData ds) s = Inr (s\<lparr>mp_data := if ds = [] then mp_data s else Some (get_or (mp_data s) [] @ concat ds)\<rparr>)"
  by (induction ds arbitrary: s) (auto simp: on_part_data_def)

lemma mp_run_spool:
  "mp_spooled s = Some \<lparr>io_data = d, io_pos = length d, io_closed = False\<rparr> \<Longrightarrow>
   mp_run (map PartData ds) s = Inr (s\<lparr>mp_spooled := Some \<lparr>io_data = d @ concat ds, io_pos = length (d @ concat ds), io_closed = False\<rparr>\<rparr>)"
proof (induction ds arbitrary: s d)
  case (Cons x ds)
  then show ?case
    using Cons.IH [of "s\<lparr>mp_spooled := Some \<lparr>io_data = d @ x, io_pos = length (d @ x), io_closed = False\<rparr>\<rparr>" "d @ x"]
    by (auto simp: on_part_data_def io_write_def Let_def add.assoc)
qed simp

text \<open>Between headers, nothing of a header, of the content or of a file has been collected.\<close>

definition between :: "mp_state \<Rightarrow> bool" where
  "between s \<longleftrightarrow> mp_hname s = None \<and> mp_hval s = None \<and> mp_data s = None \<and> mp_spooled s = None
     \<and> (\<exists>hs. mp_headers s = Some hs \<and> (\<forall>(k, v)\<in>set hs. (\<forall>c\<in>set k \<union> set v. c < 256)))"

lemma disposition_loop_keeps [simp]:
  "mp_hname (disposition_loop ps s) = mp_hname s" "mp_hval (disposition_loop ps s) = mp_hval s"
  "mp_data (disposition_loop ps s) = mp_data s" "mp_spooled (disposition_loop ps s) = mp_spooled s"
  "mp_headers (disposition_loop ps s) = mp_headers s" "mp_items (disposition_loop ps s) = mp_items s"
  by (induction ps arbitrary: s) (auto simp: Let_def)

lemma items_commute:
  "(s :: mp_state)\<lparr>mp_items := x, mp_name := n\<rparr> = s\<lparr>mp_name := n, mp_items := x\<rparr>"
  "s\<lparr>mp_items := x, mp_filename := f\<rparr> = s\<lparr>mp_filename := f, mp_items := x\<rparr>"
  "s\<lparr>mp_items := x, mp_headers := h\<rparr> = s\<lparr>mp_headers := h, mp_items := x\<rparr>"
  "s\<lparr>mp_items := x, mp_content_type := c\<rparr> = s\<lparr>mp_content_type := c, mp_items := x\<rparr>"
  by simp_all

lemma disposition_loop_items: "disposition_loop ps (s\<lparr>mp_items := x\<rparr>) = (disposition_loop ps s)\<lparr>mp_items := x\<rparr>"
  by (induction ps arbitrary: s) (auto simp: Let_def items_commute)

lemma read_header_items: "read_header h (s\<lparr>mp_items := x\<rparr>) = (read_header h s)\<lparr>mp_items := x\<rparr>"
  by (simp add: read_header_def Let_def items_commute disposition_loop_items)

lemma fold_read_header_items: "fold read_header hs (s\<lparr>mp_items := x\<rparr>) = (fold read_header hs s)\<lparr>mp_items := x\<rparr>"
  by (induction hs arbitrary: s) (auto simp: read_header_items)

lemma between_read_header:
  assumes "between s"
  shows "between (read_header h s)"
proof -
  from assms obtain hs where hs: "mp_headers s = Some hs" "\<forall>(k, v)\<in>set hs. \<forall>c\<in>set k \<union> set v. c < 256"
    by (auto simp: between_def)
  let ?n = "latin1_decode (blower (fst h))" and ?v = "latin1_decode (snd h)"
  have "\<forall>c\<in>set ?n \<union> set ?v. c < 256" by (auto simp: latin1_decode_def)
  with hs(2) dict_set_subset [of ?n ?v hs] have "\<forall>(k, v)\<in>set (dict_set ?n ?v hs). \<forall>c\<in>set k \<union> set v. c < 256" by blast
  with assms hs(1) show ?thesis by (auto simp: read_header_def between_def Let_def)
qed

lemma header_events_run:
  assumes "header_events h es" and "between s"
  shows "mp_run es s = Inr (read_header h s)"
proof -
  from assms(1) obtain ns vs where es: "concat ns = fst h" "concat vs = snd h"
    "es = map HeaderField ns @ map HeaderValue vs @ [HeaderEnd]" by (auto simp: header_events_def)
  have none: "mp_hname s = None" "mp_hval s = None" using assms(2) by (simp_all add: between_def)
  then have same: "s\<lparr>mp_hname := None, mp_hval := None\<rparr> = s" "s\<lparr>mp_hname := None\<rparr> = s" "s\<lparr>mp_hval := None\<rparr> = s" by simp_all
  from assms(2) obtain hs where "mp_headers s = Some hs" by (auto simp: between_def)
  with es none show ?thesis
    by (auto simp: mp_run_fields mp_run_values on_header_end_def read_header_def Let_def same)
qed

lemma headers_events_run:
  assumes "list_all2 header_events hs hes" and "between s"
  shows "mp_run (concat hes) s = Inr (fold read_header hs s) \<and> between (fold read_header hs s)"
  using assms
proof (induction hs hes arbitrary: s rule: list_all2_induct)
  case (Cons h hs es hes)
  then show ?case using header_events_run [OF Cons(1) Cons.prems] between_read_header [OF Cons.prems] by auto
qed simp

lemma header_list_total:
  assumes "\<forall>(k, v)\<in>set hs. \<forall>c\<in>set k \<union> set v. c < 256"
  shows "header_list hs = Inr (map (\<lambda>(k, v). (HB (map char_of k), HB (map char_of v))) hs)"
  unfolding header_list_def
proof (rule rmap_total)
  fix x assume "x \<in> set hs"
  with assms show "(case x of (k, v) \<Rightarrow> rbind (latin1_encode k) (\<lambda>kb. rbind (latin1_encode v) (\<lambda>vb. Inr (HB kb, HB vb))))
      = Inr (case x of (k, v) \<Rightarrow> (HB (map char_of k), HB (map char_of v)))"
    by (cases x) (auto simp: latin1_encode_def list_all_iff)
qed

lemma part_events_run:
  assumes "part_events p es"
  shows "\<exists>s'. mp_run es s = Inr s' \<and> mp_items s' = mp_items s @ [part_item p]"
proof -
  obtain hs d where p: "p = (hs, d)" by fastforce
  from assms obtain hes ds where es: "list_all2 header_events hs hes" "concat ds = d"
    "es = PartBegin # concat hes @ HeadersFinished # map PartData ds @ [PartEnd]"
    by (auto simp: part_events_def p)
  let ?b = "mp_init\<lparr>mp_headers := Some []\<rparr>" and ?h = "(part_state hs)\<lparr>mp_items := mp_items s\<rparr>"
  have "between (?b\<lparr>mp_items := mp_items s\<rparr>)" by (simp add: between_def mp_init_def)
  from headers_events_run [OF es(1) this]
  have run: "mp_run (concat hes) (on_part_begin s) = Inr ?h" and bt: "between ?h"
    by (simp_all add: on_part_begin_def part_state_def fold_read_header_items)
  from bt obtain H where H: "mp_headers (part_state hs) = Some H" "\<forall>(k, v)\<in>set H. \<forall>c\<in>set k \<union> set v. c < 256"
    and none: "mp_data (part_state hs) = None" "mp_spooled (part_state hs) = None" by (auto simp: between_def)
  show ?thesis
  proof (cases "mp_filename (part_state hs)")
    case None
    then show ?thesis
      using es run none by (auto simp: p on_headers_finished_def mp_run_data on_part_end_def part_item_def Let_def split: option.splits)
  next
    case (Some fn)
    let ?s = "?h\<lparr>mp_spooled := Some \<lparr>io_data = [], io_pos = 0, io_closed = False\<rparr>\<rparr>"
    have "mp_run (map PartData ds) ?s = Inr (?s\<lparr>mp_spooled := Some \<lparr>io_data = d, io_pos = length d, io_closed = False\<rparr>\<rparr>)"
      using mp_run_spool [of ?s "[]" ds] es(2) by simp
    then show ?thesis
      using es run Some H header_list_total [OF H(2)]
      by (simp add: p on_headers_finished_def on_part_end_def part_item_def Let_def io_seek_def headers_init_def)
  qed
qed

text \<open>
  C21: A multipart body is read the same way however the tokenizer cuts it: each part gives exactly
  one item, in order, whose name, file name and content type come from its headers and whose
  content is the whole content of the part.
\<close>

theorem multipart_items_exact:
  assumes "utf8_encode boundary = Inr bnd" and "tok bnd b = Inr (concat ess)" and "list_all2 part_events parts ess"
  shows "parse_multipart_streaming tok b boundary = Inr (map part_item parts)"
proof -
  from assms(3) have "\<exists>s'. mp_run (concat ess) s = Inr s' \<and> mp_items s' = mp_items s @ map part_item parts" for s
  proof (induction parts ess arbitrary: s rule: list_all2_induct)
    case (Cons p ps es ess)
    from part_events_run [OF Cons(1), of s] obtain s1
      where s1: "mp_run es s = Inr s1" "mp_items s1 = mp_items s @ [part_item p]" by blast
    from Cons(3) [of s1] s1 show ?case by auto
  qed simp
  from this [of mp_init] assms(1,2) show ?thesis
    by (auto simp: parse_multipart_streaming_def mp_init_def)
qed

theorem multipart_items_exact_witness:
  "parse_multipart_streaming
     (\<lambda>bnd b. Inr [PartBegin, HeaderField ''content-'', HeaderField ''disposition'', HeaderValue ''form-data; name=a'', HeaderEnd,
        HeadersFinished, PartData ''he'', PartData ''llo'', PartEnd]) ''body'' (S ''x'')
   = Inr [(S ''a'', MpText (S ''hello''))]"
proof -
  let ?es = "[PartBegin, HeaderField ''content-'', HeaderField ''disposition'', HeaderValue ''form-data; name=a'', HeaderEnd,
        HeadersFinished, PartData ''he'', PartData ''llo'', PartEnd]"
  let ?p = "([(''content-disposition'', ''form-data; name=a'')], ''hello'')"
  have "header_events (''content-disposition'', ''form-data; name=a'')
      [HeaderField ''content-'', HeaderField ''disposition'', HeaderValue ''form-data; name=a'', HeaderEnd]"
    unfolding header_events_def
    by (intro exI [of _ "[''content-'', ''disposition'']"] exI [of _ "[''form-data; name=a'']"]) simp
  then have ev: "part_events ?p ?es"
    unfolding part_events_def
    by (intro exI [of _ "[[HeaderField ''content-'', HeaderField ''disposition'', HeaderValue ''form-data; name=a'', HeaderEnd]]"]
        exI [of _ "[''he'', ''llo'']"]) simp
  have "blower ''content-disposition'' = ''content-disposition''" by (simp add: blower_def)
  moreover have "latin1_decode ''form-data; name=a'' = S ''form-data'' @ 59 # S '' name=a''"
    by (simp add: latin1_decode_def S_def)
  moreover have ns: "59 \<notin> set (S ''form-data'')" "59 \<notin> set (S '' name=a'')" by (simp_all add: S_def)
  have "split_on 59 (S ''form-data'' @ 59 # S '' name=a'') = [S ''form-data'', S '' name=a'']"
    by (simp only: split_on_sep [OF ns(1)] split_on_no_sep [OF ns(2)])
  moreover note this
  moreover have "strip (S ''form-data'') = S ''form-data''" "strip (S '' name=a'') = S ''name=a''"
    by (simp_all add: strip_def S_def is_space_def)
  moreover have "\<not> startswith (S ''form-data'') (S ''name='')" "\<not> startswith (S ''form-data'') (S ''filename='')"
    "startswith (S ''name=a'') (S ''name='')" "strip_quotes (drop 5 (S ''name=a'')) = S ''a''"
    by (simp_all add: startswith_def S_def strip_quotes_def)
  ultimately have st: "mp_name (part_state (fst ?p)) = S ''a''" "mp_filename (part_state (fst ?p)) = None"
    by (simp_all add: part_state_def read_header_def latin1_decode_S mp_init_def)
  have "utf8_encode (S ''hello'') = Inr ''hello''" by (rule utf8_encode_ascii) (simp add: S_def)
  then have "text_or_raw ''hello'' = MpText (S ''hello'')" by (simp add: text_or_raw_def utf8_decode_encode)
  with st have item: "part_item ?p = (S ''a'', MpText (S ''hello''))" by (simp add: part_item_def)
  have "utf8_encode (S ''x'') = Inr ''x''" by (rule utf8_encode_ascii) (simp add: S_def)
  from multipart_items_exact [OF this, of "\<lambda>bnd b. Inr ?es" "''body''" "[?es]" "[?p]"] ev item show ?thesis by simp
qed

subsection \<open>Properties: the parsed request\<close>

definition cookie_pair :: "str \<times> str \<Rightarrow> str" where
  "cookie_pair p = fst p @ 61 # snd p"

definition cookie_ok :: "str \<times> str \<Rightarrow> bool" where
  "cookie_ok p \<longleftrightarrow> 61 \<notin> set (fst p) \<and> (fst p = [] \<or> hd (fst p) \<notin> {32, 59}) \<and> 59 \<notin> set (snd p)"

lemma cookie_loop_pair:
  assumes "cookie_ok p" and "rest = [] \<or> hd rest = 59"
  shows "cookie_loop (cookie_pair p @ rest) d = cookie_loop rest (dict_set (fst p) (snd p) d)"
proof -
  obtain k v where p: "p = (k, v)" by fastforce
  have k: "61 \<notin> set k" "k = [] \<or> hd k \<notin> {32, 59}" and v: "59 \<notin> set v" using assms(1) by (auto simp: cookie_ok_def p)
  have "dropWhile (\<lambda>c. c = 32 \<or> c = 59) (k @ 61 # v @ rest) = k @ 61 # v @ rest"
    using k(2) by (cases k) auto
  moreover have "takeWhile (\<lambda>c. c \<noteq> 61) (k @ 61 # v @ rest) = k" using k(1) by (induction k) auto
  moreover have "dropWhile (\<lambda>c. c \<noteq> 61) (k @ 61 # v @ rest) = 61 # v @ rest" using k(1) by (induction k) auto
  moreover have "takeWhile (\<lambda>c. c \<noteq> 59) (v @ rest) = v" using v assms(2) by (cases rest; induction v) auto
  moreover have "dropWhile (\<lambda>c. c \<noteq> 59) (v @ rest) = rest" using v assms(2) by (cases rest; induction v) auto
  ultimately show ?thesis
    by (subst cookie_loop.simps) (simp add: cookie_pair_def p)
qed

lemma cookie_loop_separator: "cookie_loop (59 # 32 # s) d = cookie_loop s d"
  by (subst (1 2) cookie_loop.simps) simp

lemma cookie_loop_Nil [simp]: "cookie_loop [] d = d"
  by (subst cookie_loop.simps) simp

text \<open>
  The cookie header a client writes for a list of cookies is read back as these cookies, later
  ones replacing earlier ones of the same name.
\<close>

theorem cookie_header_roundtrip:
  assumes "\<forall>p\<in>set ps. cookie_ok p"
  shows "rd_cookies (process_request pq yy qs [(S ''cookie'', join (S ''; '') (map cookie_pair ps))] b) = dict_update ps []"
proof -
  have sep: "S ''; '' = [59, 32]" by (simp add: S_def)
  have "cookie_loop (join (S ''; '') (map cookie_pair ps)) d = dict_update ps d" for d
    using assms
  proof (induction ps arbitrary: d)
    case (Cons p ps)
    show ?case
    proof (cases "ps = []")
      case True
      then show ?thesis using Cons.prems cookie_loop_pair [of p "[]" d] by (simp add: dict_update_def split: prod.splits)
    next
      case False
      then have "cookie_loop (join (S ''; '') (map cookie_pair (p # ps))) d
          = cookie_loop (59 # 32 # join (S ''; '') (map cookie_pair ps)) (dict_set (fst p) (snd p) d)"
        using Cons.prems cookie_loop_pair [of p "59 # 32 # join (S ''; '') (map cookie_pair ps)" d]
        by (simp add: join_Cons sep)
      with Cons show ?thesis by (simp add: cookie_loop_separator dict_update_def split: prod.splits)
    qed
  qed (simp add: dict_update_def)
  then show ?thesis by (simp add: process_request_def)
qed

theorem cookie_header_roundtrip_witness:
  "rd_cookies (process_request id (\<lambda>_. None) [] [(S ''cookie'', join (S ''; '') [cookie_pair (S ''a'', S ''1''), cookie_pair (S ''b'', S ''2'')])] [])
    = [(S ''a'', S ''1''), (S ''b'', S ''2'')]"
  using cookie_header_roundtrip [of "[(S ''a'', S ''1''), (S ''b'', S ''2'')]" id "\<lambda>_. None" "[]" "[]"]
  by (simp add: cookie_ok_def dict_update_def dict_set_def S_def)

text \<open>
  Malformed JSON and the JSON value \<open>null\<close> reach the endpoint as the undecoded bytes: the
  decoding error that \<open>get_request_handler\<close> reports as \<open>json_invalid\<close> is never raised.
\<close>

lemma undecodable_json_arrives_as_bytes:
  assumes "b \<noteq> []" and "parsed \<or> bp_json bp b = None \<or> bp_json bp b = Some VNone"
  shows "json_body bp parsed qs hs b = JsonBody (VBytes b)"
  using assms by (auto simp: json_body_def process_request_def json_or_none_def)

subsection \<open>Properties: responses\<close>

text \<open>
  The response to an endpoint that returns a plain JSON value: its status is the one set on the
  shared response object, else the route's, else 200; its body is the JSON text, and the
  headers set on the shared object follow the content headers. For 204 and 304 there are neither
  body nor content headers. For 205 and for statuses below 200 the body is dropped after
  \<open>content-length\<close> was set, which then announces bytes that are never sent.
\<close>

theorem json_endpoint_response:
  assumes "rc_class rc = JsonClass" and "rc_field rc = None" and "is_plain v" and "sz_core sz v = Inr b"
  shows "let st = get_or (current_status su (rc_status rc)) 200;
           content = [(''content-type'', ''application/json''), (''content-length'', num_bytes (length b))]
     in build_response sz ad rc ctx tasks su (EValue v) = Inr \<lparr>r_status = st, r_media = Some (S ''application/json''),
          r_body = (if st < 200 \<or> st \<in> {204, 205, 304} then [] else b),
          r_raw = (if st \<in> {204, 304} then [] else content) @ su_headers su, r_background = tasks\<rparr>"
proof -
  define st where "st = get_or (current_status su (rc_status rc)) 200"
  have "response_init None (CBytes b) st None (Some (S ''application/json'')) tasks = Inr \<lparr>r_status = st,
      r_media = Some (S ''application/json''), r_body = (if st \<in> {204, 304} then [] else b),
      r_raw = (if st \<in> {204, 304} then []
               else [(''content-type'', ''application/json''), (''content-length'', num_bytes (length b))]), r_background = tasks\<rparr>"
    using json_content_type
    by (simp add: response_init_def render_def encode_headers_def populate_content_headers_def set_content_type_def set_raw_header_def)
  then show ?thesis
    using assms
    by (auto simp: build_response_def make_response_def finish_response_def is_body_allowed_for_status_code_def Let_def st_def [symmetric])
qed

text \<open>A dependency that sets the status to 205 gives a response with a wrong length.\<close>

theorem json_endpoint_response_witness:
  "build_response \<lparr>sz_field = (\<lambda>f v. Inr v), sz_dump = (\<lambda>v. None), sz_encode = Inr, sz_core = (\<lambda>v. Inr ''1''), sz_json = (\<lambda>v. Inr ''1'')\<rparr>
     (\<lambda>f v. VOk v) \<lparr>rc_dependant = plain_dependant [] None 0, rc_body_field = None, rc_status = Some 201, rc_class = JsonClass, rc_field = None\<rparr>
     no_ctx False \<lparr>su_status = Some 205, su_headers = []\<rparr> (EValue (VInt 1))
   = Inr \<lparr>r_status = 205, r_media = Some (S ''application/json''), r_body = [],
       r_raw = [(''content-type'', ''application/json''), (''content-length'', num_bytes 1)], r_background = False\<rparr>"
  using json_endpoint_response [of "\<lparr>rc_dependant = plain_dependant [] None 0, rc_body_field = None, rc_status = Some 201, rc_class = JsonClass, rc_field = None\<rparr>"
      "VInt 1" "\<lparr>sz_field = (\<lambda>f v. Inr v), sz_dump = (\<lambda>v. None), sz_encode = Inr, sz_core = (\<lambda>v. Inr ''1''), sz_json = (\<lambda>v. Inr ''1'')\<rparr>"
      "''1''" "\<lparr>su_status = Some 205, su_headers = []\<rparr>" "\<lambda>f v. VOk v" no_ctx False]
  by (simp add: current_status_def Let_def)

subsection \<open>Properties: the whole request\<close>

text \<open>
  The run of a handler as the exit stacks see it: \<open>cb c\<close> is what leaving the generator \<open>c\<close> does,
  \<open>bg\<close> how the background tasks end.
\<close>

definition run_of ::
  "(nat \<Rightarrow> exn option \<Rightarrow> exn option) \<Rightarrow> unit res \<Rightarrow> response res \<times> sstate \<times> (str, pyv) dict option \<Rightarrow> endpoint_run" where
  "run_of cb bg x =
     (case x of (r, st, called) \<Rightarrow>
       \<lparr>er_request = map (\<lambda>c. (c, cb c)) (st_request_stack st), er_function = map (\<lambda>c. (c, cb c)) (st_function_stack st),
        er_result = rbind r (\<lambda>resp. Inr (fst (response_call resp), if r_background resp then bg else Inr ()))\<rparr>)"

lemma solve_complete:
  "solve_dependencies n env d fresh_sstate = (Inr (vs, []), st) \<Longrightarrow> arg_names env d \<subseteq> keys vs"
proof -
  have "calls_complete env fresh_sstate" by (simp add: calls_complete_def fresh_sstate_def)
  then show "solve_dependencies n env d fresh_sstate = (Inr (vs, []), st) \<Longrightarrow> arg_names env d \<subseteq> keys vs"
    using complete.solve_step by blast
qed

lemma arg_names_body [simp]: "arg_names (env\<lparr>se_body := b\<rparr>) d = arg_names env d"
  by (simp add: arg_names_def special_names_def)

lemma validation_response:
  "\<exists>hdrs. default_validation_handler ser (ValidationError k es ctx)
     = Inr (Some ([RespStart 422 hdrs, RespBody (Some (ser es)) None], Inr ()))"
  using json_content_type
  by (simp add: respond_def request_validation_exception_handler_def response_init_def render_def encode_headers_def
      populate_content_headers_def set_content_type_def set_raw_header_def response_call_def)

lemma find_validation_handler:
  "map_of hs (Cls ''RequestValidationError'') = Some h \<Longrightarrow> find_handler cx hs shs (ValidationError OfRequest es ctx) = Some h"
  by (simp add: find_handler_def is_instance_def exception_bases_def lookup_exception_handler_def)


text \<open>The example endpoint of the dependency theory behind a handler.\<close>

definition example_config :: route_config where
  "example_config = \<lparr>rc_dependant = example_endpoint, rc_body_field = None, rc_status = None, rc_class = JsonClass, rc_field = None\<rparr>"

definition example_serializers :: serializers where
  "example_serializers = \<lparr>sz_field = (\<lambda>f v. Inr v), sz_dump = (\<lambda>v. None), sz_encode = Inr, sz_core = (\<lambda>v. Inr ''null''), sz_json = (\<lambda>v. Inr ''null'')\<rparr>"

definition example_parsers :: "nat body_parsers" where
  "example_parsers = \<lparr>bp_tok = (\<lambda>n b. Inr []), bp_form = \<lparr>fp_multipart = (\<lambda>b c. Inr []), fp_multipart_fallback = (\<lambda>b c m n. Inr []),
     fp_urlencoded = (\<lambda>b. Inr []), fp_of_dict = (\<lambda>d. [])\<rparr>, bp_urlencoded = (\<lambda>b. Inr []), bp_query = (\<lambda>q. 0), bp_json = (\<lambda>b. None)\<rparr>"

definition example_request :: form_request where
  "example_request = \<lparr>rq_scope = url_scope, rq_headers = rq_headers_init None (Some (sc_headers url_scope)), rq_has_receive = True,
     rq_body = None, rq_json = None, rq_json_loaded = False, rq_form = None, rq_disconnected = False, rq_consumed = False, rq_buffered = []\<rparr>"

lemma example_handled:
  "\<exists>r st. handler_app no_classes example_parsers example_serializers example_config example_senv no_ctx True False [] []
     (\<lambda>args. (Inr (EValue (VInt 1)), \<lparr>su_status = None, su_headers = []\<rparr>)) example_request [] = Some (r, st, Some [(S ''dep'', VObj 1)])"
proof -
  have "max_depth = Suc (Suc 99)" by (simp add: max_depth_def)
  then obtain st where "solve_dependencies max_depth example_senv example_endpoint fresh_sstate = (Inr ([(S ''dep'', VObj 1)], []), st)"
    using example_solved [of 99] by auto
  moreover have "example_senv\<lparr>se_body := NoBody\<rparr> = example_senv" "se_stacks example_senv" by (simp_all add: example_senv_def)
  ultimately show ?thesis by (simp add: handler_app_def read_body_def example_config_def del: solve_dependencies.simps)
qed


subsection \<open>Properties: tables about endpoints\<close>

lemma length_dict_del_le: "length (dict_del k d) \<le> length d"
  by (simp add: dict_del_def AList.delete_eq)

lemma length_dict_del_less: "map_of d k = Some v \<Longrightarrow> length (dict_del k d) < length d"
proof (induction d)
  case (Cons x d)
  then show ?case using length_dict_del_le [of k d] by (cases x) (auto simp: dict_del_def split: if_splits)
qed simp

text \<open>
  The context cache never outgrows its bound, but a function with a name never finds its own
  entry: the context is computed anew on every request.
\<close>

lemma endpoint_context_cache:
  assumes "length cache \<le> ctx_cache_max"
  shows "length (snd (extract_endpoint_context f cache)) \<le> ctx_cache_max
    \<and> (fn_name f \<noteq> None \<longrightarrow> fst (extract_endpoint_context f cache) = new_context f)"
proof -
  have "0 < ctx_cache_max" by (simp add: ctx_cache_max_def)
  moreover have "length (dict_del (fn_id f) cache) < length cache" if "map_of cache (fn_id f) = Some c" for c
    using length_dict_del_less [OF that] .
  ultimately show ?thesis
    using assms by (fastforce simp: extract_endpoint_context_def Let_def split: option.splits)
qed

text \<open>The route found for a live endpoint is the one it was registered with, however ids were reused.\<close>

inductive table_reachable :: "nat set \<Rightarrow> (pyobject \<times> 'r) list \<Rightarrow> 'r route_table \<Rightarrow> bool" where
  start: "table_reachable {} [] []"
| born: "table_reachable alive log t \<Longrightarrow> n \<notin> alive \<Longrightarrow> (\<forall>(x, r)\<in>set log. ob_serial x \<noteq> n) \<Longrightarrow> table_reachable (insert n alive) log t"
| register: "table_reachable alive log t \<Longrightarrow> ob_weak x \<Longrightarrow> ob_serial x \<in> alive \<Longrightarrow>
    table_reachable alive ((x, r) # log) (register_endpoint_route x r t)"
| died: "table_reachable alive log t \<Longrightarrow> table_reachable (alive - {ob_serial x}) log (endpoint_died x t)"
| lookup: "table_reachable alive log t \<Longrightarrow> get_route_for_endpoint alive x t = (r, t') \<Longrightarrow> table_reachable alive log t'"

definition table_sound :: "(pyobject \<times> 'r) list \<Rightarrow> 'r route_table \<Rightarrow> bool" where
  "table_sound log t \<longleftrightarrow> (\<forall>i w r. map_of t i = Some (w, r) \<longrightarrow>
     (\<exists>x. (x, r) \<in> set log \<and> ob_id x = i \<and> w = Some (ob_serial x)))"

lemma table_sound_del: "table_sound log t \<Longrightarrow> table_sound log (dict_del k t)"
  by (auto simp: table_sound_def map_of_dict_del split: if_splits)

lemma table_reachable_sound: "table_reachable alive log t \<Longrightarrow> table_sound log t"
proof (induction rule: table_reachable.induct)
  case start
  then show ?case by (simp add: table_sound_def)
next
  case (register alive log t x r)
  then show ?case
    by (auto simp: table_sound_def register_endpoint_route_def map_of_dict_set split: if_splits) blast+
next
  case (died alive log t x)
  then show ?case by (simp add: endpoint_died_def table_sound_del)
next
  case (lookup alive log t x r t')
  then show ?case
    using table_sound_del by (auto simp: get_route_for_endpoint_def split: option.splits if_splits)
qed simp

lemma route_of_endpoint_registered:
  assumes "table_reachable alive log t" and "get_route_for_endpoint alive x t = (Some r, t')"
  shows "\<exists>y. (y, r) \<in> set log \<and> ob_serial y = ob_serial x \<and> ob_serial x \<in> alive"
proof -
  have "table_sound log t" by (rule table_reachable_sound [OF assms(1)])
  with assms(2) show ?thesis
    by (force simp: get_route_for_endpoint_def table_sound_def split: option.splits if_splits)
qed

end
