(* ===== verification/ApiRouter.thy ===== *)
theory ApiRouter
  imports Routing Handlers
begin

text \<open>
  Declaring routes: \<open>APIRoute\<close>, \<open>APIWebSocketRoute\<close> and \<open>APIRouter\<close> of \<open>astraapi/routing.py\<close> with the
  helpers of \<open>astraapi/utils.py\<close>. A router collects routes; \<open>include_router\<close> copies the routes of
  another one with its prefix, tags and dependencies, and merges the lifespans. What only the
  OpenAPI document uses of a route (summary, description, examples, serialisation options) is
  one opaque value, and so are models, response classes and callbacks.
\<close>

subsection \<open>Helpers\<close>

text \<open>\<open>Default(x)\<close> wraps a value that was not given explicitly.\<close>

datatype 'a dflt = Default 'a | Given 'a

fun default_value :: "'a dflt \<Rightarrow> 'a" where
  "default_value (Default x) = x"
| "default_value (Given x) = x"

fun first_given :: "'a dflt list \<Rightarrow> 'a dflt option" where
  "first_given [] = None"
| "first_given (Given x # xs) = Some (Given x)"
| "first_given (Default x # xs) = first_given xs"

definition get_value_or_default :: "'a dflt \<Rightarrow> 'a dflt list \<Rightarrow> 'a dflt" where
  "get_value_or_default x xs = get_or (first_given (x # xs)) x"

text \<open>\<open>\W\<close> on ASCII: everything but letters, digits and the underscore.\<close>

definition word_char :: "nat \<Rightarrow> bool" where
  "word_char c \<longleftrightarrow> is_digit c \<or> 65 \<le> c \<and> c \<le> 90 \<or> 97 \<le> c \<and> c \<le> 122 \<or> c = 95"

definition generate_unique_id :: "str \<Rightarrow> str \<Rightarrow> str list \<Rightarrow> str res" where
  "generate_unique_id name path_format methods =
     (case methods of
        [] \<Rightarrow> Inl (AssertionError [])
      | m # _ \<Rightarrow> Inr (map (\<lambda>c. if word_char c then c else 95) (name @ path_format) @ 95 # lower m))"

text \<open>The text between the braces of a path; 123 and 125 are the braces.\<close>

fun brace_names :: "str option \<Rightarrow> str \<Rightarrow> str list" where
  "brace_names acc [] = []"
| "brace_names None (c # cs) = (if c = 123 then brace_names (Some []) cs else brace_names None cs)"
| "brace_names (Some a) (c # cs) =
     (if c = 125 then a # brace_names None cs else brace_names (Some (a @ [c])) cs)"

definition get_path_param_names :: "str \<Rightarrow> str set" where
  "get_path_param_names path = set (brace_names None path)"

text \<open>JSON-like data for \<open>deep_dict_update\<close>, with any leaves.\<close>

datatype 'a data = DAtom 'a | DList "'a data list" | DDict "(str \<times> 'a data) list"

function deep_dict_update :: "(str \<times> 'a data) list \<Rightarrow> (str \<times> 'a data) list \<Rightarrow> (str \<times> 'a data) list" where
  "deep_dict_update main [] = main"
| "deep_dict_update main ((k, v) # upd) =
     deep_dict_update
       (case (map_of main k, v) of
          (Some (DDict m), DDict u) \<Rightarrow> dict_set k (DDict (deep_dict_update m u)) main
        | (Some (DList xs), DList ys) \<Rightarrow> dict_set k (DList (xs @ ys)) main
        | _ \<Rightarrow> dict_set k v main) upd"
  by pat_completeness auto
termination
  by (relation "measure (\<lambda>(m, u). size_list (size_prod (\<lambda>_. 0) size) u)") auto

subsection \<open>Routes\<close>

text \<open>Additional responses by status: the description of each and whether it has a model.\<close>

type_synonym responses = "(status_code, nat \<times> bool) dict"

record api_route =
  ro_path :: str
  ro_endpoint :: nat
  ro_name :: str
  ro_methods :: "str list"
  ro_tags :: "str list"
  ro_dependencies :: "depends list"
  ro_responses :: responses
  ro_deprecated :: "bool option"
  ro_in_schema :: bool
  ro_class :: "nat dflt"
  ro_callbacks :: "nat list"
  ro_uid_fn :: "nat dflt"
  ro_status :: "int option"
  ro_model :: "nat option"
  ro_docs :: nat
  ro_operation_id :: "str option"
  ro_unique_id :: str
  ro_compiled :: compiled
  ro_dependant :: dependant
  ro_embed :: bool

text \<open>
  What the constructor uses of the environment: the path convertors, the callables and the
  interpreter's stack for the dependants, the names of functions, and the user's functions for
  unique ids (number 0 is \<open>generate_unique_id\<close>).
\<close>

record api_env =
  ae_tab :: "(str, convertor) dict"
  ae_denv :: denv
  ae_limit :: nat
  ae_fname :: "nat \<Rightarrow> str"
  ae_uid :: "nat \<Rightarrow> str \<Rightarrow> str \<Rightarrow> str list \<Rightarrow> str res"

definition unique_id ::
  "api_env \<Rightarrow> nat dflt \<Rightarrow> str option \<Rightarrow> str \<Rightarrow> str \<Rightarrow> str list \<Rightarrow> str res" where
  "unique_id ae fn operation_id name fmt methods =
     (if get_or operation_id [] \<noteq> [] then Inr (the operation_id)
      else if default_value fn = 0 then generate_unique_id name fmt methods
      else ae_uid ae (default_value fn) name fmt methods)"

text \<open>The dependant of a route: the dependencies declared for it come before those of the endpoint.\<close>

fun prepend_deps :: "dependant list \<Rightarrow> dependant \<Rightarrow> dependant" where
  "prepend_deps ds (Dependant pa deps nm c sp own par uc pth sc) = Dependant pa (ds @ deps) nm c sp own par uc pth sc"

definition route_dependant :: "api_env \<Rightarrow> str \<Rightarrow> nat \<Rightarrow> depends list \<Rightarrow> dependant res" where
  "route_dependant ae fmt endpoint deps =
     rbind (get_dependant (ae_denv ae) (ae_limit ae) fmt endpoint None None None True (Some (S ''function''))) (\<lambda>d.
     rbind (rmap (\<lambda>dep. get_parameterless_sub_dependant (ae_denv ae) (ae_limit ae) dep fmt) (rev deps)) (\<lambda>subs.
     Inr (prepend_deps (rev subs) d)))"

definition body_error_unless :: "bool \<Rightarrow> unit res" where
  "body_error_unless allowed = rassert allowed (AssertionError (S ''Status code must not have a response body''))"

fun check_responses :: "responses \<Rightarrow> unit res" where
  "check_responses [] = Inr ()"
| "check_responses ((st, d, has_model) # rs) =
     rbind (if has_model then rbind (is_body_allowed_for_status_code st) body_error_unless else Inr ()) (\<lambda>_. check_responses rs)"

definition api_route_init ::
  "api_env \<Rightarrow> str \<Rightarrow> nat \<Rightarrow> str option \<Rightarrow> str list option \<Rightarrow> str list \<Rightarrow> depends list \<Rightarrow> responses \<Rightarrow> bool option \<Rightarrow> bool
   \<Rightarrow> nat dflt \<Rightarrow> nat list \<Rightarrow> nat dflt \<Rightarrow> int option \<Rightarrow> nat option \<Rightarrow> nat \<Rightarrow> str option \<Rightarrow> api_route res" where
  "api_route_init ae path endpoint name methods tags deps responses depr schema cls cbs uid status model docs op =
     (let nm = get_or name (ae_fname ae endpoint); ms = remdups (map upper (get_or methods [S ''GET''])) in
      rbind (compile_path (ae_tab ae) path) (\<lambda>c.
      rbind (unique_id ae uid op nm (cp_format c) ms) (\<lambda>u.
      rbind (if model = None then Inr True
             else is_body_allowed_for_status_code (case status of None \<Rightarrow> StNone | Some n \<Rightarrow> StInt n)) (\<lambda>allowed.
      rbind (body_error_unless allowed) (\<lambda>_.
      rbind (check_responses responses) (\<lambda>_.
      rbind (route_dependant ae (cp_format c) endpoint deps) (\<lambda>d.
      Inr \<lparr>ro_path = path, ro_endpoint = endpoint, ro_name = nm, ro_methods = ms, ro_tags = tags, ro_dependencies = deps,
           ro_responses = responses, ro_deprecated = depr, ro_in_schema = schema, ro_class = cls, ro_callbacks = cbs,
           ro_uid_fn = uid, ro_status = status, ro_model = model, ro_docs = docs, ro_operation_id = op, ro_unique_id = u,
           ro_compiled = c, ro_dependant = d,
           ro_embed = should_embed_body_fields
             (pa_body (dp_params (fst (get_flat_dependant (de_callable (ae_denv ae)) False d {} []))))\<rparr>)))))))"

record api_ws_route =
  wr_path :: str
  wr_endpoint :: nat
  wr_name :: str
  wr_dependencies :: "depends list"
  wr_compiled :: compiled
  wr_dependant :: dependant

definition api_ws_route_init :: "api_env \<Rightarrow> str \<Rightarrow> nat \<Rightarrow> str option \<Rightarrow> depends list \<Rightarrow> api_ws_route res" where
  "api_ws_route_init ae path endpoint name deps =
     rbind (compile_path (ae_tab ae) path) (\<lambda>c.
     rbind (route_dependant ae (cp_format c) endpoint deps) (\<lambda>d.
     Inr \<lparr>wr_path = path, wr_endpoint = endpoint, wr_name = get_or name (ae_fname ae endpoint), wr_dependencies = deps,
          wr_compiled = c, wr_dependant = d\<rparr>))"

text \<open>Plain routes come with \<open>_routing_base\<close>; anything else in the list, such as a mount, is \<open>OtherRoute\<close>.\<close>

datatype any_route =
    AnApi api_route | APlain route bool | AnApiWs api_ws_route | AWs ws_route | OtherRoute str

subsection \<open>Lifespans\<close>

text \<open>
  The default lifespan of a router runs the handlers the router has when the application starts,
  so it names the router; \<open>LUser\<close> is a lifespan given by the user, \<open>LMerge\<close> the merge of two.
\<close>

datatype lifespan = LDefault nat | LUser nat | LMerge lifespan lifespan

text \<open>
  \<open>_merge_lifespan_context\<close>: the first context is entered before and left after the second. If the
  first swallows the failure of the second, the generator ends without having yielded. The
  states are merged, those of the first winning.
\<close>

definition merged_lifespan :: "'s context_manager \<Rightarrow> 's context_manager \<Rightarrow> 's context_manager" where
  "merged_lifespan a b =
     \<lparr>cm_enter = (\<lambda>s. case cm_enter a s of
         (Inl e, s1) \<Rightarrow> (Inl e, s1)
       | (Inr x, s1) \<Rightarrow>
           (case cm_enter b s1 of
              (Inr y, s2) \<Rightarrow> (Inr (x \<or> y), s2)
            | (Inl e, s2) \<Rightarrow>
                (case leave_context a (Some e) s2 of
                   (Some e', s3) \<Rightarrow> (Inl e', s3)
                 | (None, s3) \<Rightarrow> (Inl (RuntimeError (S ''generator didn't yield'')), s3)))),
      cm_exit = (\<lambda>e s. case leave_context b e s of (e1, s1) \<Rightarrow>
         (case leave_context a e1 s1 of
            (Some e', s2) \<Rightarrow> (if Some e' = e then Inr False else Inl e', s2)
          | (None, s2) \<Rightarrow> (Inr (e \<noteq> None), s2)))\<rparr>"

definition merged_state :: "('k, 'v) dict option \<Rightarrow> ('k, 'v) dict option \<Rightarrow> ('k, 'v) dict option" where
  "merged_state original nested =
     (if nested = None \<and> original = None then None else Some (dict_update (get_or original []) (get_or nested [])))"

fun lifespan_cm :: "(nat \<Rightarrow> 's handlers) \<Rightarrow> (nat \<Rightarrow> 's context_manager) \<Rightarrow> lifespan \<Rightarrow> 's context_manager" where
  "lifespan_cm hs user (LDefault i) = default_lifespan (hs i)"
| "lifespan_cm hs user (LUser u) = user u"
| "lifespan_cm hs user (LMerge a b) = merged_lifespan (lifespan_cm hs user a) (lifespan_cm hs user b)"

subsection \<open>The router\<close>

record api_router =
  ar_id :: nat
  ar_prefix :: str
  ar_routes :: "any_route list"
  ar_tags :: "str list"
  ar_dependencies :: "depends list"
  ar_responses :: responses
  ar_callbacks :: "nat list"
  ar_deprecated :: "bool option"
  ar_in_schema :: bool
  ar_class :: "nat dflt"
  ar_uid_fn :: "nat dflt"
  ar_startup :: "nat list"
  ar_shutdown :: "nat list"
  ar_lifespan :: lifespan

definition prefix_ok :: "str \<Rightarrow> unit res" where
  "prefix_ok p =
     (if p = [] then Inr ()
      else rbind (rassert (startswith p (S ''/'')) (AssertionError (S ''A path prefix must start with /''))) (\<lambda>_.
             rassert (\<not> endswith p (S ''/'')) (AssertionError (S ''A path prefix must not end with /''))))"

text \<open>The constructor of \<open>Router\<close>, which sets the handlers to the lists it is given.\<close>

definition base_router_init :: "any_route list option \<Rightarrow> nat list option \<Rightarrow> nat list option \<Rightarrow> lifespan \<Rightarrow> api_router \<Rightarrow> api_router" where
  "base_router_init routes on_start on_stop ls r =
     r\<lparr>ar_routes := get_or routes [], ar_startup := get_or on_start [], ar_shutdown := get_or on_stop [], ar_lifespan := ls\<rparr>"

definition blank_router :: "nat \<Rightarrow> api_router" where
  "blank_router i = \<lparr>ar_id = i, ar_prefix = [], ar_routes = [], ar_tags = [], ar_dependencies = [], ar_responses = [],
     ar_callbacks = [], ar_deprecated = None, ar_in_schema = True, ar_class = Default 0, ar_uid_fn = Default 0,
     ar_startup = [], ar_shutdown = [], ar_lifespan = LDefault i\<rparr>"

definition api_router_init ::
  "nat \<Rightarrow> str \<Rightarrow> str list \<Rightarrow> depends list \<Rightarrow> responses \<Rightarrow> nat list \<Rightarrow> any_route list option \<Rightarrow> nat list option \<Rightarrow> nat list option
   \<Rightarrow> nat option \<Rightarrow> bool option \<Rightarrow> bool \<Rightarrow> nat dflt \<Rightarrow> nat dflt \<Rightarrow> api_router res" where
  "api_router_init i prefix tags deps responses cbs routes on_start on_stop lifespan depr schema cls uid =
     (let r0 = (blank_router i)\<lparr>ar_startup := get_or on_start [], ar_shutdown := get_or on_stop []\<rparr>;
          ls = (case lifespan of None \<Rightarrow> LDefault i | Some u \<Rightarrow> LUser u);
          r1 = base_router_init routes None None ls r0
      in rbind (prefix_ok prefix) (\<lambda>_.
         Inr (r1\<lparr>ar_prefix := prefix, ar_tags := tags, ar_dependencies := deps, ar_deprecated := depr, ar_in_schema := schema,
                 ar_responses := responses, ar_callbacks := cbs, ar_class := cls, ar_uid_fn := uid\<rparr>)))"

definition api_add_event_handler :: "str \<Rightarrow> nat \<Rightarrow> api_router \<Rightarrow> api_router res" where
  "api_add_event_handler ev f r =
     (if ev = S ''startup'' then Inr (r\<lparr>ar_startup := ar_startup r @ [f]\<rparr>)
      else if ev = S ''shutdown'' then Inr (r\<lparr>ar_shutdown := ar_shutdown r @ [f]\<rparr>)
      else Inl (AssertionError []))"

text \<open>Python's \<open>or\<close> on optional flags, and \<open>{**a, **b}\<close>.\<close>

definition or_flag :: "bool option \<Rightarrow> bool option \<Rightarrow> bool option" where
  "or_flag a b = (if a = Some True then a else b)"

definition add_route_to :: "any_route res \<Rightarrow> api_router \<Rightarrow> unit res \<times> api_router" where
  "add_route_to ro r = (case ro of Inl e \<Rightarrow> (Inl e, r) | Inr x \<Rightarrow> (Inr (), r\<lparr>ar_routes := ar_routes r @ [x]\<rparr>))"

definition add_api_route ::
  "api_env \<Rightarrow> str \<Rightarrow> nat \<Rightarrow> str option \<Rightarrow> str list option \<Rightarrow> str list \<Rightarrow> depends list \<Rightarrow> responses \<Rightarrow> bool option \<Rightarrow> bool
   \<Rightarrow> nat dflt \<Rightarrow> nat list \<Rightarrow> nat dflt \<Rightarrow> int option \<Rightarrow> nat option \<Rightarrow> nat \<Rightarrow> str option \<Rightarrow> api_router \<Rightarrow> unit res \<times> api_router" where
  "add_api_route ae path endpoint name methods tags deps responses depr schema cls cbs uid status model docs op r =
     add_route_to
       (rbind (api_route_init ae (ar_prefix r @ path) endpoint name methods (ar_tags r @ tags) (ar_dependencies r @ deps)
                 (dict_update responses (ar_responses r)) (or_flag depr (ar_deprecated r)) (schema \<and> ar_in_schema r)
                 (get_value_or_default cls [ar_class r]) (ar_callbacks r @ cbs) (get_value_or_default uid [ar_uid_fn r])
                 status model docs op) (\<lambda>x. Inr (AnApi x))) r"

definition add_api_websocket_route ::
  "api_env \<Rightarrow> str \<Rightarrow> nat \<Rightarrow> str option \<Rightarrow> depends list \<Rightarrow> api_router \<Rightarrow> unit res \<times> api_router" where
  "add_api_websocket_route ae path endpoint name deps r =
     add_route_to (rbind (api_ws_route_init ae (ar_prefix r @ path) endpoint name (ar_dependencies r @ deps)) (\<lambda>x. Inr (AnApiWs x))) r"

text \<open>
  \<open>include_router\<close>. The options of the call are one record. A plain route gets the prefix of the call
  only; other entries of the list are skipped. Routes added before an exception stay.
\<close>

record include_options =
  io_prefix :: str
  io_tags :: "str list"
  io_dependencies :: "depends list"
  io_responses :: responses
  io_callbacks :: "nat list"
  io_deprecated :: "bool option"
  io_in_schema :: bool
  io_class :: "nat dflt"
  io_uid_fn :: "nat dflt"

fun route_path_of :: "any_route \<Rightarrow> str" where
  "route_path_of (AnApi x) = ro_path x"
| "route_path_of (APlain rt b) = rt_path rt"
| "route_path_of (AnApiWs x) = wr_path x"
| "route_path_of (AWs rt) = ws_path rt"
| "route_path_of (OtherRoute p) = p"

fun include_route :: "api_env \<Rightarrow> include_options \<Rightarrow> api_router \<Rightarrow> any_route \<Rightarrow> api_router \<Rightarrow> unit res \<times> api_router" where
  "include_route ae o' src (AnApi x) r =
     add_api_route ae (io_prefix o' @ ro_path x) (ro_endpoint x) (Some (ro_name x)) (Some (ro_methods x)) (io_tags o' @ ro_tags x)
       (io_dependencies o' @ ro_dependencies x) (dict_update (ro_responses x) (io_responses o'))
       (or_flag (or_flag (ro_deprecated x) (io_deprecated o')) (ar_deprecated r))
       (ro_in_schema x \<and> ar_in_schema r \<and> io_in_schema o')
       (get_value_or_default (ro_class x) [ar_class src, io_class o', ar_class r]) (io_callbacks o' @ ro_callbacks x)
       (get_value_or_default (ro_uid_fn x) [ar_uid_fn src, io_uid_fn o', ar_uid_fn r])
       (ro_status x) (ro_model x) (ro_docs x) (ro_operation_id x) r"
| "include_route ae o' src (APlain rt schema) r =
     add_route_to (rbind (route_init (ae_tab ae) (io_prefix o' @ rt_path rt) (rt_endpoint rt) True (ae_fname ae (rt_endpoint rt))
                            (Some (get_or (rt_methods rt) [])) (Some (rt_name rt))) (\<lambda>x. Inr (APlain x schema))) r"
| "include_route ae o' src (AnApiWs x) r =
     add_api_websocket_route ae (io_prefix o' @ wr_path x) (wr_endpoint x) (Some (wr_name x)) (io_dependencies o' @ wr_dependencies x) r"
| "include_route ae o' src (AWs rt) r =
     add_route_to (rbind (ws_route_init (ae_tab ae) (io_prefix o' @ ws_path rt) (ws_endpoint rt) (ae_fname ae (ws_endpoint rt)) (Some (ws_name rt)))
       (\<lambda>x. Inr (AWs x))) r"
| "include_route ae o' src (OtherRoute p) r = (Inr (), r)"

fun include_loop :: "api_env \<Rightarrow> include_options \<Rightarrow> api_router \<Rightarrow> any_route list \<Rightarrow> api_router \<Rightarrow> unit res \<times> api_router" where
  "include_loop ae o' src [] r = (Inr (), r)"
| "include_loop ae o' src (x # xs) r =
     (case include_route ae o' src x r of
        (Inl e, r') \<Rightarrow> (Inl e, r')
      | (Inr _, r') \<Rightarrow> include_loop ae o' src xs r')"

definition include_check :: "include_options \<Rightarrow> api_router \<Rightarrow> unit res" where
  "include_check o' src =
     (if io_prefix o' \<noteq> [] then prefix_ok (io_prefix o')
      else rassert (\<not> list_ex (\<lambda>x. route_path_of x = []) (ar_routes src))
             (AstraAPIError (S ''Prefix and path cannot be both empty'')))"

definition include_router :: "api_env \<Rightarrow> include_options \<Rightarrow> api_router \<Rightarrow> api_router \<Rightarrow> unit res \<times> api_router" where
  "include_router ae o' src r =
     (case include_check o' src of
        Inl e \<Rightarrow> (Inl e, r)
      | Inr _ \<Rightarrow>
          (case include_loop ae o' src (ar_routes src) r of
             (Inl e, r') \<Rightarrow> (Inl e, r')
           | (Inr _, r') \<Rightarrow>
               (Inr (), r'\<lparr>ar_startup := ar_startup r' @ ar_startup src, ar_shutdown := ar_shutdown r' @ ar_shutdown src,
                          ar_lifespan := LMerge (ar_lifespan r') (ar_lifespan src)\<rparr>)))"

subsection \<open>Properties\<close>

lemma get_value_or_default_given:
  "get_value_or_default x xs = Given v \<longleftrightarrow> first_given (x # xs) = Some (Given v)"
proof -
  have "first_given ys \<noteq> Some (Default w)" for ys and w :: 'a
    by (induction ys rule: first_given.induct) auto
  then show ?thesis
    by (cases "first_given (x # xs)"; cases x) (auto simp: get_value_or_default_def)
qed

lemma get_dependant_call: "get_dependant env n path call name own par uc sc = Inr d \<Longrightarrow> dp_call d = call"
proof (cases n)
  case (Suc m)
  let ?rec = "\<lambda>(dep :: depends) nm. get_dependant env m path (dd_call dep) (Some nm) (Some (dd_scopes dep)) (Some (get_or par [] @ get_or own [])) (dd_use_cache dep) (dd_scope dep)"
  assume "get_dependant env n path call name own par uc sc = Inr d"
  then have run: "rfold (add_param env ?rec) (de_sig env path call) (Dependant no_params [] name call no_specials own par uc path sc) = Inr d"
    by (simp add: Suc Let_def)
  show ?thesis
    by (rule rfold_invariant [where P = "\<lambda>b. dp_call b = call", OF _ _ run]) (simp_all add: add_param_keeps)
qed simp

text \<open>The declared dependencies come first among those of the route, in the order declared.\<close>

lemma route_dependant_calls:
  assumes "route_dependant ae fmt ep deps = Inr d"
  shows "dp_call d = ep \<and> (\<exists>rest. map dp_call (dp_deps d) = map dd_call deps @ rest)"
proof -
  from assms obtain d0 subs where d0: "get_dependant (ae_denv ae) (ae_limit ae) fmt ep None None None True (Some (S ''function'')) = Inr d0"
    and subs: "rmap (\<lambda>dep. get_parameterless_sub_dependant (ae_denv ae) (ae_limit ae) dep fmt) (rev deps) = Inr subs"
    and d: "d = prepend_deps (rev subs) d0" by (auto simp: route_dependant_def)
  have "list_all2 (\<lambda>dep s. dp_call s = dd_call dep) (rev deps) subs"
    using subs by (auto simp: rmap_Inr_iff get_parameterless_sub_dependant_def get_dependant_call elim!: list_all2_mono)
  then have "map dp_call subs = map dd_call (rev deps)"
    by (induction rule: list_all2_induct) auto
  then have "map dp_call (rev subs) = map dd_call deps" by (simp add: rev_map [symmetric])
  with d get_dependant_call [OF d0] show ?thesis by (cases d0) auto
qed

text \<open>How a route of the included router appears in the including one.\<close>

fun included :: "include_options \<Rightarrow> api_router \<Rightarrow> any_route \<Rightarrow> any_route \<Rightarrow> bool" where
  "included o' r (AnApi x) (AnApi y) \<longleftrightarrow>
     ro_path y = ar_prefix r @ io_prefix o' @ ro_path x \<and> ro_endpoint y = ro_endpoint x \<and> ro_name y = ro_name x
     \<and> ro_methods y = remdups (map upper (ro_methods x)) \<and> ro_tags y = ar_tags r @ io_tags o' @ ro_tags x
     \<and> ro_dependencies y = ar_dependencies r @ io_dependencies o' @ ro_dependencies x
     \<and> (\<exists>rest. map dp_call (dp_deps (ro_dependant y)) = map dd_call (ro_dependencies y) @ rest)
     \<and> dp_call (ro_dependant y) = ro_endpoint x
     \<and> (ro_in_schema y \<longleftrightarrow> ro_in_schema x \<and> ar_in_schema r \<and> io_in_schema o')"
| "included o' r (AnApiWs x) (AnApiWs y) \<longleftrightarrow>
     wr_path y = ar_prefix r @ io_prefix o' @ wr_path x \<and> wr_endpoint y = wr_endpoint x \<and> wr_name y = wr_name x
     \<and> wr_dependencies y = ar_dependencies r @ io_dependencies o' @ wr_dependencies x
     \<and> (\<exists>rest. map dp_call (dp_deps (wr_dependant y)) = map dd_call (wr_dependencies y) @ rest)
     \<and> dp_call (wr_dependant y) = wr_endpoint x"
| "included o' r (APlain x a) (APlain y b) \<longleftrightarrow>
     rt_path y = io_prefix o' @ rt_path x \<and> rt_endpoint y = rt_endpoint x \<and> rt_name y = rt_name x \<and> a = b"
| "included o' r (AWs x) (AWs y) \<longleftrightarrow> ws_path y = io_prefix o' @ ws_path x \<and> ws_endpoint y = ws_endpoint x \<and> ws_name y = ws_name x"
| "included o' r x y = False"

fun is_other :: "any_route \<Rightarrow> bool" where
  "is_other (OtherRoute p) = True"
| "is_other x = False"

lemma api_route_init_fields:
  assumes "api_route_init ae path ep name methods tags deps resp depr schema cls cbs uid st model docs op = Inr y"
  shows "ro_path y = path \<and> ro_endpoint y = ep \<and> ro_name y = get_or name (ae_fname ae ep)
    \<and> ro_methods y = remdups (map upper (get_or methods [S ''GET''])) \<and> ro_tags y = tags \<and> ro_dependencies y = deps
    \<and> (\<exists>rest. map dp_call (dp_deps (ro_dependant y)) = map dd_call deps @ rest) \<and> dp_call (ro_dependant y) = ep
    \<and> ro_in_schema y = schema"
proof -
  from assms obtain c :: compiled and d where "route_dependant ae (cp_format c) ep deps = Inr d" "ro_dependant y = d"
    and y: "ro_path y = path" "ro_endpoint y = ep" "ro_name y = get_or name (ae_fname ae ep)"
      "ro_methods y = remdups (map upper (get_or methods [S ''GET'']))" "ro_tags y = tags" "ro_dependencies y = deps" "ro_in_schema y = schema"
    by (auto simp: api_route_init_def Let_def)
  from route_dependant_calls [OF this(1)] this(2) y show ?thesis by simp
qed

lemma api_ws_route_init_fields:
  assumes "api_ws_route_init ae path ep name deps = Inr y"
  shows "wr_path y = path \<and> wr_endpoint y = ep \<and> wr_name y = get_or name (ae_fname ae ep) \<and> wr_dependencies y = deps
    \<and> (\<exists>rest. map dp_call (dp_deps (wr_dependant y)) = map dd_call deps @ rest) \<and> dp_call (wr_dependant y) = ep"
proof -
  from assms obtain c :: compiled and d where "route_dependant ae (cp_format c) ep deps = Inr d" "wr_dependant y = d"
    and y: "wr_path y = path" "wr_endpoint y = ep" "wr_name y = get_or name (ae_fname ae ep)" "wr_dependencies y = deps"
    by (auto simp: api_ws_route_init_def)
  from route_dependant_calls [OF this(1)] this(2) y show ?thesis by simp
qed

lemma add_route_to_Inr:
  "add_route_to ro r = (Inr u, r') \<longleftrightarrow> (\<exists>x. ro = Inr x \<and> r' = r\<lparr>ar_routes := ar_routes r @ [x]\<rparr>)"
  by (auto simp: add_route_to_def split: sum.splits)

lemma include_route_step:
  assumes "include_route ae o' src x r = (Inr u, r')"
  shows "\<exists>ys. r' = r\<lparr>ar_routes := ar_routes r @ ys\<rparr> \<and> list_all2 (included o' r) (filter (\<lambda>x. \<not> is_other x) [x]) ys"
proof (cases x)
  case (AnApi a)
  with assms obtain y where "api_route_init ae (ar_prefix r @ io_prefix o' @ ro_path a) (ro_endpoint a) (Some (ro_name a)) (Some (ro_methods a))
      (ar_tags r @ io_tags o' @ ro_tags a) (ar_dependencies r @ io_dependencies o' @ ro_dependencies a)
      (dict_update (dict_update (ro_responses a) (io_responses o')) (ar_responses r))
      (or_flag (or_flag (or_flag (ro_deprecated a) (io_deprecated o')) (ar_deprecated r)) (ar_deprecated r))
      ((ro_in_schema a \<and> ar_in_schema r \<and> io_in_schema o') \<and> ar_in_schema r)
      (get_value_or_default (get_value_or_default (ro_class a) [ar_class src, io_class o', ar_class r]) [ar_class r])
      (ar_callbacks r @ io_callbacks o' @ ro_callbacks a)
      (get_value_or_default (get_value_or_default (ro_uid_fn a) [ar_uid_fn src, io_uid_fn o', ar_uid_fn r]) [ar_uid_fn r])
      (ro_status a) (ro_model a) (ro_docs a) (ro_operation_id a) = Inr y"
    and r': "r' = r\<lparr>ar_routes := ar_routes r @ [AnApi y]\<rparr>" by (auto simp: add_api_route_def add_route_to_Inr)
  from api_route_init_fields [OF this(1)] r' AnApi show ?thesis by (intro exI [of _ "[AnApi y]"]) auto
next
  case (AnApiWs a)
  with assms obtain y where "api_ws_route_init ae (ar_prefix r @ io_prefix o' @ wr_path a) (wr_endpoint a) (Some (wr_name a))
      (ar_dependencies r @ io_dependencies o' @ wr_dependencies a) = Inr y"
    and r': "r' = r\<lparr>ar_routes := ar_routes r @ [AnApiWs y]\<rparr>" by (auto simp: add_api_websocket_route_def add_route_to_Inr)
  from api_ws_route_init_fields [OF this(1)] r' AnApiWs show ?thesis by (intro exI [of _ "[AnApiWs y]"]) auto
next
  case (APlain rt b)
  with assms show ?thesis by (auto simp: add_route_to_Inr route_init_def)
next
  case (AWs rt)
  with assms show ?thesis by (auto simp: add_route_to_Inr ws_route_init_def)
next
  case (OtherRoute p)
  with assms show ?thesis by (auto intro: exI [of _ "[]"])
qed

lemma included_routes_only [simp]: "included o' (r\<lparr>ar_routes := z\<rparr>) x y = included o' r x y"
  by (cases x; cases y) simp_all

lemma include_loop_steps:
  assumes "include_loop ae o' src xs r = (Inr u, r')"
  shows "\<exists>ys. r' = r\<lparr>ar_routes := ar_routes r @ ys\<rparr> \<and> list_all2 (included o' r) (filter (\<lambda>x. \<not> is_other x) xs) ys"
  using assms
proof (induction xs arbitrary: r)
  case Nil
  then show ?case by (auto intro: exI [of _ "[]"])
next
  case (Cons x xs)
  obtain v r1 where step: "include_route ae o' src x r = (v, r1)" by fastforce
  with Cons.prems obtain w where v: "v = Inr w" by (cases v) auto
  from include_route_step [OF step [unfolded v]] obtain ys
    where r1: "r1 = r\<lparr>ar_routes := ar_routes r @ ys\<rparr>" and ys: "list_all2 (included o' r) (filter (\<lambda>x. \<not> is_other x) [x]) ys" by blast
  from Cons.IH [of r1] Cons.prems step v r1 obtain zs
    where "r' = r\<lparr>ar_routes := ar_routes r @ ys @ zs\<rparr>" "list_all2 (included o' r) (filter (\<lambda>x. \<not> is_other x) xs) zs"
    by auto
  with ys list_all2_appendI [OF ys] show ?case
    by (intro exI [of _ "ys @ zs"]) (auto split: if_splits)
qed

lemma include_router_steps:
  assumes "include_router ae o' src r = (Inr u, r')"
  shows "\<exists>ys. ar_routes r' = ar_routes r @ ys \<and> list_all2 (included o' r) (filter (\<lambda>x. \<not> is_other x) (ar_routes src)) ys
    \<and> ar_prefix r' = ar_prefix r \<and> ar_dependencies r' = ar_dependencies r"
proof -
  from assms obtain v r1 where loop: "include_loop ae o' src (ar_routes src) r = (Inr v, r1)"
    and r': "r' = r1\<lparr>ar_startup := ar_startup r1 @ ar_startup src, ar_shutdown := ar_shutdown r1 @ ar_shutdown src,
      ar_lifespan := LMerge (ar_lifespan r1) (ar_lifespan src)\<rparr>"
    by (auto simp: include_router_def split: sum.splits prod.splits)
  from include_loop_steps [OF loop] r' show ?thesis by auto
qed

lemma included_api_calls:
  assumes "included o' r x (AnApi y)" and "dep \<in> set (ar_dependencies r @ io_dependencies o')"
  shows "\<exists>s\<in>set (dp_deps (ro_dependant y)). dp_call s = dd_call dep"
proof -
  obtain z where "x = AnApi z" using assms(1) by (cases x) simp_all
  then obtain rest where "map dp_call (dp_deps (ro_dependant y)) = map dd_call (ar_dependencies r @ io_dependencies o' @ ro_dependencies z) @ rest"
    using assms(1) by auto
  from arg_cong [OF this, of set] assms(2) have "dd_call dep \<in> dp_call ` set (dp_deps (ro_dependant y))" by auto
  then show ?thesis by auto
qed


text \<open>Handlers that note in the state that they ran.\<close>

definition log_handlers :: "api_router \<Rightarrow> nat list handlers" where
  "log_handlers r = \<lparr>on_startup = map (\<lambda>f s. (Inr (), s @ [f])) (ar_startup r), on_shutdown = map (\<lambda>f s. (Inr (), s @ [f])) (ar_shutdown r)\<rparr>"

lemma run_log: "run_handlers (map (\<lambda>f s. (Inr (), s @ [f])) fs) s = (Inr (), s @ fs)"
  by (induction fs arbitrary: s) auto

lemma enter_log: "cm_enter (default_lifespan (log_handlers r)) s = (Inr False, s @ ar_startup r)"
  by (simp add: default_lifespan_def log_handlers_def run_log)

text \<open>
  The handlers a router runs when the application starts. Handlers given to the constructor are
  lost, since the base class resets the lists; and the handlers of an included router with the
  default lifespan run twice: once as handlers of the including router, to which they are
  added, and once by the merged lifespan of the included one.
\<close>

theorem startup_handlers_run:
  "(\<forall>i prefix tags deps resp cbs routes start stop ls depr schema cls uid r.
      api_router_init i prefix tags deps resp cbs routes start stop ls depr schema cls uid = Inr r \<longrightarrow> ar_startup r = [] \<and> ar_shutdown r = [])
   \<and> (\<forall>ae o' src r u r' user. include_router ae o' src r = (Inr u, r') \<longrightarrow> ar_lifespan r = LDefault (ar_id r) \<longrightarrow>
        ar_lifespan src = LDefault (ar_id src) \<longrightarrow> ar_id src \<noteq> ar_id r \<longrightarrow>
        cm_enter (lifespan_cm (\<lambda>i. if i = ar_id r then log_handlers r' else log_handlers src) user (ar_lifespan r')) []
          = (Inr False, ar_startup r @ ar_startup src @ ar_startup src))"
proof (intro conjI allI impI)
  fix i prefix tags deps resp cbs routes start stop ls depr schema cls uid r
  assume "api_router_init i prefix tags deps resp cbs routes start stop ls depr schema cls uid = Inr r"
  then show "ar_startup r = []" "ar_shutdown r = []" by (auto simp: api_router_init_def base_router_init_def Let_def)
next
  fix ae o' src r u r' user
  assume inc: "include_router ae o' src r = (Inr u, r')" and ls: "ar_lifespan r = LDefault (ar_id r)" "ar_lifespan src = LDefault (ar_id src)"
    and neq: "ar_id src \<noteq> ar_id r"
  from inc obtain v r1 where loop: "include_loop ae o' src (ar_routes src) r = (Inr v, r1)"
    and r': "r' = r1\<lparr>ar_startup := ar_startup r1 @ ar_startup src, ar_shutdown := ar_shutdown r1 @ ar_shutdown src,
      ar_lifespan := LMerge (ar_lifespan r1) (ar_lifespan src)\<rparr>"
    by (auto simp: include_router_def split: sum.splits prod.splits)
  from include_loop_steps [OF loop] have "ar_startup r1 = ar_startup r" "ar_lifespan r1 = ar_lifespan r" by auto
  with r' ls neq show "cm_enter (lifespan_cm (\<lambda>i. if i = ar_id r then log_handlers r' else log_handlers src) user (ar_lifespan r')) []
      = (Inr False, ar_startup r @ ar_startup src @ ar_startup src)"
    by (simp add: merged_lifespan_def enter_log)
qed

text \<open>A guarded WebSocket route, included under a prefix.\<close>

lemma compile_plain_path:
  assumes "123 \<notin> set path" and "startswith path (S ''/'')"
  shows "compile_path tab path = Inr \<lparr>cp_segs = [Lit path], cp_format = path, cp_convs = []\<rparr>"
proof -
  have "scan_path s lit = ([], lit @ s)" if "123 \<notin> set s" for s lit
    using that
  proof (induction s arbitrary: lit)
    case (Cons c s)
    then have "param_at (c # s) = None" by (simp add: param_at_def)
    with Cons show ?case by (subst scan_path.simps) simp
  qed (simp add: scan_path.simps)
  from this [OF assms(1), of "[]"] assms(2) show ?thesis by (simp add: compile_path_def)
qed

definition guard_env :: api_env where
  "guard_env = \<lparr>ae_tab = [], ae_denv = \<lparr>de_sig = (\<lambda>p c. []), de_callable = (\<lambda>c. PFunc KPlain None)\<rparr>, ae_limit = 1,
     ae_fname = (\<lambda>f. S ''f''), ae_uid = (\<lambda>n a b ms. Inr a)\<rparr>"

definition guard_options :: include_options where
  "guard_options = \<lparr>io_prefix = S ''/v1'', io_tags = [], io_dependencies = [\<lparr>dd_call = 5, dd_use_cache = True, dd_scope = None, dd_scopes = []\<rparr>],
     io_responses = [], io_callbacks = [], io_deprecated = None, io_in_schema = True, io_class = Default 0, io_uid_fn = Default 0\<rparr>"

definition guard_source :: "nat list \<Rightarrow> api_router" where
  "guard_source fs = (blank_router 2)\<lparr>ar_startup := fs, ar_routes := [AnApiWs \<lparr>wr_path = S ''/x'', wr_endpoint = 7, wr_name = S ''x'', wr_dependencies = [],
     wr_compiled = \<lparr>cp_segs = [], cp_format = [], cp_convs = []\<rparr>, wr_dependant = plain_dependant [] None 7\<rparr>]\<rparr>"

lemma guard_included: "\<exists>r'. include_router guard_env guard_options (guard_source fs) (blank_router 1) = (Inr (), r')"
proof -
  have "startswith (S ''/v1'') (S ''/'')" "\<not> endswith (S ''/v1'') (S ''/'')"
    by (simp_all add: startswith_def endswith_def S_def)
  then have chk: "include_check guard_options (guard_source fs) = Inr ()"
    by (simp add: include_check_def prefix_ok_def guard_options_def rassert_def)
  have "123 \<notin> set (S ''/v1'' @ S ''/x'')" "startswith (S ''/v1'' @ S ''/x'') (S ''/'')" by (simp_all add: S_def)
  from compile_plain_path [OF this] obtain y where
    "api_ws_route_init guard_env (S ''/v1'' @ S ''/x'') 7 (Some (S ''x'')) [\<lparr>dd_call = 5, dd_use_cache = True, dd_scope = None, dd_scopes = []\<rparr>] = Inr y"
    by (auto simp: api_ws_route_init_def route_dependant_def guard_env_def get_parameterless_sub_dependant_def Let_def)
  with chk show ?thesis
    by (simp add: include_router_def guard_source_def add_api_websocket_route_def add_route_to_def guard_options_def blank_router_def)
qed


theorem startup_handlers_run_witness:
  "\<exists>r'. include_router guard_env guard_options (guard_source [9]) (blank_router 1) = (Inr (), r')
    \<and> cm_enter (lifespan_cm (\<lambda>i. if i = 1 then log_handlers r' else log_handlers (guard_source [9])) (\<lambda>u. default_lifespan (log_handlers r')) (ar_lifespan r')) []
      = (Inr False, [9, 9])"
proof -
  obtain r' where inc: "include_router guard_env guard_options (guard_source [9]) (blank_router 1) = (Inr (), r')" using guard_included by blast
  have ids: "ar_id (blank_router 1) = 1" "ar_id (guard_source [9]) = 2" "ar_lifespan (blank_router 1) = LDefault 1"
    "ar_lifespan (guard_source [9]) = LDefault 2" "ar_startup (guard_source [9]) = [9]" "ar_startup (blank_router 1) = []"
    by (simp_all add: guard_source_def blank_router_def)
  show ?thesis
    using conjunct2 [OF startup_handlers_run, rule_format, OF inc, of "\<lambda>u. default_lifespan (log_handlers r')"] inc ids by auto
qed

end
