(* ===== verification/FastPath.thy ===== *)
theory FastPath
  imports Handlers
begin

text \<open>
  What \<open>astraapi/routing.py\<close> computes when a route is registered for the C++ fast path: the
  specifications of its parameters (\<open>_build_field_specs\<close>), the dependency graph
  (\<open>_build_dependency_graph\<close>), the flattened list of dependencies in the order in which they are
  resolved (\<open>_flatten_deps\<close>), and the validator for parameters of plain types
  (\<open>_make_param_validator\<close>).
\<close>

subsection \<open>Field specifications\<close>

record field_spec =
  fs_location :: str
  fs_alias :: str
  fs_tag :: "tag option"
  fs_name :: str
  fs_sequence :: bool
  fs_json :: bool
  fs_convert :: bool
  fs_required :: bool
  fs_default :: pyv

definition spec_required :: "str set option \<Rightarrow> field \<Rightarrow> bool" where
  "spec_required own f \<longleftrightarrow> f_required f \<and> (case own of None \<Rightarrow> True | Some names \<Rightarrow> f_name f \<in> names)"

definition spec_default :: "field \<Rightarrow> pyv" where
  "spec_default f = (if f_required f then VNone else f_default f)"

definition query_spec :: "str set option \<Rightarrow> field \<Rightarrow> field_spec" where
  "query_spec own f =
     \<lparr>fs_location = S ''query'', fs_alias = get_validation_alias f, fs_tag = f_tag f, fs_name = f_name f,
      fs_sequence = (f_seq f \<and> \<not> f_json f), fs_json = f_json f, fs_convert = False,
      fs_required = spec_required own f, fs_default = spec_default f\<rparr>"

definition header_spec :: "str set option \<Rightarrow> field \<Rightarrow> field_spec" where
  "header_spec own f =
     \<lparr>fs_location = S ''header'', fs_alias = get_validation_alias f, fs_tag = f_tag f, fs_name = f_name f,
      fs_sequence = (f_seq f \<and> \<not> f_json f), fs_json = False, fs_convert = get_or (f_convert f) True,
      fs_required = spec_required own f, fs_default = spec_default f\<rparr>"

text \<open>For cookies the C++ core looks the value up under the field name, which is therefore the alias.\<close>

definition cookie_spec :: "str set option \<Rightarrow> field \<Rightarrow> field_spec" where
  "cookie_spec own f =
     \<lparr>fs_location = S ''cookie'', fs_alias = get_validation_alias f, fs_tag = f_tag f,
      fs_name = (if get_validation_alias f \<noteq> [] then get_validation_alias f else f_name f),
      fs_sequence = False, fs_json = False, fs_convert = False,
      fs_required = spec_required own f, fs_default = spec_default f\<rparr>"

definition path_spec :: "field \<Rightarrow> field_spec" where
  "path_spec f =
     \<lparr>fs_location = S ''path'', fs_alias = get_validation_alias f, fs_tag = f_tag f, fs_name = f_name f,
      fs_sequence = False, fs_json = False, fs_convert = False, fs_required = True, fs_default = VNone\<rparr>"

text \<open>Parameters whose type is a model are left to the validator. \<open>own\<close> is the endpoint's own dependant.\<close>

definition scalar_fields :: "field list \<Rightarrow> field list" where
  "scalar_fields fs = filter (\<lambda>f. f_model f = None) fs"

definition own_names :: "(params \<Rightarrow> field list) \<Rightarrow> params option \<Rightarrow> str set option" where
  "own_names sel own = map_option (\<lambda>pa. f_name ` set (sel pa)) own"

definition build_field_specs :: "params \<Rightarrow> params option \<Rightarrow> field_spec list" where
  "build_field_specs pa own =
     map (query_spec (own_names pa_query own)) (scalar_fields (pa_query pa))
     @ map (header_spec (own_names pa_header own)) (scalar_fields (pa_header pa))
     @ map (cookie_spec (own_names pa_cookie own)) (scalar_fields (pa_cookie pa))
     @ map path_spec (pa_path pa)"

subsection \<open>The dependency graph\<close>

text \<open>\<open>fname\<close> is the \<open>__name__\<close> of a callable. A dependency without a name gets that of its callable or a number.\<close>

definition dep_label :: "(nat \<Rightarrow> str option) \<Rightarrow> string \<Rightarrow> nat \<Rightarrow> dependant \<Rightarrow> str" where
  "dep_label fname prefix i d =
     (if get_or (dp_name d) [] \<noteq> [] then get_or (dp_name d) []
      else if get_or (fname (dp_call d)) [] \<noteq> [] then get_or (fname (dp_call d)) []
      else S prefix @ dec i)"

definition sub_labels :: "(nat \<Rightarrow> str option) \<Rightarrow> dependant list \<Rightarrow> str list" where
  "sub_labels fname ds = map (\<lambda>(j, d). dep_label fname ''__subdep_'' j d) (enumerate 0 ds)"

fun collect_dep :: "(nat \<Rightarrow> str option) \<Rightarrow> nat \<Rightarrow> dependant \<Rightarrow> (str \<times> str list) list \<times> str set \<Rightarrow> (str \<times> str list) list \<times> str set"
  and collect_deps :: "(nat \<Rightarrow> str option) \<Rightarrow> nat \<Rightarrow> dependant list \<Rightarrow> (str \<times> str list) list \<times> str set \<Rightarrow> (str \<times> str list) list \<times> str set" where
  "collect_dep fname i (Dependant pa deps nm c sp own par uc pth sc) acc =
     (let name = dep_label fname ''__dep_'' i (Dependant pa deps nm c sp own par uc pth sc) in
      if name \<in> snd acc then acc
      else collect_deps fname 0 deps (fst acc @ [(name, sub_labels fname deps)], insert name (snd acc)))"
| "collect_deps fname i [] acc = acc"
| "collect_deps fname i (d # ds) acc = collect_deps fname (Suc i) ds (collect_dep fname i d acc)"

definition build_dependency_graph :: "(nat \<Rightarrow> str option) \<Rightarrow> dependant \<Rightarrow> (str \<times> str list) list" where
  "build_dependency_graph fname d = fst (collect_deps fname 0 (dp_deps d) ([], {}))"

subsection \<open>Flattening for the fast path\<close>

text \<open>The attributes of security schemes, which a node copies from its callable, are left out.\<close>

record dep_node =
  nd_name :: str
  nd_call :: nat
  nd_key :: cache_key
  nd_use_cache :: bool
  nd_aliases :: "str list"
  nd_child_names :: "str list"
  nd_children :: "(str \<times> cache_key) list"
  nd_params :: "str list"
  nd_required_query :: "str list"
  nd_required_header :: "str list"
  nd_required_cookie :: "str list"
  nd_required_body :: "str list"
  nd_defaults :: "(str, pyv) dict"
  nd_form :: bool
  nd_scopes :: "str list"
  nd_scope :: str
  nd_special :: specials
  nd_coro :: bool
  nd_gen :: bool

definition child_label :: "(nat \<Rightarrow> str option) \<Rightarrow> dependant \<Rightarrow> str" where
  "child_label fname d =
     (if get_or (dp_name d) [] \<noteq> [] then get_or (dp_name d) []
      else if get_or (fname (dp_call d)) [] \<noteq> [] then get_or (fname (dp_call d)) []
      else S ''__dep_'' @ dec (dp_call d))"

definition node_label :: "(nat \<Rightarrow> str option) \<Rightarrow> nat \<Rightarrow> dependant \<Rightarrow> str" where
  "node_label fname i d =
     (if get_or (dp_name d) [] \<noteq> [] then get_or (dp_name d) []
      else if get_or (fname (dp_call d)) [] \<noteq> [] then get_or (fname (dp_call d)) []
      else S ''__dep_'' @ dec i @ S ''_'' @ dec (dp_call d))"

definition alias_or_name :: "field \<Rightarrow> str" where
  "alias_or_name f = (if field_alias f \<noteq> [] then field_alias f else f_name f)"

definition node_of :: "(nat \<Rightarrow> pycallable) \<Rightarrow> (nat \<Rightarrow> str option) \<Rightarrow> nat \<Rightarrow> dependant \<Rightarrow> dep_node" where
  "node_of cl fname i d =
     (let pa = dp_params d; req = filter f_required; opt = filter (\<lambda>f. \<not> f_required f) in
      \<lparr>nd_name = node_label fname i d, nd_call = dp_call d, nd_key = cache_key_of cl d, nd_use_cache = dp_use_cache d,
       nd_aliases = [], nd_child_names = map (child_label fname) (dp_deps d),
       nd_children = dict_update (map (\<lambda>c. (child_label fname c, cache_key_of cl c)) (dp_deps d)) [],
       nd_params = remdups (map f_name (pa_query pa @ pa_header pa @ pa_cookie pa @ pa_path pa @ pa_body pa)),
       nd_required_query = remdups (map f_name (req (pa_query pa))),
       nd_required_header = remdups (map alias_or_name (req (pa_header pa))),
       nd_required_cookie = remdups (map alias_or_name (req (pa_cookie pa))),
       nd_required_body = remdups (map f_name (req (pa_body pa))),
       nd_defaults = dict_update (map (\<lambda>f. (f_name f, f_default f)) (opt (pa_query pa @ pa_header pa @ pa_cookie pa @ pa_body pa))) [],
       nd_form = list_ex is_form_field (pa_body pa),
       nd_scopes = get_or (dp_parent d) [] @ get_or (dp_own d) [],
       nd_scope = (if get_or (computed_scope cl d) [] \<noteq> [] then get_or (computed_scope cl d) [] else S ''function''),
       nd_special = dp_special d, nd_coro = is_coroutine_callable (cl (dp_call d)),
       nd_gen = (is_gen_callable (cl (dp_call d)) \<or> is_async_gen_callable (cl (dp_call d)))\<rparr>)"

text \<open>The name under which a dependency is met again is recorded with its node.\<close>

fun add_alias :: "cache_key \<Rightarrow> str \<Rightarrow> dep_node list \<Rightarrow> dep_node list" where
  "add_alias key nm [] = []"
| "add_alias key nm (n # ns) =
     (if nd_key n = key \<and> nd_use_cache n
      then (if nm \<in> set (nd_aliases n) then n else n\<lparr>nd_aliases := nd_aliases n @ [nm]\<rparr>) # ns
      else n # add_alias key nm ns)"

type_synonym flat_state = "dep_node list \<times> cache_key set"

fun flatten_dep :: "(nat \<Rightarrow> pycallable) \<Rightarrow> (nat \<Rightarrow> str option) \<Rightarrow> nat \<Rightarrow> dependant \<Rightarrow> flat_state \<Rightarrow> flat_state"
  and flatten_deps :: "(nat \<Rightarrow> pycallable) \<Rightarrow> (nat \<Rightarrow> str option) \<Rightarrow> nat \<Rightarrow> dependant list \<Rightarrow> flat_state \<Rightarrow> flat_state" where
  "flatten_dep cl fname i (Dependant pa deps nm c sp own par uc pth sc) st =
     (let d = Dependant pa deps nm c sp own par uc pth sc; key = cache_key_of cl d in
      if key \<in> snd st \<and> uc then
        (if get_or nm [] \<noteq> [] then (add_alias key (get_or nm []) (fst st), snd st) else st)
      else
        (let visited = (if uc then insert key (snd st) else snd st);
             st1 = (if uc \<or> key \<notin> visited then flatten_deps cl fname 0 deps (fst st, visited) else (fst st, visited))
         in (fst st1 @ [node_of cl fname i d], snd st1)))"
| "flatten_deps cl fname i [] st = st"
| "flatten_deps cl fname i (d # ds) st = flatten_deps cl fname (Suc i) ds (flatten_dep cl fname i d st)"

subsection \<open>The validator for plain parameters\<close>

text \<open>
  The core schema of a type adapter as far as the code looks at it: its type, whether it has one
  of the constraint keys, and the schema below \<open>nullable\<close> or \<open>list\<close>.
\<close>

datatype schema = Schema (sm_type: string) (sm_constrained: bool) (sm_inner: "schema option")

fun is_trivial_schema :: "schema \<Rightarrow> bool" where
  "is_trivial_schema (Schema t con inner) =
     (if t \<in> {''str'', ''int'', ''float'', ''bool''} then \<not> con
      else if t = ''nullable'' \<or> t = ''list'' then (case inner of None \<Rightarrow> False | Some i \<Rightarrow> is_trivial_schema i)
      else False)"

record param_info =
  pi_loc :: str
  pi_alias :: str
  pi_name :: str
  pi_required :: bool
  pi_default :: pyv
  pi_schema :: schema

definition param_info_of :: "(field \<Rightarrow> schema) \<Rightarrow> str \<Rightarrow> field \<Rightarrow> param_info" where
  "param_info_of sch loc f =
     \<lparr>pi_loc = loc, pi_alias = get_validation_alias f, pi_name = f_name f, pi_required = f_required f,
      pi_default = (if f_required f then VNone else f_default f), pi_schema = sch f\<rparr>"

definition param_infos :: "(field \<Rightarrow> schema) \<Rightarrow> params \<Rightarrow> param_info list" where
  "param_infos sch pa =
     map (param_info_of sch (S ''query'')) (scalar_fields (pa_query pa)) @ map (param_info_of sch (S ''header'')) (scalar_fields (pa_header pa))
     @ map (param_info_of sch (S ''cookie'')) (scalar_fields (pa_cookie pa)) @ map (param_info_of sch (S ''path'')) (scalar_fields (pa_path pa))"

definition kwarg :: "(str, pyv) dict \<Rightarrow> str \<Rightarrow> pyv" where
  "kwarg kw k = get_or (map_of kw k) VNone"

definition kwarg_value :: "(str, pyv) dict \<Rightarrow> param_info \<Rightarrow> pyv" where
  "kwarg_value kw p =
     (let (a, b) = (if pi_loc p = S ''query'' \<or> pi_loc p = S ''cookie'' then (pi_name p, pi_alias p) else (pi_alias p, pi_name p))
      in if kwarg kw a = VNone \<and> pi_alias p \<noteq> pi_name p then kwarg kw b else kwarg kw a)"

text \<open>
  \<open>int(v)\<close> and \<open>float(v)\<close>: on text the first is Python's, the rest are the parameters \<open>to_int\<close> and
  \<open>to_float\<close>. The result is the value or the type of the error.
\<close>

definition coerce_plain :: "(pyv \<Rightarrow> int option) \<Rightarrow> (pyv \<Rightarrow> nat option) \<Rightarrow> string \<Rightarrow> pyv \<Rightarrow> string + pyv" where
  "coerce_plain to_int to_float t v =
     (if t = ''int'' \<and> \<not> has_type TInt v then
        (case (case v of VStr s \<Rightarrow> (case py_int s of Inr n \<Rightarrow> Some n | Inl _ \<Rightarrow> None) | _ \<Rightarrow> to_int v) of
           Some n \<Rightarrow> Inr (VInt n) | None \<Rightarrow> Inl ''int_parsing'')
      else if t = ''float'' \<and> \<not> (has_type TInt v \<or> has_type TFloat v) then
        (case to_float v of Some x \<Rightarrow> Inr (VFloat x) | None \<Rightarrow> Inl ''float_parsing'')
      else if t = ''bool'' \<and> \<not> has_type TBool v then
        (case v of
           VStr s \<Rightarrow> if lower s \<in> {S ''true'', S ''1'', S ''yes'', S ''on''} then Inr (VBool True)
                     else if lower s \<in> {S ''false'', S ''0'', S ''no'', S ''off''} then Inr (VBool False)
                     else Inl ''bool_parsing''
         | _ \<Rightarrow> Inl ''bool_parsing'')
      else Inr v)"

definition validate_plain ::
  "(pyv \<Rightarrow> int option) \<Rightarrow> (pyv \<Rightarrow> nat option) \<Rightarrow> (str, pyv) dict \<Rightarrow> param_info \<Rightarrow> (str, pyv) dict \<times> err list \<Rightarrow> (str, pyv) dict \<times> err list" where
  "validate_plain ti tf kw p acc =
     (let v = kwarg_value kw p in
      if v = VNone then
        (if pi_required p then (fst acc, snd acc @ [Err (S ''missing'') [pi_loc p, pi_alias p]])
         else (dict_set (pi_name p) (pi_default p) (fst acc), snd acc))
      else (case coerce_plain ti tf (sm_type (pi_schema p)) v of
              Inr w \<Rightarrow> (dict_set (pi_name p) w (fst acc), snd acc)
            | Inl e \<Rightarrow> (fst acc, snd acc @ [Err (S e) [pi_loc p, pi_alias p]])))"

definition fast_validate ::
  "(pyv \<Rightarrow> int option) \<Rightarrow> (pyv \<Rightarrow> nat option) \<Rightarrow> (str, pyv) dict \<Rightarrow> param_info list \<Rightarrow> (str, pyv) dict \<times> err list" where
  "fast_validate ti tf kw ps = fold (validate_plain ti tf kw) ps ([], [])"

text \<open>The validator of a route all of whose parameters are plain; \<open>None\<close> without parameters or otherwise.\<close>

definition make_fast_validator ::
  "(pyv \<Rightarrow> int option) \<Rightarrow> (pyv \<Rightarrow> nat option) \<Rightarrow> (field \<Rightarrow> schema) \<Rightarrow> params
     \<Rightarrow> ((str, pyv) dict \<Rightarrow> (str, pyv) dict \<times> err list \<times> str set) option" where
  "make_fast_validator ti tf sch pa =
     (let ps = param_infos sch pa in
      if ps = [] \<or> list_ex (\<lambda>f. f_model f \<noteq> None) (param_fields pa) \<or> \<not> list_all (\<lambda>p. is_trivial_schema (pi_schema p)) ps then None
      else Some (\<lambda>kw. case fast_validate ti tf kw ps of
                        (vs, es) \<Rightarrow> (vs, es, pi_alias ` set ps \<union> pi_name ` set ps)))"

subsection \<open>Properties: the order of resolution\<close>

definition node_keys :: "dep_node list \<Rightarrow> cache_key set" where
  "node_keys ns = nd_key ` set ns"

definition child_keys :: "(nat \<Rightarrow> pycallable) \<Rightarrow> dependant \<Rightarrow> cache_key set" where
  "child_keys cl d = cache_key_of cl ` set (dp_deps d)"

definition node_sig :: "dep_node \<Rightarrow> cache_key \<times> bool \<times> (str \<times> cache_key) list" where
  "node_sig n = (nd_key n, nd_use_cache n, nd_children n)"

definition cached_keys :: "dep_node list \<Rightarrow> cache_key list" where
  "cached_keys ns = map nd_key (filter nd_use_cache ns)"

lemma add_alias_sig [simp]: "map node_sig (add_alias key nm ns) = map node_sig ns"
  by (induction ns) (auto simp: node_sig_def)

lemma sig_cached_keys: "cached_keys ns = map fst (filter (\<lambda>s. fst (snd s)) (map node_sig ns))"
  by (induction ns) (auto simp: cached_keys_def node_sig_def)

lemma sig_node_keys: "node_keys ns = fst ` set (map node_sig ns)"
  by (auto simp: node_keys_def node_sig_def image_image)

lemma node_keys_append [simp]: "node_keys (ns @ ms) = node_keys ns \<union> node_keys ms"
  by (simp add: node_keys_def image_Un)

lemma node_of_sig:
  "nd_key (node_of cl fname i d) = cache_key_of cl d" "nd_use_cache (node_of cl fname i d) = dp_use_cache d"
  by (simp_all add: node_of_def Let_def)

lemma dict_update_values: "snd ` set (dict_update ps d) \<subseteq> snd ` set ps \<union> snd ` set d"
proof (induction ps arbitrary: d)
  case (Cons p ps)
  obtain k v where p: "p = (k, v)" by fastforce
  have "snd ` set (dict_update (p # ps) d) \<subseteq> snd ` set ps \<union> snd ` set (dict_set k v d)"
    using Cons.IH [of "dict_set k v d"] by (simp add: dict_update_def p)
  also have "\<dots> \<subseteq> snd ` set (p # ps) \<union> snd ` set d" using dict_set_subset [of k v d] p by fastforce
  finally show ?case .
qed (simp add: dict_update_def)

lemma node_of_children: "snd ` set (nd_children (node_of cl fname i d)) \<subseteq> child_keys cl d"
proof -
  have "snd ` set (dict_update (map (\<lambda>c. (child_label fname c, cache_key_of cl c)) (dp_deps d)) []) \<subseteq> child_keys cl d"
    using dict_update_values [of "map (\<lambda>c. (child_label fname c, cache_key_of cl c)) (dp_deps d)" "[]"]
    by (simp add: child_keys_def image_image)
  then show ?thesis by (simp add: node_of_def Let_def)
qed

text \<open>
  A set of dependants closed under dependencies in which the dependencies depend on the cache
  key only, as they do when they come from the signature of the callable, and in which nothing
  depends on itself: the keys can be ranked.
\<close>

definition dependency_forest :: "(nat \<Rightarrow> pycallable) \<Rightarrow> dependant set \<Rightarrow> (cache_key \<Rightarrow> nat) \<Rightarrow> bool" where
  "dependency_forest cl T rank \<longleftrightarrow>
     (\<forall>t\<in>T. set (dp_deps t) \<subseteq> T \<and> (\<forall>s\<in>set (dp_deps t). rank (cache_key_of cl s) < rank (cache_key_of cl t)))
     \<and> (\<forall>s\<in>T. \<forall>t\<in>T. cache_key_of cl s = cache_key_of cl t \<longrightarrow> child_keys cl s = child_keys cl t)"

lemma forest_consistent:
  assumes "dependency_forest cl T rank" and "s \<in> T" and "t \<in> T" and "cache_key_of cl s = cache_key_of cl t"
  shows "child_keys cl s = child_keys cl t"
proof -
  from assms(1) have all: "\<forall>s\<in>T. \<forall>t\<in>T. cache_key_of cl s = cache_key_of cl t \<longrightarrow> child_keys cl s = child_keys cl t"
    unfolding dependency_forest_def by (rule conjunct2)
  show ?thesis by (rule mp [OF bspec [OF bspec [OF all assms(2)] assms(3)] assms(4)])
qed

definition node_ready :: "(nat \<Rightarrow> pycallable) \<Rightarrow> dependant set \<Rightarrow> dep_node list \<Rightarrow> dep_node \<Rightarrow> bool" where
  "node_ready cl T pre n \<longleftrightarrow>
     (\<exists>t\<in>T. nd_key n = cache_key_of cl t \<and> child_keys cl t \<subseteq> node_keys pre \<and> snd ` set (nd_children n) \<subseteq> child_keys cl t)"

definition topological :: "(nat \<Rightarrow> pycallable) \<Rightarrow> dependant set \<Rightarrow> dep_node list \<Rightarrow> bool" where
  "topological cl T ns \<longleftrightarrow> (\<forall>pre n post. ns = pre @ n # post \<longrightarrow> node_ready cl T pre n)"

lemma topological_snoc:
  assumes "topological cl T ns" and "d \<in> T" and "child_keys cl d \<subseteq> node_keys ns"
  shows "topological cl T (ns @ [node_of cl fname i d])"
  unfolding topological_def
proof (intro allI impI)
  fix pre n post
  assume eq: "ns @ [node_of cl fname i d] = pre @ n # post"
  show "node_ready cl T pre n"
  proof (cases post rule: rev_cases)
    case Nil
    with eq have "pre = ns" "n = node_of cl fname i d" by auto
    with assms(2,3) node_of_children show ?thesis unfolding node_ready_def by (metis node_of_sig(1))
  next
    case (snoc post' x)
    with eq have "ns = pre @ n # post'" by simp
    with assms(1) show ?thesis unfolding topological_def by blast
  qed
qed

lemma topological_sig:
  assumes eq: "map node_sig ns = map node_sig ms" and top: "topological cl T ns"
  shows "topological cl T ms"
  unfolding topological_def
proof (intro allI impI)
  fix pre n post
  assume ms: "ms = pre @ n # post"
  from eq ms obtain pre' n' post' where ns: "ns = pre' @ n' # post'" "map node_sig pre' = map node_sig pre" "node_sig n' = node_sig n"
    by (auto simp: map_eq_append_conv map_eq_Cons_conv)
  then have "node_keys pre' = node_keys pre" by (simp only: sig_node_keys)
  moreover have "node_ready cl T pre' n'" using top ns(1) unfolding topological_def by blast
  ultimately show "node_ready cl T pre n" using ns(3) by (simp add: node_ready_def node_sig_def)
qed

text \<open>
  What flattening keeps: \<open>P\<close> are the keys of the dependants whose own node is still to come.
\<close>

definition flat_inv :: "(nat \<Rightarrow> pycallable) \<Rightarrow> dependant set \<Rightarrow> cache_key set \<Rightarrow> flat_state \<Rightarrow> bool" where
  "flat_inv cl T P st \<longleftrightarrow> topological cl T (fst st) \<and> snd st \<subseteq> node_keys (fst st) \<union> P"

lemma flat_inv_known:
  assumes "flat_inv cl T P st" and "key \<in> snd st" and "\<forall>p\<in>P. rank key < (rank p :: nat)"
  shows "key \<in> node_keys (fst st)"
  using assms by (auto simp: flat_inv_def)

lemma flatten_topological:
  "dependency_forest cl T rank \<Longrightarrow> d \<in> T \<Longrightarrow> \<forall>p\<in>P. rank (cache_key_of cl d) < rank p \<Longrightarrow> flat_inv cl T P st \<Longrightarrow>
      flat_inv cl T P (flatten_dep cl fname i d st) \<and> node_keys (fst st) \<subseteq> node_keys (fst (flatten_dep cl fname i d st))
      \<and> cache_key_of cl d \<in> node_keys (fst (flatten_dep cl fname i d st))"
  "dependency_forest cl T rank \<Longrightarrow> set ds \<subseteq> T \<Longrightarrow> \<forall>d\<in>set ds. \<forall>p\<in>P. rank (cache_key_of cl d) < rank p \<Longrightarrow> flat_inv cl T P st \<Longrightarrow>
      flat_inv cl T P (flatten_deps cl fname j ds st) \<and> node_keys (fst st) \<subseteq> node_keys (fst (flatten_deps cl fname j ds st))
      \<and> cache_key_of cl ` set ds \<subseteq> node_keys (fst (flatten_deps cl fname j ds st))"
proof (induction cl fname i d st and cl fname j ds st arbitrary: P and P rule: flatten_dep_flatten_deps.induct)
  case (1 cl fname i pa deps nm c sp own par uc pth sc st)
  define d where "d = Dependant pa deps nm c sp own par uc pth sc"
  define key where "key = cache_key_of cl d"
  note forest = "1.prems"(1) and inT = "1.prems"(2) [folded d_def] and below = "1.prems"(3) [folded d_def key_def] and inv = "1.prems"(4)
  have deps: "dp_deps d = deps" by (simp add: d_def)
  have kids: "set deps \<subseteq> T" "\<forall>s\<in>set deps. rank (cache_key_of cl s) < rank key"
    using forest inT deps by (auto simp: dependency_forest_def key_def)
  show ?case
  proof (cases "key \<in> snd st \<and> uc")
    case True
    let ?a = "add_alias key (get_or nm []) (fst st)"
    have "key \<in> node_keys (fst st)" by (rule flat_inv_known [OF inv _ below]) (simp add: True)
    moreover have "topological cl T ?a" "node_keys ?a = node_keys (fst st)"
      using topological_sig [of "fst st" ?a cl T] inv by (simp_all add: flat_inv_def sig_node_keys del: set_map)
    moreover have "flatten_dep cl fname i d st = (if get_or nm [] \<noteq> [] then (?a, snd st) else st)"
      using True by (auto simp: key_def d_def Let_def)
    ultimately show ?thesis using inv unfolding d_def [symmetric] key_def [symmetric] by (auto simp: flat_inv_def)
  next
    case False
    define vis where "vis = (if uc then insert key (snd st) else snd st)"
    define st1 where "st1 = (if uc \<or> key \<notin> vis then flatten_deps cl fname 0 deps (fst st, vis) else (fst st, vis))"
    have res: "flatten_dep cl fname i d st = (fst st1 @ [node_of cl fname i d], snd st1)"
      using False unfolding st1_def vis_def key_def d_def flatten_dep.simps Let_def by (simp only: if_False)
    let ?P = "if uc then insert key P else P"
    have inv0: "flat_inv cl T ?P (fst st, vis)" using inv by (auto simp: flat_inv_def vis_def)
    have kP: "\<forall>s\<in>set deps. \<forall>p\<in>?P. rank (cache_key_of cl s) < rank p" using kids(2) below by (auto intro: less_trans)
    have "flat_inv cl T ?P st1 \<and> node_keys (fst st) \<subseteq> node_keys (fst st1) \<and> child_keys cl d \<subseteq> node_keys (fst st1)"
    proof (cases "uc \<or> key \<notin> vis")
      case True
      from "1.IH" [OF d_def key_def _ vis_def True forest kids(1) kP inv0] False True show ?thesis
        by (simp add: st1_def child_keys_def deps)
    next
      case False
      then have "key \<in> node_keys (fst st)" using flat_inv_known [OF inv _ below] by (auto simp: vis_def)
      then obtain n pre post where n: "fst st = pre @ n # post" "nd_key n = key"
        unfolding node_keys_def by (metis imageE split_list)
      with inv obtain t where t: "t \<in> T" "cache_key_of cl t = key" "child_keys cl t \<subseteq> node_keys pre"
        unfolding flat_inv_def topological_def node_ready_def by metis
      have same: "cache_key_of cl d = cache_key_of cl t" using t(2) by (simp only: key_def)
      have "child_keys cl d = child_keys cl t"
        by (rule forest_consistent [OF forest inT t(1) same])
      also note t(3)
      also have "node_keys pre \<subseteq> node_keys (fst st)" unfolding n(1) node_keys_append by (rule Un_upper1)
      finally show ?thesis using inv0 False by (simp add: st1_def)
    qed
    then have inv1: "topological cl T (fst st1)" "snd st1 \<subseteq> node_keys (fst st1) \<union> ?P" "node_keys (fst st) \<subseteq> node_keys (fst st1)"
      and ck: "child_keys cl d \<subseteq> node_keys (fst st1)" by (simp_all add: flat_inv_def)
    have new: "node_keys (fst st1 @ [node_of cl fname i d]) = insert key (node_keys (fst st1))"
      by (simp add: node_keys_def node_of_sig key_def)
    have "snd st1 \<subseteq> insert key (node_keys (fst st1)) \<union> P" using inv1(2) by (cases uc) auto
    with topological_snoc [OF inv1(1) inT ck, of fname i] inv1(3) show ?thesis
      unfolding d_def [symmetric] key_def [symmetric] res flat_inv_def fst_conv snd_conv new by blast
  qed
next
  case (2 cl fname i st)
  then show ?case by simp
next
  case (3 cl fname i d ds st)
  let ?st = "flatten_dep cl fname i d st"
  have a: "flat_inv cl T P ?st \<and> node_keys (fst st) \<subseteq> node_keys (fst ?st) \<and> cache_key_of cl d \<in> node_keys (fst ?st)"
    by (rule "3.IH"(1)) (use "3.prems" in auto)
  have b: "flat_inv cl T P (flatten_deps cl fname (Suc i) ds ?st) \<and> node_keys (fst ?st) \<subseteq> node_keys (fst (flatten_deps cl fname (Suc i) ds ?st))
      \<and> cache_key_of cl ` set ds \<subseteq> node_keys (fst (flatten_deps cl fname (Suc i) ds ?st))"
    by (rule "3.IH"(2)) (use "3.prems" a in auto)
  from a b show ?case by auto
qed

text \<open>Flattening adds cached nodes for keys that were not visited before, each once.\<close>

definition adds_fresh :: "flat_state \<Rightarrow> flat_state \<Rightarrow> bool" where
  "adds_fresh st st' \<longleftrightarrow> snd st \<subseteq> snd st' \<and> (\<exists>new. cached_keys (fst st') = cached_keys (fst st) @ new
     \<and> distinct new \<and> set new \<inter> snd st = {} \<and> set new \<subseteq> snd st')"

lemma adds_fresh_refl: "adds_fresh st st"
  by (simp add: adds_fresh_def)

lemma adds_fresh_trans:
  assumes "adds_fresh a b" and "adds_fresh b c"
  shows "adds_fresh a c"
proof -
  from assms(1) obtain m where m: "cached_keys (fst b) = cached_keys (fst a) @ m" "distinct m" "set m \<inter> snd a = {}" "set m \<subseteq> snd b" "snd a \<subseteq> snd b"
    by (auto simp: adds_fresh_def)
  from assms(2) obtain n where n: "cached_keys (fst c) = cached_keys (fst b) @ n" "distinct n" "set n \<inter> snd b = {}" "set n \<subseteq> snd c" "snd b \<subseteq> snd c"
    by (auto simp: adds_fresh_def)
  have "distinct (m @ n)" "set (m @ n) \<inter> snd a = {}" "set (m @ n) \<subseteq> snd c" "snd a \<subseteq> snd c" using m n by auto
  with m(1) n(1) show ?thesis unfolding adds_fresh_def by (intro conjI exI [of _ "m @ n"]) simp_all
qed

lemma flatten_adds_fresh:
  "adds_fresh st (flatten_dep cl fname i d st)" "adds_fresh st (flatten_deps cl fname j ds st)"
proof (induction cl fname i d st and cl fname j ds st rule: flatten_dep_flatten_deps.induct)
  case (1 cl fname i pa deps nm c sp own par uc pth sc st)
  define d where "d = Dependant pa deps nm c sp own par uc pth sc"
  define key where "key = cache_key_of cl d"
  have uc: "dp_use_cache d = uc" by (simp add: d_def)
  show ?case
  proof (cases "key \<in> snd st \<and> uc")
    case True
    have "flatten_dep cl fname i d st = (if get_or nm [] \<noteq> [] then (add_alias key (get_or nm []) (fst st), snd st) else st)"
      using True by (auto simp: key_def d_def Let_def)
    then show ?thesis unfolding d_def [symmetric] by (auto simp: adds_fresh_def sig_cached_keys)
  next
    case False
    define vis where "vis = (if uc then insert key (snd st) else snd st)"
    define st1 where "st1 = (if uc \<or> key \<notin> vis then flatten_deps cl fname 0 deps (fst st, vis) else (fst st, vis))"
    have res: "flatten_dep cl fname i d st = (fst st1 @ [node_of cl fname i d], snd st1)"
      using False unfolding st1_def vis_def key_def d_def flatten_dep.simps Let_def by (simp only: if_False)
    have "adds_fresh (fst st, vis) st1"
    proof (cases "uc \<or> key \<notin> vis")
      case True
      from "1.IH" [OF d_def key_def _ vis_def True] False True show ?thesis by (simp add: st1_def)
    qed (simp add: st1_def adds_fresh_refl)
    then obtain new where new: "cached_keys (fst st1) = cached_keys (fst st) @ new" "distinct new" "set new \<inter> vis = {}" "set new \<subseteq> snd st1" "vis \<subseteq> snd st1"
      by (auto simp: adds_fresh_def)
    show ?thesis
    proof (cases uc)
      case True
      then have "key \<notin> snd st" "vis = insert key (snd st)" using False by (auto simp: vis_def)
      moreover have "cached_keys (fst st1 @ [node_of cl fname i d]) = cached_keys (fst st) @ new @ [key]"
        using new(1) True by (simp add: cached_keys_def node_of_sig key_def uc)
      ultimately show ?thesis
        using new(2-) unfolding d_def [symmetric] res adds_fresh_def fst_conv snd_conv
        by (intro conjI exI [of _ "new @ [key]"]) auto
    next
      case no: False
      then have "vis = snd st" by (simp add: vis_def)
      moreover have "cached_keys (fst st1 @ [node_of cl fname i d]) = cached_keys (fst st) @ new"
        using new(1) no by (simp add: cached_keys_def node_of_sig uc)
      ultimately show ?thesis
        using new(2-) unfolding d_def [symmetric] res adds_fresh_def fst_conv snd_conv
        by (intro conjI exI [of _ new]) auto
    qed
  qed
next
  case (2 cl fname i st)
  then show ?case by (simp add: adds_fresh_refl)
next
  case (3 cl fname i d ds st)
  then show ?case using adds_fresh_trans by simp
qed

text \<open>
  C9: The flattened list can be resolved from left to right: every node comes after all the nodes
  its arguments are taken from, every dependency of the endpoint has a node, and a cached
  dependency has exactly one.
\<close>

theorem flattened_order:
  assumes "dependency_forest cl T rank" and "set ds \<subseteq> T" and ns: "fst (flatten_deps cl fname 0 ds ([], {})) = ns"
  shows "(\<forall>pre n post. ns = pre @ n # post \<longrightarrow> snd ` set (nd_children n) \<subseteq> node_keys pre)
    \<and> cache_key_of cl ` set ds \<subseteq> node_keys ns \<and> distinct (cached_keys ns)"
proof (intro conjI allI impI)
  have "flat_inv cl T {} ([], {})" by (simp add: flat_inv_def topological_def)
  from flatten_topological(2) [OF assms(1,2) _ this, of fname 0]
  have inv: "topological cl T ns" and keys: "cache_key_of cl ` set ds \<subseteq> node_keys ns" by (simp_all add: flat_inv_def ns)
  show "cache_key_of cl ` set ds \<subseteq> node_keys ns" by (rule keys)
  show "snd ` set (nd_children n) \<subseteq> node_keys pre" if "ns = pre @ n # post" for pre n post
  proof -
    have "node_ready cl T pre n" using inv that unfolding topological_def by simp
    then obtain t where "snd ` set (nd_children n) \<subseteq> child_keys cl t" "child_keys cl t \<subseteq> node_keys pre"
      by (auto simp only: node_ready_def)
    then show ?thesis by (rule order_trans)
  qed
  show "distinct (cached_keys ns)"
    using flatten_adds_fresh(2) [of "([], {})" cl fname 0 ds] by (auto simp: adds_fresh_def ns cached_keys_def)
qed

theorem flattened_order_witness:
  "distinct (cached_keys (fst (flatten_deps (\<lambda>c. PFunc KPlain None) (\<lambda>c. None) 0 (dp_deps example_endpoint) ([], {}))))
    \<and> cache_key_of (\<lambda>c. PFunc KPlain None) ` set (dp_deps example_endpoint)
       \<subseteq> node_keys (fst (flatten_deps (\<lambda>c. PFunc KPlain None) (\<lambda>c. None) 0 (dp_deps example_endpoint) ([], {})))"
proof -
  have "dependency_forest (\<lambda>c. PFunc KPlain None) (set (dp_deps example_endpoint)) (\<lambda>k. 0)"
    by (simp add: dependency_forest_def example_endpoint_def plain_dependant_def)
  from flattened_order [OF this order_refl refl, of "\<lambda>c. None"] show ?thesis by blast
qed

subsection \<open>Properties: the validator\<close>

definition plain_tag :: "string \<Rightarrow> tag option" where
  "plain_tag t = (if t = ''str'' then Some TStr else if t = ''int'' then Some TInt else if t = ''float'' then Some TFloat
     else if t = ''bool'' then Some TBool else None)"

lemma coerce_plain_typed:
  assumes "plain_tag t = Some g" and "coerce_plain ti tf t (VStr s) = Inr w"
  shows "has_type g w"
  using assms by (auto simp: plain_tag_def coerce_plain_def split: if_splits option.splits sum.splits)

text \<open>What becomes of a parameter: an error that names it, or a value of the declared type.\<close>

definition param_settled :: "(str, pyv) dict \<Rightarrow> param_info \<Rightarrow> (str, pyv) dict \<times> err list \<Rightarrow> bool" where
  "param_settled kw p acc \<longleftrightarrow>
     (\<exists>e\<in>set (snd acc). err_loc e = [pi_loc p, pi_alias p]) \<or>
     (\<exists>v. map_of (fst acc) (pi_name p) = Some v \<and>
        (if kwarg_value kw p = VNone then \<not> pi_required p \<and> v = pi_default p
         else \<forall>s g. kwarg_value kw p = VStr s \<longrightarrow> plain_tag (sm_type (pi_schema p)) = Some g \<longrightarrow> has_type g v))"

lemma validate_plain_settles: "param_settled kw p (validate_plain ti tf kw p acc)"
  by (auto simp: validate_plain_def param_settled_def Let_def map_of_dict_set intro: coerce_plain_typed split: sum.splits)

lemma validate_plain_keeps:
  "pi_name q \<noteq> pi_name p \<Longrightarrow> param_settled kw p acc \<Longrightarrow> param_settled kw p (validate_plain ti tf kw q acc)"
  unfolding validate_plain_def param_settled_def Let_def
  by (cases "coerce_plain ti tf (sm_type (pi_schema q)) (kwarg_value kw q)") (auto simp: map_of_dict_set)

lemma fold_validate_keeps:
  "pi_name p \<notin> pi_name ` set ps \<Longrightarrow> param_settled kw p acc \<Longrightarrow> param_settled kw p (fold (validate_plain ti tf kw) ps acc)"
proof (induction ps arbitrary: acc)
  case (Cons q ps)
  have "param_settled kw p (validate_plain ti tf kw q acc)" by (rule validate_plain_keeps) (use Cons.prems in auto)
  with Cons show ?case by (simp del: split_paired_All)
qed simp

lemma fold_validate_settles:
  "distinct (map pi_name ps) \<Longrightarrow> p \<in> set ps \<Longrightarrow> param_settled kw p (fold (validate_plain ti tf kw) ps acc)"
proof (induction ps arbitrary: acc)
  case (Cons q ps)
  show ?case
  proof (cases "p = q")
    case True
    with Cons.prems show ?thesis by (simp add: fold_validate_keeps validate_plain_settles)
  next
    case False
    with Cons show ?thesis by simp
  qed
qed simp

text \<open>An error is reported for a parameter that cannot be served, and for no other.\<close>

definition plain_error :: "(pyv \<Rightarrow> int option) \<Rightarrow> (pyv \<Rightarrow> nat option) \<Rightarrow> (str, pyv) dict \<Rightarrow> param_info \<Rightarrow> err option" where
  "plain_error ti tf kw p =
     (if kwarg_value kw p = VNone then (if pi_required p then Some (Err (S ''missing'') [pi_loc p, pi_alias p]) else None)
      else case coerce_plain ti tf (sm_type (pi_schema p)) (kwarg_value kw p) of
             Inl e \<Rightarrow> Some (Err (S e) [pi_loc p, pi_alias p]) | Inr _ \<Rightarrow> None)"

lemma validate_plain_errors: "snd (validate_plain ti tf kw p acc) = snd acc @ (case plain_error ti tf kw p of None \<Rightarrow> [] | Some e \<Rightarrow> [e])"
  by (auto simp: validate_plain_def plain_error_def Let_def split: sum.splits)

lemma fold_validate_errors: "snd (fold (validate_plain ti tf kw) ps acc) = snd acc @ List.map_filter (plain_error ti tf kw) ps"
  by (induction ps arbitrary: acc) (auto simp: validate_plain_errors map_filter_simps split: option.splits)

text \<open>
  The validator of a route with plain parameters settles every one of them: it has an error at its location and
  alias, or the default where nothing was sent and none is required, or a value, which for a parameter declared
  str, int, float or bool has that type. The errors are those of the parameters that cannot be served,
  in their order.
\<close>

theorem fast_validator_settles:
  assumes "make_fast_validator ti tf sch pa = Some validator" and "validator kw = (values, errors, consumed)"
    and "distinct (map pi_name (param_infos sch pa))" and "p \<in> set (param_infos sch pa)"
  shows "param_settled kw p (values, errors) \<and> {pi_name p, pi_alias p} \<subseteq> consumed
    \<and> errors = List.map_filter (plain_error ti tf kw) (param_infos sch pa)"
proof -
  let ?r = "fold (validate_plain ti tf kw) (param_infos sch pa) ([], [])"
  have "(values, errors) = ?r" and "consumed = pi_alias ` set (param_infos sch pa) \<union> pi_name ` set (param_infos sch pa)"
    using assms(1,2) by (auto simp: make_fast_validator_def fast_validate_def Let_def split: if_splits prod.splits)
  moreover have "param_settled kw p ?r" by (rule fold_validate_settles [OF assms(3,4)])
  moreover have "snd ?r = List.map_filter (plain_error ti tf kw) (param_infos sch pa)" by (simp add: fold_validate_errors)
  ultimately show ?thesis using assms(4) by (metis (no_types, lifting) UnI1 UnI2 empty_subsetI image_eqI insert_subset snd_conv)
qed

text \<open>A query parameter n, declared int, of which the text 12 is sent.\<close>

theorem fast_validator_settles_witness:
  "param_settled [(S ''n'', VStr (dec 12))] (param_info_of (\<lambda>f. Schema ''int'' False None) (S ''query'') (query_field ''n'' TInt)) ([(S ''n'', VInt 12)], [])"
proof -
  let ?sch = "\<lambda>f. Schema ''int'' False None" and ?pa = "query_only [query_field ''n'' TInt]" and ?kw = "[(S ''n'', VStr (dec 12))]"
  let ?p = "param_info_of ?sch (S ''query'') (query_field ''n'' TInt)"
  let ?v = "\<lambda>kw. case fast_validate (\<lambda>v. None) (\<lambda>v. None) kw [?p] of (vs, es) \<Rightarrow> (vs, es, {S ''n''})"
  have ps: "param_infos ?sch ?pa = [?p]" by (simp add: param_infos_def query_only_def scalar_fields_def query_field_def)
  have names: "pi_name ?p = S ''n''" "pi_alias ?p = S ''n''"
    by (simp_all add: param_info_of_def query_field_def get_validation_alias_def validation_alias_def field_alias_def)
  have made: "make_fast_validator (\<lambda>v. None) (\<lambda>v. None) ?sch ?pa = Some ?v"
    unfolding make_fast_validator_def ps Let_def
    by (simp add: names) (simp add: query_only_def query_field_def param_fields_def param_info_of_def)
  have val: "?v ?kw = ([(S ''n'', VInt 12)], [], {S ''n''})"
    by (simp add: fast_validate_def validate_plain_def kwarg_value_def kwarg_def names)
      (simp add: coerce_plain_def param_info_of_def dict_set_def query_field_def)
  from fast_validator_settles [OF made val, of ?p] show ?thesis by (simp add: ps)
qed

text \<open>A parameter declared Optional[int] keeps the text that was sent: its schema is \<open>nullable\<close>.\<close>

lemma nullable_not_coerced: "coerce_plain ti tf ''nullable'' (VStr s) = Inr (VStr s)"
  by (simp add: coerce_plain_def)

lemma nullable_is_trivial: "is_trivial_schema (Schema ''nullable'' con (Some (Schema ''int'' False None)))"
  by simp

end
