(* ===== verification/Security.thy ===== *)
theory Security
  imports Handlers
begin

text \<open>
  The security schemes of \<open>astraapi/security\<close>: API keys, the HTTP schemes, OAuth2 and OpenID
  Connect, each a callable that is used as a dependency; and the guarantee an endpoint gets from
  such a dependency. \<open>_core_bridge\<close> does not export \<open>extract_bearer_token\<close> and
  \<open>extract_basic_credentials\<close>, so the import in \<open>security/http.py\<close> always fails and the Python code
  of the callables runs.
\<close>

subsection \<open>Library functions\<close>

text \<open>\<open>str.split()\<close>: the words between white space.\<close>

definition white :: "nat \<Rightarrow> bool" where
  "white c \<longleftrightarrow> is_space c \<or> c = 5760 \<or> 8192 \<le> c \<and> c \<le> 8202 \<or> c \<in> {8232, 8233, 8239, 8287, 12288}"

function words :: "str \<Rightarrow> str list" where
  "words s =
     (let t = dropWhile white s in
      if t = [] then [] else takeWhile (\<lambda>c. \<not> white c) t # words (dropWhile (\<lambda>c. \<not> white c) t))"
  by pat_completeness auto
termination
proof (relation "measure length")
  fix s t :: str
  assume t: "t = dropWhile white s" "t \<noteq> []"
  have "\<not> white (hd t)" using t hd_dropWhile by metis
  then have "dropWhile (\<lambda>c. \<not> white c) t = dropWhile (\<lambda>c. \<not> white c) (tl t)" using t(2) by (cases t) simp_all
  then have "length (dropWhile (\<lambda>c. \<not> white c) t) < length t"
    using t(2) length_dropWhile_le [of "\<lambda>c. \<not> white c" "tl t"] by (cases t) simp_all
  also have "\<dots> \<le> length s" unfolding t(1) by (rule length_dropWhile_le)
  finally show "(dropWhile (\<lambda>c. \<not> white c) t, s) \<in> measure length" by simp
qed simp

declare words.simps [simp del]

text \<open>\<open>str.title()\<close> on ASCII text, which the names of authentication schemes are.\<close>

fun title_from :: "bool \<Rightarrow> str \<Rightarrow> str" where
  "title_from cased [] = []"
| "title_from cased (c # s) =
     (if is_alpha c then (if cased then lower_cp c else if 97 \<le> c then c - 32 else c) # title_from True s
      else c # title_from False s)"

definition title :: "str \<Rightarrow> str" where
  "title s = title_from False s"

text \<open>
  \<open>base64.b64decode\<close> on text: characters outside the alphabet are skipped, and a complete padding
  ends the input. The arguments of the loop are the position in the group of four, the bits left
  over and the padding seen; \<open>binascii.Error\<close> is a \<open>ValueError\<close>.
\<close>

definition b64_value :: "nat \<Rightarrow> nat option" where
  "b64_value c =
     (if 65 \<le> c \<and> c \<le> 90 then Some (c - 65) else if 97 \<le> c \<and> c \<le> 122 then Some (c - 71)
      else if 48 \<le> c \<and> c \<le> 57 then Some (c + 4) else if c = 43 then Some 62 else if c = 47 then Some 63 else None)"

definition b64_byte :: "nat \<Rightarrow> nat \<Rightarrow> nat \<Rightarrow> nat list" where
  "b64_byte pos left v =
     (if pos = 1 then [left * 4 + v div 16] else if pos = 2 then [left * 16 + v div 4]
      else if pos = 3 then [left * 64 + v] else [])"

definition b64_left :: "nat \<Rightarrow> nat \<Rightarrow> nat" where
  "b64_left pos v = (if pos = 0 then v else if pos = 1 then v mod 16 else if pos = 2 then v mod 4 else 0)"

fun a2b_base64 :: "nat \<Rightarrow> nat \<Rightarrow> nat \<Rightarrow> str \<Rightarrow> nat list res" where
  "a2b_base64 pos left pads [] =
     (if pos = 0 then Inr [] else if pos = 1 then Inl (ValueError (S ''Invalid base64-encoded string''))
      else Inl (ValueError (S ''Incorrect padding'')))"
| "a2b_base64 pos left pads (c # cs) =
     (if c = 61 then
        (if 2 \<le> pos \<and> 4 \<le> pos + Suc pads then Inr []
         else a2b_base64 pos left (if 2 \<le> pos then Suc pads else pads) cs)
      else case b64_value c of
             None \<Rightarrow> a2b_base64 pos left pads cs
           | Some v \<Rightarrow> rbind (a2b_base64 (Suc pos mod 4) (b64_left pos v) 0 cs) (\<lambda>bs. Inr (b64_byte pos left v @ bs)))"

definition b64decode :: "str \<Rightarrow> nat list res" where
  "b64decode s =
     (if list_all (\<lambda>c. c < 128) s then a2b_base64 0 0 0 s
      else Inl (ValueError (S ''string argument should contain only ASCII characters'')))"

subsection \<open>The authorization header\<close>

definition get_authorization_scheme_param :: "str option \<Rightarrow> str \<times> str" where
  "get_authorization_scheme_param v =
     (if get_or v [] = [] then ([], []) else split_once 32 (join [32] (words (get_or v []))))"

definition authorization :: "headers \<Rightarrow> str option" where
  "authorization h = fst (rq_headers_get h (S ''Authorization'') None)"

text \<open>\<open>HTTPException(status_code=401, detail="Not authenticated", headers=...)\<close>.\<close>

definition not_authenticated :: "str \<Rightarrow> exn" where
  "not_authenticated challenge =
     HTTPException 401 (DText (S ''Not authenticated'')) (Some [(S ''WWW-Authenticate'', challenge)])"

text \<open>Every scheme refuses in the same way: it raises, or returns \<open>None\<close> when errors are not automatic.\<close>

definition refuse :: "bool \<Rightarrow> exn \<Rightarrow> 'a option res" where
  "refuse auto_error e = (if auto_error then Inl e else Inr None)"

definition or_name :: "str option \<Rightarrow> str \<Rightarrow> str" where
  "or_name scheme_name cls = (if get_or scheme_name [] \<noteq> [] then get_or scheme_name [] else cls)"

subsection \<open>HTTP schemes\<close>

record http_scheme =
  hs_scheme :: str
  hs_realm :: "str option"
  hs_scheme_name :: str
  hs_auto_error :: bool

definition http_base_init :: "str \<Rightarrow> str option \<Rightarrow> bool \<Rightarrow> http_scheme" where
  "http_base_init scheme scheme_name auto_error =
     \<lparr>hs_scheme = scheme, hs_realm = None, hs_scheme_name = or_name scheme_name (S ''HTTPBase''), hs_auto_error = auto_error\<rparr>"

definition http_basic_init :: "str option \<Rightarrow> str option \<Rightarrow> bool \<Rightarrow> http_scheme" where
  "http_basic_init scheme_name realm auto_error =
     \<lparr>hs_scheme = S ''basic'', hs_realm = realm, hs_scheme_name = or_name scheme_name (S ''HTTPBasic''), hs_auto_error = auto_error\<rparr>"

definition http_bearer_init :: "str option \<Rightarrow> bool \<Rightarrow> http_scheme" where
  "http_bearer_init scheme_name auto_error =
     \<lparr>hs_scheme = S ''bearer'', hs_realm = None, hs_scheme_name = or_name scheme_name (S ''HTTPBearer''), hs_auto_error = auto_error\<rparr>"

definition http_digest_init :: "str option \<Rightarrow> bool \<Rightarrow> http_scheme" where
  "http_digest_init scheme_name auto_error =
     \<lparr>hs_scheme = S ''digest'', hs_realm = None, hs_scheme_name = or_name scheme_name (S ''HTTPDigest''), hs_auto_error = auto_error\<rparr>"

definition make_not_authenticated_error :: "http_scheme \<Rightarrow> exn" where
  "make_not_authenticated_error s = not_authenticated (title (hs_scheme s))"

definition basic_not_authenticated_error :: "http_scheme \<Rightarrow> exn" where
  "basic_not_authenticated_error s =
     not_authenticated (if get_or (hs_realm s) [] \<noteq> [] then S ''Basic realm='' @ [34] @ get_or (hs_realm s) [] @ [34] else S ''Basic'')"

definition http_base_call :: "http_scheme \<Rightarrow> headers \<Rightarrow> (str \<times> str) option res" where
  "http_base_call s h =
     (let (scheme, credentials) = get_authorization_scheme_param (authorization h) in
      if \<not> (get_or (authorization h) [] \<noteq> [] \<and> scheme \<noteq> [] \<and> credentials \<noteq> [])
      then refuse (hs_auto_error s) (make_not_authenticated_error s)
      else Inr (Some (scheme, credentials)))"

text \<open>\<open>HTTPBearer.__call__\<close> and \<open>HTTPDigest.__call__\<close>, which differ in the name they compare with.\<close>

definition http_named_call :: "str \<Rightarrow> http_scheme \<Rightarrow> headers \<Rightarrow> (str \<times> str) option res" where
  "http_named_call name s h =
     (let (scheme, credentials) = get_authorization_scheme_param (authorization h) in
      if \<not> (get_or (authorization h) [] \<noteq> [] \<and> scheme \<noteq> [] \<and> credentials \<noteq> [])
      then refuse (hs_auto_error s) (make_not_authenticated_error s)
      else if lower scheme \<noteq> name then refuse (hs_auto_error s) (make_not_authenticated_error s)
      else Inr (Some (scheme, credentials)))"

definition http_bearer_call :: "http_scheme \<Rightarrow> headers \<Rightarrow> (str \<times> str) option res" where
  "http_bearer_call s h = http_named_call (S ''bearer'') s h"

definition http_digest_call :: "http_scheme \<Rightarrow> headers \<Rightarrow> (str \<times> str) option res" where
  "http_digest_call s h = http_named_call (S ''digest'') s h"

text \<open>Malformed credentials raise even when errors are not automatic.\<close>

definition http_basic_call :: "http_scheme \<Rightarrow> headers \<Rightarrow> (str \<times> str) option res" where
  "http_basic_call s h =
     (let (scheme, param) = get_authorization_scheme_param (authorization h) in
      if get_or (authorization h) [] = [] \<or> lower scheme \<noteq> S ''basic''
      then refuse (hs_auto_error s) (basic_not_authenticated_error s)
      else case b64decode param of
             Inl _ \<Rightarrow> Inl (basic_not_authenticated_error s)
           | Inr data \<Rightarrow>
               if \<not> list_all (\<lambda>b. b < 128) data then Inl (basic_not_authenticated_error s)
               else if 58 \<notin> set data then Inl (basic_not_authenticated_error s)
               else Inr (Some (split_once 58 data)))"

subsection \<open>API keys\<close>

datatype api_key_in = InQuery | InHeader | InCookie

record api_key =
  ak_in :: api_key_in
  ak_name :: str
  ak_scheme_name :: str
  ak_auto_error :: bool

definition api_key_init :: "api_key_in \<Rightarrow> str \<Rightarrow> str option \<Rightarrow> bool \<Rightarrow> api_key" where
  "api_key_init loc name scheme_name auto_error =
     \<lparr>ak_in = loc, ak_name = name,
      ak_scheme_name = or_name scheme_name (case loc of InQuery \<Rightarrow> S ''APIKeyQuery'' | InHeader \<Rightarrow> S ''APIKeyHeader'' | InCookie \<Rightarrow> S ''APIKeyCookie''),
      ak_auto_error = auto_error\<rparr>"

definition check_api_key :: "api_key \<Rightarrow> str option \<Rightarrow> str option res" where
  "check_api_key k v =
     (if get_or v [] = [] then refuse (ak_auto_error k) (not_authenticated (S ''APIKey'')) else Inr v)"

definition api_key_query_call :: "(str \<Rightarrow> (str, str list) dict) option \<Rightarrow> api_key \<Rightarrow> query_params \<Rightarrow> str option res" where
  "api_key_query_call core k q = check_api_key k (rq_query_get core q (ak_name k) None)"

definition api_key_header_call :: "api_key \<Rightarrow> headers \<Rightarrow> str option res" where
  "api_key_header_call k h = check_api_key k (fst (rq_headers_get h (ak_name k) None))"

definition api_key_cookie_call :: "api_key \<Rightarrow> (str, str) dict \<Rightarrow> str option res" where
  "api_key_cookie_call k cookies = check_api_key k (map_of cookies (ak_name k))"

subsection \<open>OAuth2 and OpenID Connect\<close>

record oauth2 =
  oa_scheme_name :: str
  oa_auto_error :: bool

definition oauth2_init :: "str \<Rightarrow> str option \<Rightarrow> bool \<Rightarrow> oauth2" where
  "oauth2_init cls scheme_name auto_error = \<lparr>oa_scheme_name = or_name scheme_name cls, oa_auto_error = auto_error\<rparr>"

definition oauth2_call :: "oauth2 \<Rightarrow> headers \<Rightarrow> str option res" where
  "oauth2_call s h =
     (if get_or (authorization h) [] = [] then refuse (oa_auto_error s) (not_authenticated (S ''Bearer'')) else Inr (authorization h))"

text \<open>\<open>OAuth2PasswordBearer\<close> and \<open>OAuth2AuthorizationCodeBearer\<close>.\<close>

definition oauth2_bearer_call :: "oauth2 \<Rightarrow> headers \<Rightarrow> str option res" where
  "oauth2_bearer_call s h =
     (let (scheme, param) = get_authorization_scheme_param (authorization h) in
      if get_or (authorization h) [] = [] \<or> lower scheme \<noteq> S ''bearer''
      then refuse (oa_auto_error s) (not_authenticated (S ''Bearer'')) else Inr (Some param))"

definition open_id_connect_call :: "oauth2 \<Rightarrow> headers \<Rightarrow> str option res" where
  "open_id_connect_call s h =
     (if get_or (authorization h) [] = [] then refuse (oa_auto_error s) (not_authenticated (S ''Bearer'')) else Inr (authorization h))"

record password_form =
  pf_grant_type :: "str option"
  pf_username :: str
  pf_password :: str
  pf_scopes :: "str list"
  pf_client_id :: "str option"
  pf_client_secret :: "str option"

definition password_form_init ::
  "str option \<Rightarrow> str \<Rightarrow> str \<Rightarrow> str \<Rightarrow> str option \<Rightarrow> str option \<Rightarrow> password_form" where
  "password_form_init grant_type username password scope client_id client_secret =
     \<lparr>pf_grant_type = grant_type, pf_username = username, pf_password = password, pf_scopes = words scope,
      pf_client_id = client_id, pf_client_secret = client_secret\<rparr>"

definition password_form_strict_init ::
  "str \<Rightarrow> str \<Rightarrow> str \<Rightarrow> str \<Rightarrow> str option \<Rightarrow> str option \<Rightarrow> password_form" where
  "password_form_strict_init grant_type username password scope client_id client_secret =
     password_form_init (Some grant_type) username password scope client_id client_secret"

record security_scopes =
  ss_scopes :: "str list"
  ss_scope_str :: str

definition security_scopes_init :: "str list option \<Rightarrow> security_scopes" where
  "security_scopes_init scopes = \<lparr>ss_scopes = get_or scopes [], ss_scope_str = join [32] (get_or scopes [])\<rparr>"

subsection \<open>Calling a scheme\<close>

text \<open>
  The scheme objects as dependencies: what \<open>__call__\<close> returns for each class, with credential objects as the
  dictionary of their fields.
\<close>

datatype scheme =
    HTTPBase http_scheme | HTTPBasic http_scheme | HTTPBearer http_scheme | HTTPDigest http_scheme
  | OAuth2 oauth2 | OAuth2Bearer oauth2 | OpenIdConnect oauth2 | APIKeyHeader api_key

definition credentials_value :: "string \<Rightarrow> string \<Rightarrow> (str \<times> str) option \<Rightarrow> pyv" where
  "credentials_value a b v = (case v of None \<Rightarrow> VNone | Some (x, y) \<Rightarrow> VDict [(S a, VStr x), (S b, VStr y)])"

definition text_value :: "str option \<Rightarrow> pyv" where
  "text_value v = (case v of None \<Rightarrow> VNone | Some s \<Rightarrow> VStr s)"

fun scheme_call :: "scheme \<Rightarrow> headers \<Rightarrow> pyv res" where
  "scheme_call (HTTPBase s) h = map_sum id (credentials_value ''scheme'' ''credentials'') (http_base_call s h)"
| "scheme_call (HTTPBasic s) h = map_sum id (credentials_value ''username'' ''password'') (http_basic_call s h)"
| "scheme_call (HTTPBearer s) h = map_sum id (credentials_value ''scheme'' ''credentials'') (http_bearer_call s h)"
| "scheme_call (HTTPDigest s) h = map_sum id (credentials_value ''scheme'' ''credentials'') (http_digest_call s h)"
| "scheme_call (OAuth2 s) h = map_sum id text_value (oauth2_call s h)"
| "scheme_call (OAuth2Bearer s) h = map_sum id text_value (oauth2_bearer_call s h)"
| "scheme_call (OpenIdConnect s) h = map_sum id text_value (open_id_connect_call s h)"
| "scheme_call (APIKeyHeader k) h = map_sum id text_value (api_key_header_call k h)"

fun auto_error :: "scheme \<Rightarrow> bool" where
  "auto_error (HTTPBase s) = hs_auto_error s"
| "auto_error (HTTPBasic s) = hs_auto_error s"
| "auto_error (HTTPBearer s) = hs_auto_error s"
| "auto_error (HTTPDigest s) = hs_auto_error s"
| "auto_error (OAuth2 s) = oa_auto_error s"
| "auto_error (OAuth2Bearer s) = oa_auto_error s"
| "auto_error (OpenIdConnect s) = oa_auto_error s"
| "auto_error (APIKeyHeader k) = ak_auto_error k"

subsection \<open>Properties: words and scopes\<close>

lemma words_Nil [simp]: "words [] = []"
  by (subst words.simps) simp

lemma words_skip: "white c \<Longrightarrow> words (c # s) = words s"
  by (subst (1 2) words.simps) simp

lemma words_append:
  assumes "w \<noteq> []" and "\<forall>c\<in>set w. \<not> white c" and "s = [] \<or> white (hd s)"
  shows "words (w @ s) = w # words s"
proof -
  obtain c w' where w: "w = c # w'" using assms(1) by (cases w) auto
  have d: "dropWhile white (w @ s) = w @ s" using assms(2) w by simp
  have "takeWhile (\<lambda>c. \<not> white c) (w @ s) = w" "dropWhile (\<lambda>c. \<not> white c) (w @ s) = s"
    using assms(2,3) by (cases s; simp add: takeWhile_append2 dropWhile_append2)+
  with d w show ?thesis by (subst words.simps) simp
qed

definition is_word :: "str \<Rightarrow> bool" where
  "is_word w \<longleftrightarrow> w \<noteq> [] \<and> (\<forall>c\<in>set w. \<not> white c)"

lemma words_are_words: "w \<in> set (words s) \<Longrightarrow> is_word w"
proof (induction s rule: words.induct)
  case (1 s)
  let ?t = "dropWhile white s"
  show ?case
  proof (cases "?t = []")
    case False
    have w: "words s = takeWhile (\<lambda>c. \<not> white c) ?t # words (dropWhile (\<lambda>c. \<not> white c) ?t)"
      using False by (subst words.simps) (simp add: Let_def)
    have "is_word (takeWhile (\<lambda>c. \<not> white c) ?t)"
      using False hd_dropWhile [of white s] by (cases ?t) (auto simp: is_word_def dest: set_takeWhileD)
    with 1 False w show ?thesis by auto
  qed (use 1 in \<open>subst (asm) words.simps, simp add: Let_def\<close>)
qed

lemma words_join: "list_all is_word ws \<Longrightarrow> words (join [32] ws) = ws"
proof (induction ws)
  case (Cons w ws)
  have "white 32" by (simp add: white_def is_space_def)
  then show ?case
    using Cons words_append [of w "if ws = [] then [] else 32 # join [32] ws"]
    by (cases ws) (auto simp: is_word_def words_skip)
qed simp

text \<open>
  The scopes a dependency sees as one string are the scopes the password form splits it into,
  when no scope is empty or has white space.
\<close>

lemma scopes_roundtrip:
  "list_all is_word scopes \<Longrightarrow>
   pf_scopes (password_form_init g u p (ss_scope_str (security_scopes_init (Some scopes))) i c) = scopes"
  by (simp add: password_form_init_def security_scopes_init_def words_join)

lemma scheme_param_words:
  "get_authorization_scheme_param v = (case words (get_or v []) of [] \<Rightarrow> ([], []) | w # ws \<Rightarrow> (w, join [32] ws))"
proof (cases "words (get_or v [])")
  case Nil
  then show ?thesis by (simp add: get_authorization_scheme_param_def split_once_def)
next
  case (Cons w ws)
  then have "is_word w" using words_are_words [of w "get_or v []"] by simp
  moreover have "white 32" by (simp add: white_def is_space_def)
  ultimately have w: "32 \<notin> set w" unfolding is_word_def by blast
  have "get_or v [] \<noteq> []" using Cons by (cases "get_or v []") simp_all
  then have "get_authorization_scheme_param v = split_once 32 (join [32] (w # ws))" using Cons by (simp add: get_authorization_scheme_param_def)
  also have "\<dots> = (w, join [32] ws)"
  proof (cases ws)
    case Nil
    have "takeWhile (\<lambda>x. x \<noteq> 32) w = w" "dropWhile (\<lambda>x. x \<noteq> 32) w = []" using w by (auto simp: takeWhile_eq_all_conv)
    then show ?thesis by (simp add: Nil split_once_def del: dropWhile_eq_Nil_conv)
  next
    case (Cons v vs)
    then show ?thesis using split_once_sep [OF w] by simp
  qed
  finally show ?thesis by (simp add: Cons)
qed

subsection \<open>Properties: Basic credentials\<close>

text \<open>Base64 as RFC 4648 defines it.\<close>

definition b64_char :: "nat \<Rightarrow> nat" where
  "b64_char v = (if v < 26 then v + 65 else if v < 52 then v + 71 else if v < 62 then v - 4 else if v = 62 then 43 else 47)"

fun b64encode :: "nat list \<Rightarrow> str" where
  "b64encode [] = []"
| "b64encode [a] = [b64_char (a div 4), b64_char (a mod 4 * 16), 61, 61]"
| "b64encode [a, b] = [b64_char (a div 4), b64_char (a mod 4 * 16 + b div 16), b64_char (b mod 16 * 4), 61]"
| "b64encode (a # b # c # bs) =
     [b64_char (a div 4), b64_char (a mod 4 * 16 + b div 16), b64_char (b mod 16 * 4 + c div 64), b64_char (c mod 64)] @ b64encode bs"

lemma b64_value_char: "v < 64 \<Longrightarrow> b64_value (b64_char v) = Some v"
  by (auto simp: b64_value_def b64_char_def)

lemma b64_char_range: "v < 64 \<Longrightarrow> 43 \<le> b64_char v \<and> b64_char v \<le> 122 \<and> b64_char v \<noteq> 61"
  by (auto simp: b64_char_def)

lemma a2b_char:
  "v < 64 \<Longrightarrow> a2b_base64 pos left pads (b64_char v # cs) =
     rbind (a2b_base64 (Suc pos mod 4) (b64_left pos v) 0 cs) (\<lambda>bs. Inr (b64_byte pos left v @ bs))"
  using b64_char_range [of v] by (simp add: b64_value_char)

lemma sextets:
  assumes "a < 256" and "b < (256 :: nat)"
  shows "a div 4 < 64" "a mod 4 * 16 < 64" "a mod 4 * 16 + b div 16 < 64" "b mod 16 * 4 < 64" "b mod 16 * 4 + a div 64 < 64" "a mod 64 < 64"
    "a div 4 * 4 + (a mod 4 * 16 + b div 16) div 16 = a" "(a mod 4 * 16 + b div 16) mod 16 = b div 16"
    "b div 16 * 16 + (b mod 16 * 4 + a div 64) div 4 = b" "(b mod 16 * 4 + a div 64) mod 4 = a div 64"
    "a div 64 * 64 + a mod 64 = a"
proof -
  have b: "b div 16 < 16" and a: "a div 64 < 4" "a div 4 < 64" using assms by (simp_all add: less_mult_imp_div_less)
  have m: "a mod 4 < 4" "b mod 16 < 16" "a mod 64 < 64" by simp_all
  show "a div 4 < 64" "a mod 64 < 64" by (fact a(2), fact m(3))
  show "a mod 4 * 16 < 64" "a mod 4 * 16 + b div 16 < 64" "b mod 16 * 4 < 64" "b mod 16 * 4 + a div 64 < 64" using a b m by linarith+
  show "a div 4 * 4 + (a mod 4 * 16 + b div 16) div 16 = a" "(a mod 4 * 16 + b div 16) mod 16 = b div 16"
    "b div 16 * 16 + (b mod 16 * 4 + a div 64) div 4 = b" "(b mod 16 * 4 + a div 64) mod 4 = a div 64"
    "a div 64 * 64 + a mod 64 = a" using a b by simp_all
qed

lemma sextets_last:
  "a div 4 * 4 + a mod 4 * 16 div 16 = (a :: nat)" "a mod 4 * 16 mod 16 = (0 :: nat)" "b div 16 * 16 + b mod 16 * 4 div 4 = (b :: nat)"
  by simp_all

lemma a2b_pad:
  "a2b_base64 2 left 0 (61 # cs) = a2b_base64 2 left 1 cs" "a2b_base64 2 left 1 (61 # cs) = Inr []" "a2b_base64 3 left 0 (61 # cs) = Inr []"
  by simp_all

lemma a2b_chars:
  assumes "v < 64"
  shows "a2b_base64 0 left pads (b64_char v # cs) = a2b_base64 1 v 0 cs"
    "a2b_base64 1 left pads (b64_char v # cs) = rbind (a2b_base64 2 (v mod 16) 0 cs) (\<lambda>bs. Inr ((left * 4 + v div 16) # bs))"
    "a2b_base64 2 left pads (b64_char v # cs) = rbind (a2b_base64 3 (v mod 4) 0 cs) (\<lambda>bs. Inr ((left * 16 + v div 4) # bs))"
    "a2b_base64 3 left pads (b64_char v # cs) = rbind (a2b_base64 0 0 0 cs) (\<lambda>bs. Inr ((left * 64 + v) # bs))"
proof -
  have "rbind m Inr = m" for m :: "nat list res" by (cases m) auto
  then show "a2b_base64 0 left pads (b64_char v # cs) = a2b_base64 1 v 0 cs"
    using a2b_char [OF assms, of 0 left pads cs] by (simp add: b64_byte_def b64_left_def del: a2b_base64.simps)
  show "a2b_base64 1 left pads (b64_char v # cs) = rbind (a2b_base64 2 (v mod 16) 0 cs) (\<lambda>bs. Inr ((left * 4 + v div 16) # bs))"
    "a2b_base64 2 left pads (b64_char v # cs) = rbind (a2b_base64 3 (v mod 4) 0 cs) (\<lambda>bs. Inr ((left * 16 + v div 4) # bs))"
    "a2b_base64 3 left pads (b64_char v # cs) = rbind (a2b_base64 0 0 0 cs) (\<lambda>bs. Inr ((left * 64 + v) # bs))"
    using a2b_char [OF assms, of 1 left pads cs] a2b_char [OF assms, of 2 left pads cs] a2b_char [OF assms, of 3 left pads cs]
    by (simp_all add: b64_byte_def b64_left_def del: a2b_base64.simps flip: numeral_2_eq_2)
qed

lemma a2b_encode: "\<forall>b\<in>set bs. b < 256 \<Longrightarrow> a2b_base64 0 0 0 (b64encode bs) = Inr bs"
proof (induction bs rule: b64encode.induct)
  case 1
  then show ?case by simp
next
  case (2 a)
  then have a: "a < 256" by simp
  show ?case by (simp only: b64encode.simps a2b_chars sextets [OF a a] sextets_last a2b_pad rbind.simps)
next
  case (3 a b)
  then have a: "a < 256" and b: "b < 256" by simp_all
  show ?case by (simp only: b64encode.simps a2b_chars sextets [OF a b] sextets_last a2b_pad rbind.simps)
next
  case (4 a b c bs)
  then have a: "a < 256" and b: "b < 256" and c: "c < 256" and IH: "a2b_base64 0 0 0 (b64encode bs) = Inr bs" by simp_all
  show ?case by (simp only: b64encode.simps append.simps a2b_chars sextets [OF a b] sextets [OF c b] IH rbind.simps)
qed

lemma b64encode_range: "\<forall>b\<in>set bs. b < 256 \<Longrightarrow> \<forall>c\<in>set (b64encode bs). 43 \<le> c \<and> c \<le> 122"
proof (induction bs rule: b64encode.induct)
  case (4 a b c bs)
  then show ?case using b64_char_range by (auto simp: sextets)
qed (use b64_char_range in \<open>auto simp: sextets\<close>)

lemma not_white_b64: "43 \<le> c \<Longrightarrow> c \<le> 122 \<Longrightarrow> \<not> white c"
  by (auto simp: white_def is_space_def)

lemma scheme_param_two:
  assumes "is_word w" and "is_word p"
  shows "get_authorization_scheme_param (Some (w @ 32 # p)) = (w, p)"
  using words_join [of "[w, p]"] assms by (simp add: scheme_param_words)

text \<open>
  C14: Basic credentials are read back: for the header a client sends (RFC 7617, the Base64 form of name, colon and
  password), \<open>HTTPBasic\<close> returns the name and the password, when both are ASCII and the name has no
  colon; the password may.
\<close>

theorem basic_auth_roundtrip:
  assumes "\<forall>c\<in>set (user @ password). c < 128" and "58 \<notin> set user" and "lower scheme = S ''basic''"
    and "authorization h = Some (scheme @ 32 # b64encode (user @ 58 # password))"
  shows "http_basic_call s h = Inr (Some (user, password))"
proof -
  let ?data = "user @ 58 # password"
  have "\<forall>c\<in>set ?data. c < 128" using assms(1) by auto
  then have b: "\<forall>c\<in>set ?data. c < 256" by (intro ballI) (drule (1) bspec, simp)
  have r: "\<forall>c\<in>set (b64encode ?data). 43 \<le> c \<and> c \<le> 122" by (rule b64encode_range [OF b])
  have "b64encode bs \<noteq> []" if "bs \<noteq> []" for bs using that by (cases bs rule: b64encode.cases) simp_all
  from this [of ?data] have "is_word (b64encode ?data)" using r not_white_b64 unfolding is_word_def by blast
  moreover have "is_word scheme"
  proof -
    have "length scheme = 5" using arg_cong [OF assms(3), of length] by simp
    moreover have "\<not> white c" if "c \<in> set scheme" for c
    proof -
      from that have "lower_cp c \<in> set (S ''basic'')" unfolding assms(3) [symmetric] by (simp add: lower_def)
      then show ?thesis by (auto simp: S_def lower_cp_def white_def is_space_def split: if_splits)
    qed
    ultimately show ?thesis by (auto simp: is_word_def)
  qed
  ultimately have p: "get_authorization_scheme_param (authorization h) = (scheme, b64encode ?data)"
    unfolding assms(4) by (intro scheme_param_two)
  have "b64decode (b64encode ?data) = Inr ?data" using r a2b_encode [OF b] by (auto simp: b64decode_def list_all_iff)
  moreover have "list_all (\<lambda>c. c < 128) ?data" using assms(1) by (auto simp: list_all_iff)
  moreover have "get_or (authorization h) [] \<noteq> []" by (simp add: assms(4))
  ultimately show ?thesis using assms(2,3) by (simp add: http_basic_call_def p split_once_sep)
qed

text \<open>The header of the user joe with the password a:b.\<close>

definition header_only :: "str \<Rightarrow> headers" where
  "header_only v = \<lparr>hd_raw = [], hd_dict = Some [(S ''authorization'', v)], hd_list = Some [(S ''authorization'', v)]\<rparr>"

lemma lower_Authorization: "lower (S ''Authorization'') = S ''authorization''"
  by (simp add: S_def lower_def lower_cp_def)

lemma authorization_header_only: "authorization (header_only v) = Some v"
  by (simp add: authorization_def header_only_def rq_headers_get_def rq_headers_ensure_def lower_Authorization)

theorem basic_auth_roundtrip_witness:
  "http_basic_call (http_basic_init None None True) (header_only (S ''Basic'' @ 32 # b64encode (S ''joe'' @ 58 # S ''a:b'')))
     = Inr (Some (S ''joe'', S ''a:b''))"
  by (rule basic_auth_roundtrip [OF _ _ _ authorization_header_only]) (simp_all add: S_def lower_def lower_cp_def)

subsection \<open>Properties: refusing requests\<close>

text \<open>The contract of a scheme that reads the authorization header.\<close>

definition no_credentials :: "headers \<Rightarrow> bool" where
  "no_credentials h \<longleftrightarrow> get_or (authorization h) [] = []"

locale header_scheme =
  fixes call :: "headers \<Rightarrow> 'a option res" and auto_error :: bool and challenge :: str
  assumes answers: "call h = refuse auto_error (not_authenticated challenge) \<or> call h = Inl (not_authenticated challenge) \<or> (\<exists>v. call h = Inr (Some v))"
    and absent: "no_credentials h \<Longrightarrow> call h = refuse auto_error (not_authenticated challenge)"
begin

lemma strict_answers: "auto_error \<Longrightarrow> call h = Inl (not_authenticated challenge) \<or> (\<exists>v. call h = Inr (Some v))"
  using answers [of h] by (auto simp: refuse_def)

lemma strict_absent: "auto_error \<Longrightarrow> no_credentials h \<Longrightarrow> call h = Inl (not_authenticated challenge)"
  by (simp add: absent refuse_def)

end

lemma scheme_param_Nil: "no_credentials h \<Longrightarrow> get_authorization_scheme_param (authorization h) = ([], [])"
  by (simp add: get_authorization_scheme_param_def no_credentials_def)

lemmas scheme_defs = http_base_call_def http_bearer_call_def http_digest_call_def http_named_call_def http_basic_call_def
  oauth2_call_def oauth2_bearer_call_def open_id_connect_call_def make_not_authenticated_error_def basic_not_authenticated_error_def
  no_credentials_def Let_def

interpretation base_scheme: header_scheme "http_base_call s" "hs_auto_error s" "title (hs_scheme s)" for s
  by unfold_locales (auto simp: scheme_defs split: prod.splits)

interpretation bearer_scheme: header_scheme "http_bearer_call s" "hs_auto_error s" "title (hs_scheme s)" for s
  by unfold_locales (auto simp: scheme_defs split: prod.splits)

interpretation digest_scheme: header_scheme "http_digest_call s" "hs_auto_error s" "title (hs_scheme s)" for s
  by unfold_locales (auto simp: scheme_defs split: prod.splits)

interpretation basic_scheme: header_scheme "http_basic_call s" "hs_auto_error s"
  "if get_or (hs_realm s) [] \<noteq> [] then S ''Basic realm='' @ [34] @ get_or (hs_realm s) [] @ [34] else S ''Basic''" for s
  by unfold_locales (auto simp: scheme_defs split: prod.splits sum.splits)

interpretation oauth2_scheme: header_scheme "oauth2_call s" "oa_auto_error s" "S ''Bearer''" for s
  by unfold_locales (auto simp: scheme_defs)

interpretation oauth2_bearer: header_scheme "oauth2_bearer_call s" "oa_auto_error s" "S ''Bearer''" for s
  by unfold_locales (auto simp: scheme_defs split: prod.splits)

interpretation open_id_scheme: header_scheme "open_id_connect_call s" "oa_auto_error s" "S ''Bearer''" for s
  by unfold_locales (auto simp: scheme_defs)

text \<open>The request does not have what the scheme reads.\<close>

fun lacks :: "scheme \<Rightarrow> headers \<Rightarrow> bool" where
  "lacks (APIKeyHeader k) h \<longleftrightarrow> get_or (fst (rq_headers_get h (ak_name k) None)) [] = []"
| "lacks sc h \<longleftrightarrow> no_credentials h"

lemma api_key_header_absent:
  "ak_auto_error k \<Longrightarrow> lacks (APIKeyHeader k) h \<Longrightarrow> api_key_header_call k h = Inl (not_authenticated (S ''APIKey''))"
  by (simp add: api_key_header_call_def check_api_key_def refuse_def)

lemmas strict_schemes = base_scheme.strict_absent basic_scheme.strict_absent bearer_scheme.strict_absent digest_scheme.strict_absent
  oauth2_scheme.strict_absent oauth2_bearer.strict_absent open_id_scheme.strict_absent api_key_header_absent

lemma scheme_refuses: "auto_error sc \<Longrightarrow> lacks sc h \<Longrightarrow> \<exists>challenge. scheme_call sc h = Inl (not_authenticated challenge)"
  by (cases sc) (simp_all add: strict_schemes, blast+)

text \<open>
  Solving a tree in which a callable always raises: it has no value in the cache, and the
  tree is not solved without errors.
\<close>

definition no_value_of :: "nat \<Rightarrow> sstate \<Rightarrow> bool" where
  "no_value_of c st \<longleftrightarrow> (\<forall>k\<in>keys (st_cache st). fst k \<noteq> c)"

definition needs_call :: "nat \<Rightarrow> dependant \<Rightarrow> bool" where
  "needs_call c d \<longleftrightarrow> (\<exists>t. below t d \<and> dp_call t = c)"

lemma needs_call_iff: "needs_call c d \<longleftrightarrow> (\<exists>s\<in>set (dp_deps d). dp_call s = c \<or> needs_call c s)"
  unfolding needs_call_def by (auto elim: belowE intro: below.intros)

lemma dep_value_guarded:
  assumes "\<And>vals. \<exists>e. se_run env c vals = Inl e" and "se_overrides env = []" and "no_value_of c st"
    and "dep_value env sub sub vals st = (Inr v, st')"
  shows "dp_call sub \<noteq> c \<and> no_value_of c (store_value env sub v st')"
proof -
  let ?key = "cache_key_of (de_callable (se_env env)) sub"
  have key: "fst ?key = dp_call sub" by (simp add: cache_key_of_def)
  have "dp_call sub \<noteq> c"
  proof
    assume c: "dp_call sub = c"
    have "map_of (st_cache st) ?key = None" using assms(3) c key by (force simp: no_value_of_def map_of_eq_None_iff)
    moreover obtain e where "se_run env c vals = Inl e" using assms(1) by blast
    ultimately show False using assms(4) c by (simp add: dep_value_def Let_def split: if_splits)
  qed
  moreover have "st_cache st' = st_cache st" using dep_value_calls [OF assms(4)] by auto
  moreover have "keys (st_cache (store_value env sub v st')) \<subseteq> insert ?key (keys (st_cache st'))"
    by (cases "dp_use_cache sub \<and> \<not> dict_has (st_cache st') ?key") (simp_all add: store_value_def Let_def keys_set subset_insertI)
  ultimately have new: "dp_call sub \<noteq> c" "keys (st_cache (store_value env sub v st')) \<subseteq> insert ?key (keys (st_cache st))" by simp_all
  have "fst k \<noteq> c" if "k \<in> keys (st_cache (store_value env sub v st'))" for k
  proof (cases "k = ?key")
    case True
    with new(1) key show ?thesis by simp
  next
    case False
    with that new(2) have "k \<in> keys (st_cache st)" by blast
    then show ?thesis using assms(3) unfolding no_value_of_def by (rule bspec [rotated])
  qed
  with new(1) show ?thesis unfolding no_value_of_def by blast
qed

lemma solve_subs_guarded:
  assumes run: "\<And>vals. \<exists>e. se_run env c vals = Inl e" and over: "se_overrides env = []"
    and rec: "\<And>d st r st'. no_value_of c st \<Longrightarrow> rec d st = (r, st') \<Longrightarrow> no_value_of c st' \<and> (\<forall>vs. r = Inr (vs, []) \<longrightarrow> \<not> needs_call c d)"
  shows "no_value_of c st \<Longrightarrow> solve_subs env rec subs acc st = (r, st') \<Longrightarrow>
    no_value_of c st' \<and> (\<forall>vs es. r = Inr (vs, es) \<longrightarrow> snd acc = [] \<and> es = [] \<longrightarrow> (\<forall>s\<in>set subs. dp_call s \<noteq> c \<and> \<not> needs_call c s))
      \<and> (\<forall>vs. r = Inr (vs, []) \<longrightarrow> snd acc = [])"
proof (induction subs arbitrary: acc st)
  case (Cons sub subs)
  have use: "use_dependant env sub = Inr sub" by (simp add: use_dependant_def over)
  obtain r1 st1 where r1: "rec sub st = (r1, st1)" by fastforce
  note g1 = rec [OF Cons.prems(1) r1]
  show ?case
  proof (cases r1)
    case (Inl e)
    then show ?thesis using Cons.prems(2) use r1 g1 by auto
  next
    case (Inr p)
    obtain vals errs where p: "p = (vals, errs)" by fastforce
    show ?thesis
    proof (cases "errs = []")
      case False
      then have "solve_subs env rec subs (fst acc, snd acc @ errs) st1 = (r, st')" using Cons.prems(2) use r1 Inr p by simp
      from Cons.IH [OF conjunct1 [OF g1] this] False show ?thesis by auto
    next
      case True
      obtain r2 st2 where r2: "dep_value env sub sub vals st1 = (r2, st2)" by fastforce
      show ?thesis
      proof (cases r2)
        case (Inl e)
        with r2 have "st2 = st1" using cached.dep_value_error by blast
        then show ?thesis using Cons.prems(2) use r1 Inr p True r2 Inl g1 by auto
      next
        case v: (Inr v)
        note g2 = dep_value_guarded [OF run over conjunct1 [OF g1] r2 [unfolded v]]
        have "solve_subs env rec subs (case dp_name sub of None \<Rightarrow> fst acc | Some n \<Rightarrow> dict_set n v (fst acc), snd acc) (store_value env sub v st2) = (r, st')"
          using Cons.prems(2) use r1 Inr p True r2 v by simp
        from Cons.IH [OF conjunct2 [OF g2] this] g1 g2 Inr p True show ?thesis by auto
      qed
    qed
  qed
qed auto

lemma solve_guarded:
  assumes run: "\<And>vals. \<exists>e. se_run env c vals = Inl e" and over: "se_overrides env = []"
  shows "no_value_of c st \<Longrightarrow> solve_dependencies n env d st = (r, st') \<Longrightarrow>
    no_value_of c st' \<and> (\<forall>vs. r = Inr (vs, []) \<longrightarrow> \<not> needs_call c d)"
proof (induction n arbitrary: d st r st')
  case (Suc n)
  show ?case
  proof (cases "needs_nothing d \<or> \<not> se_stacks env")
    case True
    then show ?thesis using Suc.prems needs_call_iff [of c d] by (auto simp: needs_nothing_def split: if_splits)
  next
    case False
    obtain r1 st1 where r1: "solve_subs env (solve_dependencies n env) (dp_deps d) ([], []) st = (r1, st1)" by fastforce
    note g = solve_subs_guarded [OF run over Suc.IH Suc.prems(1) r1]
    show ?thesis
    proof (cases r1)
      case (Inl e)
      then show ?thesis using Suc.prems(2) r1 False g by auto
    next
      case (Inr acc)
      then have own: "solve_own env d acc st1 = (r, st')" using Suc.prems(2) r1 False by simp
      have "st_cache st' = st_cache st1" using own by (auto simp: solve_own_def split: sum.splits if_splits)
      moreover have "snd acc = []" if "r = Inr (vs, [])" for vs
      proof -
        from own that obtain acc1 acc2 where "own_params (se_ad env) (se_flt env) (se_rq env) (dp_params d) acc = Inr acc1"
          "body_args env d acc1 = Inr acc2" "snd acc2 = []"
          by (auto simp: solve_own_def split: sum.splits)
        from accounts_trans [OF own_params_accounts [OF this(1)] body_args_accounts [OF this(2)]] this(3)
        show ?thesis by (auto simp: accounts_def)
      qed
      ultimately show ?thesis using g Inr needs_call_iff [of c d] unfolding no_value_of_def by (cases acc) auto
    qed
  qed
qed auto

lemma guarded_handler:
  assumes "handler_app cx bp sz rc env ctx stk parsed qs hds ep rq ch = Some (r, st, called)"
    and "needs_call c (rc_dependant rc)" and "se_overrides env = []" and "\<And>vals. \<exists>e. se_run env c vals = Inl e"
  shows "called = None \<and> (\<exists>e. r = Inl e)"
proof -
  have run: "\<exists>e. se_run (env\<lparr>se_body := b\<rparr>) c vals = Inl e" for b vals using assms(4) by simp
  have none: "called = None"
  proof (rule ccontr)
    assume "called \<noteq> None"
    with assms(1) obtain b vals where "solve_dependencies max_depth (env\<lparr>se_body := b\<rparr>) (rc_dependant rc) fresh_sstate = (Inr (vals, []), st)"
      unfolding handler_app_def by (auto split: if_splits option.splits sum.splits prod.splits)
    moreover have "no_value_of c fresh_sstate" by (simp add: no_value_of_def fresh_sstate_def)
    ultimately have "\<not> needs_call c (rc_dependant rc)" using solve_guarded [OF run] assms(3) by simp
    with assms(2) show False by simp
  qed
  with assms(1) show ?thesis unfolding handler_app_def by (auto split: if_splits option.splits sum.splits prod.splits)
qed

text \<open>
  C13: An endpoint behind a security scheme with automatic errors is not called without credentials: when
  the scheme is anywhere in its tree of dependencies, no dependency is overridden, and the request
  lacks the header the scheme reads, the handler raises, whatever else the endpoint depends on;
  and the scheme's own answer is status 401 with a challenge.
\<close>

theorem guarded_endpoint_not_called:
  assumes "handler_app cx bp sz rc env ctx stk parsed qs hds ep rq ch = Some (r, st, called)"
    and "needs_call c (rc_dependant rc)" and "se_overrides env = []"
    and "\<And>vals. se_run env c vals = scheme_call sc h" and "auto_error sc" and "lacks sc h"
  shows "called = None \<and> (\<exists>e. r = Inl e) \<and> (\<exists>challenge. scheme_call sc h = Inl (not_authenticated challenge))"
  using guarded_handler [OF assms(1-3)] scheme_refuses [OF assms(5,6)] assms(4) by metis

text \<open>The example endpoint behind a bearer scheme, and a request without headers.\<close>

definition guarded_senv :: senv where
  "guarded_senv = example_senv\<lparr>se_run := (\<lambda>c vals. scheme_call (HTTPBearer (http_bearer_init None True)) (rq_headers_init None None))\<rparr>"

lemma bodiless_handled:
  assumes "se_stacks env" and "rc_body_field rc = None"
  shows "\<exists>r st called. handler_app cx bp sz rc env ctx True False qs hs ep rq [] = Some (r, st, called)"
proof -
  have "handler_app cx bp sz rc env ctx True False qs hs ep rq [] \<noteq> None"
    using assms by (simp add: handler_app_def read_body_def split: sum.split prod.split)
  then show ?thesis by (metis not_None_eq prod_cases3)
qed

lemma empty_request_lacks: "lacks (HTTPBearer s) (rq_headers_init None None)"
  by (simp add: no_credentials_def authorization_def rq_headers_get_def rq_headers_ensure_def rq_headers_init_def)

theorem guarded_endpoint_not_called_witness:
  "\<exists>r st. handler_app no_classes example_parsers example_serializers example_config guarded_senv no_ctx True False [] []
     (\<lambda>args. (Inr (EValue (VInt 1)), \<lparr>su_status = None, su_headers = []\<rparr>)) example_request [] = Some (r, st, None) \<and> (\<exists>e. r = Inl e)"
proof -
  have "se_stacks guarded_senv" "rc_body_field example_config = None" by (simp_all add: guarded_senv_def example_senv_def example_config_def)
  from bodiless_handled [OF this] obtain r st called where run: "handler_app no_classes example_parsers example_serializers example_config guarded_senv no_ctx True False [] []
     (\<lambda>args. (Inr (EValue (VInt 1)), \<lparr>su_status = None, su_headers = []\<rparr>)) example_request [] = Some (r, st, called)" by blast
  have "needs_call 1 (rc_dependant example_config)"
    unfolding needs_call_iff [of 1 "rc_dependant example_config"] by (simp add: example_config_def example_endpoint_def plain_dependant_def)
  with guarded_endpoint_not_called [OF run, of 1 "HTTPBearer (http_bearer_init None True)" "rq_headers_init None None"] run empty_request_lacks
  show ?thesis by (auto simp: guarded_senv_def example_senv_def http_bearer_init_def)
qed

end
