(* ===== verification/Workers.thy ===== *)
theory Workers
  imports Asgi
begin

text \<open>
  The process managers: \<open>astraapi/_multiworker.py\<close>, which keeps a number of worker processes running
  and hands connections to them, and \<open>astraapi/_reloader.py\<close>, which restarts a worker when files
  change. What the operating system answers (\<open>waitpid\<close>, \<open>fork\<close>, the clock, signals) is the
  input of each step, and what it is asked to do the output. Times are in milliseconds.
\<close>

subsection \<open>Restarting after a crash\<close>

definition next_streak :: "int \<Rightarrow> int option \<Rightarrow> nat \<Rightarrow> nat" where
  "next_streak now started streak = (if now - get_or started now \<ge> 10000 then 0 else streak + 1)"

definition backoff :: "nat \<Rightarrow> nat" where
  "backoff streak = (if streak \<ge> 5 then min 2000 (100 * 2 ^ (streak - 5)) else 0)"

subsection \<open>The supervisor with fork\<close>

datatype action = Forked nat nat | Slept nat | Signalled nat | Killed nat | Closed nat

record supervisor =
  sv_children :: "(nat, nat) dict"
  sv_streak :: "(nat, nat) dict"
  sv_started :: "(nat, int) dict"
  sv_socks :: "nat option list"
  sv_shutdown :: bool

datatype wait_result = WaitNothing | WaitChild nat | ChildProcessError | InterruptedError

text \<open>
  One round of the loop: whether a signal arrived before the loop condition and before the second test of
  the flag, the answer of \<open>waitpid\<close>, the clock before and after the back-off, the process number of
  the new child (\<open>None\<close> if \<open>fork\<close> fails) and the parent's end of the new socket pair.
\<close>

record tick =
  tk_signal :: bool
  tk_wait :: wait_result
  tk_late_signal :: bool
  tk_now :: int
  tk_later :: int
  tk_pid :: "nat option"
  tk_sock :: nat

datatype sup_outcome = Running supervisor "action list" | Left supervisor | Raised exn supervisor

text \<open>Starting: with \<open>reuse\<close> the workers bind the port themselves, otherwise each has a socket pair.\<close>

fun start_workers :: "(nat \<times> nat \<times> int) list \<Rightarrow> supervisor \<Rightarrow> supervisor" where
  "start_workers [] sv = sv"
| "start_workers ((w, pid, t) # ws) sv =
     start_workers ws (sv\<lparr>sv_children := dict_set pid w (sv_children sv), sv_started := dict_set w t (sv_started sv)\<rparr>)"

definition supervisor_init :: "bool \<Rightarrow> nat \<Rightarrow> nat list \<Rightarrow> nat list \<Rightarrow> int list \<Rightarrow> supervisor" where
  "supervisor_init reuse workers socks pids ts =
     start_workers (zip [0..<workers] (zip pids ts))
       \<lparr>sv_children = [], sv_streak = map (\<lambda>i. (i, 0)) [0..<workers], sv_started = [],
        sv_socks = (if reuse then [] else map Some (take workers socks)), sv_shutdown = False\<rparr>"

definition close_sock :: "nat \<Rightarrow> supervisor \<Rightarrow> supervisor \<times> action list" where
  "close_sock w sv =
     (case sv_socks sv ! w of
        Some s \<Rightarrow> (sv\<lparr>sv_socks := (sv_socks sv)[w := None]\<rparr>, [Closed s])
      | None \<Rightarrow> (sv, []))"

definition restart_worker :: "bool \<Rightarrow> tick \<Rightarrow> nat \<Rightarrow> supervisor \<Rightarrow> sup_outcome" where
  "restart_worker reuse tk w sv =
     (let streak = next_streak (tk_now tk) (map_of (sv_started sv) w) (get_or (map_of (sv_streak sv) w) 0);
          sv1 = sv\<lparr>sv_streak := dict_set w streak (sv_streak sv)\<rparr>;
          slept = (if backoff streak > 0 then [Slept (backoff streak)] else []);
          (sv2, closed) = (if reuse then (sv1, []) else close_sock w sv1)
      in case tk_pid tk of
           None \<Rightarrow> Raised OSError sv2
         | Some pid \<Rightarrow>
             Running
               (sv2\<lparr>sv_children := dict_set pid w (sv_children sv2), sv_started := dict_set w (tk_later tk) (sv_started sv2),
                    sv_socks := (if reuse then sv_socks sv2 else (sv_socks sv2)[w := Some (tk_sock tk)])\<rparr>)
               (slept @ closed @ [Forked w pid]))"

definition fork_step :: "bool \<Rightarrow> tick \<Rightarrow> supervisor \<Rightarrow> sup_outcome" where
  "fork_step reuse tk sv0 =
     (let sv = sv0\<lparr>sv_shutdown := (sv_shutdown sv0 \<or> tk_signal tk)\<rparr> in
      if sv_shutdown sv \<or> sv_children sv = [] then Left sv
      else case tk_wait tk of
             ChildProcessError \<Rightarrow> Left sv
           | InterruptedError \<Rightarrow> Running sv []
           | WaitNothing \<Rightarrow> Running sv [Slept 1000]
           | WaitChild pid \<Rightarrow>
               (case map_of (sv_children sv) pid of
                  None \<Rightarrow> Running sv [Slept 1000]
                | Some w \<Rightarrow>
                    (let sv1 = sv\<lparr>sv_children := dict_del pid (sv_children sv), sv_shutdown := tk_late_signal tk\<rparr>
                     in if sv_shutdown sv1 then Left sv1 else restart_worker reuse tk w sv1)))"

text \<open>
  Shutting down: every child is signalled, then they are waited for until the deadline, and the
  rest is killed. A list of clock readings with the answers of \<open>waitpid\<close> drives the loop; \<open>None\<close>
  if they end before the loop does. Only \<open>ChildProcessError\<close> is caught.
\<close>

fun reap_loop :: "int \<Rightarrow> (int \<times> wait_result) list \<Rightarrow> (nat, nat) dict \<Rightarrow> (exn + (nat, nat) dict) option" where
  "reap_loop deadline [] children = (if children = [] then Some (Inr []) else None)"
| "reap_loop deadline ((now, w) # evs) children =
     (if children = [] then Some (Inr [])
      else if \<not> now < deadline then Some (Inr children)
      else case w of
             ChildProcessError \<Rightarrow> Some (Inr children)
           | InterruptedError \<Rightarrow> Some (Inl OSError)
           | WaitChild pid \<Rightarrow> reap_loop deadline evs (dict_del pid children)
           | WaitNothing \<Rightarrow> reap_loop deadline evs children)"

definition shut_down :: "int \<Rightarrow> (int \<times> wait_result) list \<Rightarrow> supervisor \<Rightarrow> (exn + action list) option" where
  "shut_down t0 evs sv =
     map_option (map_sum id (\<lambda>rest.
         map (\<lambda>c. Signalled (fst c)) (sv_children sv) @ map (\<lambda>c. Killed (fst c)) rest
         @ map Closed (List.map_filter id (sv_socks sv))))
       (reap_loop (t0 + 5000) evs (sv_children sv))"

subsection \<open>Handing out connections\<close>

text \<open>
  The accept loop of the master process: from position \<open>idx\<close> it looks for the next worker with an
  open socket, at most once around. The result is the worker, if any, and the next position.
\<close>

fun pick_worker :: "nat \<Rightarrow> nat \<Rightarrow> nat option list \<Rightarrow> nat option \<times> nat" where
  "pick_worker 0 idx socks = (None, idx)"
| "pick_worker (Suc k) idx socks =
     (let i = idx mod length socks in
      if socks ! i \<noteq> None then (Some i, Suc idx) else pick_worker k (Suc idx) socks)"

definition accept_one :: "nat \<Rightarrow> nat option list \<Rightarrow> nat option \<times> nat" where
  "accept_one idx socks = (if socks = [] then (None, idx) else pick_worker (length socks) idx socks)"

fun accept_loop :: "nat option list list \<Rightarrow> nat \<Rightarrow> nat option list" where
  "accept_loop [] idx = []"
| "accept_loop (socks # conns) idx =
     (case accept_one idx socks of (w, idx') \<Rightarrow> w # accept_loop conns idx')"

subsection \<open>The supervisor with subprocesses\<close>

text \<open>
  One round on Windows: each process is polled (\<open>True\<close>: it has exited), with the clock; the workers of those
  that exited are started again. \<open>sp_procs\<close> maps the identity of a process object to its worker.
\<close>

record subproc =
  sp_procs :: "(nat, nat) dict"
  sp_streak :: "(nat, nat) dict"
  sp_started :: "(nat, int) dict"

fun poll_procs :: "(nat \<Rightarrow> bool) \<Rightarrow> int \<Rightarrow> (nat \<times> nat) list \<Rightarrow> subproc \<Rightarrow> subproc \<times> nat list" where
  "poll_procs exited now [] sp = (sp, [])"
| "poll_procs exited now ((key, w) # ps) sp =
     (if exited key
      then (case poll_procs exited now ps
                   (sp\<lparr>sp_procs := dict_del key (sp_procs sp),
                       sp_streak := dict_set w (next_streak now (map_of (sp_started sp) w) (get_or (map_of (sp_streak sp) w) 0)) (sp_streak sp)\<rparr>) of
              (sp', ws) \<Rightarrow> (sp', w # ws))
      else poll_procs exited now ps sp)"

fun respawn :: "(nat \<times> nat \<times> int) list \<Rightarrow> subproc \<Rightarrow> subproc \<times> action list" where
  "respawn [] sp = (sp, [])"
| "respawn ((w, key, t) # ws) sp =
     (let d = backoff (get_or (map_of (sp_streak sp) w) 0) in
      case respawn ws (sp\<lparr>sp_procs := dict_set key w (sp_procs sp), sp_started := dict_set w t (sp_started sp)\<rparr>) of
        (sp', acts) \<Rightarrow> (sp', (if d > 0 then [Slept d] else []) @ Forked w key # acts))"

text \<open>\<open>fresh\<close> are the new process objects and the times at which they were started.\<close>

definition subproc_step :: "(nat \<Rightarrow> bool) \<Rightarrow> int \<Rightarrow> (nat \<times> int) list \<Rightarrow> subproc \<Rightarrow> subproc \<times> action list" where
  "subproc_step exited now fresh sp =
     (case poll_procs exited now (sp_procs sp) sp of
        (sp1, ws) \<Rightarrow> (case respawn (zip ws fresh) sp1 of (sp2, acts) \<Rightarrow> (sp2, acts @ [Slept 1000])))"

text \<open>On shutdown each process is waited for; \<open>in_time\<close> are those that end within the time left.\<close>

definition subproc_shut_down :: "(nat \<Rightarrow> bool) \<Rightarrow> subproc \<Rightarrow> action list" where
  "subproc_shut_down in_time sp =
     map (\<lambda>c. Signalled (fst c)) (sp_procs sp) @ map (\<lambda>c. Killed (fst c)) (filter (\<lambda>c. \<not> in_time (fst c)) (sp_procs sp))"

definition worker_count :: "int \<Rightarrow> nat" where
  "worker_count workers = nat (max 1 workers)"

subsection \<open>The reloader\<close>

text \<open>
  The worker is a process number. A round sees a set of changed files, empty when only the time
  ran out, and for the latter whether the worker has exited.
\<close>

record reloader =
  rl_worker :: nat
  rl_crashes :: nat

datatype reload_event = FilesChanged bool nat | NoChange bool nat

datatype reload_outcome = Watching reloader "action list" | GaveUp reloader

definition max_crash_retries :: nat where
  "max_crash_retries = 3"

definition extension_of :: "str \<Rightarrow> str" where
  "extension_of ext = dropWhile (\<lambda>c. c = 42 \<or> c = 46) ext"

definition extra_extensions :: "str list \<Rightarrow> str list" where
  "extra_extensions includes = map extension_of (filter (\<lambda>e. startswith e (S ''*.'')) includes)"

text \<open>\<open>exited\<close> says that \<open>poll\<close> finds the process ended, \<open>in_time\<close> that it ends before the timeout.\<close>

definition signal_worker :: "nat \<Rightarrow> bool \<Rightarrow> action list" where
  "signal_worker pid exited = (if exited then [] else [Signalled pid])"

definition reap_worker :: "nat \<Rightarrow> bool \<Rightarrow> action list" where
  "reap_worker pid in_time = (if in_time then [] else [Killed pid])"

definition terminate_worker_sync :: "nat \<Rightarrow> bool \<Rightarrow> bool \<Rightarrow> action list" where
  "terminate_worker_sync pid exited in_time = signal_worker pid exited @ reap_worker pid in_time"

text \<open>A change restarts the worker at once; the old one is reaped by a thread of its own.\<close>

fun reload_step :: "reload_event \<Rightarrow> reloader \<Rightarrow> reload_outcome" where
  "reload_step (NoChange exited new) r =
     (if \<not> exited then Watching r []
      else if rl_crashes r + 1 \<ge> max_crash_retries then GaveUp (r\<lparr>rl_crashes := rl_crashes r + 1\<rparr>)
      else Watching \<lparr>rl_worker = new, rl_crashes = rl_crashes r + 1\<rparr> [Forked 0 new])"
| "reload_step (FilesChanged exited new) r =
     Watching \<lparr>rl_worker = new, rl_crashes = 0\<rparr> (signal_worker (rl_worker r) exited @ [Forked 0 new])"

fun reload_run :: "reload_event list \<Rightarrow> reloader \<Rightarrow> reload_outcome" where
  "reload_run [] r = Watching r []"
| "reload_run (e # es) r =
     (case reload_step e r of
        GaveUp r' \<Rightarrow> GaveUp r'
      | Watching r' acts \<Rightarrow>
          (case reload_run es r' of Watching r'' acts' \<Rightarrow> Watching r'' (acts @ acts') | GaveUp r'' \<Rightarrow> GaveUp r''))"

subsection \<open>Properties: workers are kept\<close>

text \<open>Every worker has exactly one process, and in the mode with socket pairs its socket is open.\<close>

definition fully_staffed :: "nat \<Rightarrow> (nat, nat) dict \<Rightarrow> bool" where
  "fully_staffed n d \<longleftrightarrow> dict_wf d \<and> distinct (map snd d) \<and> snd ` set d = {0..<n}"

definition supervised :: "bool \<Rightarrow> nat \<Rightarrow> supervisor \<Rightarrow> bool" where
  "supervised reuse n sv \<longleftrightarrow> fully_staffed n (sv_children sv) \<and> (\<not> reuse \<longrightarrow> length (sv_socks sv) = n \<and> None \<notin> set (sv_socks sv))"

text \<open>The states the loop reaches, when \<open>fork\<close> never returns the number of a process that is still to be waited for.\<close>

inductive sup_reach :: "bool \<Rightarrow> nat \<Rightarrow> nat list \<Rightarrow> nat list \<Rightarrow> int list \<Rightarrow> supervisor \<Rightarrow> bool" for reuse n socks pids ts where
  sup_start: "sup_reach reuse n socks pids ts (supervisor_init reuse n socks pids ts)"
| sup_step: "sup_reach reuse n socks pids ts sv \<Longrightarrow> fork_step reuse tk sv = Running sv' acts
     \<Longrightarrow> (\<And>pid. tk_pid tk = Some pid \<Longrightarrow> pid \<notin> fst ` set (sv_children sv)) \<Longrightarrow> sup_reach reuse n socks pids ts sv'"

lemma dict_set_new: "k \<notin> fst ` set d \<Longrightarrow> dict_set k v d = d @ [(k, v)]"
  unfolding dict_set_def by (induction d) auto

lemma dict_del_split:
  fixes a b :: "('a, 'b) dict"
  assumes "k \<notin> fst ` set a" and "k \<notin> fst ` set b"
  shows "dict_del k (a @ (k, v) # b) = a @ b"
proof -
  have del: "filter (\<lambda>(k', _). k \<noteq> k') c = c" if "k \<notin> fst ` set c" for c :: "('a, 'b) dict"
    using delete_id [OF that] by (simp add: AList.delete_eq)
  show ?thesis using del [OF assms(1)] del [OF assms(2)] by (simp add: dict_del_def AList.delete_eq)
qed

lemma staffed_restart:
  assumes "fully_staffed n d" and "map_of d pid = Some w" and "new \<notin> fst ` set d"
  shows "fully_staffed n (dict_set new w (dict_del pid d))" and "w < n"
proof -
  have wf: "distinct (map fst d)" and vals: "distinct (map snd d)" "snd ` set d = {0..<n}" using assms(1) by (auto simp: fully_staffed_def dict_wf_def)
  from assms(2) have mem: "(pid, w) \<in> set d" by (rule map_of_SomeD)
  then show "w < n" using vals(2) by force
  from mem obtain a b where d: "d = a @ (pid, w) # b" by (auto simp: in_set_conv_decomp)
  have "pid \<notin> fst ` set a" "pid \<notin> fst ` set b" using wf d by auto
  then have del: "dict_del pid d = a @ b" unfolding d by (rule dict_del_split)
  have "new \<notin> fst ` set (a @ b)" using assms(3) d by auto
  from dict_set_new [OF this] have set: "dict_set new w (a @ b) = a @ b @ [(new, w)]" by simp
  show "fully_staffed n (dict_set new w (dict_del pid d))"
    unfolding del set fully_staffed_def dict_wf_def using wf vals assms(3) by (auto simp: d)
qed

lemma start_workers_staffed:
  "distinct (map fst (sv_children sv) @ map (\<lambda>x. fst (snd x)) ws) \<Longrightarrow>
   sv_children (start_workers ws sv) = sv_children sv @ map (\<lambda>(w, pid, t). (pid, w)) ws \<and> sv_socks (start_workers ws sv) = sv_socks sv"
proof (induction ws arbitrary: sv)
  case (Cons x ws)
  obtain w pid t where x: "x = (w, pid, t)" by (cases x)
  have "pid \<notin> fst ` set (sv_children sv)" using Cons.prems x by auto
  from dict_set_new [OF this] Cons.IH Cons.prems show ?case by (simp add: x)
qed simp

lemma init_supervised:
  assumes "distinct pids" and "length pids = n" and "length ts = n" and "length socks = n"
  shows "supervised reuse n (supervisor_init reuse n socks pids ts)"
proof -
  let ?ws = "zip [0..<n] (zip pids ts)"
  have p: "map (\<lambda>x. fst (snd x)) ?ws = pids" using assms by (intro nth_equalityI) simp_all
  have w: "map fst ?ws = [0..<n]" using assms by simp
  have "sv_children (supervisor_init reuse n socks pids ts) = map (\<lambda>(w, pid, t). (pid, w)) ?ws"
    and socks: "sv_socks (supervisor_init reuse n socks pids ts) = (if reuse then [] else map Some socks)"
    using start_workers_staffed [of "\<lparr>sv_children = [], sv_streak = map (\<lambda>i. (i, 0)) [0..<n], sv_started = [],
        sv_socks = (if reuse then [] else map Some (take n socks)), sv_shutdown = False\<rparr>" ?ws] p assms by (simp_all add: supervisor_init_def)
  then have k: "map fst (sv_children (supervisor_init reuse n socks pids ts)) = pids" and v: "map snd (sv_children (supervisor_init reuse n socks pids ts)) = [0..<n]"
    using p w by (simp_all add: comp_def split_def)
  have "snd ` set (sv_children (supervisor_init reuse n socks pids ts)) = {0..<n}" using arg_cong [OF v, of set] by simp
  then show ?thesis using k v socks assms by (auto simp: supervised_def fully_staffed_def dict_wf_def)
qed

lemma supervised_step:
  assumes "supervised reuse n sv" and "fork_step reuse tk sv = Running sv' acts" and "\<And>pid. tk_pid tk = Some pid \<Longrightarrow> pid \<notin> fst ` set (sv_children sv)"
  shows "supervised reuse n sv'"
proof (cases "\<exists>pid w. tk_wait tk = WaitChild pid \<and> map_of (sv_children sv) pid = Some w")
  case False
  then have "sv_children sv' = sv_children sv \<and> sv_socks sv' = sv_socks sv"
    using assms(2) by (auto simp: fork_step_def Let_def split: wait_result.splits option.splits if_splits)
  then show ?thesis using assms(1) by (simp add: supervised_def)
next
  case True
  then obtain pid w where w: "tk_wait tk = WaitChild pid" "map_of (sv_children sv) pid = Some w" by blast
  let ?sv1 = "sv\<lparr>sv_children := dict_del pid (sv_children sv), sv_shutdown := tk_late_signal tk\<rparr>"
  from assms(2) w have r: "restart_worker reuse tk w ?sv1 = Running sv' acts"
    by (auto simp: fork_step_def Let_def split: if_splits)
  then obtain new where new: "tk_pid tk = Some new" by (cases "tk_pid tk") (auto simp: restart_worker_def Let_def split: prod.splits)
  have st: "fully_staffed n (sv_children sv)" using assms(1) by (simp add: supervised_def)
  note k = staffed_restart [OF st w(2) assms(3) [OF new]]
  have c: "sv_children sv' = dict_set new w (dict_del pid (sv_children sv))"
    and s: "\<not> reuse \<Longrightarrow> sv_socks sv' = (sv_socks sv)[w := Some (tk_sock tk)]"
    using r new by (auto simp: restart_worker_def close_sock_def Let_def split: prod.splits if_splits option.splits)
  have "None \<notin> set ((sv_socks sv)[w := Some (tk_sock tk)])" if "None \<notin> set (sv_socks sv)"
    using that set_update_subset_insert [of "sv_socks sv" w "Some (tk_sock tk)"] by auto
  then show ?thesis using assms(1) k(1) c s unfolding supervised_def by auto
qed

text \<open>
  C25: No worker is lost: in every state the supervising loop reaches, each of the \<open>n\<close> workers has exactly one
  process, whatever exits and in whatever order, and in the mode with socket pairs the accept
  loop has an open socket for each.
\<close>

theorem workers_kept:
  assumes "sup_reach reuse n socks pids ts sv" and "distinct pids" and "length pids = n" and "length ts = n" and "length socks = n"
  shows "supervised reuse n sv"
  using assms(1)
proof (induction rule: sup_reach.induct)
  case sup_start
  show ?case by (rule init_supervised [OF assms(2-)])
next
  case (sup_step sv tk sv' acts)
  then show ?case using supervised_step by blast
qed

text \<open>Three workers, of which the second exits and is started again.\<close>

theorem workers_kept_witness:
  "\<exists>sv. fork_step True \<lparr>tk_signal = False, tk_wait = WaitChild 11, tk_late_signal = False, tk_now = 50, tk_later = 60, tk_pid = Some 20, tk_sock = 0\<rparr>
      (supervisor_init True 3 [0, 0, 0] [10, 11, 12] [0, 0, 0]) = Running sv [Forked 1 20]
     \<and> supervised True 3 sv"
proof -
  let ?tk = "\<lparr>tk_signal = False, tk_wait = WaitChild 11, tk_late_signal = False, tk_now = 50, tk_later = 60, tk_pid = Some 20, tk_sock = 0\<rparr>"
  let ?sv = "supervisor_init True 3 [0, 0, 0] [10, 11, 12] [0, 0, 0]"
  have ch: "sv_children ?sv = [(10, 0), (11, 1), (12, 2)]" "sv_streak ?sv = [(0, 0), (1, 0), (2, 0)]" "sv_started ?sv = [(0, 0), (1, 0), (2, 0)]" "\<not> sv_shutdown ?sv"
    by (simp_all add: supervisor_init_def upt_rec dict_set_def)
  then obtain sv where step: "fork_step True ?tk ?sv = Running sv [Forked 1 20]"
    by (simp add: fork_step_def restart_worker_def next_streak_def backoff_def Let_def)
  have "sup_reach True 3 [0, 0, 0] [10, 11, 12] [0, 0, 0] sv"
    by (rule sup_step [OF sup_start step]) (auto simp: ch)
  from workers_kept [OF this] step show ?thesis by simp
qed

lemma poll_procs_result:
  "sp_procs (fst (poll_procs exited now ps sp)) = filter (\<lambda>p. \<not> (exited (fst p) \<and> fst p \<in> fst ` set ps)) (sp_procs sp)
   \<and> snd (poll_procs exited now ps sp) = map snd (filter (\<lambda>p. exited (fst p)) ps)"
proof (induction exited now ps sp rule: poll_procs.induct)
  case (2 exited now key w ps sp)
  show ?case
  proof (cases "exited key")
    case True
    have "filter (\<lambda>p. \<not> (exited (fst p) \<and> fst p \<in> fst ` set ps)) (dict_del key (sp_procs sp))
        = filter (\<lambda>p. \<not> (exited (fst p) \<and> fst p \<in> fst ` set ((key, w) # ps))) (sp_procs sp)"
      using True unfolding dict_del_def AList.delete_eq by (simp, intro filter_cong) auto
    with 2(1) [OF True] True show ?thesis by (auto split: prod.splits)
  next
    case False
    have "filter (\<lambda>p. \<not> (exited (fst p) \<and> fst p \<in> fst ` set ps)) (sp_procs sp)
        = filter (\<lambda>p. \<not> (exited (fst p) \<and> fst p \<in> fst ` set ((key, w) # ps))) (sp_procs sp)"
      using False by (intro filter_cong) auto
    with 2(2) [OF False] False show ?thesis by simp
  qed
qed simp

lemma respawn_result:
  "distinct (map fst (sp_procs sp) @ map (\<lambda>x. fst (snd x)) ws) \<Longrightarrow> sp_procs (fst (respawn ws sp)) = sp_procs sp @ map (\<lambda>(w, key, t). (key, w)) ws"
proof (induction ws arbitrary: sp)
  case (Cons x ws)
  obtain w key t where x: "x = (w, key, t)" by (cases x)
  let ?sp = "sp\<lparr>sp_procs := dict_set key w (sp_procs sp), sp_started := dict_set w t (sp_started sp)\<rparr>"
  have "key \<notin> fst ` set (sp_procs sp)" using Cons.prems x by auto
  from dict_set_new [OF this] Cons.IH [of ?sp] Cons.prems show ?case by (simp add: x Let_def case_prod_unfold)
qed simp

text \<open>The supervisor with subprocesses keeps its workers too.\<close>

lemma subprocesses_kept:
  assumes st: "fully_staffed n (sp_procs sp)" and "length fresh = length (filter (\<lambda>p. exited (fst p)) (sp_procs sp))"
    and "distinct (map fst fresh)" and "fst ` set fresh \<inter> fst ` set (sp_procs sp) = {}"
  shows "fully_staffed n (sp_procs (fst (subproc_step exited now fresh sp)))"
proof -
  let ?P = "\<lambda>p. exited (fst p)" and ?d = "sp_procs sp"
  let ?ws = "zip (map snd (filter ?P ?d)) fresh"
  obtain sp1 ws where poll: "poll_procs exited now ?d sp = (sp1, ws)" by fastforce
  have keep: "filter (\<lambda>p. \<not> (exited (fst p) \<and> fst p \<in> fst ` set ?d)) ?d = filter (\<lambda>p. \<not> ?P p) ?d"
    by (intro filter_cong) auto
  with poll_procs_result [of exited now ?d sp] poll have p1: "sp_procs sp1 = filter (\<lambda>p. \<not> ?P p) ?d" and ws: "ws = map snd (filter ?P ?d)" by simp_all
  have k: "map (\<lambda>x. fst (snd x)) ?ws = map fst fresh" and v: "map fst ?ws = map snd (filter ?P ?d)"
    using assms(2) by (auto intro!: nth_equalityI)
  have wf: "distinct (map fst ?d)" "distinct (map snd ?d)" "snd ` set ?d = {0..<n}" using st by (auto simp: fully_staffed_def dict_wf_def)
  have dis: "distinct (map fst (filter (\<lambda>p. \<not> ?P p) ?d) @ map fst fresh)"
    using wf(1) assms(3,4) by (auto simp: distinct_map_filter)
  have "sp_procs (fst (respawn ?ws sp1)) = filter (\<lambda>p. \<not> ?P p) ?d @ map (\<lambda>(w, key, t). (key, w)) ?ws"
    using respawn_result [of sp1 ?ws] dis k p1 by simp
  then have res: "map fst (sp_procs (fst (respawn ?ws sp1))) = map fst (filter (\<lambda>p. \<not> ?P p) ?d) @ map fst fresh"
      "map snd (sp_procs (fst (respawn ?ws sp1))) = map snd (filter (\<lambda>p. \<not> ?P p) ?d) @ map snd (filter ?P ?d)"
    using k v by (simp_all add: comp_def split_def)
  have "snd ` set (filter (\<lambda>p. \<not> ?P p) ?d) \<inter> snd ` set (filter ?P ?d) = {}"
    using wf(2) by (auto simp: distinct_map inj_on_def)
  then have "distinct (map snd (filter (\<lambda>p. \<not> ?P p) ?d) @ map snd (filter ?P ?d))" using wf(2) by (simp add: distinct_map_filter)
  moreover have "set (map snd (filter (\<lambda>p. \<not> ?P p) ?d) @ map snd (filter ?P ?d)) = {0..<n}" using wf(3) by auto
  ultimately have "fully_staffed n (sp_procs (fst (respawn ?ws sp1)))"
    unfolding fully_staffed_def dict_wf_def res(1,2) set_map [symmetric] using dis by simp
  then show ?thesis by (simp add: subproc_step_def poll ws case_prod_unfold)
qed

subsection \<open>Properties: shutting down\<close>

lemma reap_loop_rest:
  "reap_loop deadline evs ch = Some (Inr rest) \<Longrightarrow> set rest \<subseteq> set ch \<and> (\<forall>c\<in>set ch. c \<in> set rest \<or> WaitChild (fst c) \<in> snd ` set evs)"
proof (induction deadline evs ch rule: reap_loop.induct)
  case (2 deadline now w evs ch)
  show ?case
  proof (cases "ch = [] \<or> \<not> now < deadline \<or> w = ChildProcessError")
    case True
    then show ?thesis using 2(3) by (auto split: if_splits)
  next
    case False
    then show ?thesis using 2 by (cases w) (auto simp: dict_del_def AList.delete_eq; blast)+
  qed
qed (auto split: if_splits)

lemma reap_loop_ends:
  "\<lbrakk>\<exists>e\<in>set evs. deadline \<le> fst e; InterruptedError \<notin> snd ` set evs\<rbrakk> \<Longrightarrow> \<exists>rest. reap_loop deadline evs ch = Some (Inr rest)"
proof (induction deadline evs ch rule: reap_loop.induct)
  case (2 deadline now w evs ch)
  then show ?case by (cases w) auto
qed auto

text \<open>
  Shutting down leaves no worker: once the clock has passed the deadline the supervisor is done; it has signalled
  every child, and each child was either reported as exited or killed.
\<close>

theorem shutdown_leaves_none:
  assumes "\<exists>e\<in>set evs. t0 + 5000 \<le> fst e" and "InterruptedError \<notin> snd ` set evs"
  shows "\<exists>acts. shut_down t0 evs sv = Some (Inr acts) \<and> (\<forall>(pid, w)\<in>set (sv_children sv).
    Signalled pid \<in> set acts \<and> (WaitChild pid \<in> snd ` set evs \<or> Killed pid \<in> set acts))"
proof -
  obtain rest where r: "reap_loop (t0 + 5000) evs (sv_children sv) = Some (Inr rest)" using reap_loop_ends [OF assms] by blast
  let ?acts = "map (\<lambda>c. Signalled (fst c)) (sv_children sv) @ map (\<lambda>c. Killed (fst c)) rest @ map Closed (List.map_filter id (sv_socks sv))"
  have "Signalled pid \<in> set ?acts \<and> (WaitChild pid \<in> snd ` set evs \<or> Killed pid \<in> set ?acts)" if "(pid, w) \<in> set (sv_children sv)" for pid w
  proof -
    have "(pid, w) \<in> set rest \<or> WaitChild pid \<in> snd ` set evs" using bspec [OF conjunct2 [OF reap_loop_rest [OF r]] that] by (simp only: fst_conv)
    then show ?thesis using that by force
  qed
  moreover have "shut_down t0 evs sv = Some (Inr ?acts)" by (simp add: shut_down_def r)
  ultimately show ?thesis by blast
qed

theorem shutdown_leaves_none_witness:
  "\<exists>acts. shut_down 0 [(100, WaitChild 10), (5000, WaitNothing)] (supervisor_init True 2 [0, 0] [10, 11] [0, 0]) = Some (Inr acts)
     \<and> (\<forall>(pid, w)\<in>set (sv_children (supervisor_init True 2 [0, 0] [10, 11] [0, 0])).
          Signalled pid \<in> set acts \<and> (WaitChild pid \<in> snd ` set [(100 :: int, WaitChild 10), (5000, WaitNothing)] \<or> Killed pid \<in> set acts))"
  by (rule shutdown_leaves_none) simp_all

text \<open>So does the supervisor with subprocesses.\<close>

lemma subproc_shutdown_leaves_none:
  "(key, w) \<in> set (sp_procs sp) \<Longrightarrow>
    Signalled key \<in> set (subproc_shut_down in_time sp) \<and> (in_time key \<or> Killed key \<in> set (subproc_shut_down in_time sp))"
  by (force simp: subproc_shut_down_def)

subsection \<open>Properties: handing out connections\<close>

lemma pick_worker_finds:
  assumes "socks \<noteq> []"
  shows "(\<exists>j<k. socks ! ((idx + j) mod length socks) \<noteq> None) \<Longrightarrow> \<exists>w idx'. pick_worker k idx socks = (Some w, idx') \<and> w < length socks \<and> socks ! w \<noteq> None"
proof (induction k arbitrary: idx)
  case (Suc k)
  show ?case
  proof (cases "socks ! (idx mod length socks) = None")
    case True
    from Suc.prems obtain j where j: "j < Suc k" "socks ! ((idx + j) mod length socks) \<noteq> None" by blast
    with True obtain i where "j = Suc i" by (cases j) auto
    with j have "\<exists>i<k. socks ! ((Suc idx + i) mod length socks) \<noteq> None" by auto
    from Suc.IH [OF this] True show ?thesis by simp
  next
    case False
    then show ?thesis using assms by simp
  qed
qed simp

lemma round_hit:
  fixes n s i :: nat
  assumes "s < n"
  shows "\<exists>j<n. (i + j) mod n = s"
proof -
  let ?j = "(s + (n - i mod n)) mod n"
  have le: "i mod n < n" using assms by simp
  have "(i + ?j) mod n = (i mod n + (s + (n - i mod n))) mod n" by (simp add: mod_add_left_eq mod_add_right_eq)
  also have "i mod n + (s + (n - i mod n)) = s + n" using le by linarith
  finally have "(i + ?j) mod n = s" using assms by simp
  moreover have "?j < n" using assms by simp
  ultimately show ?thesis by blast
qed

lemma accept_one_finds:
  assumes "s < length socks" and "socks ! s \<noteq> None"
  shows "\<exists>w idx'. accept_one idx socks = (Some w, idx') \<and> w < length socks \<and> socks ! w \<noteq> None"
proof -
  have ne: "socks \<noteq> []" using assms(1) by auto
  have "\<exists>j<length socks. socks ! ((idx + j) mod length socks) \<noteq> None" using round_hit [OF assms(1), of idx] assms(2) by auto
  from pick_worker_finds [OF ne this] show ?thesis using ne by (simp add: accept_one_def)
qed

lemma accept_loop_round: "None \<notin> set socks \<Longrightarrow> socks \<noteq> [] \<Longrightarrow>
  accept_loop (replicate m socks) idx = map (\<lambda>k. Some ((idx + k) mod length socks)) [0..<m]"
proof (induction m arbitrary: idx)
  case (Suc m)
  obtain n where n: "length socks = Suc n" using Suc.prems(2) by (cases socks) auto
  have "socks ! (idx mod length socks) \<in> set socks" using Suc.prems(2) by simp
  then have "socks ! (idx mod length socks) \<noteq> None" using Suc.prems(1) by metis
  then have "accept_one idx socks = (Some (idx mod length socks), Suc idx)"
    using Suc.prems(2) by (simp add: accept_one_def Let_def n)
  with Suc show ?case by (simp add: upt_conv_Cons map_Suc_upt [symmetric] comp_def del: upt_Suc)
qed simp

lemma round_unique:
  fixes n i :: nat
  assumes "(i + j) mod n = (i + k) mod n" and "j < n" and "k < n"
  shows "j = k"
proof -
  have "j \<ge> k" if "(i + j) mod n = (i + k) mod n" "j < n" "k < n" for j k :: nat
  proof (rule ccontr)
    assume "\<not> j \<ge> k"
    then have "n dvd (i + k) - (i + j)" using that(1) by (subst mod_eq_dvd_iff_nat [symmetric]) simp_all
    then show False using \<open>\<not> j \<ge> k\<close> that(3) by (auto dest: dvd_imp_le)
  qed
  from this [OF assms] this [OF assms(1) [symmetric] assms(3,2)] show ?thesis by simp
qed

lemma round_hits:
  fixes n w i :: nat
  assumes "w < n"
  shows "card {k. k < m \<and> (i + k) mod n = w} \<in> {m div n, Suc (m div n)}"
proof (induction m rule: less_induct)
  case (less m)
  have fin: "finite {k. k < x \<and> (i + k) mod n = w}" for x by simp
  show ?case
  proof (cases "m < n")
    case True
    then have "card {k. k < m \<and> (i + k) mod n = w} \<le> Suc 0"
      by (subst card_le_Suc0_iff_eq [OF fin]) (auto intro: round_unique [of i _ n])
    then have "card {k. k < m \<and> (i + k) mod n = w} = 0 \<or> card {k. k < m \<and> (i + k) mod n = w} = Suc 0" by linarith
    then show ?thesis using True by (simp only: div_less insert_iff) blast
  next
    case False
    let ?A = "{k. k < n \<and> (i + k) mod n = w}" and ?B = "{k. k < m - n \<and> (i + k) mod n = w}"
    have split: "{k. k < m \<and> (i + k) mod n = w} = ?A \<union> (\<lambda>k. k + n) ` ?B"
    proof (intro set_eqI iffI)
      fix k
      assume k: "k \<in> {k. k < m \<and> (i + k) mod n = w}"
      show "k \<in> ?A \<union> (\<lambda>k. k + n) ` ?B"
      proof (cases "k < n")
        case False
        then have "k - n \<in> ?B" "k = k - n + n" using k by (auto simp: le_mod_geq [symmetric] nat_diff_split)
        then show ?thesis by blast
      qed (use k in simp)
    next
      fix k
      have shift: "(i + (k + n)) mod n = (i + k) mod n" for k by (metis add.assoc mod_add_self2)
      assume "k \<in> ?A \<union> (\<lambda>k. k + n) ` ?B"
      then show "k \<in> {k. k < m \<and> (i + k) mod n = w}" using False by (auto simp: shift)
    qed
    obtain j where j: "j < n" "(i + j) mod n = w" using round_hit [OF assms, of i] by blast
    then have "?A = {j}" by (auto intro: round_unique [of i _ n])
    then have "card ?A = 1" by simp
    moreover have "card ((\<lambda>k. k + n) ` ?B) = card ?B" by (intro card_image) (simp add: inj_on_def)
    moreover have "?A \<inter> (\<lambda>k. k + n) ` ?B = {}" by auto
    ultimately have c: "card {k. k < m \<and> (i + k) mod n = w} = Suc (card ?B)"
      unfolding split by (subst card_Un_disjoint) auto
    have "m div n = Suc ((m - n) div n)" using False assms by (simp add: le_div_geq)
    moreover have "m - n < m" using False assms by simp
    ultimately show ?thesis using less [of "m - n"] c by auto
  qed
qed

lemma count_round:
  "count_list (map (\<lambda>k. Some ((i + k) mod n)) [0..<m]) (Some w) = card {k. k < m \<and> (i + k) mod n = w}"
proof -
  have "count_list (map f [0..<m]) y = card {k. k < m \<and> f k = y}" for f :: "nat \<Rightarrow> nat option" and y
  proof (induction m)
    case (Suc m)
    have "{k. k < Suc m \<and> f k = y} = (if f m = y then insert m {k. k < m \<and> f k = y} else {k. k < m \<and> f k = y})"
      by (auto simp: less_Suc_eq)
    then show ?case using Suc by simp
  qed simp
  from this [of "\<lambda>k. Some ((i + k) mod n)" "Some w"] show ?thesis by simp
qed

text \<open>
  Connections are handed out evenly: while every worker's socket is open, of \<open>m\<close> connections each of the \<open>n\<close> workers gets
  \<open>m div n\<close> or one more, whatever the position the loop is at; and while any socket is open a connection goes to a
  worker whose socket is.
\<close>

theorem connections_even:
  "(\<forall>w<length socks. None \<notin> set socks \<longrightarrow>
      count_list (accept_loop (replicate m socks) idx) (Some w) \<in> {m div length socks, Suc (m div length socks)})
   \<and> (\<forall>s<length socks. socks ! s \<noteq> None \<longrightarrow> (\<exists>w idx'. accept_one idx socks = (Some w, idx') \<and> socks ! w \<noteq> None))"
proof (intro conjI allI impI)
  fix w
  assume w: "w < length socks" "None \<notin> set socks"
  then have "socks \<noteq> []" by auto
  from accept_loop_round [OF w(2) this, of m idx] round_hits [OF w(1), of m idx]
  show "count_list (accept_loop (replicate m socks) idx) (Some w) \<in> {m div length socks, Suc (m div length socks)}"
    by (simp only: count_round)
next
  fix s
  assume "s < length socks" "socks ! s \<noteq> None"
  from accept_one_finds [OF this, of idx] show "\<exists>w idx'. accept_one idx socks = (Some w, idx') \<and> socks ! w \<noteq> None" by blast
qed

theorem connections_even_witness:
  "count_list (accept_loop (replicate 7 [Some 1, Some 2, Some 3]) 5) (Some 0) \<in> {2, 3}"
  using conjunct1 [OF connections_even [of "[Some 1, Some 2, Some 3]" 7 5]] by simp

subsection \<open>Properties: back-off\<close>

text \<open>The back-off starts at a tenth of a second, doubles and stays below two seconds.\<close>

lemma backoff_bounds: "backoff streak \<le> 2000 \<and> (streak < 5 \<longrightarrow> backoff streak = 0) \<and> (5 \<le> streak \<longrightarrow> 100 \<le> backoff streak)"
  by (auto simp: backoff_def)

lemma backoff_mono: "a \<le> b \<Longrightarrow> backoff a \<le> backoff b"
proof -
  assume ab: "a \<le> b"
  have "(100 :: nat) * 2 ^ (a - 5) \<le> 100 * 2 ^ (b - 5)" using ab by (intro mult_left_mono power_increasing) auto
  then have "min 2000 (100 * 2 ^ (a - 5)) \<le> min 2000 ((100 :: nat) * 2 ^ (b - 5))" by (intro min.mono) simp_all
  then show ?thesis using ab unfolding backoff_def by simp
qed

text \<open>A streak is over when a worker has run for ten seconds.\<close>

lemma streak_resets: "next_streak now (Some t) s = 0 \<longleftrightarrow> now - t \<ge> 10000"
  by (simp add: next_streak_def)

subsection \<open>Properties: the reloader\<close>

fun crashes_since :: "nat \<Rightarrow> reload_event list \<Rightarrow> nat" where
  "crashes_since n [] = n"
| "crashes_since n (NoChange exited new # es) = crashes_since (if exited then Suc n else n) es"
| "crashes_since n (FilesChanged exited new # es) = crashes_since 0 es"

lemma ex_take_Cons: "(\<exists>i\<le>length (x # xs). P (take i (x # xs))) \<longleftrightarrow> P [] \<or> (\<exists>i\<le>length xs. P (x # take i xs))"
proof
  assume "\<exists>i\<le>length (x # xs). P (take i (x # xs))"
  then obtain i where "i \<le> length (x # xs)" "P (take i (x # xs))" by blast
  then show "P [] \<or> (\<exists>i\<le>length xs. P (x # take i xs))" by (cases i) auto
next
  assume "P [] \<or> (\<exists>i\<le>length xs. P (x # take i xs))"
  then show "\<exists>i\<le>length (x # xs). P (take i (x # xs))"
  proof
    assume "\<exists>i\<le>length xs. P (x # take i xs)"
    then obtain i where "i \<le> length xs" "P (x # take i xs)" by blast
    then show ?thesis by (intro exI [of _ "Suc i"]) simp
  qed (auto intro: exI [of _ 0])
qed

text \<open>
  The reloader gives up at the third exit of a worker since the last change of a file, however long the
  workers ran in between: rounds in which the worker is found running do not reset the count.
\<close>

theorem reloader_gives_up:
  assumes "rl_crashes r < max_crash_retries"
  shows "(\<exists>r'. reload_run es r = GaveUp r') \<longleftrightarrow> (\<exists>i\<le>length es. max_crash_retries \<le> crashes_since (rl_crashes r) (take i es))"
  using assms
proof (induction es arbitrary: r)
  case (Cons e es)
  note split = ex_take_Cons [of e es "\<lambda>xs. max_crash_retries \<le> crashes_since (rl_crashes r) xs"]
  show ?case
  proof (cases e)
    case (FilesChanged exited new)
    have "(\<exists>r'. reload_run es \<lparr>rl_worker = new, rl_crashes = 0\<rparr> = GaveUp r') \<longleftrightarrow> (\<exists>i\<le>length es. max_crash_retries \<le> crashes_since 0 (take i es))"
      using Cons.IH [of "\<lparr>rl_worker = new, rl_crashes = 0\<rparr>"] by (simp add: max_crash_retries_def)
    with Cons.prems FilesChanged show ?thesis unfolding split by (auto split: reload_outcome.splits)
  next
    case (NoChange exited new)
    show ?thesis
    proof (cases "exited")
      case False
      with Cons.IH [OF Cons.prems] Cons.prems NoChange show ?thesis unfolding split by (auto split: reload_outcome.splits)
    next
      case exited: True
      show ?thesis
      proof (cases "rl_crashes r + 1 \<ge> max_crash_retries")
        case True
        then have "\<exists>i\<le>length es. max_crash_retries \<le> crashes_since (rl_crashes r) (e # take i es)"
          using NoChange exited by (intro exI [of _ 0]) simp
        with True NoChange exited show ?thesis unfolding split by simp
      next
        case False
        have "(\<exists>r'. reload_run es \<lparr>rl_worker = new, rl_crashes = Suc (rl_crashes r)\<rparr> = GaveUp r')
            \<longleftrightarrow> (\<exists>i\<le>length es. max_crash_retries \<le> crashes_since (Suc (rl_crashes r)) (take i es))"
          using Cons.IH [of "\<lparr>rl_worker = new, rl_crashes = Suc (rl_crashes r)\<rparr>"] False by simp
        with False Cons.prems NoChange exited show ?thesis unfolding split by (auto split: reload_outcome.splits)
      qed
    qed
  qed
qed simp

text \<open>Three exits, each after a round in which the worker was running.\<close>

theorem reloader_gives_up_witness:
  "\<exists>r'. reload_run (concat (replicate 3 [NoChange False 0, NoChange True 0])) \<lparr>rl_worker = 0, rl_crashes = 0\<rparr> = GaveUp r'"
proof -
  let ?es = "concat (replicate 3 [NoChange False 0, NoChange True 0])"
  have "max_crash_retries \<le> crashes_since 0 (take (length ?es) ?es)" by (simp add: max_crash_retries_def numeral_3_eq_3)
  then have "\<exists>i\<le>length ?es. max_crash_retries \<le> crashes_since (rl_crashes \<lparr>rl_worker = 0, rl_crashes = 0\<rparr>) (take i ?es)"
    by (intro exI [of _ "length ?es"]) simp
  then show ?thesis by (subst reloader_gives_up) (simp_all add: max_crash_retries_def)
qed

end
