(* ===== verification/Encoders.thy ===== *)
theory Encoders
  imports Url_Codec
begin

text \<open>
  \<open>astraapi/encoders.py\<close>: turning any object into one that \<open>json.dumps\<close> accepts.

  Objects live in a heap, so that they may be shared and may refer to themselves: a value is a
  primitive, a reference \<open>RefV\<close>, or a container that was just made by the code below and has no other
  reference to it (\<open>DictV\<close>, \<open>ListV\<close>). Floats are opaque. Classes of the application, and what
  its objects answer to \<open>dict(obj)\<close>, \<open>vars(obj)\<close> and pydantic's \<open>model_dump\<close>, are parameters.
\<close>

subsection \<open>Values, objects and classes\<close>

datatype pv = NoneV | BoolV bool | IntV int | FloatV nat | StrV str | BytesV bytes | RefV nat
  | DictV "(pv \<times> pv) list" | ListV "pv list"

datatype py_class =
    TBytes | TColor | TDate | TDatetime | TTime | TTimedelta | TDecimal | TEnum | TFrozenset | TDeque | TGenerator
  | TIPv4Address | TIPv4Interface | TIPv4Network | TIPv6Address | TIPv6Interface | TIPv6Network | TNameEmail
  | TPath | TPattern | TSecretBytes | TSecretStr | TSet | TUUID | TUrl | TAnyUrl
  | TNone | TBool | TInt | TFloat | TStr | TDict | TList | TClass nat

text \<open>The attributes and methods the encoders of the table use; one that is missing raises.\<close>

record attributes =
  at_str :: str
  at_isoformat :: "str option"
  at_seconds :: "nat option"
  at_pattern :: "str option"
  at_decimal :: "(int \<times> int option) option"

datatype obj =
    ODict "(pv \<times> pv) list"
  | OSequence "pv list"
  | OModel nat
  | ODataclass "(str \<times> pv) list"
  | ODataclassType
  | OEnum pv
  | OPurePath str
  | OUndefined
  | OPlain attributes bool "exn + pv" "exn + pv"

type_synonym heap = "(nat \<times> py_class \<times> obj) list"

record options =
  op_include :: "pv list option"
  op_exclude :: "pv list option"
  op_by_alias :: bool
  op_exclude_unset :: bool
  op_exclude_defaults :: bool
  op_exclude_none :: bool
  op_custom :: "(py_class \<times> (pv \<Rightarrow> exn + pv)) list"
  op_sqlalchemy_safe :: bool

definition default_options :: options where
  "default_options = \<lparr>op_include = None, op_exclude = None, op_by_alias = True, op_exclude_unset = False, op_exclude_defaults = False,
     op_exclude_none = False, op_custom = [], op_sqlalchemy_safe = True\<rparr>"

text \<open>
  The parameters: \<open>issubclass\<close>, \<open>float(dec)\<close>, the integer a float is equal to, whether an object may be a
  key of a \<open>dict\<close>, and \<open>model_dump\<close> in its JSON mode.
\<close>

record encode_env =
  en_sub :: "py_class \<Rightarrow> py_class \<Rightarrow> bool"
  en_float :: "int \<Rightarrow> int option \<Rightarrow> nat"
  en_integral :: "nat \<Rightarrow> int option"
  en_hashable :: "nat \<Rightarrow> bool"
  en_dump :: "options \<Rightarrow> nat \<Rightarrow> exn + pv"

subsection \<open>The table of encoders\<close>

datatype encoder = EDecode | EStr | EIsoformat | ETotalSeconds | EDecimal | EEnumValue | EList | EPattern

definition isoformat :: "attributes \<Rightarrow> exn + pv" where
  "isoformat ob = (case at_isoformat ob of Some s \<Rightarrow> Inr (StrV s) | None \<Rightarrow> Inl (AttributeError (S ''isoformat'')))"

text \<open>A decimal is its signed coefficient and the exponent, which is no integer for NaN and infinity.\<close>

definition decimal_encoder :: "encode_env \<Rightarrow> int \<times> int option \<Rightarrow> pv" where
  "decimal_encoder env d =
     (case d of
        (c, Some e) \<Rightarrow> if e \<ge> 0 then IntV (c * 10 ^ nat e) else FloatV (en_float env c (Some e))
      | (c, None) \<Rightarrow> FloatV (en_float env c None))"

definition encoders_by_type :: "(py_class \<times> encoder) list" where
  "encoders_by_type =
     [(TBytes, EDecode), (TColor, EStr), (TDate, EIsoformat), (TDatetime, EIsoformat), (TTime, EIsoformat),
      (TTimedelta, ETotalSeconds), (TDecimal, EDecimal), (TEnum, EEnumValue), (TFrozenset, EList), (TDeque, EList),
      (TGenerator, EList), (TIPv4Address, EStr), (TIPv4Interface, EStr), (TIPv4Network, EStr), (TIPv6Address, EStr),
      (TIPv6Interface, EStr), (TIPv6Network, EStr), (TNameEmail, EStr), (TPath, EStr), (TPattern, EPattern),
      (TSecretBytes, EStr), (TSecretStr, EStr), (TSet, EList), (TUUID, EStr), (TUrl, EStr), (TAnyUrl, EStr)]"

definition generate_encoders_by_class_tuples :: "(py_class \<times> encoder) list \<Rightarrow> (encoder, py_class list) dict" where
  "generate_encoders_by_class_tuples m = fold (\<lambda>(t, e) d. dict_set e (dict_get d e [] @ [t]) d) m []"

definition encoders_by_class_tuples :: "(encoder, py_class list) dict" where
  "encoders_by_class_tuples = generate_encoders_by_class_tuples encoders_by_type"

text \<open>Applying an encoder to an object that is no container, enumeration or \<open>bytes\<close>, as those are handled before.\<close>

fun run_encoder :: "encode_env \<Rightarrow> encoder \<Rightarrow> attributes \<Rightarrow> exn + pv" where
  "run_encoder env EStr ob = Inr (StrV (at_str ob))"
| "run_encoder env EIsoformat ob = isoformat ob"
| "run_encoder env ETotalSeconds ob =
     (case at_seconds ob of Some f \<Rightarrow> Inr (FloatV f) | None \<Rightarrow> Inl (AttributeError (S ''total_seconds'')))"
| "run_encoder env EDecimal ob =
     (case at_decimal ob of Some d \<Rightarrow> Inr (decimal_encoder env d) | None \<Rightarrow> Inl (AttributeError (S ''as_tuple'')))"
| "run_encoder env EPattern ob = (case at_pattern ob of Some s \<Rightarrow> Inr (StrV s) | None \<Rightarrow> Inl (AttributeError (S ''pattern'')))"
| "run_encoder env EDecode ob = Inl (AttributeError (S ''decode''))"
| "run_encoder env EEnumValue ob = Inl (AttributeError (S ''value''))"
| "run_encoder env EList ob = Inl (TypeError (S ''object is not iterable''))"

definition find_encoder :: "encode_env \<Rightarrow> py_class \<Rightarrow> encoder option" where
  "find_encoder env c =
     (case map_of encoders_by_type c of
        Some e \<Rightarrow> Some e
      | None \<Rightarrow> map_option fst (find (\<lambda>(e, cs). list_ex (en_sub env c) cs) encoders_by_class_tuples))"

subsection \<open>The encoder\<close>

fun is_primitive :: "pv \<Rightarrow> bool" where
  "is_primitive (BytesV b) = False"
| "is_primitive (RefV a) = False"
| "is_primitive (DictV ps) = False"
| "is_primitive (ListV vs) = False"
| "is_primitive v = True"

fun type_of :: "heap \<Rightarrow> pv \<Rightarrow> py_class" where
  "type_of h NoneV = TNone"
| "type_of h (BoolV b) = TBool"
| "type_of h (IntV i) = TInt"
| "type_of h (FloatV f) = TFloat"
| "type_of h (StrV s) = TStr"
| "type_of h (BytesV b) = TBytes"
| "type_of h (DictV ps) = TDict"
| "type_of h (ListV vs) = TList"
| "type_of h (RefV a) = (case map_of h a of Some (c, ob) \<Rightarrow> c | None \<Rightarrow> TNone)"

definition no_options :: "options \<Rightarrow> bool" where
  "no_options op \<longleftrightarrow> op_custom op = [] \<and> op_include op = None \<and> op_exclude op = None \<and> \<not> op_exclude_unset op
     \<and> \<not> op_exclude_defaults op \<and> \<not> op_exclude_none op"

definition custom_match :: "encode_env \<Rightarrow> heap \<Rightarrow> options \<Rightarrow> pv \<Rightarrow> (exn + pv) option" where
  "custom_match env h op v =
     (case map_of (op_custom op) (type_of h v) of
        Some f \<Rightarrow> Some (f v)
      | None \<Rightarrow> map_option (\<lambda>cf. snd cf v) (find (\<lambda>cf. en_sub env (type_of h v) (fst cf)) (op_custom op)))"

text \<open>Keys are compared as Python does: \<open>True\<close>, \<open>1\<close> and \<open>1.0\<close> are the same key.\<close>

fun canon :: "encode_env \<Rightarrow> pv \<Rightarrow> pv" where
  "canon env (BoolV b) = IntV (if b then 1 else 0)"
| "canon env (FloatV f) = (case en_integral env f of Some i \<Rightarrow> IntV i | None \<Rightarrow> FloatV f)"
| "canon env v = v"

fun hashable :: "encode_env \<Rightarrow> pv \<Rightarrow> bool" where
  "hashable env (DictV ps) = False"
| "hashable env (ListV vs) = False"
| "hashable env (RefV a) = en_hashable env a"
| "hashable env v = True"

definition store_item :: "encode_env \<Rightarrow> pv \<Rightarrow> pv \<Rightarrow> (pv \<times> pv) list \<Rightarrow> (pv \<times> pv) list" where
  "store_item env k v d =
     (case find (\<lambda>kv. canon env (fst kv) = canon env k) d of
        Some kv \<Rightarrow> dict_set (fst kv) v d
      | None \<Rightarrow> d @ [(k, v)])"

definition key_among :: "encode_env \<Rightarrow> pv \<Rightarrow> pv list \<Rightarrow> bool" where
  "key_among env k ks \<longleftrightarrow> list_ex (\<lambda>x. canon env x = canon env k) ks"

fun is_sa_key :: "pv \<Rightarrow> bool" where
  "is_sa_key (StrV s) = startswith s (S ''_sa'')"
| "is_sa_key v = False"

definition item_kept :: "encode_env \<Rightarrow> options \<Rightarrow> pv \<times> pv \<Rightarrow> bool" where
  "item_kept env op kv \<longleftrightarrow>
     (\<not> op_sqlalchemy_safe op \<or> \<not> is_sa_key (fst kv)) \<and> (snd kv \<noteq> NoneV \<or> \<not> op_exclude_none op)
     \<and> (case op_include op of None \<Rightarrow> True | Some ks \<Rightarrow> key_among env (fst kv) ks)
     \<and> (case op_exclude op of None \<Rightarrow> True | Some ks \<Rightarrow> \<not> key_among env (fst kv) ks)"

text \<open>The options for the keys and values of a dictionary, and those for what \<open>model_dump\<close> returned.\<close>

definition nested_options :: "options \<Rightarrow> options" where
  "nested_options op = op\<lparr>op_include := None, op_exclude := None, op_exclude_defaults := False\<rparr>"

definition dumped_options :: "options \<Rightarrow> options" where
  "dumped_options op = default_options\<lparr>op_exclude_none := op_exclude_none op, op_exclude_defaults := op_exclude_defaults op,
     op_sqlalchemy_safe := op_sqlalchemy_safe op\<rparr>"

text \<open>The number of objects not on the path yet, which decreases with each object that is entered.\<close>

definition unseen :: "heap \<Rightarrow> nat list \<Rightarrow> nat" where
  "unseen h seen = card (fst ` set h - set seen)"

lemma unseen_less: "map_of h a = Some x \<Longrightarrow> a \<notin> set seen \<Longrightarrow> unseen h (a # seen) < unseen h seen"
proof -
  assume "map_of h a = Some x" "a \<notin> set seen"
  then have "a \<in> fst ` set h - set seen" by (auto dest!: map_of_SomeD intro: rev_image_eqI)
  then show ?thesis unfolding unseen_def by (intro psubset_card_mono) auto
qed

text \<open>
  \<open>seen\<close> are the objects on the path from the first call. The two auxiliary functions are the loops over
  the items of a dictionary and of a sequence.
\<close>

function (sequential)
  jsonable_encoder :: "encode_env \<Rightarrow> heap \<Rightarrow> options \<Rightarrow> nat list \<Rightarrow> pv \<Rightarrow> exn + pv"
  and encode_items :: "encode_env \<Rightarrow> heap \<Rightarrow> options \<Rightarrow> nat list \<Rightarrow> (pv \<times> pv) list \<Rightarrow> (pv \<times> pv) list \<Rightarrow> exn + (pv \<times> pv) list"
  and encode_list :: "encode_env \<Rightarrow> heap \<Rightarrow> options \<Rightarrow> nat list \<Rightarrow> pv list \<Rightarrow> exn + pv list"
where
  "jsonable_encoder env h op seen (RefV a) =
     (if a \<in> set seen then Inr NoneV
      else case custom_match env h op (RefV a) of
             Some r \<Rightarrow> r
           | None \<Rightarrow>
               (case map_of h a of
                  None \<Rightarrow> Inl (RuntimeError (S ''no such object''))
                | Some (c, ODict ps) \<Rightarrow> rbind (encode_items env h op (a # seen) ps []) (\<lambda>d. Inr (DictV d))
                | Some (c, OSequence vs) \<Rightarrow> rbind (encode_list env h op (a # seen) vs) (\<lambda>l. Inr (ListV l))
                | Some (c, OModel m) \<Rightarrow>
                    rbind (en_dump env op m) (\<lambda>d. jsonable_encoder env h (dumped_options op) (a # seen) d)
                | Some (c, ODataclass fs) \<Rightarrow>
                    jsonable_encoder env h op (a # seen) (DictV (map (\<lambda>(n, v). (StrV n, v)) fs))
                | Some (c, ODataclassType) \<Rightarrow> Inl (AssertionError [])
                | Some (c, OEnum v) \<Rightarrow> Inr v
                | Some (c, OPurePath s) \<Rightarrow> Inr (StrV s)
                | Some (c, OUndefined) \<Rightarrow> Inr NoneV
                | Some (c, OPlain attrs v1 as_dict as_vars) \<Rightarrow>
                    (case find_encoder env c of
                       Some e \<Rightarrow> run_encoder env e attrs
                     | None \<Rightarrow>
                         if v1 then Inl (AstraAPIError (S ''pydantic.v1 models are no longer supported by AstraAPI.''))
                         else (case as_dict of
                                 Inr d \<Rightarrow> jsonable_encoder env h op (a # seen) d
                               | Inl _ \<Rightarrow>
                                   (case as_vars of
                                      Inr d \<Rightarrow> jsonable_encoder env h op (a # seen) d
                                    | Inl _ \<Rightarrow> Inl (ValueError []))))))"
| "jsonable_encoder env h op seen (DictV ps) =
     (case custom_match env h op (DictV ps) of
        Some r \<Rightarrow> r
      | None \<Rightarrow> rbind (encode_items env h op seen ps []) (\<lambda>d. Inr (DictV d)))"
| "jsonable_encoder env h op seen (ListV vs) =
     (case custom_match env h op (ListV vs) of
        Some r \<Rightarrow> r
      | None \<Rightarrow> rbind (encode_list env h op seen vs) (\<lambda>l. Inr (ListV l)))"
| "jsonable_encoder env h op seen (BytesV b) =
     (case custom_match env h op (BytesV b) of
        Some r \<Rightarrow> r
      | None \<Rightarrow> rbind (utf8_decode b) (\<lambda>s. Inr (StrV s)))"
| "jsonable_encoder env h op seen v =
     (if no_options op then Inr v
      else case custom_match env h op v of Some r \<Rightarrow> r | None \<Rightarrow> Inr v)"
| "encode_items env h op seen [] acc = Inr acc"
| "encode_items env h op seen ((k, v) # ps) acc =
     (if item_kept env op (k, v)
      then rbind (jsonable_encoder env h (nested_options op) seen k) (\<lambda>k'.
           rbind (jsonable_encoder env h (nested_options op) seen v) (\<lambda>v'.
             if hashable env k' then encode_items env h op seen ps (store_item env k' v' acc)
             else Inl (TypeError (S ''unhashable type''))))
      else encode_items env h op seen ps acc)"
| "encode_list env h op seen [] = Inr []"
| "encode_list env h op seen (v # vs) =
     rbind (jsonable_encoder env h op seen v) (\<lambda>v'. rbind (encode_list env h op seen vs) (\<lambda>l. Inr (v' # l)))"
  by pat_completeness auto

termination
  by (relation "measures
       [\<lambda>x. case x of Inl (env, h, op, seen, v) \<Rightarrow> unseen h seen
                    | Inr (Inl (env, h, op, seen, ps, acc)) \<Rightarrow> unseen h seen
                    | Inr (Inr (env, h, op, seen, vs)) \<Rightarrow> unseen h seen,
        \<lambda>x. case x of Inl (env, h, op, seen, v) \<Rightarrow> size v
                    | Inr (Inl (env, h, op, seen, ps, acc)) \<Rightarrow> size_list (size_prod size size) ps
                    | Inr (Inr (env, h, op, seen, vs)) \<Rightarrow> size_list size vs]")
     (auto simp: unseen_less)

lemmas encoder_induct = jsonable_encoder_encode_items_encode_list.induct

declare jsonable_encoder.simps(1) [simp del]

subsection \<open>Properties: the result is JSON\<close>

fun json_value :: "pv \<Rightarrow> bool" where
  "json_value (BytesV b) = False"
| "json_value (RefV a) = False"
| "json_value (DictV ps) = (\<forall>kv\<in>set ps. is_primitive (fst kv) \<and> json_value (snd kv))"
| "json_value (ListV vs) = (\<forall>v\<in>set vs. json_value v)"
| "json_value v = True"

text \<open>What encoders given by the user and members of enumerations return is passed on as it is.\<close>

definition custom_json :: "options \<Rightarrow> bool" where
  "custom_json op \<longleftrightarrow> (\<forall>cf\<in>set (op_custom op). \<forall>v r. snd cf v = Inr r \<longrightarrow> json_value r)"

definition enums_json :: "heap \<Rightarrow> bool" where
  "enums_json h \<longleftrightarrow> (\<forall>a c v. map_of h a = Some (c, OEnum v) \<longrightarrow> json_value v)"

lemma custom_json_simps [simp]:
  "custom_json (nested_options op) = custom_json op" "custom_json (dumped_options op)"
  by (simp_all add: custom_json_def nested_options_def dumped_options_def default_options_def)

lemma find_member: "find P xs = Some x \<Longrightarrow> x \<in> set xs \<and> P x"
  by (auto simp: find_Some_iff)

lemma custom_match_member: "custom_match env h op v = Some r \<Longrightarrow> \<exists>cf\<in>set (op_custom op). r = snd cf v"
  unfolding custom_match_def by (auto split: option.splits dest!: map_of_SomeD find_member intro: rev_bexI)

lemma custom_match_json: "custom_json op \<Longrightarrow> custom_match env h op v = Some (Inr r) \<Longrightarrow> json_value r"
  by (metis custom_match_member custom_json_def)

lemma run_encoder_json: "run_encoder env e attrs = Inr r \<Longrightarrow> json_value r"
  by (cases e) (auto simp: isoformat_def decimal_encoder_def split: option.splits prod.splits if_splits)

lemma json_hashable: "json_value k \<Longrightarrow> hashable env k \<Longrightarrow> is_primitive k"
  by (cases k) auto

lemma store_item_json:
  "json_value (DictV d) \<Longrightarrow> is_primitive k \<Longrightarrow> json_value v \<Longrightarrow> json_value (DictV (store_item env k v d))"
  using dict_set_subset [of _ v d] by (fastforce simp: store_item_def split: option.splits dest: find_member)

lemma encoder_json:
  shows "enums_json h \<Longrightarrow> custom_json op \<Longrightarrow> jsonable_encoder env h op seen v = Inr r \<Longrightarrow> json_value r"
    and "enums_json h \<Longrightarrow> custom_json op \<Longrightarrow> json_value (DictV acc) \<Longrightarrow> encode_items env h op seen ps acc = Inr d \<Longrightarrow> json_value (DictV d)"
    and "enums_json h \<Longrightarrow> custom_json op \<Longrightarrow> encode_list env h op seen vs = Inr l \<Longrightarrow> json_value (ListV l)"
proof (induction env h op seen v and env h op seen ps acc and env h op seen vs arbitrary: r and d and l rule: encoder_induct)
  case (1 env h op seen a)
  show ?case
  proof (cases "a \<in> set seen \<or> custom_match env h op (RefV a) \<noteq> None")
    case True
    then show ?thesis using "1.prems" custom_match_json by (auto simp: jsonable_encoder.simps(1) split: if_splits option.splits)
  next
    case False
    then obtain c ob where ob: "map_of h a = Some (c, ob)" using "1.prems" by (auto simp: jsonable_encoder.simps(1) split: option.splits)
    note now = False ob "1.prems"
    show ?thesis
    proof (cases ob)
      case (OModel m)
      then show ?thesis using now "1.IH"(3) by (auto simp: jsonable_encoder.simps(1))
    next
      case (OEnum v)
      then show ?thesis using now by (auto simp: jsonable_encoder.simps(1) enums_json_def)
    next
      case (OPlain at v1 d1 d2)
      then show ?thesis using now "1.IH"(5,6) run_encoder_json
        by (auto simp: jsonable_encoder.simps(1) split: option.splits if_splits sum.splits)
    qed (use now "1.IH"(1,2,4) in \<open>auto simp: jsonable_encoder.simps(1)\<close>)
  qed
next
  case (7 env h op seen k v ps acc)
  then show ?case
    by (auto split: if_splits simp del: json_value.simps(3) simp: store_item_json json_hashable [of _ env])
qed (use custom_match_json in \<open>auto split: option.splits if_splits\<close>)

text \<open>
  Whatever the encoder returns can be written as JSON: no reference to an object and no bytes are left, and all
  keys are primitive. Only members of enumerations and the results of the user's own encoders are
  not checked, so they have to be JSON themselves.
\<close>

theorem encoded_is_json:
  assumes "enums_json h" and "custom_json op" and "jsonable_encoder env h op seen v = Inr r"
  shows "json_value r"
  by (rule encoder_json(1) [OF assms])

subsection \<open>Properties: object graphs\<close>

text \<open>Graphs of dictionaries and sequences over primitives, in which an object may refer to any other and to itself.\<close>

definition plain_value :: "heap \<Rightarrow> pv \<Rightarrow> bool" where
  "plain_value h v \<longleftrightarrow> is_primitive v \<or> (\<exists>a. v = RefV a \<and> map_of h a \<noteq> None)"

definition plain_graph :: "heap \<Rightarrow> bool" where
  "plain_graph h \<longleftrightarrow> (\<forall>(a, c, ob)\<in>set h.
     (\<exists>ps. ob = ODict ps \<and> (\<forall>(k, v)\<in>set ps. is_primitive k \<and> plain_value h v))
     \<or> (\<exists>vs. ob = OSequence vs \<and> (\<forall>v\<in>set vs. plain_value h v)))"

lemma no_custom [simp]: "op_custom op = [] \<Longrightarrow> custom_match env h op v = None" "op_custom (nested_options op) = op_custom op"
  by (simp_all add: custom_match_def nested_options_def)

lemma primitive_encoded [simp]: "is_primitive v \<Longrightarrow> op_custom op = [] \<Longrightarrow> jsonable_encoder env h op seen v = Inr v"
  by (cases v) simp_all

lemma primitive_hashable [simp]: "is_primitive v \<Longrightarrow> hashable env v"
  by (cases v) simp_all

lemma encoder_total:
  shows "plain_graph h \<Longrightarrow> plain_value h v \<Longrightarrow> op_custom op = [] \<Longrightarrow> \<exists>r. jsonable_encoder env h op seen v = Inr r"
    and "plain_graph h \<Longrightarrow> \<forall>(k, v)\<in>set ps. is_primitive k \<and> plain_value h v \<Longrightarrow> op_custom op = [] \<Longrightarrow> \<exists>d. encode_items env h op seen ps acc = Inr d"
    and "plain_graph h \<Longrightarrow> \<forall>v\<in>set vs. plain_value h v \<Longrightarrow> op_custom op = [] \<Longrightarrow> \<exists>l. encode_list env h op seen vs = Inr l"
proof (induction env h op seen v and env h op seen ps acc and env h op seen vs rule: encoder_induct)
  case (1 env h op seen a)
  then obtain c ob where ob: "map_of h a = Some (c, ob)" by (auto simp: plain_value_def)
  then have "(a, c, ob) \<in> set h" by (rule map_of_SomeD)
  with "1.prems"(1) consider ps where "ob = ODict ps" "\<forall>(k, v)\<in>set ps. is_primitive k \<and> plain_value h v"
    | vs where "ob = OSequence vs" "\<forall>v\<in>set vs. plain_value h v" unfolding plain_graph_def by force
  then show ?case
  proof cases
    case 1
    with "1.IH"(1) [OF _ _ ob] "1.prems" ob show ?thesis by (auto simp: jsonable_encoder.simps(1))
  next
    case 2
    with "1.IH"(2) [OF _ _ ob] "1.prems" ob show ?thesis by (auto simp: jsonable_encoder.simps(1))
  qed
next
  case (7 env h op seen k v ps acc)
  then show ?case by (cases "item_kept env op (k, v)") (auto simp: nested_options_def)
next
  case (9 env h op seen v vs)
  then show ?case by auto
qed (simp_all add: plain_value_def)

text \<open>
  C15: Every graph of dictionaries and lists is encoded, also a cyclic one: the encoder returns, it returns JSON and does not
  raise.
\<close>

theorem cyclic_graph_encoded:
  assumes "plain_graph h" and "plain_value h v" and "op_custom op = []"
  shows "\<exists>r. jsonable_encoder env h op seen v = Inr r \<and> json_value r"
proof -
  obtain r where r: "jsonable_encoder env h op seen v = Inr r" using encoder_total(1) [OF assms] by blast
  have "enums_json h" using assms(1) by (fastforce simp: enums_json_def plain_graph_def dest!: map_of_SomeD)
  moreover have "custom_json op" using assms(3) by (simp add: custom_json_def)
  ultimately show ?thesis using r encoder_json(1) by blast
qed

text \<open>
  The tree a value stands for: what one gets by following all references. A value that has a tree
  lies on no cycle, but an object may occur in the tree any number of times.
\<close>

inductive tree :: "heap \<Rightarrow> pv \<Rightarrow> pv \<Rightarrow> bool" for h where
  tree_primitive: "is_primitive v \<Longrightarrow> tree h v v"
| tree_dict: "\<lbrakk>map_of h a = Some (c, ODict ps); list_all2 (\<lambda>kv kt. fst kt = fst kv \<and> is_primitive (fst kv) \<and> tree h (snd kv) (snd kt)) ps qs\<rbrakk>
    \<Longrightarrow> tree h (RefV a) (DictV qs)"
| tree_list: "\<lbrakk>map_of h a = Some (c, OSequence vs); list_all2 (tree h) vs ts\<rbrakk> \<Longrightarrow> tree h (RefV a) (ListV ts)"

inductive_cases tree_RefE: "tree h (RefV a) t"

text \<open>Dictionaries with keys that differ for Python, and none that looks like SQLAlchemy's.\<close>

fun proper :: "encode_env \<Rightarrow> pv \<Rightarrow> bool" where
  "proper env (DictV ps) = (distinct (map (canon env \<circ> fst) ps) \<and> (\<forall>kv\<in>set ps. \<not> is_sa_key (fst kv) \<and> proper env (snd kv)))"
| "proper env (ListV vs) = (\<forall>v\<in>set vs. proper env v)"
| "proper env v = True"

lemma list_all2_functional:
  "\<lbrakk>list_all2 Q xs ys; list_all2 R xs zs; \<And>x y z. Q x y \<Longrightarrow> R x z \<Longrightarrow> y = z\<rbrakk> \<Longrightarrow> ys = zs"
  by (induction arbitrary: zs rule: list_all2_induct) (auto simp: list_all2_Cons1)

lemma tree_unique: "tree h v t \<Longrightarrow> tree h v t' \<Longrightarrow> t = t'"
proof (induction arbitrary: t' rule: tree.induct)
  case (tree_primitive v)
  from tree_primitive(2,1) show ?case by (cases rule: tree.cases) auto
next
  case (tree_dict a c ps qs)
  from tree_dict.prems obtain rs where t': "t' = DictV rs" "list_all2 (\<lambda>kv kt. fst kt = fst kv \<and> is_primitive (fst kv) \<and> tree h (snd kv) (snd kt)) ps rs"
    using tree_dict.hyps(1) by (auto elim: tree_RefE)
  show ?case unfolding t'(1) pv.inject by (rule list_all2_functional [OF tree_dict.IH t'(2)]) (auto intro: prod_eqI)
next
  case (tree_list a c vs ts)
  from tree_list.prems obtain rs where t': "t' = ListV rs" "list_all2 (tree h) vs rs"
    using tree_list.hyps(1) by (auto elim: tree_RefE)
  show ?case unfolding t'(1) pv.inject by (rule list_all2_functional [OF tree_list.IH t'(2)]) auto
qed

definition plain_options :: "options \<Rightarrow> bool" where
  "plain_options op \<longleftrightarrow> op_custom op = [] \<and> op_include op = None \<and> op_exclude op = None \<and> \<not> op_exclude_none op"

lemma plain_options_nested [simp]: "plain_options op \<Longrightarrow> plain_options (nested_options op)"
  by (simp add: plain_options_def nested_options_def)

lemma plain_options_kept [simp]: "plain_options op \<Longrightarrow> \<not> is_sa_key k \<Longrightarrow> item_kept env op (k, v)"
  by (simp add: plain_options_def item_kept_def)

lemma items_exact:
  "\<lbrakk>list_all2 (\<lambda>kv kt. fst kt = fst kv \<and> is_primitive (fst kv) \<and> jsonable_encoder env h (nested_options op) seen (snd kv) = Inr (snd kt)) ps qs;
    plain_options op; \<forall>kt\<in>set qs. \<not> is_sa_key (fst kt); distinct (map (canon env \<circ> fst) (acc @ qs))\<rbrakk>
   \<Longrightarrow> encode_items env h op seen ps acc = Inr (acc @ qs)"
proof (induction arbitrary: acc rule: list_all2_induct)
  case (Cons kv ps kt qs)
  obtain k v t where k: "kv = (k, v)" "kt = (k, t)" using Cons.hyps(1) by (metis prod.collapse)
  have "find (\<lambda>kv. canon env (fst kv) = canon env k) acc = None"
    using Cons.prems(3) unfolding find_None_iff k by force
  then have "store_item env k t acc = acc @ [(k, t)]" by (simp add: store_item_def)
  moreover have "encode_items env h op seen ps (acc @ [(k, t)]) = Inr ((acc @ [(k, t)]) @ qs)"
    using Cons.prems by (intro Cons.IH) (simp_all add: k)
  ultimately show ?case using Cons.hyps(1) Cons.prems by (simp add: k plain_options_def [of op])
qed simp

lemma list_exact:
  "list_all2 (\<lambda>v t. jsonable_encoder env h op seen v = Inr t) vs ts \<Longrightarrow> encode_list env h op seen vs = Inr ts"
  by (induction rule: list_all2_induct) auto

lemma size_part: "kt \<in> set qs \<Longrightarrow> size (snd kt) < size (DictV qs)" "t \<in> set ts \<Longrightarrow> size t < size (ListV ts)"
  by (induction qs; induction ts; auto simp: size_prod_simp)+

lemma tree_encoded:
  "\<lbrakk>tree h v t; proper env t; plain_options op; \<And>a t'. a \<in> set seen \<Longrightarrow> tree h (RefV a) t' \<Longrightarrow> size t < size t'\<rbrakk>
   \<Longrightarrow> jsonable_encoder env h op seen v = Inr t"
proof (induction arbitrary: op seen rule: tree.induct)
  case (tree_primitive v)
  then show ?case by (simp add: plain_options_def)
next
  case (tree_dict a c ps qs)
  have self: "tree h (RefV a) (DictV qs)"
    by (rule tree.tree_dict [OF tree_dict.hyps(1)]) (rule list.rel_mono_strong [OF tree_dict.IH], blast)
  then have fresh: "a \<notin> set seen" using tree_dict.prems(3) by blast
  have below: "size (snd kt) < size t'" if "kt \<in> set qs" "x \<in> set (a # seen)" "tree h (RefV x) t'" for kt x t'
    using size_part(1) [OF that(1)] tree_dict.prems(3) [of x t'] that(2,3) tree_unique [OF self] by fastforce
  have "encode_items env h op (a # seen) ps [] = Inr ([] @ qs)"
  proof (rule items_exact)
    show "list_all2 (\<lambda>kv kt. fst kt = fst kv \<and> is_primitive (fst kv) \<and> jsonable_encoder env h (nested_options op) (a # seen) (snd kv) = Inr (snd kt)) ps qs"
      by (rule list.rel_mono_strong [OF tree_dict.IH]) (use tree_dict.prems(1,2) below in auto)
  qed (use tree_dict.prems in auto)
  with fresh tree_dict.hyps(1) tree_dict.prems(2) show ?case by (simp add: jsonable_encoder.simps(1) plain_options_def)
next
  case (tree_list a c vs ts)
  have self: "tree h (RefV a) (ListV ts)"
    by (rule tree.tree_list [OF tree_list.hyps(1)]) (rule list.rel_mono_strong [OF tree_list.IH], blast)
  then have fresh: "a \<notin> set seen" using tree_list.prems(3) by blast
  have below: "size t < size t'" if "t \<in> set ts" "x \<in> set (a # seen)" "tree h (RefV x) t'" for t x t'
    using size_part(2) [OF that(1)] tree_list.prems(3) [of x t'] that(2,3) tree_unique [OF self] by fastforce
  have "encode_list env h op (a # seen) vs = Inr ts"
    by (rule list_exact, rule list.rel_mono_strong [OF tree_list.IH]) (use tree_list.prems(1,2) below in auto)
  with fresh tree_list.hyps(1) tree_list.prems(2) show ?case by (simp add: jsonable_encoder.simps(1) plain_options_def)
qed

text \<open>
  A graph without cycles is encoded as the tree it stands for, item by item and in order: the cycle
  check takes no shared object for a cycle.
\<close>

theorem shared_objects_encoded:
  assumes "tree h v t" and "proper env t" and "plain_options op"
  shows "jsonable_encoder env h op [] v = Inr t"
  by (rule tree_encoded [OF assms]) simp

subsection \<open>Properties: the table\<close>

text \<open>The encoder found for a class is that of a class of the table it is, or is derived from.\<close>

lemma class_tuples:
  "(e, cs) \<in> set (generate_encoders_by_class_tuples m) \<Longrightarrow> c \<in> set cs \<Longrightarrow> (c, e) \<in> set m"
proof (induction m arbitrary: e cs c rule: rev_induct)
  case Nil
  then show ?case by (simp add: generate_encoders_by_class_tuples_def)
next
  case (snoc te m)
  obtain t e' where te: "te = (t, e')" by force
  let ?d = "generate_encoders_by_class_tuples m"
  have "(e, cs) \<in> insert (e', dict_get ?d e' [] @ [t]) (set ?d)"
    using snoc.prems(1) dict_set_subset [of e' "dict_get ?d e' [] @ [t]" ?d] by (auto simp: generate_encoders_by_class_tuples_def te)
  then show ?case using snoc.prems(2) snoc.IH by (auto simp: te dict_get_def split: option.splits dest!: map_of_SomeD)
qed

lemma found_encoder:
  "find_encoder env c = Some e \<Longrightarrow> (\<And>x. en_sub env x x) \<Longrightarrow> \<exists>t. (t, e) \<in> set encoders_by_type \<and> en_sub env c t"
  using class_tuples [of _ _ encoders_by_type]
  by (fastforce simp: find_encoder_def encoders_by_class_tuples_def list_ex_iff split: option.splits dest!: map_of_SomeD find_member)

text \<open>A decimal without fraction keeps its exact value.\<close>

lemma decimal_exact: "decimal_encoder env (c, Some (int e)) = IntV (c * 10 ^ e)"
  by (simp add: decimal_encoder_def)

subsection \<open>Examples\<close>

text \<open>A dictionary with a list twice, and a list that contains itself.\<close>

definition shared_heap :: heap where
  "shared_heap = [(1, TDict, ODict [(StrV (S ''a''), RefV 2), (StrV (S ''b''), RefV 2)]), (2, TList, OSequence [IntV 5, NoneV])]"

definition cyclic_heap :: heap where
  "cyclic_heap = [(1, TList, OSequence [IntV 5, RefV 1])]"

definition plain_env :: encode_env where
  "plain_env = \<lparr>en_sub = (=), en_float = (\<lambda>c e. 0), en_integral = (\<lambda>f. None), en_hashable = (\<lambda>a. True), en_dump = (\<lambda>op m. Inr NoneV)\<rparr>"

theorem encoded_is_json_witness:
  "jsonable_encoder plain_env cyclic_heap default_options [] (RefV 1) = Inr (ListV [IntV 5, NoneV]) \<and> json_value (ListV [IntV 5, NoneV])"
proof -
  have r: "jsonable_encoder plain_env cyclic_heap default_options [] (RefV 1) = Inr (ListV [IntV 5, NoneV])"
    by (simp add: jsonable_encoder.simps(1) cyclic_heap_def custom_match_def default_options_def)
  have "enums_json cyclic_heap" "custom_json default_options"
    by (simp_all add: enums_json_def custom_json_def default_options_def cyclic_heap_def)
  from encoded_is_json [OF this r] r show ?thesis by blast
qed

theorem cyclic_graph_encoded_witness:
  "\<exists>r. jsonable_encoder plain_env cyclic_heap default_options [] (RefV 1) = Inr r \<and> json_value r"
  by (rule cyclic_graph_encoded) (simp_all add: plain_graph_def plain_value_def cyclic_heap_def default_options_def)

theorem shared_objects_encoded_witness:
  "jsonable_encoder plain_env shared_heap default_options [] (RefV 1)
     = Inr (DictV [(StrV (S ''a''), ListV [IntV 5, NoneV]), (StrV (S ''b''), ListV [IntV 5, NoneV])])"
proof (rule shared_objects_encoded)
  have two: "tree shared_heap (RefV 2) (ListV [IntV 5, NoneV])"
    by (rule tree_list [of _ _ TList "[IntV 5, NoneV]"]) (simp add: shared_heap_def, simp add: tree_primitive)
  show "tree shared_heap (RefV 1) (DictV [(StrV (S ''a''), ListV [IntV 5, NoneV]), (StrV (S ''b''), ListV [IntV 5, NoneV])])"
    by (rule tree_dict [of _ _ TDict "[(StrV (S ''a''), RefV 2), (StrV (S ''b''), RefV 2)]"]) (simp add: shared_heap_def, simp add: two)
qed (simp_all add: plain_options_def default_options_def S_def)

end
