(* ===== verification/Mounting.thy ===== *)
theory Mounting
  imports Routing Responses
begin

text \<open>
  Applications below a path: the endpoint that hands a request to a mounted application
  (\<open>applications.py\<close>, registration of mounts with the server) and the application most often mounted,
  \<open>StaticFiles\<close> (\<open>_staticfiles.py\<close>). The mounted application is a function of its scope and of
  the events it may receive; the file system and the MIME table are parameters, as in \<open>Responses\<close>.
  47 is the slash, 46 the full stop.
\<close>

subsection \<open>The mount endpoint\<close>

definition sub_path :: "str \<Rightarrow> str \<Rightarrow> str" where
  "sub_path prefix path =
     (let p = drop (length (rstrip 47 prefix)) path; q = (if p = [] then [47] else p)
      in if startswith q [47] then q else 47 # q)"

definition header_bytes :: "hval \<Rightarrow> bytes res" where
  "header_bytes v = (case v of HB b \<Rightarrow> Inr b | HS s \<Rightarrow> latin1_encode s)"

definition mount_headers :: "raw_headers \<Rightarrow> raw_headers res" where
  "mount_headers raw =
     rmap (\<lambda>(n, v). rbind (header_bytes n) (\<lambda>nb. rbind (header_bytes v) (\<lambda>vb. Inr (HB nb, HB vb)))) raw"

text \<open>The request as the server keeps it in its context variables, where an empty value counts as missing.\<close>

definition or_else :: "'a list \<Rightarrow> 'a list \<Rightarrow> 'a list" where
  "or_else s dflt = (if s = [] then dflt else s)"

record request_context =
  rx_headers :: raw_headers
  rx_method :: str
  rx_path :: str
  rx_body :: bytes
  rx_query :: hval

definition mount_scope :: "str \<Rightarrow> request_context \<Rightarrow> raw_headers \<Rightarrow> scope" where
  "mount_scope prefix rx hds =
     \<lparr>sc_type = S ''http'', sc_method = Some (or_else (rx_method rx) (S ''GET'')), sc_path = Some (sub_path prefix (or_else (rx_path rx) [47])),
      sc_root_path = Some (rstrip 47 prefix), sc_scheme = Some (S ''http''), sc_server = Some (S ''127.0.0.1'', 8000),
      sc_client = None, sc_query = Some (case rx_query rx of HB q \<Rightarrow> HB q | HS s \<Rightarrow> HB []), sc_headers = Some hds,
      sc_path_params = None, sc_endpoint = None, sc_app_root_path = None, sc_app = False, sc_body = None\<rparr>"

definition mount_ws_scope :: "str \<Rightarrow> str \<Rightarrow> scope \<Rightarrow> scope" where
  "mount_ws_scope prefix path sc = sc\<lparr>sc_path := Some (sub_path prefix path), sc_root_path := Some (rstrip 47 prefix)\<rparr>"

text \<open>The events \<open>_receive\<close> delivers one after another: the whole body, then disconnects.\<close>

definition mount_receive :: "bytes \<Rightarrow> nat \<Rightarrow> event" where
  "mount_receive body i = (if i = 0 then HttpRequest (Some body) (Some False) else HttpDisconnect)"

record collected =
  cl_status :: int
  cl_headers :: resp_headers
  cl_body :: bytes

fun mount_send :: "message \<Rightarrow> collected \<Rightarrow> collected" where
  "mount_send (RespStart st hs) cl = cl\<lparr>cl_status := st, cl_headers := get_or hs []\<rparr>"
| "mount_send (RespBody b m) cl = cl\<lparr>cl_body := cl_body cl @ body_bytes b\<rparr>"
| "mount_send (OtherMsg t) cl = cl"

text \<open>\<open>response.headers[name] = value\<close>, where \<open>headers\<close> is a new view of the raw list with every access.\<close>

definition headers_view :: "resp_headers \<Rightarrow> raw_headers" where
  "headers_view hs = map (\<lambda>(n, v). (HB n, HB v)) hs"

fun raw_of :: "hval \<Rightarrow> bytes" where
  "raw_of (HB b) = b"
| "raw_of (HS s) = map char_of s"

definition assign_header :: "str \<Rightarrow> str \<Rightarrow> response \<Rightarrow> response res" where
  "assign_header n v r =
     rbind (mh_init (Some (headers_view (r_raw r))) None) (\<lambda>m.
     rbind (mh_setitem m n v) (\<lambda>m'. Inr (r\<lparr>r_raw := map (\<lambda>(n, v). (raw_of n, raw_of v)) (mh_raw m')\<rparr>)))"

fun copy_headers :: "resp_headers \<Rightarrow> response \<Rightarrow> response res" where
  "copy_headers [] r = Inr r"
| "copy_headers ((n, v) # hs) r =
     (if lower (latin1_decode n) = S ''content-length'' then copy_headers hs r
      else rbind (assign_header (latin1_decode n) (latin1_decode v) r) (\<lambda>r'. copy_headers hs r'))"

definition mount_endpoint :: "(scope \<Rightarrow> (nat \<Rightarrow> event) \<Rightarrow> message list res) \<Rightarrow> str \<Rightarrow> request_context \<Rightarrow> response res" where
  "mount_endpoint app prefix rx =
     rbind (mount_headers (rx_headers rx)) (\<lambda>hds.
     rbind (app (mount_scope prefix rx hds) (mount_receive (rx_body rx))) (\<lambda>ms.
       (let cl = fold mount_send ms \<lparr>cl_status = 200, cl_headers = [], cl_body = []\<rparr> in
        rbind (response_init None (CBytes (cl_body cl)) (cl_status cl) None None False) (\<lambda>r.
          copy_headers (cl_headers cl) r))))"

subsection \<open>Paths\<close>

text \<open>\<open>os.path.join\<close> and \<open>os.path.normpath\<close> of two arguments, on POSIX.\<close>

definition path_join :: "str \<Rightarrow> str \<Rightarrow> str" where
  "path_join a b = (if startswith b [47] then b else if a = [] \<or> endswith a [47] then a @ b else a @ 47 # b)"

definition dot :: str where
  "dot = [46]"

definition dotdot :: str where
  "dotdot = [46, 46]"

text \<open>The loop over the components; \<open>acc\<close> is the result in reverse.\<close>

fun collapse :: "bool \<Rightarrow> str list \<Rightarrow> str list \<Rightarrow> str list" where
  "collapse rooted [] acc = rev acc"
| "collapse rooted (c # cs) acc =
     (if c = [] \<or> c = dot then collapse rooted cs acc
      else if c \<noteq> dotdot \<or> (\<not> rooted \<and> acc = []) \<or> (acc \<noteq> [] \<and> hd acc = dotdot) then collapse rooted cs (c # acc)
      else collapse rooted cs (tl acc))"

definition normpath :: "str \<Rightarrow> str" where
  "normpath path =
     (if path = [] then dot
      else let rooted = startswith path [47];
               slashes = (if startswith path [47, 47] \<and> \<not> startswith path [47, 47, 47] then 2 else if rooted then 1 else 0);
               p = replicate slashes 47 @ join [47] (collapse rooted (split_on 47 path) [])
           in if p = [] then dot else p)"

subsection \<open>StaticFiles\<close>

record static_files =
  sf_directories :: "str list"
  sf_html :: bool

datatype package = PkgName str | PkgPair str str

text \<open>\<open>resource\<close> is \<open>importlib.resources.files(name) / dir\<close>, \<open>None\<close> where it raises an error that is ignored.\<close>

definition package_dir :: "(str \<Rightarrow> str \<Rightarrow> str option) \<Rightarrow> package \<Rightarrow> str option" where
  "package_dir resource p = (case p of PkgName n \<Rightarrow> resource n (S ''statics'') | PkgPair n d \<Rightarrow> resource n d)"

definition static_init ::
  "(str \<Rightarrow> bool) \<Rightarrow> (str \<Rightarrow> str \<Rightarrow> str option) \<Rightarrow> str option \<Rightarrow> package list \<Rightarrow> bool \<Rightarrow> bool \<Rightarrow> static_files res" where
  "static_init isdir resource directory packages html check_dir =
     rbind (case directory of
              None \<Rightarrow> Inr []
            | Some d \<Rightarrow> if check_dir \<and> \<not> isdir d then Inl (RuntimeError (S ''Directory '' @ 39 # d @ 39 # S '' does not exist'')) else Inr [d])
       (\<lambda>ds. Inr \<lparr>sf_directories = ds @ List.map_filter (package_dir resource) packages, sf_html = html\<rparr>)"

record os_path =
  os_isfile :: "str \<Rightarrow> bool"
  os_isdir :: "str \<Rightarrow> bool"

definition lookup_in :: "os_path \<Rightarrow> bool \<Rightarrow> str \<Rightarrow> str \<Rightarrow> str option" where
  "lookup_in fsys html rel directory =
     (let p = normpath (path_join directory rel); index = path_join p (S ''index.html'') in
      if \<not> startswith p (normpath directory) then None
      else if os_isfile fsys p then Some p
      else if html \<and> os_isdir fsys p \<and> os_isfile fsys index then Some index
      else None)"

text \<open>The file to send with its status, if any.\<close>

definition static_lookup :: "os_path \<Rightarrow> static_files \<Rightarrow> str \<Rightarrow> (str \<times> int) option" where
  "static_lookup fsys sf rel =
     (case List.map_filter (lookup_in fsys (sf_html sf) rel) (sf_directories sf) of
        p # _ \<Rightarrow> Some (p, 200)
      | [] \<Rightarrow>
          if sf_html sf
          then map_option (\<lambda>d. (path_join d (S ''404.html''), 404))
                 (find (\<lambda>d. os_isfile fsys (path_join d (S ''404.html''))) (sf_directories sf))
          else None)"

definition static_call ::
  "os_path \<Rightarrow> file_system \<Rightarrow> (str \<Rightarrow> str option) \<Rightarrow> static_files \<Rightarrow> scope \<Rightarrow> message list res" where
  "static_call fsys fs guess sf sc =
     rbind (rassert (sc_type sc = S ''http'') (AssertionError [])) (\<lambda>_.
       (case static_lookup fsys sf (lstrip 47 (get_or (sc_path sc) [47])) of
          Some (p, status) \<Rightarrow>
            rbind (file_response_init fs guess p status None None False None None (Some (get_or (sc_method sc) (S ''GET''))) (S ''attachment''))
              (\<lambda>r. rbind (file_response_call fs r) (\<lambda>(ms, bg, r'). Inr ms))
        | None \<Rightarrow>
            rbind (plain_text_response_init (CText (S ''Not Found'')) 404 None None False)
              (\<lambda>r. Inr (fst (response_call r)))))"

subsection \<open>Properties: mounted applications\<close>

text \<open>A header name as the server sends it: lower case already.\<close>

definition lowered :: "bytes \<Rightarrow> bool" where
  "lowered n \<longleftrightarrow> latin1_encode (lower (latin1_decode n)) = Inr n"

lemma lowered_blower: "lowered n \<Longrightarrow> blower n = n"
  unfolding lowered_def by (rule lower_latin1)

lemma mh_init_view: "\<exists>m. mh_init (Some (headers_view hs)) None = Inr m \<and> mh_raw m = headers_view hs"
proof -
  have "\<exists>ix'. mh_index_loop (headers_view hs) i ix = Inr ix'" for i ix
    by (induction hs arbitrary: i ix) (auto simp: headers_view_def name_key_def)
  then obtain ix where "mh_index_loop (headers_view hs) 0 [] = Inr ix" by blast
  then show ?thesis by (simp add: mh_init_def)
qed

lemma raw_of_view: "map (\<lambda>(n, v). (raw_of n, raw_of v)) (headers_view hs) = hs"
  by (induction hs) (auto simp: headers_view_def)

lemma assign_header_fresh:
  assumes "lowered n" and "n \<notin> fst ` set (r_raw r)" and "\<forall>h\<in>set (r_raw r). lowered (fst h)"
  shows "assign_header (latin1_decode n) (latin1_decode v) r = Inr (r\<lparr>r_raw := r_raw r @ [(n, v)]\<rparr>)"
proof -
  obtain m where m: "mh_init (Some (headers_view (r_raw r))) None = Inr m" "mh_raw m = headers_view (r_raw r)"
    using mh_init_view by blast
  have "map_of (mh_index m) n = None"
  proof (rule ccontr)
    assume "map_of (mh_index m) n \<noteq> None"
    then obtain i where "(n, i) \<in> set (mh_index m)" by (auto dest: map_of_SomeD)
    then have "i < length (mh_raw m)" "name_key (fst (mh_raw m ! i)) = Inr n"
      using mh_init_ok [OF m(1)] by (auto simp: mh_ok_def)
    then have "i < length (r_raw r)" "blower (fst (r_raw r ! i)) = n"
      by (auto simp: m(2) headers_view_def name_key_def split: prod.splits)
    then show False using assms(2,3) lowered_blower by (metis image_eqI nth_mem)
  qed
  then show ?thesis using m assms(1) raw_of_view [of "r_raw r"]
    by (simp add: assign_header_def mh_setitem_def str_key_def lowered_def mh_store_def)
qed

lemma lowered_content_length: "lowered n \<Longrightarrow> lower (latin1_decode n) = S ''content-length'' \<longleftrightarrow> n = ''content-length''"
proof -
  assume "lowered n"
  then have "latin1_decode n = lower (latin1_decode n)" unfolding lowered_def using latin1_decode_encode by metis
  then show ?thesis by (metis latin1_decode_S latin1_decode_inj)
qed

lemma copy_headers_distinct:
  "\<lbrakk>\<forall>h\<in>set hs. lowered (fst h); distinct (map fst hs); \<forall>h\<in>set (r_raw r). lowered (fst h); ''content-length'' \<in> fst ` set (r_raw r);
    fst ` set hs \<inter> fst ` set (r_raw r) \<subseteq> {''content-length''}\<rbrakk>
   \<Longrightarrow> copy_headers hs r = Inr (r\<lparr>r_raw := r_raw r @ filter (\<lambda>h. fst h \<noteq> ''content-length'') hs\<rparr>)"
proof (induction hs arbitrary: r)
  case (Cons h hs)
  obtain n v where h: "h = (n, v)" by force
  show ?case
  proof (cases "n = ''content-length''")
    case True
    then show ?thesis using Cons.prems by (simp add: h lowered_content_length Cons.IH)
  next
    case False
    let ?r = "r\<lparr>r_raw := r_raw r @ [(n, v)]\<rparr>"
    have "n \<notin> fst ` set (r_raw r)" using Cons.prems(5) False by (auto simp: h)
    then have "assign_header (latin1_decode n) (latin1_decode v) r = Inr ?r"
      using Cons.prems by (intro assign_header_fresh) (auto simp: h)
    moreover have "copy_headers hs ?r = Inr (?r\<lparr>r_raw := r_raw ?r @ filter (\<lambda>h. fst h \<noteq> ''content-length'') hs\<rparr>)"
      using Cons.prems by (intro Cons.IH) (auto simp: h)
    ultimately show ?thesis using False Cons.prems(1) by (simp add: h lowered_content_length)
  qed
qed simp

lemma lowered_literals: "lowered ''content-length''" "lowered ''set-cookie''"
proof -
  have "lower (S ''content-length'') = S ''content-length''" "lower (S ''set-cookie'') = S ''set-cookie''"
    by (simp_all add: lower_def S_def lower_cp_def)
  then show "lowered ''content-length''" "lowered ''set-cookie''" by (simp_all add: lowered_def latin1_decode_S)
qed

text \<open>What a complete sequence of messages stands for.\<close>

lemma collect_body: "fold mount_send (map (\<lambda>(b, m). RespBody b m) bs) cl = cl\<lparr>cl_body := cl_body cl @ concat (map (body_bytes \<circ> fst) bs)\<rparr>"
  by (induction bs arbitrary: cl) auto

text \<open>
  A mounted application's response arrives unchanged: its status, the concatenation of its body chunks and
  all its headers in their order, with the length of the body computed anew. This needs distinct
  header names: of several headers with the same name only one is kept.
\<close>

theorem mounted_response:
  assumes "mount_headers (rx_headers rx) = Inr hds"
    and "app (mount_scope prefix rx hds) (mount_receive (rx_body rx)) = Inr (RespStart st (Some hs) # map (\<lambda>(b, m). RespBody b m) bs)"
    and "st \<noteq> 204" and "st \<noteq> 304" and "\<forall>h\<in>set hs. lowered (fst h)" and "distinct (map fst hs)"
  shows "mount_endpoint app prefix rx = Inr
    \<lparr>r_status = st, r_media = None, r_body = concat (map (body_bytes \<circ> fst) bs),
     r_raw = (''content-length'', num_bytes (length (concat (map (body_bytes \<circ> fst) bs)))) # filter (\<lambda>h. fst h \<noteq> ''content-length'') hs,
     r_background = False\<rparr>"
proof -
  let ?body = "concat (map (body_bytes \<circ> fst) bs)"
  let ?r = "\<lparr>r_status = st, r_media = None, r_body = ?body, r_raw = [(''content-length'', num_bytes (length ?body))], r_background = False\<rparr> :: response"
  have "response_init None (CBytes ?body) st None None False = Inr ?r"
    using assms(3,4) by (simp add: response_init_def render_def encode_headers_def populate_content_headers_def set_content_type_def set_raw_header_def)
  moreover have "copy_headers hs ?r = Inr (?r\<lparr>r_raw := r_raw ?r @ filter (\<lambda>h. fst h \<noteq> ''content-length'') hs\<rparr>)"
    using assms(5,6) by (intro copy_headers_distinct) (auto simp: lowered_literals)
  ultimately show ?thesis using assms(1,2) by (simp add: mount_endpoint_def collect_body)
qed

text \<open>Of two cookies the application sets, the client sees the second only.\<close>

lemma mounted_cookies_lost:
  "copy_headers [(''set-cookie'', a), (''set-cookie'', b)] (r\<lparr>r_raw := []\<rparr>) = Inr (r\<lparr>r_raw := [(''set-cookie'', b)]\<rparr>)"
proof -
  note low = lowered_literals(2)
  have "assign_header (latin1_decode ''set-cookie'') (latin1_decode b) (r\<lparr>r_raw := [(''set-cookie'', a)]\<rparr>) = Inr (r\<lparr>r_raw := [(''set-cookie'', b)]\<rparr>)"
    using low lowered_blower [OF low]
    by (simp add: assign_header_def mh_init_def headers_view_def name_key_def mh_setitem_def str_key_def mh_store_def lowered_def dict_set_def)
  with assign_header_fresh [OF low, of "r\<lparr>r_raw := []\<rparr>" a] lowered_content_length [OF low] show ?thesis by simp
qed

lemma rstrip_id: "\<not> endswith s [c] \<Longrightarrow> rstrip c s = s"
  by (cases s rule: rev_cases) (auto simp: endswith_def rstrip_def)

text \<open>
  The routes of an application mounted at a prefix see the path below the prefix, except when that begins with
  the prefix again: then the prefix is taken away twice.
\<close>

theorem mounted_route_path:
  assumes "prefix \<noteq> []" and "\<not> endswith prefix [47]" and "startswith rest [47]" and "or_else (rx_path rx) [47] = prefix @ rest"
  shows "get_route_path (mount_scope prefix rx hds) =
    Inr (if rest = prefix then [] else if startswith rest (prefix @ [47]) then drop (length prefix) rest else rest)"
proof -
  have "rest \<noteq> []" using assms(3) by auto
  then have "sub_path prefix (prefix @ rest) = rest" using assms(2,3) by (simp add: sub_path_def rstrip_id)
  moreover have "rest ! length prefix = 47 \<longleftrightarrow> startswith rest (prefix @ [47])" if "startswith rest prefix" "rest \<noteq> prefix"
    using that by (auto simp: startswith_iff neq_Nil_conv nth_append)
  moreover have "startswith rest prefix" if "startswith rest (prefix @ [47])" using that by (auto simp: startswith_iff)
  moreover have "startswith prefix prefix" using startswith_append [of prefix "[]"] by simp
  ultimately show ?thesis using assms(1,2,4) by (auto simp: get_route_path_def mount_scope_def rstrip_id)
qed

subsection \<open>Properties: static files\<close>

text \<open>Names of files and directories, and the absolute paths made of them.\<close>

definition file_name :: "str \<Rightarrow> bool" where
  "file_name c \<longleftrightarrow> c \<noteq> [] \<and> c \<noteq> dot \<and> c \<noteq> dotdot \<and> 47 \<notin> set c"

definition abs_path :: "str list \<Rightarrow> str" where
  "abs_path cs = 47 # join [47] cs"

lemma collapse_names: "\<forall>c\<in>set cs. file_name c \<Longrightarrow> collapse rooted (cs @ xs) acc = collapse rooted xs (rev cs @ acc)"
  by (induction cs arbitrary: acc) (auto simp: file_name_def)

lemma collapse_dots: "\<forall>c\<in>set acc. file_name c \<Longrightarrow> collapse True (replicate n dotdot @ xs) acc = collapse True xs (drop n acc)"
proof (induction n arbitrary: acc)
  case (Suc n)
  have "dotdot \<noteq> []" "dotdot \<noteq> dot" "acc \<noteq> [] \<Longrightarrow> hd acc \<noteq> dotdot" using Suc.prems by (cases acc; simp add: dot_def dotdot_def file_name_def)+
  moreover have "\<forall>c\<in>set (tl acc). file_name c" using Suc.prems by (cases acc) auto
  ultimately show ?case using Suc.IH [of "tl acc"] by (auto simp: drop_Suc)
qed simp

lemma names_tl: "list_all file_name acc \<Longrightarrow> list_all file_name (tl acc) \<and> \<not> (acc \<noteq> [] \<and> hd acc = dotdot)"
  by (cases acc) (simp_all add: file_name_def)

lemma collapse_result:
  "\<lbrakk>list_all file_name acc; \<forall>x\<in>set xs. 47 \<notin> set x\<rbrakk> \<Longrightarrow> list_all file_name (collapse True xs acc)"
proof (induction xs arbitrary: acc)
  case (Cons x xs)
  have IH: "list_all file_name (collapse True xs acc')" if "list_all file_name acc'" for acc'
    using Cons.IH [OF that] Cons.prems(2) by simp
  consider "x = [] \<or> x = dot" | "file_name x" | "x = dotdot" "x \<noteq> []" "x \<noteq> dot"
    using Cons.prems(2) by (auto simp: file_name_def)
  then show ?case
  proof cases
    case 1
    then show ?thesis using IH Cons.prems(1) by simp
  next
    case 2
    then have "collapse True (x # xs) acc = collapse True xs (x # acc)" by (simp add: file_name_def)
    then show ?thesis using IH [of "x # acc"] Cons.prems(1) 2 by (simp del: collapse.simps)
  next
    case 3
    then have "collapse True (x # xs) acc = collapse True xs (tl acc)" using names_tl [OF Cons.prems(1)] by auto
    then show ?thesis using IH [of "tl acc"] names_tl [OF Cons.prems(1)] by (simp del: collapse.simps)
  qed
qed simp

lemma join_append_lists: "xs \<noteq> [] \<Longrightarrow> ys \<noteq> [] \<Longrightarrow> join sep (xs @ ys) = join sep xs @ sep @ join sep ys"
  by (induction xs rule: list_nonempty_induct) (auto simp: join_Cons)

lemma normpath_abs:
  assumes "xs \<noteq> []" and "\<forall>x\<in>set xs. 47 \<notin> set x" and "hd xs \<noteq> [] \<or> tl xs = []"
  shows "normpath (abs_path xs) = abs_path (collapse True xs [])"
proof -
  have "split_on 47 (abs_path xs) = [] # xs" using split_on_join [of xs 47] assms(1,2) by (simp add: abs_path_def)
  moreover have "\<not> startswith (abs_path xs) [47, 47]"
    using assms by (cases xs rule: remdups_adj.cases) (auto simp: abs_path_def neq_Nil_conv startswith_iff)
  ultimately show ?thesis by (simp add: normpath_def abs_path_def)
qed

lemma join_below:
  assumes "\<forall>c\<in>set ds. file_name c" and "\<not> startswith rel [47]"
  shows "path_join (abs_path ds) rel = abs_path (ds @ split_on 47 rel)"
proof (cases ds rule: rev_cases)
  case Nil
  then show ?thesis using assms(2) by (simp add: path_join_def abs_path_def endswith_def join_split_on)
next
  case (snoc ds' c)
  have "c \<noteq> []" "last c \<noteq> 47" using assms(1) snoc by (auto simp: file_name_def) (metis last_in_set)
  then have "\<not> endswith (abs_path ds) [47]" unfolding snoc
    using join_snoc [of ds' "[47]" c] by (cases "ds' = []") (auto simp: endswith_iff abs_path_def dest!: arg_cong [of _ _ last])
  then show ?thesis using assms(2) snoc join_append_lists [of ds "split_on 47 rel" "[47]"] by (simp add: path_join_def abs_path_def join_split_on)
qed

text \<open>Where a request path leads, below a directory.\<close>

lemma resolve_below:
  assumes "\<forall>c\<in>set ds. file_name c" and "\<not> startswith rel [47]"
  shows "normpath (path_join (abs_path ds) rel) = abs_path (collapse True (split_on 47 rel) (rev ds))"
proof -
  let ?xs = "ds @ split_on 47 rel"
  have parts: "\<forall>x\<in>set ?xs. 47 \<notin> set x" using assms(1) split_on_pieces [of _ 47 rel] by (auto simp: file_name_def)
  have "hd ?xs \<noteq> [] \<or> tl ?xs = []"
  proof (cases ds)
    case Nil
    then show ?thesis using assms(2) by (cases rel) auto
  qed (use assms(1) in \<open>auto simp: file_name_def\<close>)
  then show ?thesis using normpath_abs [OF _ parts] collapse_names [OF assms(1)] by (simp add: join_below [OF assms])
qed

lemma collapse_keeps: "\<forall>c\<in>set cs. file_name c \<Longrightarrow> collapse True cs acc = rev acc @ cs"
  using collapse_names [of cs True "[]"] by simp

lemma directory_normal: "\<forall>c\<in>set ds. file_name c \<Longrightarrow> normpath (abs_path ds) = abs_path ds"
proof (cases ds)
  case Nil
  then show ?thesis by (simp add: normpath_def abs_path_def)
next
  case (Cons c cs)
  assume "\<forall>c\<in>set ds. file_name c"
  then show ?thesis using normpath_abs [of ds] collapse_keeps [of ds "[]"] Cons by (auto simp: file_name_def)
qed

lemma names_path: "\<forall>c\<in>set cs. c \<noteq> [] \<and> 47 \<notin> set c \<Longrightarrow> \<not> startswith (join [47] cs) [47]"
  by (cases cs rule: remdups_adj.cases) (auto simp: startswith_iff neq_Nil_conv)

lemma lstrip_id: "\<not> startswith s [c] \<Longrightarrow> lstrip c s = s"
  by (cases s) (auto simp: lstrip_def)

lemma lstrip_front: "\<not> startswith (lstrip c s) [c]"
  by (induction s) (auto simp: lstrip_def)

text \<open>
  C16: Exactly these files can be fetched from an absolute directory: the regular files whose normal path begins with
  the path of the directory, as strings. No file outside the directory is served except from a
  neighbour whose name continues the directory's name, and those can all be fetched.
\<close>

theorem static_reach:
  assumes "\<forall>c\<in>set ds. file_name c"
  shows "(\<exists>path. static_lookup fsys \<lparr>sf_directories = [abs_path ds], sf_html = False\<rparr> (lstrip 47 path) = Some (p, 200))
    \<longleftrightarrow> os_isfile fsys p \<and> startswith p (abs_path ds) \<and> (\<exists>cs. (\<forall>c\<in>set cs. file_name c) \<and> p = abs_path cs)"
proof
  assume "\<exists>path. static_lookup fsys \<lparr>sf_directories = [abs_path ds], sf_html = False\<rparr> (lstrip 47 path) = Some (p, 200)"
  then obtain path where path: "lookup_in fsys False (lstrip 47 path) (abs_path ds) = Some p"
    by (auto simp: static_lookup_def List.map_filter_def split: if_splits option.splits)
  let ?cs = "collapse True (split_on 47 (lstrip 47 path)) (rev ds)"
  have "\<not> startswith (lstrip 47 path) [47]" by (rule lstrip_front)
  then have "os_isfile fsys p" "startswith p (abs_path ds)" "p = abs_path ?cs"
    using path resolve_below [OF assms] directory_normal [OF assms] by (auto simp: lookup_in_def Let_def split: if_splits)
  moreover have "list_all file_name ?cs" using assms split_on_pieces [of _ 47] by (intro collapse_result) (auto simp: list_all_iff)
  ultimately show "os_isfile fsys p \<and> startswith p (abs_path ds) \<and> (\<exists>cs. (\<forall>c\<in>set cs. file_name c) \<and> p = abs_path cs)"
    by (auto simp: list_all_iff)
next
  assume "os_isfile fsys p \<and> startswith p (abs_path ds) \<and> (\<exists>cs. (\<forall>c\<in>set cs. file_name c) \<and> p = abs_path cs)"
  then obtain cs where cs: "\<forall>c\<in>set cs. file_name c" "p = abs_path cs" "os_isfile fsys p" "startswith p (abs_path ds)" by blast
  let ?xs = "replicate (length ds) dotdot @ cs"
  let ?rel = "join [47] ?xs"
  have "dotdot \<noteq> [] \<and> 47 \<notin> set dotdot" by (simp add: dotdot_def)
  moreover have "\<forall>c\<in>set cs. c \<noteq> [] \<and> 47 \<notin> set c" using cs(1) by (simp add: file_name_def)
  ultimately have parts: "\<forall>x\<in>set ?xs. x \<noteq> [] \<and> 47 \<notin> set x" by (simp add: ball_Un)
  have rel: "\<not> startswith ?rel [47]" by (rule names_path [OF parts])
  have "normpath (path_join (abs_path ds) ?rel) = p"
  proof (cases "?xs = []")
    case True
    then have "ds = []" "cs = []" by simp_all
    then show ?thesis using cs(2) by (simp add: path_join_def normpath_def abs_path_def endswith_def)
  next
    case False
    then have "split_on 47 ?rel = ?xs" by (rule split_on_join) (use parts in blast)
    moreover have "collapse True ?xs (rev ds) = cs" using collapse_dots [of "rev ds"] collapse_keeps [OF cs(1)] assms by simp
    ultimately show ?thesis using resolve_below [OF assms rel] cs(2) by (simp only:)
  qed
  then have "static_lookup fsys \<lparr>sf_directories = [abs_path ds], sf_html = False\<rparr> ?rel = Some (p, 200)"
    using cs(3,4) directory_normal [OF assms] by (simp add: static_lookup_def lookup_in_def List.map_filter_def)
  moreover have "lstrip 47 ?rel = ?rel" by (rule lstrip_id [OF rel])
  ultimately show "\<exists>path. static_lookup fsys \<lparr>sf_directories = [abs_path ds], sf_html = False\<rparr> (lstrip 47 path) = Some (p, 200)" by metis
qed

text \<open>From the directory \<open>.\<close> only files are served whose path begins with a full stop.\<close>

lemma dot_directory:
  assumes "cs \<noteq> []" and "\<forall>c\<in>set cs. file_name c" and "lookup_in fsys False (join [47] cs) dot = Some p"
  shows "startswith (hd cs) dot"
proof -
  have names: "\<forall>c\<in>set cs. c \<noteq> [] \<and> 47 \<notin> set c" using assms(2) by (simp add: file_name_def)
  have "collapse False (dot # cs) [] = cs" using collapse_names [OF assms(2), of False "[]" "[]"] by (simp add: dot_def)
  moreover have "split_on 47 (dot @ 47 # join [47] cs) = dot # cs"
    using split_on_sep [of 47 dot] split_on_join [OF assms(1)] names by (simp add: dot_def)
  moreover have "join [47] cs \<noteq> []" using assms(1) names by (cases cs rule: remdups_adj.cases) auto
  ultimately have "normpath (path_join dot (join [47] cs)) = join [47] cs"
    using names_path [OF names] by (simp add: normpath_def path_join_def dot_def endswith_def)
  moreover have "normpath dot = dot" by (simp add: normpath_def dot_def)
  ultimately have "startswith (join [47] cs) dot" using assms(3) by (auto simp: lookup_in_def Let_def split: if_splits)
  then show ?thesis using assms(1) names by (cases cs rule: remdups_adj.cases) (auto simp: dot_def startswith_iff neq_Nil_conv append_eq_Cons_conv Cons_eq_append_conv)
qed

subsection \<open>Examples\<close>

theorem mounted_response_witness:
  "mount_endpoint (\<lambda>sc ev. Inr [RespStart 200 (Some [(''set-cookie'', ''a=1'')]), RespBody (Some ''hi'') (Some True), RespBody (Some ''!'') None])
     (S ''/a'') \<lparr>rx_headers = [], rx_method = [], rx_path = S ''/a/x'', rx_body = [], rx_query = HB []\<rparr>
   = Inr \<lparr>r_status = 200, r_media = None, r_body = ''hi!'', r_raw = [(''content-length'', num_bytes 3), (''set-cookie'', ''a=1'')], r_background = False\<rparr>"
  using mounted_response [of "\<lparr>rx_headers = [], rx_method = [], rx_path = S ''/a/x'', rx_body = [], rx_query = HB []\<rparr>" "[]"
      "\<lambda>sc ev. Inr [RespStart 200 (Some [(''set-cookie'', ''a=1'')]), RespBody (Some ''hi'') (Some True), RespBody (Some ''!'') None]"
      "S ''/a''" 200 "[(''set-cookie'', ''a=1'')]" "[(Some ''hi'', Some True), (Some ''!'', None)]"]
  by (simp add: mount_headers_def lowered_literals eval_nat_numeral)

theorem mounted_route_path_witness:
  "get_route_path (mount_scope (S ''/a'') \<lparr>rx_headers = [], rx_method = [], rx_path = S ''/a/a/x'', rx_body = [], rx_query = HB []\<rparr> []) = Inr (S ''/x'')"
  using mounted_route_path [of "S ''/a''" "S ''/a/x''" "\<lparr>rx_headers = [], rx_method = [], rx_path = S ''/a/a/x'', rx_body = [], rx_query = HB []\<rparr>" "[]"]
  by (simp add: S_def endswith_def or_else_def)

text \<open>A file in the directory \<open>static-private\<close> beside \<open>static\<close>.\<close>

theorem static_reach_witness:
  "\<exists>path. static_lookup \<lparr>os_isfile = (\<lambda>p. p = S ''/srv/static-private/key''), os_isdir = (\<lambda>p. False)\<rparr>
     \<lparr>sf_directories = [abs_path [S ''srv'', S ''static'']], sf_html = False\<rparr> (lstrip 47 path) = Some (S ''/srv/static-private/key'', 200)"
proof (rule iffD2 [OF static_reach])
  show "\<forall>c\<in>set [S ''srv'', S ''static'']. file_name c" by (simp add: file_name_def dot_def dotdot_def S_def)
  have "\<forall>c\<in>set [S ''srv'', S ''static-private'', S ''key'']. file_name c" by (simp add: file_name_def dot_def dotdot_def S_def)
  moreover have "S ''/srv/static-private/key'' = abs_path [S ''srv'', S ''static-private'', S ''key'']"
    "startswith (S ''/srv/static-private/key'') (abs_path [S ''srv'', S ''static''])" by (simp_all add: abs_path_def S_def)
  ultimately show "os_isfile \<lparr>os_isfile = (\<lambda>p. p = S ''/srv/static-private/key''), os_isdir = (\<lambda>p. False)\<rparr> (S ''/srv/static-private/key'')
    \<and> startswith (S ''/srv/static-private/key'') (abs_path [S ''srv'', S ''static''])
    \<and> (\<exists>cs. (\<forall>c\<in>set cs. file_name c) \<and> S ''/srv/static-private/key'' = abs_path cs)" by (intro conjI exI) simp_all
qed

end
