(* ===== verification/Shims.thy ===== *)
theory Shims
  imports FastPath Mounting
begin

text \<open>
  The functions that stand between the C++ server and an endpoint (\<open>applications.py\<close>): the server calls a shim with
  the arguments it extracted, and the shim validates them, calls the endpoint, turns exceptions
  into responses, finishes the response and closes the exit stacks of the dependencies.

  A validator returns values, errors and the names of arguments it consumed. Response objects of
  other frameworks, which the response shim passes on as they are, are left out. A run of the
  response shim is recorded as the list of events below, in their order, with its outcome.
\<close>

subsection \<open>Exception handlers of the application\<close>

text \<open>
  The table is tried in the order of registration and the first entry is taken whose class the
  exception is an instance of.
\<close>

definition instance_of :: "classes \<Rightarrow> exn \<Rightarrow> pyclass \<Rightarrow> bool" where
  "instance_of cx e c \<longleftrightarrow> c \<in> set (mro cx e)"

definition first_handler :: "classes \<Rightarrow> (pyclass \<times> 'h) list \<Rightarrow> exn \<Rightarrow> 'h option" where
  "first_handler cx hs e = map_option snd (find (\<lambda>h. instance_of cx e (fst h)) hs)"

definition handle_exception :: "classes \<Rightarrow> (pyclass \<times> (exn \<Rightarrow> 'v res)) list \<Rightarrow> exn \<Rightarrow> 'v res" where
  "handle_exception cx hs e = (case first_handler cx hs e of Some h \<Rightarrow> h e | None \<Rightarrow> Inl e)"

text \<open>\<open>except Exception\<close> does not catch the cancellation of a task.\<close>

definition catchable :: "exn \<Rightarrow> bool" where
  "catchable e \<longleftrightarrow> e \<noteq> Interrupt"

subsection \<open>The light shims\<close>

type_synonym validator = "(str, pyv) dict \<Rightarrow> (str, pyv) dict \<times> err list \<times> str set"

definition take_validated :: "(str, pyv) dict \<Rightarrow> str set \<Rightarrow> (str, pyv) dict \<Rightarrow> (str, pyv) dict" where
  "take_validated values consumed kwargs = dict_update values (filter (\<lambda>kv. fst kv \<notin> consumed) kwargs)"

definition call_handled :: "classes \<Rightarrow> (pyclass \<times> (exn \<Rightarrow> 'v res)) list \<Rightarrow> ((str, pyv) dict \<Rightarrow> 'v res) \<Rightarrow> (str, pyv) dict \<Rightarrow> 'v res" where
  "call_handled cx hs ep kwargs =
     (case ep kwargs of
        Inr v \<Rightarrow> Inr v
      | Inl e \<Rightarrow> if catchable e then handle_exception cx hs e else Inl e)"

definition param_shim ::
  "classes \<Rightarrow> (pyclass \<times> (exn \<Rightarrow> 'v res)) list \<Rightarrow> validator option \<Rightarrow> ((str, pyv) dict \<Rightarrow> 'v res) \<Rightarrow> (str, pyv) dict \<Rightarrow> 'v res" where
  "param_shim cx hs pv ep kwargs =
     (case pv of
        None \<Rightarrow> ep kwargs
      | Some validate \<Rightarrow>
          (case validate kwargs of
             (values, errors, consumed) \<Rightarrow>
               if errors \<noteq> [] then handle_exception cx hs (ValidationError OfRequest errors no_ctx)
               else call_handled cx hs ep (take_validated values consumed kwargs)))"

definition meta_keys :: "str list" where
  "meta_keys = [S ''__raw_headers__'', S ''__method__'', S ''__path__'', S ''__auth_scheme__'', S ''__auth_credentials__'',
     S ''__body__'', S ''__content_type__'', S ''__deps_ran__'', S ''__bg_tasks__'', S ''__exit_stack__'', S ''__gen_deps_ran__'']"

definition drop_keys :: "str list \<Rightarrow> (str, 'v) dict \<Rightarrow> (str, 'v) dict" where
  "drop_keys ks d = filter (\<lambda>kv. fst kv \<notin> set ks) d"

definition fast_dep_shim ::
  "classes \<Rightarrow> (pyclass \<times> (exn \<Rightarrow> 'v res)) list \<Rightarrow> validator option \<Rightarrow> ('v \<Rightarrow> 'v option) \<Rightarrow> ((str, pyv) dict \<Rightarrow> 'v res) \<Rightarrow> (str, pyv) dict \<Rightarrow> 'v res" where
  "fast_dep_shim cx hs pv dump_json ep kwargs =
     (let kw = drop_keys meta_keys kwargs;
          finish = (\<lambda>v. Inr (case dump_json v of Some j \<Rightarrow> j | None \<Rightarrow> v));
          call = (\<lambda>args. case ep args of
                     Inr v \<Rightarrow> finish v
                   | Inl e \<Rightarrow> if catchable e then handle_exception cx hs e else Inl e)
      in case pv of
           None \<Rightarrow> call kw
         | Some validate \<Rightarrow>
             (case validate kw of
                (values, errors, consumed) \<Rightarrow>
                  if errors \<noteq> [] then handle_exception cx hs (ValidationError OfRequest errors no_ctx)
                  else call (take_validated values consumed kw)))"

text \<open>What the endpoint of a route with a response model returns, and what the shim passes to the server.\<close>

datatype shim_out = OutResponse response | OutValue pyv | OutJson bytes

definition serialization_error :: err where
  "serialization_error = Err (S ''response_serialization_error'') [S ''response'']"

text \<open>\<open>_response_field.validate\<close> and \<open>serialize\<close>, shared by the two shims that apply a response model.\<close>

fun is_type_or_attribute_error :: "exn \<Rightarrow> bool" where
  "is_type_or_attribute_error (TypeError m) = True"
| "is_type_or_attribute_error (AttributeError m) = True"
| "is_type_or_attribute_error e = False"

definition apply_model :: "serializers \<Rightarrow> adapter \<Rightarrow> field \<Rightarrow> endpoint_ctx \<Rightarrow> pyv \<Rightarrow> pyv res" where
  "apply_model sz ad f ctx v =
     rbind (field_validate ad f v [S ''response'']) (\<lambda>(w, errs).
       if errs \<noteq> [] then Inl (ValidationError OfResponse errs ctx)
       else (case sz_field sz f w of
               Inr x \<Rightarrow> Inr x
             | Inl e \<Rightarrow> Inl (if is_type_or_attribute_error e then ValidationError OfResponse [serialization_error] ctx else e)))"

text \<open>\<open>to_json\<close> is the serialiser of the exact model class: \<open>None\<close> for another class or if it raises.\<close>

definition response_model_shim ::
  "serializers \<Rightarrow> adapter \<Rightarrow> field \<Rightarrow> (pyv \<Rightarrow> bytes option) \<Rightarrow> ((str, pyv) dict \<Rightarrow> endpoint_value res) \<Rightarrow> (str, pyv) dict \<Rightarrow> shim_out res" where
  "response_model_shim sz ad f to_json ep kwargs =
     rbind (ep kwargs) (\<lambda>ev. case ev of
         EResponse r \<Rightarrow> Inr (OutResponse r)
       | EValue v \<Rightarrow>
           (case to_json v of
              Some b \<Rightarrow> Inr (OutJson b)
            | None \<Rightarrow> rbind (apply_model sz ad f no_ctx v) (\<lambda>w. Inr (OutValue w))))"

text \<open>A route class of the application is called as an ASGI application; only an \<open>HTTPException\<close> becomes a response.\<close>

fun assign_headers :: "(str \<times> str) list \<Rightarrow> response \<Rightarrow> response res" where
  "assign_headers [] r = Inr r"
| "assign_headers ((n, v) # hs) r = rbind (assign_header n v r) (\<lambda>r'. assign_headers hs r')"

definition asgi_shim :: "(detail \<Rightarrow> bytes res) \<Rightarrow> (scope \<Rightarrow> (nat \<Rightarrow> event) \<Rightarrow> app_run) \<Rightarrow> scope \<Rightarrow> bytes \<Rightarrow> response res" where
  "asgi_shim json app sc body =
     (case app sc (mount_receive body) of
        (ms, Inr ()) \<Rightarrow>
          (let cl = fold mount_send ms \<lparr>cl_status = 200, cl_headers = [], cl_body = []\<rparr> in
           rbind (response_init None (CBytes (cl_body cl)) (cl_status cl) None None False) (\<lambda>r. copy_headers (cl_headers cl) r))
      | (ms, Inl (HTTPException st d hs)) \<Rightarrow>
          rbind (json d) (\<lambda>b. rbind (response_init (Some (S ''application/json'')) (CBytes b) st None None False)
            (assign_headers (get_or hs [])))
      | (ms, Inl e) \<Rightarrow> Inl e)"

subsection \<open>The response shim: state\<close>

datatype shim_event = Called | ExitFunction nat | ExitRequest nat | TaskDone nat | Stored exn

text \<open>
  A computation with its events. An exit stack is \<open>None\<close> if there is none, and has no callbacks any
  more once it was closed.
\<close>

type_synonym 'a logged = "shim_event list \<times> 'a res"

definition lbind :: "'l list \<times> 'a res \<Rightarrow> ('a \<Rightarrow> 'l list \<times> 'b res) \<Rightarrow> 'l list \<times> 'b res" where
  "lbind m f = (case m of (ev, Inl e) \<Rightarrow> (ev, Inl e) | (ev, Inr x) \<Rightarrow> (ev @ fst (f x), snd (f x)))"

definition quiet :: "'a res \<Rightarrow> 'l list \<times> 'a res" where
  "quiet r = ([], r)"

definition logged :: "'l list \<Rightarrow> 'a \<Rightarrow> 'l list \<times> 'a res" where
  "logged ev x = (ev, Inr x)"

datatype shim_value = SPlain pyv | SResponse response | SFile response str | SStream response "bytes list" "exn option"

datatype shim_class = ShimRedirect | ShimFile | ShimClass "pyv \<Rightarrow> int \<Rightarrow> response res"

record shim_route =
  sh_classes :: classes
  sh_handlers :: "(pyclass \<times> (exn \<Rightarrow> shim_value res)) list"
  sh_middleware :: "(shim_value \<Rightarrow> shim_value option res) list"
  sh_field :: "field option"
  sh_status :: int
  sh_class :: shim_class
  sh_serializers :: serializers
  sh_adapter :: adapter
  sh_context :: endpoint_ctx
  sh_open :: "str \<Rightarrow> bytes option"
  sh_str :: "pyv \<Rightarrow> str"
  sh_test_mode :: bool

text \<open>The stacks of the two scopes of generator dependencies.\<close>

type_synonym stacks = "exit_cb list option \<times> exit_cb list option"

subsection \<open>The response shim: calling the endpoint\<close>

definition aexit :: "(nat \<Rightarrow> shim_event) \<Rightarrow> exit_cb list option \<Rightarrow> exn \<Rightarrow> bool logged" where
  "aexit tag stk e =
     (case stk of
        None \<Rightarrow> quiet (Inr False)
      | Some cbs \<Rightarrow>
          (map tag (exit_order cbs),
           case unwind cbs (Some e) of None \<Rightarrow> Inr True | Some e' \<Rightarrow> if e' = e then Inr False else Inl e'))"

definition exit_stack_on_error :: "stacks \<Rightarrow> exn \<Rightarrow> bool logged" where
  "exit_stack_on_error st e =
     lbind (aexit ExitFunction (fst st) e) (\<lambda>s1.
     lbind (aexit ExitRequest (snd st) e) (\<lambda>s2. quiet (Inr (s2 \<or> s1))))"

definition closed :: "exit_cb list option \<Rightarrow> exit_cb list option" where
  "closed stk = map_option (\<lambda>_. []) stk"

definition is_http_or_validation :: "classes \<Rightarrow> exn \<Rightarrow> bool" where
  "is_http_or_validation cx e \<longleftrightarrow> is_instance cx e ''HTTPException'' \<or> is_instance cx e ''RequestValidationError''"

definition call_with_exc_handling :: "shim_route \<Rightarrow> stacks \<Rightarrow> shim_value res \<Rightarrow> (shim_value \<times> stacks) logged" where
  "call_with_exc_handling sh st outcome =
     (case outcome of
        Inr v \<Rightarrow> logged [Called] (v, st)
      | Inl e \<Rightarrow>
          if \<not> catchable e then ([Called], Inl e)
          else lbind (logged [Called] ()) (\<lambda>_.
               lbind (exit_stack_on_error st e) (\<lambda>suppressed.
                 if suppressed then quiet (Inl response_not_awaited)
                 else (case first_handler (sh_classes sh) (sh_handlers sh) e of
                         None \<Rightarrow> quiet (Inl e)
                       | Some h \<Rightarrow>
                           lbind (logged (if \<not> is_http_or_validation (sh_classes sh) e \<and> sh_test_mode sh then [Stored e] else []) ())
                             (\<lambda>_. quiet (rbind (h e) (\<lambda>v. Inr (v, closed (fst st), closed (snd st)))))))))"

subsection \<open>The response shim: middleware\<close>

fun middleware_loop :: "(shim_value \<Rightarrow> shim_value option res) list \<Rightarrow> shim_value \<Rightarrow> shim_value option res" where
  "middleware_loop [] v = Inr (Some v)"
| "middleware_loop (m # ms) v =
     rbind (m v) (\<lambda>r. case r of None \<Rightarrow> Inr None | Some v' \<Rightarrow> middleware_loop ms v')"

definition wrap_for_middleware :: "shim_route \<Rightarrow> shim_value \<Rightarrow> shim_value res" where
  "wrap_for_middleware sh v =
     (case v of
        SPlain x \<Rightarrow> rbind (json_response_init (sh_serializers sh) x (Some (sh_status sh)) False) (\<lambda>r. Inr (SResponse r))
      | _ \<Rightarrow> Inr v)"

text \<open>Exceptions of a middleware are ignored, and the value is as if there was none.\<close>

definition apply_middleware :: "shim_route \<Rightarrow> shim_value \<Rightarrow> shim_value res" where
  "apply_middleware sh v =
     (if sh_middleware sh = [] then Inr v
      else case rbind (wrap_for_middleware sh v) (middleware_loop (rev (sh_middleware sh))) of
             Inr (Some r) \<Rightarrow> Inr r
           | Inr None \<Rightarrow> Inr v
           | Inl e \<Rightarrow> if catchable e then Inr v else Inl e)"

subsection \<open>The response shim: the final response\<close>

text \<open>\<open>stack.aclose()\<close>.\<close>

definition aclose :: "(nat \<Rightarrow> shim_event) \<Rightarrow> exit_cb list option \<Rightarrow> unit logged" where
  "aclose tag stk =
     (case stk of
        None \<Rightarrow> quiet (Inr ())
      | Some cbs \<Rightarrow> (map tag (exit_order cbs), case unwind cbs None of None \<Rightarrow> Inr () | Some e \<Rightarrow> Inl e))"

definition file_not_found :: exn where
  "file_not_found = HTTPException 404 (DText (S ''File not found'')) None"

definition plain_response :: "bytes \<Rightarrow> int \<Rightarrow> str option \<Rightarrow> response res" where
  "plain_response b status media = response_init None (CBytes b) status None media False"

text \<open>The response for a value of the endpoint that is no response, once the response model was applied.\<close>

definition wrap_value :: "shim_route \<Rightarrow> pyv \<Rightarrow> response res" where
  "wrap_value sh v =
     (case sh_class sh of
        ShimRedirect \<Rightarrow> redirect_response_init (sh_str sh v) (if sh_status sh \<noteq> 0 \<and> sh_status sh \<noteq> 200 then sh_status sh else 307) None False
      | ShimFile \<Rightarrow>
          (case sh_open sh (sh_str sh v) of Some b \<Rightarrow> plain_response b (sh_status sh) None | None \<Rightarrow> Inl file_not_found)
      | ShimClass mk \<Rightarrow> mk v (sh_status sh))"

definition finish_value :: "shim_route \<Rightarrow> pyv \<Rightarrow> (pyv \<times> response) res" where
  "finish_value sh v =
     rbind (case sh_field sh of None \<Rightarrow> Inr v | Some f \<Rightarrow> apply_model (sh_serializers sh) (sh_adapter sh) f (sh_context sh) v)
       (\<lambda>w. rbind (wrap_value sh w) (\<lambda>r. Inr (w, r)))"

text \<open>
  Returns the value as it is after serialisation, the response and the stacks. The body of a stream is
  collected between closing the two stacks; an exception in it is stored and the response cut off.
\<close>

definition finish_result :: "shim_route \<Rightarrow> stacks \<Rightarrow> shim_value \<Rightarrow> (pyv \<times> response \<times> stacks) logged" where
  "finish_result sh st v =
     (case v of
        SResponse r \<Rightarrow> quiet (Inr (VResponse, r, st))
      | SFile r path \<Rightarrow>
          (case sh_open sh path of
             None \<Rightarrow> quiet (Inl file_not_found)
           | Some b \<Rightarrow> quiet (rbind (plain_response b (r_status r) (r_media r)) (\<lambda>r'. Inr (VResponse, r', st))))
      | SStream r chunks exc \<Rightarrow>
          lbind (aclose ExitFunction (fst st)) (\<lambda>_.
            (case exc of
               Some Interrupt \<Rightarrow> quiet (Inl Interrupt)
             | _ \<Rightarrow>
                 lbind (aclose ExitRequest (snd st)) (\<lambda>_.
                 lbind (logged (case exc of Some e \<Rightarrow> [Stored e] | None \<Rightarrow> []) ()) (\<lambda>_.
                   quiet (rbind (plain_response (concat chunks) (r_status r) (r_media r))
                            (\<lambda>r'. Inr (VResponse, r', closed (fst st), closed (snd st))))))))
      | SPlain x \<Rightarrow> quiet (rbind (finish_value sh x) (\<lambda>(w, r). Inr (w, r, st))))"

text \<open>What the endpoint or its dependencies set on the \<open>Response\<close> object they share.\<close>

definition skipped_headers :: "str list" where
  "skipped_headers = [S ''content-length'', S ''content-type'']"

fun merge_headers :: "(str \<times> str) list \<Rightarrow> response \<Rightarrow> response res" where
  "merge_headers [] r = Inr r"
| "merge_headers ((n, v) # hs) r =
     (if lower n \<in> set skipped_headers then merge_headers hs r
      else rbind (assign_header n v r) (\<lambda>r'. merge_headers hs r'))"

definition apply_sub_response :: "shim_route \<Rightarrow> response option \<Rightarrow> pyv \<Rightarrow> response \<Rightarrow> response res" where
  "apply_sub_response sh sub v r =
     (case sub of
        None \<Rightarrow> Inr r
      | Some s \<Rightarrow>
          rbind (merge_headers (map (\<lambda>(n, w). (latin1_decode n, latin1_decode w)) (r_raw s)) r) (\<lambda>r1.
            if r_status s = 200 then Inr r1
            else (let r2 = r1\<lparr>r_status := r_status s\<rparr> in
                  if sh_status sh = 204 \<and> r_status s \<notin> {204, 205} \<and> r_body r2 = []
                  then (case sh_class sh of
                          ShimClass mk \<Rightarrow> mk v (r_status s)
                        | _ \<Rightarrow> Inl (TypeError (S ''unexpected keyword argument'')))
                  else Inr r2)))"

subsection \<open>The response shim: background tasks and cleanup\<close>

text \<open>A task is its number and the exception it raises, if any; they run one after another.\<close>

fun run_tasks :: "(nat \<times> exn option) list \<Rightarrow> unit logged" where
  "run_tasks [] = quiet (Inr ())"
| "run_tasks ((i, None) # ts) = lbind (logged [TaskDone i] ()) (\<lambda>_. run_tasks ts)"
| "run_tasks ((i, Some e) # ts) = quiet (Inl e)"

definition close_function_stack :: "classes \<Rightarrow> exit_cb list option \<Rightarrow> unit logged" where
  "close_function_stack cx stk =
     (case aclose ExitFunction stk of
        (ev, Inr u) \<Rightarrow> (ev, Inr u)
      | (ev, Inl e) \<Rightarrow> if is_instance cx e ''HTTPException'' \<or> \<not> catchable e then (ev, Inl e) else (ev @ [Stored e], Inr ()))"

definition close_request_stack :: "exit_cb list option \<Rightarrow> unit logged" where
  "close_request_stack stk =
     (case aclose ExitRequest stk of
        (ev, Inr u) \<Rightarrow> (ev, Inr u)
      | (ev, Inl e) \<Rightarrow> if catchable e then (ev @ [Stored e], Inr ()) else (ev, Inl e))"

definition response_shim ::
  "shim_route \<Rightarrow> stacks \<Rightarrow> response option \<Rightarrow> (nat \<times> exn option) list \<Rightarrow> shim_value res \<Rightarrow> response logged" where
  "response_shim sh st sub tasks outcome =
     lbind (call_with_exc_handling sh st outcome) (\<lambda>(v, st1).
     lbind (quiet (apply_middleware sh v)) (\<lambda>v1.
     lbind (finish_result sh st1 v1) (\<lambda>(w, r, st2).
     lbind (quiet (apply_sub_response sh sub w r)) (\<lambda>r1.
     lbind (run_tasks tasks) (\<lambda>_.
     lbind (close_function_stack (sh_classes sh) (fst st2)) (\<lambda>_.
     lbind (close_request_stack (snd st2)) (\<lambda>_.
       quiet (Inr r1))))))))"

subsection \<open>Properties: cleanup\<close>

lemma lbind_Inr: "lbind m f = (ev, Inr y) \<longleftrightarrow> (\<exists>e1 x e2. m = (e1, Inr x) \<and> f x = (e2, Inr y) \<and> ev = e1 @ e2)"
  by (auto simp: lbind_def split: prod.splits sum.splits) (metis prod.collapse)

lemma snd_lbind: "snd (lbind m f) = rbind (snd m) (\<lambda>x. snd (f x))" "snd (quiet r) = r" "snd (logged l x) = Inr x"
  by (auto simp: lbind_def quiet_def logged_def split: prod.splits sum.splits)

lemma quiet_Inr [simp]: "quiet r = (ev, Inr y) \<longleftrightarrow> ev = [] \<and> r = Inr y" "logged l x = (ev, Inr y) \<longleftrightarrow> ev = l \<and> y = x"
  by (auto simp: quiet_def logged_def)

fun is_exit :: "shim_event \<Rightarrow> bool" where
  "is_exit (ExitFunction i) = True"
| "is_exit (ExitRequest i) = True"
| "is_exit e = False"

fun is_task :: "shim_event \<Rightarrow> bool" where
  "is_task (TaskDone i) = True"
| "is_task e = False"

text \<open>All callbacks of the stacks, those of the function scope first, each stack from its top.\<close>

definition stack_exits :: "stacks \<Rightarrow> shim_event list" where
  "stack_exits st = map ExitFunction (exit_order (get_or (fst st) [])) @ map ExitRequest (exit_order (get_or (snd st) []))"

lemma exits_closed [simp]: "exit_order (get_or (closed a) []) = []"
  by (cases a) (simp_all add: closed_def exit_order_def)

lemma filter_tagged [simp]:
  "filter is_exit (map ExitFunction xs) = map ExitFunction xs" "filter is_exit (map ExitRequest xs) = map ExitRequest xs"
  "filter is_task (map ExitFunction xs) = []" "filter is_task (map ExitRequest xs) = []"
  "filter is_exit (map (TaskDone \<circ> fst) ts) = []" "filter is_task (map (TaskDone \<circ> fst) ts) = map (TaskDone \<circ> fst) ts"
  by (induction xs; induction ts; simp)+

lemma aexit_events: "aexit tag stk e = (ev, r) \<Longrightarrow> ev = map tag (exit_order (get_or stk []))"
  by (cases stk) (auto simp: aexit_def quiet_def exit_order_def)

lemma aclose_events: "aclose tag stk = (ev, r) \<Longrightarrow> ev = map tag (exit_order (get_or stk []))"
  by (cases stk) (auto simp: aclose_def quiet_def exit_order_def)

lemma on_error_events: "exit_stack_on_error st e = (ev, Inr s) \<Longrightarrow> ev = stack_exits st"
  by (auto simp: exit_stack_on_error_def lbind_Inr stack_exits_def dest!: aexit_events)

lemma call_events:
  assumes "call_with_exc_handling sh st outcome = (ev, Inr (v, st'))"
  shows "filter is_exit ev @ stack_exits st' = stack_exits st \<and> filter is_task ev = []"
proof (cases outcome)
  case (Inr x)
  then show ?thesis using assms by (auto simp: call_with_exc_handling_def)
next
  case (Inl e)
  then obtain ev1 s where "exit_stack_on_error st e = (ev1, Inr s)" "ev = [Called] @ ev1 \<or> ev = [Called] @ ev1 @ [Stored e]"
    "st' = (closed (fst st), closed (snd st))"
    using assms by (auto simp: call_with_exc_handling_def lbind_Inr split: if_splits option.splits)
  then show ?thesis using on_error_events [of st e ev1 s] by (auto simp: stack_exits_def)
qed

lemma finish_events:
  assumes "finish_result sh st v = (ev, Inr (w, r, st'))"
  shows "filter is_exit ev @ stack_exits st' = stack_exits st \<and> filter is_task ev = []"
proof (cases v)
  case (SStream r' chunks exc)
  then obtain e1 e2 where "aclose ExitFunction (fst st) = (e1, Inr ())" "aclose ExitRequest (snd st) = (e2, Inr ())"
    "ev = e1 @ e2 \<or> (\<exists>e. ev = e1 @ e2 @ [Stored e])" "st' = (closed (fst st), closed (snd st))"
    using assms by (auto simp: finish_result_def lbind_Inr split: option.splits exn.splits)
  then show ?thesis by (auto simp: stack_exits_def dest!: aclose_events)
qed (use assms in \<open>auto simp: finish_result_def split: option.splits\<close>)

lemma tasks_events: "run_tasks ts = (ev, Inr u) \<Longrightarrow> ev = map (TaskDone \<circ> fst) ts \<and> (\<forall>t\<in>set ts. snd t = None)"
  by (induction ts arbitrary: ev rule: run_tasks.induct) (auto simp: lbind_Inr)

lemma close_events:
  "close_function_stack cx stk = (ev, Inr u) \<Longrightarrow> filter is_exit ev = map ExitFunction (exit_order (get_or stk [])) \<and> filter is_task ev = []"
  "close_request_stack stk = (ev, Inr u) \<Longrightarrow> filter is_exit ev = map ExitRequest (exit_order (get_or stk [])) \<and> filter is_task ev = []"
  by (auto simp: close_function_stack_def close_request_stack_def split: prod.splits sum.splits if_splits dest!: aclose_events)


text \<open>
  A value that does not fit the response model ends the call before the cleanup: the dependencies' exit callbacks
  are not run, nor the background tasks.
\<close>

theorem invalid_response_leaks:
  assumes "sh_middleware sh = []" and "sh_field sh = Some f" and "apply_model (sh_serializers sh) (sh_adapter sh) f (sh_context sh) x = Inl e"
  shows "response_shim sh st sub tasks (Inr (SPlain x)) = ([Called], Inl e)"
  using assms by (simp add: response_shim_def call_with_exc_handling_def apply_middleware_def finish_result_def finish_value_def lbind_def quiet_def logged_def)

subsection \<open>Properties: the two ways to a response\<close>


subsection \<open>Properties: the light shims\<close>

lemma take_validated_lookup: "dict_wf values \<Longrightarrow> map_of values k = Some v \<Longrightarrow> map_of (take_validated values consumed kwargs) k = Some v"
  by (simp add: take_validated_def map_of_dict_update map_of_rev_wf)

lemma fold_validate_wf: "dict_wf (fst acc) \<Longrightarrow> dict_wf (fst (fold (validate_plain ti tf kw) ps acc))"
proof (induction ps arbitrary: acc)
  case (Cons p ps)
  have "dict_wf (fst (validate_plain ti tf kw p acc))"
    using Cons.prems by (auto simp: validate_plain_def Let_def dict_wf_set split: sum.splits)
  then show ?case using Cons.IH by simp
qed simp

text \<open>
  A route with plain parameters: if one of them is missing or cannot be converted, the endpoint is not called and the
  application's handlers get the list of all such errors; otherwise the endpoint is called with arguments
  in which every parameter has its default or a value of its declared type.
\<close>

theorem param_shim_validates:
  assumes "make_fast_validator ti tf sch pa = Some validate" and "distinct (map pi_name (param_infos sch pa))"
  shows "if List.map_filter (plain_error ti tf kw) (param_infos sch pa) \<noteq> []
    then param_shim cx hs (Some validate) ep kw
      = handle_exception cx hs (ValidationError OfRequest (List.map_filter (plain_error ti tf kw) (param_infos sch pa)) no_ctx)
    else \<exists>args. param_shim cx hs (Some validate) ep kw = call_handled cx hs ep args
      \<and> (\<forall>p\<in>set (param_infos sch pa). param_settled kw p (args, []))"
proof -
  let ?ps = "param_infos sch pa"
  let ?r = "fold (validate_plain ti tf kw) ?ps ([], [])"
  let ?errs = "List.map_filter (plain_error ti tf kw) ?ps"
  have errs: "snd ?r = ?errs" by (simp add: fold_validate_errors)
  have "validate kw = (case ?r of (vs, es) \<Rightarrow> (vs, es, pi_alias ` set ?ps \<union> pi_name ` set ?ps))"
    using assms(1) by (auto simp: make_fast_validator_def fast_validate_def Let_def split: if_splits)
  then obtain consumed where v: "validate kw = (fst ?r, ?errs, consumed)" using errs by (simp add: case_prod_unfold)
  show ?thesis
  proof (cases "?errs = []")
    case True
    let ?args = "take_validated (fst ?r) consumed kw"
    have "param_settled kw p (?args, [])" if "p \<in> set ?ps" for p
      using fold_validate_settles [OF assms(2) that, of kw ti tf "([], [])"] fold_validate_wf [of "([], [])" ti tf kw ?ps] errs True
      by (auto simp: param_settled_def take_validated_lookup)
    moreover have "param_shim cx hs (Some validate) ep kw = call_handled cx hs ep ?args" using v True by (simp add: param_shim_def)
    ultimately show ?thesis using True by auto
  next
    case False
    then show ?thesis using v by (simp add: param_shim_def)
  qed
qed

text \<open>Handlers are tried in the order of registration: a general one before a special one takes its exceptions.\<close>

lemma first_registered_wins: "instance_of cx e c \<Longrightarrow> first_handler cx ((c, h) # hs) e = Some h"
  by (simp add: first_handler_def)

subsection \<open>Examples\<close>

definition example_sh :: shim_route where
  "example_sh = \<lparr>sh_classes = no_classes, sh_handlers = [], sh_middleware = [], sh_field = None, sh_status = 200,
     sh_class = ShimClass (\<lambda>v n. json_response_init example_serializers v (Some n) False), sh_serializers = example_serializers,
     sh_adapter = (\<lambda>f v. VOk v), sh_context = no_ctx, sh_open = (\<lambda>p. None), sh_str = (\<lambda>v. []), sh_test_mode = False\<rparr>"

lemma example_response: "\<exists>r. json_response_init example_serializers v (Some 200) False = Inr r \<and> r_status r = 200"
  using response_init_keeps [of None "[]" "CBytes ''null''" "''null''" "Some (S ''application/json'')" 200 False] json_content_type
  by (auto simp: json_response_init_def example_serializers_def encode_headers_def render_def)


theorem invalid_response_leaks_witness:
  "response_shim (example_sh\<lparr>sh_field := Some (query_field ''n'' TInt), sh_adapter := (\<lambda>f v. VErrors [Err (S ''int_type'') []])\<rparr>)
     (Some [(1, \<lambda>e. e)], None) None [(7, None)] (Inr (SPlain VNone))
   = ([Called], Inl (ValidationError OfResponse [Err (S ''int_type'') [S ''response'']] no_ctx))"
  by (rule invalid_response_leaks) (simp_all add: example_sh_def apply_model_def field_validate_def regenerate_error_with_loc_def)


theorem param_shim_validates_witness:
  "\<exists>validate args. make_fast_validator (\<lambda>v. None) (\<lambda>v. None) (\<lambda>f. Schema ''int'' False None) (query_only [query_field ''n'' TInt]) = Some validate
     \<and> param_shim no_classes [] (Some validate) (\<lambda>args. Inr args) [(S ''n'', VStr (dec 12))] = call_handled no_classes [] (\<lambda>args. Inr args) args
     \<and> (\<forall>p\<in>set (param_infos (\<lambda>f. Schema ''int'' False None) (query_only [query_field ''n'' TInt])). param_settled [(S ''n'', VStr (dec 12))] p (args, []))"
proof -
  let ?sch = "\<lambda>f. Schema ''int'' False None" and ?pa = "query_only [query_field ''n'' TInt]" and ?kw = "[(S ''n'', VStr (dec 12))]"
  let ?p = "param_info_of ?sch (S ''query'') (query_field ''n'' TInt)"
  have ps: "param_infos ?sch ?pa = [?p]" by (simp add: param_infos_def query_only_def scalar_fields_def query_field_def)
  have names: "pi_name ?p = S ''n''" "pi_alias ?p = S ''n''"
    by (simp_all add: param_info_of_def query_field_def get_validation_alias_def validation_alias_def field_alias_def)
  have "\<exists>v. make_fast_validator (\<lambda>v. None) (\<lambda>v. None) ?sch ?pa = Some v"
    unfolding make_fast_validator_def ps Let_def
    by (simp add: names) (simp add: query_only_def query_field_def param_fields_def param_info_of_def)
  then obtain v where v: "make_fast_validator (\<lambda>v. None) (\<lambda>v. None) ?sch ?pa = Some v" by blast
  have "List.map_filter (plain_error (\<lambda>v. None) (\<lambda>v. None) ?kw) (param_infos ?sch ?pa) = []"
    by (simp add: ps plain_error_def map_filter_simps kwarg_value_def kwarg_def names)
      (simp add: coerce_plain_def param_info_of_def query_field_def)
  with param_shim_validates [OF v, of ?kw no_classes "[]" "\<lambda>args. Inr args"] v show ?thesis by (simp add: ps)
qed

end
