(* ===== verification/Application.thy ===== *)
theory Application
  imports Shims
begin

text \<open>
  \<open>applications.py\<close>: how the application registers its routes with the C++ core
  (\<open>_sync_routes_to_core\<close>), the lazily made router, the cached OpenAPI document, and which way \<open>run\<close> takes.

  A route is given by the attributes the code reads of it. Methods are sets, since their order
  does not matter to the core.
\<close>

subsection \<open>Which function is registered\<close>

record api_info =
  ai_id :: nat
  ai_path :: str
  ai_methods :: "str list"
  ai_coroutine :: bool
  ai_custom :: bool
  ai_form :: bool
  ai_form_shim :: bool
  ai_eligible :: bool
  ai_solver :: bool
  ai_gen_deps :: bool
  ai_validator :: bool
  ai_field :: bool
  ai_dependant :: dependant
  ai_names :: "str list"

record app_info =
  ap_middleware :: "string list"
  ap_handlers :: "pyclass list"

definition has_asgi_middleware :: "app_info \<Rightarrow> bool" where
  "has_asgi_middleware app \<longleftrightarrow>
     list_ex (\<lambda>n. n \<notin> {''BaseHTTPMiddleware'', ''HTTPSRedirectMiddleware'', ''TrustedHostMiddleware'', ''CORSMiddleware''}) (ap_middleware app)"

datatype shim_kind = Direct | AsgiShim | FormShim | ResponseShim | ModelShim | DepShim | ParamShim | StoreShim

definition choose_shim :: "app_info \<Rightarrow> api_info \<Rightarrow> shim_kind" where
  "choose_shim app r =
     (if ai_custom r then AsgiShim
      else if ai_form r then (if ai_solver r then ResponseShim else if ai_form_shim r then FormShim else Direct)
      else if \<not> ai_eligible r then ResponseShim
      else if ai_field r then
        (if ai_solver r \<or> has_asgi_middleware app \<or> Cls ''ResponseValidationError'' \<in> set (ap_handlers app) then ResponseShim else ModelShim)
      else if ai_solver r \<or> has_asgi_middleware app then
        (if ai_solver r \<and> \<not> has_asgi_middleware app \<and> \<not> ai_gen_deps r then DepShim else ResponseShim)
      else if ai_validator r then ParamShim
      else if Cls ''Exception'' \<in> set (ap_handlers app) then StoreShim
      else Direct)"

text \<open>The flag the core is given, and whether the registered function really is a coroutine function.\<close>

definition marked_coroutine :: "app_info \<Rightarrow> api_info \<Rightarrow> bool" where
  "marked_coroutine app r = (if choose_shim app r = Direct then ai_coroutine r else True)"

definition shim_is_coroutine :: "app_info \<Rightarrow> api_info \<Rightarrow> bool" where
  "shim_is_coroutine app r = (if choose_shim app r \<in> {Direct, StoreShim} then ai_coroutine r else True)"

text \<open>Whether the server has to keep the raw request for a route.\<close>

fun dep_needs_ctx :: "dependant \<Rightarrow> bool" where
  "dep_needs_ctx (Dependant pa deps nm c sp own par uc pth sc) =
     (sn_request sp \<noteq> None \<or> sn_connection sp \<noteq> None
      \<or> list_ex (\<lambda>f. f_model f \<noteq> None) (pa_header pa @ pa_cookie pa @ pa_query pa)
      \<or> list_ex dep_needs_ctx deps)"

definition route_needs_ctx :: "api_info \<Rightarrow> bool" where
  "route_needs_ctx r \<longleftrightarrow> ai_custom r \<or> dep_needs_ctx (ai_dependant r) \<or> (\<not> ai_eligible r \<and> pa_body (dp_params (ai_dependant r)) \<noteq> [])"

subsection \<open>Routes with the same path\<close>

abbreviation GET :: str where "GET \<equiv> S ''GET''"
abbreviation HEAD :: str where "HEAD \<equiv> S ''HEAD''"

definition methods_of :: "api_info \<Rightarrow> str list" where
  "methods_of r = (if ai_methods r = [] then [GET] else ai_methods r)"

definition set_new :: "str \<Rightarrow> 'v \<Rightarrow> (str, 'v) dict \<Rightarrow> (str, 'v) dict" where
  "set_new k v d = (if dict_has d k then d else dict_set k v d)"

definition add_methods :: "api_info \<Rightarrow> (str, api_info) dict \<Rightarrow> (str, api_info) dict" where
  "add_methods r d = fold (\<lambda>m. set_new (upper m) r) (methods_of r) d"

text \<open>The function called for a method, and the route whose parameter names and body are used for it.\<close>

definition group_shims :: "api_info list \<Rightarrow> (str, api_info) dict" where
  "group_shims rs =
     (let d = fold add_methods rs [] in
      case map_of d GET of Some r \<Rightarrow> set_new HEAD r d | None \<Rightarrow> d)"

definition group_routes :: "api_info list \<Rightarrow> (str, api_info) dict" where
  "group_routes rs =
     fold (\<lambda>r d. let d' = add_methods r d in if GET \<in> set (methods_of r) then set_new HEAD r d' else d') rs []"

definition internal_keys :: "str list" where
  "internal_keys = [S ''__method__'', S ''__raw_headers__'', S ''__path__'', S ''__auth_scheme__'', S ''__auth_credentials__'',
     S ''__body__'', S ''__content_type__'']"

datatype dispatched = NotAllowed | BodyErrors "err list" | CallShim api_info "(str, pyv) dict"

text \<open>
  The dispatcher of a group. \<open>parse_body\<close> parses and validates a body for a route; it is \<open>None\<close> if the
  body is no JSON object or parsing raises an error that is ignored.
\<close>

definition group_dispatch ::
  "(api_info \<Rightarrow> bytes \<Rightarrow> ((str, pyv) dict \<times> err list) option) \<Rightarrow> api_info list \<Rightarrow> (str, pyv) dict \<Rightarrow> dispatched" where
  "group_dispatch parse_body rs kwargs =
     (let m = upper (case map_of kwargs (S ''__method__'') of Some (VStr s) \<Rightarrow> s | _ \<Rightarrow> GET) in
      case map_of (group_shims rs) m of
        None \<Rightarrow> NotAllowed
      | Some shim \<Rightarrow>
          (let route = map_of (group_routes rs) m;
               known = (case route of Some r \<Rightarrow> ai_names r | None \<Rightarrow> []);
               kw = filter (\<lambda>kv. fst kv \<in> set internal_keys \<or> fst kv \<in> set known) kwargs;
               kw1 = drop_keys [S ''__body__'', S ''__content_type__''] kw
           in case (map_of kw (S ''__body__''), route) of
                (Some (VBytes b), Some r) \<Rightarrow>
                  (if b = [] \<or> pa_body (dp_params (ai_dependant r)) = [] then CallShim shim kw1
                   else (case parse_body r b of
                           None \<Rightarrow> CallShim shim kw1
                         | Some (vals, errs) \<Rightarrow> if errs \<noteq> [] then BodyErrors errs else CallShim shim (dict_update vals kw1)))
              | _ \<Rightarrow> CallShim shim kw1))"

subsection \<open>Registration with the core\<close>

datatype registered = RegRoute shim_kind api_info | RegGroup "api_info list" | RegMount str nat | RegPlain nat | RegSocket nat

record registration =
  rg_path :: str
  rg_methods :: "str set"
  rg_target :: registered
  rg_coroutine :: bool
  rg_has_body :: bool
  rg_form :: bool
  rg_multi :: bool

datatype route_item = ItemApi api_info | ItemMount str "nat option" | ItemPlain str "str list" nat | ItemSocket str nat

fun api_of :: "route_item \<Rightarrow> api_info option" where
  "api_of (ItemApi r) = Some r"
| "api_of i = None"

definition with_head :: "str set \<Rightarrow> str set" where
  "with_head ms = (if GET \<in> ms then insert HEAD ms else ms)"

definition path_group :: "str \<Rightarrow> api_info list \<Rightarrow> api_info list" where
  "path_group p rs = filter (\<lambda>r. ai_path r = p) rs"

definition body_methods :: "str set" where
  "body_methods = {S ''POST'', S ''PUT'', S ''PATCH'', S ''DELETE''}"

definition register_api :: "app_info \<Rightarrow> api_info list \<Rightarrow> api_info \<Rightarrow> registration list" where
  "register_api app rs r =
     (let grp = path_group (ai_path r) rs;
          ms = (if length grp > 1 then (\<Union>g\<in>set grp. with_head (set (methods_of g))) else with_head (set (methods_of r)));
          has_body = (ms \<inter> body_methods \<noteq> {} \<or> pa_body (dp_params (ai_dependant r)) \<noteq> [])
      in if length grp > 1
         then (if ai_id (hd grp) \<noteq> ai_id r then []
               else [\<lparr>rg_path = ai_path r, rg_methods = ms, rg_target = RegGroup grp, rg_coroutine = True, rg_has_body = has_body,
                      rg_form = False, rg_multi = True\<rparr>])
         else [\<lparr>rg_path = ai_path r, rg_methods = ms, rg_target = RegRoute (choose_shim app r) r, rg_coroutine = marked_coroutine app r,
                rg_has_body = (\<not> ai_custom r \<and> has_body), rg_form = (\<not> ai_custom r \<and> ai_form r), rg_multi = False\<rparr>])"

definition mount_methods :: "str set" where
  "mount_methods = {GET, S ''POST'', S ''PUT'', S ''PATCH'', S ''DELETE'', HEAD, S ''OPTIONS''}"

fun register_mount :: "route_item \<Rightarrow> registration list" where
  "register_mount (ItemMount path (Some app)) =
     map (\<lambda>p. \<lparr>rg_path = p, rg_methods = mount_methods, rg_target = RegMount path app, rg_coroutine = True, rg_has_body = True,
                rg_form = False, rg_multi = False\<rparr>)
       [rstrip 47 path @ S ''/{__mount_path__:path}'', or_else (rstrip 47 path) [47]]"
| "register_mount i = []"

fun register_plain :: "route_item \<Rightarrow> registration list" where
  "register_plain (ItemPlain path ms ep) =
     [\<lparr>rg_path = path, rg_methods = (if ms = [] then mount_methods else set ms), rg_target = RegPlain ep, rg_coroutine = True,
       rg_has_body = True, rg_form = False, rg_multi = False\<rparr>]"
| "register_plain i = []"

fun register_socket :: "route_item \<Rightarrow> registration list" where
  "register_socket (ItemSocket path ep) =
     [\<lparr>rg_path = path, rg_methods = {GET}, rg_target = RegSocket ep, rg_coroutine = True, rg_has_body = False, rg_form = False, rg_multi = False\<rparr>]"
| "register_socket i = []"

definition register_apis :: "app_info \<Rightarrow> api_info list \<Rightarrow> registration list" where
  "register_apis app rs = concat (map (register_api app rs) rs)"

definition sync_body :: "app_info \<Rightarrow> route_item list \<Rightarrow> registration list" where
  "sync_body app items =
     register_apis app (List.map_filter api_of items) @ concat (map register_mount items) @ concat (map register_plain items)
     @ concat (map register_socket items)"

text \<open>Routes are registered once; those added later are not.\<close>

record core_state =
  co_synced :: bool
  co_table :: "registration list"

definition sync_routes_to_core :: "app_info \<Rightarrow> route_item list \<Rightarrow> core_state \<Rightarrow> core_state" where
  "sync_routes_to_core app items co =
     (if co_synced co then co else \<lparr>co_synced = True, co_table = co_table co @ sync_body app items\<rparr>)"

subsection \<open>The router and the OpenAPI document\<close>

text \<open>
  The router is made when it is first asked for, from stored arguments; \<open>fresh\<close> are new objects. The setup adds the
  routes of the documentation.
\<close>

record lazy_app =
  la_arguments :: bool
  la_router :: "nat option"
  la_webhooks :: "nat option"
  la_webhooks_arg :: "nat option"
  la_setup :: bool

definition lazy_init :: "nat option \<Rightarrow> lazy_app" where
  "lazy_init webhooks = \<lparr>la_arguments = True, la_router = None, la_webhooks = None, la_webhooks_arg = webhooks, la_setup = False\<rparr>"

definition get_router :: "nat \<Rightarrow> nat \<Rightarrow> lazy_app \<Rightarrow> (nat \<times> lazy_app) res" where
  "get_router fresh1 fresh2 la =
     (case la_router la of
        Some r \<Rightarrow> Inr (r, la)
      | None \<Rightarrow>
          if \<not> la_arguments la then Inl (TypeError (S ''argument after ** must be a mapping''))
          else Inr (fresh2, \<lparr>la_arguments = False, la_router = Some fresh2, la_webhooks = Some (get_or (la_webhooks_arg la) fresh1),
                             la_webhooks_arg = None, la_setup = True\<rparr>))"

definition set_router :: "nat \<Rightarrow> lazy_app \<Rightarrow> lazy_app" where
  "set_router r la = la\<lparr>la_router := Some r\<rparr>"

definition get_webhooks :: "nat \<Rightarrow> nat \<Rightarrow> lazy_app \<Rightarrow> (nat option \<times> lazy_app) res" where
  "get_webhooks fresh1 fresh2 la =
     (case la_router la of
        Some r \<Rightarrow> Inr (la_webhooks la, la)
      | None \<Rightarrow> rbind (get_router fresh1 fresh2 la) (\<lambda>(r, la'). Inr (la_webhooks la', la')))"

definition set_webhooks :: "nat \<Rightarrow> lazy_app \<Rightarrow> lazy_app" where
  "set_webhooks w la = la\<lparr>la_webhooks := Some w\<rparr>"

text \<open>
  The cached document: \<open>generate\<close> is \<open>get_openapi\<close> as a function of the servers. The endpoint adds the root path
  under which it was called to the servers and then makes the document anew.
\<close>

record 'd openapi_state =
  oa_servers :: "str list"
  oa_urls :: "str list"
  oa_in_servers :: bool
  oa_document :: "'d option"

definition openapi_document :: "(str list \<Rightarrow> 'd) \<Rightarrow> 'd openapi_state \<Rightarrow> 'd openapi_state" where
  "openapi_document generate st =
     (case oa_document st of Some d \<Rightarrow> st | None \<Rightarrow> st\<lparr>oa_document := Some (generate (oa_servers st))\<rparr>)"

definition openapi_setup :: "str list \<Rightarrow> bool \<Rightarrow> 'd openapi_state" where
  "openapi_setup servers in_servers =
     \<lparr>oa_servers = servers, oa_urls = filter (\<lambda>u. u \<noteq> []) servers, oa_in_servers = in_servers, oa_document = None\<rparr>"

definition openapi_endpoint :: "(str list \<Rightarrow> 'd) \<Rightarrow> str \<Rightarrow> 'd openapi_state \<Rightarrow> 'd openapi_state" where
  "openapi_endpoint generate root st =
     (let rp = rstrip 47 root;
          st1 = (if rp \<notin> set (oa_urls st) \<and> rp \<noteq> [] \<and> oa_in_servers st
                 then st\<lparr>oa_servers := rp # oa_servers st, oa_urls := rp # oa_urls st, oa_document := None\<rparr> else st)
      in openapi_document generate st1)"

subsection \<open>Running\<close>

text \<open>The limits are those of \<open>max_body_size\<close> and its variants, in bytes; the first that is not zero counts.\<close>

datatype run_mode = WatchFiles | StartWorkers int | Serve int

definition body_limit :: "int \<Rightarrow> int \<Rightarrow> int \<Rightarrow> int" where
  "body_limit plain kb mb = (if plain \<noteq> 0 then plain else if kb \<noteq> 0 then kb else mb)"

definition run_app :: "bool \<Rightarrow> bool \<Rightarrow> int \<Rightarrow> bool \<Rightarrow> int \<Rightarrow> run_mode" where
  "run_app reload reload_worker workers worker limit =
     (if reload \<and> \<not> reload_worker then WatchFiles
      else if workers > 1 \<and> \<not> worker then StartWorkers workers
      else Serve limit)"

subsection \<open>Properties: which route is called\<close>

text \<open>The route the core calls for a path and a method: that of the first entry with both.\<close>

definition target_route :: "registration \<Rightarrow> str \<Rightarrow> api_info option" where
  "target_route rg m =
     (case rg_target rg of RegRoute k r \<Rightarrow> Some r | RegGroup rs \<Rightarrow> map_of (group_shims rs) m | _ \<Rightarrow> None)"

definition core_lookup :: "registration list \<Rightarrow> str \<Rightarrow> str \<Rightarrow> api_info option" where
  "core_lookup table p m =
     (case find (\<lambda>rg. rg_path rg = p \<and> m \<in> rg_methods rg) table of Some rg \<Rightarrow> target_route rg m | None \<Rightarrow> None)"

text \<open>The reference: the first declared route with the path and the method; \<open>HEAD\<close> falls back to \<open>GET\<close>.\<close>

definition first_route :: "api_info list \<Rightarrow> str \<Rightarrow> str \<Rightarrow> api_info option" where
  "first_route rs p m = find (\<lambda>r. ai_path r = p \<and> m \<in> set (methods_of r)) rs"

definition served_route :: "api_info list \<Rightarrow> str \<Rightarrow> str \<Rightarrow> api_info option" where
  "served_route rs p m =
     (case first_route rs p m of Some r \<Rightarrow> Some r | None \<Rightarrow> if m = HEAD then first_route rs p GET else None)"

definition upper_methods :: "api_info list \<Rightarrow> bool" where
  "upper_methods rs \<longleftrightarrow> (\<forall>r\<in>set rs. \<forall>m\<in>set (methods_of r). upper m = m)"

lemma map_of_set_new: "map_of (set_new k v d) x = (case map_of d x of Some y \<Rightarrow> Some y | None \<Rightarrow> if x = k then Some v else None)"
  by (auto simp: set_new_def dict_has_iff map_of_dict_set split: option.splits)

lemma map_of_add_methods:
  "\<forall>m\<in>set (methods_of r). upper m = m \<Longrightarrow> map_of (add_methods r d) x =
     (case map_of d x of Some y \<Rightarrow> Some y | None \<Rightarrow> if x \<in> set (methods_of r) then Some r else None)"
proof -
  have "map_of (fold (\<lambda>m. set_new (upper m) r) ms d) x = (case map_of d x of Some y \<Rightarrow> Some y | None \<Rightarrow> if x \<in> set ms then Some r else None)"
    if "\<forall>m\<in>set ms. upper m = m" for ms
    using that by (induction ms arbitrary: d) (auto simp: map_of_set_new split: option.splits)
  then show "\<forall>m\<in>set (methods_of r). upper m = m \<Longrightarrow> ?thesis" by (simp add: add_methods_def)
qed

lemma map_of_fold_methods:
  "upper_methods rs \<Longrightarrow> map_of (fold add_methods rs d) x =
     (case map_of d x of Some y \<Rightarrow> Some y | None \<Rightarrow> find (\<lambda>r. x \<in> set (methods_of r)) rs)"
  by (induction rs arbitrary: d) (auto simp: upper_methods_def map_of_add_methods split: option.splits)

lemma group_shims_find:
  assumes "upper_methods rs"
  shows "map_of (group_shims rs) m = (case find (\<lambda>r. m \<in> set (methods_of r)) rs of
     Some r \<Rightarrow> Some r | None \<Rightarrow> if m = HEAD then find (\<lambda>r. GET \<in> set (methods_of r)) rs else None)"
  using map_of_fold_methods [OF assms, of "[]"]
  by (auto simp: group_shims_def Let_def map_of_set_new split: option.splits)

lemma find_filter: "find P (filter Q xs) = find (\<lambda>x. Q x \<and> P x) xs"
  by (induction xs) auto

lemma first_route_group: "first_route rs p m = find (\<lambda>r. m \<in> set (methods_of r)) (path_group p rs)"
  by (simp add: first_route_def path_group_def find_filter)

lemma path_group_member: "x \<in> set (path_group p rs) \<longleftrightarrow> x \<in> set rs \<and> ai_path x = p"
  by (auto simp: path_group_def)

lemma served_group: "upper_methods rs \<Longrightarrow> map_of (group_shims (path_group p rs)) m = served_route rs p m"
proof -
  assume "upper_methods rs"
  then have "upper_methods (path_group p rs)" by (auto simp: upper_methods_def path_group_member)
  from group_shims_find [OF this] show ?thesis by (simp only: served_route_def first_route_group)
qed

lemma served_declared:
  "served_route rs p m \<noteq> None \<Longrightarrow> \<exists>x\<in>set (path_group p rs). m \<in> with_head (set (methods_of x))"
proof (rule ccontr)
  assume "\<not> (\<exists>x\<in>set (path_group p rs). m \<in> with_head (set (methods_of x)))"
  then have "first_route rs p m = None" "m = HEAD \<Longrightarrow> first_route rs p GET = None"
    by (auto simp: first_route_group find_None_iff with_head_def split: if_splits)
  moreover assume "served_route rs p m \<noteq> None"
  ultimately show False by (simp add: served_route_def split: if_splits)
qed

lemma register_api_path: "rg \<in> set (register_api app rs r) \<Longrightarrow> rg_path rg = ai_path r"
  by (auto simp: register_api_def Let_def split: if_splits)

lemma registered_for_path:
  "filter (\<lambda>rg. rg_path rg = p) (register_apis app rs) = concat (map (register_api app rs) (path_group p rs))"
proof -
  have "filter (\<lambda>rg. rg_path rg = p) (concat (map (register_api app rs) xs)) = concat (map (register_api app rs) (path_group p xs))" for xs
  proof (induction xs)
    case (Cons x xs)
    have "filter (\<lambda>rg. rg_path rg = p) (register_api app rs x) = (if ai_path x = p then register_api app rs x else [])"
      using register_api_path [of _ app rs x] by (auto simp: filter_empty_conv intro!: filter_True)
    then show ?case using Cons by (simp add: path_group_def)
  qed (simp add: path_group_def)
  then show ?thesis by (simp add: register_apis_def)
qed

lemma register_group:
  assumes "distinct (map ai_id rs)" and "path_group p rs = g # gs" and "gs \<noteq> []"
  shows "concat (map (register_api app rs) (path_group p rs)) = register_api app rs g"
proof -
  have "ai_path x = p" if "x \<in> set (g # gs)" for x using that path_group_member [of x p rs] by (simp add: assms(2))
  moreover have "distinct (map ai_id (g # gs))" using assms(1) unfolding assms(2) [symmetric] path_group_def by (rule distinct_map_filter)
  ultimately have "register_api app rs x = []" if "x \<in> set gs" for x
    using that assms(2,3) by (auto simp: register_api_def Let_def)
  then show ?thesis using assms(2) by simp
qed

text \<open>
  C17: The core calls the route the application declared first for the path and the method. Several routes with the same
  path are registered as one entry, which finds the same route for each method as going through
  the declared routes would; a \<open>HEAD\<close> request that no route declares goes to the route for \<open>GET\<close>.
\<close>

theorem core_calls_first_route:
  assumes "distinct (map ai_id rs)" and "upper_methods rs"
  shows "core_lookup (register_apis app rs) p m = served_route rs p m"
proof -
  let ?entries = "concat (map (register_api app rs) (path_group p rs))"
  have look: "find (\<lambda>rg. rg_path rg = p \<and> m \<in> rg_methods rg) (register_apis app rs) = find (\<lambda>rg. m \<in> rg_methods rg) ?entries"
    by (simp only: find_filter [symmetric] registered_for_path)
  have served: "served_route rs p m = (case find (\<lambda>r. m \<in> set (methods_of r)) (path_group p rs) of
     Some r \<Rightarrow> Some r | None \<Rightarrow> if m = HEAD then find (\<lambda>r. GET \<in> set (methods_of r)) (path_group p rs) else None)"
    by (simp only: served_route_def first_route_group)
  show ?thesis
  proof (cases "path_group p rs")
    case Nil
    then show ?thesis by (simp add: core_lookup_def look served)
  next
    case (Cons g gs)
    then have g: "ai_path g = p" using path_group_member [of g p rs] by simp
    show ?thesis
    proof (cases "gs = []")
      case True
      then have "\<exists>rg. register_api app rs g = [rg] \<and> rg_methods rg = with_head (set (methods_of g)) \<and> rg_target rg = RegRoute (choose_shim app g) g"
        using Cons g by (simp add: register_api_def Let_def)
      then obtain rg where "register_api app rs g = [rg]" "rg_methods rg = with_head (set (methods_of g))" "rg_target rg = RegRoute (choose_shim app g) g"
        by blast
      then show ?thesis using Cons True by (auto simp: core_lookup_def look served target_route_def with_head_def)
    next
      case False
      let ?ms = "\<Union>x\<in>set (g # gs). with_head (set (methods_of x))"
      have "\<exists>rg. register_api app rs g = [rg] \<and> rg_methods rg = ?ms \<and> rg_target rg = RegGroup (g # gs)"
        using Cons g False by (auto simp: register_api_def Let_def)
      then obtain rg where rg: "register_api app rs g = [rg]" "rg_methods rg = ?ms" "rg_target rg = RegGroup (g # gs)" by blast
      have entries: "?entries = [rg]" using register_group [OF assms(1) Cons False] rg(1) by simp
      have "m \<in> ?ms" if "served_route rs p m \<noteq> None" using served_declared [OF that] unfolding Cons by blast
      moreover have "target_route rg m = served_route rs p m" using served_group [OF assms(2), of p m] Cons rg(3) by (simp add: target_route_def)
      ultimately show ?thesis using rg(2)
        by (cases "served_route rs p m"; cases "m \<in> ?ms") (simp_all add: core_lookup_def look entries)
    qed
  qed
qed

text \<open>
  The names a group keeps for a method are those of the route it calls, except for \<open>HEAD\<close>: there they are of the
  first route with \<open>GET\<close> or \<open>HEAD\<close>.
\<close>

lemma group_routes_find:
  assumes "upper_methods rs"
  shows "map_of (group_routes rs) m = find (\<lambda>r. m \<in> with_head (set (methods_of r))) rs"
proof -
  have "map_of (fold (\<lambda>r d. let d' = add_methods r d in if GET \<in> set (methods_of r) then set_new HEAD r d' else d') rs d) m
     = (case map_of d m of Some y \<Rightarrow> Some y | None \<Rightarrow> find (\<lambda>r. m \<in> with_head (set (methods_of r))) rs)" for d
    using assms by (induction rs arbitrary: d) (auto simp: upper_methods_def map_of_add_methods map_of_set_new with_head_def Let_def split: option.splits)
  then show ?thesis by (simp add: group_routes_def)
qed

lemma group_names_match:
  assumes "upper_methods rs" and "m \<noteq> HEAD"
  shows "map_of (group_routes rs) m = map_of (group_shims rs) m"
proof -
  have "m \<in> with_head (set (methods_of r)) \<longleftrightarrow> m \<in> set (methods_of r)" for r using assms(2) by (simp add: with_head_def)
  then show ?thesis using assms by (simp add: group_routes_find group_shims_find split: option.splits)
qed

text \<open>A group of a route for \<open>GET\<close> and then one for \<open>HEAD\<close>: the second is called with the parameters of the first.\<close>

lemma head_group_mismatch:
  assumes "ai_methods a = [GET]" and "ai_methods b = [HEAD]"
  shows "map_of (group_shims [a, b]) HEAD = Some b \<and> map_of (group_routes [a, b]) HEAD = Some a"
proof -
  have ms: "methods_of a = [GET]" "methods_of b = [HEAD]" using assms by (simp_all add: methods_of_def)
  have "upper GET = GET" "upper HEAD = HEAD" by (simp_all add: upper_def upper_cp_def S_def)
  then have "upper_methods [a, b]" by (simp add: upper_methods_def ms)
  then show ?thesis by (simp add: group_shims_find group_routes_find with_head_def ms)
qed

text \<open>The flag for the core is right except where an exception handler for \<open>Exception\<close> wraps a synchronous endpoint.\<close>

lemma coroutine_flag: "marked_coroutine app r = shim_is_coroutine app r \<longleftrightarrow> choose_shim app r \<noteq> StoreShim \<or> ai_coroutine r"
  by (auto simp: marked_coroutine_def shim_is_coroutine_def)

text \<open>Synchronising a second time changes nothing, so routes added in between are not served.\<close>

lemma sync_once: "sync_routes_to_core app items' (sync_routes_to_core app items co) = sync_routes_to_core app items co"
  by (simp add: sync_routes_to_core_def)

subsection \<open>Properties: the document\<close>

text \<open>
  Every document the endpoint serves is made for the servers known at that time: whatever the root paths of the
  requests were, the document is that of the current servers, these contain the root path of
  the last request, and none was added twice.
\<close>

theorem openapi_served_current:
  assumes "st = fold (openapi_endpoint generate) (roots @ [root]) (openapi_setup servers True)" and "\<forall>u\<in>set servers. u \<noteq> []" and "distinct servers"
  shows "oa_document st = Some (generate (oa_servers st)) \<and> distinct (oa_servers st) \<and> (rstrip 47 root \<noteq> [] \<longrightarrow> rstrip 47 root \<in> set (oa_servers st))"
proof -
  define inv where "inv s \<longleftrightarrow> oa_urls s = oa_servers s \<and> oa_in_servers s \<and> distinct (oa_servers s)
    \<and> (\<forall>d. oa_document s = Some d \<longrightarrow> d = generate (oa_servers s))" for s :: "'a openapi_state"
  have step: "inv (openapi_endpoint generate r s)" if "inv s" for r s
    using that by (auto simp: inv_def openapi_endpoint_def openapi_document_def Let_def split: option.splits)
  have "inv (openapi_setup servers True)" using assms(2,3) by (auto simp: inv_def openapi_setup_def)
  then have "inv (fold (openapi_endpoint generate) roots (openapi_setup servers True))"
    by (induction roots rule: rev_induct) (simp_all add: step)
  moreover have "st = openapi_endpoint generate root (fold (openapi_endpoint generate) roots (openapi_setup servers True))" using assms(1) by simp
  ultimately show ?thesis
    by (auto simp: inv_def openapi_endpoint_def openapi_document_def Let_def split: option.splits)
qed

text \<open>
  A router that is assigned before the first access leaves the application without setup and without webhooks,
  for ever: the documentation has no routes and generating the document fails.
\<close>

lemma assigned_router_skips_setup:
  "get_router f1 f2 (set_router r (lazy_init webhooks)) = Inr (r, set_router r (lazy_init webhooks))
   \<and> get_webhooks f1 f2 (set_router r (lazy_init webhooks)) = Inr (None, set_router r (lazy_init webhooks))
   \<and> \<not> la_setup (set_router r (lazy_init webhooks))"
  by (simp add: set_router_def lazy_init_def get_router_def get_webhooks_def)

text \<open>Started with several workers, the limit on the size of a body is not passed on.\<close>

lemma workers_without_limit: "workers > 1 \<Longrightarrow> run_app False rw workers False limit = StartWorkers workers"
  by (simp add: run_app_def)

subsection \<open>Examples\<close>

definition example_info :: "nat \<Rightarrow> str list \<Rightarrow> api_info" where
  "example_info i ms = \<lparr>ai_id = i, ai_path = S ''/x'', ai_methods = ms, ai_coroutine = True, ai_custom = False, ai_form = False, ai_form_shim = False,
     ai_eligible = True, ai_solver = False, ai_gen_deps = False, ai_validator = False, ai_field = False,
     ai_dependant = plain_dependant [] None 7, ai_names = []\<rparr>"

theorem core_calls_first_route_witness:
  "core_lookup (register_apis \<lparr>ap_middleware = [], ap_handlers = []\<rparr> [example_info 1 [GET], example_info 2 [S ''POST''], example_info 3 [GET]]) (S ''/x'') GET
   = Some (example_info 1 [GET])"
proof -
  let ?rs = "[example_info 1 [GET], example_info 2 [S ''POST''], example_info 3 [GET]]"
  have "upper GET = GET" "upper (S ''POST'') = S ''POST''" by (simp_all add: upper_def upper_cp_def S_def)
  then have "upper_methods ?rs" by (simp add: upper_methods_def methods_of_def example_info_def)
  moreover have "distinct (map ai_id ?rs)" by (simp add: example_info_def)
  ultimately have "core_lookup (register_apis \<lparr>ap_middleware = [], ap_handlers = []\<rparr> ?rs) (S ''/x'') GET = served_route ?rs (S ''/x'') GET"
    using core_calls_first_route by blast
  moreover have "served_route ?rs (S ''/x'') GET = Some (example_info 1 [GET])"
    by (simp add: served_route_def first_route_def methods_of_def example_info_def)
  ultimately show ?thesis by simp
qed

theorem openapi_served_current_witness:
  "\<exists>st. st = fold (openapi_endpoint (\<lambda>servers. servers)) ([S ''/v1''] @ [S ''/v2'']) (openapi_setup [S ''/v1''] True)
     \<and> oa_document st = Some (oa_servers st) \<and> distinct (oa_servers st)"
proof -
  let ?st = "fold (openapi_endpoint (\<lambda>servers. servers)) ([S ''/v1''] @ [S ''/v2'']) (openapi_setup [S ''/v1''] True)"
  have "oa_document ?st = Some (oa_servers ?st) \<and> distinct (oa_servers ?st) \<and> (rstrip 47 (S ''/v2'') \<noteq> [] \<longrightarrow> rstrip 47 (S ''/v2'') \<in> set (oa_servers ?st))"
    by (rule openapi_served_current [OF refl]) simp_all
  then show ?thesis by blast
qed

end
