(* ===== verification/HttpWire.thy ===== *)
theory HttpWire
  imports Shims Mounting Middleware
begin

text \<open>
  What \<open>_cpp_server.py\<close> reads from and writes to a connection as bytes: the context of a request
  (the first part of \<open>CppHttpProtocol.data_received\<close>), injected headers, responses built from
  parts, chunked streaming and the CORS headers of the asynchronous paths.
\<close>

subsection \<open>Searching bytes\<close>

text \<open>\<open>s.find(p)\<close> and \<open>s.find(p, lo, hi)\<close>, with \<open>None\<close> for -1.\<close>

fun find_sub :: "'a list \<Rightarrow> 'a list \<Rightarrow> nat option" where
  "find_sub p [] = (if p = [] then Some 0 else None)"
| "find_sub p (x # xs) = (if startswith (x # xs) p then Some 0 else map_option Suc (find_sub p xs))"

definition find_in :: "'a list \<Rightarrow> 'a list \<Rightarrow> nat \<Rightarrow> nat \<Rightarrow> nat option" where
  "find_in p s lo hi = map_option ((+) lo) (find_sub p (drop lo (take hi s)))"

definition CR :: char where "CR = CHR 0x0D"
definition LF :: char where "LF = CHR 0x0A"
abbreviation CRLF :: bytes where "CRLF \<equiv> [CR, LF]"
abbreviation CRLFCRLF :: bytes where "CRLFCRLF \<equiv> [CR, LF, CR, LF]"

text \<open>\<open>bytes.strip()\<close> removes ASCII whitespace.\<close>

definition is_bspace :: "char \<Rightarrow> bool" where
  "is_bspace c \<longleftrightarrow> c = CHR '' '' \<or> (9 \<le> (of_char c :: nat) \<and> (of_char c :: nat) \<le> 13)"

definition bstrip :: "bytes \<Rightarrow> bytes" where
  "bstrip b = rev (dropWhile is_bspace (rev (dropWhile is_bspace b)))"

lemma find_sub_bound: "find_sub p s = Some i \<Longrightarrow> i + length p \<le> length s"
proof (induction p s arbitrary: i rule: find_sub.induct)
  case (2 p x xs)
  then show ?case by (auto simp: startswith_def split: if_splits dest: arg_cong [of _ _ length])
qed (auto split: if_splits)

lemma find_in_range:
  assumes "find_in p s lo hi = Some i"
  shows "lo \<le> i" and "p \<noteq> [] \<Longrightarrow> i < hi"
proof -
  obtain j where "find_sub p (drop lo (take hi s)) = Some j" "i = lo + j" using assms by (auto simp: find_in_def)
  with find_sub_bound [OF this(1)] show "lo \<le> i" and "p \<noteq> [] \<Longrightarrow> i < hi"
    by (cases p; simp; linarith)+
qed

subsection \<open>The context of a request\<close>

text \<open>
  The context variables \<open>_current_method\<close>, \<open>_current_path\<close>, \<open>_current_query_string\<close>,
  \<open>_current_raw_headers\<close> and \<open>_current_body\<close>, from which the shims build a \<open>Request\<close>.
\<close>

record req_ctx =
  cq_method :: str
  cq_path :: str
  cq_query :: bytes
  cq_raw :: "(bytes \<times> bytes) list option"
  cq_body :: bytes

definition no_request :: req_ctx where
  "no_request = \<lparr>cq_method = S ''GET'', cq_path = S ''/'', cq_query = [], cq_raw = None, cq_body = []\<rparr>"

definition valid_http_methods :: "bytes list" where
  "valid_http_methods = [''GET'', ''POST'', ''PUT'', ''DELETE'', ''PATCH'', ''HEAD'', ''OPTIONS'', ''TRACE'', ''CONNECT'']"

text \<open>The position of the end of the request line and of the first space, if the data begins with a request line.\<close>

definition new_request :: "bytes \<Rightarrow> (nat \<times> nat) option" where
  "new_request data =
     (case find_in CRLF data 0 (min (length data) 4096) of
        None \<Rightarrow> None
      | Some nl \<Rightarrow>
          if nl = 0 then None
          else (case find_in '' '' data 0 nl of
                  None \<Rightarrow> None
                | Some sp0 \<Rightarrow> if 0 < sp0 \<and> take sp0 data \<in> set valid_http_methods then Some (nl, sp0) else None))"

definition slice :: "'a list \<Rightarrow> nat \<Rightarrow> nat \<Rightarrow> 'a list" where
  "slice s lo hi = drop lo (take hi s)"

definition header_eol :: "bytes \<Rightarrow> nat \<Rightarrow> nat \<Rightarrow> nat" where
  "header_eol data pos hdrs_end = get_or (find_in CRLF data pos (hdrs_end + 1)) hdrs_end"

definition header_item :: "bytes \<Rightarrow> nat \<Rightarrow> nat \<Rightarrow> (bytes \<times> bytes) list" where
  "header_item data pos eol =
     (case find_in '':'' data pos eol of
        None \<Rightarrow> []
      | Some colon \<Rightarrow> if pos < colon then [(blower (bstrip (slice data pos colon)), bstrip (slice data (colon + 1) eol))] else [])"

lemma header_eol_ge: "pos < hdrs_end \<Longrightarrow> pos \<le> header_eol data pos hdrs_end"
  using find_in_range(1) [of CRLF data pos "hdrs_end + 1"] by (auto simp: header_eol_def get_or_def split: option.splits)

lemma header_eol_less: "pos < hdrs_end \<Longrightarrow> hdrs_end - Suc (Suc (header_eol data pos hdrs_end)) < hdrs_end - pos"
  using header_eol_ge [of pos hdrs_end data] by linarith

function parse_headers :: "bytes \<Rightarrow> nat \<Rightarrow> nat \<Rightarrow> (bytes \<times> bytes) list" where
  "parse_headers data pos hdrs_end =
     (if pos < hdrs_end then
        (let eol = header_eol data pos hdrs_end
         in header_item data pos eol @ parse_headers data (eol + 2) hdrs_end)
      else [])"
  by pat_completeness auto
termination
  by (relation "measure (\<lambda>(d, pos, e). e - pos)") (simp_all add: header_eol_less)

declare parse_headers.simps [simp del]

definition set_target :: "bytes \<Rightarrow> req_ctx \<Rightarrow> req_ctx" where
  "set_target target c =
     (case find_sub ''?'' target of
        Some q \<Rightarrow> c\<lparr>cq_path := latin1_decode (take q target), cq_query := drop (q + 1) target\<rparr>
      | None \<Rightarrow> c\<lparr>cq_path := latin1_decode target, cq_query := []\<rparr>)"

definition parse_context :: "bytes \<Rightarrow> req_ctx \<Rightarrow> req_ctx" where
  "parse_context data c =
     (if data = [] then c
      else case new_request data of
        Some (nl, sp0) \<Rightarrow>
          (let target_end = (case find_in '' '' data (sp0 + 1) nl of Some sp1 \<Rightarrow> sp1 | None \<Rightarrow> nl);
               c1 = set_target (slice data (sp0 + 1) target_end) (c\<lparr>cq_method := latin1_decode (take sp0 data)\<rparr>)
           in case find_in CRLFCRLF data nl (length data) of
                Some hdrs_end \<Rightarrow> c1\<lparr>cq_raw := Some (parse_headers data (nl + 2) hdrs_end), cq_body := drop (hdrs_end + 4) data\<rparr>
              | None \<Rightarrow> c1\<lparr>cq_raw := Some [], cq_body := []\<rparr>)
      | None \<Rightarrow> c\<lparr>cq_body := cq_body c @ data\<rparr>)"

subsection \<open>Responses as bytes\<close>

text \<open>\<open>_inject_headers_into_response\<close>.\<close>

definition header_line :: "bytes \<times> bytes \<Rightarrow> bytes" where
  "header_line h = CRLF @ fst h @ '': '' @ snd h"

fun inject_parts :: "raw_headers \<Rightarrow> bytes list res" where
  "inject_parts [] = Inr []"
| "inject_parts ((k, v) # hs) =
     rbind (header_bytes k) (\<lambda>kb. rbind (header_bytes v) (\<lambda>vb. rbind (inject_parts hs) (\<lambda>ps.
       Inr (if blower kb = ''content-length'' then ps else header_line (kb, vb) # ps))))"

definition inject_headers :: "bytes \<Rightarrow> raw_headers \<Rightarrow> bytes res" where
  "inject_headers resp extra =
     (case find_sub CRLFCRLF resp of
        None \<Rightarrow> Inr resp
      | Some idx \<Rightarrow> rbind (inject_parts extra) (\<lambda>ps. Inr (take idx resp @ concat ps @ drop idx resp)))"

text \<open>
  \<open>build_response_from_parts\<close> of the core (\<open>app.cpp\<close>). It reads the halves of a header as \<open>str\<close>; a
  half that is \<open>bytes\<close> is a \<open>TypeError\<close>.
\<close>

definition status_reason :: "int \<Rightarrow> bytes" where
  "status_reason code =
     (if code = 200 then ''OK'' else if code = 201 then ''Created'' else if code = 204 then ''No Content''
      else if code = 301 then ''Moved Permanently'' else if code = 302 then ''Found'' else if code = 304 then ''Not Modified''
      else if code = 307 then ''Temporary Redirect'' else if code = 308 then ''Permanent Redirect'' else if code = 400 then ''Bad Request''
      else if code = 401 then ''Unauthorized'' else if code = 403 then ''Forbidden'' else if code = 404 then ''Not Found''
      else if code = 405 then ''Method Not Allowed'' else if code = 422 then ''Unprocessable Entity''
      else if code = 500 then ''Internal Server Error'' else ''Unknown'')"

text \<open>The status lines cached at start know three more reasons.\<close>

definition status_line :: "int \<Rightarrow> bytes" where
  "status_line code =
     ''HTTP/1.1 '' @ map char_of (int_str code) @ '' '' @
     (if code = 413 then ''Payload Too Large'' else if code = 502 then ''Bad Gateway'' else if code = 503 then ''Service Unavailable''
      else status_reason code) @ CRLF"

definition text_half :: "hval \<Rightarrow> bytes res" where
  "text_half h = (case h of HB b \<Rightarrow> Inl (TypeError (S ''bad argument type for built-in operation'')) | HS s \<Rightarrow> utf8_encode s)"

fun header_block :: "raw_headers \<Rightarrow> (bytes \<times> bytes) list res" where
  "header_block [] = Inr []"
| "header_block ((k, v) # hs) =
     rbind (text_half k) (\<lambda>kb. rbind (text_half v) (\<lambda>vb. rbind (header_block hs) (\<lambda>ps. Inr ((kb, vb) # ps))))"

definition has_content_length :: "(bytes \<times> bytes) list \<Rightarrow> bool" where
  "has_content_length hs \<longleftrightarrow> list_ex (\<lambda>(k, v). blower k = ''content-length'') hs"

definition connection_line :: "bool \<Rightarrow> bytes" where
  "connection_line keep_alive = (if keep_alive then ''connection: keep-alive'' else ''connection: close'') @ CRLF"

definition build_response_from_parts :: "int \<Rightarrow> raw_headers \<Rightarrow> bytes \<Rightarrow> bool \<Rightarrow> bytes res" where
  "build_response_from_parts code hs body keep_alive =
     rbind (header_block hs) (\<lambda>ps.
       Inr (status_line code @ concat (map (\<lambda>(k, v). k @ '': '' @ v @ CRLF) ps)
            @ (if \<not> has_content_length ps \<and> code \<noteq> 204 \<and> code \<noteq> 304
               then ''content-length: '' @ map char_of (dec (length body)) @ CRLF else [])
            @ connection_line keep_alive @ CRLF @ body))"

subsection \<open>Streaming\<close>

definition build_chunked_frame :: "bytes \<Rightarrow> bytes" where
  "build_chunked_frame c =
     (if c = [] then ''0'' @ CRLFCRLF else map char_of (hex (length c)) @ CRLF @ c @ CRLF)"

definition status_phrases :: "(int \<times> bytes) list" where
  "status_phrases =
     [(200, ''OK''), (201, ''Created''), (202, ''Accepted''), (203, ''Non-Authoritative Information''), (204, ''No Content''),
      (205, ''Reset Content''), (206, ''Partial Content''), (207, ''Multi-Status''), (208, ''Already Reported''),
      (301, ''Moved Permanently''), (302, ''Found''), (303, ''See Other''), (304, ''Not Modified''),
      (307, ''Temporary Redirect''), (308, ''Permanent Redirect''), (400, ''Bad Request''), (401, ''Unauthorized''),
      (403, ''Forbidden''), (404, ''Not Found''), (405, ''Method Not Allowed''), (406, ''Not Acceptable''),
      (408, ''Request Timeout''), (409, ''Conflict''), (410, ''Gone''), (413, ''Payload Too Large''),
      (415, ''Unsupported Media Type''), (422, ''Unprocessable Entity''), (429, ''Too Many Requests''),
      (500, ''Internal Server Error''), (501, ''Not Implemented''), (502, ''Bad Gateway''),
      (503, ''Service Unavailable''), (504, ''Gateway Timeout'')]"

definition stream_prefix :: "int \<Rightarrow> bytes" where
  "stream_prefix status =
     ''HTTP/1.1 '' @ map char_of (int_str status) @ '' '' @ dict_get status_phrases status [] @ CRLF @ ''transfer-encoding: chunked'' @ CRLF"

fun stream_header_lines :: "raw_headers \<Rightarrow> bytes res" where
  "stream_header_lines [] = Inr []"
| "stream_header_lines ((k, v) # hs) =
     rbind (header_bytes k) (\<lambda>kb. rbind (header_bytes v) (\<lambda>vb. rbind (stream_header_lines hs) (\<lambda>r.
       Inr (kb @ '': '' @ vb @ CRLF @ r))))"

text \<open>
  The body iterator yields chunks and ends or raises. A chunk that is \<open>str\<close> is encoded; empty
  chunks are skipped, since an empty frame would end the body.
\<close>

fun stream_chunks :: "chunk list \<Rightarrow> exn option \<Rightarrow> bytes list \<times> unit res" where
  "stream_chunks [] stop = ([], case stop of None \<Rightarrow> Inr () | Some e \<Rightarrow> Inl e)"
| "stream_chunks (c # cs) stop =
     (case chunk_bytes c of
        Inl e \<Rightarrow> ([], Inl e)
      | Inr b \<Rightarrow> (let (ws, out) = stream_chunks cs stop in ((if b = [] then ws else build_chunked_frame b # ws), out)))"

text \<open>\<open>_write_chunked_streaming\<close>: the writes, and the exception it raises.\<close>

definition write_chunked_streaming :: "int \<Rightarrow> raw_headers \<Rightarrow> raw_headers \<Rightarrow> chunk list \<Rightarrow> exn option \<Rightarrow> bytes list \<times> unit res" where
  "write_chunked_streaming status hs cors cs stop =
     (case rbind (stream_header_lines hs) (\<lambda>a. rbind (stream_header_lines cors) (\<lambda>b. Inr (a @ b))) of
        Inl e \<Rightarrow> ([], Inl e)
      | Inr lines \<Rightarrow>
          (let head = stream_prefix status @ lines @ CRLF;
               (ws, out) = stream_chunks cs stop
           in case out of
                Inr _ \<Rightarrow> (head # ws @ [''0'' @ CRLFCRLF], Inr ())
              | Inl e \<Rightarrow> if catchable e then (head # ws @ [''0'' @ CRLFCRLF], Inr ()) else (head # ws, Inl e)))"

subsection \<open>CORS headers of the asynchronous paths\<close>

fun extract_origin_loop :: "raw_headers \<Rightarrow> str" where
  "extract_origin_loop [] = []"
| "extract_origin_loop ((k, v) # hs) = (if lower (hvalue k) = S ''origin'' then hvalue v else extract_origin_loop hs)"

definition extract_origin :: "raw_headers option \<Rightarrow> str" where
  "extract_origin raw = (case raw of None \<Rightarrow> [] | Some hs \<Rightarrow> extract_origin_loop hs)"

text \<open>The options of a middleware as the application stores them; only those of \<open>CORSMiddleware\<close> matter here.\<close>

record cors_kwargs =
  ck_origins :: "str list"
  ck_credentials :: bool
  ck_expose :: "str list"
  ck_regex :: "(str \<Rightarrow> bool) option"

type_synonym user_middleware = "(str \<times> cors_kwargs) list"

definition cors_origin_ok :: "cors_kwargs \<Rightarrow> str \<Rightarrow> bool" where
  "cors_origin_ok kw origin \<longleftrightarrow>
     S ''*'' \<in> set (ck_origins kw) \<or> lower origin \<in> set (map lower (ck_origins kw))
     \<or> (case ck_regex kw of None \<Rightarrow> False | Some m \<Rightarrow> m origin)"

definition cors_headers_of :: "cors_kwargs \<Rightarrow> str \<Rightarrow> resp_headers res" where
  "cors_headers_of kw origin =
     rbind (if S ''*'' \<in> set (ck_origins kw) then Inr [(''access-control-allow-origin'', ''*'')]
            else rbind (latin1_encode origin) (\<lambda>ob. Inr [(''access-control-allow-origin'', ob), (''vary'', ''Origin'')])) (\<lambda>a.
     rbind (if ck_expose kw \<noteq> [] then rbind (latin1_encode (join (S '', '') (ck_expose kw))) (\<lambda>eb.
              Inr [(''access-control-expose-headers'', eb)]) else Inr []) (\<lambda>e.
     Inr (a @ (if ck_credentials kw then [(''access-control-allow-credentials'', ''true'')] else []) @ e)))"

definition cors_headers_for_origin :: "str \<Rightarrow> user_middleware \<Rightarrow> resp_headers res" where
  "cors_headers_for_origin origin0 mws =
     (if origin0 = [] then Inr []
      else (let origin = strip origin0 in
            case find (\<lambda>mw. fst mw = S ''CORSMiddleware'') mws of
              None \<Rightarrow> Inr []
            | Some mw \<Rightarrow> if cors_origin_ok (snd mw) origin then cors_headers_of (snd mw) origin else Inr []))"

subsection \<open>Properties: reading a request\<close>

lemma find_sub_skip: "x \<notin> set a \<Longrightarrow> find_sub (x # p) (a @ s) = map_option ((+) (length a)) (find_sub (x # p) s)"
proof (induction a)
  case Nil
  then show ?case by (cases "find_sub (x # p) s") auto
next
  case (Cons y a)
  then show ?case by (auto simp: option.map_comp comp_def intro!: option.map_cong)
qed

lemma find_sub_none: "x \<notin> set s \<Longrightarrow> find_sub (x # p) s = None"
  by (induction s) auto

lemma find_sub_here: "find_sub p (p @ s) = Some 0"
proof (cases "p @ s")
  case (Cons y ys)
  moreover have "startswith (p @ s) p" by simp
  ultimately show ?thesis by (metis find_sub.simps(2))
qed simp

lemma find_sub_at: "x \<notin> set a \<Longrightarrow> find_sub (x # p) (a @ x # p @ s) = Some (length a)"
  using find_sub_skip [of x a p "x # p @ s"] find_sub_here [of "x # p" s] by simp

lemma CR_LF [simp]: "CR \<noteq> LF" "LF \<noteq> CR" "CR \<noteq> CHR '':''" "CR \<noteq> CHR '' ''" "CHR '':'' \<noteq> CR" "CHR '' '' \<noteq> CR"
  by (simp_all add: CR_def LF_def)

definition header_ok :: "bytes \<times> bytes \<Rightarrow> bool" where
  "header_ok h \<longleftrightarrow> fst h \<noteq> [] \<and> CR \<notin> set (fst h) \<and> CHR '':'' \<notin> set (fst h) \<and> CR \<notin> set (snd h)"

definition header_text :: "(bytes \<times> bytes) list \<Rightarrow> bytes" where
  "header_text hs = concat (map header_line hs)"

lemma header_text_simps [simp]: "header_text [] = []" "header_text (h # hs) = header_line h @ header_text hs"
  "header_text (xs @ ys) = header_text xs @ header_text ys"
  by (simp_all add: header_text_def)

text \<open>The end of the headers is found where it is.\<close>

lemma headers_end: "list_all header_ok hs \<Longrightarrow> find_sub CRLFCRLF (header_text hs @ CRLFCRLF @ body) = Some (length (header_text hs))"
proof (induction hs)
  case Nil
  then show ?case using find_sub_here [of CRLFCRLF body] by simp
next
  case (Cons h hs)
  obtain n v where h: "h = (n, v)" by (cases h)
  with Cons.prems obtain c r where n: "n = c # r" "c \<noteq> CR" by (cases n) (auto simp: header_ok_def)
  have "CR \<notin> set (n @ '': '' @ v)" using Cons.prems h by (simp add: header_ok_def)
  from find_sub_skip [OF this, of "[LF, CR, LF]" "header_text hs @ CRLFCRLF @ body"] Cons
  have "find_sub CRLFCRLF ((n @ '': '' @ v) @ header_text hs @ CRLFCRLF @ body) = Some (length (n @ '': '' @ v) + length (header_text hs))"
    by simp
  then show ?case using n by (simp add: h header_line_def)
qed

lemma drop_take_middle: "drop (length a) (take (length a + length b) (a @ b @ c)) = b"
  by simp

lemma drop_here: "drop (length a) (a @ b) = b"
  by simp

lemma take_middle: "take (length a + length b) (a @ b @ c) = a @ b"
  by simp

text \<open>One header is read and the position moves behind it.\<close>

lemma header_step:
  fixes pre n v r rest :: bytes
  assumes "header_ok (n, v)" and "r = [] \<or> (\<exists>r'. r = CRLF @ r')"
  defines "pos \<equiv> length pre + 2" and "e \<equiv> length pre + length (header_line (n, v)) + length r"
    and "data \<equiv> pre @ header_line (n, v) @ r @ CRLF @ rest"
  shows "header_eol data pos e = length pre + length (header_line (n, v))"
    and "header_item data pos (length pre + length (header_line (n, v))) = [(blower (bstrip n), bstrip v)]"
proof -
  let ?nv = "n @ '': '' @ v"
  have cr: "CR \<notin> set ?nv" using assms(1) by (simp add: header_ok_def)
  have data: "data = (pre @ CRLF) @ (?nv @ r @ [CR]) @ LF # rest" and pos: "pos = length (pre @ CRLF)"
    and e: "e + 1 = length (pre @ CRLF) + length (?nv @ r @ [CR])" and el: "length pre + length (header_line (n, v)) = pos + length ?nv"
    by (simp_all add: data_def header_line_def pos_def e_def)
  have cut: "drop pos (take (e + 1) data) = ?nv @ r @ [CR]" unfolding data pos e by (rule drop_take_middle)
  have find: "find_in CRLF data pos (e + 1) = map_option ((+) pos) (map_option ((+) (length ?nv)) (find_sub CRLF (r @ [CR])))"
    unfolding find_in_def cut by (rule arg_cong [OF find_sub_skip [OF cr]])
  show "header_eol data pos e = length pre + length (header_line (n, v))"
    using assms(2)
  proof
    assume "r = []"
    then show ?thesis using find by (simp add: header_eol_def e_def)
  next
    assume "\<exists>r'. r = CRLF @ r'"
    then show ?thesis using find by (auto simp: header_eol_def el)
  qed
  have "data = (pre @ CRLF) @ ?nv @ r @ CR # LF # rest" by (simp add: data)
  then have "take (pos + length ?nv) data = (pre @ CRLF) @ ?nv" unfolding pos by (simp only: take_middle)
  then have T: "take (pos + length ?nv) data = (pre @ CRLF @ n @ '':'') @ '' '' @ v" by simp
  have drp: "drop pos ((pre @ CRLF @ n @ '':'') @ '' '' @ v) = ?nv" by (simp add: pos)
  have colon: "find_in '':'' data pos (pos + length ?nv) = Some (pos + length n)"
    using find_sub_at [of "CHR '':''" n "[]" "'' '' @ v"] assms(1) unfolding find_in_def T drp by (simp add: header_ok_def)
  have "data = (pre @ CRLF) @ n @ '': '' @ v @ r @ CRLF @ rest" by (simp add: data)
  then have "slice data pos (pos + length n) = n" unfolding pos slice_def by (simp only: drop_take_middle)
  moreover have len: "pos + length n + 1 = length (pre @ CRLF @ n @ '':'')" by (simp add: pos)
  have "slice data (pos + length n + 1) (pos + length ?nv) = '' '' @ v"
    unfolding slice_def T len by (rule drop_here)
  moreover have "bstrip ('' '' @ v) = bstrip v" by (simp add: bstrip_def is_bspace_def)
  ultimately show "header_item data pos (length pre + length (header_line (n, v))) = [(blower (bstrip n), bstrip v)]"
    using assms(1) unfolding el header_item_def colon by (simp add: header_ok_def)
qed

lemma parse_headers_text:
  "list_all header_ok hs \<Longrightarrow>
   parse_headers (pre @ header_text hs @ CRLFCRLF @ body) (length pre + 2) (length pre + length (header_text hs))
     = map (\<lambda>(n, v). (blower (bstrip n), bstrip v)) hs"
proof (induction hs arbitrary: pre)
  case Nil
  then show ?case by (simp add: parse_headers.simps)
next
  case (Cons h hs)
  obtain n v where h: "h = (n, v)" by (cases h)
  have r: "header_text hs = [] \<or> (\<exists>r'. header_text hs = CRLF @ r')" by (cases hs) (auto simp: header_line_def)
  have ok: "header_ok (n, v)" using Cons.prems h by simp
  note step = header_step [OF ok r, where pre = pre and rest = "CRLF @ body"]
  have "pre @ header_text (h # hs) @ CRLFCRLF @ body = pre @ header_line (n, v) @ header_text hs @ CRLF @ CRLF @ body" by (simp add: h)
  moreover have "length pre + 2 < length pre + length (header_text (h # hs))" using ok by (cases n) (auto simp: h header_line_def header_ok_def)
  ultimately show ?case
    using step Cons.IH [of "pre @ header_line (n, v)"] Cons.prems
    by (subst parse_headers.simps) (simp add: h Let_def add.assoc)
qed

definition print_target :: "bytes \<Rightarrow> bytes option \<Rightarrow> bytes" where
  "print_target path q = path @ (case q of None \<Rightarrow> [] | Some x \<Rightarrow> ''?'' @ x)"

definition request_line :: "bytes \<Rightarrow> bytes \<Rightarrow> bytes \<Rightarrow> bytes" where
  "request_line m t ver = m @ '' '' @ t @ '' '' @ ver"

definition print_request :: "bytes \<Rightarrow> bytes \<Rightarrow> bytes \<Rightarrow> (bytes \<times> bytes) list \<Rightarrow> bytes \<Rightarrow> bytes" where
  "print_request m t ver hs body = request_line m t ver @ header_text hs @ CRLFCRLF @ body"

lemma text_starts_line: "\<exists>r. header_text hs @ CRLFCRLF @ body = CRLF @ r"
  by (cases hs) (auto simp: header_line_def)

lemma new_request_printed:
  assumes "m \<in> set valid_http_methods" and "CR \<notin> set t" and "CR \<notin> set ver" and "length (request_line m t ver) \<le> 4094"
  shows "new_request (print_request m t ver hs body) = Some (length (request_line m t ver), length m)"
proof -
  let ?l = "request_line m t ver"
  obtain r where r: "header_text hs @ CRLFCRLF @ body = CRLF @ r" using text_starts_line by blast
  have m: "m \<noteq> []" "CHR '' '' \<notin> set m" "CR \<notin> set m" using assms(1) by (auto simp: valid_http_methods_def CR_def)
  have data: "print_request m t ver hs body = ?l @ CRLF @ r" unfolding print_request_def r ..
  obtain k where k: "min (length (?l @ CRLF @ r)) 4096 = length ?l + 2 + k" "k \<le> length r"
    using assms(4) le_Suc_ex [of "length ?l + 2" "min (length (?l @ CRLF @ r)) 4096"] by auto
  have "CR \<notin> set ?l" using m assms(2,3) by (simp add: request_line_def)
  from find_sub_at [OF this, of "[LF]" "take k r"]
  have nl: "find_in CRLF (?l @ CRLF @ r) 0 (min (length (?l @ CRLF @ r)) 4096) = Some (length ?l)"
    unfolding find_in_def k(1) by (simp add: option.map_ident)
  have sp: "find_in '' '' (?l @ CRLF @ r) 0 (length ?l) = Some (length m)"
    using find_sub_at [OF m(2), of "[]" "t @ '' '' @ ver"] by (simp add: find_in_def request_line_def option.map_ident)
  have "take (length m) (?l @ CRLF @ r) = m" "length ?l \<noteq> 0" by (simp_all add: request_line_def)
  then show ?thesis using m(1) assms(1) unfolding data new_request_def nl option.case sp by auto
qed

lemma set_target_printed:
  assumes "CHR ''?'' \<notin> set p"
  shows "set_target (print_target p q) c = c\<lparr>cq_path := latin1_decode p, cq_query := get_or q []\<rparr>"
proof (cases q)
  case None
  then show ?thesis using find_sub_none [OF assms, of "[]"] by (simp add: set_target_def print_target_def)
next
  case (Some x)
  then show ?thesis using find_sub_at [OF assms, of "[]" x] by (simp add: set_target_def print_target_def)
qed

lemma parse_printed:
  assumes "m \<in> set valid_http_methods" and "CR \<notin> set t" and "CHR '' '' \<notin> set t" and "CR \<notin> set ver"
    and "length (request_line m t ver) \<le> 4094" and "list_all header_ok hs"
  shows "parse_context (print_request m t ver hs body) c =
    (set_target t (c\<lparr>cq_method := latin1_decode m\<rparr>))
      \<lparr>cq_raw := Some (map (\<lambda>(n, v). (blower (bstrip n), bstrip v)) hs), cq_body := body\<rparr>"
proof -
  let ?l = "request_line m t ver" and ?d = "print_request m t ver hs body"
  have ne: "?d \<noteq> []" by (simp add: print_request_def request_line_def)
  have line: "take (length ?l) ?d = (m @ '' '') @ t @ '' '' @ ver" by (simp add: print_request_def request_line_def)
  have drp: "drop (length m + 1) ((m @ '' '') @ t @ '' '' @ ver) = t @ '' '' @ ver" by simp
  have sp1: "find_in '' '' ?d (length m + 1) (length ?l) = Some (length m + 1 + length t)"
    using find_sub_at [OF assms(3), of "[]" ver] unfolding find_in_def line drp by simp
  have "?d = (m @ '' '') @ t @ '' '' @ ver @ header_text hs @ CRLFCRLF @ body" by (simp add: print_request_def request_line_def)
  moreover have "length m + 1 = length (m @ '' '')" by simp
  ultimately have tgt: "slice ?d (length m + 1) (length m + 1 + length t) = t" unfolding slice_def by (simp only: drop_take_middle)
  have m: "take (length m) ?d = m" by (simp add: print_request_def request_line_def)
  have he: "find_in CRLFCRLF ?d (length ?l) (length ?d) = Some (length ?l + length (header_text hs))"
    using headers_end [OF assms(6), of body] by (simp add: find_in_def print_request_def)
  have hd: "parse_headers ?d (length ?l + 2) (length ?l + length (header_text hs)) = map (\<lambda>(n, v). (blower (bstrip n), bstrip v)) hs"
    unfolding print_request_def by (rule parse_headers_text [OF assms(6)])
  have "?d = (?l @ header_text hs @ CRLFCRLF) @ body" by (simp add: print_request_def)
  moreover have "length ?l + length (header_text hs) + 4 = length (?l @ header_text hs @ CRLFCRLF)" by simp
  ultimately have bd: "drop (length ?l + length (header_text hs) + 4) ?d = body" by (simp only: drop_here)
  show ?thesis
    unfolding parse_context_def new_request_printed [OF assms(1,2,4,5)]
    by (simp only: ne if_False option.case prod.case sp1 tgt he hd bd m Let_def)
qed

text \<open>
  C38: The context of a request is the request: when the head of a request arrives in one piece, its method, path, query and
  headers are those sent, and its body is that of the first piece followed by all further pieces, as
  long as none of them looks like a request line.
\<close>

theorem request_context_exact:
  assumes "m \<in> set valid_http_methods" and "CR \<notin> set (print_target p q)" and "CHR '' '' \<notin> set (print_target p q)" and "CHR ''?'' \<notin> set p"
    and "CR \<notin> set ver" and "length (request_line m (print_target p q) ver) \<le> 4094" and "list_all header_ok hs"
    and "list_all (\<lambda>d. new_request d = None) pieces"
  shows "fold parse_context (print_request m (print_target p q) ver hs body # pieces) c =
    \<lparr>cq_method = latin1_decode m, cq_path = latin1_decode p, cq_query = get_or q [],
     cq_raw = Some (map (\<lambda>(n, v). (blower (bstrip n), bstrip v)) hs), cq_body = body @ concat pieces\<rparr>"
proof -
  have rest: "list_all (\<lambda>d. new_request d = None) ds \<Longrightarrow> fold parse_context ds c' = c'\<lparr>cq_body := cq_body c' @ concat ds\<rparr>" for ds c'
    by (induction ds arbitrary: c') (auto simp: parse_context_def)
  show ?thesis
    using rest [OF assms(8)] parse_printed [OF assms(1,2,3,5-7), of body c] by (simp add: set_target_printed [OF assms(4)])
qed

definition example_get :: bytes where
  "example_get = print_request ''POST'' (print_target ''/a'' (Some ''x=1'')) ''HTTP/1.1'' [(''host'', ''h'')] ''b''"

theorem request_context_exact_witness:
  "fold parse_context [example_get, ''cd''] no_request =
    \<lparr>cq_method = S ''POST'', cq_path = S ''/a'', cq_query = ''x=1'', cq_raw = Some [(''host'', ''h'')], cq_body = ''bcd''\<rparr>"
proof -
  have "new_request ''cd'' = None" by (simp add: new_request_def find_in_def CR_def)
  moreover have "list_all header_ok [(''host'', ''h'')]" by (simp add: header_ok_def CR_def)
  moreover have "blower (bstrip ''host'') = ''host''" "bstrip ''h'' = ''h''"
    by (simp_all add: bstrip_def is_bspace_def blower_def)
  ultimately show ?thesis
    using request_context_exact [of "''POST''" "''/a''" "Some ''x=1''" "''HTTP/1.1''" "[(''host'', ''h'')]" "[''cd'']" "''b''" no_request]
    by (simp add: example_get_def valid_http_methods_def print_target_def request_line_def CR_def latin1_decode_S)
qed

text \<open>A head that arrives in two pieces is not read: there are no headers, and the body begins with the rest of the head.\<close>

lemma head_in_two_pieces:
  assumes "new_request a = Some (nl, sp0)" and "find_in CRLFCRLF a nl (length a) = None" and "new_request b = None"
  shows "cq_raw (fold parse_context [a, b] c) = Some [] \<and> cq_body (fold parse_context [a, b] c) = b"
proof -
  have "a \<noteq> []" using assms(1) by (auto simp: new_request_def find_in_def)
  then show ?thesis using assms by (simp add: parse_context_def Let_def)
qed

subsection \<open>Properties: responses\<close>

text \<open>A reader of responses: the status line, the headers as they stand, and the body.\<close>

definition read_response :: "bytes \<Rightarrow> (bytes \<times> (bytes \<times> bytes) list \<times> bytes) option" where
  "read_response r =
     (case (find_sub CRLF r, find_sub CRLFCRLF r) of
        (Some nl, Some e) \<Rightarrow> Some (take nl r, parse_headers r (nl + 2) e, drop (e + 4) r)
      | _ \<Rightarrow> None)"

definition normal_headers :: "(bytes \<times> bytes) list \<Rightarrow> (bytes \<times> bytes) list" where
  "normal_headers hs = map (\<lambda>(n, v). (blower (bstrip n), bstrip v)) hs"

lemma read_printed:
  assumes "CR \<notin> set l" and "list_all header_ok hs"
  shows "read_response (l @ header_text hs @ CRLFCRLF @ body) = Some (l, normal_headers hs, body)"
    and "find_sub CRLFCRLF (l @ header_text hs @ CRLFCRLF @ body) = Some (length (l @ header_text hs))"
proof -
  let ?r = "l @ header_text hs @ CRLFCRLF @ body"
  obtain t where t: "header_text hs @ CRLFCRLF @ body = CRLF @ t" using text_starts_line by blast
  have nl: "find_sub CRLF ?r = Some (length l)" using find_sub_at [OF assms(1), of "[LF]" t] unfolding t by simp
  show e: "find_sub CRLFCRLF ?r = Some (length (l @ header_text hs))"
    using find_sub_skip [OF assms(1), of "[LF, CR, LF]"] headers_end [OF assms(2), of body] by simp
  have "?r = (l @ header_text hs @ CRLFCRLF) @ body" "length (l @ header_text hs) + 4 = length (l @ header_text hs @ CRLFCRLF)" by simp_all
  then have "drop (length (l @ header_text hs) + 4) ?r = body" by (simp only: drop_here)
  then show "read_response ?r = Some (l, normal_headers hs, body)"
    using parse_headers_text [OF assms(2), of l body] unfolding read_response_def nl e normal_headers_def by simp
qed

text \<open>What the builder of the core writes, as text of this form.\<close>

definition built_headers :: "int \<Rightarrow> (bytes \<times> bytes) list \<Rightarrow> bytes \<Rightarrow> bool \<Rightarrow> (bytes \<times> bytes) list" where
  "built_headers code ps body keep_alive =
     ps @ (if \<not> has_content_length ps \<and> code \<noteq> 204 \<and> code \<noteq> 304 then [(''content-length'', map char_of (dec (length body)))] else [])
     @ [(''connection'', if keep_alive then ''keep-alive'' else ''close'')]"

lemma lines_as_text: "CRLF @ concat (map (\<lambda>(k, v). k @ '': '' @ v @ CRLF) ps) = header_text ps @ CRLF"
proof (induction ps)
  case (Cons p ps)
  obtain k v where "p = (k, v)" by (cases p)
  with Cons show ?case by (simp add: header_line_def)
qed simp

definition status_text :: "int \<Rightarrow> bytes" where
  "status_text code = take (length (status_line code) - 2) (status_line code)"

lemma status_line_text: "status_line code = status_text code @ CRLF"
  by (simp add: status_text_def status_line_def)

lemma built_text:
  assumes "header_block hs = Inr ps"
  shows "build_response_from_parts code hs body keep_alive = Inr (status_text code @ header_text (built_headers code ps body keep_alive) @ CRLFCRLF @ body)"
proof -
  let ?cl = "if \<not> has_content_length ps \<and> code \<noteq> 204 \<and> code \<noteq> 304 then ''content-length: '' @ map char_of (dec (length body)) @ CRLF else []"
  have "status_line code @ concat (map (\<lambda>(k, v). k @ '': '' @ v @ CRLF) ps) @ ?cl @ connection_line keep_alive @ CRLF @ body
     = status_text code @ (CRLF @ concat (map (\<lambda>(k, v). k @ '': '' @ v @ CRLF) ps)) @ ?cl @ connection_line keep_alive @ CRLF @ body"
    by (simp add: status_line_text)
  also have "\<dots> = status_text code @ header_text (built_headers code ps body keep_alive) @ CRLFCRLF @ body"
    unfolding lines_as_text by (simp add: built_headers_def connection_line_def header_line_def)
  finally show ?thesis using assms by (simp add: build_response_from_parts_def)
qed

definition not_content_length :: "bytes \<times> bytes \<Rightarrow> bool" where
  "not_content_length h \<longleftrightarrow> blower (fst h) \<noteq> ''content-length''"

lemma inject_parts_bytes: "inject_parts (map (\<lambda>(k, v). (HB k, HB v)) ex) = Inr (map header_line (filter not_content_length ex))"
  by (induction ex) (auto simp: header_bytes_def not_content_length_def)

lemma digit_not_CR: "is_digit c \<or> c = 45 \<Longrightarrow> char_of c \<noteq> CR"
proof
  assume "char_of c = CR"
  then have "(of_char (char_of c :: char) :: nat) = 13" by (simp add: CR_def)
  moreover assume "is_digit c \<or> c = 45"
  ultimately show False by (auto simp: is_digit_def)
qed

lemma status_text_ok: "CR \<notin> set (status_text code)"
proof -
  have "is_digit c \<or> c = 45" if "c \<in> set (int_str code)" for c
    using that by (auto simp: int_str_def dest: dec_digits split: if_splits)
  then have dig: "char_of c \<noteq> CR" if "c \<in> set (int_str code)" for c
    using that digit_not_CR by auto
  have "status_text code = ''HTTP/1.1 '' @ map char_of (int_str code) @ '' '' @
     (if code = 413 then ''Payload Too Large'' else if code = 502 then ''Bad Gateway'' else if code = 503 then ''Service Unavailable''
      else status_reason code)"
    by (simp add: status_text_def status_line_def)
  moreover have "CR \<notin> set (status_reason code)" by (simp add: status_reason_def CR_def)
  moreover have "CR \<notin> set (map char_of (int_str code))" using dig by force
  ultimately show ?thesis by (simp add: CR_def)
qed

lemma built_headers_ok: "list_all header_ok ps \<Longrightarrow> list_all header_ok (built_headers code ps body keep_alive)"
proof -
  have "CR \<notin> set (map char_of (dec n))" for n
    using dec_digits digit_not_CR by force
  moreover assume "list_all header_ok ps"
  ultimately show ?thesis by (simp add: built_headers_def header_ok_def CR_def)
qed

text \<open>
  Injecting headers into a response the core has built keeps the response: the status line, the headers
  (the content length among them) and the body stay, and the new headers follow them, but never a second content length.
\<close>

theorem injected_response_read:
  assumes "build_response_from_parts code hs body keep_alive = Inr r" and "header_block hs = Inr ps"
    and "list_all header_ok ps" and "list_all header_ok ex"
  shows "\<exists>r'. inject_headers r (map (\<lambda>(k, v). (HB k, HB v)) ex) = Inr r'
    \<and> read_response r' = Some (status_text code, normal_headers (built_headers code ps body keep_alive @ filter not_content_length ex), body)"
proof -
  let ?hs = "built_headers code ps body keep_alive" and ?new = "filter not_content_length ex"
  let ?r' = "status_text code @ header_text (?hs @ ?new) @ CRLFCRLF @ body"
  have ok: "list_all header_ok ?hs" by (rule built_headers_ok [OF assms(3)])
  have ok': "list_all header_ok (?hs @ ?new)" using ok assms(4) by (auto simp: list_all_iff)
  have r: "r = (status_text code @ header_text ?hs) @ CRLFCRLF @ body" using assms(1) built_text [OF assms(2)] by simp
  have find: "find_sub CRLFCRLF r = Some (length (status_text code @ header_text ?hs))"
    using read_printed(2) [OF status_text_ok ok] r by simp
  have "inject_headers r (map (\<lambda>(k, v). (HB k, HB v)) ex)
    = Inr (take (length (status_text code @ header_text ?hs)) r @ concat (map header_line ?new) @ drop (length (status_text code @ header_text ?hs)) r)"
    by (simp only: inject_headers_def find option.case inject_parts_bytes rbind.simps)
  also have "\<dots> = Inr ?r'" unfolding r by (simp add: header_text_def [symmetric])
  finally show ?thesis using read_printed(1) [OF status_text_ok ok'] by blast
qed

theorem injected_response_read_witness:
  "\<exists>r'. inject_headers (status_text 200 @ header_text [(''content-length'', ''2''), (''connection'', ''close'')] @ CRLFCRLF @ ''hi'')
          [(HB ''vary'', HB ''Origin''), (HB ''content-length'', HB ''9'')] = Inr r'
     \<and> read_response r' = Some (status_text 200, normal_headers [(''content-length'', ''2''), (''connection'', ''close''), (''vary'', ''Origin'')], ''hi'')"
proof -
  let ?ex = "[(''vary'', ''Origin''), (''content-length'', ''9'')]"
  have "dec 2 = S ''2''" by (simp add: dec.simps S_def)
  then have two: "map char_of (dec 2) = ''2''" by (simp only: map_char_of_S)
  have built: "built_headers 200 [] ''hi'' False = [(''content-length'', ''2''), (''connection'', ''close'')]"
    using two by (simp add: built_headers_def has_content_length_def numeral_2_eq_2)
  have "filter not_content_length ?ex = [(''vary'', ''Origin'')]" by (simp add: not_content_length_def blower_def)
  moreover have "list_all header_ok ?ex" by (simp add: header_ok_def CR_def)
  moreover have "header_block [] = Inr []" by simp
  moreover have "build_response_from_parts 200 [] ''hi'' False = Inr (status_text 200 @ header_text [(''content-length'', ''2''), (''connection'', ''close'')] @ CRLFCRLF @ ''hi'')"
    using built_text [of "[]" "[]"] built by simp
  ultimately show ?thesis
    using injected_response_read [of 200 "[]" "''hi''" False _ "[]" ?ex] built by simp
qed

subsection \<open>Properties: streaming\<close>

text \<open>A reader of chunked bodies (RFC 9112): the data of the chunks, and what follows the body.\<close>

function dechunk :: "bytes \<Rightarrow> (bytes \<times> bytes) option" where
  "dechunk s =
     (case find_sub CRLF s of
        None \<Rightarrow> None
      | Some i \<Rightarrow>
          (let n = unhex (latin1_decode (take i s)); r = drop (i + 2) s in
           if i = 0 \<or> \<not> list_all is_hex (latin1_decode (take i s)) then None
           else if n = 0 then (if startswith r CRLF then Some ([], drop 2 r) else None)
           else if startswith (drop n r) CRLF
                then map_option (\<lambda>(d, t). (take n r @ d, t)) (dechunk (drop (n + 2) r)) else None))"
  by pat_completeness auto
termination
proof (relation "measure length")
  fix s i n r
  assume "find_sub CRLF s = Some i"
  from find_sub_bound [OF this] have "i + 2 \<le> length s" by simp
  moreover assume "r = drop (i + 2) s"
  ultimately show "(drop (n + 2) r, s) \<in> measure length" by simp
qed simp

declare dechunk.simps [simp del]

lemma hex_props: "list_all is_hex (hex n) \<and> hex n \<noteq> [] \<and> unhex (hex n) = n"
proof (induction n rule: hex.induct)
  case (1 n)
  have digit: "is_hex (if x < 10 then 48 + x else 87 + x)" "hex_value (if x < 10 then 48 + x else 87 + x) = x" if "x < 16" for x :: nat
    using that by (auto simp: is_hex_def hex_value_def is_digit_def)
  show ?case
  proof (cases "n < 16")
    case True
    then show ?thesis using digit [OF True] by (subst (1 2 3) hex.simps) (simp add: unhex_def)
  next
    case False
    then have "n mod 16 < 16" by simp
    from digit [OF this] 1 False show ?thesis by (subst (1 2 3) hex.simps) (simp add: unhex_snoc)
  qed
qed

lemma hex_bytes:
  "latin1_decode (map char_of (hex n)) = hex n" "CR \<notin> set (map char_of (hex n))"
proof -
  have small: "c < 256 \<and> c \<noteq> 13" if "c \<in> set (hex n)" for c
    using that hex_props [of n] by (auto simp: list_all_iff is_hex_def is_digit_def)
  then show "latin1_decode (map char_of (hex n)) = hex n" by (auto simp: latin1_decode_def intro!: map_idI)
  show "CR \<notin> set (map char_of (hex n))"
  proof
    assume "CR \<in> set (map char_of (hex n))"
    then obtain c where c: "c \<in> set (hex n)" "char_of c = CR" by auto
    then have "(of_char (char_of c :: char) :: nat) = 13" by (simp add: CR_def)
    with small [OF c(1)] show False by simp
  qed
qed

lemma dechunk_frame:
  assumes "c \<noteq> []"
  shows "dechunk (build_chunked_frame c @ s) = map_option (\<lambda>(d, t). (c @ d, t)) (dechunk s)"
proof -
  let ?h = "map char_of (hex (length c)) :: bytes"
  have data: "build_chunked_frame c @ s = ?h @ CRLF @ c @ CRLF @ s" using assms by (simp add: build_chunked_frame_def)
  have find: "find_sub CRLF (?h @ CRLF @ c @ CRLF @ s) = Some (length ?h)"
    using find_sub_at [OF hex_bytes(2), of "[LF]"] by simp
  have "take (length ?h) (?h @ CRLF @ c @ CRLF @ s) = ?h" "drop (length ?h + 2) (?h @ CRLF @ c @ CRLF @ s) = c @ CRLF @ s"
    "length ?h \<noteq> 0" using hex_props [of "length c"] by simp_all
  then show ?thesis
    using hex_props [of "length c"] assms unfolding data
    by (subst dechunk.simps) (simp only: find option.case Let_def, simp add: hex_bytes(1))
qed

lemma dechunk_end: "dechunk ((''0'' @ CRLFCRLF) @ s) = Some ([], s)"
proof -
  have "find_sub CRLF (''0'' @ CRLF @ CRLF @ s) = Some 1"
    using find_sub_at [of CR "''0''" "[LF]" "CRLF @ s"] by (simp add: CR_def)
  then show ?thesis by (subst dechunk.simps) (simp add: latin1_decode_def unhex_def hex_value_def is_hex_def is_digit_def)
qed

text \<open>The bytes of the chunks up to the first that cannot be encoded.\<close>

fun streamed :: "chunk list \<Rightarrow> bytes" where
  "streamed [] = []"
| "streamed (c # cs) = (case chunk_bytes c of Inl e \<Rightarrow> [] | Inr b \<Rightarrow> b @ streamed cs)"

lemma dechunk_chunks:
  "dechunk (concat (fst (stream_chunks cs stop)) @ (''0'' @ CRLFCRLF) @ s) = Some (streamed cs, s)"
proof (induction cs)
  case Nil
  then show ?case using dechunk_end by simp
next
  case (Cons c cs)
  show ?case
  proof (cases "chunk_bytes c")
    case (Inl e)
    then show ?thesis using dechunk_end by simp
  next
    case (Inr b)
    then show ?thesis using Cons by (cases "b = []") (simp_all add: case_prod_unfold Let_def dechunk_frame)
  qed
qed

lemma streaming_complete:
  assumes "stream_header_lines hs = Inr a" and "stream_header_lines cors = Inr b" and "stop \<noteq> Some Interrupt"
  shows "\<exists>ws. write_chunked_streaming status hs cors cs stop = ((stream_prefix status @ (a @ b) @ CRLF) # ws, Inr ())
    \<and> dechunk (concat ws @ s) = Some (streamed cs, s)"
proof -
  have "catchable e" if "snd (stream_chunks cs stop) = Inl e" for e
    using that assms(3)
    by (induction cs) (auto simp: catchable_def chunk_bytes_def utf8_encode_def case_prod_unfold Let_def split: option.splits sum.splits chunk.splits if_splits)
  then show ?thesis
    using assms dechunk_chunks [of cs stop s]
    by (auto simp: write_chunked_streaming_def Let_def case_prod_unfold split: sum.splits)
qed

text \<open>
  C39: A streamed response is well-formed: unless the task is cancelled, one head announcing a chunked
  body is written, followed by a complete chunked body whose data is that of the iterator.
  (It is complete even if the iterator failed, so the receiver cannot tell.)
\<close>

theorem streaming_wire:
  assumes "stream_header_lines hs = Inr a" and "stream_header_lines cors = Inr b" and "stop \<noteq> Some Interrupt"
  shows "\<exists>ws. write_chunked_streaming status hs cors cs stop = ((stream_prefix status @ (a @ b) @ CRLF) # ws, Inr ())
    \<and> dechunk (concat ws @ s) = Some (streamed cs, s)"
  by (rule streaming_complete [OF assms])

theorem streaming_wire_witness:
  "\<exists>ws. write_chunked_streaming 200 [(HB ''x'', HB ''y'')] [] [ChBytes ''abc'', ChBytes [], ChBytes ''d''] (Some OSError)
      = ((stream_prefix 200 @ (''x: y'' @ CRLF @ []) @ CRLF) # ws, Inr ()) \<and> dechunk (concat ws @ []) = Some (''abcd'', [])"
  using streaming_wire [of "[(HB ''x'', HB ''y'')]" "''x: y'' @ CRLF" "[]" "[]" "Some OSError" 200
    "[ChBytes ''abc'', ChBytes [], ChBytes ''d'']" "[]"]
  by (simp add: header_bytes_def chunk_bytes_def)

subsection \<open>Properties: CORS on the asynchronous paths\<close>

text \<open>
  The headers of the asynchronous paths are those of \<open>CORSMiddleware\<close> with the same options, for the
  same origins, unless every origin is allowed together with credentials.
\<close>

theorem cors_paths_agree:
  assumes "cors_init (ck_origins kw) (ck_regex kw) methods hdrs (ck_credentials kw) (ck_expose kw) age = Inr c"
    and "\<not> (star \<in> set (ck_origins kw) \<and> ck_credentials kw)" and "origin \<noteq> []" and "strip origin = origin"
  shows "cors_headers_for_origin origin [(S ''CORSMiddleware'', kw)] = (if is_origin_allowed c origin then cors_extra c origin else Inr [])"
proof -
  have c: "co_all_origins c = (star \<in> set (ck_origins kw))" "co_origins c = map lower (ck_origins kw)" "co_regex c = ck_regex kw"
    "co_credentials c = ck_credentials kw" "co_expose c = ck_expose kw"
    using assms(1) by (auto simp: cors_init_def Let_def)
  have "cors_origin_ok kw origin = is_origin_allowed c origin"
    by (simp add: cors_origin_ok_def is_origin_allowed_def c star_def)
  moreover have "cors_headers_of kw origin = cors_extra c origin"
    using assms(2) by (auto simp: cors_headers_of_def cors_extra_def c star_def comma_join_def)
  ultimately show ?thesis using assms(3,4) by (simp add: cors_headers_for_origin_def)
qed

definition example_cors :: cors_kwargs where
  "example_cors = \<lparr>ck_origins = [S ''http://a''], ck_credentials = True, ck_expose = [], ck_regex = None\<rparr>"

theorem cors_paths_agree_witness:
  "\<exists>c. cors_init [S ''http://a''] None [] [] True [] 600 = Inr c
     \<and> cors_headers_for_origin (S ''http://a'') [(S ''CORSMiddleware'', example_cors)] = (if is_origin_allowed c (S ''http://a'') then cors_extra c (S ''http://a'') else Inr [])"
proof -
  obtain c where c: "cors_init [S ''http://a''] None [] [] True [] 600 = Inr c"
    by (simp add: cors_init_def comma_join_def Let_def int_str_def latin1_encode_def)
  have "strip (S ''http://a'') = S ''http://a''" by (rule strip_no_space) (simp add: S_def is_space_def)
  then show ?thesis
    using c cors_paths_agree [of example_cors "[]" "[]" 600 c "S ''http://a''"] by (simp add: example_cors_def star_def)
qed

text \<open>With every origin and credentials, the two header values that browsers refuse together are both sent.\<close>

lemma cors_star_with_credentials:
  assumes "star \<in> set (ck_origins kw)" and "ck_credentials kw" and "ck_expose kw = []" and "origin \<noteq> []"
  shows "cors_headers_for_origin origin [(S ''CORSMiddleware'', kw)]
    = Inr [(''access-control-allow-origin'', ''*''), (''access-control-allow-credentials'', ''true'')]"
  using assms by (simp add: cors_headers_for_origin_def cors_origin_ok_def cors_headers_of_def star_def Let_def)

end
