(* ===== verification/HttpServer.thy ===== *)
theory HttpServer
  imports HttpWire Handlers
begin

text \<open>
  The Python side of HTTP requests in \<open>_cpp_server.py\<close>: driving the coroutine of an endpoint, the handlers
  that finish a request the C++ core could not finish itself (\<open>_handle_async\<close>, \<open>_handle_stream\<close>,
  \<open>_handle_async_di\<close>, \<open>_handle_middleware_result\<close>, \<open>_handle_pydantic\<close>), the HTTP middleware chain and the
  dispatch of exceptions. A run is a list of events (bytes written, tasks and exit callbacks run, the end of
  the request recorded) with its result. The serialisers of the core are parameters.
\<close>

subsection \<open>Driving a coroutine\<close>

text \<open>
  A coroutine returns, raises, or yields something to await: \<open>None\<close> (from \<open>sleep(0)\<close>) or a future, here a
  number; it is resumed with the result or the exception of the await. It may never end.
\<close>

codatatype 'v coro = CReturn 'v | CRaise exn | CYield "nat option" "exn + nat option \<Rightarrow> 'v coro"

definition awaited :: "(nat \<Rightarrow> nat res) \<Rightarrow> nat option \<Rightarrow> exn + nat option" where
  "awaited aw y = (case y of None \<Rightarrow> Inr None | Some f \<Rightarrow> (case aw f of Inl e \<Rightarrow> Inl e | Inr r \<Rightarrow> Inr (Some r)))"

partial_function (option) drive_loop :: "(nat \<Rightarrow> nat res) \<Rightarrow> 'v coro \<Rightarrow> 'v res option" where
  "drive_loop aw c =
     (case c of
        CReturn v \<Rightarrow> Some (Inr v)
      | CRaise e \<Rightarrow> Some (Inl e)
      | CYield y k \<Rightarrow> drive_loop aw (k (awaited aw y)))"

text \<open>\<open>_drive_coro\<close>: the core has already run the coroutine up to its first yield.\<close>

definition drive_coro :: "(nat \<Rightarrow> nat res) \<Rightarrow> nat option \<Rightarrow> (exn + nat option \<Rightarrow> 'v coro) \<Rightarrow> 'v res option" where
  "drive_coro aw first k =
     (case awaited aw first of
        Inl e \<Rightarrow> Some (Inl e)
      | Inr r \<Rightarrow> drive_loop aw (k (Inr r)))"

subsection \<open>Results, events and the server's environment\<close>

datatype raw_value = RPlain pyv | RResponse response | RStream response "chunk list" "exn option" | RFile response str

type_synonym tasks = "(nat \<times> exn option) list"

text \<open>What an endpoint or a shim returned, with the attributes the handlers look for.\<close>

record result_obj =
  rv_value :: raw_value
  rv_background :: "tasks option"
  rv_shim_bg :: "tasks option"
  rv_stack :: "exit_cb list option"
  rv_mw_ran :: bool

text \<open>Events: one response written, the writes of a streamed response, what ran, the end recorded.\<close>

datatype server_event = Wrote bytes | Chunked "bytes list" | Ran shim_event | Ended

type_synonym 'a run = "server_event list \<times> 'a res"

definition transmit :: "bytes \<Rightarrow> unit run" where
  "transmit b = logged [Wrote b] ()"

definition lift_ev :: "'a logged \<Rightarrow> 'a run" where
  "lift_ev m = (map Ran (fst m), snd m)"

definition optional_tasks :: "tasks option \<Rightarrow> unit run" where
  "optional_tasks t = (case t of None \<Rightarrow> quiet (Inr ()) | Some ts \<Rightarrow> lift_ev (run_tasks ts))"

text \<open>
  The points at which a handler looks whether the connection is still open, the request as the HTTP
  middleware sees it, and the functions of the core.
\<close>

datatype check = AtResult | AtDispatch | AtHandled | AtMiddleware | AtErrors

record request_view =
  qv_method :: str
  qv_path :: str
  qv_query :: bytes
  qv_headers :: resp_headers

record core_fns =
  kf_any :: "raw_value \<Rightarrow> int \<Rightarrow> bool \<Rightarrow> bytes option res"
  kf_build :: "pyv \<Rightarrow> int \<Rightarrow> bool \<Rightarrow> bytes option res"
  kf_write :: "pyv \<Rightarrow> int \<Rightarrow> bool \<Rightarrow> bytes res"
  kf_encode :: "pyv \<Rightarrow> bytes res"
  kf_detail :: "exn \<Rightarrow> pyv"
  kf_dumps :: "pyv \<Rightarrow> bytes res"
  kf_errors :: "err list \<Rightarrow> pyv"
  kf_error_body :: "err list \<Rightarrow> bytes res"

record server_env =
  sv_up :: "check \<Rightarrow> bool"
  sv_classes :: classes
  sv_handlers :: "(pyclass, exn \<Rightarrow> result_obj option res) dict"
  sv_live :: "(pyclass, exn \<Rightarrow> result_obj option res) dict"
  sv_status_handlers :: "(int, exn \<Rightarrow> result_obj option res) dict"
  sv_dispatchers :: "(request_view \<Rightarrow> result_obj \<Rightarrow> result_obj option res) list"
  sv_user_mw :: "user_middleware option"
  sv_context :: req_ctx
  sv_route_ctx :: "endpoint_ctx option"
  sv_exc_headers :: "exn \<Rightarrow> (str \<times> str) list option"
  sv_exc_errors :: "exn \<Rightarrow> err list"
  sv_raise :: bool
  sv_serializers :: serializers
  sv_open :: "str \<Rightarrow> bytes option"
  sv_core :: core_fns

definition async_cors :: "server_env \<Rightarrow> str \<Rightarrow> resp_headers res" where
  "async_cors sv origin = (case sv_user_mw sv of None \<Rightarrow> Inr [] | Some mws \<Rightarrow> cors_headers_for_origin origin mws)"

definition context_origin :: "server_env \<Rightarrow> str" where
  "context_origin sv = extract_origin (map_option headers_view (cq_raw (sv_context sv)))"

definition with_cors :: "resp_headers \<Rightarrow> bytes \<Rightarrow> bytes res" where
  "with_cors cors b = (if cors = [] then Inr b else inject_headers b (headers_view cors))"

definition text_headers :: "resp_headers \<Rightarrow> raw_headers" where
  "text_headers hs = map (\<lambda>(k, v). (HS (latin1_decode k), HS (latin1_decode v))) hs"

definition no_effect :: "unit run" where
  "no_effect = quiet (Inr ())"

definition write_if :: "resp_headers \<Rightarrow> bytes option \<Rightarrow> unit run" where
  "write_if cors b =
     (case b of None \<Rightarrow> no_effect | Some x \<Rightarrow> if x = [] then no_effect else lbind (quiet (with_cors cors x)) transmit)"

subsection \<open>Exceptions\<close>

definition exception_handler :: "server_env \<Rightarrow> exn \<Rightarrow> (exn \<Rightarrow> result_obj option res) option" where
  "exception_handler sv e =
     (case lookup_mro (mro (sv_classes sv) e) (dict_update (sv_handlers sv) (sv_live sv)) of
        Some h \<Rightarrow> Some h
      | None \<Rightarrow> if is_instance (sv_classes sv) e ''HTTPException''
                then map_of (sv_status_handlers sv) (exc_status (sv_classes sv) e) else None)"

definition swallow :: "unit run \<Rightarrow> unit run" where
  "swallow m = (case snd m of Inl e \<Rightarrow> if catchable e then (fst m, Inr ()) else m | Inr _ \<Rightarrow> m)"

text \<open>\<open>try: ...; return\<close> with \<open>except Exception: pass\<close>: whether the block has returned.\<close>

definition attempt :: "unit run \<Rightarrow> bool run" where
  "attempt m = (case snd m of Inl e \<Rightarrow> if catchable e then (fst m, Inr False) else (fst m, Inl e) | Inr _ \<Rightarrow> (fst m, Inr True))"

definition status_of :: "int \<Rightarrow> raw_value \<Rightarrow> int" where
  "status_of dflt v = (case v of RPlain x \<Rightarrow> dflt | RResponse r \<Rightarrow> r_status r | RStream r cs stop \<Rightarrow> r_status r | RFile r p \<Rightarrow> r_status r)"

definition handled :: "server_env \<Rightarrow> resp_headers \<Rightarrow> bool \<Rightarrow> result_obj option res \<Rightarrow> unit run" where
  "handled sv cors ka out =
     lbind (quiet out) (\<lambda>v. case v of
        None \<Rightarrow> no_effect
      | Some r \<Rightarrow>
          if sv_up sv AtHandled
          then lbind (quiet (kf_any (sv_core sv) (rv_value r) (status_of 500 (rv_value r)) ka)) (\<lambda>b.
                 case b of None \<Rightarrow> no_effect | Some x \<Rightarrow> lbind (quiet (with_cors cors x)) transmit)
          else no_effect)"

definition store_if :: "bool \<Rightarrow> exn \<Rightarrow> unit run" where
  "store_if b e = logged (if b then [Ran (Stored e)] else []) ()"

definition http_500 :: bytes where
  "http_500 = ''HTTP/1.1 500 Internal Server Error'' @ CRLF @ ''content-type: text/plain; charset=utf-8'' @ CRLF
     @ ''content-length: 21'' @ CRLF @ ''connection: keep-alive'' @ CRLFCRLF @ ''Internal Server Error''"

definition json_type :: raw_headers where
  "json_type = [(HB ''content-type'', HB ''application/json'')]"

definition encode_exc_headers :: "(str \<times> str) list \<Rightarrow> raw_headers res" where
  "encode_exc_headers hs = rmap (\<lambda>(k, v). rbind (latin1_encode k) (\<lambda>kb. rbind (latin1_encode v) (\<lambda>vb. Inr (HB kb, HB vb)))) hs"

definition http_exception_response :: "server_env \<Rightarrow> resp_headers \<Rightarrow> exn \<Rightarrow> bool \<Rightarrow> unit run" where
  "http_exception_response sv cors e ka =
     (let status = exc_status (sv_classes sv) e; detail = kf_detail (sv_core sv) e in
      case sv_exc_headers sv e of
        Some (h # hs) \<Rightarrow>
          lbind (quiet (kf_dumps (sv_core sv) detail)) (\<lambda>body.
          lbind (quiet (encode_exc_headers (h # hs))) (\<lambda>hb.
          lbind (quiet (build_response_from_parts status (json_type @ hb @ headers_view cors) body ka)) transmit))
      | _ \<Rightarrow> lbind (quiet (kf_build (sv_core sv) detail status ka)) (write_if cors))"

text \<open>The context of the endpoint is added to a validation error that has none.\<close>

fun add_context :: "endpoint_ctx option \<Rightarrow> req_ctx \<Rightarrow> exn \<Rightarrow> exn" where
  "add_context (Some c) cq (ValidationError OfRequest es ctx) =
     (if truthy (ec_function ctx) then ValidationError OfRequest es ctx
      else ValidationError OfRequest es
             (EndpointContext (ec_function c) (Some (or_else (cq_method cq) (S ''GET'') @ S '' '' @ or_else (cq_path cq) (S ''/''))) (ec_file c) (ec_line c)))"
| "add_context c cq e = e"

definition error_list_response :: "server_env \<Rightarrow> resp_headers \<Rightarrow> err list \<Rightarrow> bool \<Rightarrow> unit run" where
  "error_list_response sv cors es ka =
     lbind (quiet (kf_error_body (sv_core sv) es)) (\<lambda>body.
     lbind (quiet (build_response_from_parts 422 (json_type @ headers_view cors) body ka)) transmit)"

definition unhandled_response :: "server_env \<Rightarrow> resp_headers \<Rightarrow> exn \<Rightarrow> unit run" where
  "unhandled_response sv cors e =
     lbind (store_if (is_instance (sv_classes sv) e ''ResponseValidationError'' \<or> sv_raise sv) e) (\<lambda>_.
     lbind (quiet (with_cors cors http_500)) transmit)"

definition builtin_response :: "server_env \<Rightarrow> resp_headers \<Rightarrow> exn \<Rightarrow> bool \<Rightarrow> unit run" where
  "builtin_response sv cors e0 ka =
     (let cx = sv_classes sv in
      if is_instance cx e0 ''HTTPException'' then http_exception_response sv cors e0 ka
      else
        (let e = add_context (sv_route_ctx sv) (sv_context sv) e0 in
         lbind (if is_instance cx e ''RequestValidationError'' then attempt (error_list_response sv cors (sv_exc_errors sv e) ka) else quiet (Inr False)) (\<lambda>done1.
           if done1 then no_effect
           else lbind (if is_instance cx e ''ValidationError'' then attempt (error_list_response sv cors (sv_exc_errors sv e) ka) else quiet (Inr False)) (\<lambda>done2.
             if done2 then no_effect else unhandled_response sv cors e))))"

definition dispatch_exception :: "server_env \<Rightarrow> exn \<Rightarrow> bool \<Rightarrow> unit run" where
  "dispatch_exception sv e ka =
     (if \<not> sv_up sv AtDispatch then no_effect
      else lbind (quiet (async_cors sv (context_origin sv))) (\<lambda>cors.
        case exception_handler sv e of
          Some h \<Rightarrow>
            lbind (store_if (is_instance (sv_classes sv) e ''ResponseValidationError''
                             \<or> (sv_raise sv \<and> \<not> is_http_or_validation (sv_classes sv) e)) e) (\<lambda>_.
              swallow (handled sv cors ka (h e)))
        | None \<Rightarrow> builtin_response sv cors e ka))"

text \<open>The frame of every handler: \<open>except Exception\<close> and \<open>finally\<close>.\<close>

definition guarded :: "server_env \<Rightarrow> bool \<Rightarrow> unit run \<Rightarrow> unit run" where
  "guarded sv ka m =
     (case snd m of
        Inl e \<Rightarrow> if catchable e then (fst m @ fst (dispatch_exception sv e ka), snd (dispatch_exception sv e ka)) else m
      | Inr _ \<Rightarrow> m)"

definition finally_end :: "unit run \<Rightarrow> unit run" where
  "finally_end m = (fst m @ [Ended], snd m)"

subsection \<open>HTTP middleware\<close>

text \<open>\<open>str.partition\<close> at the first question mark; header names are lowered.\<close>

definition lowered_header :: "hval \<times> hval \<Rightarrow> (bytes \<times> bytes) res" where
  "lowered_header h =
     rbind (case fst h of HS s \<Rightarrow> latin1_encode (lower s) | HB b \<Rightarrow> Inr (blower b)) (\<lambda>n.
     rbind (header_bytes (snd h)) (\<lambda>v. Inr (n, v)))"

definition middleware_request :: "raw_headers \<Rightarrow> str \<Rightarrow> str \<Rightarrow> request_view res" where
  "middleware_request raw method path =
     rbind (rmap lowered_header raw) (\<lambda>hs.
     rbind (latin1_encode (snd (split_once 63 path))) (\<lambda>q.
       Inr \<lparr>qv_method = method, qv_path = or_else (fst (split_once 63 path)) (S ''/''), qv_query = q, qv_headers = hs\<rparr>))"

definition plain_result :: "raw_value \<Rightarrow> result_obj" where
  "plain_result v = \<lparr>rv_value = v, rv_background = None, rv_shim_bg = None, rv_stack = None, rv_mw_ran = False\<rparr>"

definition as_response :: "server_env \<Rightarrow> result_obj \<Rightarrow> int \<Rightarrow> result_obj res" where
  "as_response sv raw status =
     (case rv_value raw of
        RPlain v \<Rightarrow>
          rbind (json_response_init (sv_serializers sv) v (Some status) False) (\<lambda>r.
            Inr ((plain_result (RResponse r))\<lparr>rv_shim_bg := rv_shim_bg raw, rv_stack := rv_stack raw\<rparr>))
      | _ \<Rightarrow> Inr raw)"

definition on_response :: "(response \<Rightarrow> response res) \<Rightarrow> result_obj \<Rightarrow> result_obj res" where
  "on_response f o1 =
     (case rv_value o1 of
        RPlain v \<Rightarrow> Inl (AttributeError (S ''headers''))
      | RResponse r \<Rightarrow> rbind (f r) (\<lambda>r'. Inr (o1\<lparr>rv_value := RResponse r'\<rparr>))
      | RStream r cs stop \<Rightarrow> rbind (f r) (\<lambda>r'. Inr (o1\<lparr>rv_value := RStream r' cs stop\<rparr>))
      | RFile r p \<Rightarrow> rbind (f r) (\<lambda>r'. Inr (o1\<lparr>rv_value := RFile r' p\<rparr>)))"

definition apply_extra :: "resp_headers \<Rightarrow> result_obj \<Rightarrow> result_obj res" where
  "apply_extra extra o1 =
     (if extra = [] then Inr o1
      else on_response (assign_headers (map (\<lambda>(k, v). (latin1_decode k, latin1_decode v)) extra)) o1)"

text \<open>The first dispatcher of the list is called last; one that returns nothing leaves the response as it is.\<close>

fun dispatch_chain :: "(request_view \<Rightarrow> result_obj \<Rightarrow> result_obj option res) list \<Rightarrow> request_view \<Rightarrow> result_obj \<Rightarrow> result_obj res" where
  "dispatch_chain [] rq o1 = Inr o1"
| "dispatch_chain (d # ds) rq o1 = rbind (d rq o1) (\<lambda>o2. dispatch_chain ds rq (get_or o2 o1))"

definition propagate :: "result_obj \<Rightarrow> result_obj \<Rightarrow> result_obj" where
  "propagate from to =
     to\<lparr>rv_shim_bg := (case rv_shim_bg to of None \<Rightarrow> rv_shim_bg from | b \<Rightarrow> b),
        rv_stack := (case rv_stack to of None \<Rightarrow> rv_stack from | b \<Rightarrow> b)\<rparr>"

text \<open>The final response is written from its status, headers and body; the body of a stream or a file is empty here.\<close>

definition response_part :: "raw_value \<Rightarrow> response option" where
  "response_part v = (case v of RPlain x \<Rightarrow> None | RResponse r \<Rightarrow> Some r | RStream r cs stop \<Rightarrow> Some (r\<lparr>r_body := []\<rparr>) | RFile r p \<Rightarrow> Some (r\<lparr>r_body := []\<rparr>))"

definition write_final :: "server_env \<Rightarrow> result_obj \<Rightarrow> int \<Rightarrow> bool \<Rightarrow> unit run" where
  "write_final sv final status ka =
     (if \<not> sv_up sv AtMiddleware then no_effect
      else case response_part (rv_value final) of
             Some r \<Rightarrow> lbind (quiet (build_response_from_parts (r_status r) (text_headers (r_raw r)) (r_body r) ka)) transmit
           | None \<Rightarrow> lbind (quiet (kf_any (sv_core sv) (rv_value final) status ka)) (\<lambda>b.
               case b of None \<Rightarrow> no_effect | Some x \<Rightarrow> transmit x))"

definition run_http_middleware ::
  "server_env \<Rightarrow> result_obj \<Rightarrow> resp_headers \<Rightarrow> int \<Rightarrow> bool \<Rightarrow> raw_headers \<Rightarrow> str \<Rightarrow> str \<Rightarrow> result_obj run" where
  "run_http_middleware sv raw extra status ka raw_headers method path =
     lbind (quiet (middleware_request raw_headers method path)) (\<lambda>rq.
     lbind (quiet (as_response sv raw status)) (\<lambda>resp0.
     lbind (quiet (apply_extra extra resp0)) (\<lambda>resp.
     lbind (quiet (dispatch_chain (rev (sv_dispatchers sv)) rq resp)) (\<lambda>final0.
       (let final = propagate resp final0 in
        lbind (write_final sv final status ka) (\<lambda>_. quiet (Inr final)))))))"

subsection \<open>The handlers of a request\<close>

fun is_json :: "raw_value \<Rightarrow> bool" where
  "is_json (RPlain (VDict d)) = True"
| "is_json (RPlain (VList l)) = True"
| "is_json v = False"

fun plain_of :: "raw_value \<Rightarrow> pyv" where
  "plain_of (RPlain v) = v"
| "plain_of v = VResponse"

definition write_json :: "server_env \<Rightarrow> resp_headers \<Rightarrow> pyv \<Rightarrow> int \<Rightarrow> bool \<Rightarrow> unit run" where
  "write_json sv extra v status ka =
     (if extra \<noteq> [] then
        lbind (quiet (kf_encode (sv_core sv) v)) (\<lambda>body.
        lbind (quiet (build_response_from_parts status ((HS (S ''content-type''), HS (S ''application/json'')) # text_headers extra) body ka)) transmit)
      else lbind (quiet (kf_write (sv_core sv) v status ka)) transmit)"

text \<open>\<open>_write_chunked_streaming\<close> for any object: without a \<open>body_iterator\<close> it fails behind the head.\<close>

definition stream_result :: "resp_headers \<Rightarrow> raw_value \<Rightarrow> unit run" where
  "stream_result cors v =
     (let out = (\<lambda>r cs stop.
             case write_chunked_streaming (r_status r) (headers_view (r_raw r)) (headers_view cors) cs stop of
               ([], u) \<Rightarrow> ([], u) | (ws, u) \<Rightarrow> ([Chunked ws], u));
          no_iterator = (\<lambda>status hs. case stream_header_lines (hs @ headers_view cors) of
             Inl e \<Rightarrow> ([], Inl e)
           | Inr l \<Rightarrow> ([Chunked [stream_prefix status @ l @ CRLF]], Inl (AttributeError (S ''body_iterator''))))
      in case v of
           RStream r cs stop \<Rightarrow> out r cs stop
         | RResponse r \<Rightarrow> no_iterator (r_status r) (headers_view (r_raw r))
         | RFile r p \<Rightarrow> no_iterator (r_status r) (headers_view (r_raw r))
         | RPlain x \<Rightarrow> no_iterator 200 [])"

definition write_any :: "server_env \<Rightarrow> resp_headers \<Rightarrow> resp_headers \<Rightarrow> raw_value \<Rightarrow> int \<Rightarrow> bool \<Rightarrow> unit run" where
  "write_any sv extra cors v status ka =
     lbind (quiet (kf_any (sv_core sv) v status ka)) (\<lambda>b.
       case b of
         Some x \<Rightarrow> lbind (quiet (with_cors (extra @ cors) x)) transmit
       | None \<Rightarrow> stream_result cors v)"

definition close_stack :: "result_obj \<Rightarrow> unit run" where
  "close_stack o1 = lift_ev (aclose ExitRequest (rv_stack o1))"

definition handle_async :: "server_env \<Rightarrow> result_obj res \<Rightarrow> int \<Rightarrow> bool \<Rightarrow> str \<Rightarrow> unit run" where
  "handle_async sv outcome status ka origin =
     finally_end (guarded sv ka (
       lbind (quiet outcome) (\<lambda>raw.
         if \<not> sv_up sv AtResult then no_effect
         else lbind (quiet (async_cors sv origin)) (\<lambda>cors.
           if is_json (rv_value raw) then write_json sv cors (plain_of (rv_value raw)) status ka
           else lbind (if sv_dispatchers sv \<noteq> []
                       then run_http_middleware sv raw cors status ka [] (S ''GET'') (S ''/'')
                       else lbind (optional_tasks (rv_background raw)) (\<lambda>_.
                            lbind (optional_tasks (rv_shim_bg raw)) (\<lambda>_.
                            lbind (write_any sv [] cors (rv_value raw) status ka) (\<lambda>_. quiet (Inr raw)))))
                  close_stack))))"

text \<open>A file response is written whole; a file that cannot be read counts as empty.\<close>

definition file_head :: "int \<Rightarrow> resp_headers \<Rightarrow> resp_headers \<Rightarrow> nat \<Rightarrow> bool \<Rightarrow> bytes" where
  "file_head status hs cors nbytes ka =
     ''HTTP/1.1 '' @ map char_of (int_str status) @ '' '' @ dict_get status_phrases status ''OK''
     @ header_text (hs @ cors @ (if has_content_length hs then [] else [(''content-length'', map char_of (dec nbytes))])
                    @ [(''connection'', if ka then ''keep-alive'' else ''close'')]) @ CRLFCRLF"

definition write_stream :: "server_env \<Rightarrow> resp_headers \<Rightarrow> raw_value \<Rightarrow> bool \<Rightarrow> unit run" where
  "write_stream sv cors v ka =
     (case v of
        RFile r p \<Rightarrow>
          (let b = get_or (sv_open sv p) [] in transmit (file_head (r_status r) (r_raw r) cors (length b) ka @ b))
      | _ \<Rightarrow> stream_result cors v)"

definition handle_stream :: "server_env \<Rightarrow> result_obj \<Rightarrow> bool \<Rightarrow> str \<Rightarrow> unit run" where
  "handle_stream sv raw ka origin =
     finally_end (guarded sv ka (
       lbind (if sv_up sv AtResult
              then lbind (quiet (async_cors sv origin)) (\<lambda>cors. write_stream sv cors (rv_value raw) ka)
              else no_effect) (\<lambda>_. optional_tasks (rv_background raw))))"

definition page_of_text :: "result_obj \<Rightarrow> int \<Rightarrow> str \<Rightarrow> result_obj res" where
  "page_of_text raw status path =
     (case rv_value raw of
        RPlain (VStr s) \<Rightarrow>
          rbind (if endswith (or_else path (S ''/'')) (S ''.json'')
                 then rbind (utf8_encode s) (\<lambda>b. response_init None (CBytes b) status None (Some (S ''application/json'')) False)
                 else html_response_init (CText s) status None None False) (\<lambda>r. Inr (plain_result (RResponse r)))
      | _ \<Rightarrow> Inr raw)"

definition handle_middleware_result :: "server_env \<Rightarrow> result_obj \<Rightarrow> int \<Rightarrow> bool \<Rightarrow> raw_headers \<Rightarrow> str \<Rightarrow> str \<Rightarrow> unit run" where
  "handle_middleware_result sv raw0 status ka raw_headers method path =
     (let rh = (if raw_headers = [] then get_or (map_option headers_view (cq_raw (sv_context sv))) [] else raw_headers) in
      finally_end (guarded sv ka (
        lbind (quiet (async_cors sv (extract_origin (Some rh)))) (\<lambda>cors.
        lbind (quiet (page_of_text raw0 status path)) (\<lambda>raw.
          if sv_dispatchers sv \<noteq> []
          then lbind (run_http_middleware sv raw cors status ka [] (or_else method (S ''GET'')) (or_else path (S ''/''))) (\<lambda>_. no_effect)
          else if \<not> sv_up sv AtResult then no_effect
          else if is_json (rv_value raw) then lbind (quiet (kf_build (sv_core sv) (plain_of (rv_value raw)) status ka)) (write_if cors)
          else lbind (quiet (kf_any (sv_core sv) (rv_value raw) status ka)) (write_if cors))))))"

text \<open>\<open>_handle_pydantic\<close>; \<open>body\<close> is the result of \<open>request_body_to_args\<close> if the route has a body.\<close>

definition handle_pydantic ::
  "server_env \<Rightarrow> (str, pyv) dict \<Rightarrow> ((str, pyv) dict \<times> err list) res option \<Rightarrow> ((str, pyv) dict \<Rightarrow> result_obj res) \<Rightarrow> int \<Rightarrow> unit run" where
  "handle_pydantic sv kwargs body ep status0 =
     finally_end (guarded sv True (
       lbind (quiet (async_cors sv (context_origin sv))) (\<lambda>cors.
       lbind (quiet (case body of None \<Rightarrow> Inr ([], []) | Some b \<Rightarrow> b)) (\<lambda>(vals, errs).
         if errs \<noteq> [] then
           (if sv_up sv AtErrors then lbind (quiet (kf_build (sv_core sv) (kf_errors (sv_core sv) errs) 422 True)) (write_if cors) else no_effect)
         else lbind (quiet (ep (dict_update vals kwargs))) (\<lambda>raw.
           (let status = (if status0 = 0 then 200 else status0) in
            if \<not> sv_up sv AtResult then no_effect
            else if is_json (rv_value raw) then lbind (quiet (kf_build (sv_core sv) (plain_of (rv_value raw)) status True)) (write_if cors)
            else lbind (write_any sv [] cors (rv_value raw) status True) (\<lambda>_. optional_tasks (rv_background raw))))))))"

subsection \<open>Requests with dependencies\<close>

text \<open>
  What the resolver of the dependencies returns. \<open>sd_stacks\<close> is the value of \<open>__exit_stack__\<close>: one stack, or
  the pair of stacks that the response shim closes itself.
\<close>

datatype di_stack = OneStack "exit_cb list" | StackPair

record solved_deps =
  sd_values :: "(str, pyv) dict"
  sd_errs :: "err list"
  sd_tasks :: "tasks option"
  sd_response :: "response option"
  sd_stacks :: "di_stack option"

text \<open>
  The call of the endpoint: its result, what it did to the shared \<open>Response\<close>, and the background tasks it
  added to the object it was given.
\<close>

record endpoint_out =
  eo_result :: "result_obj res"
  eo_mutate :: "response \<Rightarrow> response"
  eo_added :: tasks

text \<open>The route of the endpoint, the name of its \<open>BackgroundTasks\<close> parameter, and the context as the endpoint's arguments carry it.\<close>

record di_call =
  dc_kwargs :: "(str, pyv) dict"
  dc_bg_param :: "str option"
  dc_raw_headers :: raw_headers
  dc_method :: str
  dc_path :: str

definition own_header :: "bytes \<times> bytes \<Rightarrow> bool" where
  "own_header h \<longleftrightarrow> blower (fst h) \<notin> {''content-length'', ''content-type''}"

definition sub_headers :: "response option \<Rightarrow> resp_headers" where
  "sub_headers r = (case r of None \<Rightarrow> [] | Some x \<Rightarrow> r_raw x)"

definition sub_status :: "response option \<Rightarrow> int \<Rightarrow> int" where
  "sub_status r status = (case r of None \<Rightarrow> status | Some x \<Rightarrow> if r_status x \<noteq> 200 then r_status x else status)"

definition post_headers :: "response option \<Rightarrow> resp_headers \<Rightarrow> resp_headers" where
  "post_headers r extra = (case r of None \<Rightarrow> extra | Some x \<Rightarrow> if r_raw x \<noteq> [] then filter own_header (r_raw x) else extra)"

definition context_headers :: "server_env \<Rightarrow> di_call \<Rightarrow> raw_headers" where
  "context_headers sv dc =
     (if dc_raw_headers dc = [] then get_or (map_option headers_view (cq_raw (sv_context sv))) [] else dc_raw_headers dc)"

text \<open>\<open>_exec_endpoint_and_write\<close>.\<close>

definition exec_endpoint_and_write ::
  "server_env \<Rightarrow> di_call \<Rightarrow> solved_deps \<Rightarrow> endpoint_out \<Rightarrow> int \<Rightarrow> bool \<Rightarrow> str \<Rightarrow> result_obj run" where
  "exec_endpoint_and_write sv dc sd out status0 ka origin =
     lbind (quiet (eo_result out)) (\<lambda>raw.
       (let resp = map_option (eo_mutate out) (sd_response sd);
            extra = post_headers resp (sub_headers (sd_response sd));
            status = sub_status resp (sub_status (sd_response sd) status0);
            rh = context_headers sv dc in
        if \<not> sv_up sv AtResult then quiet (Inr raw)
        else lbind (quiet (async_cors sv (or_else (extract_origin (Some rh)) origin))) (\<lambda>cors.
             lbind (if sv_dispatchers sv \<noteq> [] \<and> \<not> rv_mw_ran raw
                    then run_http_middleware sv raw (extra @ cors) status ka rh
                           (or_else (or_else (dc_method dc) (cq_method (sv_context sv))) (S ''GET''))
                           (or_else (or_else (dc_path dc) (cq_path (sv_context sv))) (S ''/''))
                    else if is_json (rv_value raw)
                    then lbind (write_json sv (extra @ cors) (plain_of (rv_value raw)) status ka) (\<lambda>_. quiet (Inr raw))
                    else lbind (write_any sv extra cors (rv_value raw) status ka) (\<lambda>_. quiet (Inr raw))) (\<lambda>raw'.
             lbind (optional_tasks (rv_shim_bg raw')) (\<lambda>_. quiet (Inr raw'))))))"

text \<open>The background tasks of the dependencies, to which those the endpoint adds belong if it gets the same object.\<close>

definition di_tasks :: "di_call \<Rightarrow> solved_deps \<Rightarrow> endpoint_out \<Rightarrow> tasks option" where
  "di_tasks dc sd out =
     (case dc_bg_param dc of
        Some p \<Rightarrow> if \<not> dict_has (dict_update (sd_values sd) (dc_kwargs dc)) p then Some (get_or (sd_tasks sd) [] @ eo_added out) else sd_tasks sd
      | None \<Rightarrow> sd_tasks sd)"

definition run_endpoint :: "server_env \<Rightarrow> di_call \<Rightarrow> solved_deps \<Rightarrow> endpoint_out \<Rightarrow> int \<Rightarrow> bool \<Rightarrow> str \<Rightarrow> unit run" where
  "run_endpoint sv dc sd out status ka origin =
     lbind (exec_endpoint_and_write sv dc sd out status ka origin) (\<lambda>raw.
     lbind (optional_tasks (rv_background raw)) (\<lambda>_. optional_tasks (di_tasks dc sd out)))"

text \<open>\<open>async with exit_stack\<close>.\<close>

definition with_stack :: "exit_cb list \<Rightarrow> unit run \<Rightarrow> unit run" where
  "with_stack cbs m =
     (fst m @ map (Ran \<circ> ExitRequest) (exit_order cbs),
      case unwind cbs (exc_of (snd m)) of None \<Rightarrow> Inr () | Some e \<Rightarrow> Inl e)"

definition handle_async_di ::
  "server_env \<Rightarrow> di_call \<Rightarrow> solved_deps res \<Rightarrow> ((str, pyv) dict \<Rightarrow> endpoint_out) \<Rightarrow> int \<Rightarrow> bool \<Rightarrow> str \<Rightarrow> unit run" where
  "handle_async_di sv dc solved ep status ka origin =
     finally_end (guarded sv ka (
       lbind (quiet solved) (\<lambda>sd.
       lbind (quiet (async_cors sv origin)) (\<lambda>_.
         if sd_errs sd \<noteq> [] then
           (if sv_up sv AtErrors then lbind (quiet (kf_build (sv_core sv) (kf_errors (sv_core sv) (sd_errs sd)) 422 ka)) (write_if []) else no_effect)
         else (let out = ep (dict_update (sd_values sd) (dc_kwargs dc)); m = run_endpoint sv dc sd out status ka origin in
               case sd_stacks sd of
                 Some (OneStack cbs) \<Rightarrow> with_stack cbs m
               | _ \<Rightarrow> m)))))"

subsection \<open>Properties: driving a coroutine\<close>

text \<open>What the task of \<open>asyncio\<close> computes: the coroutine is resumed with the outcome of every await.\<close>

inductive finishes :: "(nat \<Rightarrow> nat res) \<Rightarrow> 'v coro \<Rightarrow> 'v res \<Rightarrow> bool" for aw where
  "finishes aw (CReturn v) (Inr v)"
| "finishes aw (CRaise e) (Inl e)"
| "finishes aw (k (awaited aw y)) r \<Longrightarrow> finishes aw (CYield y k) r"

inductive_simps finishes_simps [simp]: "finishes aw (CReturn v) r" "finishes aw (CRaise e) r" "finishes aw (CYield y k) r"

lemma drive_loop_iff: "drive_loop aw c = Some r \<longleftrightarrow> finishes aw c r"
proof
  show "finishes aw c r" if "drive_loop aw c = Some r"
    by (rule drive_loop.raw_induct [OF _ that, of "\<lambda>aw c r. finishes aw c r"]) (auto split: coro.splits)
  show "finishes aw c r \<Longrightarrow> drive_loop aw c = Some r"
    by (induction rule: finishes.induct) (auto simp: drive_loop.simps)
qed

text \<open>
  A coroutine is driven like a task if its first await succeeds: the driver returns exactly when the coroutine ends, with its
  result or its exception, and exceptions of later awaits are thrown into it.
\<close>

theorem drive_coro_like_task:
  assumes "awaited aw y = Inr a"
  shows "drive_coro aw y k = Some r \<longleftrightarrow> finishes aw (CYield y k) r"
  using assms by (simp add: drive_coro_def drive_loop_iff)

theorem drive_coro_like_task_witness:
  "drive_coro (\<lambda>f. if f = 0 then Inr 7 else Inl OSError) (Some 0)
     (\<lambda>r. CYield (Some 1) (\<lambda>r. case r of Inl e \<Rightarrow> CReturn (3 :: nat) | Inr v \<Rightarrow> CReturn 4)) = Some (Inr 3)"
  using drive_coro_like_task [of "\<lambda>f. if f = 0 then Inr 7 else Inl OSError" "Some 0" "Some 7"
    "\<lambda>r. CYield (Some 1) (\<lambda>r. case r of Inl e \<Rightarrow> CReturn (3 :: nat) | Inr v \<Rightarrow> CReturn 4)" "Inr 3"]
  by (simp add: awaited_def)

text \<open>The exception of the first await is not thrown into the coroutine, whatever the coroutine would do with it.\<close>

lemma first_await_not_thrown: "awaited aw y = Inl e \<Longrightarrow> drive_coro aw y k = Some (Inl e)"
  by (simp add: drive_coro_def)

subsection \<open>Properties: one answer for one request\<close>

fun is_answer :: "server_event \<Rightarrow> bool" where
  "is_answer (Wrote b) = True"
| "is_answer (Chunked ws) = True"
| "is_answer ev = False"

abbreviation answers :: "server_event list \<Rightarrow> nat" where
  "answers ev \<equiv> length (filter is_answer ev)"

lemma lbind_ok [simp]: "lbind (ev, Inr x) f = (ev @ fst (f x), snd (f x))" "lbind (ev, Inl e) f = (ev, Inl e)"
  by (simp_all add: lbind_def)

lemma basic_runs [simp]: "quiet r = ([], r)" "logged l x = (l, Inr x)" "transmit b = ([Wrote b], Inr ())" "no_effect = ([], Inr ())"
  by (simp_all add: quiet_def logged_def transmit_def no_effect_def)

lemma inject_bytes_total: "\<exists>b'. with_cors cors b = Inr b'"
  by (auto simp: with_cors_def inject_headers_def headers_view_def inject_parts_bytes split: option.splits)

text \<open>
  A connection that stays open, with the contract of the core (its builder returns bytes for everything but
  a stream) and exception handlers that return a response, among them one for \<open>HTTPException\<close>.
\<close>

definition is_streaming :: "raw_value \<Rightarrow> bool" where
  "is_streaming v \<longleftrightarrow> (case v of RStream r cs stop \<Rightarrow> True | _ \<Rightarrow> False)"

definition core_serves :: "core_fns \<Rightarrow> bool" where
  "core_serves co \<longleftrightarrow>
     (\<forall>v st ka. if is_streaming v then kf_any co v st ka = Inr None else (\<exists>b. kf_any co v st ka = Inr (Some b)))
     \<and> (\<forall>v st ka. \<exists>b. b \<noteq> [] \<and> kf_build co v st ka = Inr (Some b))
     \<and> (\<forall>v st ka. \<exists>b. kf_write co v st ka = Inr b) \<and> (\<forall>v. \<exists>b. kf_encode co v = Inr b)
     \<and> (\<forall>es. \<exists>b. kf_error_body co es = Inr b)"

definition well_served :: "server_env \<Rightarrow> bool" where
  "well_served sv \<longleftrightarrow>
     (\<forall>c. sv_up sv c) \<and> core_serves (sv_core sv) \<and> (\<forall>o1. \<exists>c. async_cors sv o1 = Inr c)
     \<and> (\<forall>e h. exception_handler sv e = Some h \<longrightarrow> (\<exists>r. h e = Inr (Some r) \<and> \<not> is_streaming (rv_value r)))
     \<and> (\<forall>e. is_instance (sv_classes sv) e ''HTTPException'' \<longrightarrow> exception_handler sv e \<noteq> None)"

lemma well_served_up [simp]: "well_served sv \<Longrightarrow> sv_up sv c"
  by (simp add: well_served_def)

lemma well_served_core:
  assumes "well_served sv"
  obtains b1 b2 b3 b4 where "b1 \<noteq> []" "kf_build (sv_core sv) v st ka = Inr (Some b1)" "kf_write (sv_core sv) v st ka = Inr b2"
    "kf_encode (sv_core sv) v = Inr b3" "kf_error_body (sv_core sv) es = Inr b4"
  using assms unfolding well_served_def core_serves_def by metis

lemma well_served_any:
  assumes "well_served sv"
  shows "\<not> is_streaming v \<Longrightarrow> \<exists>b. kf_any (sv_core sv) v st ka = Inr (Some b)" "is_streaming v \<Longrightarrow> kf_any (sv_core sv) v st ka = Inr None"
  using assms unfolding well_served_def core_serves_def by metis+

lemma well_served_cors: "well_served sv \<Longrightarrow> \<exists>c. async_cors sv o1 = Inr c"
  by (simp add: well_served_def)

text \<open>
  Building a response from parts fails for the headers the code gives it here, which are bytes; the
  attempt to answer a validation error with 422 ends there.
\<close>

lemma parts_of_bytes_fail: "build_response_from_parts st (json_type @ hs) body ka = Inl (TypeError (S ''bad argument type for built-in operation''))"
  by (simp add: build_response_from_parts_def json_type_def text_half_def)

lemma error_list_fails:
  assumes "kf_error_body (sv_core sv) es = Inr body"
  shows "attempt (error_list_response sv cors es ka) = ([], Inr False)"
  using assms by (simp add: attempt_def error_list_response_def parts_of_bytes_fail catchable_def)

definition answered :: "server_event list \<Rightarrow> bool" where
  "answered ev \<longleftrightarrow> answers ev = 1 \<and> Ended \<notin> set ev"

lemma answered_Wrote [simp]: "answered [Wrote b]" "answered [Ran x, Wrote b]" "answered [Chunked ws]"
  by (simp_all add: answered_def)

lemma unhandled_answers: "\<exists>ev. unhandled_response sv cors e = (ev, Inr ()) \<and> answered ev"
  using inject_bytes_total [of cors http_500] by (auto simp: unhandled_response_def store_if_def)

lemma dispatch_answers:
  assumes "well_served sv"
  shows "\<exists>ev. dispatch_exception sv e ka = (ev, Inr ()) \<and> answered ev"
proof -
  obtain cors where cors: "async_cors sv (context_origin sv) = Inr cors" using well_served_cors [OF assms] by blast
  show ?thesis
  proof (cases "exception_handler sv e")
    case None
    with assms have no_http: "\<not> is_instance (sv_classes sv) e ''HTTPException''" by (auto simp: well_served_def)
    have att: "attempt (error_list_response sv cors es ka) = ([], Inr False)" for es
      using well_served_core [OF assms, where es = es] by (metis error_list_fails)
    show ?thesis
      using unhandled_answers [of sv cors] assms
      by (simp add: dispatch_exception_def cors None builtin_response_def Let_def no_http att)
  next
    case (Some h)
    then obtain r where r: "h e = Inr (Some r)" "\<not> is_streaming (rv_value r)" using assms unfolding well_served_def by blast
    obtain b where b: "kf_any (sv_core sv) (rv_value r) (status_of 500 (rv_value r)) ka = Inr (Some b)"
      using well_served_any(1) [OF assms r(2)] by blast
    obtain b' where "with_cors cors b = Inr b'" using inject_bytes_total by blast
    then show ?thesis
      using assms by (simp add: dispatch_exception_def cors Some handled_def r b swallow_def store_if_def)
  qed
qed

text \<open>The frame of a handler turns a block that answers, or fails before it has answered, into one answer.\<close>

definition answers_or_fails :: "unit run \<Rightarrow> bool" where
  "answers_or_fails m \<longleftrightarrow> Ended \<notin> set (fst m) \<and>
     (case snd m of Inr _ \<Rightarrow> answers (fst m) = 1 | Inl e \<Rightarrow> catchable e \<and> answers (fst m) = 0)"

lemma frame_answers:
  assumes "well_served sv" and "answers_or_fails m"
  shows "\<exists>ev. finally_end (guarded sv ka m) = (ev @ [Ended], Inr ()) \<and> answered ev"
proof (cases "snd m")
  case (Inl e)
  obtain ev where "dispatch_exception sv e ka = (ev, Inr ())" "answered ev" using dispatch_answers [OF assms(1)] by blast
  with Inl assms(2) show ?thesis by (simp add: finally_end_def guarded_def answers_or_fails_def answered_def)
next
  case (Inr u)
  with assms(2) show ?thesis by (cases m) (simp add: finally_end_def guarded_def answers_or_fails_def answered_def)
qed

lemma utf8_of_latin1: "\<exists>b. utf8_encode (latin1_decode k) = Inr b"
proof -
  have "scalar (of_char c)" for c :: char
    unfolding scalar_def using nat_of_char_less_256 [of c] by linarith
  then have "list_all scalar (latin1_decode k)" by (simp add: latin1_decode_def list_all_iff)
  then show ?thesis by (simp add: utf8_encode_def)
qed

lemma text_parts_total: "\<exists>b. build_response_from_parts st (text_headers hs) body ka = Inr b"
proof -
  have "\<exists>ps. header_block (text_headers hs) = Inr ps"
  proof (induction hs)
    case Nil
    then show ?case by (simp add: text_headers_def)
  next
    case (Cons h hs)
    obtain k v where h: "h = (k, v)" by (cases h)
    obtain kb vb where "utf8_encode (latin1_decode k) = Inr kb" "utf8_encode (latin1_decode v) = Inr vb"
      using utf8_of_latin1 by metis
    with Cons show ?case by (auto simp: h text_headers_def text_half_def)
  qed
  then show ?thesis by (auto simp: build_response_from_parts_def)
qed

lemma write_json_answers:
  assumes "well_served sv"
  shows "\<exists>b. write_json sv extra v st ka = ([Wrote b], Inr ())"
proof -
  obtain b1 b2 where b: "kf_write (sv_core sv) v st ka = Inr b1" "kf_encode (sv_core sv) v = Inr b2"
    using well_served_core [OF assms] by metis
  let ?ct = "(''content-type'', ''application/json'')"
  have "(HS (S ''content-type''), HS (S ''application/json'')) # text_headers extra = text_headers (?ct # extra)"
    by (simp add: text_headers_def latin1_decode_S)
  moreover obtain b3 where "build_response_from_parts st (text_headers (?ct # extra)) b2 ka = Inr b3" using text_parts_total by blast
  ultimately show ?thesis using b by (simp add: write_json_def)
qed

definition interrupted :: "raw_value \<Rightarrow> bool" where
  "interrupted v \<longleftrightarrow> (case v of RStream r cs stop \<Rightarrow> stop = Some Interrupt | _ \<Rightarrow> False)"

lemma stream_lines_bytes: "\<exists>l. stream_header_lines (headers_view hs) = Inr l"
  by (induction hs) (auto simp: headers_view_def header_bytes_def)

lemma stream_answers: "is_streaming v \<Longrightarrow> \<not> interrupted v \<Longrightarrow> \<exists>ws. stream_result cors v = ([Chunked ws], Inr ())"
proof (cases v)
  case (RStream r cs stop)
  assume "\<not> interrupted v"
  then have stop: "stop \<noteq> Some Interrupt" by (simp add: interrupted_def RStream)
  obtain a b where "stream_header_lines (headers_view (r_raw r)) = Inr a" "stream_header_lines (headers_view cors) = Inr b"
    using stream_lines_bytes by metis
  from streaming_complete [OF this stop, of "r_status r" cs "[]"] show ?thesis by (auto simp: stream_result_def RStream)
qed (simp_all add: is_streaming_def)

lemma write_any_answers:
  assumes "well_served sv" and "\<not> interrupted v"
  shows "\<exists>ev. write_any sv extra cors v st ka = ([ev], Inr ()) \<and> is_answer ev"
proof (cases "is_streaming v")
  case True
  then obtain ws where "stream_result cors v = ([Chunked ws], Inr ())" using stream_answers assms(2) by blast
  then show ?thesis using well_served_any(2) [OF assms(1) True] by (simp add: write_any_def)
next
  case False
  obtain b where b: "kf_any (sv_core sv) v st ka = Inr (Some b)" using well_served_any(1) [OF assms(1) False] by blast
  obtain b' where "with_cors (extra @ cors) b = Inr b'" using inject_bytes_total by blast
  with b show ?thesis by (simp add: write_any_def)
qed

text \<open>Tasks and exit callbacks leave no answer behind.\<close>

lemma tasks_quiet: "answers (fst (optional_tasks t)) = 0 \<and> Ended \<notin> set (fst (optional_tasks t))"
  by (auto simp: optional_tasks_def lift_ev_def filter_empty_conv split: option.splits)

definition tasks_catchable :: "tasks option \<Rightarrow> bool" where
  "tasks_catchable t \<longleftrightarrow> list_all (\<lambda>(i, e). e \<noteq> Some Interrupt) (get_or t [])"

definition tasks_succeed :: "tasks option \<Rightarrow> bool" where
  "tasks_succeed t \<longleftrightarrow> list_all (\<lambda>(i, e). e = None) (get_or t [])"

lemma run_tasks_result:
  "list_all (\<lambda>(i, e). e \<noteq> Some Interrupt) ts \<Longrightarrow> snd (run_tasks ts) \<noteq> Inl Interrupt"
  "list_all (\<lambda>(i, e). e = None) ts \<Longrightarrow> run_tasks ts = (map (TaskDone \<circ> fst) ts, Inr ())"
  by (induction ts rule: run_tasks.induct) (simp_all add: lbind_def split: prod.splits sum.splits)

definition silent :: "'a run \<Rightarrow> bool" where
  "silent m \<longleftrightarrow> answers (fst m) = 0 \<and> Ended \<notin> set (fst m) \<and> snd m \<noteq> Inl Interrupt"

lemma silent_quiet [simp]: "silent ([], r) \<longleftrightarrow> r \<noteq> Inl Interrupt"
  by (simp add: silent_def)

lemma silent_tasks: "tasks_catchable t \<Longrightarrow> silent (optional_tasks t)"
  using tasks_quiet [of t] run_tasks_result(1) [of "get_or t []"]
  by (cases t) (auto simp: silent_def optional_tasks_def lift_ev_def tasks_catchable_def)

lemma tasks_done: "tasks_succeed t \<Longrightarrow> optional_tasks t = (map (Ran \<circ> TaskDone \<circ> fst) (get_or t []), Inr ())"
  by (cases t) (simp_all add: optional_tasks_def lift_ev_def tasks_succeed_def run_tasks_result(2))

text \<open>Something silent before the answer, and something that succeeds silently behind it.\<close>

lemma answers_after: "silent m \<Longrightarrow> (\<And>x. snd m = Inr x \<Longrightarrow> answers_or_fails (f x)) \<Longrightarrow> answers_or_fails (lbind m f)"
  by (cases m; cases "snd m") (auto simp: silent_def answers_or_fails_def catchable_def split: sum.splits)

lemma answers_before:
  assumes "is_answer ev" and "\<exists>es. f x = (es, Inr ()) \<and> answers es = 0 \<and> Ended \<notin> set es"
  shows "answers_or_fails (lbind ([ev], Inr x) f)"
  using assms by (cases ev) (auto simp: answers_or_fails_def)

definition stack_closes :: "exit_cb list option \<Rightarrow> bool" where
  "stack_closes stk \<longleftrightarrow> (case stk of None \<Rightarrow> True | Some cbs \<Rightarrow> unwind cbs None = None)"

lemma close_stack_ok: "stack_closes (rv_stack o1) \<Longrightarrow> \<exists>es. close_stack o1 = (es, Inr ()) \<and> answers es = 0 \<and> Ended \<notin> set es"
  by (auto simp: close_stack_def stack_closes_def lift_ev_def aclose_def filter_empty_conv split: option.splits)

lemma lbind_assoc: "lbind (lbind m f) g = lbind m (\<lambda>x. lbind (f x) g)"
  by (cases m; cases "snd m") (auto simp: lbind_def split: prod.splits sum.splits)

definition result_ok :: "result_obj \<Rightarrow> bool" where
  "result_ok raw \<longleftrightarrow> \<not> interrupted (rv_value raw) \<and> stack_closes (rv_stack raw)
     \<and> tasks_catchable (rv_background raw) \<and> tasks_catchable (rv_shim_bg raw)"

lemma async_value_answers:
  assumes "well_served sv" and "result_ok raw"
  shows "answers_or_fails (lbind (lbind (optional_tasks (rv_background raw)) (\<lambda>_. lbind (optional_tasks (rv_shim_bg raw)) (\<lambda>_.
      lbind (write_any sv [] cors (rv_value raw) status ka) (\<lambda>_. quiet (Inr raw))))) close_stack)"
  unfolding lbind_assoc
proof (rule answers_after [OF silent_tasks answers_after [OF silent_tasks]])
  show "tasks_catchable (rv_background raw)" "tasks_catchable (rv_shim_bg raw)" using assms(2) by (simp_all add: result_ok_def)
  obtain ev where ev: "write_any sv [] cors (rv_value raw) status ka = ([ev], Inr ())" "is_answer ev"
    using write_any_answers assms by (metis result_ok_def)
  have "stack_closes (rv_stack raw)" using assms(2) by (simp add: result_ok_def)
  from answers_before [where f = close_stack and x = raw, OF ev(2) close_stack_ok [OF this]]
  show "answers_or_fails (lbind (write_any sv [] cors (rv_value raw) status ka) (\<lambda>_. lbind (quiet (Inr raw)) close_stack))"
    by (simp add: ev)
qed


text \<open>A server with a handler for \<open>HTTPException\<close> and serialisers that always succeed.\<close>

definition example_core :: core_fns where
  "example_core = \<lparr>kf_any = (\<lambda>v st ka. Inr (if is_streaming v then None else Some ''any'')), kf_build = (\<lambda>v st ka. Inr (Some ''built'')),
     kf_write = (\<lambda>v st ka. Inr ''json''), kf_encode = (\<lambda>v. Inr ''{}''), kf_detail = (\<lambda>e. VNone), kf_dumps = (\<lambda>v. Inr ''null''),
     kf_errors = (\<lambda>es. VNone), kf_error_body = (\<lambda>es. Inr ''[]'')\<rparr>"

definition example_server :: server_env where
  "example_server = \<lparr>sv_up = (\<lambda>c. True), sv_classes = no_classes,
     sv_handlers = [(Cls ''HTTPException'', \<lambda>e. Inr (Some (plain_result (RPlain VNone))))], sv_live = [], sv_status_handlers = [],
     sv_dispatchers = [], sv_user_mw = None, sv_context = no_request, sv_route_ctx = None, sv_exc_headers = (\<lambda>e. None), sv_exc_errors = (\<lambda>e. []),
     sv_raise = False, sv_serializers = example_serializers, sv_open = (\<lambda>p. None), sv_core = example_core\<rparr>"

lemma lookup_mro_single: "lookup_mro cs [(c, h)] = (if c \<in> set cs then Some h else None)"
  by (induction cs) auto

lemma example_server_serves: "well_served example_server"
proof -
  have h: "exception_handler example_server e = (if is_instance no_classes e ''HTTPException''
     then Some (\<lambda>e. Inr (Some (plain_result (RPlain VNone)))) else None)" for e
    by (simp add: exception_handler_def example_server_def dict_update_def dict_set_def lookup_mro_single is_instance_def)
  have core: "core_serves (sv_core example_server)" by (simp add: core_serves_def example_server_def example_core_def)
  have hh: "\<exists>r. g e = Inr (Some r) \<and> \<not> is_streaming (rv_value r)" if "exception_handler example_server e = Some g" for e g
    using that by (auto simp: h plain_result_def is_streaming_def split: if_splits)
  have "sv_up example_server c" "\<exists>cs. async_cors example_server o1 = Inr cs" "sv_classes example_server = no_classes" for c o1
    by (simp_all add: example_server_def async_cors_def)
  with core hh h show ?thesis unfolding well_served_def by (metis option.distinct(1))
qed


text \<open>
  The events of a request with dependencies: the response, then the background tasks of the shim, of the response and of the
  dependencies, then the exit callbacks in reverse order, then the end is recorded.
\<close>

definition exits_of :: "di_stack option \<Rightarrow> exit_cb list" where
  "exits_of st = (case st of Some (OneStack cbs) \<Rightarrow> cbs | _ \<Rightarrow> [])"

definition done_events :: "tasks option \<Rightarrow> server_event list" where
  "done_events t = map (Ran \<circ> TaskDone \<circ> fst) (get_or t [])"

lemma exec_endpoint_trace:
  assumes "well_served sv" and "sv_dispatchers sv = []" and "eo_result out = Inr raw"
    and "\<not> interrupted (rv_value raw)" and "tasks_succeed (rv_shim_bg raw)"
  shows "\<exists>a. is_answer a \<and> exec_endpoint_and_write sv dc sd out status ka origin = (a # done_events (rv_shim_bg raw), Inr raw)"
proof -
  obtain cors where cors: "async_cors sv (or_else (extract_origin (Some (context_headers sv dc))) origin) = Inr cors"
    using well_served_cors [OF assms(1)] by blast
  let ?r = "map_option (eo_mutate out) (sd_response sd)"
  let ?extra = "post_headers ?r (sub_headers (sd_response sd))" and ?st = "sub_status ?r (sub_status (sd_response sd) status)"
  obtain a where a: "write_any sv ?extra cors (rv_value raw) ?st ka = ([a], Inr ())" "is_answer a"
    using write_any_answers [OF assms(1,4)] by blast
  obtain b where b: "write_json sv (?extra @ cors) (plain_of (rv_value raw)) ?st ka = ([Wrote b], Inr ())"
    using write_json_answers [OF assms(1)] by blast
  show ?thesis
    using assms(1-3) a b cors tasks_done [OF assms(5)] by (cases "is_json (rv_value raw)") (simp_all add: exec_endpoint_and_write_def done_events_def Let_def)
qed

theorem di_request_trace:
  assumes "well_served sv" and "sv_dispatchers sv = []" and "sd_errs sd = []"
    and "ep (dict_update (sd_values sd) (dc_kwargs dc)) = out" and "eo_result out = Inr raw" and "\<not> interrupted (rv_value raw)"
    and "tasks_succeed (rv_shim_bg raw)" and "tasks_succeed (rv_background raw)" and "tasks_succeed (di_tasks dc sd out)"
    and "unwind (exits_of (sd_stacks sd)) None = None"
  shows "\<exists>a. is_answer a \<and> handle_async_di sv dc (Inr sd) ep status ka origin =
    (a # done_events (rv_shim_bg raw) @ done_events (rv_background raw) @ done_events (di_tasks dc sd out)
       @ map (Ran \<circ> ExitRequest) (exit_order (exits_of (sd_stacks sd))) @ [Ended], Inr ())"
proof -
  obtain a where a: "is_answer a" "exec_endpoint_and_write sv dc sd out status ka origin = (a # done_events (rv_shim_bg raw), Inr raw)"
    using exec_endpoint_trace [OF assms(1,2,5-7)] by blast
  have run: "run_endpoint sv dc sd out status ka origin
    = (a # done_events (rv_shim_bg raw) @ done_events (rv_background raw) @ done_events (di_tasks dc sd out), Inr ())"
    using a tasks_done [OF assms(8)] tasks_done [OF assms(9)] by (simp add: run_endpoint_def done_events_def)
  obtain cors where cors: "async_cors sv origin = Inr cors" using well_served_cors [OF assms(1)] by blast
  show ?thesis
    using a(1) assms(3,4,10) run cors
    by (auto simp: handle_async_di_def Let_def guarded_def finally_end_def with_stack_def exits_of_def exc_of_def exit_order_def
        split: option.splits di_stack.splits)
qed

definition example_deps :: solved_deps where
  "example_deps = \<lparr>sd_values = [], sd_errs = [], sd_tasks = Some [(5, None)], sd_response = None, sd_stacks = Some (OneStack [(1, id), (2, id)])\<rparr>"

definition example_call :: di_call where
  "example_call = \<lparr>dc_kwargs = [], dc_bg_param = None, dc_raw_headers = [], dc_method = [], dc_path = []\<rparr>"

definition example_out :: endpoint_out where
  "example_out = \<lparr>eo_result = Inr (plain_result (RPlain (VInt 1))), eo_mutate = id, eo_added = []\<rparr>"

theorem di_request_trace_witness:
  "\<exists>a. is_answer a \<and> handle_async_di example_server example_call (Inr example_deps) (\<lambda>k. example_out) 200 True []
     = ([a, Ran (TaskDone 5), Ran (ExitRequest 2), Ran (ExitRequest 1), Ended], Inr ())"
proof -
  let ?raw = "plain_result (RPlain (VInt 1))"
  have out: "eo_result example_out = Inr ?raw" by (simp add: example_out_def)
  have di: "di_tasks example_call example_deps example_out = Some [(5, None)]" by (simp add: di_tasks_def example_call_def example_deps_def)
  have ex: "exits_of (sd_stacks example_deps) = [(1, id), (2, id)]" by (simp add: exits_of_def example_deps_def)
  have "sv_dispatchers example_server = []" "sd_errs example_deps = []" by (simp_all add: example_server_def example_deps_def)
  moreover have "\<not> interrupted (rv_value ?raw)" "tasks_succeed (rv_shim_bg ?raw)" "tasks_succeed (rv_background ?raw)" "tasks_succeed (di_tasks example_call example_deps example_out)"
    by (simp_all add: plain_result_def interrupted_def tasks_succeed_def di)
  moreover have "unwind (exits_of (sd_stacks example_deps)) None = None" by (simp add: ex unwind_def)
  ultimately show ?thesis
    using di_request_trace [OF example_server_serves _ _ refl out, of example_deps example_call 200 True "[]"]
    by (simp add: done_events_def di ex exit_order_def plain_result_def)
qed

subsection \<open>Properties: where requests go unanswered or are answered twice\<close>

text \<open>
  A background task that fails behind the response makes the server write a second response on the same connection.
\<close>

theorem failed_task_answers_twice:
  assumes "well_served sv" and "rv_value raw = RFile r p" and "rv_background raw = Some [(i, Some e)]" and "catchable e"
  shows "\<exists>ev. handle_stream sv raw ka origin = (ev @ [Ended], Inr ()) \<and> answers ev = 2"
proof -
  obtain cors where cors: "async_cors sv origin = Inr cors" using well_served_cors [OF assms(1)] by blast
  obtain ev where "dispatch_exception sv e ka = (ev, Inr ())" "answered ev" using dispatch_answers [OF assms(1)] by blast
  then show ?thesis
    using assms cors
    by (simp add: handle_stream_def write_stream_def optional_tasks_def lift_ev_def guarded_def finally_end_def answered_def Let_def)
qed

theorem failed_task_answers_twice_witness:
  "\<exists>ev. handle_stream example_server
      \<lparr>rv_value = RFile \<lparr>r_status = 200, r_media = None, r_body = [], r_raw = [], r_background = True\<rparr> [], rv_background = Some [(4, Some OSError)],
       rv_shim_bg = None, rv_stack = None, rv_mw_ran = False\<rparr> True [] = (ev @ [Ended], Inr ()) \<and> answers ev = 2"
  by (rule failed_task_answers_twice [OF example_server_serves, of _ "\<lparr>r_status = 200, r_media = None, r_body = [], r_raw = [], r_background = True\<rparr>" "[]" 4 OSError])
    (simp_all add: catchable_def)

text \<open>An exception handler that fails leaves the request without an answer.\<close>

lemma failing_handler_no_answer:
  assumes "exception_handler sv e = Some h" and "h e = Inl e'" and "catchable e'" and "async_cors sv (context_origin sv) = Inr cors"
  shows "snd (dispatch_exception sv e ka) = Inr () \<and> answers (fst (dispatch_exception sv e ka)) = 0"
  using assms by (simp add: dispatch_exception_def handled_def swallow_def store_if_def)

text \<open>
  Without a registered handler an \<open>HTTPException\<close> with headers is not answered: the exception is replaced by a \<open>TypeError\<close>,
  since the headers are given to the core as bytes; a validation error is answered with 500 and not with 422 for the same reason.
\<close>

theorem http_exception_headers_lost:
  assumes "sv_up sv AtDispatch" and "async_cors sv (context_origin sv) = Inr cors" and "exception_handler sv e = None"
    and "is_instance (sv_classes sv) e ''HTTPException''" and "sv_exc_headers sv e = Some (h # hs)"
    and "kf_dumps (sv_core sv) (kf_detail (sv_core sv) e) = Inr body" and "encode_exc_headers (h # hs) = Inr hb"
  shows "dispatch_exception sv e ka = ([], Inl (TypeError (S ''bad argument type for built-in operation'')))"
  using assms by (simp add: dispatch_exception_def builtin_response_def http_exception_response_def Let_def parts_of_bytes_fail)

definition unregistered_server :: server_env where
  "unregistered_server = example_server\<lparr>sv_handlers := [], sv_exc_headers := (\<lambda>e. Some [(S ''WWW-Authenticate'', S ''Bearer'')])\<rparr>"

theorem http_exception_headers_lost_witness:
  "dispatch_exception unregistered_server (HTTPException 401 DNone (Some [(S ''WWW-Authenticate'', S ''Bearer'')])) True
     = ([], Inl (TypeError (S ''bad argument type for built-in operation'')))"
proof -
  let ?e = "HTTPException 401 DNone (Some [(S ''WWW-Authenticate'', S ''Bearer'')])"
  have no: "lookup_mro cs [] = None" for cs :: "pyclass list" by (induction cs) auto
  have up: "sv_up unregistered_server AtDispatch" "async_cors unregistered_server (context_origin unregistered_server) = Inr []"
    "sv_exc_headers unregistered_server ?e = Some [(S ''WWW-Authenticate'', S ''Bearer'')]"
    "is_instance (sv_classes unregistered_server) ?e ''HTTPException''"
    "kf_dumps (sv_core unregistered_server) (kf_detail (sv_core unregistered_server) ?e) = Inr ''null''"
    by (simp_all add: unregistered_server_def example_server_def example_core_def async_cors_def is_instance_def)
  have none: "exception_handler unregistered_server ?e = None"
    by (simp add: exception_handler_def unregistered_server_def example_server_def dict_update_def no)
  have "encode_exc_headers [(S ''WWW-Authenticate'', S ''Bearer'')] = Inr [(HB ''WWW-Authenticate'', HB ''Bearer'')]"
    by (simp add: encode_exc_headers_def)
  from http_exception_headers_lost [OF up(1,2) none up(4,3,5) this] show ?thesis .
qed

lemma validation_error_unregistered:
  assumes "sv_up sv AtDispatch" and "async_cors sv (context_origin sv) = Inr []" and "exception_handler sv e = None"
    and "\<not> is_instance (sv_classes sv) e ''HTTPException''" and "sv_route_ctx sv = None" and "\<not> sv_raise sv"
    and "\<not> is_instance (sv_classes sv) e ''ResponseValidationError''" and "\<And>es. \<exists>b. kf_error_body (sv_core sv) es = Inr b"
  shows "dispatch_exception sv e ka = ([Wrote http_500], Inr ())"
proof -
  have att: "attempt (error_list_response sv cors es ka) = ([], Inr False)" for es cors
    using assms(8) [of es] error_list_fails by metis
  have "add_context (sv_route_ctx sv) (sv_context sv) e = e" by (simp add: assms(5))
  then show ?thesis
    using assms(1-4,6,7) by (simp add: dispatch_exception_def builtin_response_def Let_def att unhandled_response_def store_if_def with_cors_def)
qed

text \<open>
  Behind HTTP middleware no background task runs, and the data of a stream is not written: the response has an empty body.
\<close>

lemma middleware_runs_no_tasks: "Ran x \<notin> set (fst (run_http_middleware sv raw extra st ka rh m p))"
  by (auto simp: run_http_middleware_def write_final_def lbind_def Let_def split: sum.splits prod.splits option.splits)

lemma middleware_drops_stream:
  assumes "rv_value final = RStream r cs stop" and "sv_up sv AtMiddleware"
    and "build_response_from_parts (r_status r) (text_headers (r_raw r)) [] ka = Inr b"
  shows "write_final sv final st ka = ([Wrote b], Inr ())"
  using assms by (simp add: write_final_def response_part_def)

text \<open>If a dependency reports an error, the exit callbacks of those that were entered before it do not run.\<close>

lemma errors_leave_generators_open:
  assumes "sd_errs sd \<noteq> []" and "async_cors sv origin = Inr cors" and "kf_build (sv_core sv) (kf_errors (sv_core sv) (sd_errs sd)) 422 ka = Inr (Some b)"
  shows "Ran x \<notin> set (fst (handle_async_di sv dc (Inr sd) ep st ka origin))"
  using assms inject_bytes_total [of "[]" b]
  by (auto simp: handle_async_di_def guarded_def finally_end_def write_if_def with_cors_def)

end
