(* ===== verification/HttpBuffer.thy ===== *)
theory HttpBuffer
  imports Py_Prelude
begin

text \<open>
  The receive buffer of a connection, \<open>HttpConnectionBuffer\<close> of \<open>app.cpp\<close>: an array with two offsets that is compacted
  when more than half of it was read and doubled, up to 16 MB, when it is full. The interface a connection relies on is a locale
  over the bytes that are in the buffer; it is interpreted on the array and on the plain list of bytes.
  Memory is a function on offsets, so that a write behind the end of the array can be seen; \<open>realloc\<close> does not fail here, and
  offsets stay far below the width of \<open>size_t\<close>.
\<close>

subsection \<open>The array\<close>

record hbuf =
  hb_cells :: "nat \<Rightarrow> char"
  hb_cap :: nat
  hb_read :: nat
  hb_write :: nat

definition initial_capacity :: nat where
  "initial_capacity = 1024"

definition max_capacity :: nat where
  "max_capacity = 16777216"

definition hbuf_new :: "(nat \<Rightarrow> char) \<Rightarrow> hbuf" where
  "hbuf_new garbage = \<lparr>hb_cells = garbage, hb_cap = initial_capacity, hb_read = 0, hb_write = 0\<rparr>"

definition memcpy_to :: "nat \<Rightarrow> bytes \<Rightarrow> (nat \<Rightarrow> char) \<Rightarrow> nat \<Rightarrow> char" where
  "memcpy_to pos data m = (\<lambda>i. if pos \<le> i \<and> i < pos + length data then data ! (i - pos) else m i)"

definition hbuf_size :: "hbuf \<Rightarrow> nat" where
  "hbuf_size b = hb_write b - hb_read b"

definition hbuf_data :: "hbuf \<Rightarrow> bytes" where
  "hbuf_data b = map (hb_cells b) [hb_read b..<hb_write b]"

function double_until :: "nat \<Rightarrow> nat \<Rightarrow> nat" where
  "double_until c target = (if c < target \<and> 0 < c then double_until (2 * c) target else c)"
  by pat_completeness auto
termination by (relation "measure (\<lambda>(c, target). target - c)") auto

declare double_until.simps [simp del]

definition compacted :: "hbuf \<Rightarrow> hbuf" where
  "compacted b =
     (if hb_cap b div 2 < hb_read b
      then b\<lparr>hb_cells := memcpy_to 0 (hbuf_data b) (hb_cells b), hb_write := hbuf_size b, hb_read := 0\<rparr> else b)"

definition grown :: "nat \<Rightarrow> hbuf \<Rightarrow> hbuf" where
  "grown n b =
     (if hb_cap b < hb_write b + n then b\<lparr>hb_cap := min max_capacity (double_until (hb_cap b) (hb_write b + n))\<rparr> else b)"

text \<open>\<open>ensure_writable\<close> and \<open>append\<close>; \<open>None\<close> is the result \<open>false\<close>.\<close>

definition ensure_writable :: "nat \<Rightarrow> hbuf \<Rightarrow> hbuf option" where
  "ensure_writable n b = (if max_capacity < hbuf_size b + n then None else Some (grown n (compacted b)))"

definition hbuf_append :: "bytes \<Rightarrow> hbuf \<Rightarrow> hbuf option" where
  "hbuf_append data b =
     (if max_capacity < hbuf_size b + length data then None
      else (let c = grown (length data) (compacted b)
            in Some (c\<lparr>hb_cells := memcpy_to (hb_write c) data (hb_cells c), hb_write := hb_write c + length data\<rparr>)))"

definition hbuf_consume :: "nat \<Rightarrow> hbuf \<Rightarrow> hbuf" where
  "hbuf_consume n b =
     (if hb_write b \<le> hb_read b + n then b\<lparr>hb_read := 0, hb_write := 0\<rparr> else b\<lparr>hb_read := hb_read b + n\<rparr>)"

definition hbuf_clear :: "hbuf \<Rightarrow> hbuf" where
  "hbuf_clear b =
     b\<lparr>hb_read := 0, hb_write := 0, hb_cap := (if initial_capacity * 4 < hb_cap b then initial_capacity else hb_cap b)\<rparr>"

subsection \<open>The buffer as a list of bytes\<close>

definition http_buf_append :: "bytes \<Rightarrow> bytes \<Rightarrow> bytes option" where
  "http_buf_append data buf = (if max_capacity < length buf + length data then None else Some (buf @ data))"

subsection \<open>The interface\<close>

locale receive_buffer =
  fixes ok :: "'b \<Rightarrow> bool" and bytes_of :: "'b \<Rightarrow> bytes" and app :: "bytes \<Rightarrow> 'b \<Rightarrow> 'b option"
    and consume :: "nat \<Rightarrow> 'b \<Rightarrow> 'b" and clear :: "'b \<Rightarrow> 'b"
  assumes app_refused: "ok b \<Longrightarrow> app d b = None \<longleftrightarrow> max_capacity < length (bytes_of b) + length d"
    and app_taken: "ok b \<Longrightarrow> app d b = Some b' \<Longrightarrow> ok b' \<and> bytes_of b' = bytes_of b @ d"
    and consumed: "ok b \<Longrightarrow> ok (consume n b) \<and> bytes_of (consume n b) = drop n (bytes_of b)"
    and cleared: "ok b \<Longrightarrow> ok (clear b) \<and> bytes_of (clear b) = []"
begin

lemma append_is_list_append: "ok b \<Longrightarrow> map_option bytes_of (app d b) = http_buf_append d (bytes_of b)"
  using app_refused[of b d] app_taken[of b d] by (cases "app d b") (auto simp: http_buf_append_def)

lemma append_bounded: "ok b \<Longrightarrow> app d b = Some b' \<Longrightarrow> length (bytes_of b') \<le> max_capacity"
  using app_refused[of b d] app_taken[of b d b'] by auto

text \<open>What was appended and consumed piece by piece can be appended and consumed at once.\<close>

lemma appended_twice:
  assumes "ok b" and "app d b = Some b'" and "app e b' = Some b''"
  shows "bytes_of b'' = bytes_of b @ d @ e" and "\<exists>c. app (d @ e) b = Some c \<and> bytes_of c = bytes_of b''"
proof -
  have 1: "ok b'" "bytes_of b' = bytes_of b @ d" using app_taken[OF assms(1,2)] by auto
  have 2: "bytes_of b'' = bytes_of b' @ e" using app_taken[OF 1(1) assms(3)] by auto
  show *: "bytes_of b'' = bytes_of b @ d @ e" using 1 2 by simp
  have "app (d @ e) b \<noteq> None" using app_refused[OF assms(1), of "d @ e"] app_refused[OF 1(1), of e] assms(3) 1(2) by auto
  then obtain c where c: "app (d @ e) b = Some c" by auto
  then show "\<exists>c. app (d @ e) b = Some c \<and> bytes_of c = bytes_of b''" using app_taken[OF assms(1) c] * by simp
qed

lemma consumed_twice: "ok b \<Longrightarrow> bytes_of (consume m (consume n b)) = drop (n + m) (bytes_of b)"
  using consumed[of b n] consumed[of "consume n b" m] by (simp add: add.commute)

end

interpretation lb: receive_buffer "\<lambda>b. True" "\<lambda>b. b" http_buf_append drop "\<lambda>b. []"
  by unfold_locales (auto simp: http_buf_append_def split: if_splits)

subsection \<open>The array implements the interface\<close>

text \<open>\<open>hb_ok\<close> does not say that the written part is inside of the array: see below.\<close>

definition hb_ok :: "hbuf \<Rightarrow> bool" where
  "hb_ok b \<longleftrightarrow> hb_read b \<le> hb_write b \<and> 0 < hb_cap b \<and> hb_cap b \<le> max_capacity"

definition inside :: "hbuf \<Rightarrow> bool" where
  "inside b \<longleftrightarrow> hb_write b \<le> hb_cap b"

lemma length_hbuf_data: "length (hbuf_data b) = hbuf_size b"
  by (simp add: hbuf_data_def hbuf_size_def)

lemma double_until_ge: "0 < c \<Longrightarrow> target \<le> double_until c target \<and> c \<le> double_until c target"
proof (induction c target rule: double_until.induct)
  case (1 c target)
  show ?case
  proof (cases "c < target")
    case True
    then have "target \<le> double_until (2 * c) target \<and> 2 * c \<le> double_until (2 * c) target" using 1 by auto
    then show ?thesis using True 1(2) by (subst (1 2) double_until.simps) auto
  qed (subst (1 2) double_until.simps, auto)
qed

lemma map_memcpy_read: "map (memcpy_to pos data m) [pos..<pos + length data] = data"
  by (rule nth_equalityI) (auto simp: memcpy_to_def)

lemma map_memcpy_before: "e \<le> pos \<Longrightarrow> map (memcpy_to pos data m) [a..<e] = map m [a..<e]"
  by (auto simp: memcpy_to_def)

lemma compacted_data: "hb_ok b \<Longrightarrow> hbuf_data (compacted b) = hbuf_data b \<and> hb_ok (compacted b)"
  using map_memcpy_read[of 0 "hbuf_data b" "hb_cells b"]
  by (auto simp: compacted_def hb_ok_def hbuf_size_def length_hbuf_data) (simp add: hbuf_data_def)

lemma grown_data: "hb_ok b \<Longrightarrow> hbuf_data (grown n b) = hbuf_data b \<and> hb_ok (grown n b)"
proof -
  assume "hb_ok b"
  moreover have "0 < min max_capacity (double_until (hb_cap b) (hb_write b + n))" if "0 < hb_cap b"
    using double_until_ge[OF that, of "hb_write b + n"] that by (simp add: max_capacity_def)
  ultimately show ?thesis by (simp add: grown_def hb_ok_def hbuf_data_def)
qed

lemma append_data:
  assumes "hb_ok b" and "hbuf_append d b = Some b'"
  shows "hb_ok b' \<and> hbuf_data b' = hbuf_data b @ d"
proof -
  let ?c = "grown (length d) (compacted b)"
  have c: "hbuf_data ?c = hbuf_data b" "hb_ok ?c" using compacted_data[OF assms(1)] grown_data by auto
  have b': "b' = ?c\<lparr>hb_cells := memcpy_to (hb_write ?c) d (hb_cells ?c), hb_write := hb_write ?c + length d\<rparr>"
    using assms(2) by (simp add: hbuf_append_def Let_def split: if_splits)
  have le: "hb_read ?c \<le> hb_write ?c" using c(2) by (simp add: hb_ok_def)
  have "[hb_read ?c..<hb_write ?c + length d] = [hb_read ?c..<hb_write ?c] @ [hb_write ?c..<hb_write ?c + length d]"
    using upt_add_eq_append[OF le] by blast
  then have "hbuf_data b' = hbuf_data ?c @ d"
    by (simp add: b' hbuf_data_def map_memcpy_read map_memcpy_before)
  then show ?thesis using c le by (simp add: b' hb_ok_def)
qed

interpretation hb: receive_buffer hb_ok hbuf_data hbuf_append hbuf_consume hbuf_clear
proof unfold_locales
  fix b d assume "hb_ok b"
  then show "hbuf_append d b = None \<longleftrightarrow> max_capacity < length (hbuf_data b) + length d"
    by (simp add: hbuf_append_def length_hbuf_data Let_def)
next
  fix b d b' assume "hb_ok b" "hbuf_append d b = Some b'"
  then show "hb_ok b' \<and> hbuf_data b' = hbuf_data b @ d" by (rule append_data)
next
  fix b n assume "hb_ok b"
  then show "hb_ok (hbuf_consume n b) \<and> hbuf_data (hbuf_consume n b) = drop n (hbuf_data b)"
    by (auto simp: hbuf_consume_def hb_ok_def hbuf_data_def drop_map)
next
  fix b assume "hb_ok b"
  then show "hb_ok (hbuf_clear b) \<and> hbuf_data (hbuf_clear b) = []"
    by (auto simp: hbuf_clear_def hb_ok_def hbuf_data_def initial_capacity_def max_capacity_def)
qed

text \<open>Exactly when an append stays inside of the array: what is in the compacted array and the new data must fit together.\<close>

lemma grown_inside:
  assumes "hb_ok b" and "inside b"
  shows "hb_write (grown n b) + n \<le> hb_cap (grown n b) \<longleftrightarrow> hb_write b + n \<le> max_capacity"
proof -
  have "hb_write b + n \<le> double_until (hb_cap b) (hb_write b + n)"
    using assms double_until_ge[of "hb_cap b"] by (simp add: hb_ok_def)
  then show ?thesis using assms by (auto simp: grown_def hb_ok_def)
qed

lemma compacted_inside: "hb_ok b \<Longrightarrow> inside b \<Longrightarrow> inside (compacted b)"
  by (auto simp: compacted_def inside_def hbuf_size_def)

lemma append_inside:
  assumes "hb_ok b" and "inside b" and "hbuf_append d b = Some b'"
  shows "inside b' \<longleftrightarrow> hb_write (compacted b) + length d \<le> max_capacity"
  using assms grown_inside[of "compacted b" "length d"] compacted_data[of b] compacted_inside[of b]
  by (auto simp: hbuf_append_def Let_def inside_def split: if_splits)

text \<open>Nothing is lost when the array was read from the start, or more than half of it was read.\<close>

lemma append_inside_safe:
  assumes "hb_ok b" and "inside b" and "hbuf_append d b = Some b'" and "hb_read b = 0 \<or> hb_cap b div 2 < hb_read b"
  shows "inside b'"
proof -
  have "hbuf_size b + length d \<le> max_capacity" using assms(3) by (simp add: hbuf_append_def Let_def split: if_splits)
  moreover have "hb_write (compacted b) = hbuf_size b" using assms(4) by (auto simp: compacted_def hbuf_size_def)
  ultimately show ?thesis using append_inside[OF assms(1,2,3)] by simp
qed

text \<open>
  C30: The receive buffer of the C++ core holds exactly the bytes that were received and not yet consumed: its append,
  consume and clear are those of a list of bytes with the limit of 16 MB, whatever was compacted or moved in between, and
  an append stays inside of the array if, and only if, the offset it starts at plus its length are within the limit, which
  is so whenever nothing or more than half of the array was read.
\<close>

theorem buffer_refines_list:
  assumes "hb_ok b"
  shows "map_option hbuf_data (hbuf_append d b) = http_buf_append d (hbuf_data b)
    \<and> hbuf_data (hbuf_consume n b) = drop n (hbuf_data b) \<and> hbuf_data (hbuf_clear b) = []
    \<and> (inside b \<and> hbuf_append d b = Some b' \<longrightarrow>
         (inside b' \<longleftrightarrow> hb_write (compacted b) + length d \<le> max_capacity)
         \<and> (hb_read b = 0 \<or> hb_cap b div 2 < hb_read b \<longrightarrow> inside b'))"
  using hb.append_is_list_append[OF assms] hb.consumed[OF assms] hb.cleared[OF assms] append_inside[OF assms] append_inside_safe[OF assms]
  by blast

theorem buffer_refines_list_witness:
  "map_option hbuf_data (hbuf_append ''abc'' (hbuf_new (\<lambda>i. CHR ''x''))) = http_buf_append ''abc'' (hbuf_data (hbuf_new (\<lambda>i. CHR ''x'')))
   \<and> http_buf_append ''abc'' (hbuf_data (hbuf_new (\<lambda>i. CHR ''x''))) = Some ''abc''"
  using buffer_refines_list[of "hbuf_new (\<lambda>i. CHR ''x'')" "''abc''"]
  by (simp add: hb_ok_def hbuf_new_def initial_capacity_def max_capacity_def http_buf_append_def hbuf_data_def)

text \<open>
  The check for the limit counts the bytes in the buffer, but the copy starts behind those already consumed, and the
  capacity is cut to the limit: a request of 100 bytes, answered, followed by the start of one that fills the array, lets the next
  40 bytes be written behind its end.
\<close>

lemma append_overruns:
  assumes "b1 = hbuf_consume 100 c" and "hbuf_append d (hbuf_new garbage) = Some c" and "length d = max_capacity - 10" and "length e = 50"
  shows "\<exists>b2. hbuf_append e b1 = Some b2 \<and> inside b1 \<and> hb_write b2 = hb_cap b2 + 40"
proof -
  have new: "hb_ok (hbuf_new garbage)" "inside (hbuf_new garbage)" "hb_read (hbuf_new garbage) = 0" "hb_write (hbuf_new garbage) = 0"
    by (auto simp: hb_ok_def inside_def hbuf_new_def initial_capacity_def max_capacity_def)
  have c: "hb_ok c" "inside c" using append_data[OF new(1) assms(2)] append_inside_safe[OF new(1,2) assms(2)] new(3) by auto
  have len: "length d = 16777206" using assms(3) by (simp add: max_capacity_def)
  have cap: "16777206 \<le> hb_cap c" "hb_cap c \<le> 16777216"
    and cw: "hb_write c = 16777206" "hb_read c = 0"
    using c assms(2) len by (auto simp: hbuf_append_def Let_def grown_def compacted_def hbuf_new_def hb_ok_def inside_def max_capacity_def split: if_splits)
  have b1: "hb_write b1 = 16777206" "hb_read b1 = 100" "hb_cap b1 = hb_cap c" using assms(1) cw by (auto simp: hbuf_consume_def)
  have ok1: "hb_ok b1" "inside b1" using b1 c cw by (auto simp: hb_ok_def inside_def)
  have nocompact: "compacted b1 = b1" using b1 cap by (simp add: compacted_def)
  have "16777256 \<le> double_until (hb_cap b1) 16777256" using double_until_ge[of "hb_cap b1"] ok1 by (simp add: hb_ok_def)
  then have "hb_cap (grown 50 b1) = 16777216" using b1 cap by (simp add: grown_def max_capacity_def)
  then show ?thesis using b1 ok1 assms(4) nocompact
    by (simp add: hbuf_append_def Let_def hbuf_size_def max_capacity_def) (simp add: grown_def)
qed

text \<open>
  C31: Bytes a client sends can be written behind the end of the receive buffer: after a request that fits, answered and consumed,
  and almost 16 MB of the next, the check for the limit accepts 50 bytes more, of which 40 are behind the array.
\<close>

theorem buffer_overrun:
  "\<exists>b1 b2. hbuf_append (replicate (max_capacity - 10) x) (hbuf_new garbage) = Some b1 \<and> inside (hbuf_consume 100 b1)
     \<and> hbuf_append (replicate 50 y) (hbuf_consume 100 b1) = Some b2 \<and> hb_write b2 = hb_cap b2 + 40"
proof -
  have "hbuf_append (replicate (max_capacity - 10) x) (hbuf_new garbage) \<noteq> None"
    by (simp add: hbuf_append_def hbuf_size_def hbuf_new_def Let_def)
  then obtain b1 where "hbuf_append (replicate (max_capacity - 10) x) (hbuf_new garbage) = Some b1" by auto
  then show ?thesis using append_overruns[OF refl, of "replicate (max_capacity - 10) x" garbage b1 "replicate 50 y"] by auto
qed

end
