(* ===== verification/HttpConnection.thy ===== *)
theory HttpConnection
  imports HttpWire HttpBuffer WsServer
begin

text \<open>
  The life of a connection in \<open>_cpp_server.py\<close>: \<open>CppHttpProtocol\<close> (construction, reuse from the pool, received data,
  back-pressure, upgrade to WebSocket, loss) and the state shared by all connections of a server (the counter of
  connections, the limit, the pressure flag, the sweep of idle connections, the drain at shutdown). The C++ core's loop over the buffered requests is modelled;
  what it does with one request (\<open>dispatch_one_request\<close>) is a parameter: a function of the bytes. Times are integers; the counters of metrics and socket options are left out.
\<close>

subsection \<open>The state of a connection\<close>

text \<open>
  \<open>pr_pending\<close> are the tasks of the connection that are not done. A WebSocket carries the transport with
  it (\<open>cw_transport\<close>); otherwise it is \<open>pr_transport\<close>.
\<close>

record proto =
  pr_transport :: "transport option"
  pr_buf :: bytes
  pr_deadline :: int
  pr_timeout :: int
  pr_needs_reset :: bool
  pr_paused :: bool
  pr_ws :: "cpp_ws option"
  pr_ring :: bool
  pr_ping :: bool
  pr_pong :: bool
  pr_ws_task :: bool
  pr_pending :: "nat list"
  pr_needs_ctx :: bool
  pr_ctx :: req_ctx

definition proto_init :: "int \<Rightarrow> bool \<Rightarrow> proto" where
  "proto_init timeout needs_ctx =
     \<lparr>pr_transport = None, pr_buf = [], pr_deadline = 0, pr_timeout = timeout, pr_needs_reset = False, pr_paused = False, pr_ws = None,
      pr_ring = False, pr_ping = False, pr_pong = True, pr_ws_task = False, pr_pending = [], pr_needs_ctx = needs_ctx, pr_ctx = no_request\<rparr>"

text \<open>\<open>_reinit\<close>. The context variables belong to the callbacks of the new transport and start with their defaults.\<close>

definition proto_reinit :: "int \<Rightarrow> bool \<Rightarrow> proto \<Rightarrow> proto" where
  "proto_reinit timeout needs_ctx p =
     p\<lparr>pr_timeout := timeout, pr_transport := None, pr_buf := [], pr_deadline := 0, pr_needs_reset := False, pr_paused := False,
       pr_ws := None, pr_ring := False, pr_ping := False, pr_pong := True, pr_ws_task := False, pr_pending := [],
       pr_needs_ctx := needs_ctx, pr_ctx := no_request\<rparr>"

definition transport_of :: "proto \<Rightarrow> transport option" where
  "transport_of p =
     (case pr_transport p of None \<Rightarrow> None | Some t \<Rightarrow> (case pr_ws p of None \<Rightarrow> Some t | Some w \<Rightarrow> Some (cw_transport w)))"

definition is_open :: "proto \<Rightarrow> bool" where
  "is_open p \<longleftrightarrow> (case transport_of p of None \<Rightarrow> False | Some t \<Rightarrow> \<not> tr_closing t)"

definition on_transport :: "(transport \<Rightarrow> transport) \<Rightarrow> proto \<Rightarrow> proto" where
  "on_transport f p =
     (case pr_ws p of
        None \<Rightarrow> p\<lparr>pr_transport := map_option f (pr_transport p)\<rparr>
      | Some w \<Rightarrow> p\<lparr>pr_ws := Some (w\<lparr>cw_transport := f (cw_transport w)\<rparr>)\<rparr>)"

definition tr_close :: "transport \<Rightarrow> transport" where
  "tr_close t = t\<lparr>tr_closing := True\<rparr>"

definition close_transport :: "proto \<Rightarrow> proto" where
  "close_transport p = on_transport tr_close p"

definition refuse_data :: "bytes \<Rightarrow> proto \<Rightarrow> proto" where
  "refuse_data b p = (if is_open p then on_transport (tr_close \<circ> tr_write b) p else p)"

definition clear_buf :: "proto \<Rightarrow> proto" where
  "clear_buf p = p\<lparr>pr_buf := []\<rparr>"

subsection \<open>The buffer and the core\<close>

text \<open>
  What one request gives: it was answered, it is incomplete, it is malformed (answered with 400), or it is work for Python;
  with the bytes it took. What the core returns: a number (0: all complete requests were answered and nothing is left, 1: part of
  a request is left, -1: more data is needed, -2: parse error, -3: overflow), work for Python (a task, and whether it
  was done when it was created), an upgrade to WebSocket and whether there is a route for it, or one of the constants.
\<close>

datatype core_result = CoreInt int | CoreTask nat bool | CoreSocket bool | CoreTrue | CoreNone | CoreFalse

datatype one_result = OneDone nat "bytes list" | OneMore | OneBad "bytes list" | OneWork nat core_result | OneOther core_result

record conn_env =
  ce_one :: "bytes \<Rightarrow> one_result"
  ce_fused :: bool
  ce_max_body :: nat
  ce_overrides :: bool
  ce_close_frame :: bytes
  ce_frames :: "bytes \<Rightarrow> cpp_ws \<Rightarrow> cpp_ws"

text \<open>
  The loop of \<open>handle_http_batch_v2\<close> and \<open>handle_http_append_and_dispatch\<close>: its result, what is left of the
  buffer, and what was written. It runs forever on a request that takes no bytes.
\<close>

partial_function (option) request_loop ::
  "(bytes \<Rightarrow> one_result) \<Rightarrow> bytes \<Rightarrow> nat \<Rightarrow> bytes list \<Rightarrow> (core_result \<times> bytes \<times> bytes list) option" where
  "request_loop one raw prefix out =
     (case one (drop prefix raw) of
        OneDone n ws \<Rightarrow> request_loop one raw (prefix + n) (out @ ws)
      | OneMore \<Rightarrow>
          Some (if 0 < prefix then (CoreInt (if drop prefix raw \<noteq> [] then 1 else 0), drop prefix raw, out) else (CoreInt (-1), raw, out))
      | OneBad ws \<Rightarrow> Some (CoreInt (-2), drop prefix raw, out @ ws)
      | OneWork n r \<Rightarrow> Some (r, drop (prefix + n) raw, out)
      | OneOther r \<Rightarrow> Some (r, raw, out))"

definition core_batch :: "(bytes \<Rightarrow> one_result) \<Rightarrow> bytes \<Rightarrow> (core_result \<times> bytes \<times> bytes list) option" where
  "core_batch one raw = (if raw = [] then Some (CoreInt (-1), [], []) else request_loop one raw 0 [])"

definition run_core :: "conn_env \<Rightarrow> proto \<Rightarrow> (core_result \<times> proto) option" where
  "run_core env p =
     map_option (\<lambda>(r, rest, ws). (r, on_transport (fold tr_write ws) (p\<lparr>pr_buf := rest\<rparr>))) (core_batch (ce_one env) (pr_buf p))"

definition append_and_dispatch :: "conn_env \<Rightarrow> bytes \<Rightarrow> proto \<Rightarrow> (core_result \<times> proto) option" where
  "append_and_dispatch env data p =
     (case http_buf_append data (pr_buf p) of None \<Rightarrow> Some (CoreInt (-3), p) | Some b \<Rightarrow> run_core env (p\<lparr>pr_buf := b\<rparr>))"

definition payload_too_large :: bytes where
  "payload_too_large = ''HTTP/1.1 413 Payload Too Large'' @ CRLF @ ''content-length: 0'' @ CRLF @ ''connection: close'' @ CRLFCRLF"

definition entity_too_large :: bytes where
  "entity_too_large = ''HTTP/1.1 413 Request Entity Too Large'' @ CRLF @ ''content-length: 0'' @ CRLF @ ''connection: close'' @ CRLFCRLF"

subsection \<open>Received data\<close>

definition add_task :: "nat \<Rightarrow> bool \<Rightarrow> proto \<Rightarrow> proto" where
  "add_task t finished p = (if finished then p else p\<lparr>pr_pending := t # pr_pending p\<rparr>)"

text \<open>The upgrade: bytes that are left in the buffer are frames that arrived with it.\<close>

definition upgrade :: "conn_env \<Rightarrow> proto \<Rightarrow> proto" where
  "upgrade env p =
     (case pr_transport p of
        None \<Rightarrow> p
      | Some t \<Rightarrow>
          (let rest = pr_buf p; w = cw_init t
           in p\<lparr>pr_ws := Some (if rest = [] then w else ce_frames env rest w), pr_deadline := 0, pr_ring := True,
                pr_pong := True, pr_ping := True, pr_ws_task := True, pr_buf := []\<rparr>))"

definition add_work :: "core_result \<Rightarrow> proto \<Rightarrow> proto" where
  "add_work r p = (case r of CoreTask t finished \<Rightarrow> add_task t finished p | _ \<Rightarrow> p)"

partial_function (option) dispatch_loop :: "conn_env \<Rightarrow> core_result \<Rightarrow> proto \<Rightarrow> proto option" where
  "dispatch_loop env r p =
     (if r = CoreTrue \<or> r = CoreSocket False then Some (clear_buf (refuse_data (ce_close_frame env) p))
      else if r = CoreSocket True then Some (upgrade env p)
      else Option.bind (run_core env (add_work r p)) (\<lambda>rp.
        case fst rp of
          CoreInt n \<Rightarrow>
            Some (if n = 0 then (snd rp)\<lparr>pr_needs_reset := True\<rparr>
                  else if n = -2 then clear_buf (close_transport (snd rp)) else snd rp)
        | CoreNone \<Rightarrow> Some (snd rp)
        | CoreFalse \<Rightarrow> Some (clear_buf (close_transport (snd rp)))
        | _ \<Rightarrow> dispatch_loop env (fst rp) (snd rp)))"

definition after_fused :: "conn_env \<Rightarrow> core_result \<times> proto \<Rightarrow> proto option" where
  "after_fused env rp =
     (case rp of
        (CoreInt n, p) \<Rightarrow>
          Some (if 0 \<le> n then p\<lparr>pr_needs_reset := True\<rparr> else if n = -1 then p
                else if n = -2 then clear_buf (close_transport p) else refuse_data payload_too_large p)
      | (r, p) \<Rightarrow> dispatch_loop env r p)"

definition after_batch :: "conn_env \<Rightarrow> core_result \<times> proto \<Rightarrow> proto option" where
  "after_batch env rp =
     (case rp of
        (CoreInt n, p) \<Rightarrow> Some (if 0 \<le> n then p\<lparr>pr_needs_reset := True\<rparr> else if n = -2 then clear_buf (close_transport p) else p)
      | (CoreNone, p) \<Rightarrow> Some p
      | (CoreFalse, p) \<Rightarrow> Some (clear_buf (close_transport p))
      | (r, p) \<Rightarrow> dispatch_loop env r p)"

definition dispatch_data :: "conn_env \<Rightarrow> bytes \<Rightarrow> proto \<Rightarrow> proto option" where
  "dispatch_data env data p =
     (if ce_fused env then Option.bind (append_and_dispatch env data p) (after_fused env)
      else case http_buf_append data (pr_buf p) of
             None \<Rightarrow> Some (refuse_data payload_too_large p)
           | Some b \<Rightarrow> Option.bind (run_core env (p\<lparr>pr_buf := b\<rparr>)) (after_batch env))"

definition data_received :: "conn_env \<Rightarrow> bytes \<Rightarrow> proto \<Rightarrow> proto option" where
  "data_received env data p =
     (case pr_ws p of
        Some w \<Rightarrow> Some (p\<lparr>pr_pong := True, pr_ws := Some (ce_frames env data w)\<rparr>)
      | None \<Rightarrow>
          if pr_paused p then
            Some (case http_buf_append data (pr_buf p) of None \<Rightarrow> refuse_data payload_too_large p | Some b \<Rightarrow> p\<lparr>pr_buf := b\<rparr>)
          else if pr_transport p = None then Some p
          else if 0 < ce_max_body env \<and> ce_max_body env + 8192 < length (pr_buf p) + length data
          then Some (on_transport (tr_close \<circ> tr_write entity_too_large) p)
          else dispatch_data env data
                 (if pr_needs_ctx p \<or> ce_overrides env then p\<lparr>pr_ctx := parse_context data (pr_ctx p)\<rparr> else p))"

definition pause_writing :: "proto \<Rightarrow> proto" where
  "pause_writing p = p\<lparr>pr_paused := True\<rparr>"

text \<open>The result says whether \<open>_drain_buf\<close> is scheduled.\<close>

definition resume_writing :: "proto \<Rightarrow> bool \<times> proto" where
  "resume_writing p = (pr_buf p \<noteq> [] \<and> is_open p, p\<lparr>pr_paused := False\<rparr>)"

definition drain_buf :: "conn_env \<Rightarrow> proto \<Rightarrow> (bool \<times> proto) option" where
  "drain_buf env p =
     (if pr_paused p \<or> pr_buf p = [] then Some (False, p)
      else map_option (\<lambda>p'. (\<not> pr_paused p' \<and> pr_buf p' \<noteq> [], p')) (data_received env [] p))"

definition task_done :: "nat \<Rightarrow> proto \<Rightarrow> proto" where
  "task_done t p = p\<lparr>pr_pending := removeAll t (pr_pending p)\<rparr>"

definition ka_reset :: "int \<Rightarrow> proto \<Rightarrow> proto" where
  "ka_reset now p = p\<lparr>pr_deadline := now + pr_timeout p\<rparr>"

definition connection_made :: "transport \<Rightarrow> int \<Rightarrow> proto \<Rightarrow> proto" where
  "connection_made t now p = ka_reset now (p\<lparr>pr_transport := Some t\<rparr>)"

text \<open>Returns the tasks that are cancelled, among them that of the WebSocket (\<open>None\<close>).\<close>

definition lost_ws :: "cpp_ws \<Rightarrow> cpp_ws" where
  "lost_ws w =
     (if cw_closed w then w
      else (let v = resolve_close_waiter (w\<lparr>cw_closed := True\<rparr>) in v\<lparr>cw_channel := channel_feed 8 (PBytes []) (cw_channel v)\<rparr>))"

definition connection_lost :: "proto \<Rightarrow> nat option list \<times> proto" where
  "connection_lost p =
     (map Some (pr_pending p) @ (if pr_ws_task p then [None] else []),
      p\<lparr>pr_pending := [], pr_deadline := 0, pr_ping := False, pr_ws_task := False, pr_ws := map_option lost_ws (pr_ws p),
        pr_buf := [], pr_ring := False, pr_transport := None\<rparr>)"

subsection \<open>The server\<close>

text \<open>
  Protocol objects have an identity, since they are reused: \<open>ss_objs\<close> maps it to the object, \<open>ss_active\<close> is the set of
  active connections and \<open>ss_pool\<close> the pool, whose last element is taken first. \<open>ss_client_ip\<close> is the one
  address the core keeps for rate limiting.
\<close>

record server_state =
  ss_objs :: "nat \<Rightarrow> proto"
  ss_next :: nat
  ss_active :: "nat list"
  ss_pool :: "nat list"
  ss_count :: int
  ss_force_close :: bool
  ss_client_ip :: "str option"

record server_config =
  sg_max :: int
  sg_threshold :: int
  sg_pool_max :: nat
  sg_timeout :: int
  sg_needs_ctx :: bool
  sg_rate_limit :: bool

definition pressure_threshold :: "int \<Rightarrow> int" where
  "pressure_threshold max_connections = (if 0 < max_connections then max_connections * 4 div 5 else 16384)"

definition set_obj :: "nat \<Rightarrow> proto \<Rightarrow> server_state \<Rightarrow> server_state" where
  "set_obj i p s = s\<lparr>ss_objs := (ss_objs s)(i := p)\<rparr>"

text \<open>\<open>_ProtocolPool.acquire\<close>, which constructs a protocol if the pool is empty.\<close>

definition acquire_proto :: "server_config \<Rightarrow> server_state \<Rightarrow> nat \<times> server_state" where
  "acquire_proto sg s =
     (if ss_pool s \<noteq> []
      then (let i = last (ss_pool s) in
            (i, set_obj i (proto_reinit (sg_timeout sg) (sg_needs_ctx sg) (ss_objs s i)) (s\<lparr>ss_pool := butlast (ss_pool s)\<rparr>)))
      else (let i = ss_next s in (i, set_obj i (proto_init (sg_timeout sg) (sg_needs_ctx sg)) (s\<lparr>ss_next := i + 1\<rparr>))))"

definition release_proto :: "server_config \<Rightarrow> nat \<Rightarrow> server_state \<Rightarrow> server_state" where
  "release_proto sg i s = (if length (ss_pool s) < sg_pool_max sg then s\<lparr>ss_pool := ss_pool s @ [i]\<rparr> else s)"

fun prewarm :: "server_config \<Rightarrow> nat \<Rightarrow> server_state \<Rightarrow> server_state" where
  "prewarm sg 0 s = s"
| "prewarm sg (Suc n) s =
     prewarm sg n (release_proto sg (ss_next s) (set_obj (ss_next s) (proto_init (sg_timeout sg) (sg_needs_ctx sg)) (s\<lparr>ss_next := ss_next s + 1\<rparr>)))"

definition empty_server :: server_state where
  "empty_server = \<lparr>ss_objs = (\<lambda>i. proto_init 0 False), ss_next = 0, ss_active = [], ss_pool = [], ss_count = 0, ss_force_close = False, ss_client_ip = None\<rparr>"

definition start_server :: "server_config \<Rightarrow> nat \<Rightarrow> server_state" where
  "start_server sg conns = prewarm sg (if sg_max sg = 0 then conns else min conns (nat (sg_max sg))) empty_server"

text \<open>\<open>_protocol_factory\<close>: \<open>None\<close> is the protocol that answers 503 and closes.\<close>

definition protocol_factory :: "server_config \<Rightarrow> server_state \<Rightarrow> nat option \<times> server_state" where
  "protocol_factory sg s =
     (if 0 < sg_max sg \<and> sg_max sg \<le> ss_count s then (None, s)
      else
        (let s1 = s\<lparr>ss_count := ss_count s + 1\<rparr>;
             s2 = (if 0 < sg_threshold sg \<and> sg_threshold sg < ss_count s1 \<and> \<not> ss_force_close s1 then s1\<lparr>ss_force_close := True\<rparr> else s1);
             (i, s3) = acquire_proto sg s2
         in (Some i, s3\<lparr>ss_active := i # ss_active s3\<rparr>)))"

text \<open>A connection is accepted and \<open>connection_made\<close> is called.\<close>

definition accept_connection :: "server_config \<Rightarrow> transport \<Rightarrow> str option \<Rightarrow> int \<Rightarrow> server_state \<Rightarrow> nat option \<times> server_state" where
  "accept_connection sg t peer now s =
     (case protocol_factory sg s of
        (None, s') \<Rightarrow> (None, s')
      | (Some i, s') \<Rightarrow>
          (Some i, (set_obj i (connection_made t now (ss_objs s' i)) s')
             \<lparr>ss_client_ip := (if sg_rate_limit sg \<and> peer \<noteq> None then peer else ss_client_ip s')\<rparr>))"

definition lose_connection :: "server_config \<Rightarrow> nat \<Rightarrow> server_state \<Rightarrow> server_state" where
  "lose_connection sg i s =
     (let s1 = set_obj i (snd (connection_lost (ss_objs s i))) s;
          s2 = s1\<lparr>ss_active := removeAll i (ss_active s1), ss_count := ss_count s1 - 1\<rparr>;
          s3 = (if ss_count s2 \<le> sg_threshold sg \<and> ss_force_close s2 then s2\<lparr>ss_force_close := False\<rparr> else s2)
      in release_proto sg i s3)"

text \<open>The sweep of idle connections; closing is done once all were looked at.\<close>

definition expired :: "int \<Rightarrow> proto \<Rightarrow> bool" where
  "expired now p \<longleftrightarrow> pr_transport p \<noteq> None \<and> \<not> pr_needs_reset p \<and> 0 < pr_deadline p \<and> pr_deadline p < now"

definition sweep_proto :: "int \<Rightarrow> proto \<Rightarrow> proto" where
  "sweep_proto now p =
     (if pr_transport p = None then p
      else if pr_needs_reset p then p\<lparr>pr_needs_reset := False, pr_deadline := now + pr_timeout p\<rparr>
      else if expired now p \<and> is_open p then close_transport p
      else p)"

definition ka_sweep :: "int \<Rightarrow> server_state \<Rightarrow> server_state" where
  "ka_sweep now s = s\<lparr>ss_objs := (\<lambda>i. if i \<in> set (ss_active s) then sweep_proto now (ss_objs s i) else ss_objs s i)\<rparr>"

definition trim_pool :: "server_state \<Rightarrow> server_state" where
  "trim_pool s = (let target = nat (max 64 (ss_count s div 2)) in if length (ss_pool s) \<le> target then s else s\<lparr>ss_pool := take target (ss_pool s)\<rparr>)"

definition close_open :: "proto \<Rightarrow> proto" where
  "close_open p = (if is_open p then close_transport p else p)"

definition signal_handler :: "server_state \<Rightarrow> server_state" where
  "signal_handler s = s\<lparr>ss_objs := (\<lambda>i. if i \<in> set (ss_active s) then close_open (ss_objs s i) else ss_objs s i)\<rparr>"

text \<open>
  The end of the task of a WebSocket (the \<open>finally\<close> of \<open>_handle_websocket_inner\<close>), behind its closing
  handshake: it closes whatever transport the protocol object has then.
\<close>

definition websocket_task_exit :: "nat \<Rightarrow> server_state \<Rightarrow> server_state" where
  "websocket_task_exit i s = set_obj i (close_open (ss_objs s i)) s"

text \<open>What can happen to one connection without the server's bookkeeping.\<close>

inductive conn_step :: "conn_env \<Rightarrow> proto \<Rightarrow> proto \<Rightarrow> bool" for env where
  received: "data_received env d p = Some p' \<Longrightarrow> conn_step env p p'"
| paused: "conn_step env p (pause_writing p)"
| resumed: "conn_step env p (snd (resume_writing p))"
| drained: "drain_buf env p = Some (b, p') \<Longrightarrow> conn_step env p p'"
| finished: "conn_step env p (task_done t p)"

inductive server_step :: "server_config \<Rightarrow> conn_env \<Rightarrow> server_state \<Rightarrow> server_state \<Rightarrow> bool" for sg env where
  accepted: "accept_connection sg t peer now s = (r, s') \<Longrightarrow> server_step sg env s s'"
| lost: "i \<in> set (ss_active s) \<Longrightarrow> server_step sg env s (lose_connection sg i s)"
| activity: "i \<in> set (ss_active s) \<Longrightarrow> conn_step env (ss_objs s i) p \<Longrightarrow> server_step sg env s (set_obj i p s)"
| swept: "server_step sg env s (ka_sweep now s)"
| trimmed: "server_step sg env s (trim_pool s)"
| signalled: "server_step sg env s (signal_handler s)"
| ws_exit: "server_step sg env s (websocket_task_exit i s)"

inductive server_reach :: "server_config \<Rightarrow> conn_env \<Rightarrow> nat \<Rightarrow> server_state \<Rightarrow> bool" for sg env n where
  start: "server_reach sg env n (start_server sg n)"
| step: "server_reach sg env n s \<Longrightarrow> server_step sg env s s' \<Longrightarrow> server_reach sg env n s'"

inductive_cases server_stepE: "server_step sg env s s'"

subsection \<open>Properties: connections are counted\<close>

text \<open>A protocol from the pool is as good as a new one.\<close>

lemma reinit_is_init: "proto_reinit timeout needs_ctx p = proto_init timeout needs_ctx"
  by (simp add: proto_reinit_def proto_init_def)

text \<open>
  The invariant: the counter is the number of active connections, an object is active at most once, in the pool at most once
  and never both; the limit is kept; the core closes its connections exactly under pressure; the pool has bounded
  size and its objects have no transport and no tasks.
\<close>

definition accounted :: "server_config \<Rightarrow> server_state \<Rightarrow> bool" where
  "accounted sg s \<longleftrightarrow>
     ss_count s = int (length (ss_active s)) \<and> distinct (ss_active s @ ss_pool s)
     \<and> (\<forall>i \<in> set (ss_active s @ ss_pool s). i < ss_next s)
     \<and> (0 < sg_max sg \<longrightarrow> ss_count s \<le> sg_max sg) \<and> length (ss_pool s) \<le> sg_pool_max sg
     \<and> (ss_force_close s \<longleftrightarrow> 0 < sg_threshold sg \<and> sg_threshold sg < ss_count s)
     \<and> (\<forall>i \<in> set (ss_pool s). pr_transport (ss_objs s i) = None \<and> pr_pending (ss_objs s i) = [])"

lemma accounted_empty: "accounted sg empty_server"
  by (simp add: accounted_def empty_server_def)

lemma accounted_prewarm: "accounted sg s \<Longrightarrow> accounted sg (prewarm sg n s)"
proof (induction n arbitrary: s)
  case (Suc n)
  have "accounted sg (release_proto sg (ss_next s) (set_obj (ss_next s) (proto_init (sg_timeout sg) (sg_needs_ctx sg)) (s\<lparr>ss_next := ss_next s + 1\<rparr>)))"
    using Suc.prems by (auto simp: accounted_def release_proto_def set_obj_def proto_init_def less_Suc_eq)
  then show ?case using Suc.IH by simp
qed simp

lemma acquire_new:
  assumes "ss_pool s = []" and "acquire_proto sg s = (i, s')"
  shows "i = ss_next s" and "s' = set_obj i (proto_init (sg_timeout sg) (sg_needs_ctx sg)) (s\<lparr>ss_next := ss_next s + 1\<rparr>)"
  using assms by (auto simp: acquire_proto_def Let_def)

lemma acquire_pooled:
  assumes "ss_pool s = ys @ [y]" and "acquire_proto sg s = (i, s')"
  shows "i = y" and "s' = set_obj i (proto_init (sg_timeout sg) (sg_needs_ctx sg)) (s\<lparr>ss_pool := ys\<rparr>)"
  using assms by (auto simp: acquire_proto_def reinit_is_init)

text \<open>Both ways an active connection more is accounted for.\<close>

lemma accounted_activate:
  assumes acc: "accounted sg s" and room: "\<not> (0 < sg_max sg \<and> sg_max sg \<le> ss_count s)"
    and "i \<notin> set (ss_active s)" and "i \<notin> set pool" and "set pool \<subseteq> set (ss_pool s)" and "distinct pool"
    and "length pool \<le> length (ss_pool s)" and "i < nxt" and "ss_next s \<le> nxt"
    and "\<And>j. j \<in> set pool \<Longrightarrow> objs j = ss_objs s j"
    and "fc \<longleftrightarrow> 0 < sg_threshold sg \<and> sg_threshold sg < ss_count s + 1"
  shows "accounted sg (s\<lparr>ss_count := ss_count s + 1, ss_force_close := fc, ss_objs := objs, ss_next := nxt, ss_pool := pool, ss_active := i # ss_active s\<rparr>)"
proof -
  have old: "ss_count s = int (length (ss_active s))" "distinct (ss_active s)" "set (ss_active s) \<inter> set (ss_pool s) = {}"
    "\<And>j. j \<in> set (ss_active s) \<union> set (ss_pool s) \<Longrightarrow> j < ss_next s" "length (ss_pool s) \<le> sg_pool_max sg"
    "\<And>j. j \<in> set (ss_pool s) \<Longrightarrow> pr_transport (ss_objs s j) = None \<and> pr_pending (ss_objs s j) = []"
    using acc by (auto simp: accounted_def)
  have bound: "j < nxt" if "j \<in> set (ss_active s) \<union> set pool" for j
    using old(4)[of j] that assms(5,9) by fastforce
  have pooled: "pr_transport (objs j) = None \<and> pr_pending (objs j) = []" if "j \<in> set pool" for j
    using old(6)[of j] that assms(5,10) by auto
  have "set (ss_active s) \<inter> set pool = {}" using old(3) assms(5) by blast
  moreover have "0 < sg_max sg \<longrightarrow> int (length (ss_active s)) + 1 \<le> sg_max sg" using room old(1) by linarith
  moreover have "length pool \<le> sg_pool_max sg" using old(5) assms(7) by linarith
  ultimately show ?thesis using old(1,2) bound pooled assms(3,4,6,8,11) by (simp add: accounted_def)
qed

lemma protocol_factory_some:
  assumes "\<not> (0 < sg_max sg \<and> sg_max sg \<le> ss_count s)" and "acquire_proto sg s = (i, s')"
  shows "protocol_factory sg s =
     (Some i, s'\<lparr>ss_count := ss_count s + 1, ss_active := i # ss_active s,
        ss_force_close := (ss_force_close s \<or> 0 < sg_threshold sg \<and> sg_threshold sg < ss_count s + 1)\<rparr>)"
  using assms by (auto simp: protocol_factory_def acquire_proto_def set_obj_def Let_def split: if_splits)

lemma accounted_factory:
  assumes acc: "accounted sg s" and fac: "protocol_factory sg s = (r, s')"
  shows "accounted sg s' \<and> (\<forall>i. r = Some i \<longrightarrow> i \<in> set (ss_active s'))"
proof (cases "0 < sg_max sg \<and> sg_max sg \<le> ss_count s")
  case True
  then show ?thesis using assms by (auto simp: protocol_factory_def)
next
  case room: False
  obtain i s1 where a: "acquire_proto sg s = (i, s1)" by (cases "acquire_proto sg s")
  let ?fc = "ss_force_close s \<or> 0 < sg_threshold sg \<and> sg_threshold sg < ss_count s + 1"
  let ?new = "(ss_objs s)(i := proto_init (sg_timeout sg) (sg_needs_ctx sg))"
  have r: "r = Some i" and s': "s' = s1\<lparr>ss_count := ss_count s + 1, ss_active := i # ss_active s, ss_force_close := ?fc\<rparr>"
    using protocol_factory_some[OF room a] fac by auto
  have fc: "?fc \<longleftrightarrow> 0 < sg_threshold sg \<and> sg_threshold sg < ss_count s + 1" using acc by (auto simp: accounted_def)
  have "accounted sg s'"
  proof (cases "ss_pool s" rule: rev_cases)
    case Nil
    have i: "i = ss_next s" "s1 = set_obj i (proto_init (sg_timeout sg) (sg_needs_ctx sg)) (s\<lparr>ss_next := ss_next s + 1\<rparr>)"
      using acquire_new[OF Nil a] by auto
    have out: "i \<notin> set (ss_active s)" using acc i(1) by (auto simp: accounted_def)
    have "s' = s\<lparr>ss_count := ss_count s + 1, ss_force_close := ?fc, ss_objs := ?new, ss_next := ss_next s + 1, ss_pool := [], ss_active := i # ss_active s\<rparr>"
      using s' i(2) Nil by (simp add: set_obj_def)
    then show ?thesis using accounted_activate[OF acc room out, of "[]" "ss_next s + 1" ?new ?fc] i(1) fc by simp
  next
    case (snoc ys y)
    have i: "i = y" "s1 = set_obj i (proto_init (sg_timeout sg) (sg_needs_ctx sg)) (s\<lparr>ss_pool := ys\<rparr>)"
      using acquire_pooled[OF snoc a] by auto
    have out: "i \<notin> set (ss_active s)" "i < ss_next s" "i \<notin> set ys" "distinct ys" using acc i(1) snoc by (auto simp: accounted_def)
    have eq: "s' = s\<lparr>ss_count := ss_count s + 1, ss_force_close := ?fc, ss_objs := ?new, ss_next := ss_next s, ss_pool := ys, ss_active := i # ss_active s\<rparr>"
      using s' i(2) by (simp add: set_obj_def)
    have same: "?new j = ss_objs s j" if "j \<in> set ys" for j using that out(3) by auto
    show ?thesis unfolding eq by (rule accounted_activate[OF acc room out(1,3) _ out(4) _ out(2) _ same fc]) (use snoc in auto)
  qed
  then show ?thesis using r s' by simp
qed

text \<open>The invariant is kept if only objects change, and the new ones in the pool have no transport and no tasks.\<close>

lemma accounted_objs:
  assumes "accounted sg s"
    and "\<And>i. i \<in> set (ss_pool s) \<Longrightarrow> pr_transport (f i) = None \<and> pr_pending (f i) = []"
  shows "accounted sg (s\<lparr>ss_objs := f\<rparr>)"
  using assms by (auto simp: accounted_def)

lemma accounted_disjoint: "accounted sg s \<Longrightarrow> i \<in> set (ss_pool s) \<Longrightarrow> i \<notin> set (ss_active s)"
  by (auto simp: accounted_def)

lemma accounted_pool:
  "accounted sg s \<Longrightarrow> i \<in> set (ss_pool s) \<Longrightarrow> pr_transport (ss_objs s i) = None \<and> pr_pending (ss_objs s i) = []"
  by (simp add: accounted_def)

lemma accounted_set_active:
  assumes "accounted sg s" and "i \<in> set (ss_active s)"
  shows "accounted sg (set_obj i p s)"
  unfolding set_obj_def
  by (rule accounted_objs[OF assms(1)]) (use accounted_disjoint[OF assms(1)] accounted_pool[OF assms(1)] assms(2) in auto)

lemma accounted_accept:
  assumes "accounted sg s" and "accept_connection sg t peer now s = (r, s')"
  shows "accounted sg s'"
proof (cases "protocol_factory sg s")
  case (Pair r0 s0)
  show ?thesis
  proof (cases r0)
    case None
    then show ?thesis using assms Pair accounted_factory[OF assms(1) Pair] by (simp add: accept_connection_def)
  next
    case (Some i)
    have a: "accounted sg s0" "i \<in> set (ss_active s0)" using accounted_factory[OF assms(1) Pair] Some by auto
    have "accounted sg (set_obj i (connection_made t now (ss_objs s0 i)) s0)" by (rule accounted_set_active[OF a])
    then show ?thesis using assms(2) Pair Some by (auto simp: accept_connection_def accounted_def)
  qed
qed

lemma length_removeAll_distinct: "distinct xs \<Longrightarrow> x \<in> set xs \<Longrightarrow> int (length (removeAll x xs)) = int (length xs) - 1"
  by (induction xs) (auto simp: removeAll_id)

lemma accounted_lose:
  assumes "accounted sg s" and "i \<in> set (ss_active s)"
  shows "accounted sg (lose_connection sg i s)"
proof -
  have len: "int (length (removeAll i (ss_active s))) = ss_count s - 1"
    using assms by (simp add: accounted_def length_removeAll_distinct)
  have new: "pr_transport (snd (connection_lost p)) = None \<and> pr_pending (snd (connection_lost p)) = []" for p
    by (simp add: connection_lost_def)
  have i: "i \<notin> set (ss_pool s)" "i < ss_next s" using assms by (auto simp: accounted_def)
  show ?thesis using assms(1) len new i
    by (auto simp: lose_connection_def accounted_def release_proto_def set_obj_def Let_def distinct_removeAll)
qed

lemma accounted_trim:
  assumes "accounted sg s"
  shows "accounted sg (trim_pool s)"
proof -
  have "accounted sg (s\<lparr>ss_pool := take k (ss_pool s)\<rparr>)" for k
    using assms by (auto simp: accounted_def min_def dest: in_set_takeD)
  then show ?thesis using assms by (simp add: trim_pool_def Let_def)
qed

lemma close_open_no_transport: "pr_transport p = None \<Longrightarrow> close_open p = p"
  by (simp add: close_open_def is_open_def transport_of_def)

lemma accounted_step:
  assumes "server_step sg env s s'" and "accounted sg s"
  shows "accounted sg s'"
  using assms
proof (cases rule: server_step.cases)
  case swept
  show ?thesis unfolding swept(1) ka_sweep_def
    by (rule accounted_objs[OF assms(2)]) (use accounted_disjoint[OF assms(2)] accounted_pool[OF assms(2)] in auto)
next
  case signalled
  show ?thesis unfolding signalled(1) signal_handler_def
    by (rule accounted_objs[OF assms(2)]) (use accounted_disjoint[OF assms(2)] accounted_pool[OF assms(2)] in auto)
next
  case (ws_exit i)
  show ?thesis unfolding ws_exit(1) websocket_task_exit_def set_obj_def
    by (rule accounted_objs[OF assms(2)]) (use accounted_pool[OF assms(2)] in \<open>auto simp: close_open_no_transport\<close>)
next
  case accepted
  then show ?thesis using accounted_accept assms(2) by blast
next
  case lost
  then show ?thesis using accounted_lose assms(2) by blast
next
  case activity
  then show ?thesis using accounted_set_active assms(2) by blast
next
  case trimmed
  then show ?thesis using accounted_trim assms(2) by blast
qed

text \<open>
  C27: In every reachable state of a server the number of connections is what the counter says and never exceeds the limit,
  no protocol object serves two connections or is in the pool while it serves one, the pool is bounded, and the core is
  told to close connections exactly while more than the threshold are open.
\<close>

theorem connections_bounded:
  assumes "server_reach sg env n s"
  shows "accounted sg s"
  using assms
proof induction
  case start
  then show ?case by (simp add: start_server_def accounted_prewarm accounted_empty)
next
  case (step s s')
  then show ?case by (blast intro: accounted_step)
qed

definition small_server :: server_config where
  "small_server = \<lparr>sg_max = 5, sg_threshold = pressure_threshold 5, sg_pool_max = 2048, sg_timeout = 30, sg_needs_ctx = False, sg_rate_limit = False\<rparr>"

theorem connections_bounded_witness:
  "accounted small_server (snd (accept_connection small_server \<lparr>tr_closing = False, tr_written = []\<rparr> None 100 (start_server small_server 64)))"
proof (rule connections_bounded)
  show "server_reach small_server undefined 64
      (snd (accept_connection small_server \<lparr>tr_closing = False, tr_written = []\<rparr> None 100 (start_server small_server 64)))"
    by (rule server_reach.step[OF server_reach.start]) (rule server_step.accepted, rule prod.collapse[symmetric])
qed

subsection \<open>Properties: received data\<close>

text \<open>What the core promises for one request: it takes at least one byte of the buffer, and no more than there are.\<close>

definition takes_bytes :: "(bytes \<Rightarrow> one_result) \<Rightarrow> bool" where
  "takes_bytes one \<longleftrightarrow>
     (\<forall>b. case one b of OneDone n ws \<Rightarrow> 0 < n \<and> n \<le> length b | OneWork n r \<Rightarrow> 0 < n \<and> n \<le> length b
          | OneOther r \<Rightarrow> False | _ \<Rightarrow> True)"

lemma takes_bytes_done: "takes_bytes one \<Longrightarrow> one b = OneDone n ws \<Longrightarrow> 0 < n \<and> n \<le> length b"
  and takes_bytes_work: "takes_bytes one \<Longrightarrow> one b = OneWork n r \<Longrightarrow> 0 < n \<and> n \<le> length b"
  and takes_bytes_other: "takes_bytes one \<Longrightarrow> one b \<noteq> OneOther r"
  unfolding takes_bytes_def by (auto dest!: spec[of _ b])

lemma batch_loop_returns:
  assumes "takes_bytes one" and "prefix \<le> length raw"
  shows "\<exists>r k ws. request_loop one raw prefix out = Some (r, drop k raw, ws) \<and> k \<le> length raw \<and> ((\<exists>n. r = CoreInt n) \<or> prefix < k)"
  using assms(2)
proof (induction "length raw - prefix" arbitrary: prefix out rule: less_induct)
  case less
  show ?case
  proof (cases "one (drop prefix raw)")
    case (OneDone n ws)
    have n: "0 < n" "prefix + n \<le> length raw" using takes_bytes_done[OF assms(1) OneDone] less.prems by auto
    have "\<exists>r k us. request_loop one raw (prefix + n) (out @ ws) = Some (r, drop k raw, us) \<and> k \<le> length raw \<and> ((\<exists>n. r = CoreInt n) \<or> prefix + n < k)"
      using less.hyps[of "prefix + n" "out @ ws"] n by auto
    then obtain r k us where k: "request_loop one raw (prefix + n) (out @ ws) = Some (r, drop k raw, us)" "k \<le> length raw"
        "(\<exists>n. r = CoreInt n) \<or> prefix + n < k" by blast
    have "request_loop one raw prefix out = Some (r, drop k raw, us)" using OneDone k(1) by (subst request_loop.simps) simp
    then show ?thesis using k by auto
  next
    case OneMore
    then have "request_loop one raw prefix out =
        Some (CoreInt (if 0 < prefix then if drop prefix raw \<noteq> [] then 1 else 0 else -1), drop prefix raw, out)"
      by (subst request_loop.simps) simp
    then show ?thesis using less.prems by blast
  next
    case (OneBad ws)
    then have "request_loop one raw prefix out = Some (CoreInt (-2), drop prefix raw, out @ ws)" by (subst request_loop.simps) simp
    then show ?thesis using less.prems by blast
  next
    case (OneWork n r)
    have n: "0 < n" "prefix + n \<le> length raw" using takes_bytes_work[OF assms(1) OneWork] less.prems by auto
    have "request_loop one raw prefix out = Some (r, drop (prefix + n) raw, out)" using OneWork by (subst request_loop.simps) simp
    then show ?thesis using n by (metis less_add_same_cancel1)
  next
    case (OneOther r)
    then show ?thesis using takes_bytes_other[OF assms(1)] by blast
  qed
qed

lemma pr_buf_on_transport [simp]: "pr_buf (on_transport f p) = pr_buf p"
  by (simp add: on_transport_def split: option.splits)

lemma pr_buf_small [simp]:
  "pr_buf (add_work r p) = pr_buf p" "pr_buf (close_transport p) = pr_buf p" "pr_buf (refuse_data b p) = pr_buf p" "pr_buf (clear_buf p) = []"
  by (simp_all add: add_work_def add_task_def close_transport_def refuse_data_def clear_buf_def split: core_result.splits)

lemma upgrade_buf: "length (pr_buf (upgrade env p)) \<le> length (pr_buf p)"
  by (simp add: upgrade_def Let_def split: option.splits)

lemma run_core_returns:
  assumes "takes_bytes (ce_one env)"
  shows "\<exists>r q. run_core env p = Some (r, q) \<and> length (pr_buf q) \<le> length (pr_buf p)
           \<and> ((\<exists>n. r = CoreInt n) \<or> length (pr_buf q) < length (pr_buf p))"
proof (cases "pr_buf p = []")
  case True
  then show ?thesis by (simp add: run_core_def core_batch_def)
next
  case False
  obtain r k ws where k: "request_loop (ce_one env) (pr_buf p) 0 [] = Some (r, drop k (pr_buf p), ws)" "k \<le> length (pr_buf p)"
      "(\<exists>n. r = CoreInt n) \<or> 0 < k"
    using batch_loop_returns[OF assms, of 0 "pr_buf p" "[]"] by auto
  then show ?thesis using False by (auto simp: run_core_def core_batch_def)
qed

lemma dispatch_loop_returns:
  assumes "takes_bytes (ce_one env)"
  shows "\<exists>q. dispatch_loop env r p = Some q \<and> length (pr_buf q) \<le> length (pr_buf p)"
proof (induction "length (pr_buf p)" arbitrary: r p rule: less_induct)
  case less
  consider "r = CoreTrue \<or> r = CoreSocket False" | "r = CoreSocket True" | "\<not> (r = CoreTrue \<or> r = CoreSocket False) \<and> r \<noteq> CoreSocket True" by blast
  then show ?case
  proof cases
    case 1
    then show ?thesis by (subst dispatch_loop.simps) auto
  next
    case 2
    then show ?thesis using upgrade_buf by (subst dispatch_loop.simps) auto
  next
    case 3
    obtain r2 q where q: "run_core env (add_work r p) = Some (r2, q)" "length (pr_buf q) \<le> length (pr_buf p)"
        "(\<exists>n. r2 = CoreInt n) \<or> length (pr_buf q) < length (pr_buf p)"
      using run_core_returns[OF assms, of "add_work r p"] by auto
    show ?thesis
    proof (cases "\<exists>n. r2 = CoreInt n")
      case True
      then show ?thesis using 3 q by (subst dispatch_loop.simps) auto
    next
      case False
      then have "\<exists>u. dispatch_loop env r2 q = Some u \<and> length (pr_buf u) \<le> length (pr_buf q)" using less[of q r2] q(3) by blast
      then show ?thesis using 3 q False by (subst dispatch_loop.simps) (auto split: core_result.splits)
    qed
  qed
qed

lemma after_core_returns:
  assumes "takes_bytes (ce_one env)"
  shows "\<exists>q. after_fused env (r, p) = Some q \<and> length (pr_buf q) \<le> length (pr_buf p)"
    and "\<exists>q. after_batch env (r, p) = Some q \<and> length (pr_buf q) \<le> length (pr_buf p)"
  using dispatch_loop_returns[OF assms, of r p] by (auto simp: after_fused_def after_batch_def split: core_result.splits)

lemma dispatch_data_returns:
  assumes "takes_bytes (ce_one env)" and "length (pr_buf p) \<le> max_capacity"
  shows "\<exists>q. dispatch_data env d p = Some q \<and> length (pr_buf q) \<le> max_capacity"
proof (cases "http_buf_append d (pr_buf p)")
  case None
  then show ?thesis using assms(2) by (simp add: dispatch_data_def append_and_dispatch_def after_fused_def)
next
  case (Some b)
  have b: "length b \<le> max_capacity" using Some lb.append_bounded[of d "pr_buf p" b] by simp
  obtain r q where q: "run_core env (p\<lparr>pr_buf := b\<rparr>) = Some (r, q)" "length (pr_buf q) \<le> length b"
    using run_core_returns[OF assms(1), of "p\<lparr>pr_buf := b\<rparr>"] by auto
  show ?thesis using after_core_returns[OF assms(1), of r q] q b Some
    by (auto simp: dispatch_data_def append_and_dispatch_def)
qed

text \<open>
  C29: Handling received data always ends, and what it leaves in the buffer is never more than 16 MB: whatever the state of the
  connection and the mix of synchronous and asynchronous requests, upgrades, errors and oversized data, provided that the core takes
  at least a byte for every request it handles.
\<close>

theorem data_received_returns:
  assumes "takes_bytes (ce_one env)" and "length (pr_buf p) \<le> max_capacity"
  shows "\<exists>q. data_received env d p = Some q \<and> length (pr_buf q) \<le> max_capacity"
proof (cases "pr_ws p = None \<and> \<not> pr_paused p")
  case True
  let ?p = "if pr_needs_ctx p \<or> ce_overrides env then p\<lparr>pr_ctx := parse_context d (pr_ctx p)\<rparr> else p"
  have "length (pr_buf ?p) \<le> max_capacity" using assms(2) by simp
  then have "\<exists>q. dispatch_data env d ?p = Some q \<and> length (pr_buf q) \<le> max_capacity" by (rule dispatch_data_returns[OF assms(1)])
  then show ?thesis using True assms(2) by (auto simp: data_received_def Let_def)
next
  case False
  then show ?thesis using assms(2) lb.append_bounded[of d "pr_buf p"]
    by (cases "pr_ws p"; cases "http_buf_append d (pr_buf p)") (auto simp: data_received_def)
qed

text \<open>A core for examples: a request is a line, the answer its text; lines that start with \<open>a\<close> are asynchronous.\<close>

definition line_core :: "bytes \<Rightarrow> one_result" where
  "line_core b =
     (let l = takeWhile (\<lambda>c. c \<noteq> CHR 0x0A) b
      in if length l < length b then (if take 1 b = ''a'' then OneWork (length l + 1) (CoreTask (length l) False) else OneDone (length l + 1) [l])
         else OneMore)"

lemma line_core_takes_bytes: "takes_bytes line_core"
  by (auto simp: takes_bytes_def line_core_def Let_def split: one_result.splits if_splits)

definition line_env :: conn_env where
  "line_env = \<lparr>ce_one = line_core, ce_fused = True, ce_max_body = 0, ce_overrides = False, ce_close_frame = [], ce_frames = (\<lambda>b w. w)\<rparr>"

definition open_proto :: proto where
  "open_proto = connection_made \<lparr>tr_closing = False, tr_written = []\<rparr> 100 (proto_init 30 False)"

theorem data_received_returns_witness:
  "\<exists>q. data_received line_env ''hello'' open_proto = Some q \<and> length (pr_buf q) \<le> max_capacity"
  by (rule data_received_returns) (simp_all add: line_env_def line_core_takes_bytes open_proto_def connection_made_def ka_reset_def proto_init_def)

subsection \<open>Properties: how a stream is cut into segments does not matter\<close>

text \<open>A core whose requests are all synchronous, and complete requests stay so when more bytes follow.\<close>

definition synchronous :: "(bytes \<Rightarrow> one_result) \<Rightarrow> bool" where
  "synchronous one \<longleftrightarrow>
     (\<forall>b. (case one b of OneDone n ws \<Rightarrow> 0 < n \<and> n \<le> length b \<and> (\<forall>c. one (b @ c) = OneDone n ws) | OneMore \<Rightarrow> True | _ \<Rightarrow> False))"

inductive served :: "(bytes \<Rightarrow> one_result) \<Rightarrow> bytes \<Rightarrow> bytes list \<Rightarrow> bytes \<Rightarrow> bool" for one where
  waits: "one b = OneMore \<Longrightarrow> served one b [] b"
| answers: "one b = OneDone n ws \<Longrightarrow> served one (drop n b) us rest \<Longrightarrow> served one b (ws @ us) rest"

lemma synchronousD:
  assumes "synchronous one"
  shows "one b = OneMore \<or> (\<exists>n ws. one b = OneDone n ws \<and> 0 < n \<and> n \<le> length b \<and> (\<forall>c. one (b @ c) = OneDone n ws))"
  using assms unfolding synchronous_def by (cases "one b") (auto dest!: spec[of _ b])

lemma synchronous_nil: "synchronous one \<Longrightarrow> one [] = OneMore"
  using synchronousD[of one "[]"] by auto

lemma batch_loop_served:
  assumes "synchronous one" and "prefix \<le> length raw"
  shows "\<exists>r us rest. request_loop one raw prefix out = Some (CoreInt r, rest, out @ us) \<and> -1 \<le> r \<and> served one (drop prefix raw) us rest"
  using assms(2)
proof (induction "length raw - prefix" arbitrary: prefix out rule: less_induct)
  case less
  consider "one (drop prefix raw) = OneMore"
    | n ws where "one (drop prefix raw) = OneDone n ws" "0 < n" "prefix + n \<le> length raw"
    using synchronousD[OF assms(1), of "drop prefix raw"] less.prems by auto
  then show ?case
  proof cases
    case 1
    then have "request_loop one raw prefix out =
        Some (CoreInt (if 0 < prefix then if drop prefix raw \<noteq> [] then 1 else 0 else -1), drop prefix raw, out @ [])"
      by (subst request_loop.simps) simp
    moreover have "-1 \<le> (if 0 < prefix then if drop prefix raw \<noteq> [] then 1 else 0 else (-1::int))" by simp
    ultimately show ?thesis using served.waits[where one = one, OF 1] by blast
  next
    case (2 n ws)
    have shorter: "length raw - (prefix + n) < length raw - prefix" using 2(2,3) by linarith
    obtain r us rest where *: "request_loop one raw (prefix + n) (out @ ws) = Some (CoreInt r, rest, (out @ ws) @ us)" "-1 \<le> r"
        "served one (drop (prefix + n) raw) us rest"
      using less.hyps[OF shorter 2(3), of "out @ ws"] by blast
    have "request_loop one raw prefix out = Some (CoreInt r, rest, out @ (ws @ us))" using 2 * by (subst request_loop.simps) simp
    moreover have "served one (drop prefix raw) (ws @ us) rest" using served.answers[where one = one, OF 2(1), of us rest] *(3) by (simp add: add.commute)
    ultimately show ?thesis using *(2) by blast
  qed
qed

lemma served_determ: "served one b ws rest \<Longrightarrow> served one b us rest' \<Longrightarrow> ws = us \<and> rest = rest'"
proof (induction arbitrary: us rest' rule: served.induct)
  case (waits b)
  then show ?case by (auto elim: served.cases)
next
  case (answers b n ws us0 rest)
  from answers.prems show ?case using answers.hyps(1) answers.IH by cases auto
qed

lemma served_waits: "served one b ws rest \<Longrightarrow> one rest = OneMore"
  by (induction rule: served.induct)

lemma served_append:
  assumes "served one b ws rest" and "synchronous one" and "served one (rest @ c) us rest'"
  shows "served one (b @ c) (ws @ us) rest'"
  using assms
proof (induction rule: served.induct)
  case (answers b n ws vs rest)
  have n: "n \<le> length b" "one (b @ c) = OneDone n ws" using synchronousD[OF answers.prems(1), of b] answers.hyps(1) by auto
  have "served one (drop n (b @ c)) (vs @ us) rest'" using answers.IH[OF answers.prems] n(1) by simp
  then show ?case using served.answers[where one = one, OF n(2)] by simp
qed simp

lemma served_shorter: "served one b ws rest \<Longrightarrow> length rest \<le> length b"
  by (induction rule: served.induct) auto

definition ready :: "proto \<Rightarrow> bool" where
  "ready p \<longleftrightarrow> pr_ws p = None \<and> \<not> pr_paused p \<and> (\<exists>t. pr_transport p = Some t \<and> \<not> tr_closing t)"

lemma fold_tr_write: "\<not> tr_closing t \<Longrightarrow> fold tr_write ws t = t\<lparr>tr_written := tr_written t @ ws\<rparr>"
  by (induction ws arbitrary: t) (auto simp: tr_write_def)

lemma core_batch_served:
  assumes "synchronous one"
  shows "\<exists>r us rest. core_batch one raw = Some (CoreInt r, rest, us) \<and> -1 \<le> r \<and> served one raw us rest"
proof (cases "raw = []")
  case True
  then show ?thesis using served.waits[where one = one, OF synchronous_nil[OF assms]] by (auto simp: core_batch_def)
next
  case False
  then show ?thesis using batch_loop_served[OF assms, of 0 raw "[]"] by (auto simp: core_batch_def)
qed

lemma received_served:
  assumes sync: "synchronous (ce_one env)" and env: "ce_fused env" "ce_max_body env = 0"
    and p: "ready p" "length (pr_buf p) + length d \<le> max_capacity"
  shows "\<exists>q us. data_received env d p = Some q \<and> served (ce_one env) (pr_buf p @ d) us (pr_buf q)
           \<and> pr_transport q = map_option (fold tr_write us) (pr_transport p) \<and> ready q"
proof -
  obtain r us rest where c: "core_batch (ce_one env) (pr_buf p @ d) = Some (CoreInt r, rest, us)" "-1 \<le> r"
      "served (ce_one env) (pr_buf p @ d) us rest"
    using core_batch_served[OF sync] by blast
  obtain t where t: "pr_ws p = None" "\<not> pr_paused p" "pr_transport p = Some t" "\<not> tr_closing t" using p(1) by (auto simp: ready_def)
  define p1 where "p1 = (if pr_needs_ctx p \<or> ce_overrides env then p\<lparr>pr_ctx := parse_context d (pr_ctx p)\<rparr> else p)"
  have same: "pr_buf p1 = pr_buf p" "pr_ws p1 = None" "pr_transport p1 = Some t" "\<not> pr_paused p1" using t by (simp_all add: p1_def)
  have app: "http_buf_append d (pr_buf p1) = Some (pr_buf p @ d)" using p(2) by (simp add: http_buf_append_def same)
  let ?w = "p1\<lparr>pr_buf := rest, pr_transport := Some (fold tr_write us t)\<rparr>"
  have run: "run_core env (p1\<lparr>pr_buf := pr_buf p @ d\<rparr>) = Some (CoreInt r, ?w)"
    using c(1) by (simp add: run_core_def on_transport_def same)
  let ?q = "if 0 \<le> r then ?w\<lparr>pr_needs_reset := True\<rparr> else ?w"
  have "data_received env d p = dispatch_data env d p1" using t env by (simp add: data_received_def p1_def)
  also have "\<dots> = after_fused env (CoreInt r, ?w)" unfolding dispatch_data_def append_and_dispatch_def using env(1) app run by simp
  also have "\<dots> = Some ?q" using c(2) by (simp add: after_fused_def)
  finally have q: "data_received env d p = Some ?q" .
  have "ready ?q" using t same by (simp add: ready_def fold_tr_write)
  moreover have "served (ce_one env) (pr_buf p @ d) us (pr_buf ?q)" using c(3) by simp
  moreover have "pr_transport ?q = map_option (fold tr_write us) (pr_transport p)" using t by simp
  ultimately show ?thesis using q by blast
qed

fun receive_all :: "conn_env \<Rightarrow> bytes list \<Rightarrow> proto \<Rightarrow> proto option" where
  "receive_all env [] p = Some p"
| "receive_all env (d # ds) p = Option.bind (data_received env d p) (receive_all env ds)"

lemma receive_all_served:
  assumes "synchronous (ce_one env)" and "ce_fused env" "ce_max_body env = 0" and "ce_one env (pr_buf p) = OneMore"
    and "ready p" and "length (pr_buf p) + length (concat ds) \<le> max_capacity"
  shows "\<exists>q us. receive_all env ds p = Some q \<and> served (ce_one env) (pr_buf p @ concat ds) us (pr_buf q)
           \<and> pr_transport q = map_option (fold tr_write us) (pr_transport p)"
  using assms(4-)
proof (induction ds arbitrary: p)
  case Nil
  have "served (ce_one env) (pr_buf p) [] (pr_buf p)" by (rule served.waits) (rule Nil.prems(1))
  moreover have "pr_transport p = map_option (fold tr_write []) (pr_transport p)" by (cases "pr_transport p") auto
  ultimately show ?case by auto
next
  case (Cons d ds)
  obtain q us where q: "data_received env d p = Some q" "served (ce_one env) (pr_buf p @ d) us (pr_buf q)"
      "pr_transport q = map_option (fold tr_write us) (pr_transport p)" "ready q"
    using received_served[OF assms(1-3) Cons.prems(2), of d] Cons.prems(3) by auto
  have len: "length (pr_buf q) + length (concat ds) \<le> max_capacity" using served_shorter[OF q(2)] Cons.prems(3) by simp
  obtain u vs where u: "receive_all env ds q = Some u" "served (ce_one env) (pr_buf q @ concat ds) vs (pr_buf u)"
      "pr_transport u = map_option (fold tr_write vs) (pr_transport q)"
    using Cons.IH[OF served_waits[OF q(2)] q(4) len] by blast
  have "served (ce_one env) ((pr_buf p @ d) @ concat ds) (us @ vs) (pr_buf u)" by (rule served_append[OF q(2) assms(1) u(2)])
  moreover have "pr_transport u = map_option (fold tr_write (us @ vs)) (pr_transport p)"
    using u(3) q(3) by (simp add: option.map_comp comp_def)
  ultimately show ?case using u(1) q(1) by auto
qed


definition echo_core :: "bytes \<Rightarrow> one_result" where
  "echo_core b = (if CHR ''.'' \<in> set b then (let l = takeWhile (\<lambda>c. c \<noteq> CHR ''.'') b in OneDone (length l + 1) [l]) else OneMore)"

lemma echo_core_synchronous: "synchronous echo_core"
proof -
  have "length (takeWhile (\<lambda>c. c \<noteq> CHR ''.'') b) < length b" if "CHR ''.'' \<in> set b" for b
    using that by (induction b) auto
  moreover have "takeWhile (\<lambda>c. c \<noteq> CHR ''.'') (b @ c) = takeWhile (\<lambda>c. c \<noteq> CHR ''.'') b" if "CHR ''.'' \<in> set b" for b c
    using that by (induction b) auto
  ultimately show ?thesis by (auto simp: synchronous_def echo_core_def Let_def Suc_le_eq split: one_result.splits)
qed


subsection \<open>Properties: idle connections\<close>

lemma is_open_http: "pr_ws p = None \<Longrightarrow> pr_transport p = Some t \<Longrightarrow> is_open p \<longleftrightarrow> \<not> tr_closing t"
  by (simp add: is_open_def transport_of_def)

lemma closed_transport: "\<not> is_open (close_transport p)"
  by (auto simp: is_open_def transport_of_def close_transport_def on_transport_def tr_close_def split: option.splits)

lemma is_open_deadline: "is_open (p\<lparr>pr_needs_reset := b, pr_deadline := d\<rparr>) = is_open p"
  by (cases "pr_transport p") (simp_all add: is_open_def transport_of_def)

lemma is_open_transport: "is_open p \<Longrightarrow> pr_transport p \<noteq> None"
  by (cases "pr_transport p") (simp_all add: is_open_def transport_of_def)

lemma sweep_proto_open: "is_open (sweep_proto now p) \<longleftrightarrow> is_open p \<and> \<not> expired now p"
  using is_open_transport[of p] by (auto simp: sweep_proto_def closed_transport is_open_deadline expired_def)

lemma ka_sweep_obj: "i \<in> set (ss_active s) \<Longrightarrow> ss_objs (ka_sweep now s) i = sweep_proto now (ss_objs s i)"
  by (simp add: ka_sweep_def)

lemma ka_sweep_active [simp]: "ss_active (ka_sweep now s) = ss_active s"
  by (simp add: ka_sweep_def)

text \<open>
  The sweep closes exactly the connections whose deadline has passed and that have completed no batch of synchronous
  requests since the last one, and any connection without such activity is closed by the first sweep that comes more than
  the keep-alive timeout after a sweep that noted activity, or after its deadline.
\<close>

theorem keep_alive_sweep:
  assumes "i \<in> set (ss_active s)"
  shows "(is_open (ss_objs (ka_sweep now s) i) \<longleftrightarrow> is_open (ss_objs s i) \<and> \<not> expired now (ss_objs s i))
    \<and> (0 < now + pr_timeout (ss_objs s i) \<and> now + pr_timeout (ss_objs s i) < later
         \<and> (pr_needs_reset (ss_objs s i) \<or> 0 < pr_deadline (ss_objs s i) \<and> pr_deadline (ss_objs s i) < later)
         \<longrightarrow> \<not> is_open (ss_objs (ka_sweep later (ka_sweep now s)) i))"
proof -
  let ?p = "ss_objs s i"
  have two: "ss_objs (ka_sweep later (ka_sweep now s)) i = sweep_proto later (sweep_proto now ?p)"
    using assms by (simp add: ka_sweep_obj)
  have "\<not> is_open (sweep_proto later (sweep_proto now ?p))"
    if t: "0 < now + pr_timeout ?p" "now + pr_timeout ?p < later"
      and d: "pr_needs_reset ?p \<or> 0 < pr_deadline ?p \<and> pr_deadline ?p < later"
  proof (cases "is_open (sweep_proto now ?p)")
    case True
    then have o: "pr_transport ?p \<noteq> None" "is_open ?p" "\<not> expired now ?p" using is_open_transport by (auto simp: sweep_proto_open)
    then have "expired later (sweep_proto now ?p)" using t d by (auto simp: sweep_proto_def expired_def)
    then show ?thesis by (simp add: sweep_proto_open)
  qed (simp add: sweep_proto_open)
  then show ?thesis using assms two by (auto simp: ka_sweep_obj sweep_proto_open)
qed

theorem keep_alive_sweep_witness:
  "\<not> is_open (ss_objs (ka_sweep 145 (ka_sweep 110 (snd (accept_connection small_server \<lparr>tr_closing = False, tr_written = []\<rparr> None 100 empty_server)))) 0)"
  using keep_alive_sweep[of 0 "snd (accept_connection small_server \<lparr>tr_closing = False, tr_written = []\<rparr> None 100 empty_server)" 110 145]
  by (simp add: accept_connection_def protocol_factory_def acquire_proto_def empty_server_def small_server_def set_obj_def
      connection_made_def ka_reset_def proto_init_def Let_def pressure_threshold_def)

text \<open>The sweep does not ask whether a request is being handled: the tasks of a connection do not keep it open.\<close>

lemma busy_connection_swept:
  "i \<in> set (ss_active s) \<Longrightarrow> expired now (ss_objs s i) \<Longrightarrow>
   \<not> is_open (ss_objs (ka_sweep now s) i) \<and> pr_pending (ss_objs (ka_sweep now s) i) = pr_pending (ss_objs s i)"
  by (simp add: ka_sweep_obj sweep_proto_open)
     (auto simp: sweep_proto_def close_transport_def on_transport_def split: option.splits)

text \<open>
  A request for an asynchronous endpoint is no activity: once its task is created the core finds an empty buffer and answers that
  it needs more data, and neither the flag nor the deadline change. A connection that serves nothing else is closed
  when the timeout has passed since it was accepted.
\<close>

lemma run_core_empty: "pr_buf p = [] \<Longrightarrow> run_core env p = Some (CoreInt (-1), on_transport id p)"
  by (cases p) (simp add: run_core_def core_batch_def)

lemma async_request_no_activity:
  assumes "ready p" and "ce_fused env" "ce_max_body env = 0" and "pr_buf p = []" and "d \<noteq> []" "length d \<le> max_capacity"
    and "ce_one env d = OneWork (length d) (CoreTask k finished)"
  shows "\<exists>q. data_received env d p = Some q \<and> pr_deadline q = pr_deadline p \<and> pr_needs_reset q = pr_needs_reset p"
proof -
  define p1 where "p1 = (if pr_needs_ctx p \<or> ce_overrides env then p\<lparr>pr_ctx := parse_context d (pr_ctx p)\<rparr> else p)"
  have same: "pr_buf p1 = []" "pr_ws p1 = None" "pr_deadline p1 = pr_deadline p" "pr_needs_reset p1 = pr_needs_reset p"
    using assms(1,4) by (simp_all add: p1_def ready_def)
  have batch: "request_loop (ce_one env) d 0 [] = Some (CoreTask k finished, [], [])"
    using assms(7) by (subst request_loop.simps) simp
  have app: "append_and_dispatch env d p1 = Some (CoreTask k finished, on_transport id (p1\<lparr>pr_buf := []\<rparr>))"
    using assms(5,6) same batch by (simp add: append_and_dispatch_def http_buf_append_def run_core_def core_batch_def)
  let ?u = "add_work (CoreTask k finished) (on_transport id (p1\<lparr>pr_buf := []\<rparr>))"
  have loop: "dispatch_loop env (CoreTask k finished) (on_transport id (p1\<lparr>pr_buf := []\<rparr>)) = Some (on_transport id ?u)"
    using run_core_empty[of ?u env] by (subst dispatch_loop.simps) simp
  have "data_received env d p = dispatch_data env d p1" using assms(1-3) by (auto simp: data_received_def p1_def ready_def)
  also have "\<dots> = Some (on_transport id ?u)" using app loop assms(2) by (simp add: dispatch_data_def after_fused_def)
  finally show ?thesis using same by (auto simp: on_transport_def add_work_def add_task_def)
qed

text \<open>
  The upgrade takes the deadline away but not the flag: if a synchronous request was answered since the last sweep, the next sweep
  gives the WebSocket a deadline, which no frame moves, and the first one behind it closes the WebSocket.
\<close>

lemma upgraded_connection_swept:
  assumes "pr_transport p = Some t" and "pr_needs_reset p" and "0 < now + pr_timeout p" and "now + pr_timeout p < later"
  shows "pr_deadline (upgrade env p) = 0" and "\<not> is_open (sweep_proto later (sweep_proto now (upgrade env p)))"
proof -
  show "pr_deadline (upgrade env p) = 0" using assms(1) by (simp add: upgrade_def Let_def)
  have "expired later (sweep_proto now (upgrade env p))" using assms by (simp add: upgrade_def Let_def sweep_proto_def expired_def)
  then show "\<not> is_open (sweep_proto later (sweep_proto now (upgrade env p)))" by (simp add: sweep_proto_open)
qed

subsection \<open>Limits of the connection handling\<close>

text \<open>A body limit of 0 is documented as no limit, but more than 16 MB are refused all the same.\<close>

lemma unlimited_is_limited:
  assumes "ready p" and "ce_max_body env = 0" and "pr_buf p = []" and "max_capacity < length d" and "\<not> pr_needs_ctx p" "\<not> ce_overrides env"
  shows "data_received env d p = Some (refuse_data payload_too_large p)"
  using assms by (auto simp: data_received_def ready_def dispatch_data_def append_and_dispatch_def http_buf_append_def after_fused_def)

text \<open>
  While writing is paused received data are not read into the context of the request, and when the buffer is drained nothing is:
  the endpoint then runs with the method, path, query, headers and body of the request before.
\<close>

lemma paused_not_parsed:
  assumes "pr_ws p = None" and "pr_paused p" and "data_received env d p = Some q"
  shows "pr_ctx q = pr_ctx p"
proof -
  have "pr_ctx (refuse_data b p) = pr_ctx p" for b by (simp add: refuse_data_def on_transport_def split: option.splits)
  then show ?thesis using assms by (auto simp: data_received_def split: option.splits)
qed

lemma drained_not_parsed: "ready p \<Longrightarrow> ce_max_body env = 0 \<Longrightarrow> data_received env [] p = dispatch_data env [] p"
  by (auto simp: data_received_def ready_def parse_context_def)

text \<open>The protocol object of a lost connection is the first to be taken for the next one.\<close>

lemma lost_object_reused:
  assumes "accounted sg s" and "i \<in> set (ss_active s)" and "length (ss_pool s) < sg_pool_max sg"
  shows "fst (accept_connection sg t peer now (lose_connection sg i s)) = Some i"
proof -
  have count: "\<not> (0 < sg_max sg \<and> sg_max sg \<le> ss_count (lose_connection sg i s))"
    using assms(1) by (auto simp: accounted_def lose_connection_def Let_def release_proto_def set_obj_def)
  have pool: "ss_pool (lose_connection sg i s) = ss_pool s @ [i]"
    using assms(3) by (simp add: lose_connection_def Let_def release_proto_def set_obj_def)
  obtain j s1 where a: "acquire_proto sg (lose_connection sg i s) = (j, s1)" by (cases "acquire_proto sg (lose_connection sg i s)")
  show ?thesis using protocol_factory_some[OF count a] acquire_pooled(1)[OF pool a] by (simp add: accept_connection_def)
qed

text \<open>
  So the task of a WebSocket that is still cleaning up when its connection is gone closes the transport of whatever client got
  the protocol object in between.
\<close>

lemma accepted_is_open:
  assumes "accept_connection sg t peer now s = (Some i, s')" and "\<not> tr_closing t"
  shows "is_open (ss_objs s' i)"
proof -
  obtain s0 where f: "protocol_factory sg s = (Some i, s0)"
    using assms(1) by (auto simp: accept_connection_def split: prod.splits option.splits)
  have "pr_ws (ss_objs s0 i) = None"
    using f by (auto simp: protocol_factory_def acquire_proto_def set_obj_def reinit_is_init proto_init_def Let_def split: if_splits)
  then show ?thesis using assms f
    by (auto simp: accept_connection_def set_obj_def connection_made_def ka_reset_def is_open_def transport_of_def)
qed

lemma late_exit_closes_next_client:
  assumes "accept_connection sg t peer now s = (Some i, s')" and "\<not> tr_closing t"
  shows "is_open (ss_objs s' i) \<and> \<not> is_open (ss_objs (websocket_task_exit i s') i)"
  using accepted_is_open[OF assms] by (simp add: websocket_task_exit_def set_obj_def close_open_def closed_transport)

text \<open>The core knows one client address, that of the connection accepted last, whoever sends the requests it limits.\<close>

lemma client_ip_of_last_accept:
  assumes "sg_rate_limit sg" and "accept_connection sg t (Some a) now s = (Some i, s')"
  shows "ss_client_ip s' = Some a"
  using assms by (auto simp: accept_connection_def split: prod.splits option.splits)

lemma requests_keep_client_ip: "ss_client_ip (set_obj i p s) = ss_client_ip s"
  by (simp add: set_obj_def)

end
