(* ===== verification/Resolvers.thy ===== *)
theory Resolvers
  imports FastPath Security
begin

text \<open>
  The resolvers of \<open>routing.py\<close>, which the C++ core calls with the flattened dependencies of a route
  (theory \<open>FastPath\<close>): \<open>_resolve_deps_sync\<close>, \<open>_resolve_deps_async\<close> and \<open>_resolve_deps_gen\<close>. They are three copies
  of one loop with differences; the parts they share are defined once. The request object is one value; callables are a parameter.
  \<open>param_defaults\<close> is in every node, so \<open>_get_param_defaults_from_sig\<close> is never used.
\<close>

subsection \<open>State\<close>

text \<open>
  \<open>re_run\<close> is the call of a dependency with keyword arguments, \<open>re_coro\<close> whether the call returns a coroutine,
  \<open>re_scheme\<close> the callable if it is an instance of \<open>HTTPBase\<close>, and \<open>re_form_errors\<close> what pydantic reports for the form fields
  of a dependency.
\<close>

record 'q res_env =
  re_run :: "nat \<Rightarrow> (str, pyv) dict \<Rightarrow> pyv res"
  re_coro :: "nat \<Rightarrow> bool"
  re_scheme :: "nat \<Rightarrow> scheme option"
  re_form_errors :: "nat \<Rightarrow> (str, pyv) dict \<Rightarrow> err list"
  re_parsers :: "'q body_parsers"

datatype dep_event = DepCall nat "(str, pyv) dict" | DepEnter nat "(str, pyv) dict" | DepExit nat

record res_state =
  rv_resolved :: "(str, pyv) dict"
  rv_keys :: "(cache_key, pyv) dict"
  rv_errors :: "err list"
  rv_response :: bool
  rv_kwargs :: "(str, pyv) dict"
  rv_events :: "dep_event list"
  rv_function :: "nat list"
  rv_request :: "nat list"

record req_info =
  ri_scheme :: str
  ri_credentials :: str
  ri_form :: "(str, pyv) dict option"

subsection \<open>What the core put into the arguments\<close>

fun text_of :: "pyv option \<Rightarrow> str" where
  "text_of (Some (VStr s)) = s"
| "text_of _ = []"

definition info_keys :: "str list" where
  "info_keys = map S [''__raw_headers__'', ''__method__'', ''__path__'', ''__auth_scheme__'', ''__auth_credentials__'']"

definition body_keys :: "str list" where
  "body_keys = map S [''__body__'', ''__content_type__'']"

definition pop_keys :: "str list \<Rightarrow> (str, pyv) dict \<Rightarrow> (str, pyv) dict" where
  "pop_keys ks kw = fold dict_del ks kw"

definition dep_form :: "'q res_env \<Rightarrow> dep_node list \<Rightarrow> (str, pyv) dict \<Rightarrow> (str, pyv) dict option res" where
  "dep_form env ns kw =
     (case map_of kw (S ''__body__'') of
        Some (VBytes b) \<Rightarrow>
          if b \<noteq> [] \<and> list_ex nd_form ns then
            (let ct = text_of (map_of kw (S ''__content_type__'')) in
             if contains ct (S ''application/x-www-form-urlencoded'')
             then rbind (bp_urlencoded (re_parsers env) b) (\<lambda>ps. Inr (Some (dict_update (map (\<lambda>(k, v). (k, VStr v)) ps) [])))
             else if contains ct (S ''multipart/form-data'')
             then (case extract_boundary ct of
                     None \<Rightarrow> Inr None
                   | Some bnd \<Rightarrow>
                       if bnd = [] then Inr None
                       else rbind (parse_multipart_streaming (bp_tok (re_parsers env)) b bnd)
                              (\<lambda>items. Inr (Some (dict_update (form_values 0 items) []))))
             else Inr None)
          else Inr None
      | _ \<Rightarrow> Inr None)"

definition start_state :: "(str, pyv) dict \<Rightarrow> res_state" where
  "start_state kw =
     \<lparr>rv_resolved = [], rv_keys = [], rv_errors = [], rv_response = False, rv_kwargs = kw, rv_events = [],
      rv_function = [], rv_request = []\<rparr>"

definition info_of :: "(str, pyv) dict \<Rightarrow> (str, pyv) dict option \<Rightarrow> req_info" where
  "info_of kw form =
     \<lparr>ri_scheme = text_of (map_of kw (S ''__auth_scheme__'')),
      ri_credentials = text_of (map_of kw (S ''__auth_credentials__'')), ri_form = form\<rparr>"

subsection \<open>The request object\<close>

text \<open>
  \<open>_make_lightweight_request\<close>: the scope of the request a dependency gets. The arguments are what the core passed (\<open>None\<close> entries are
  skipped), the root path of the server and the query string of the context. The route, the application and the state are left out.
\<close>

definition light_text :: "hval \<Rightarrow> bytes res" where
  "light_text v = (case v of HB b \<Rightarrow> Inr b | HS t \<Rightarrow> latin1_encode t)"

definition light_header :: "hval \<times> hval \<Rightarrow> (bytes \<times> bytes) res" where
  "light_header h =
     rbind (case fst h of HB b \<Rightarrow> Inr (blower b) | HS t \<Rightarrow> latin1_encode (lower t)) (\<lambda>n. rbind (light_text (snd h)) (\<lambda>v. Inr (n, v)))"

definition light_headers :: "(hval \<times> hval) option list \<Rightarrow> (bytes \<times> bytes) list res" where
  "light_headers raw = rmap light_header (List.map_filter id raw)"

definition announces_body :: "(bytes \<times> bytes) list \<Rightarrow> bool" where
  "announces_body hs =
     (case map_of hs ''content-length'' of
        None \<Rightarrow> False | Some v \<Rightarrow> (case py_int (latin1_decode v) of Inl e \<Rightarrow> False | Inr n \<Rightarrow> 0 < n))"

definition last_header :: "bytes \<Rightarrow> (bytes \<times> bytes) list \<Rightarrow> str option" where
  "last_header n hs = map_option latin1_decode (map_of (rev hs) n)"

definition rsplit_once :: "nat \<Rightarrow> str \<Rightarrow> str \<times> str option" where
  "rsplit_once c s =
     (if c \<in> set s then (rev (tl (dropWhile (\<lambda>x. x \<noteq> c) (rev s))), Some (rev (takeWhile (\<lambda>x. x \<noteq> c) (rev s)))) else (s, None))"

definition light_server :: "str option \<Rightarrow> str \<Rightarrow> (str \<times> int) option res" where
  "light_server host scheme =
     (if get_or host [] = [] then Inr None
      else case rsplit_once 58 (get_or host []) of
             (h, None) \<Rightarrow> Inr (Some (h, if scheme = S ''https'' then 443 else 80))
           | (h, Some p) \<Rightarrow> rbind (py_int p) (\<lambda>n. Inr (Some (h, n))))"

definition light_target :: "str \<Rightarrow> bytes \<Rightarrow> (str \<times> bytes) res" where
  "light_target path ctx_query =
     (if 63 \<in> set path
      then rbind (latin1_encode (snd (split_once 63 path))) (\<lambda>q. Inr (fst (split_once 63 path), if q \<noteq> [] then q else ctx_query))
      else Inr (path, ctx_query))"

definition light_client :: "(bytes \<times> bytes) list \<Rightarrow> str \<times> int" where
  "light_client hs =
     (if list_ex (\<lambda>(n, v). n = ''user-agent'' \<and> lower (latin1_decode v) = S ''testclient'') hs then (S ''testclient'', 50000) else (S ''127.0.0.1'', 0))"

definition make_lightweight_request :: "(hval \<times> hval) option list \<Rightarrow> str \<Rightarrow> str \<Rightarrow> str \<Rightarrow> bytes \<Rightarrow> scope res" where
  "make_lightweight_request raw method path root_path ctx_query =
     rbind (light_headers raw) (\<lambda>hs.
       (let scheme = get_or (last_header ''x-forwarded-proto'' hs) (S ''http'')
        in rbind (light_server (last_header ''host'' hs) scheme) (\<lambda>server.
             rbind (light_target path ctx_query) (\<lambda>(p, q). Inr
               \<lparr>sc_type = S ''http'', sc_method = Some (if method \<noteq> [] then method else S ''GET''), sc_path = Some (if p \<noteq> [] then p else S ''/''),
                sc_root_path = Some root_path, sc_scheme = Some scheme, sc_server = server, sc_client = Some (light_client hs),
                sc_query = Some (HB q), sc_headers = Some (map (\<lambda>(n, v). (HB n, HB v)) hs), sc_path_params = None, sc_endpoint = None,
                sc_app_root_path = None, sc_app = True, sc_body = None\<rparr>))))"

text \<open>Its \<open>receive\<close>: the body of the context, read again once more bytes could arrive if it is empty although one was announced.\<close>

definition light_receive :: "(bytes \<times> bytes) list \<Rightarrow> nat \<Rightarrow> bytes \<Rightarrow> bytes \<Rightarrow> bytes" where
  "light_receive hs calls now later = (if now = [] \<and> announces_body hs \<and> calls \<le> 2 then later else now)"

subsection \<open>Security schemes without their callable\<close>

definition native_authorization :: "bool \<Rightarrow> http_scheme \<Rightarrow> req_info \<Rightarrow> pyv res" where
  "native_authorization needs_bearer s info =
     (if ri_scheme info = [] \<or> ri_credentials info = [] \<or> (needs_bearer \<and> lower (ri_scheme info) \<noteq> S ''bearer'')
      then (if hs_auto_error s then Inl (not_authenticated (title (if hs_scheme s \<noteq> [] then hs_scheme s else S ''Bearer''))) else Inr VNone)
      else Inr (credentials_value ''scheme'' ''credentials'' (Some (ri_scheme info, ri_credentials info))))"

text \<open>\<open>None\<close>: the credentials cannot be decoded.\<close>

definition decode_basic :: "str \<Rightarrow> str option" where
  "decode_basic c =
     (case b64decode c of Inl e \<Rightarrow> None | Inr data \<Rightarrow> (case utf8_decode (map char_of data) of Inl e \<Rightarrow> None | Inr s \<Rightarrow> Some s))"

text \<open>The result says whether the names of the aliases are set too. \<open>always\<close>: malformed credentials raise in any case.\<close>

definition native_basic :: "bool \<Rightarrow> http_scheme \<Rightarrow> req_info \<Rightarrow> (pyv \<times> bool) res" where
  "native_basic always s info =
     (if ri_scheme info = [] \<or> lower (ri_scheme info) \<noteq> S ''basic'' \<or> ri_credentials info = []
      then (if hs_auto_error s then Inl (basic_not_authenticated_error s) else Inr (VNone, True))
      else case decode_basic (ri_credentials info) of
             None \<Rightarrow> if always \<or> hs_auto_error s then Inl (basic_not_authenticated_error s) else Inr (VNone, False)
           | Some d \<Rightarrow>
               if 58 \<notin> set d then (if always \<or> hs_auto_error s then Inl (basic_not_authenticated_error s) else Inr (VNone, True))
               else Inr (credentials_value ''username'' ''password'' (Some (split_once 58 d)), True))"

fun native_security :: "bool \<Rightarrow> scheme option \<Rightarrow> req_info \<Rightarrow> (pyv \<times> bool) res option" where
  "native_security always (Some (HTTPBearer s)) info = Some (map_sum id (\<lambda>v. (v, True)) (native_authorization True s info))"
| "native_security always (Some (HTTPBase s)) info = Some (map_sum id (\<lambda>v. (v, True)) (native_authorization False s info))"
| "native_security always (Some (HTTPBasic s)) info = Some (native_basic always s info)"
| "native_security always _ info = None"

definition store_value_all :: "dep_node \<Rightarrow> pyv \<times> bool \<Rightarrow> res_state \<Rightarrow> res_state" where
  "store_value_all n v st =
     st\<lparr>rv_resolved := (let d = dict_set (nd_name n) (fst v) (rv_resolved st)
                        in if snd v then fold (\<lambda>a. dict_set a (fst v)) (nd_aliases n) d else d)\<rparr>"

subsection \<open>The arguments of a dependency\<close>

definition child_by_name :: "res_state \<Rightarrow> str \<Rightarrow> (str, pyv) dict \<Rightarrow> (str, pyv) dict" where
  "child_by_name st c kw = (case map_of (rv_resolved st) c of Some v \<Rightarrow> dict_set c v kw | None \<Rightarrow> kw)"

definition child_by_key :: "dep_node \<Rightarrow> res_state \<Rightarrow> str \<Rightarrow> (str, pyv) dict \<Rightarrow> (str, pyv) dict" where
  "child_by_key n st c kw =
     (case Option.bind (map_of (nd_children n) c) (map_of (rv_keys st)) of
        Some v \<Rightarrow> dict_set c v kw | None \<Rightarrow> child_by_name st c kw)"

definition take_params :: "str list \<Rightarrow> (str, pyv) dict \<Rightarrow> (str, pyv) dict \<Rightarrow> (str, pyv) dict" where
  "take_params ps src kw = fold (\<lambda>p d. case map_of src p of Some v \<Rightarrow> dict_set p v d | None \<Rightarrow> d) ps kw"

definition fill_params :: "str list \<Rightarrow> (str, pyv) dict \<Rightarrow> (str, pyv) dict \<Rightarrow> (str, pyv) dict" where
  "fill_params ps src kw = fold (\<lambda>p d. case map_of src p of Some v \<Rightarrow> dict_setdefault p v d | None \<Rightarrow> d) ps kw"

definition param_args :: "dep_node \<Rightarrow> (str, pyv) dict option \<Rightarrow> res_state \<Rightarrow> (str, pyv) dict \<Rightarrow> (str, pyv) dict" where
  "param_args n form st kw =
     (let kw1 = take_params (nd_params n) (rv_kwargs st) kw;
          kw2 = (case form of Some f \<Rightarrow> if nd_form n then fill_params (nd_params n) f kw1 else kw1 | None \<Rightarrow> kw1)
      in fold (\<lambda>(p, v). dict_setdefault p v) (nd_defaults n) kw2)"

definition missing_query :: "dep_node \<Rightarrow> (str, pyv) dict \<Rightarrow> err list" where
  "missing_query n kw =
     map (\<lambda>p. missing_field_error [S ''query'', p]) (filter (\<lambda>p. get_or (map_of kw p) VNone = VNone) (nd_required_query n))"

definition missing_body :: "dep_node \<Rightarrow> (str, pyv) dict \<Rightarrow> err list" where
  "missing_body n kw = map (\<lambda>p. missing_field_error [S ''body'', p]) (filter (\<lambda>p. \<not> dict_has kw p) (nd_required_body n))"

definition missing_header :: "dep_node \<Rightarrow> (str, pyv) dict \<Rightarrow> err list" where
  "missing_header n kw =
     map (\<lambda>p. missing_field_error [S ''header'', p])
       (filter (\<lambda>p. \<not> dict_has kw p \<and> \<not> dict_has kw (replace p [45] [95])) (nd_required_header n))"

definition missing_cookie :: "dep_node \<Rightarrow> (str, pyv) dict \<Rightarrow> err list" where
  "missing_cookie n kw = map (\<lambda>p. missing_field_error [S ''cookie'', p]) (filter (\<lambda>p. \<not> dict_has kw p) (nd_required_cookie n))"

text \<open>The first kind of parameter of which some are missing.\<close>

definition missing_params :: "dep_node \<Rightarrow> (str, pyv) dict \<Rightarrow> err list" where
  "missing_params n kw =
     (if missing_query n kw \<noteq> [] then missing_query n kw else if missing_body n kw \<noteq> [] then missing_body n kw
      else if missing_header n kw \<noteq> [] then missing_header n kw else missing_cookie n kw)"

definition named :: "str option \<Rightarrow> bool" where
  "named p \<longleftrightarrow> get_or p [] \<noteq> []"

definition request_param :: "specials \<Rightarrow> str option" where
  "request_param sp = (if named (sn_request sp) then sn_request sp else sn_connection sp)"

definition set_named :: "str option \<Rightarrow> pyv \<Rightarrow> (str, pyv) dict \<Rightarrow> (str, pyv) dict" where
  "set_named p v kw = (if named p then dict_set (get_or p []) v kw else kw)"

definition special_args :: "dep_node \<Rightarrow> (str, pyv) dict \<times> res_state \<Rightarrow> (str, pyv) dict \<times> res_state" where
  "special_args n ks =
     (let sp = nd_special n; (kw, st) = ks;
          st1 = (if named (sn_response sp) then st\<lparr>rv_response := True\<rparr> else st);
          st2 = (if named (sn_tasks sp) then st1\<lparr>rv_kwargs := dict_setdefault (S ''__bg_tasks__'') VTasks (rv_kwargs st1)\<rparr> else st1)
      in (set_named (sn_scopes sp) (VScopes (nd_scopes n))
            (set_named (sn_tasks sp) (dict_get (rv_kwargs st2) (S ''__bg_tasks__'') VTasks)
              (set_named (sn_response sp) VResponse (set_named (request_param sp) VRequest kw))), st2))"

subsection \<open>The synchronous resolver\<close>

definition log_call :: "dep_node \<Rightarrow> (str, pyv) dict \<Rightarrow> res_state \<Rightarrow> res_state" where
  "log_call n kw st = st\<lparr>rv_events := rv_events st @ [DepCall (nd_call n) kw]\<rparr>"

definition store_first :: "dep_node \<Rightarrow> pyv \<Rightarrow> res_state \<Rightarrow> res_state" where
  "store_first n v st =
     st\<lparr>rv_keys := dict_set (nd_key n) v (rv_keys st),
        rv_resolved := fold (\<lambda>a. dict_setdefault a v) (nd_aliases n) (dict_setdefault (nd_name n) v (rv_resolved st))\<rparr>"

definition call_sync :: "'q res_env \<Rightarrow> dep_node \<Rightarrow> (str, pyv) dict \<Rightarrow> res_state \<Rightarrow> res_state res" where
  "call_sync env n kw st =
     rbind (re_run env (nd_call n) kw) (\<lambda>v.
       if re_coro env (nd_call n) then Inl (RuntimeError (S ''Dependency returned a coroutine'')) else Inr (store_first n v (log_call n kw st)))"

definition sync_node :: "'q res_env \<Rightarrow> req_info \<Rightarrow> dep_node \<Rightarrow> res_state \<Rightarrow> res_state res" where
  "sync_node env info n st =
     (case native_security True (re_scheme env (nd_call n)) info of
        Some r \<Rightarrow> rbind r (\<lambda>v. Inr (store_value_all n v st))
      | None \<Rightarrow>
          (let kw = param_args n (ri_form info) st (fold (child_by_key n st) (nd_child_names n) [])
           in if missing_params n kw \<noteq> [] then Inr (st\<lparr>rv_errors := rv_errors st @ missing_params n kw\<rparr>)
              else
                (let (kw', st1) = special_args n (kw, st);
                     st2 = (case ri_form info of Some f \<Rightarrow> if nd_form n then st1\<lparr>rv_errors := rv_errors st1 @ re_form_errors env (nd_call n) f\<rparr> else st1 | None \<Rightarrow> st1)
                 in if nd_form n \<and> ri_form info \<noteq> None \<and> rv_errors st2 \<noteq> [] then Inr st2 else call_sync env n kw' st2)))"

definition resolve_deps_sync :: "'q res_env \<Rightarrow> dep_node list \<Rightarrow> (str, pyv) dict \<Rightarrow> res_state res" where
  "resolve_deps_sync env ns kw =
     rbind (dep_form env ns kw) (\<lambda>form.
       rfold (sync_node env (info_of kw form)) ns (start_state (pop_keys (info_keys @ body_keys) kw)))"

subsection \<open>The asynchronous resolver\<close>

definition call_async :: "'q res_env \<Rightarrow> dep_node \<Rightarrow> (str, pyv) dict \<Rightarrow> res_state \<Rightarrow> res_state res" where
  "call_async env n kw st = rbind (re_run env (nd_call n) kw) (\<lambda>v. Inr (store_value_all n (v, True) (log_call n kw st)))"

definition async_node :: "'q res_env \<Rightarrow> req_info \<Rightarrow> dep_node \<Rightarrow> res_state \<Rightarrow> res_state res" where
  "async_node env info n st =
     (case native_security True (re_scheme env (nd_call n)) info of
        Some r \<Rightarrow> rbind r (\<lambda>v. Inr (store_value_all n v st))
      | None \<Rightarrow>
          (let kw = param_args n (ri_form info) st (fold (child_by_name st) (nd_child_names n) [])
           in if missing_params n kw \<noteq> [] then Inr (st\<lparr>rv_errors := rv_errors st @ missing_params n kw\<rparr>)
              else (let (kw', st1) = special_args n (kw, st) in call_async env n kw' st1)))"

definition resolve_deps_async :: "'q res_env \<Rightarrow> dep_node list \<Rightarrow> (str, pyv) dict \<Rightarrow> res_state res" where
  "resolve_deps_async env ns kw =
     rbind (dep_form env ns kw) (\<lambda>form.
       rfold (async_node env (info_of kw form)) ns (start_state (pop_keys (info_keys @ body_keys) kw)))"

subsection \<open>The resolver for generators\<close>

text \<open>
  Its errors carry the state, in which the exits of the stacks are recorded; what an exit raises is swallowed. The keys of the
  body stay in the arguments and there is no form.
\<close>

definition cleanup_on_error :: "res_state \<Rightarrow> res_state" where
  "cleanup_on_error st =
     st\<lparr>rv_events := rv_events st @ map DepExit (rev (rv_function st)) @ map DepExit (rev (rv_request st)),
        rv_function := [], rv_request := []\<rparr>"

definition or_cleanup :: "res_state \<Rightarrow> 'a res \<Rightarrow> (exn \<times> res_state) + 'a" where
  "or_cleanup st r = (case r of Inl e \<Rightarrow> Inl (e, cleanup_on_error st) | Inr v \<Rightarrow> Inr v)"

definition log_enter :: "dep_node \<Rightarrow> (str, pyv) dict \<Rightarrow> res_state \<Rightarrow> res_state" where
  "log_enter n kw st =
     (let st1 = st\<lparr>rv_events := rv_events st @ [DepEnter (nd_call n) kw]\<rparr>
      in if nd_scope n = S ''request'' then st1\<lparr>rv_request := rv_request st1 @ [nd_call n]\<rparr>
         else st1\<lparr>rv_function := rv_function st1 @ [nd_call n]\<rparr>)"

text \<open>Generators are entered on the stack of their scope once their first part has run.\<close>

definition call_gen :: "'q res_env \<Rightarrow> dep_node \<Rightarrow> (str, pyv) dict \<Rightarrow> res_state \<Rightarrow> (exn \<times> res_state) + res_state" where
  "call_gen env n kw st =
     rbind (or_cleanup st (re_run env (nd_call n) kw)) (\<lambda>v.
       Inr (store_value_all n (v, True) (if nd_gen n then log_enter n kw st else log_call n kw st)))"

definition gen_node :: "'q res_env \<Rightarrow> req_info \<Rightarrow> dep_node \<Rightarrow> res_state \<Rightarrow> (exn \<times> res_state) + res_state" where
  "gen_node env info n st =
     (case native_security False (re_scheme env (nd_call n)) info of
        Some r \<Rightarrow> rbind (or_cleanup st r) (\<lambda>v. Inr (store_value_all n v st))
      | None \<Rightarrow>
          (let kw = param_args n None st (fold (child_by_name st) (nd_child_names n) []);
               st1 = st\<lparr>rv_errors := rv_errors st @ missing_query n kw\<rparr>;
               st2 = st1\<lparr>rv_errors := rv_errors st1 @ missing_body n kw\<rparr>
           in if nd_required_query n \<noteq> [] \<and> rv_errors st1 \<noteq> [] then Inr st1
              else if nd_required_body n \<noteq> [] \<and> rv_errors st2 \<noteq> [] then Inr st2
              else (let (kw', st3) = special_args n (kw, st2) in call_gen env n kw' st3)))"

definition resolve_deps_gen :: "'q res_env \<Rightarrow> dep_node list \<Rightarrow> (str, pyv) dict \<Rightarrow> (exn \<times> res_state) + res_state" where
  "resolve_deps_gen env ns kw = rfold (gen_node env (info_of kw None)) ns (start_state (pop_keys info_keys kw))"

subsection \<open>Properties: the resolvers agree\<close>

lemma dict_set_same: "map_of d k = Some v \<Longrightarrow> dict_set k v d = d"
  by (induction d) (auto simp: dict_set_def)

lemma dict_set_absent: "map_of d k = None \<Longrightarrow> dict_set k v d = d @ [(k, v)]"
  by (induction d) (auto simp: dict_set_def split: if_splits)

lemma setdefault_is_set: "map_of d k \<in> {None, Some v} \<Longrightarrow> dict_setdefault k v d = dict_set k v d"
  by (auto simp: dict_setdefault_def dict_set_same dict_set_absent)

lemma fold_setdefault_is_set:
  "(\<And>a. a \<in> set as \<Longrightarrow> map_of d a \<in> {None, Some v}) \<Longrightarrow> fold (\<lambda>a. dict_setdefault a v) as d = fold (\<lambda>a. dict_set a v) as d"
proof (induction as arbitrary: d)
  case (Cons a as)
  have "map_of (dict_set a v d) b \<in> {None, Some v}" if "b \<in> set as" for b
    using Cons.prems[of b] that by (auto simp: map_of_dict_set)
  then show ?case using Cons.IH[of "dict_set a v d"] Cons.prems[of a] by (simp add: setdefault_is_set)
qed simp

lemma map_of_fold_set: "map_of (fold (\<lambda>a. dict_set a v) as d) b = (if b \<in> set as then Some v else map_of d b)"
  by (induction as arbitrary: d) (auto simp: map_of_dict_set)

text \<open>The names under which the value of a node is found.\<close>

definition names_of :: "dep_node \<Rightarrow> str set" where
  "names_of n = insert (nd_name n) (set (nd_aliases n))"

text \<open>Every name belongs to one node, and the names of children are names of their nodes.\<close>

definition separate :: "dep_node list \<Rightarrow> bool" where
  "separate ns \<longleftrightarrow>
     distinct (map nd_key ns) \<and> (\<forall>m\<in>set ns. \<forall>n\<in>set ns. nd_key m \<noteq> nd_key n \<longrightarrow> names_of m \<inter> names_of n = {})
     \<and> (\<forall>n\<in>set ns. \<forall>c\<in>set (nd_child_names n). \<forall>m\<in>set ns. map_of (nd_children n) c = Some (nd_key m) \<longrightarrow> c \<in> names_of m)"

definition keyed :: "dep_node list \<Rightarrow> res_state \<Rightarrow> bool" where
  "keyed pre st \<longleftrightarrow>
     (\<forall>a. map_of (rv_resolved st) a \<noteq> None \<longrightarrow> (\<exists>n\<in>set pre. a \<in> names_of n))
     \<and> (\<forall>k v. map_of (rv_keys st) k = Some v \<longrightarrow> (\<exists>n\<in>set pre. nd_key n = k \<and> (\<forall>a\<in>names_of n. map_of (rv_resolved st) a = Some v)))"

definition unkeyed :: "res_state \<Rightarrow> res_state" where
  "unkeyed st = st\<lparr>rv_keys := []\<rparr>"

lemma resolved_store_all: "map_of (rv_resolved (store_value_all n (v, b) st)) a =
   (if a = nd_name n \<or> b \<and> a \<in> set (nd_aliases n) then Some v else map_of (rv_resolved st) a)"
  by (auto simp: store_value_all_def Let_def map_of_fold_set map_of_dict_set)

lemma unkeyed_small [simp]:
  "unkeyed (store_value_all n v st) = store_value_all n v (unkeyed st)" "rv_kwargs (unkeyed st) = rv_kwargs st"
  "rv_errors (unkeyed st) = rv_errors st" "rv_resolved (unkeyed st) = rv_resolved st" "unkeyed (log_call n kw st) = log_call n kw (unkeyed st)"
  "unkeyed (st\<lparr>rv_errors := es\<rparr>) = (unkeyed st)\<lparr>rv_errors := es\<rparr>"
  by (simp_all add: unkeyed_def store_value_all_def log_call_def)

lemma unkeyed_special: "special_args n (kw, unkeyed st) = (fst (special_args n (kw, st)), unkeyed (snd (special_args n (kw, st))))"
  by (simp add: special_args_def Let_def unkeyed_def)

lemma special_keeps:
  "rv_keys (snd (special_args n (kw, st))) = rv_keys st" "rv_resolved (snd (special_args n (kw, st))) = rv_resolved st"
  "rv_errors (snd (special_args n (kw, st))) = rv_errors st" "rv_events (snd (special_args n (kw, st))) = rv_events st"
  by (simp_all add: special_args_def Let_def)

lemma keyed_cong: "rv_keys st = rv_keys st' \<Longrightarrow> rv_resolved st = rv_resolved st' \<Longrightarrow> keyed pre st = keyed pre st'"
  by (simp add: keyed_def)

lemma keyed_key:
  assumes "keyed pre st" and "map_of (rv_keys st) k = Some v"
  obtains n where "n \<in> set pre" "nd_key n = k" "\<forall>a\<in>names_of n. map_of (rv_resolved st) a = Some v"
  using assms unfolding keyed_def by blast

lemma keyed_name: "keyed pre st \<Longrightarrow> map_of (rv_resolved st) a = Some v \<Longrightarrow> \<exists>n\<in>set pre. a \<in> names_of n"
  unfolding keyed_def by simp

lemma keyed_more: "keyed pre st \<Longrightarrow> keyed (pre @ [n]) st"
  unfolding keyed_def by (fastforce)

text \<open>A node whose names nobody else has leaves the values of the others alone.\<close>

lemma keyed_store_all:
  assumes "keyed pre st" and "\<And>m. m \<in> set pre \<Longrightarrow> names_of m \<inter> names_of n = {}"
  shows "keyed (pre @ [n]) (store_value_all n (v, b) st)"
proof -
  have keep: "map_of (rv_resolved (store_value_all n (v, b) st)) a = map_of (rv_resolved st) a" if "m \<in> set pre" "a \<in> names_of m" for m a
    using assms(2)[OF that(1)] that(2) by (auto simp: resolved_store_all names_of_def)
  have keys: "rv_keys (store_value_all n (v, b) st) = rv_keys st" by (simp add: store_value_all_def)
  have "\<exists>m\<in>set (pre @ [n]). a \<in> names_of m" if "map_of (rv_resolved (store_value_all n (v, b) st)) a \<noteq> None" for a
    using that assms(1) by (auto simp: resolved_store_all keyed_def names_of_def split: if_splits)
  moreover have "\<exists>m\<in>set (pre @ [n]). nd_key m = k \<and> (\<forall>a\<in>names_of m. map_of (rv_resolved (store_value_all n (v, b) st)) a = Some w)"
    if w: "map_of (rv_keys st) k = Some w" for k w
  proof -
    obtain m where "m \<in> set pre" "nd_key m = k" "\<forall>a\<in>names_of m. map_of (rv_resolved st) a = Some w"
      using keyed_key[OF assms(1) w] by blast
    then show ?thesis using keep by auto
  qed
  ultimately show ?thesis unfolding keyed_def keys by blast
qed

lemma store_first_is_all:
  assumes "keyed pre st" and "\<And>m. m \<in> set pre \<Longrightarrow> names_of m \<inter> names_of n = {}"
  shows "store_first n v st = (store_value_all n (v, True) st)\<lparr>rv_keys := dict_set (nd_key n) v (rv_keys st)\<rparr>"
proof -
  have none: "map_of (rv_resolved st) a = None" if "a \<in> names_of n" for a
    using assms that unfolding keyed_def by blast
  have "map_of (dict_set (nd_name n) v (rv_resolved st)) a \<in> {None, Some v}" if "a \<in> set (nd_aliases n)" for a
    using none[of a] that by (auto simp: map_of_dict_set names_of_def)
  then show ?thesis using none[of "nd_name n"]
    by (simp add: store_first_def store_value_all_def setdefault_is_set fold_setdefault_is_set names_of_def)
qed

lemma keyed_store_first:
  assumes "keyed pre st" and "\<And>m. m \<in> set pre \<Longrightarrow> names_of m \<inter> names_of n = {}"
  shows "keyed (pre @ [n]) (store_first n v st)"
proof -
  let ?s = "store_value_all n (v, True) st"
  have s: "keyed (pre @ [n]) ?s" by (rule keyed_store_all[OF assms])
  have keys: "rv_keys ?s = rv_keys st" by (simp add: store_value_all_def)
  have new: "\<forall>a\<in>names_of n. map_of (rv_resolved ?s) a = Some v" by (auto simp: resolved_store_all names_of_def)
  have res: "rv_resolved (store_first n v st) = rv_resolved ?s" "rv_keys (store_first n v st) = dict_set (nd_key n) v (rv_keys st)"
    using store_first_is_all[OF assms] by simp_all
  have "\<exists>m\<in>set (pre @ [n]). nd_key m = k \<and> (\<forall>a\<in>names_of m. map_of (rv_resolved ?s) a = Some w)"
    if "map_of (dict_set (nd_key n) v (rv_keys st)) k = Some w" for k w
  proof (cases "k = nd_key n")
    case True
    then show ?thesis using that new by (auto simp: map_of_dict_set)
  next
    case False
    then have "map_of (rv_keys ?s) k = Some w" using that keys by (simp add: map_of_dict_set)
    then show ?thesis using keyed_key[OF s] by metis
  qed
  then show ?thesis using s unfolding keyed_def res by blast
qed

lemma children_agree:
  assumes "keyed pre st" and "separate ns" and "n \<in> set ns" and "set pre \<subseteq> set ns" and "c \<in> set (nd_child_names n)"
  shows "child_by_key n st c kw = child_by_name (unkeyed st) c kw"
proof (cases "Option.bind (map_of (nd_children n) c) (map_of (rv_keys st))")
  case None
  then show ?thesis by (simp add: child_by_key_def child_by_name_def)
next
  case (Some v)
  then obtain k where k: "map_of (nd_children n) c = Some k" "map_of (rv_keys st) k = Some v" by (auto simp: bind_eq_Some_conv)
  obtain m where m: "m \<in> set pre" "nd_key m = k" "\<forall>a\<in>names_of m. map_of (rv_resolved st) a = Some v"
    using keyed_key[OF assms(1) k(2)] by blast
  have "c \<in> names_of m" using assms(2-5) m k(1) unfolding separate_def by blast
  then show ?thesis using m(3) Some by (simp add: child_by_key_def child_by_name_def)
qed

lemma fold_cong_set: "(\<And>x acc. x \<in> set xs \<Longrightarrow> f x acc = g x acc) \<Longrightarrow> fold f xs a = fold g xs a"
  by (induction xs arbitrary: a) auto

lemma param_args_unkeyed [simp]: "param_args n form (unkeyed st) kw = param_args n form st kw"
  by (simp add: param_args_def)

lemma node_agrees:
  assumes st: "keyed pre st" and sep: "separate ns" and n: "n \<in> set ns" "set pre \<subseteq> set ns" "nd_key n \<notin> nd_key ` set pre"
    and plain: "\<not> nd_form n" "\<not> re_coro env (nd_call n)"
  shows "async_node env info n (unkeyed st) = map_sum id unkeyed (sync_node env info n st)"
    and "sync_node env info n st = Inr st' \<Longrightarrow> keyed (pre @ [n]) st'"
proof -
  have apart: "names_of m \<inter> names_of n = {}" if "m \<in> set pre" for m
    using sep n that unfolding separate_def by (metis image_eqI subsetD)
  let ?kw = "param_args n (ri_form info) st (fold (child_by_key n st) (nd_child_names n) [])"
  have kids: "fold (child_by_name (unkeyed st)) (nd_child_names n) [] = fold (child_by_key n st) (nd_child_names n) []"
    using fold_cong_set[of "nd_child_names n" "child_by_key n st" "child_by_name (unkeyed st)" "[]"] children_agree[OF st sep n(1,2)] by simp
  obtain kw' st1 where sp: "special_args n (?kw, st) = (kw', st1)" by (cases "special_args n (?kw, st)")
  have k1: "keyed pre st1" using special_keeps[of n ?kw st] keyed_cong[of st1 st pre] st by (simp add: sp)
  have k2: "keyed pre (log_call n kw' st1)" using k1 keyed_cong[of "log_call n kw' st1" st1 pre] by (simp add: log_call_def)
  note first = store_first_is_all[OF k2 apart] keyed_store_first[OF k2 apart]
  have call: "call_async env n kw' (unkeyed st1) = map_sum id unkeyed (call_sync env n kw' st1)"
    using plain(2) first(1) by (cases "re_run env (nd_call n) kw'") (simp_all add: call_async_def call_sync_def, simp add: unkeyed_def store_value_all_def log_call_def)
  show "async_node env info n (unkeyed st) = map_sum id unkeyed (sync_node env info n st)"
  proof (cases "native_security True (re_scheme env (nd_call n)) info")
    case None
    then show ?thesis using plain(1) call sp unkeyed_special[of n ?kw st]
      by (simp add: async_node_def sync_node_def Let_def kids option.case_eq_if)
  next
    case (Some r)
    then show ?thesis by (cases r) (simp_all add: async_node_def sync_node_def)
  qed
  show "keyed (pre @ [n]) st'" if ok: "sync_node env info n st = Inr st'"
  proof (cases "native_security True (re_scheme env (nd_call n)) info")
    case None
    show ?thesis
    proof (cases "missing_params n ?kw = []")
      case True
      then have "call_sync env n kw' st1 = Inr st'" using None ok plain(1) sp by (simp add: sync_node_def Let_def option.case_eq_if split: if_splits)
      then obtain v where "st' = store_first n v (log_call n kw' st1)"
        using plain(2) by (cases "re_run env (nd_call n) kw'") (auto simp: call_sync_def)
      then show ?thesis using first(2) by simp
    next
      case False
      then have "st' = st\<lparr>rv_errors := rv_errors st @ missing_params n ?kw\<rparr>" using None ok by (simp add: sync_node_def Let_def)
      then show ?thesis using keyed_more[OF st, of n] keyed_cong[of st' st "pre @ [n]"] by simp
    qed
  next
    case (Some r)
    then obtain v b where "st' = store_value_all n (v, b) st" using ok by (cases r) (auto simp: sync_node_def)
    then show ?thesis using keyed_store_all[OF st apart] by simp
  qed
qed

lemma nodes_agree:
  assumes "separate (pre @ post)" and "\<forall>n\<in>set post. \<not> nd_form n \<and> \<not> re_coro env (nd_call n)" and "keyed pre st"
  shows "rfold (async_node env info) post (unkeyed st) = map_sum id unkeyed (rfold (sync_node env info) post st)"
  using assms
proof (induction post arbitrary: pre st)
  case (Cons n post)
  have key: "nd_key n \<notin> nd_key ` set pre" using Cons.prems(1) by (auto simp: separate_def)
  have sub: "n \<in> set (pre @ n # post)" "set pre \<subseteq> set (pre @ n # post)" by auto
  have plain: "\<not> nd_form n" "\<not> re_coro env (nd_call n)" using Cons.prems(2) by auto
  note agree = node_agrees[OF Cons.prems(3,1) sub key plain, of info]
  show ?case
  proof (cases "sync_node env info n st")
    case (Inr st')
    have "keyed (pre @ [n]) st'" by (rule agree(2)[OF Inr])
    then have "rfold (async_node env info) post (unkeyed st') = map_sum id unkeyed (rfold (sync_node env info) post st')"
      using Cons.IH[of "pre @ [n]" st'] Cons.prems(1,2) by (simp add: id_def)
    then show ?thesis using agree(1) Inr by (simp add: id_def)
  qed (use agree(1) in simp)
qed simp

text \<open>
  The asynchronous resolver does what the synchronous one does: the same calls with the same arguments in the same
  order, the same values, errors and exceptions, provided that no name stands for two different dependencies, that no
  dependency reads a form and that none returns a coroutine.
\<close>

theorem resolvers_agree:
  assumes "separate ns" and "\<forall>n\<in>set ns. \<not> nd_form n \<and> \<not> re_coro env (nd_call n)"
  shows "resolve_deps_async env ns kw = map_sum id (\<lambda>st. st\<lparr>rv_keys := []\<rparr>) (resolve_deps_sync env ns kw)"
proof -
  have "unkeyed (start_state k) = start_state k" "keyed [] (start_state k)" for k by (simp_all add: unkeyed_def start_state_def keyed_def)
  then have "rfold (async_node env i) ns (start_state k) = map_sum id unkeyed (rfold (sync_node env i) ns (start_state k))" for i k
    using nodes_agree[of "[]" ns env "start_state k" i] assms by simp
  moreover have "unkeyed = (\<lambda>st. st\<lparr>rv_keys := []\<rparr>)" by (simp add: fun_eq_iff unkeyed_def)
  ultimately show ?thesis by (cases "dep_form env ns kw") (simp_all add: resolve_deps_async_def resolve_deps_sync_def)
qed

subsection \<open>Properties: generators are closed\<close>

definition entered :: "dep_event list \<Rightarrow> nat list" where
  "entered es = List.map_filter (\<lambda>e. case e of DepEnter c kw \<Rightarrow> Some c | _ \<Rightarrow> None) es"

definition exits :: "dep_event list \<Rightarrow> bool" where
  "exits es \<longleftrightarrow> list_ex (\<lambda>e. case e of DepExit c \<Rightarrow> True | _ \<Rightarrow> False) es"

lemma shuffles_single: "ys @ [z] \<in> shuffles [z] ys"
  by (induction ys) (auto simp: Cons_in_shuffles_iff)

lemma shuffles_snoc: "zs \<in> shuffles xs ys \<Longrightarrow> zs @ [z] \<in> shuffles (xs @ [z]) ys"
  by (induction xs ys arbitrary: zs rule: shuffles.induct) (auto simp: Cons_in_shuffles_iff shuffles_single)

text \<open>What was entered is on the two stacks, each in order, and nothing has been left.\<close>

definition balanced :: "res_state \<Rightarrow> bool" where
  "balanced st \<longleftrightarrow> \<not> exits (rv_events st) \<and> entered (rv_events st) \<in> shuffles (rv_function st) (rv_request st)"

definition cleaned :: "res_state \<Rightarrow> bool" where
  "cleaned st \<longleftrightarrow>
     (\<exists>es fs rs. rv_events st = es @ map DepExit (rev fs) @ map DepExit (rev rs) \<and> \<not> exits es \<and> entered es \<in> shuffles fs rs)"

lemma balanced_cleanup: "balanced st \<Longrightarrow> cleaned (cleanup_on_error st)"
  unfolding balanced_def cleaned_def cleanup_on_error_def by (intro exI[of _ "rv_events st"]) auto

lemma balanced_cong:
  "rv_events st = rv_events st' \<Longrightarrow> rv_function st = rv_function st' \<Longrightarrow> rv_request st = rv_request st' \<Longrightarrow> balanced st = balanced st'"
  by (simp add: balanced_def)

lemma balanced_store [simp]: "balanced (store_value_all n v st) = balanced st"
  by (rule balanced_cong) (simp_all add: store_value_all_def)

lemma balanced_errors [simp]: "balanced (st\<lparr>rv_errors := es\<rparr>) = balanced st"
  by (simp add: balanced_def)

lemma balanced_special [simp]: "balanced (snd (special_args n ks)) = balanced (snd ks)"
  by (rule balanced_cong) (simp_all add: special_args_def Let_def split: prod.splits)

lemma balanced_call: "balanced st \<Longrightarrow> balanced (log_call n kw st)"
  by (simp add: balanced_def log_call_def entered_def exits_def map_filter_def)

lemma balanced_enter: "balanced st \<Longrightarrow> balanced (log_enter n kw st)"
  using shuffles_snoc[of "entered (rv_events st)" "rv_function st" "rv_request st" "nd_call n"]
    shuffles_snoc[of "entered (rv_events st)" "rv_request st" "rv_function st" "nd_call n"]
  by (simp add: balanced_def log_enter_def entered_def exits_def map_filter_def Let_def shuffles_commutes)

lemma gen_node_balanced:
  assumes "balanced st"
  shows "case gen_node env info n st of Inl (e, st') \<Rightarrow> cleaned st' | Inr st' \<Rightarrow> balanced st'"
proof (cases "native_security False (re_scheme env (nd_call n)) info")
  case None
  let ?kw = "param_args n None st (fold (child_by_name st) (nd_child_names n) [])"
  have call: "case call_gen env n kw' st' of Inl (e, s) \<Rightarrow> cleaned s | Inr s \<Rightarrow> balanced s" if "balanced st'" for kw' st'
    using that by (cases "re_run env (nd_call n) kw'") (simp_all add: call_gen_def or_cleanup_def balanced_cleanup balanced_call balanced_enter)
  have after: "case (case special_args n (?kw, s) of (k, t) \<Rightarrow> call_gen env n k t) of Inl (e, u) \<Rightarrow> cleaned u | Inr u \<Rightarrow> balanced u"
    if "balanced s" for s
    using call[of "snd (special_args n (?kw, s))" "fst (special_args n (?kw, s))"] that by (simp add: case_prod_unfold)
  show ?thesis using None assms by (simp add: gen_node_def Let_def after)
next
  case (Some r)
  then show ?thesis using assms by (cases r) (auto simp: gen_node_def or_cleanup_def balanced_cleanup)
qed

lemma gen_nodes_balanced:
  "balanced st \<Longrightarrow> case rfold (gen_node env info) ns st of Inl (e, st') \<Rightarrow> cleaned st' | Inr st' \<Rightarrow> balanced st'"
proof (induction ns arbitrary: st)
  case (Cons n ns)
  show ?case using gen_node_balanced[OF Cons.prems, of env info n] Cons.IH
    by (cases "gen_node env info n st") auto
qed simp


subsection \<open>Properties: every dependency gets the values of its own dependencies\<close>

fun is_native :: "scheme option \<Rightarrow> bool" where
  "is_native (Some (HTTPBearer s)) = True"
| "is_native (Some (HTTPBase s)) = True"
| "is_native (Some (HTTPBasic s)) = True"
| "is_native _ = False"

lemma native_security_iff: "native_security always sc info = None \<longleftrightarrow> \<not> is_native sc"
  by (cases "(always, sc, info)" rule: native_security.cases) auto

text \<open>A parameter of a callable is a dependency, a value of the request or a special object, never two of them.\<close>

definition injected_names :: "specials \<Rightarrow> str set" where
  "injected_names sp = {get_or (request_param sp) [], get_or (sn_response sp) [], get_or (sn_tasks sp) [], get_or (sn_scopes sp) []}"

definition one_source :: "dep_node \<Rightarrow> bool" where
  "one_source n \<longleftrightarrow> dom (map_of (nd_children n)) \<subseteq> set (nd_child_names n)
     \<and> set (nd_child_names n) \<inter> (set (nd_params n) \<union> injected_names (nd_special n)) = {}"

lemma fold_keeps: "(\<And>x d. x \<in> set xs \<Longrightarrow> P d \<Longrightarrow> P (f x d)) \<Longrightarrow> P d \<Longrightarrow> P (fold f xs d)"
  by (induction xs arbitrary: d) auto

lemma child_args_by_key:
  assumes "c \<in> set cs" and "Option.bind (map_of (nd_children n) c) (map_of (rv_keys st)) = Some w"
  shows "map_of (fold (child_by_key n st) cs d) c = Some w"
  using assms(1)
proof (induction cs rule: rev_induct)
  case (snoc b cs)
  show ?case
  proof (cases "b = c")
    case True
    then show ?thesis using assms(2) by (simp add: child_by_key_def map_of_dict_set)
  next
    case False
    then have "map_of (child_by_key n st b e) c = map_of e c" for e
      by (auto simp: child_by_key_def child_by_name_def map_of_dict_set split: option.splits)
    then show ?thesis using snoc False by simp
  qed
qed simp

lemma param_args_keeps:
  assumes "map_of kw c = Some w" and "c \<notin> set (nd_params n)"
  shows "map_of (param_args n form st kw) c = Some w"
proof -
  have take: "map_of (take_params ps src d) c = map_of d c" if "c \<notin> set ps" for ps src d
    unfolding take_params_def by (rule fold_keeps[where P = "\<lambda>e. map_of e c = map_of d c"])
      (use that in \<open>auto simp: map_of_dict_set split: option.splits\<close>)
  have fill: "map_of (fill_params ps src d) c = map_of d c" if "c \<notin> set ps" for ps src d
    unfolding fill_params_def by (rule fold_keeps[where P = "\<lambda>e. map_of e c = map_of d c"])
      (use that in \<open>auto simp: map_of_dict_setdefault split: option.splits\<close>)
  have defaults: "map_of (fold (\<lambda>(p, v). dict_setdefault p v) ps d) c = Some w" if "map_of d c = Some w" for ps and d :: "(str, pyv) dict"
    by (rule fold_keeps[where P = "\<lambda>e. map_of e c = Some w"]) (use that in \<open>auto simp: map_of_dict_setdefault split: option.splits\<close>)
  show ?thesis unfolding param_args_def Let_def
    by (rule defaults) (use assms take fill in \<open>auto split: option.splits\<close>)
qed

lemma special_args_keeps:
  "c \<notin> injected_names (nd_special n) \<Longrightarrow> map_of (fst (special_args n (kw, st))) c = map_of kw c"
  by (auto simp: special_args_def set_named_def injected_names_def Let_def map_of_dict_set)

text \<open>The values of the nodes before are a solution: each is the result of a call with the values of its own dependencies.\<close>

definition solves :: "'q res_env \<Rightarrow> dep_node list \<Rightarrow> dep_node \<Rightarrow> res_state \<Rightarrow> bool" where
  "solves env ns n st \<longleftrightarrow>
     (\<exists>args v. DepCall (nd_call n) args \<in> set (rv_events st) \<and> re_run env (nd_call n) args = Inr v \<and> map_of (rv_keys st) (nd_key n) = Some v
        \<and> (\<forall>c m. m \<in> set ns \<longrightarrow> \<not> is_native (re_scheme env (nd_call m)) \<longrightarrow> map_of (nd_children n) c = Some (nd_key m)
             \<longrightarrow> map_of args c = map_of (rv_keys st) (nd_key m)))"

definition solved :: "'q res_env \<Rightarrow> dep_node list \<Rightarrow> res_state \<Rightarrow> bool" where
  "solved env ns st \<longleftrightarrow> (\<forall>n\<in>set ns. is_native (re_scheme env (nd_call n)) \<or> solves env ns n st)"

definition children_first :: "dep_node list \<Rightarrow> bool" where
  "children_first ns \<longleftrightarrow> (\<forall>pre n post. ns = pre @ n # post \<longrightarrow> snd ` set (nd_children n) \<subseteq> node_keys pre)"

lemma sync_node_errors:
  assumes "sync_node env info n st = Inr st'"
  shows "\<exists>es. rv_errors st' = rv_errors st @ es"
proof (cases "native_security True (re_scheme env (nd_call n)) info")
  case None
  have call: "rv_errors s' = rv_errors s" if "call_sync env n kw s = Inr s'" for kw s s'
    using that by (cases "re_run env (nd_call n) kw") (auto simp: call_sync_def store_first_def log_call_def split: if_splits)
  show ?thesis using assms None special_keeps(3)[of n _ st]
    by (auto simp: sync_node_def Let_def case_prod_unfold split: if_splits option.splits dest!: call)
next
  case (Some r)
  then show ?thesis using assms by (cases r) (auto simp: sync_node_def store_value_all_def)
qed

lemma sync_nodes_errors: "rfold (sync_node env info) ns st = Inr st' \<Longrightarrow> \<exists>es. rv_errors st' = rv_errors st @ es"
proof (induction ns arbitrary: st)
  case (Cons n ns)
  then show ?case by (cases "sync_node env info n st") (auto dest!: sync_node_errors, metis append.assoc)
qed simp

lemma sync_node_called:
  assumes ok: "sync_node env info n st = Inr st'" "rv_errors st' = []" and nat: "\<not> is_native (re_scheme env (nd_call n))"
  shows "\<exists>args v. re_run env (nd_call n) args = Inr v \<and> rv_keys st' = dict_set (nd_key n) v (rv_keys st)
    \<and> rv_events st' = rv_events st @ [DepCall (nd_call n) args]
    \<and> (one_source n \<longrightarrow> (\<forall>c k w. map_of (nd_children n) c = Some k \<and> map_of (rv_keys st) k = Some w \<longrightarrow> map_of args c = Some w))"
proof -
  have none: "native_security True (re_scheme env (nd_call n)) info = None" using nat by (simp add: native_security_iff)
  let ?kw = "param_args n (ri_form info) st (fold (child_by_key n st) (nd_child_names n) [])"
  obtain args st1 where sp: "special_args n (?kw, st) = (args, st1)" by (cases "special_args n (?kw, st)")
  have miss: "missing_params n ?kw = []" using ok none by (auto simp: sync_node_def Let_def split: if_splits)
  have "\<exists>s2. call_sync env n args s2 = Inr st' \<and> rv_keys s2 = rv_keys st1 \<and> rv_events s2 = rv_events st1"
    using ok none miss sp by (auto simp: sync_node_def Let_def split: if_splits option.splits)
  then obtain s2 where s2: "call_sync env n args s2 = Inr st'" "rv_keys s2 = rv_keys st" "rv_events s2 = rv_events st"
    using special_keeps(1,4)[of n ?kw st] sp by auto
  then obtain v where v: "re_run env (nd_call n) args = Inr v" "st' = store_first n v (log_call n args s2)"
    by (cases "re_run env (nd_call n) args") (auto simp: call_sync_def split: if_splits)
  have "map_of args c = Some w"
    if src: "one_source n" and k: "map_of (nd_children n) c = Some k" "map_of (rv_keys st) k = Some w" for c k w
  proof -
    have c: "c \<in> set (nd_child_names n)" using src k(1) by (auto simp: one_source_def)
    then have "map_of (fold (child_by_key n st) (nd_child_names n) []) c = Some w" using k by (intro child_args_by_key) auto
    then have "map_of ?kw c = Some w" using src c by (intro param_args_keeps) (auto simp: one_source_def)
    then show ?thesis using special_args_keeps[of c n ?kw st] src c sp by (auto simp: one_source_def)
  qed
  then show ?thesis using v s2 by (auto simp: store_first_def log_call_def)
qed

lemma children_known:
  assumes "children_first ns" and "n \<in> set ns" and "map_of (nd_children n) c = Some k"
  shows "k \<in> node_keys ns"
proof -
  obtain pre post where ns: "ns = pre @ n # post" using split_list[OF assms(2)] by blast
  have "k \<in> snd ` set (nd_children n)" using map_of_SomeD[OF assms(3)] by force
  also have "\<dots> \<subseteq> node_keys pre" using assms(1) ns by (simp add: children_first_def)
  finally show ?thesis using ns by simp
qed

lemma solved_step:
  assumes solved: "solved env pre st" and first: "children_first (pre @ [n])" and new: "nd_key n \<notin> node_keys pre" and src: "one_source n"
    and ok: "sync_node env info n st = Inr st'" "rv_errors st' = []"
  shows "solved env (pre @ [n]) st'"
proof (cases "is_native (re_scheme env (nd_call n))")
  case True
  then have same: "rv_keys st' = rv_keys st" "rv_events st' = rv_events st"
    using ok by (auto simp: sync_node_def store_value_all_def native_security_iff split: option.splits elim: native_security.elims)
  then show ?thesis using solved True by (auto simp: solved_def solves_def)
next
  case False
  obtain args v where call: "re_run env (nd_call n) args = Inr v" "rv_keys st' = dict_set (nd_key n) v (rv_keys st)"
      "rv_events st' = rv_events st @ [DepCall (nd_call n) args]"
      "\<And>c k w. map_of (nd_children n) c = Some k \<Longrightarrow> map_of (rv_keys st) k = Some w \<Longrightarrow> map_of args c = Some w"
    using sync_node_called[OF ok False] src by blast
  have old: "map_of (rv_keys st') k = map_of (rv_keys st) k" if "k \<in> node_keys pre" for k
    using that new call(2) by (auto simp: map_of_dict_set)
  have firstpre: "children_first pre" using first unfolding children_first_def by (metis append.assoc append_Cons)
  have kids: "k \<in> node_keys pre" if "map_of (nd_children n) c = Some k" for c k
    using first that unfolding children_first_def by (metis image_eqI map_of_SomeD snd_conv subsetD)
  have "solves env (pre @ [n]) m st'" if m: "m \<in> set pre" "\<not> is_native (re_scheme env (nd_call m))" for m
  proof -
    obtain a w where a: "DepCall (nd_call m) a \<in> set (rv_events st)" "re_run env (nd_call m) a = Inr w" "map_of (rv_keys st) (nd_key m) = Some w"
        "\<And>c u. u \<in> set pre \<Longrightarrow> \<not> is_native (re_scheme env (nd_call u)) \<Longrightarrow> map_of (nd_children m) c = Some (nd_key u) \<Longrightarrow> map_of a c = map_of (rv_keys st) (nd_key u)"
      using solved m unfolding solved_def solves_def by blast
    have "map_of a c = map_of (rv_keys st') (nd_key u)"
      if u: "u \<in> set (pre @ [n])" "\<not> is_native (re_scheme env (nd_call u))" "map_of (nd_children m) c = Some (nd_key u)" for c u
    proof -
      have "nd_key u \<in> node_keys pre" by (rule children_known[OF firstpre m(1) u(3)])
      then have "u \<in> set pre" using u(1) new by auto
      then show ?thesis using a(4)[OF _ u(2,3)] old[of "nd_key u"] by (auto simp: node_keys_def)
    qed
    moreover have "map_of (rv_keys st') (nd_key m) = Some w" using a(3) old[of "nd_key m"] m(1) by (auto simp: node_keys_def)
    ultimately show ?thesis using a(1,2) call(3) unfolding solves_def by (intro exI[of _ a] exI[of _ w]) auto
  qed
  moreover have "solves env (pre @ [n]) n st'"
  proof -
    have "map_of args c = map_of (rv_keys st') (nd_key u)"
      if u: "u \<in> set (pre @ [n])" "\<not> is_native (re_scheme env (nd_call u))" "map_of (nd_children n) c = Some (nd_key u)" for c u
    proof -
      have k: "nd_key u \<in> node_keys pre" by (rule kids[OF u(3)])
      then have "u \<in> set pre" using u(1) new by auto
      then obtain w where "map_of (rv_keys st) (nd_key u) = Some w" using solved u(2) unfolding solved_def solves_def by blast
      then show ?thesis using call(4)[OF u(3)] old[OF k] by simp
    qed
    then show ?thesis using call(1,2,3) unfolding solves_def by (intro exI[of _ args] exI[of _ v]) (auto simp: map_of_dict_set)
  qed
  ultimately show ?thesis by (auto simp: solved_def)
qed

lemma nodes_solved:
  assumes "rfold (sync_node env info) post st = Inr st'" and "rv_errors st' = []" and "solved env pre st" and "children_first (pre @ post)"
    and "distinct (map nd_key (pre @ post))" and "\<forall>n\<in>set post. one_source n"
  shows "solved env (pre @ post) st'"
  using assms
proof (induction post arbitrary: pre st)
  case (Cons n post)
  then obtain s1 where s1: "sync_node env info n st = Inr s1" "rfold (sync_node env info) post s1 = Inr st'"
    by (cases "sync_node env info n st") auto
  have "rv_errors s1 = []" using sync_nodes_errors[OF s1(2)] Cons.prems(2) by auto
  moreover have "children_first (pre @ [n])" using Cons.prems(4) unfolding children_first_def by (metis append.assoc append_Cons append_Nil)
  moreover have "nd_key n \<notin> node_keys pre" using Cons.prems(5) by (auto simp: node_keys_def)
  ultimately have "solved env (pre @ [n]) s1" using solved_step[OF Cons.prems(3) _ _ _ s1(1)] Cons.prems(6) by simp
  then show ?case using Cons.IH[OF s1(2) Cons.prems(2), of "pre @ [n]"] Cons.prems(4-6) by simp
qed simp


subsection \<open>Examples and limits\<close>

definition plain_node :: "str \<Rightarrow> nat \<Rightarrow> str list \<Rightarrow> (str \<times> nat) list \<Rightarrow> dep_node" where
  "plain_node name call aliases children =
     \<lparr>nd_name = name, nd_call = call, nd_key = (call, [], []), nd_use_cache = True, nd_aliases = aliases, nd_child_names = map fst children,
      nd_children = map (\<lambda>(c, k). (c, (k, [], []))) children, nd_params = [], nd_required_query = [], nd_required_header = [],
      nd_required_cookie = [], nd_required_body = [], nd_defaults = [], nd_form = False, nd_scopes = [], nd_scope = S ''function'',
      nd_special = \<lparr>sn_request = None, sn_websocket = None, sn_connection = None, sn_response = None, sn_tasks = None, sn_scopes = None\<rparr>,
      nd_coro = False, nd_gen = False\<rparr>"

text \<open>Callables that return ten times their number, except number 3, which returns its argument named 2.\<close>

definition example_resolver where
  "example_resolver =
     \<lparr>re_run = (\<lambda>c kw. Inr (if c = 3 then dict_get kw [2] VNone else VInt (10 * int c))), re_coro = (\<lambda>c. False), re_scheme = (\<lambda>c. None),
      re_form_errors = (\<lambda>c f. []), re_parsers = example_parsers\<rparr>"

text \<open>
  An endpoint with the dependencies 1 (as parameter 1), 2 (as parameter 2 of something) and 3, which has dependency 1 as its
  parameter 2: dependency 1 is met again under the name 2.
\<close>

definition shared_name_nodes :: "dep_node list" where
  "shared_name_nodes = [plain_node [1] 1 [[2]] [], plain_node [2] 2 [] [], plain_node [3] 3 [] [([2], 1)]]"

definition other_name_nodes :: "dep_node list" where
  "other_name_nodes = [plain_node [1] 1 [] [], plain_node [2] 2 [] [], plain_node [3] 3 [] [([2], 2)]]"

lemmas resolver_eval =
  resolve_deps_sync_def resolve_deps_async_def sync_node_def async_node_def example_resolver_def plain_node_def dep_form_def
  start_state_def param_args_def take_params_def fill_params_def missing_params_def missing_query_def missing_body_def missing_header_def
  missing_cookie_def special_args_def set_named_def named_def request_param_def call_sync_def call_async_def store_first_def
  store_value_all_def log_call_def child_by_key_def child_by_name_def Let_def pop_keys_def info_keys_def body_keys_def dict_del_def
  dict_set_def dict_setdefault_def dict_get_def info_of_def

lemma sync_shared_name:
  "\<exists>st. resolve_deps_sync example_resolver shared_name_nodes [] = Inr st \<and> rv_errors st = [] \<and> map_of (rv_resolved st) [3] = Some (VInt 10)"
  by (simp add: shared_name_nodes_def resolver_eval)

text \<open>
  The asynchronous resolver looks children up by name only, and the last value stored under a name wins: dependency 3 gets the
  value of dependency 2 instead of that of dependency 1.
\<close>

lemma async_shared_name_wrong:
  "\<exists>st. resolve_deps_async example_resolver shared_name_nodes [] = Inr st \<and> rv_errors st = [] \<and> map_of (rv_resolved st) [3] = Some (VInt 20)"
  by (simp add: shared_name_nodes_def resolver_eval)

theorem resolvers_agree_witness:
  "resolve_deps_async example_resolver other_name_nodes [] =
     map_sum id (\<lambda>st. st\<lparr>rv_keys := []\<rparr>) (resolve_deps_sync example_resolver other_name_nodes [])"
  by (rule resolvers_agree)
     (simp_all add: separate_def other_name_nodes_def plain_node_def names_of_def example_resolver_def)

lemma children_firstI:
  assumes "\<And>i. i < length ns \<Longrightarrow> snd ` set (nd_children (ns ! i)) \<subseteq> node_keys (take i ns)"
  shows "children_first ns"
proof -
  have "snd ` set (nd_children n) \<subseteq> node_keys pre" if "ns = pre @ n # post" for pre n post
    using assms[of "length pre"] that by simp
  then show ?thesis by (simp add: children_first_def)
qed


text \<open>
  A dependency whose required parameter is missing is skipped and the error noted, but a dependency that needs its value is
  called all the same, without that argument.
\<close>

lemma called_without_argument:
  "\<exists>st. resolve_deps_sync example_resolver
     [(plain_node [2] 2 [] [])\<lparr>nd_params := [[9]], nd_required_query := [[9]]\<rparr>, plain_node [3] 3 [] [([2], 2)]] [] = Inr st
     \<and> rv_errors st = [missing_field_error [S ''query'', [9]]] \<and> rv_events st = [DepCall 3 []]"
  by (simp add: resolver_eval)

text \<open>
  A required header or cookie is looked up under its alias, while the arguments have the names of parameters: unless the alias is the
  name with dashes for underscores, it is reported as missing although the request has it.
\<close>

lemma aliased_header_missing:
  "r \<in> set (nd_required_header n) \<Longrightarrow> \<not> dict_has kw r \<Longrightarrow> \<not> dict_has kw (replace r [45] [95]) \<Longrightarrow> missing_params n kw \<noteq> []"
  "r \<in> set (nd_required_cookie n) \<Longrightarrow> \<not> dict_has kw r \<Longrightarrow> missing_params n kw \<noteq> []"
  by (auto simp: missing_params_def missing_header_def missing_cookie_def filter_empty_conv)

subsection \<open>Properties: security schemes\<close>

text \<open>The resolvers differ in what malformed credentials do when errors are not automatic.\<close>

lemma malformed_basic_differs:
  assumes "\<not> hs_auto_error s" and "lower (ri_scheme info) = S ''basic''" and "ri_credentials info \<noteq> []" and "decode_basic (ri_credentials info) = None"
  shows "native_basic True s info = Inl (basic_not_authenticated_error s)" and "native_basic False s info = Inr (VNone, False)"
  using assms by (auto simp: native_basic_def S_def lower_def)

lemma utf8_decode_ascii_bytes:
  assumes "list_all (\<lambda>b. b < 128) data"
  shows "utf8_decode (map char_of data) = Inr data"
proof -
  have "map of_char (map char_of data) = data" using assms by (induction data) auto
  moreover have "utf8_decode_replace data = data" "utf8_units data = data" using assms by (auto simp: list_all_iff intro!: utf8_decode_ascii utf8_units_ascii)
  ultimately show ?thesis by (simp add: utf8_decode_def)
qed

lemma no_header_no_scheme: "get_or (authorization h) [] = [] \<Longrightarrow> get_authorization_scheme_param (authorization h) = ([], [])"
  by (simp add: get_authorization_scheme_param_def)

text \<open>
  The shortcut of the resolvers for HTTP security schemes is the scheme: if the core splits the authorization header as the scheme
  does, bearer and plain HTTP schemes give the same credentials or the same refusal as calling them, and so does basic
  authentication with non-empty credentials that are not text outside of ASCII.
\<close>

theorem native_security_exact:
  assumes "(ri_scheme info, ri_credentials info) = get_authorization_scheme_param (authorization h)" and "hs_scheme s \<noteq> []"
  shows "native_security always (Some (HTTPBearer s)) info = Some (map_sum id (\<lambda>v. (v, True)) (scheme_call (HTTPBearer s) h))
    \<and> native_security always (Some (HTTPBase s)) info = Some (map_sum id (\<lambda>v. (v, True)) (scheme_call (HTTPBase s) h))
    \<and> (ri_credentials info \<noteq> [] \<and> (\<forall>data. b64decode (ri_credentials info) = Inr data \<longrightarrow> list_all (\<lambda>b. b < 128) data) \<longrightarrow>
        native_security True (Some (HTTPBasic s)) info = Some (map_sum id (\<lambda>v. (v, True)) (scheme_call (HTTPBasic s) h)))"
proof -
  have sp: "get_authorization_scheme_param (authorization h) = (ri_scheme info, ri_credentials info)" using assms(1) by simp
  have hdr: "ri_scheme info = [] \<and> ri_credentials info = []" if "get_or (authorization h) [] = []"
    using no_header_no_scheme[OF that] sp by simp
  have ne: "lower [] \<noteq> S ''bearer''" "lower [] \<noteq> S ''basic''" by (simp_all add: lower_def S_def)
  have "native_security always (Some (HTTPBearer s)) info = Some (map_sum id (\<lambda>v. (v, True)) (scheme_call (HTTPBearer s) h))"
    using hdr assms(2) by (auto simp: native_authorization_def http_bearer_call_def http_named_call_def sp refuse_def make_not_authenticated_error_def credentials_value_def)
  moreover have "native_security always (Some (HTTPBase s)) info = Some (map_sum id (\<lambda>v. (v, True)) (scheme_call (HTTPBase s) h))"
    using hdr assms(2) by (auto simp: native_authorization_def http_base_call_def sp refuse_def make_not_authenticated_error_def credentials_value_def)
  moreover have "native_security True (Some (HTTPBasic s)) info = Some (map_sum id (\<lambda>v. (v, True)) (scheme_call (HTTPBasic s) h))"
    if c: "ri_credentials info \<noteq> []" and ascii: "\<forall>data. b64decode (ri_credentials info) = Inr data \<longrightarrow> list_all (\<lambda>b. b < 128) data"
  proof (cases "lower (ri_scheme info) = S ''basic''")
    case False
    then show ?thesis using hdr c ne by (auto simp: native_basic_def http_basic_call_def sp refuse_def credentials_value_def)
  next
    case basic: True
    have auth: "get_or (authorization h) [] \<noteq> []" using hdr c by auto
    have sch: "ri_scheme info \<noteq> []" using basic ne by auto
    show ?thesis
    proof (cases "b64decode (ri_credentials info)")
      case (Inl e)
      then show ?thesis using basic c auth sch by (simp add: native_basic_def http_basic_call_def sp decode_basic_def)
    next
      case (Inr data)
      then have d: "list_all (\<lambda>b. b < 128) data" using ascii by blast
      show ?thesis using basic c auth sch Inr d utf8_decode_ascii_bytes[OF d]
        by (simp add: native_basic_def http_basic_call_def sp decode_basic_def credentials_value_def)
    qed
  qed
  ultimately show ?thesis by blast
qed

theorem native_security_exact_witness:
  "native_security True (Some (HTTPBearer (http_bearer_init None True))) \<lparr>ri_scheme = [], ri_credentials = [], ri_form = None\<rparr> =
     Some (map_sum id (\<lambda>v. (v, True)) (scheme_call (HTTPBearer (http_bearer_init None True)) (rq_headers_init None None)))"
proof -
  have "authorization (rq_headers_init None None) = None" by (simp add: authorization_def rq_headers_get_def rq_headers_init_def rq_headers_ensure_def)
  then have "([], []) = get_authorization_scheme_param (authorization (rq_headers_init None None))"
    by (simp add: get_authorization_scheme_param_def)
  then show ?thesis
    using native_security_exact[of "\<lparr>ri_scheme = [], ri_credentials = [], ri_form = None\<rparr>" "rq_headers_init None None" "http_bearer_init None True" True]
    by (simp add: http_bearer_init_def S_def)
qed

text \<open>Text outside of ASCII is accepted by the resolvers and refused by the scheme itself.\<close>

lemma basic_charset_differs:
  assumes "b64decode c = Inr data" and "\<not> list_all (\<lambda>b. b < 128) data" and "utf8_decode (map char_of data) = Inr d" and "58 \<in> set d"
    and "get_authorization_scheme_param (authorization h) = (S ''Basic'', c)" and "c \<noteq> []"
  shows "scheme_call (HTTPBasic s) h = Inl (basic_not_authenticated_error s)"
    and "\<exists>v. native_basic always s \<lparr>ri_scheme = S ''Basic'', ri_credentials = c, ri_form = None\<rparr> = Inr (v, True) \<and> v \<noteq> VNone"
proof -
  have low: "lower (S ''Basic'') = S ''basic''" "S ''Basic'' \<noteq> []" by (simp_all add: lower_def lower_cp_def S_def)
  have auth: "get_or (authorization h) [] \<noteq> []" using no_header_no_scheme[of h] assms(5) low by auto
  show "scheme_call (HTTPBasic s) h = Inl (basic_not_authenticated_error s)"
    using assms low auth by (simp add: http_basic_call_def)
  show "\<exists>v. native_basic always s \<lparr>ri_scheme = S ''Basic'', ri_credentials = c, ri_form = None\<rparr> = Inr (v, True) \<and> v \<noteq> VNone"
    using assms low by (simp add: native_basic_def decode_basic_def credentials_value_def case_prod_unfold)
qed

subsection \<open>Properties: the request object\<close>

lemma map_filter_Some: "List.map_filter id (map Some xs) = xs"
  by (induction xs) (auto simp: map_filter_def)

lemma light_headers_bytes: "light_headers (map (\<lambda>(n, v). Some (HB n, HB v)) hs) = Inr (map (\<lambda>(n, v). (blower n, v)) hs)"
proof -
  have "List.map_filter id (map (\<lambda>(n, v). Some (HB n, HB v)) hs) = map (\<lambda>(n, v). (HB n, HB v)) hs"
    by (induction hs) (auto simp: map_filter_def)
  moreover have "rmap light_header (map (\<lambda>(n, v). (HB n, HB v)) hs) = Inr (map (\<lambda>(n, v). (blower n, v)) hs)"
    by (induction hs) (auto simp: light_header_def light_text_def)
  ultimately show ?thesis by (simp add: light_headers_def)
qed

lemma cut_at: "c \<notin> set p \<Longrightarrow> takeWhile (\<lambda>x. x \<noteq> c) (p @ c # q) = p \<and> dropWhile (\<lambda>x. x \<noteq> c) (p @ c # q) = c # q"
  by (induction p) auto

lemma split_once_found: "c \<notin> set p \<Longrightarrow> split_once c (p @ c # q) = (p, q)"
  by (simp add: split_once_def cut_at)

text \<open>
  The request object a dependency gets has the method, path, query string and headers of the request, with the names of headers
  in lower case, and the host and port of its \<open>Host\<close> header, given as bytes by the core and with a numeric port.
\<close>

theorem lightweight_request_exact:
  assumes "path \<noteq> []" and "63 \<notin> set path" and "latin1_encode q = Inr qb" and "qb \<noteq> []" and "method \<noteq> []"
    and "map_of (rev (map (\<lambda>(n, v). (blower n, v)) hs)) ''host'' = Some hv" and "latin1_decode hv = host @ 58 # port" and "58 \<notin> set port"
    and "py_int port = Inr n"
  shows "\<exists>sc. make_lightweight_request (map (\<lambda>(n, v). Some (HB n, HB v)) hs) method (path @ 63 # q) root ctx = Inr sc
    \<and> sc_method sc = Some method \<and> sc_path sc = Some path \<and> sc_query sc = Some (HB qb) \<and> sc_server sc = Some (host, n)
    \<and> sc_headers sc = Some (map (\<lambda>(n, v). (HB (blower n), HB v)) hs)"
proof -
  let ?hs = "map (\<lambda>(n, v). (blower n, v)) hs"
  have "rsplit_once 58 (host @ 58 # port) = (host, Some port)"
    using assms(8) cut_at[of 58 "rev port" "rev host"] by (simp add: rsplit_once_def)
  then have server: "light_server (last_header ''host'' ?hs) sch = Inr (Some (host, n))" for sch
    using assms(6,7,9) by (simp add: light_server_def last_header_def)
  have target: "light_target (path @ 63 # q) ctx = Inr (path, qb)"
    using assms(2-4) by (simp add: light_target_def split_once_found)
  have "map (\<lambda>(n, v). (HB n, HB v)) ?hs = map (\<lambda>(n, v). (HB (blower n), HB v)) hs" by auto
  then show ?thesis using assms(1,5) server target
    by (simp add: make_lightweight_request_def light_headers_bytes Let_def del: map_map)
qed

theorem lightweight_request_exact_witness:
  "\<exists>sc. make_lightweight_request (map (\<lambda>(n, v). Some (HB n, HB v)) [(''host'', ''h:8'')]) (S ''GET'') ([47] @ 63 # S ''a'') [] [] = Inr sc
    \<and> sc_method sc = Some (S ''GET'') \<and> sc_path sc = Some [47] \<and> sc_query sc = Some (HB ''a'') \<and> sc_server sc = Some ([104], 8)
    \<and> sc_headers sc = Some (map (\<lambda>(n, v). (HB (blower n), HB v)) [(''host'', ''h:8'')])"
proof (rule lightweight_request_exact)
  show "latin1_encode (S ''a'') = Inr ''a''" by (rule latin1_encode_S)
  show "map_of (rev (map (\<lambda>(n, v). (blower n, v)) [(''host'', ''h:8'')])) ''host'' = Some ''h:8''" by (simp add: blower_def)
  show "latin1_decode ''h:8'' = [104] @ 58 # [56]" by (simp add: latin1_decode_def)
  show "py_int [56] = Inr 8" by (simp add: py_int_def py_nat_def strip_def is_space_def is_digit_def undec_def)
qed (simp_all add: S_def)

text \<open>The port is what follows the last colon of the \<open>Host\<close> header: a bare IPv6 address raises.\<close>

lemma ipv6_host_raises: "\<exists>m. light_server (Some [91, 58, 58, 49, 93]) scheme = Inl (ValueError m)"
  by (simp add: light_server_def rsplit_once_def py_int_def py_nat_def strip_def is_space_def is_digit_def)

end
