(* ===== verification/ParamClasses.thy ===== *)
theory ParamClasses
  imports Dependencies
begin

text \<open>
  The declarations of parameters: the classes of \<open>params.py\<close> and the functions of \<open>param_functions.py\<close> (\<open>Path\<close>, \<open>Query\<close>,
  \<open>Header\<close>, \<open>Cookie\<close>, \<open>Body\<close>, \<open>Form\<close>, \<open>File\<close>, \<open>Depends\<close>, \<open>Security\<close>) with which a signature says what a parameter is. Each class is
  a \<open>FieldInfo\<close> of pydantic; modelled is what its initialiser is given and which attributes are set.
\<close>

subsection \<open>Arguments\<close>

text \<open>
  Values of arguments as far as the code looks at them. \<open>AUnset\<close> is \<open>Undefined\<close>, which is also \<open>_Unset\<close>; \<open>AObj\<close> is any other object.
\<close>

datatype aval = AUnset | ANone | AEllipsis | AText str | ADict "(str \<times> aval) list" | AObj nat

fun counts :: "aval \<Rightarrow> bool" where
  "counts ANone = False"
| "counts (AText s) = (s \<noteq> [])"
| "counts (ADict d) = (d \<noteq> [])"
| "counts _ = True"

text \<open>The keyword arguments all classes have; \<open>fa_extra\<close> are the remaining ones.\<close>

record field_args =
  fa_default :: aval
  fa_default_factory :: aval
  fa_annotation :: aval
  fa_alias :: aval
  fa_alias_priority :: aval
  fa_validation_alias :: aval
  fa_serialization_alias :: aval
  fa_title :: aval
  fa_description :: aval
  fa_gt :: aval
  fa_ge :: aval
  fa_lt :: aval
  fa_le :: aval
  fa_min_length :: aval
  fa_max_length :: aval
  fa_pattern :: aval
  fa_regex :: aval
  fa_discriminator :: aval
  fa_strict :: aval
  fa_multiple_of :: aval
  fa_allow_inf_nan :: aval
  fa_max_digits :: aval
  fa_decimal_places :: aval
  fa_examples :: aval
  fa_example :: aval
  fa_openapi_examples :: aval
  fa_deprecated :: aval
  fa_include_in_schema :: bool
  fa_json_schema_extra :: aval
  fa_extra :: "(str \<times> aval) list"

text \<open>The defaults of the arguments; only that of \<open>default\<close> differs between the classes.\<close>

definition default_args :: "aval \<Rightarrow> field_args" where
  "default_args d =
     \<lparr>fa_default = d, fa_default_factory = AUnset, fa_annotation = ANone, fa_alias = ANone, fa_alias_priority = AUnset,
      fa_validation_alias = ANone, fa_serialization_alias = ANone, fa_title = ANone, fa_description = ANone, fa_gt = ANone,
      fa_ge = ANone, fa_lt = ANone, fa_le = ANone, fa_min_length = ANone, fa_max_length = ANone, fa_pattern = ANone,
      fa_regex = ANone, fa_discriminator = ANone, fa_strict = AUnset, fa_multiple_of = AUnset, fa_allow_inf_nan = AUnset,
      fa_max_digits = AUnset, fa_decimal_places = AUnset, fa_examples = ANone, fa_example = AUnset,
      fa_openapi_examples = ANone, fa_deprecated = ANone, fa_include_in_schema = True, fa_json_schema_extra = ANone,
      fa_extra = []\<rparr>"

subsection \<open>Fields\<close>

record field_decl =
  fd_kwargs :: "(str, aval) dict"
  fd_example :: aval
  fd_openapi_examples :: aval
  fd_include_in_schema :: bool
  fd_warnings :: "string list"
  fd_in :: string
  fd_convert_underscores :: "bool option"
  fd_embed :: aval
  fd_media_type :: str

definition given_kwargs :: "field_args \<Rightarrow> (str, aval) dict" where
  "given_kwargs a =
     [(S ''default'', fa_default a), (S ''default_factory'', fa_default_factory a), (S ''alias'', fa_alias a),
      (S ''title'', fa_title a), (S ''description'', fa_description a), (S ''gt'', fa_gt a), (S ''ge'', fa_ge a),
      (S ''lt'', fa_lt a), (S ''le'', fa_le a), (S ''min_length'', fa_min_length a), (S ''max_length'', fa_max_length a),
      (S ''discriminator'', fa_discriminator a), (S ''multiple_of'', fa_multiple_of a),
      (S ''allow_inf_nan'', fa_allow_inf_nan a), (S ''max_digits'', fa_max_digits a),
      (S ''decimal_places'', fa_decimal_places a)] @ fa_extra a"

definition serialization_alias_of :: "field_args \<Rightarrow> aval" where
  "serialization_alias_of a =
     (case fa_alias a of
        AText s \<Rightarrow> if fa_serialization_alias a \<in> {AUnset, ANone} then AText s else fa_serialization_alias a
      | _ \<Rightarrow> fa_serialization_alias a)"

definition validation_alias_of :: "field_args \<Rightarrow> aval" where
  "validation_alias_of a = (if fa_validation_alias a \<in> {AUnset, ANone} then fa_alias a else fa_validation_alias a)"

definition py_or :: "aval \<Rightarrow> aval \<Rightarrow> aval" where
  "py_or x y = (if counts x then x else y)"

definition drop_unset :: "(str, aval) dict \<Rightarrow> (str, aval) dict" where
  "drop_unset d = filter (\<lambda>(k, v). v \<noteq> AUnset) d"

text \<open>The keyword arguments \<open>Param.__init__\<close> passes to \<open>FieldInfo\<close>, in the steps of the code.\<close>

definition param_kwargs :: "field_args \<Rightarrow> (str, aval) dict" where
  "param_kwargs a =
     (let k1 = given_kwargs a;
          k2 = (if fa_examples a \<noteq> ANone then dict_set (S ''examples'') (fa_examples a) k1 else k1);
          k3 = dict_set (S ''deprecated'') (fa_deprecated a) k2;
          k4 = dict_update
                 [(S ''annotation'', fa_annotation a), (S ''alias_priority'', fa_alias_priority a), (S ''validation_alias'', validation_alias_of a),
                  (S ''serialization_alias'', serialization_alias_of a), (S ''strict'', fa_strict a),
                  (S ''json_schema_extra'', py_or (fa_json_schema_extra a) (ADict (fa_extra a)))] k3
      in drop_unset (dict_set (S ''pattern'') (py_or (fa_pattern a) (fa_regex a)) k4))"

definition deprecation_warnings :: "field_args \<Rightarrow> string list" where
  "deprecation_warnings a = (if fa_example a \<noteq> AUnset then [''example''] else []) @ (if fa_regex a \<noteq> ANone then [''regex''] else [])"

definition param_init :: "string \<Rightarrow> field_args \<Rightarrow> field_decl" where
  "param_init loc a =
     \<lparr>fd_kwargs = param_kwargs a, fd_example = fa_example a, fd_openapi_examples = fa_openapi_examples a,
      fd_include_in_schema = fa_include_in_schema a, fd_warnings = deprecation_warnings a, fd_in = loc,
      fd_convert_underscores = None, fd_embed = ANone, fd_media_type = []\<rparr>"

definition path_init :: "field_args \<Rightarrow> field_decl res" where
  "path_init a =
     (if fa_default a \<noteq> AEllipsis then Inl (AssertionError (S ''Path parameters cannot have a default value'')) else Inr (param_init ''path'' a))"

definition query_init :: "field_args \<Rightarrow> field_decl" where
  "query_init a = param_init ''query'' a"

definition header_init :: "bool \<Rightarrow> field_args \<Rightarrow> field_decl" where
  "header_init convert a = (param_init ''header'' a)\<lparr>fd_convert_underscores := Some convert\<rparr>"

definition cookie_init :: "field_args \<Rightarrow> field_decl" where
  "cookie_init a = param_init ''cookie'' a"

text \<open>\<open>Body.__init__\<close> repeats the steps of \<open>Param.__init__\<close>.\<close>

definition body_init :: "aval \<Rightarrow> str \<Rightarrow> field_args \<Rightarrow> field_decl" where
  "body_init emb media a =
     \<lparr>fd_kwargs = param_kwargs a, fd_example = fa_example a, fd_openapi_examples = fa_openapi_examples a,
      fd_include_in_schema = fa_include_in_schema a, fd_warnings = deprecation_warnings a, fd_in = ''body'',
      fd_convert_underscores = None, fd_embed = emb, fd_media_type = media\<rparr>"

definition form_init :: "str \<Rightarrow> field_args \<Rightarrow> field_decl" where
  "form_init media a = body_init ANone media a"

definition file_init :: "str \<Rightarrow> field_args \<Rightarrow> field_decl" where
  "file_init media a = form_init media a"

subsection \<open>The functions\<close>

text \<open>
  Each function passes every argument on. The first argument is what the caller gives, as a change of the defaults;
  \<open>None\<close> stands for an optional argument that is not given.
\<close>

definition path_function :: "(field_args \<Rightarrow> field_args) \<Rightarrow> field_decl res" where
  "path_function given = path_init (given (default_args AEllipsis))"

definition query_function :: "(field_args \<Rightarrow> field_args) \<Rightarrow> field_decl" where
  "query_function given = query_init (given (default_args AUnset))"

definition header_function :: "(field_args \<Rightarrow> field_args) \<Rightarrow> bool option \<Rightarrow> field_decl" where
  "header_function given convert = header_init (get_or convert True) (given (default_args AUnset))"

definition cookie_function :: "(field_args \<Rightarrow> field_args) \<Rightarrow> field_decl" where
  "cookie_function given = cookie_init (given (default_args AUnset))"

definition body_function :: "(field_args \<Rightarrow> field_args) \<Rightarrow> aval option \<Rightarrow> str option \<Rightarrow> field_decl" where
  "body_function given emb media = body_init (get_or emb ANone) (get_or media (S ''application/json'')) (given (default_args AUnset))"

definition form_function :: "(field_args \<Rightarrow> field_args) \<Rightarrow> str option \<Rightarrow> field_decl" where
  "form_function given media = form_init (get_or media (S ''application/x-www-form-urlencoded'')) (given (default_args AUnset))"

definition file_function :: "(field_args \<Rightarrow> field_args) \<Rightarrow> str option \<Rightarrow> field_decl" where
  "file_function given media = file_init (get_or media (S ''multipart/form-data'')) (given (default_args AUnset))"

definition depends_function :: "nat \<Rightarrow> bool option \<Rightarrow> str option \<Rightarrow> depends" where
  "depends_function dependency use_cache scope =
     \<lparr>dd_call = dependency, dd_use_cache = get_or use_cache True, dd_scope = scope, dd_scopes = []\<rparr>"

definition security_function :: "nat \<Rightarrow> str list option \<Rightarrow> bool option \<Rightarrow> depends" where
  "security_function dependency scopes use_cache =
     \<lparr>dd_call = dependency, dd_use_cache = get_or use_cache True, dd_scope = None, dd_scopes = get_or scopes []\<rparr>"

subsection \<open>Properties\<close>

text \<open>The names of the parameters of the initialiser, which the remaining keyword arguments cannot have.\<close>

definition own_keys :: "str list" where
  "own_keys = map S [''default'', ''default_factory'', ''alias'', ''title'', ''description'', ''gt'', ''ge'', ''lt'', ''le'', ''min_length'', ''max_length'',
     ''discriminator'', ''multiple_of'', ''allow_inf_nan'', ''max_digits'', ''decimal_places'', ''examples'', ''deprecated'', ''annotation'', ''alias_priority'',
     ''validation_alias'', ''serialization_alias'', ''strict'', ''json_schema_extra'', ''pattern'']"

definition extra_ok :: "field_args \<Rightarrow> bool" where
  "extra_ok a \<longleftrightarrow> distinct (map fst (fa_extra a)) \<and> fst ` set (fa_extra a) \<inter> set own_keys = {}"

lemma map_of_drop_unset: "distinct (map fst d) \<Longrightarrow> map_of (drop_unset d) k = (if map_of d k = Some AUnset then None else map_of d k)"
  by (induction d) (auto simp: drop_unset_def rev_image_eqI map_of_eq_None_iff split: if_splits)

lemma map_of_rev_distinct: "distinct (map fst xs) \<Longrightarrow> map_of (rev xs) = map_of xs"
  by (subst map_of_inject_set) (simp_all add: rev_map[symmetric])

lemma given_wf: "extra_ok a \<Longrightarrow> distinct (map fst (given_kwargs a))"
  by (auto simp: extra_ok_def own_keys_def given_kwargs_def)

definition late_kwargs :: "field_args \<Rightarrow> (str \<times> aval) list" where
  "late_kwargs a =
     (if fa_examples a \<noteq> ANone then [(S ''examples'', fa_examples a)] else [])
     @ [(S ''deprecated'', fa_deprecated a), (S ''annotation'', fa_annotation a), (S ''alias_priority'', fa_alias_priority a),
        (S ''validation_alias'', validation_alias_of a), (S ''serialization_alias'', serialization_alias_of a), (S ''strict'', fa_strict a),
        (S ''json_schema_extra'', py_or (fa_json_schema_extra a) (ADict (fa_extra a))), (S ''pattern'', py_or (fa_pattern a) (fa_regex a))]"

lemma param_kwargs_late: "param_kwargs a = drop_unset (dict_update (late_kwargs a) (given_kwargs a))"
  by (simp add: param_kwargs_def late_kwargs_def dict_update_def Let_def)

lemma late_distinct: "distinct (map fst (late_kwargs a))"
  by (simp add: late_kwargs_def)

lemma late_keys: "fst ` set (late_kwargs a) \<subseteq> set (drop 16 own_keys)"
  by (auto simp: late_kwargs_def own_keys_def)

lemma given_keys: "fst ` set (given_kwargs a) = set (take 16 own_keys) \<union> fst ` set (fa_extra a)"
  by (simp add: given_kwargs_def own_keys_def insert_commute Un_assoc)

lemma own_keys_distinct: "distinct own_keys"
  by (simp add: own_keys_def)

lemma late_not_given:
  assumes "extra_ok a" and "k \<in> fst ` set (given_kwargs a)"
  shows "map_of (rev (late_kwargs a)) k = None"
proof -
  have "set (take 16 own_keys) \<inter> set (drop 16 own_keys) = {}" by (rule set_take_disj_set_drop_if_distinct[OF own_keys_distinct]) simp
  moreover have "fst ` set (fa_extra a) \<inter> set (drop 16 own_keys) = {}" using assms(1) set_drop_subset[of 16 own_keys] by (auto simp: extra_ok_def)
  ultimately have "k \<notin> fst ` set (late_kwargs a)" using assms(2) late_keys[of a] given_keys[of a] by blast
  then show ?thesis by (simp add: map_of_eq_None_iff)
qed

lemma kwargs_wf: "extra_ok a \<Longrightarrow> distinct (map fst (dict_update (late_kwargs a) (given_kwargs a)))"
  using dict_wf_update[of "given_kwargs a" "late_kwargs a"] given_wf[of a] by (simp add: dict_wf_def)

lemma late_passed:
  assumes "extra_ok a" and "map_of (late_kwargs a) k = Some v"
  shows "map_of (param_kwargs a) k = (if v = AUnset then None else Some v)"
  using kwargs_wf[OF assms(1)] late_distinct[of a] assms(2)
  by (simp add: param_kwargs_late map_of_drop_unset map_of_dict_update map_of_rev_distinct)

lemma late_values:
  "map_of (late_kwargs a) (S ''validation_alias'') = Some (validation_alias_of a)"
  "map_of (late_kwargs a) (S ''serialization_alias'') = Some (serialization_alias_of a)"
  "map_of (late_kwargs a) (S ''pattern'') = Some (py_or (fa_pattern a) (fa_regex a))"
  "map_of (late_kwargs a) (S ''json_schema_extra'') = Some (py_or (fa_json_schema_extra a) (ADict (fa_extra a)))"
  by (simp_all add: late_kwargs_def)

text \<open>
  A declaration hands exactly what it was given to pydantic: every argument that is set arrives under its name, nothing that is unset
  is passed, so that pydantic's own defaults apply; validation and serialisation use the alias unless they were given their own; the
  deprecated \<open>regex\<close> counts as the pattern; and extra keyword arguments become part of the schema unless that was given.
\<close>

theorem declared_field_exact:
  assumes "extra_ok a"
  shows "AUnset \<notin> snd ` set (param_kwargs a)
    \<and> (\<forall>k v. (k, v) \<in> set (given_kwargs a) \<and> v \<noteq> AUnset \<longrightarrow> map_of (param_kwargs a) k = Some v)
    \<and> (\<forall>s. fa_alias a = AText s \<and> fa_validation_alias a = ANone \<longrightarrow> map_of (param_kwargs a) (S ''validation_alias'') = Some (AText s))
    \<and> (\<forall>s. fa_alias a = AText s \<and> fa_serialization_alias a = ANone \<longrightarrow> map_of (param_kwargs a) (S ''serialization_alias'') = Some (AText s))
    \<and> (\<forall>r. fa_pattern a = ANone \<and> fa_regex a = AText r \<longrightarrow> map_of (param_kwargs a) (S ''pattern'') = Some (AText r))
    \<and> (fa_json_schema_extra a = ANone \<longrightarrow> map_of (param_kwargs a) (S ''json_schema_extra'') = Some (ADict (fa_extra a)))"
proof (intro conjI allI impI)
  show "AUnset \<notin> snd ` set (param_kwargs a)" by (auto simp: param_kwargs_late drop_unset_def)
  show "map_of (param_kwargs a) k = Some v" if kv: "(k, v) \<in> set (given_kwargs a) \<and> v \<noteq> AUnset" for k v
  proof -
    have "map_of (given_kwargs a) k = Some v" using kv given_wf[OF assms] by simp
    moreover have "map_of (rev (late_kwargs a)) k = None" by (rule late_not_given[OF assms]) (use kv in force)
    ultimately show ?thesis using kv kwargs_wf[OF assms] by (simp add: param_kwargs_late map_of_drop_unset map_of_dict_update map_add_def)
  qed
qed (simp_all add: late_values[THEN late_passed[OF assms]] validation_alias_of_def serialization_alias_of_def py_or_def)

theorem declared_field_exact_witness:
  "map_of (fd_kwargs (query_function (\<lambda>a. a\<lparr>fa_alias := AText (S ''q''), fa_regex := AText (S ''x'')\<rparr>))) (S ''validation_alias'') = Some (AText (S ''q''))
   \<and> map_of (fd_kwargs (query_function (\<lambda>a. a\<lparr>fa_alias := AText (S ''q''), fa_regex := AText (S ''x'')\<rparr>))) (S ''pattern'') = Some (AText (S ''x''))"
  using declared_field_exact[of "(default_args AUnset)\<lparr>fa_alias := AText (S ''q''), fa_regex := AText (S ''x'')\<rparr>"]
  by (simp add: query_function_def query_init_def param_init_def default_args_def extra_ok_def)

text \<open>A path parameter has no default; a query parameter declared without one is left to pydantic as required.\<close>

lemma path_default_refused: "path_function (\<lambda>a. a\<lparr>fa_default := AText d\<rparr>) = Inl (AssertionError (S ''Path parameters cannot have a default value''))"
  by (simp add: path_function_def path_init_def)

lemma no_default_not_passed:
  assumes "extra_ok a" and "fa_default a = AUnset"
  shows "map_of (param_kwargs a) (S ''default'') = None"
proof -
  have "map_of (rev (late_kwargs a)) (S ''default'') = None" by (rule late_not_given[OF assms(1)]) (simp add: given_kwargs_def)
  moreover have "map_of (given_kwargs a) (S ''default'') = Some AUnset" using assms(2) by (simp add: given_kwargs_def)
  ultimately show ?thesis using kwargs_wf[OF assms(1)] by (simp add: param_kwargs_late map_of_drop_unset map_of_dict_update)
qed

end
