(* ===== verification/RouteMethods.thy ===== *)
theory RouteMethods
  imports ApiRouter
begin

text \<open>
  The functions with which routes are declared: \<open>api_route\<close>, \<open>get\<close>, \<open>put\<close>, ..., \<open>websocket\<close> and \<open>on_event\<close> of \<open>APIRouter\<close> (\<open>routing.py\<close>)
  and of \<open>AstraAPI\<close> (\<open>applications.py\<close>), which passes them to its router. Each returns a decorator; here the decorated function is
  the last argument but one, and the result is the router with the new route, or the exception. The texts for the documentation are one
  number, as in theory \<open>ApiRouter\<close>.
\<close>

subsection \<open>Options of a route\<close>

record decl =
  dl_model :: "nat option"
  dl_status :: "int option"
  dl_tags :: "str list"
  dl_dependencies :: "depends list"
  dl_docs :: nat
  dl_responses :: responses
  dl_deprecated :: "bool option"
  dl_operation_id :: "str option"
  dl_in_schema :: bool
  dl_class :: "nat dflt"
  dl_name :: "str option"
  dl_callbacks :: "nat list"
  dl_uid :: "nat dflt"

definition default_decl :: decl where
  "default_decl =
     \<lparr>dl_model = None, dl_status = None, dl_tags = [], dl_dependencies = [], dl_docs = 0, dl_responses = [], dl_deprecated = None,
      dl_operation_id = None, dl_in_schema = True, dl_class = Default 0, dl_name = None, dl_callbacks = [], dl_uid = Default 0\<rparr>"

type_synonym declare_route = "api_env \<Rightarrow> str \<Rightarrow> decl \<Rightarrow> nat \<Rightarrow> api_router \<Rightarrow> unit res \<times> api_router"

subsection \<open>Methods of the router\<close>

definition declare_api_route :: "str list option \<Rightarrow> declare_route" where
  "declare_api_route methods ae path d func r =
     add_api_route ae path func (dl_name d) methods (dl_tags d) (dl_dependencies d) (dl_responses d) (dl_deprecated d) (dl_in_schema d)
       (dl_class d) (dl_callbacks d) (dl_uid d) (dl_status d) (dl_model d) (dl_docs d) (dl_operation_id d) r"

definition router_get :: declare_route where
  "router_get ae path d func r = declare_api_route (Some [S ''GET'']) ae path d func r"

definition router_put :: declare_route where
  "router_put ae path d func r = declare_api_route (Some [S ''PUT'']) ae path d func r"

definition router_post :: declare_route where
  "router_post ae path d func r = declare_api_route (Some [S ''POST'']) ae path d func r"

definition router_delete :: declare_route where
  "router_delete ae path d func r = declare_api_route (Some [S ''DELETE'']) ae path d func r"

definition router_options :: declare_route where
  "router_options ae path d func r = declare_api_route (Some [S ''OPTIONS'']) ae path d func r"

definition router_head :: declare_route where
  "router_head ae path d func r = declare_api_route (Some [S ''HEAD'']) ae path d func r"

definition router_patch :: declare_route where
  "router_patch ae path d func r = declare_api_route (Some [S ''PATCH'']) ae path d func r"

definition router_trace :: declare_route where
  "router_trace ae path d func r = declare_api_route (Some [S ''TRACE'']) ae path d func r"

definition router_websocket :: "api_env \<Rightarrow> str \<Rightarrow> str option \<Rightarrow> depends list \<Rightarrow> nat \<Rightarrow> api_router \<Rightarrow> unit res \<times> api_router" where
  "router_websocket ae path name deps func r = add_api_websocket_route ae path func name deps r"

definition router_on_event :: "str \<Rightarrow> nat \<Rightarrow> api_router \<Rightarrow> api_router res" where
  "router_on_event event func r = api_add_event_handler event func r"

subsection \<open>Methods of the application\<close>

text \<open>
  \<open>app_router\<close> is the router of the application. \<open>api_route\<close> of the application has no argument for callbacks.
\<close>

record api_app =
  app_router :: api_router

definition on_router :: "(api_router \<Rightarrow> unit res \<times> api_router) \<Rightarrow> api_app \<Rightarrow> unit res \<times> api_app" where
  "on_router f a = (fst (f (app_router a)), a\<lparr>app_router := snd (f (app_router a))\<rparr>)"

definition app_add_api_route :: "str list option \<Rightarrow> api_env \<Rightarrow> str \<Rightarrow> decl \<Rightarrow> nat \<Rightarrow> api_app \<Rightarrow> unit res \<times> api_app" where
  "app_add_api_route methods ae path d func a = on_router (declare_api_route methods ae path (d\<lparr>dl_callbacks := []\<rparr>) func) a"

definition app_api_route :: "str list option \<Rightarrow> api_env \<Rightarrow> str \<Rightarrow> decl \<Rightarrow> nat \<Rightarrow> api_app \<Rightarrow> unit res \<times> api_app" where
  "app_api_route methods ae path d func a = on_router (declare_api_route methods ae path (d\<lparr>dl_callbacks := []\<rparr>) func) a"

definition app_get :: "api_env \<Rightarrow> str \<Rightarrow> decl \<Rightarrow> nat \<Rightarrow> api_app \<Rightarrow> unit res \<times> api_app" where
  "app_get ae path d func a = on_router (router_get ae path d func) a"

definition app_put :: "api_env \<Rightarrow> str \<Rightarrow> decl \<Rightarrow> nat \<Rightarrow> api_app \<Rightarrow> unit res \<times> api_app" where
  "app_put ae path d func a = on_router (router_put ae path d func) a"

definition app_post :: "api_env \<Rightarrow> str \<Rightarrow> decl \<Rightarrow> nat \<Rightarrow> api_app \<Rightarrow> unit res \<times> api_app" where
  "app_post ae path d func a = on_router (router_post ae path d func) a"

definition app_delete :: "api_env \<Rightarrow> str \<Rightarrow> decl \<Rightarrow> nat \<Rightarrow> api_app \<Rightarrow> unit res \<times> api_app" where
  "app_delete ae path d func a = on_router (router_delete ae path d func) a"

definition app_options :: "api_env \<Rightarrow> str \<Rightarrow> decl \<Rightarrow> nat \<Rightarrow> api_app \<Rightarrow> unit res \<times> api_app" where
  "app_options ae path d func a = on_router (router_options ae path d func) a"

definition app_head :: "api_env \<Rightarrow> str \<Rightarrow> decl \<Rightarrow> nat \<Rightarrow> api_app \<Rightarrow> unit res \<times> api_app" where
  "app_head ae path d func a = on_router (router_head ae path d func) a"

definition app_patch :: "api_env \<Rightarrow> str \<Rightarrow> decl \<Rightarrow> nat \<Rightarrow> api_app \<Rightarrow> unit res \<times> api_app" where
  "app_patch ae path d func a = on_router (router_patch ae path d func) a"

definition app_trace :: "api_env \<Rightarrow> str \<Rightarrow> decl \<Rightarrow> nat \<Rightarrow> api_app \<Rightarrow> unit res \<times> api_app" where
  "app_trace ae path d func a = on_router (router_trace ae path d func) a"

definition app_websocket :: "api_env \<Rightarrow> str \<Rightarrow> str option \<Rightarrow> depends list \<Rightarrow> nat \<Rightarrow> api_app \<Rightarrow> unit res \<times> api_app" where
  "app_websocket ae path name deps func a = on_router (router_websocket ae path name deps func) a"

definition app_include_router :: "api_env \<Rightarrow> include_options \<Rightarrow> api_router \<Rightarrow> api_app \<Rightarrow> unit res \<times> api_app" where
  "app_include_router ae opts src a = on_router (include_router ae opts src) a"

definition app_on_event :: "str \<Rightarrow> nat \<Rightarrow> api_app \<Rightarrow> api_app res" where
  "app_on_event event func a = rbind (router_on_event event func (app_router a)) (\<lambda>r. Inr (a\<lparr>app_router := r\<rparr>))"

subsection \<open>Properties\<close>

definition verbs :: "(str \<times> declare_route \<times> (api_env \<Rightarrow> str \<Rightarrow> decl \<Rightarrow> nat \<Rightarrow> api_app \<Rightarrow> unit res \<times> api_app)) list" where
  "verbs =
     [(S ''GET'', router_get, app_get),
      (S ''PUT'', router_put, app_put),
      (S ''POST'', router_post, app_post),
      (S ''DELETE'', router_delete, app_delete),
      (S ''OPTIONS'', router_options, app_options),
      (S ''HEAD'', router_head, app_head),
      (S ''PATCH'', router_patch, app_patch),
      (S ''TRACE'', router_trace, app_trace)]"

text \<open>The route as the base class matches it: \<open>APIRoute\<close> does not add \<open>HEAD\<close> to \<open>GET\<close>.\<close>

definition base_route :: "api_route \<Rightarrow> route" where
  "base_route x = \<lparr>rt_path = ro_path x, rt_endpoint = ro_endpoint x, rt_name = ro_name x, rt_methods = Some (ro_methods x), rt_compiled = ro_compiled x\<rparr>"

lemma declared_added:
  assumes "declare_api_route methods ae path d func r = (Inr (), r')"
  shows "\<exists>x. ar_routes r' = ar_routes r @ [AnApi x] \<and> ro_methods x = remdups (map upper (get_or methods [S ''GET'']))
    \<and> ro_endpoint x = func \<and> ro_path x = ar_prefix r @ path \<and> ro_tags x = ar_tags r @ dl_tags d
    \<and> ro_dependencies x = ar_dependencies r @ dl_dependencies d \<and> ro_status x = dl_status d \<and> ro_model x = dl_model d"
  using assms by (auto simp: declare_api_route_def add_api_route_def add_route_to_def api_route_init_def Let_def split: sum.splits)

lemma verbs_upper: "(M, f, g) \<in> set verbs \<Longrightarrow> upper M = M"
  by (auto simp: verbs_def upper_def upper_cp_def S_def)

lemma verbs_router: "(M, f, g) \<in> set verbs \<Longrightarrow> f ae path d func r = declare_api_route (Some [M]) ae path d func r"
  by (auto simp: verbs_def router_get_def router_put_def router_post_def router_delete_def router_options_def router_head_def
      router_patch_def router_trace_def)

lemma verbs_app: "(M, f, g) \<in> set verbs \<Longrightarrow> g ae path d func a = on_router (f ae path d func) a"
  by (auto simp: verbs_def app_get_def app_put_def app_post_def app_delete_def app_options_def app_head_def app_patch_def app_trace_def)

lemma single_method_match:
  assumes "ro_methods x = [M]" and "route_matches (base_route x) sc = Inr (m, ch)" and "sc_method sc = Some M'" and "m \<noteq> M_None"
  shows "m = (if M' = M then M_Full else M_Partial)"
  using assms by (auto simp: route_matches_def base_route_def method_refused_def no_match_def split: if_splits option.splits)

text \<open>
  A function decorated with \<open>app.get\<close>, \<open>app.post\<close> and so on becomes the endpoint of exactly one new route, behind all others, with the prefix,
  tags and dependencies of the router before its own; and where that route matches a path, it matches in full exactly for the method
  it was declared for, and in part for every other.
\<close>

theorem declared_method_served:
  assumes "(M, f, g) \<in> set verbs" and "g ae path d func a = (Inr (), a')"
  shows "\<exists>x. ar_routes (app_router a') = ar_routes (app_router a) @ [AnApi x] \<and> ro_endpoint x = func
    \<and> ro_path x = ar_prefix (app_router a) @ path \<and> ro_tags x = ar_tags (app_router a) @ dl_tags d
    \<and> ro_dependencies x = ar_dependencies (app_router a) @ dl_dependencies d
    \<and> (\<forall>sc m ch M'. route_matches (base_route x) sc = Inr (m, ch) \<and> sc_method sc = Some M' \<and> m \<noteq> M_None
         \<longrightarrow> m = (if M' = M then M_Full else M_Partial))"
proof -
  have "declare_api_route (Some [M]) ae path d func (app_router a) = (Inr (), app_router a')"
    using assms(2) verbs_app[OF assms(1)] verbs_router[OF assms(1)] by (auto simp: on_router_def prod_eq_iff)
  from declared_added[OF this] obtain x where x: "ar_routes (app_router a') = ar_routes (app_router a) @ [AnApi x]" "ro_methods x = [M]"
      "ro_endpoint x = func" "ro_path x = ar_prefix (app_router a) @ path" "ro_tags x = ar_tags (app_router a) @ dl_tags d"
      "ro_dependencies x = ar_dependencies (app_router a) @ dl_dependencies d"
    using verbs_upper[OF assms(1)] by auto
  show ?thesis using x single_method_match[OF x(2)] by blast
qed

definition named_decl :: decl where
  "named_decl = default_decl\<lparr>dl_name := Some (S ''x''), dl_operation_id := Some (S ''op'')\<rparr>"

lemma example_declared: "\<exists>a'. app_get guard_env (S ''/x'') named_decl 7 \<lparr>app_router = blank_router 1\<rparr> = (Inr (), a')"
proof -
  have "123 \<notin> set (S ''/x'')" "startswith (S ''/x'') (S ''/'')" by (simp_all add: S_def)
  from compile_plain_path [OF this] obtain y where
    "api_route_init guard_env (S ''/x'') 7 (Some (S ''x'')) (Some [S ''GET'']) [] [] [] None True
       (Default 0) [] (Default 0) None None 0 (Some (S ''op'')) = Inr y"
    by (auto simp: api_route_init_def unique_id_def body_error_unless_def route_dependant_def guard_env_def Let_def)
  then show ?thesis
    by (simp add: app_get_def on_router_def router_get_def declare_api_route_def add_api_route_def add_route_to_def blank_router_def
        named_decl_def default_decl_def or_flag_def get_value_or_default_def dict_update_def)
qed

theorem declared_method_served_witness:
  "\<exists>a' x. app_get guard_env (S ''/x'') named_decl 7 \<lparr>app_router = blank_router 1\<rparr> = (Inr (), a')
     \<and> ar_routes (app_router a') = ar_routes (blank_router 1) @ [AnApi x] \<and> ro_endpoint x = 7"
proof -
  obtain a' where a': "app_get guard_env (S ''/x'') named_decl 7 \<lparr>app_router = blank_router 1\<rparr> = (Inr (), a')" using example_declared by blast
  have "(S ''GET'', router_get, app_get) \<in> set verbs" by (simp add: verbs_def)
  from declared_method_served[OF this a'] a' show ?thesis by auto
qed

end
