(* ===== verification/OpenApi.thy ===== *)
theory OpenApi
  imports ApiRouter
begin

text \<open>
  The OpenAPI document: \<open>astraapi/openapi/utils.py\<close> with \<open>get_schema_from_model_field\<close> and
  \<open>get_definitions\<close> of \<open>_compat/v2.py\<close>. The operations of the document are built from the flattened
  dependants of \<open>Dependencies\<close> and the routes of \<open>ApiRouter\<close>; what the document alone reads of a route
  is \<open>route_docs\<close>, and a callback is a route again.

  Pydantic's \<open>GenerateJsonSchema\<close> is a parameter, as are the names and encoded models of the security
  schemes and the phrases of \<open>http.client.responses\<close>. Examples are JSON values, on which
  \<open>jsonable_encoder\<close> is the identity. Documents are values: where the code puts the schema object of a
  field at two places of the document, the model has the schema twice, so a later update of one of
  them (a second method of the same route, with an additional response or \<open>openapi_extra\<close> that reaches
  into that schema) is not seen at the other.
\<close>

subsection \<open>Documents\<close>

text \<open>\<open>LFloat 0\<close> is the float zero; other floats are only told apart.\<close>

datatype leaf = LNull | LBool bool | LStr str | LInt int | LFloat nat

type_synonym doc = "leaf data"
type_synonym jobject = "(str, doc) dict"

abbreviation jstr :: "str \<Rightarrow> doc" where
  "jstr s \<equiv> DAtom (LStr s)"

abbreviation jtext :: "string \<Rightarrow> doc" where
  "jtext s \<equiv> DAtom (LStr (S s))"

abbreviation jtrue :: doc where
  "jtrue \<equiv> DAtom (LBool True)"

fun doc_truthy :: "doc \<Rightarrow> bool" where
  "doc_truthy (DAtom LNull) = False"
| "doc_truthy (DAtom (LBool b)) = b"
| "doc_truthy (DAtom (LStr s)) = (s \<noteq> [])"
| "doc_truthy (DAtom (LInt n)) = (n \<noteq> 0)"
| "doc_truthy (DAtom (LFloat n)) = (n \<noteq> 0)"
| "doc_truthy (DList xs) = (xs \<noteq> [])"
| "doc_truthy (DDict d) = (d \<noteq> [])"

text \<open>\<open>str.title\<close> on Latin-1 (that of \<open>Security\<close> is for ASCII): a letter after a letter in lower case, any other in title case. 223 is the sharp s.\<close>

definition cased :: "nat \<Rightarrow> bool" where
  "cased c \<longleftrightarrow> lower_cp c \<noteq> c \<or> upper_cp c \<noteq> [c]"

fun title_case_from :: "bool \<Rightarrow> str \<Rightarrow> str" where
  "title_case_from after [] = []"
| "title_case_from after (c # cs) =
     (if after then [lower_cp c] else if c = 223 then [83, 115] else upper_cp c) @ title_case_from (cased c) cs"

definition title_case :: "str \<Rightarrow> str" where
  "title_case s = title_case_from False s"

definition underscores_to_spaces :: "str \<Rightarrow> str" where
  "underscores_to_spaces s = map (\<lambda>c. if c = 95 then 32 else c) s"

definition REF_PREFIX :: str where
  "REF_PREFIX = S ''#/components/schemas/''"

definition METHODS_WITH_BODY :: "str set" where
  "METHODS_WITH_BODY = {S ''GET'', S ''HEAD'', S ''POST'', S ''PUT'', S ''DELETE'', S ''PATCH''}"

definition validation_error_definition :: doc where
  "validation_error_definition = DDict
     [(S ''title'', jtext ''ValidationError''), (S ''type'', jtext ''object''),
      (S ''properties'', DDict
         [(S ''loc'', DDict [(S ''title'', jtext ''Location''), (S ''type'', jtext ''array''),
             (S ''items'', DDict [(S ''anyOf'', DList [DDict [(S ''type'', jtext ''string'')], DDict [(S ''type'', jtext ''integer'')]])])]),
          (S ''msg'', DDict [(S ''title'', jtext ''Message''), (S ''type'', jtext ''string'')]),
          (S ''type'', DDict [(S ''title'', jtext ''Error Type''), (S ''type'', jtext ''string'')]),
          (S ''input'', DDict [(S ''title'', jtext ''Input'')]),
          (S ''ctx'', DDict [(S ''title'', jtext ''Context''), (S ''type'', jtext ''object'')])]),
      (S ''required'', DList [jtext ''loc'', jtext ''msg'', jtext ''type''])]"

definition validation_error_response_definition :: doc where
  "validation_error_response_definition = DDict
     [(S ''title'', jtext ''HTTPValidationError''), (S ''type'', jtext ''object''),
      (S ''properties'', DDict
         [(S ''detail'', DDict [(S ''title'', jtext ''Detail''), (S ''type'', jtext ''array''),
             (S ''items'', DDict [(S ''$ref'', jstr (REF_PREFIX @ S ''ValidationError''))])])])]"

definition status_code_ranges :: "(str, str) dict" where
  "status_code_ranges =
     [(S ''1XX'', S ''Information''), (S ''2XX'', S ''Success''), (S ''3XX'', S ''Redirection''),
      (S ''4XX'', S ''Client Error''), (S ''5XX'', S ''Server Error''), (S ''DEFAULT'', S ''Default Response'')]"

subsection \<open>What is documented of fields and routes\<close>

datatype fmode = ForValidation | ForSerialization

text \<open>
  \<open>dx_example\<close> is \<open>None\<close> for an example that was not set; \<open>dx_in_schema\<close> is \<open>None\<close> for a \<open>FieldInfo\<close>
  without that attribute; \<open>dx_computed\<close> says that the core schema has computed fields.
\<close>

record field_docs =
  dx_title :: "str option"
  dx_salias :: "str option"
  dx_mode :: fmode
  dx_computed :: bool
  dx_in_schema :: "bool option"
  dx_description :: "str option"
  dx_examples :: jobject
  dx_example :: "doc option"
  dx_deprecated :: bool
  dx_media :: str

text \<open>The response class: its media type, whether it is a \<open>JSONResponse\<close>, and the default status of its constructor.\<close>

record resp_class =
  rc_media :: "str option"
  rc_json :: bool
  rc_default :: "int option"

record route_docs =
  rd_summary :: "str option"
  rd_description :: str
  rd_response_description :: str
  rd_class :: "resp_class option"
  rd_body :: "field option"
  rd_response :: "field option"
  rd_response_fields :: "(status_code, field) dict"
  rd_responses :: "(status_code, jobject) dict"
  rd_extra :: jobject

text \<open>In lists of routes, \<open>None\<close> stands for a route that is no \<open>APIRoute\<close>.\<close>

datatype doc_route = DocRoute (dr_route: api_route) (dr_docs: route_docs) (dr_callbacks: "doc_route option list")

record doc_env =
  oe_callable :: "nat \<Rightarrow> pycallable"
  oe_scheme :: "nat \<Rightarrow> str \<times> doc"
  oe_field :: "field \<Rightarrow> field_docs"
  oe_phrase :: "int \<Rightarrow> str option"
  oe_fname :: "nat \<Rightarrow> str"
  oe_file :: "nat \<Rightarrow> str option"
  oe_separate :: bool

type_synonym field_mapping = "field \<times> fmode \<Rightarrow> jobject option"

subsection \<open>Schemas of fields\<close>

definition schema_mode :: "doc_env \<Rightarrow> field \<Rightarrow> fmode" where
  "schema_mode env f =
     (if oe_separate env \<or> dx_computed (oe_field env f) then dx_mode (oe_field env f) else ForValidation)"

definition schema_alias :: "doc_env \<Rightarrow> field \<Rightarrow> str" where
  "schema_alias env f =
     (if dx_mode (oe_field env f) = ForValidation then get_validation_alias f
      else if truthy (dx_salias (oe_field env f)) then the (dx_salias (oe_field env f)) else field_alias f)"

definition get_schema_from_model_field :: "doc_env \<Rightarrow> field_mapping \<Rightarrow> field \<Rightarrow> jobject res" where
  "get_schema_from_model_field env fm f =
     (case fm (f, schema_mode env f) of
        None \<Rightarrow> Inl (KeyError (f_name f))
      | Some js \<Rightarrow>
          Inr (if dict_has js (S ''$ref'') then js
               else dict_set (S ''title'')
                      (jstr (if truthy (dx_title (oe_field env f)) then the (dx_title (oe_field env f))
                             else underscores_to_spaces (title_case (schema_alias env f)))) js))"

definition strip_default :: "jobject \<Rightarrow> jobject" where
  "strip_default js = (if map_of js (S ''default'') = Some (DAtom LNull) then dict_del (S ''default'') js else js)"

text \<open>The part of a description before a form feed (12), and the properties without null defaults.\<close>

fun clean_property :: "doc \<Rightarrow> doc" where
  "clean_property (DDict js) = DDict (strip_default js)"
| "clean_property d = d"

definition clean_definition :: "jobject \<Rightarrow> jobject" where
  "clean_definition js =
     (let js1 = (case map_of js (S ''description'') of
                   Some (DAtom (LStr s)) \<Rightarrow> dict_set (S ''description'') (jstr (takeWhile (\<lambda>c. c \<noteq> 12) s)) js
                 | _ \<Rightarrow> js)
      in case map_of js1 (S ''properties'') of
           Some (DDict ps) \<Rightarrow> dict_set (S ''properties'') (DDict (map (\<lambda>(k, v). (k, clean_property v)) ps)) js1
         | _ \<Rightarrow> js1)"

text \<open>\<open>gen\<close> is \<open>generate_definitions\<close> on the fields, each with its mode, and on the models they mention.\<close>

type_synonym schema_generator = "(field \<times> fmode) list \<Rightarrow> field_mapping \<times> (str, jobject) dict"

definition get_definitions :: "doc_env \<Rightarrow> schema_generator \<Rightarrow> field list \<Rightarrow> field_mapping \<times> (str, jobject) dict" where
  "get_definitions env gen fs =
     (case gen (map (\<lambda>f. (f, schema_mode env f)) fs) of
        (fm, defs) \<Rightarrow> (fm, map (\<lambda>(k, js). (k, clean_definition js)) defs))"

subsection \<open>Security\<close>

definition add_security :: "doc_env \<Rightarrow> dependant \<Rightarrow> jobject \<times> (str, str list) dict \<Rightarrow> jobject \<times> (str, str list) dict" where
  "add_security env s acc =
     (case oe_scheme env (dp_call s) of
        (name, model) \<Rightarrow>
          (dict_set name model (fst acc),
           dict_set name (fold add_scope (oauth_scopes s) (dict_get (snd acc) name [])) (snd acc)))"

definition get_openapi_security_definitions :: "doc_env \<Rightarrow> dependant \<Rightarrow> jobject \<times> doc list" where
  "get_openapi_security_definitions env flat =
     (case fold (add_security env) (security_dependencies (oe_callable env) flat) ([], []) of
        (definitions, sets) \<Rightarrow> (definitions, map (\<lambda>(name, scopes). DDict [(name, DList (map jstr scopes))]) sets))"

subsection \<open>Parameters\<close>

definition flat_route_dependant :: "doc_env \<Rightarrow> dependant \<Rightarrow> dependant" where
  "flat_route_dependant env d = fst (get_flat_dependant (oe_callable env) True d {} [])"

definition parameter_groups :: "doc_env \<Rightarrow> dependant \<Rightarrow> (str \<times> field list) list" where
  "parameter_groups env d =
     (let pa = dp_params (flat_route_dependant env d)
      in [(S ''path'', flat_fields_from_params (pa_path pa)), (S ''query'', flat_fields_from_params (pa_query pa)),
          (S ''header'', flat_fields_from_params (pa_header pa)), (S ''cookie'', flat_fields_from_params (pa_cookie pa))])"

definition default_convert_underscores :: "field list \<Rightarrow> bool" where
  "default_convert_underscores hs =
     (case hs of [f] \<Rightarrow> (if f_model f \<noteq> None then get_or (f_convert f) True else True) | _ \<Rightarrow> True)"

definition parameter_name :: "bool \<Rightarrow> str \<Rightarrow> field \<Rightarrow> str" where
  "parameter_name dc kind f =
     (if kind = S ''header'' \<and> get_validation_alias f = f_name f \<and> get_or (f_convert f) dc
      then underscores_to_dashes (f_name f) else get_validation_alias f)"

definition parameter_doc :: "doc_env \<Rightarrow> bool \<Rightarrow> str \<Rightarrow> field \<Rightarrow> jobject \<Rightarrow> jobject" where
  "parameter_doc env dc kind f js =
     (let fd = oe_field env f
      in [(S ''name'', jstr (parameter_name dc kind f)), (S ''in'', jstr kind),
          (S ''required'', DAtom (LBool (f_required f))), (S ''schema'', DDict (strip_default js))]
         @ (if truthy (dx_description fd) then [(S ''description'', jstr (the (dx_description fd)))] else [])
         @ (if dx_examples fd \<noteq> [] then [(S ''examples'', DDict (dx_examples fd))]
            else case dx_example fd of
                   Some e \<Rightarrow> if e \<noteq> DAtom LNull then [(S ''example'', e)] else []
                 | None \<Rightarrow> [])
         @ (if dx_deprecated fd then [(S ''deprecated'', jtrue)] else []))"

definition field_included :: "doc_env \<Rightarrow> field \<Rightarrow> bool" where
  "field_included env f = get_or (dx_in_schema (oe_field env f)) True"

definition get_openapi_operation_parameters :: "doc_env \<Rightarrow> field_mapping \<Rightarrow> dependant \<Rightarrow> jobject list res" where
  "get_openapi_operation_parameters env fm d =
     (let dc = default_convert_underscores (pa_header (dp_params (flat_route_dependant env d)))
      in rmap (\<lambda>(kind, f). rbind (get_schema_from_model_field env fm f) (\<lambda>js. Inr (parameter_doc env dc kind f js)))
           (concat (map (\<lambda>(kind, fs). map (Pair kind) (filter (field_included env) fs)) (parameter_groups env d))))"

definition param_key :: "jobject \<Rightarrow> doc option \<times> doc option" where
  "param_key p = (map_of p (S ''in''), map_of p (S ''name''))"

definition param_required :: "jobject \<Rightarrow> bool" where
  "param_required p \<longleftrightarrow> map_of p (S ''required'') = Some jtrue"

text \<open>One entry for each location and name; a required declaration takes the place of any other.\<close>

definition merge_parameters :: "jobject list \<Rightarrow> jobject list" where
  "merge_parameters ps =
     (let keyed = map (\<lambda>p. (param_key p, p))
      in map snd (dict_update (keyed (filter param_required ps)) (dict_update (keyed ps) [])))"

subsection \<open>Request bodies\<close>

definition get_openapi_operation_request_body :: "doc_env \<Rightarrow> field_mapping \<Rightarrow> field option \<Rightarrow> jobject option res" where
  "get_openapi_operation_request_body env fm body =
     (case body of
        None \<Rightarrow> Inr None
      | Some f \<Rightarrow>
          rbind (get_schema_from_model_field env fm f) (\<lambda>js.
            let fd = oe_field env f;
                content = (S ''schema'', DDict (strip_default js))
                  # (if dx_examples fd \<noteq> [] then [(S ''examples'', DDict (dx_examples fd))]
                     else case dx_example fd of Some e \<Rightarrow> [(S ''example'', e)] | None \<Rightarrow> [])
            in Inr (Some ((if f_required f then [(S ''required'', jtrue)] else [])
                     @ [(S ''content'', DDict [(dx_media fd, DDict content)])]))))"

subsection \<open>Metadata\<close>

text \<open>The operation ids given so far and the warnings.\<close>

record id_state =
  is_ids :: "str list"
  is_warnings :: "str list"

definition generate_operation_summary :: "api_route \<Rightarrow> route_docs \<Rightarrow> str" where
  "generate_operation_summary r rd =
     (if truthy (rd_summary rd) then the (rd_summary rd) else title_case (underscores_to_spaces (ro_name r)))"

definition operation_id_of :: "api_route \<Rightarrow> str" where
  "operation_id_of r = (if truthy (ro_operation_id r) then the (ro_operation_id r) else ro_unique_id r)"

definition get_openapi_operation_metadata :: "doc_env \<Rightarrow> api_route \<Rightarrow> route_docs \<Rightarrow> id_state \<Rightarrow> jobject \<times> id_state" where
  "get_openapi_operation_metadata env r rd st =
     (let oid = operation_id_of r;
          warning = S ''Duplicate Operation ID '' @ oid @ S '' for function '' @ oe_fname env (ro_endpoint r)
            @ (if truthy (oe_file env (ro_endpoint r)) then S '' at '' @ the (oe_file env (ro_endpoint r)) else [])
      in ((if ro_tags r \<noteq> [] then [(S ''tags'', DList (map jstr (ro_tags r)))] else [])
          @ [(S ''summary'', jstr (generate_operation_summary r rd))]
          @ (if rd_description rd \<noteq> [] then [(S ''description'', jstr (rd_description rd))] else [])
          @ [(S ''operationId'', jstr oid)]
          @ (if ro_deprecated r = Some True then [(S ''deprecated'', jtrue)] else []),
          \<lparr>is_ids = (if oid \<in> set (is_ids st) then is_ids st else oid # is_ids st),
           is_warnings = (if oid \<in> set (is_ids st) then is_warnings st @ [warning] else is_warnings st)\<rparr>))"

subsection \<open>Responses\<close>

definition primary_status :: "api_route \<Rightarrow> resp_class \<Rightarrow> str" where
  "primary_status r cls =
     (case ro_status r of
        Some n \<Rightarrow> int_str n
      | None \<Rightarrow> (case rc_default cls of Some n \<Rightarrow> int_str n | None \<Rightarrow> S ''200''))"

definition route_status :: "api_route \<Rightarrow> status_code" where
  "route_status r = (case ro_status r of None \<Rightarrow> StNone | Some n \<Rightarrow> StInt n)"

definition primary_response :: "doc_env \<Rightarrow> field_mapping \<Rightarrow> api_route \<Rightarrow> route_docs \<Rightarrow> resp_class \<Rightarrow> (str, jobject) dict res" where
  "primary_response env fm r rd cls =
     rbind (is_body_allowed_for_status_code (route_status r)) (\<lambda>allowed.
     rbind (if truthy (rc_media cls) \<and> allowed
            then rbind (if \<not> rc_json cls then Inr [(S ''type'', jtext ''string'')]
                        else case rd_response rd of
                               Some f \<Rightarrow> get_schema_from_model_field env fm f
                             | None \<Rightarrow> Inr []) (\<lambda>js.
                 Inr [(S ''content'', DDict [(the (rc_media cls), DDict [(S ''schema'', DDict js)])])])
            else Inr []) (\<lambda>content.
     Inr [(primary_status r cls, (S ''description'', jstr (rd_response_description rd)) # content)]))"

fun code_text :: "status_code \<Rightarrow> str" where
  "code_text StNone = S ''None''"
| "code_text (StInt n) = int_str n"
| "code_text (StText s) = s"

fun status_int :: "status_code \<Rightarrow> int res" where
  "status_int StNone = Inl (TypeError (S ''int() argument must be a string''))"
| "status_int (StInt n) = Inr n"
| "status_int (StText s) = py_int s"

definition is_range_code :: "str \<Rightarrow> bool" where
  "is_range_code s \<longleftrightarrow> (case s of [d, x, y] \<Rightarrow> is_digit d \<and> x = 88 \<and> y = 88 | _ \<Rightarrow> False)"

definition additional_key :: "status_code \<Rightarrow> str res" where
  "additional_key sc =
     (let key = upper (code_text sc)
      in if key = S ''DEFAULT'' then Inr (S ''default'')
         else case status_int sc of
                Inr _ \<Rightarrow> Inr key
              | Inl _ \<Rightarrow> if is_range_code key then Inr key
                         else Inl (ValueError (S ''Invalid status code in additional responses'')))"

text \<open>\<open>d.setdefault(k, {})\<close> used as a dictionary.\<close>

definition subobject :: "jobject \<Rightarrow> str \<Rightarrow> exn \<Rightarrow> jobject res" where
  "subobject d k e = (case map_of d k of None \<Rightarrow> Inr [] | Some (DDict x) \<Rightarrow> Inr x | Some _ \<Rightarrow> Inl e)"

definition merge_response_schema :: "str \<Rightarrow> jobject \<Rightarrow> jobject \<Rightarrow> jobject res" where
  "merge_response_schema media js resp =
     rbind (subobject resp (S ''content'') (AttributeError (S ''setdefault''))) (\<lambda>content.
     rbind (subobject content media (AttributeError (S ''setdefault''))) (\<lambda>entry.
     rbind (subobject entry (S ''schema'') (TypeError (S ''schema''))) (\<lambda>schema.
     Inr (dict_set (S ''content'') (DDict (dict_set media (DDict (dict_set (S ''schema'')
            (DDict (deep_dict_update schema js)) entry)) content)) resp))))"

definition additional_schema :: "doc_env \<Rightarrow> field_mapping \<Rightarrow> api_route \<Rightarrow> status_code \<Rightarrow> field \<Rightarrow> jobject res" where
  "additional_schema env fm r sc f =
     rbind (get_schema_from_model_field env fm f) (\<lambda>js.
       Inr (if dict_has js (S ''title'')
            then dict_set (S ''title'')
                   (jstr (S ''Response '' @ code_text sc @ 32 # title_case (underscores_to_spaces (ro_unique_id r)))) js
            else js))"

definition status_phrase :: "doc_env \<Rightarrow> status_code \<Rightarrow> str option res" where
  "status_phrase env sc =
     (case map_of status_code_ranges (upper (code_text sc)) of
        Some t \<Rightarrow> Inr (Some t)
      | None \<Rightarrow> rbind (status_int sc) (\<lambda>n. Inr (oe_phrase env n)))"

definition first_truthy :: "doc option list \<Rightarrow> doc \<Rightarrow> doc" where
  "first_truthy ds dflt = (case filter doc_truthy (List.map_filter (\<lambda>d. d) ds) of [] \<Rightarrow> dflt | d # _ \<Rightarrow> d)"

definition add_additional_response ::
  "doc_env \<Rightarrow> field_mapping \<Rightarrow> api_route \<Rightarrow> route_docs \<Rightarrow> resp_class \<Rightarrow> status_code \<times> jobject
   \<Rightarrow> (str, jobject) dict \<Rightarrow> (str, jobject) dict res" where
  "add_additional_response env fm r rd cls x responses =
     (case x of (sc, resp) \<Rightarrow>
        rbind (additional_key sc) (\<lambda>key.
        let old = dict_get responses key []; process = dict_del (S ''model'') resp
        in rbind (case map_of (rd_response_fields rd) sc of
                    None \<Rightarrow> Inr process
                  | Some f \<Rightarrow>
                      rbind (additional_schema env fm r sc f) (\<lambda>js.
                        merge_response_schema
                          (if truthy (rc_media cls) then the (rc_media cls) else S ''application/json'') js process)) (\<lambda>process'.
           rbind (status_phrase env sc) (\<lambda>text.
             let description = first_truthy [map_of process' (S ''description''), map_of old (S ''description''), map_option jstr text]
                                 (jtext ''Additional Response'')
             in Inr (dict_set key (dict_set (S ''description'') description (deep_dict_update old process')) responses)))))"

definition needs_422 :: "doc_env \<Rightarrow> api_route \<Rightarrow> route_docs \<Rightarrow> (str, jobject) dict \<Rightarrow> bool" where
  "needs_422 env r rd responses \<longleftrightarrow>
     (get_flat_params (oe_callable env) (ro_dependant r) \<noteq> [] \<or> rd_body rd \<noteq> None)
     \<and> \<not> dict_has responses (S ''422'') \<and> \<not> dict_has responses (S ''4XX'') \<and> \<not> dict_has responses (S ''default'')"

definition validation_error_response :: jobject where
  "validation_error_response =
     [(S ''description'', jtext ''Validation Error''),
      (S ''content'', DDict [(S ''application/json'', DDict [(S ''schema'',
         DDict [(S ''$ref'', jstr (REF_PREFIX @ S ''HTTPValidationError''))])])])]"

definition validation_definitions :: jobject where
  "validation_definitions =
     [(S ''ValidationError'', validation_error_definition),
      (S ''HTTPValidationError'', validation_error_response_definition)]"

definition operation_responses ::
  "doc_env \<Rightarrow> field_mapping \<Rightarrow> api_route \<Rightarrow> route_docs \<Rightarrow> resp_class \<Rightarrow> ((str, jobject) dict \<times> jobject) res" where
  "operation_responses env fm r rd cls =
     rbind (primary_response env fm r rd cls) (\<lambda>first.
     rbind (rfold (add_additional_response env fm r rd cls) (rd_responses rd) first) (\<lambda>rs.
       Inr (if needs_422 env r rd rs then (dict_set (S ''422'') validation_error_response rs, validation_definitions)
            else (rs, []))))"

subsection \<open>Paths\<close>

text \<open>The part of an operation before the callbacks, with the security schemes it uses.\<close>

definition operation_head ::
  "doc_env \<Rightarrow> field_mapping \<Rightarrow> api_route \<Rightarrow> route_docs \<Rightarrow> str \<Rightarrow> id_state \<Rightarrow> (jobject \<times> jobject \<times> id_state) res" where
  "operation_head env fm r rd mth st =
     (case get_openapi_operation_metadata env r rd st of (op, st') \<Rightarrow>
      case get_openapi_security_definitions env (flat_route_dependant env (ro_dependant r)) of (schemes, security) \<Rightarrow>
        rbind (get_openapi_operation_parameters env fm (ro_dependant r)) (\<lambda>ps.
        rbind (if mth \<in> METHODS_WITH_BODY then get_openapi_operation_request_body env fm (rd_body rd) else Inr None) (\<lambda>body.
        Inr (op @ (if security \<noteq> [] then [(S ''security'', DList security)] else [])
               @ (if ps \<noteq> [] then [(S ''parameters'', DList (map DDict (merge_parameters ps)))] else [])
               @ (case body of Some b \<Rightarrow> [(S ''requestBody'', DDict b)] | None \<Rightarrow> []),
             schemes, st'))))"

type_synonym path_result = "jobject \<times> jobject \<times> jobject"

function get_openapi_path :: "doc_env \<Rightarrow> field_mapping \<Rightarrow> doc_route \<Rightarrow> id_state \<Rightarrow> (path_result \<times> id_state) res"
  and path_loop ::
    "doc_env \<Rightarrow> field_mapping \<Rightarrow> resp_class \<Rightarrow> api_route \<Rightarrow> route_docs \<Rightarrow> doc_route option list \<Rightarrow> str list \<Rightarrow> path_result \<Rightarrow> id_state
     \<Rightarrow> (path_result \<times> id_state) res"
  and callback_loop :: "doc_env \<Rightarrow> field_mapping \<Rightarrow> doc_route option list \<Rightarrow> jobject \<Rightarrow> id_state \<Rightarrow> (jobject \<times> id_state) res" where
  "get_openapi_path env fm (DocRoute r rd cbs) st =
     (case rd_class rd of
        None \<Rightarrow> Inl (AssertionError (S ''A response class is needed to generate OpenAPI''))
      | Some cls \<Rightarrow>
          if ro_in_schema r then path_loop env fm cls r rd cbs (ro_methods r) ([], [], []) st
          else Inr (([], [], []), st))"
| "path_loop env fm cls r rd cbs [] acc st = Inr (acc, st)"
| "path_loop env fm cls r rd cbs (m # ms) acc st =
     rbind (operation_head env fm r rd m st) (\<lambda>(op, schemes, st1).
     rbind (if cbs \<noteq> [] then callback_loop env fm cbs [] st1 else Inr ([], st1)) (\<lambda>(callbacks, st2).
     rbind (operation_responses env fm r rd cls) (\<lambda>(responses, definitions).
     let op' = op @ (if cbs \<noteq> [] then [(S ''callbacks'', DDict callbacks)] else [])
                 @ [(S ''responses'', DDict (map (\<lambda>(k, v). (k, DDict v)) responses))]
     in case acc of (path, schemes0, definitions0) \<Rightarrow>
          path_loop env fm cls r rd cbs ms
            (dict_set (lower m) (DDict (deep_dict_update op' (rd_extra rd))) path,
             dict_update schemes schemes0, dict_update definitions definitions0) st2)))"
| "callback_loop env fm [] callbacks st = Inr (callbacks, st)"
| "callback_loop env fm (None # cbs) callbacks st = callback_loop env fm cbs callbacks st"
| "callback_loop env fm (Some c # cbs) callbacks st =
     rbind (get_openapi_path env fm c st) (\<lambda>((path, _), st').
       callback_loop env fm cbs
         (dict_set (ro_name (dr_route c)) (DDict [(ro_path (dr_route c), DDict path)]) callbacks) st')"
  by pat_completeness auto
termination
  by (relation "measures
        [\<lambda>x. case x of
           Inl (env, fm, d, st) \<Rightarrow> size d
         | Inr (Inl (env, fm, cls, r, rd, cbs, ms, acc, st)) \<Rightarrow> size_list (size_option size) cbs
         | Inr (Inr (env, fm, cbs, callbacks, st)) \<Rightarrow> size_list (size_option size) cbs,
         \<lambda>x. case x of
           Inr (Inl (env, fm, cls, r, rd, cbs, ms, acc, st)) \<Rightarrow> Suc (length ms)
         | _ \<Rightarrow> 0]") auto

subsection \<open>The document\<close>

text \<open>The fields of callbacks, bodies, responses and requests, each in the order of the routes.\<close>

type_synonym field_lists = "field list \<times> field list \<times> field list \<times> field list"

definition joined_fields :: "field_lists \<Rightarrow> field list" where
  "joined_fields x = (case x of (cb, body, resp, req) \<Rightarrow> cb @ body @ resp @ req)"

function fields_loop :: "doc_env \<Rightarrow> doc_route option list \<Rightarrow> field_lists \<Rightarrow> field_lists" where
  "fields_loop env [] acc = acc"
| "fields_loop env (None # rs) acc = fields_loop env rs acc"
| "fields_loop env (Some (DocRoute r rd cbs) # rs) (cb, body, resp, req) =
     (if ro_in_schema r
      then fields_loop env rs
             (cb @ joined_fields (fields_loop env cbs ([], [], [], [])),
              body @ (case rd_body rd of Some f \<Rightarrow> [f] | None \<Rightarrow> []),
              resp @ (case rd_response rd of Some f \<Rightarrow> [f] | None \<Rightarrow> []) @ map snd (rd_response_fields rd),
              req @ get_flat_params (oe_callable env) (ro_dependant r))
      else fields_loop env rs (cb, body, resp, req))"
  by pat_completeness auto
termination
  by (relation "measure (\<lambda>(env, rs, acc). size_list (size_option size) rs)") auto

definition get_fields_from_routes :: "doc_env \<Rightarrow> doc_route option list \<Rightarrow> field list" where
  "get_fields_from_routes env rs = joined_fields (fields_loop env rs ([], [], [], []))"

text \<open>The paths, the security schemes and the definitions so far; \<open>get_openapi\<close> has this loop twice, for routes and webhooks.\<close>

type_synonym doc_parts = "(str, jobject) dict \<times> jobject \<times> jobject"

definition add_route_docs ::
  "doc_env \<Rightarrow> field_mapping \<Rightarrow> doc_route option \<Rightarrow> doc_parts \<times> id_state \<Rightarrow> (doc_parts \<times> id_state) res" where
  "add_route_docs env fm x acc =
     (case (x, acc) of
        (None, _) \<Rightarrow> Inr acc
      | (Some d, (paths, schemes, definitions), st) \<Rightarrow>
          rbind (get_openapi_path env fm d st) (\<lambda>((path, schemes', definitions'), st').
            let fmt = cp_format (ro_compiled (dr_route d))
            in Inr ((if path \<noteq> [] then dict_set fmt (dict_update path (dict_get paths fmt [])) paths else paths,
                     dict_update schemes' schemes, dict_update definitions' definitions), st')))"

record doc_info =
  di_title :: str
  di_version :: str
  di_openapi :: str
  di_summary :: "str option"
  di_description :: "str option"
  di_terms :: "str option"
  di_contact :: jobject
  di_license :: jobject
  di_servers :: "doc list"
  di_tags :: "doc list"
  di_external :: jobject

definition opt_text :: "string \<Rightarrow> str option \<Rightarrow> jobject" where
  "opt_text k s = (if truthy s then [(S k, jstr (the s))] else [])"

definition opt_object :: "string \<Rightarrow> jobject \<Rightarrow> jobject" where
  "opt_object k d = (if d \<noteq> [] then [(S k, DDict d)] else [])"

definition opt_list :: "string \<Rightarrow> doc list \<Rightarrow> jobject" where
  "opt_list k ds = (if ds \<noteq> [] then [(S k, DList ds)] else [])"

definition paths_doc :: "(str, jobject) dict \<Rightarrow> jobject" where
  "paths_doc paths = map (\<lambda>(p, ops). (p, DDict ops)) paths"

definition components_doc :: "jobject \<Rightarrow> jobject \<Rightarrow> jobject" where
  "components_doc schemes definitions = opt_object ''securitySchemes'' schemes @ opt_object ''schemas'' (sort_key fst definitions)"

definition get_openapi ::
  "doc_env \<Rightarrow> schema_generator \<Rightarrow> doc_info \<Rightarrow> doc_route option list \<Rightarrow> doc_route option list \<Rightarrow> (jobject \<times> id_state) res" where
  "get_openapi env gen di routes webhooks =
     (case get_definitions env gen (get_fields_from_routes env (routes @ webhooks)) of (fm, defs) \<Rightarrow>
        rbind (rfold (add_route_docs env fm) routes
                 (([], [], paths_doc defs), \<lparr>is_ids = [], is_warnings = []\<rparr>)) (\<lambda>((paths, schemes, definitions), st).
        rbind (rfold (add_route_docs env fm) webhooks
                 (([], schemes, definitions), st)) (\<lambda>((webhook_paths, schemes', definitions'), st').
        Inr ([(S ''openapi'', jstr (di_openapi di)),
              (S ''info'', DDict ([(S ''title'', jstr (di_title di)), (S ''version'', jstr (di_version di))]
                 @ opt_text ''summary'' (di_summary di) @ opt_text ''description'' (di_description di)
                 @ opt_text ''termsOfService'' (di_terms di)
                 @ opt_object ''contact'' (di_contact di) @ opt_object ''license'' (di_license di)))]
             @ opt_list ''servers'' (di_servers di)
             @ opt_object ''components'' (components_doc schemes' definitions')
             @ [(S ''paths'', DDict (paths_doc paths))]
             @ opt_object ''webhooks'' (paths_doc webhook_paths)
             @ opt_list ''tags'' (di_tags di) @ opt_object ''externalDocs'' (di_external di), st'))))"

subsection \<open>Properties: the paths of the document\<close>

lemma rfold_append: "rfold f (xs @ ys) b = rbind (rfold f xs b) (rfold f ys)"
proof (induction xs arbitrary: b)
  case Nil
  then show ?case by simp
next
  case (Cons x xs)
  then have "rfold f (xs @ ys) = (\<lambda>b. rbind (rfold f xs b) (rfold f ys))" by (simp add: fun_eq_iff)
  then show ?case by (simp add: rbind_assoc)
qed

text \<open>The operation documented for a path and a method, if any.\<close>

definition documented :: "(str, jobject) dict \<Rightarrow> str \<Rightarrow> str \<Rightarrow> doc option" where
  "documented paths p m = (case map_of paths p of Some ops \<Rightarrow> map_of ops m | None \<Rightarrow> None)"

lemma documented_Nil: "documented [] p m = None"
  by (simp add: documented_def)

definition serves :: "str \<Rightarrow> str \<Rightarrow> doc_route option \<Rightarrow> bool" where
  "serves p m x = (case x of
     None \<Rightarrow> False
   | Some d \<Rightarrow> ro_in_schema (dr_route d) \<and> cp_format (ro_compiled (dr_route d)) = p \<and> m \<in> lower ` set (ro_methods (dr_route d)))"

lemma path_loop_keys:
  "path_loop env fm cls r rd cbs ms acc st = Inr (res, st')
   \<Longrightarrow> fst ` set (fst res) = fst ` set (fst acc) \<union> lower ` set ms"
proof (induction ms arbitrary: acc st)
  case Nil
  then show ?case by simp
next
  case (Cons m ms)
  have keys: "fst ` set (dict_set k v p) = insert k (fst ` set p)" for k :: str and v :: doc and p
    by (metis keys_dict_set set_map list.simps(15) set_append Un_insert_right Un_empty_right insert_absorb empty_set)
  obtain path schemes defs where acc: "acc = (path, schemes, defs)" by (cases acc)
  from Cons.prems obtain op sch' defs' acc' st2 where
    "path_loop env fm cls r rd cbs ms (dict_set (lower m) op path, sch', defs') st2 = Inr (res, st')"
    by (auto simp: acc Let_def)
  from Cons.IH [OF this] show ?case by (simp add: acc keys)
qed

lemma get_openapi_path_keys:
  assumes "get_openapi_path env fm d st = Inr ((path, rest), st')"
  shows "fst ` set path = (if ro_in_schema (dr_route d) then lower ` set (ro_methods (dr_route d)) else {})"
proof (cases d)
  case (DocRoute r rd cbs)
  with assms obtain cls where "ro_in_schema r \<Longrightarrow> path_loop env fm cls r rd cbs (ro_methods r) ([], [], []) st = Inr ((path, rest), st')"
    and "\<not> ro_in_schema r \<Longrightarrow> path = []"
    by (auto split: option.splits if_splits)
  with path_loop_keys [of env fm cls r rd cbs "ro_methods r" "([], [], [])" st "(path, rest)" st'] show ?thesis
    by (cases "ro_in_schema r") (simp_all add: DocRoute)
qed

lemma dict_wf_path_loop:
  "path_loop env fm cls r rd cbs ms acc st = Inr (res, st') \<Longrightarrow> dict_wf (fst acc) \<Longrightarrow> dict_wf (fst res)"
proof (induction ms arbitrary: acc st)
  case Nil
  then show ?case by simp
next
  case (Cons m ms)
  obtain path schemes defs where acc: "acc = (path, schemes, defs)" by (cases acc)
  from Cons.prems obtain op sch' defs' acc' st2 where
    "path_loop env fm cls r rd cbs ms (dict_set (lower m) op path, sch', defs') st2 = Inr (res, st')"
    by (auto simp: acc Let_def)
  from Cons.IH [OF this] Cons.prems(2) show ?case by (simp add: acc dict_wf_set)
qed

lemma dict_wf_get_openapi_path:
  assumes "get_openapi_path env fm d st = Inr ((path, rest), st')"
  shows "dict_wf path"
proof (cases d)
  case (DocRoute r rd cbs)
  with assms obtain cls where "ro_in_schema r \<Longrightarrow> path_loop env fm cls r rd cbs (ro_methods r) ([], [], []) st = Inr ((path, rest), st')"
    and "\<not> ro_in_schema r \<Longrightarrow> path = []"
    by (auto split: option.splits if_splits)
  with dict_wf_path_loop [of env fm cls r rd cbs "ro_methods r" "([], [], [])" st "(path, rest)" st'] show ?thesis
    by (cases "ro_in_schema r") simp_all
qed

text \<open>The operation that a route contributes: the one its own path has, generated at some moment.\<close>

definition operation_from :: "doc_env \<Rightarrow> field_mapping \<Rightarrow> doc_route option \<Rightarrow> str \<Rightarrow> doc \<Rightarrow> bool" where
  "operation_from env fm x m op \<longleftrightarrow>
     (\<exists>d st path schemes defs st'. x = Some d \<and> get_openapi_path env fm d st = Inr ((path, schemes, defs), st') \<and> map_of path m = Some op)"

lemma add_route_docs_documented:
  assumes "add_route_docs env fm x ((paths, rest), st) = Inr ((paths', rest'), st')"
  shows "if serves p m x then \<exists>op. documented paths' p m = Some op \<and> operation_from env fm x m op
         else documented paths' p m = documented paths p m"
proof (cases x)
  case None
  with assms show ?thesis by (simp add: add_route_docs_def serves_def)
next
  case (Some d)
  obtain schemes defs where rest: "rest = (schemes, defs)" by (cases rest)
  from assms obtain path sch' defs' where run: "get_openapi_path env fm d st = Inr ((path, sch', defs'), st')"
    and paths': "paths' = (let fmt = cp_format (ro_compiled (dr_route d))
       in if path \<noteq> [] then dict_set fmt (dict_update path (dict_get paths fmt [])) paths else paths)"
    by (auto simp: add_route_docs_def Some rest Let_def)
  have wf: "map_of (rev path) k = map_of path k" for k by (rule map_of_rev_wf [OF dict_wf_get_openapi_path [OF run]])
  have keys: "(map_of path m \<noteq> None) = (ro_in_schema (dr_route d) \<and> m \<in> lower ` set (ro_methods (dr_route d)))"
    using get_openapi_path_keys [OF run] by (auto simp: map_of_eq_None_iff split: if_splits)
  have here: "documented paths' p m =
      (if p = cp_format (ro_compiled (dr_route d)) then
         (case map_of path m of Some op \<Rightarrow> Some op | None \<Rightarrow> documented paths p m) else documented paths p m)"
    by (auto simp: paths' documented_def Let_def dict_simps dict_get_def wf split: option.splits)
  show ?thesis
  proof (cases "serves p m x")
    case True
    with keys obtain op where op: "map_of path m = Some op" by (auto simp: serves_def Some)
    moreover from True have "p = cp_format (ro_compiled (dr_route d))" by (simp add: serves_def Some)
    moreover have "operation_from env fm x m op" unfolding operation_from_def using run op Some by blast
    ultimately show ?thesis using True here by simp
  next
    case False
    with keys here show ?thesis by (auto simp: serves_def Some split: option.splits)
  qed
qed

lemma route_docs_exact:
  assumes "rfold (add_route_docs env fm) routes ((paths0, rest), st) = Inr ((paths, rest'), st')"
  shows "case find (serves p m) (rev routes) of
           None \<Rightarrow> documented paths p m = documented paths0 p m
         | Some x \<Rightarrow> \<exists>op. documented paths p m = Some op \<and> operation_from env fm x m op"
  using assms
proof (induction routes arbitrary: paths rest' st' rule: rev_induct)
  case Nil
  then show ?case by simp
next
  case (snoc x routes)
  then obtain paths1 rest1 st1 where
    first: "rfold (add_route_docs env fm) routes ((paths0, rest), st) = Inr ((paths1, rest1), st1)"
    and last: "add_route_docs env fm x ((paths1, rest1), st1) = Inr ((paths, rest'), st')"
    by (auto simp: rfold_append)
  from add_route_docs_documented [OF last, of p m] snoc.IH [OF first] show ?case
    by (auto split: if_splits option.splits)
qed

lemma map_of_opt [simp]:
  "map_of (opt_object k d) (S k') = (if k = k' \<and> d \<noteq> [] then Some (DDict d) else None)"
  "map_of (opt_list k ds) (S k') = (if k = k' \<and> ds \<noteq> [] then Some (DList ds) else None)"
  "map_of (opt_text k s) (S k') = (if k = k' \<and> truthy s then Some (jstr (the s)) else None)"
  by (auto simp: opt_object_def opt_list_def opt_text_def dest: arg_cong [of _ _ "map char_of :: str \<Rightarrow> string"])

lemma get_openapi_parts:
  assumes "get_openapi env gen di routes webhooks = Inr (doc, st)"
    and "get_definitions env gen (get_fields_from_routes env (routes @ webhooks)) = (fm, defs)"
  obtains paths schemes1 defs1 st1 hooks schemes2 defs2 where
    "rfold (add_route_docs env fm) routes (([], [], paths_doc defs), \<lparr>is_ids = [], is_warnings = []\<rparr>)
       = Inr ((paths, schemes1, defs1), st1)"
    "rfold (add_route_docs env fm) webhooks (([], schemes1, defs1), st1) = Inr ((hooks, schemes2, defs2), st)"
    "map_of doc (S ''paths'') = Some (DDict (paths_doc paths))"
    "map_of doc (S ''components'') = (if components_doc schemes2 defs2 \<noteq> [] then Some (DDict (components_doc schemes2 defs2)) else None)"
  using assms by (auto simp: get_openapi_def map_add_def split: prod.splits)

lemma openapi_documented:
  assumes "get_openapi env gen di routes webhooks = Inr (doc, st)"
    and "fm = fst (gen (map (\<lambda>f. (f, schema_mode env f)) (get_fields_from_routes env (routes @ webhooks))))"
  obtains paths where "map_of doc (S ''paths'') = Some (DDict (paths_doc paths))"
    and "\<And>p m. case find (serves p m) (rev routes) of
           None \<Rightarrow> documented paths p m = None
         | Some x \<Rightarrow> \<exists>op. documented paths p m = Some op \<and> operation_from env fm x m op"
proof -
  obtain fm' defs where defs: "get_definitions env gen (get_fields_from_routes env (routes @ webhooks)) = (fm', defs)"
    by fastforce
  with assms(2) have fm: "fm' = fm" by (auto simp: get_definitions_def split: prod.splits)
  from get_openapi_parts [OF assms(1) defs] obtain paths schemes1 defs1 st1 where
    run: "rfold (add_route_docs env fm) routes (([], [], paths_doc defs), \<lparr>is_ids = [], is_warnings = []\<rparr>)
            = Inr ((paths, schemes1, defs1), st1)"
    and doc: "map_of doc (S ''paths'') = Some (DDict (paths_doc paths))"
    unfolding fm by metis
  show ?thesis
    using that [OF doc] route_docs_exact [OF run] by (simp only: documented_Nil)
qed

subsection \<open>Properties: parameters\<close>

lemma dict_update_Nil [simp]: "dict_update [] d = d"
  by (simp add: dict_update_def)

lemma map_of_keyed: "map_of (map (\<lambda>p. (param_key p, p)) qs) k = find (\<lambda>p. param_key p = k) qs"
  by (induction qs) auto

definition keyed_parameters :: "jobject list \<Rightarrow> (doc option \<times> doc option, jobject) dict" where
  "keyed_parameters ps =
     dict_update (map (\<lambda>p. (param_key p, p)) (filter param_required ps)) (dict_update (map (\<lambda>p. (param_key p, p)) ps) [])"

lemma dict_wf_keyed_parameters: "dict_wf (keyed_parameters ps)"
  by (simp add: keyed_parameters_def dict_wf_update)

lemma keyed_parameters_lookup:
  "map_of (keyed_parameters ps) k =
     (case find (\<lambda>p. param_key p = k) (rev (filter param_required ps)) of
        Some p \<Rightarrow> Some p | None \<Rightarrow> find (\<lambda>p. param_key p = k) (rev ps))"
  by (simp add: keyed_parameters_def dict_simps rev_map map_of_keyed split: option.splits)

lemma keyed_parameters_entry:
  assumes "map_of (keyed_parameters ps) k = Some q"
  shows "q \<in> set ps \<and> param_key q = k \<and> (param_required q \<longleftrightarrow> (\<exists>p\<in>set ps. param_key p = k \<and> param_required p))"
proof (cases "find (\<lambda>p. param_key p = k) (rev (filter param_required ps))")
  case None
  with assms have "find (\<lambda>p. param_key p = k) (rev ps) = Some q" by (simp add: keyed_parameters_lookup)
  from find_SomeD [OF this] None show ?thesis by (auto simp: find_None_iff)
next
  case (Some q')
  with assms have "q' = q" by (simp add: keyed_parameters_lookup)
  with find_SomeD [OF Some] show ?thesis by auto
qed

lemma keyed_parameters_some:
  assumes "p \<in> set ps"
  shows "\<exists>q. map_of (keyed_parameters ps) (param_key p) = Some q"
proof -
  from assms have "find (\<lambda>q. param_key q = param_key p) (rev ps) \<noteq> None"
    unfolding find_None_iff by auto
  then show ?thesis by (auto simp: keyed_parameters_lookup split: option.splits)
qed

lemma merge_parameters_keyed:
  "merge_parameters ps = map snd (keyed_parameters ps)"
  by (simp add: merge_parameters_def keyed_parameters_def Let_def)

lemma merge_parameters_exact:
  shows "distinct (map param_key (merge_parameters ps))"
    and "set (merge_parameters ps) \<subseteq> set ps"
    and "p \<in> set ps \<Longrightarrow> \<exists>q\<in>set (merge_parameters ps). param_key q = param_key p"
    and "q \<in> set (merge_parameters ps) \<Longrightarrow> param_required q \<longleftrightarrow> (\<exists>p\<in>set ps. param_key p = param_key q \<and> param_required p)"
proof -
  have wf: "distinct (map fst (keyed_parameters ps))" using dict_wf_keyed_parameters by (simp add: dict_wf_def)
  have entry: "map_of (keyed_parameters ps) k = Some q" if "(k, q) \<in> set (keyed_parameters ps)" for k q
    using that wf by simp
  have "map param_key (merge_parameters ps) = map fst (keyed_parameters ps)"
    unfolding merge_parameters_keyed map_map comp_def
    using keyed_parameters_entry [OF entry] by (intro map_cong refl) (metis prod.collapse)
  with wf show "distinct (map param_key (merge_parameters ps))" by simp
  show "set (merge_parameters ps) \<subseteq> set ps"
    unfolding merge_parameters_keyed using keyed_parameters_entry [OF entry] by auto
  show "\<exists>q\<in>set (merge_parameters ps). param_key q = param_key p" if "p \<in> set ps"
  proof -
    from keyed_parameters_some [OF that] obtain q where q: "map_of (keyed_parameters ps) (param_key p) = Some q" ..
    then have "q \<in> set (merge_parameters ps)" unfolding merge_parameters_keyed by (force dest: map_of_SomeD)
    with keyed_parameters_entry [OF q] show ?thesis by blast
  qed
  show "param_required q \<longleftrightarrow> (\<exists>p\<in>set ps. param_key p = param_key q \<and> param_required p)"
    if "q \<in> set (merge_parameters ps)"
  proof -
    from that obtain k where "(k, q) \<in> set (keyed_parameters ps)" unfolding merge_parameters_keyed by auto
    from keyed_parameters_entry [OF entry [OF this]] show ?thesis by auto
  qed
qed

lemma parameter_doc_lookup:
  "map_of (parameter_doc env dc kind f js) (S ''in'') = Some (jstr kind)"
  "map_of (parameter_doc env dc kind f js) (S ''name'') = Some (jstr (parameter_name dc kind f))"
  "map_of (parameter_doc env dc kind f js) (S ''required'') = Some (DAtom (LBool (f_required f)))"
  by (simp_all add: parameter_doc_def Let_def)

text \<open>The declarations an operation documents, with their locations.\<close>

definition declared_parameters :: "doc_env \<Rightarrow> dependant \<Rightarrow> (str \<times> field) list" where
  "declared_parameters env d = concat (map (\<lambda>(kind, fs). map (Pair kind) (filter (field_included env) fs)) (parameter_groups env d))"

lemma operation_parameters_exact:
  assumes "get_openapi_operation_parameters env fm d = Inr ps"
    and "dc = default_convert_underscores (pa_header (dp_params (flat_route_dependant env d)))"
  shows "map (\<lambda>p. (param_key p, param_required p)) ps =
     map (\<lambda>(kind, f). ((Some (jstr kind), Some (jstr (parameter_name dc kind f))), f_required f)) (declared_parameters env d)"
proof -
  let ?decl = "\<lambda>(kind, f). ((Some (jstr kind), Some (jstr (parameter_name dc kind f))), f_required f)"
  from assms have "list_all2 (\<lambda>x p. ?decl x = (param_key p, param_required p)) (declared_parameters env d) ps"
    by (auto simp: get_openapi_operation_parameters_def Let_def declared_parameters_def [symmetric] rmap_Inr_iff
          param_key_def param_required_def parameter_doc_lookup elim!: list_all2_mono)
  then show ?thesis by (induction rule: list_all2_induct) simp_all
qed

subsection \<open>Properties: operations\<close>

text \<open>How an operation of a route came about.\<close>

definition is_operation ::
  "doc_env \<Rightarrow> field_mapping \<Rightarrow> resp_class \<Rightarrow> doc_route \<Rightarrow> str \<Rightarrow> doc \<Rightarrow> bool" where
  "is_operation env fm cls d mth op \<longleftrightarrow>
     (\<exists>st head schemes st' callbacks responses defs.
        operation_head env fm (dr_route d) (dr_docs d) mth st = Inr (head, schemes, st')
        \<and> operation_responses env fm (dr_route d) (dr_docs d) cls = Inr (responses, defs)
        \<and> op = DDict (deep_dict_update (head @ callbacks @ [(S ''responses'', DDict (map (\<lambda>(k, v). (k, DDict v)) responses))])
                       (rd_extra (dr_docs d)))
        \<and> fst ` set callbacks \<subseteq> {S ''callbacks''})"

lemma path_loop_operation:
  assumes "path_loop env fm cls r rd cbs ms acc st = Inr (res, st')" and "map_of (fst res) m = Some op"
  shows "map_of (fst acc) m = Some op \<or> (\<exists>mth\<in>set ms. lower mth = m \<and> is_operation env fm cls (DocRoute r rd cbs) mth op)"
  using assms
proof (induction ms arbitrary: acc st)
  case Nil
  then show ?case by simp
next
  case (Cons mth ms)
  obtain path schemes defs where acc: "acc = (path, schemes, defs)" by (cases acc)
  from Cons.prems(1) obtain head sch st1 callbacks st2 responses defs1 where
    head: "operation_head env fm r rd mth st = Inr (head, sch, st1)"
    and resp: "operation_responses env fm r rd cls = Inr (responses, defs1)"
    and loop: "path_loop env fm cls r rd cbs ms
        (dict_set (lower mth) (DDict (deep_dict_update (head @ (if cbs \<noteq> [] then [(S ''callbacks'', DDict callbacks)] else [])
                 @ [(S ''responses'', DDict (map (\<lambda>(k, v). (k, DDict v)) responses))]) (rd_extra rd))) path,
         dict_update sch schemes, dict_update defs1 defs) st2 = Inr (res, st')" (is "path_loop _ _ _ _ _ _ _ (dict_set _ ?op _, _) _ = _")
    by (auto simp: acc Let_def)
  have "is_operation env fm cls (DocRoute r rd cbs) mth ?op"
    unfolding is_operation_def using head resp
    by (intro exI [of _ st] exI [of _ head] exI [of _ sch] exI [of _ st1] exI [of _ responses] exI [of _ defs1]
          exI [of _ "if cbs \<noteq> [] then [(S ''callbacks'', DDict callbacks)] else []"]) auto
  with Cons.IH [OF loop Cons.prems(2)] show ?case
    by (auto simp: acc dict_simps split: if_splits)
qed

lemma get_openapi_path_operation:
  assumes "get_openapi_path env fm d st = Inr ((path, rest), st')" and "map_of path m = Some op"
  shows "\<exists>cls mth. rd_class (dr_docs d) = Some cls \<and> ro_in_schema (dr_route d) \<and> mth \<in> set (ro_methods (dr_route d))
           \<and> lower mth = m \<and> is_operation env fm cls d mth op"
proof (cases d)
  case (DocRoute r rd cbs)
  with assms obtain cls where "rd_class rd = Some cls" "ro_in_schema r"
    and "path_loop env fm cls r rd cbs (ro_methods r) ([], [], []) st = Inr ((path, rest), st')"
    by (auto split: option.splits if_splits)
  with path_loop_operation [of env fm cls r rd cbs "ro_methods r" "([], [], [])" st "(path, rest)" st' m op] assms(2) DocRoute
  show ?thesis by auto
qed

lemma operation_fromE:
  assumes "operation_from env fm (Some d) m op"
  obtains cls mth where "rd_class (dr_docs d) = Some cls" "ro_in_schema (dr_route d)" "mth \<in> set (ro_methods (dr_route d))"
    "lower mth = m" "is_operation env fm cls d mth op"
  using assms get_openapi_path_operation unfolding operation_from_def by (metis option.inject)

lemma map_of_metadata:
  "k \<in> {''security'', ''parameters'', ''requestBody'', ''responses'', ''callbacks''}
   \<Longrightarrow> map_of (fst (get_openapi_operation_metadata env r rd st)) (S k) = None"
  by (auto simp: get_openapi_operation_metadata_def Let_def map_add_def)

lemma operation_head_lookup:
  assumes "operation_head env fm r rd mth st = Inr (head, schemes, st')"
  shows "\<exists>ps. get_openapi_operation_parameters env fm (ro_dependant r) = Inr ps
      \<and> map_of head (S ''parameters'') = (if ps \<noteq> [] then Some (DList (map DDict (merge_parameters ps))) else None)"
    and "map_of head (S ''responses'') = None"
    and "map_of head (S ''security'') =
      (let security = snd (get_openapi_security_definitions env (flat_route_dependant env (ro_dependant r)))
       in if security \<noteq> [] then Some (DList security) else None)"
    and "schemes = fst (get_openapi_security_definitions env (flat_route_dependant env (ro_dependant r)))"
proof -
  obtain op st1 where meta: "get_openapi_operation_metadata env r rd st = (op, st1)" by fastforce
  obtain sch sec where sec: "get_openapi_security_definitions env (flat_route_dependant env (ro_dependant r)) = (sch, sec)" by fastforce
  from assms obtain ps body where ps: "get_openapi_operation_parameters env fm (ro_dependant r) = Inr ps"
    and head: "head = op @ (if sec \<noteq> [] then [(S ''security'', DList sec)] else [])
               @ (if ps \<noteq> [] then [(S ''parameters'', DList (map DDict (merge_parameters ps)))] else [])
               @ (case body of Some b \<Rightarrow> [(S ''requestBody'', DDict b)] | None \<Rightarrow> [])" and sch: "schemes = sch"
    by (auto simp: operation_head_def meta sec)
  note op = map_of_metadata [of _ env r rd st, unfolded meta fst_conv]
  show "\<exists>ps. get_openapi_operation_parameters env fm (ro_dependant r) = Inr ps
      \<and> map_of head (S ''parameters'') = (if ps \<noteq> [] then Some (DList (map DDict (merge_parameters ps))) else None)"
    using ps by (auto simp: head op map_add_def split: option.splits)
  show "map_of head (S ''responses'') = None"
    by (auto simp: head op map_add_def split: option.splits)
  show "map_of head (S ''security'') =
      (let security = snd (get_openapi_security_definitions env (flat_route_dependant env (ro_dependant r)))
       in if security \<noteq> [] then Some (DList security) else None)"
    by (auto simp: head op sec map_add_def split: option.splits)
  show "schemes = fst (get_openapi_security_definitions env (flat_route_dependant env (ro_dependant r)))"
    by (simp add: sec sch)
qed

lemma map_of_deep_dict_update_other:
  "k \<notin> fst ` set upd \<Longrightarrow> map_of (deep_dict_update main upd) k = map_of main k"
  by (induction main upd rule: deep_dict_update.induct) (auto simp: dict_simps split: option.splits data.splits)

text \<open>The operation the document has for a path and a method, and the route it comes from.\<close>

lemma openapi_operation:
  assumes "get_openapi env gen di routes webhooks = Inr (doc, st)"
    and "fm = fst (gen (map (\<lambda>f. (f, schema_mode env f)) (get_fields_from_routes env (routes @ webhooks))))"
    and "find (serves p m) (rev routes) = Some (Some d)"
  obtains paths cls mth op where "map_of doc (S ''paths'') = Some (DDict (paths_doc paths))"
    "documented paths p m = Some (DDict op)" "rd_class (dr_docs d) = Some cls" "is_operation env fm cls d mth (DDict op)"
proof -
  from openapi_documented [OF assms(1,2)] obtain paths where paths: "map_of doc (S ''paths'') = Some (DDict (paths_doc paths))"
    and ops: "\<And>p m. case find (serves p m) (rev routes) of
           None \<Rightarrow> documented paths p m = None
         | Some x \<Rightarrow> \<exists>op. documented paths p m = Some op \<and> operation_from env fm x m op"
    by blast
  from ops [of p m] assms(3) obtain op where op: "documented paths p m = Some op" "operation_from env fm (Some d) m op" by auto
  from operation_fromE [OF op(2)] obtain cls mth where "rd_class (dr_docs d) = Some cls" "is_operation env fm cls d mth op" .
  moreover from this(2) obtain op' where "op = DDict op'" by (auto simp: is_operation_def)
  ultimately show ?thesis using that [OF paths] op(1) by blast
qed

lemma is_operation_lookup:
  assumes "is_operation env fm cls d mth (DDict op)"
  obtains st head schemes st' responses defs where
    "operation_head env fm (dr_route d) (dr_docs d) mth st = Inr (head, schemes, st')"
    "operation_responses env fm (dr_route d) (dr_docs d) cls = Inr (responses, defs)"
    "\<And>k. S k \<notin> fst ` set (rd_extra (dr_docs d)) \<Longrightarrow> k \<noteq> ''callbacks'' \<Longrightarrow> k \<noteq> ''responses'' \<Longrightarrow> map_of op (S k) = map_of head (S k)"
    "S ''responses'' \<notin> fst ` set (rd_extra (dr_docs d)) \<Longrightarrow>
       map_of op (S ''responses'') = Some (DDict (map (\<lambda>(k, v). (k, DDict v)) responses))"
proof -
  from assms obtain st head schemes st' callbacks responses defs where
    head: "operation_head env fm (dr_route d) (dr_docs d) mth st = Inr (head, schemes, st')"
    and resp: "operation_responses env fm (dr_route d) (dr_docs d) cls = Inr (responses, defs)"
    and op: "op = deep_dict_update (head @ callbacks @ [(S ''responses'', DDict (map (\<lambda>(k, v). (k, DDict v)) responses))])
                       (rd_extra (dr_docs d))"
    and cb: "fst ` set callbacks \<subseteq> {S ''callbacks''}"
    unfolding is_operation_def by auto
  have none: "map_of callbacks (S k) = None" if "k \<noteq> ''callbacks''" for k
    using cb that by (auto simp: map_of_eq_None_iff)
  show ?thesis
  proof (rule that [OF head resp])
    show "map_of op (S k) = map_of head (S k)"
      if "S k \<notin> fst ` set (rd_extra (dr_docs d))" "k \<noteq> ''callbacks''" "k \<noteq> ''responses''" for k
      using that none by (auto simp: op map_of_deep_dict_update_other map_add_def split: option.splits)
    show "map_of op (S ''responses'') = Some (DDict (map (\<lambda>(k, v). (k, DDict v)) responses))"
      if "S ''responses'' \<notin> fst ` set (rd_extra (dr_docs d))"
      using that none operation_head_lookup(2) [OF head]
      by (simp add: op map_of_deep_dict_update_other map_add_def)
  qed
qed

text \<open>
  C35: The document shows every operation of the API and no other: for each path and method it has the operation of the last
  route in the schema that serves them, and nothing when there is none.
\<close>

theorem openapi_operations_exact:
  assumes "get_openapi env gen di routes webhooks = Inr (doc, st)"
  shows "\<exists>paths fm. map_of doc (S ''paths'') = Some (DDict (paths_doc paths))
     \<and> fm = fst (gen (map (\<lambda>f. (f, schema_mode env f)) (get_fields_from_routes env (routes @ webhooks))))
     \<and> (\<forall>p m. case find (serves p m) (rev routes) of
           None \<Rightarrow> documented paths p m = None
         | Some x \<Rightarrow> \<exists>op. documented paths p m = Some op \<and> operation_from env fm x m op)"
proof -
  from openapi_documented [OF assms refl] obtain paths where "map_of doc (S ''paths'') = Some (DDict (paths_doc paths))"
    and "\<And>p m. case find (serves p m) (rev routes) of
           None \<Rightarrow> documented paths p m = None
         | Some x \<Rightarrow> \<exists>op. documented paths p m = Some op \<and> operation_from env
             (fst (gen (map (\<lambda>f. (f, schema_mode env f)) (get_fields_from_routes env (routes @ webhooks))))) x m op"
    by blast
  then show ?thesis by blast
qed


subsection \<open>Properties: components\<close>

lemma map_of_sort_key: "map_of (sort_key fst xs) k = map_of xs (k :: str)"
proof -
  have "map_of ys k = map_of (filter (\<lambda>y. fst y = k) ys) k" for ys :: "(str \<times> 'b) list"
    by (induction ys) auto
  from this [of "sort_key fst xs"] this [of xs] show ?thesis by (simp add: sort_key_stable)
qed

lemma map_of_components:
  "map_of (components_doc schemes defs) (S ''securitySchemes'') = (if schemes \<noteq> [] then Some (DDict schemes) else None)"
  "map_of (components_doc schemes defs) (S ''schemas'') = (if defs \<noteq> [] then Some (DDict (sort_key fst defs)) else None)"
proof -
  have "sort_key fst defs = [] \<longleftrightarrow> defs = []" by (metis length_0_conv length_sort)
  then show "map_of (components_doc schemes defs) (S ''securitySchemes'') = (if schemes \<noteq> [] then Some (DDict schemes) else None)"
    "map_of (components_doc schemes defs) (S ''schemas'') = (if defs \<noteq> [] then Some (DDict (sort_key fst defs)) else None)"
    by (simp_all add: components_doc_def map_add_def)
qed

abbreviation route_schemes :: "doc_env \<Rightarrow> api_route \<Rightarrow> jobject" where
  "route_schemes env r \<equiv> fst (get_openapi_security_definitions env (flat_route_dependant env (ro_dependant r)))"

definition has_validation :: "jobject \<Rightarrow> bool" where
  "has_validation defs \<longleftrightarrow> (\<forall>k v. map_of validation_definitions k = Some v \<longrightarrow> map_of defs k = Some v)"

definition only_validation :: "jobject \<Rightarrow> bool" where
  "only_validation defs \<longleftrightarrow> (\<forall>(k, v)\<in>set defs. map_of validation_definitions k = Some v)"

lemma only_validation_rev: "only_validation ds \<Longrightarrow> map_of (rev ds) k = Some v \<Longrightarrow> map_of validation_definitions k = Some v"
  by (auto simp: only_validation_def dest!: map_of_SomeD)

lemma has_validation_update:
  assumes "only_validation ds" and "has_validation defs \<or> has_validation ds"
  shows "has_validation (dict_update ds defs)"
  unfolding has_validation_def
proof (intro allI impI)
  fix k v
  assume v: "map_of validation_definitions k = Some v"
  show "map_of (dict_update ds defs) k = Some v"
  proof (cases "map_of (rev ds) k")
    case None
    then have "map_of ds k = None" by (simp add: map_of_eq_None_iff)
    with assms(2) v have "map_of defs k = Some v" by (auto simp: has_validation_def)
    with None show ?thesis by (simp add: dict_simps)
  next
    case (Some v')
    with only_validation_rev [OF assms(1) Some] v show ?thesis by (simp add: dict_simps)
  qed
qed

lemma has_validation_basic: "has_validation validation_definitions"
  by (simp add: has_validation_def)

lemma dom_dict_update: "dom (map_of (dict_update ps d)) = dom (map_of d) \<union> dom (map_of ps)"
  unfolding dict_update_def by (induction ps arbitrary: d) (auto simp: map_of_dict_set)

lemma only_validation_update: "only_validation ds \<Longrightarrow> only_validation defs \<Longrightarrow> only_validation (dict_update ds defs)"
  unfolding dict_update_def
proof (induction ds arbitrary: defs)
  case Nil
  then show ?case by simp
next
  case (Cons x ds)
  obtain k v where x: "x = (k, v)" by (cases x)
  have "y = (k, v) \<or> y \<in> set defs" if "y \<in> set (dict_set k v defs)" for y
    using that dict_set_subset [of k v defs] by blast
  with Cons.prems have "only_validation (dict_set k v defs)" unfolding only_validation_def x by fastforce
  moreover from Cons.prems(1) have "only_validation ds" by (simp add: only_validation_def)
  ultimately show ?case using Cons.IH [of "dict_set k v defs"] by (simp add: x)
qed

lemma operation_responses_defs:
  assumes "operation_responses env fm r rd cls = Inr (rs, defs)"
  shows "defs = validation_definitions \<or> defs = []"
  using assms by (auto simp: operation_responses_def split: if_splits)

lemma only_validation_basic: "only_validation validation_definitions" "only_validation []"
  by (simp_all add: only_validation_def validation_definitions_def)

lemma path_loop_components:
  assumes "path_loop env fm cls r rd cbs ms acc st = Inr ((path, schemes, defs), st')"
    and "acc = (path0, schemes0, defs0)" and "only_validation defs0"
  shows "dom (map_of schemes) = dom (map_of schemes0) \<union> (if ms \<noteq> [] then dom (map_of (route_schemes env r)) else {})
     \<and> only_validation defs \<and> (has_validation defs0 \<longrightarrow> has_validation defs)
     \<and> (ms \<noteq> [] \<and> (\<exists>rs. operation_responses env fm r rd cls = Inr (rs, validation_definitions)) \<longrightarrow> has_validation defs)"
  using assms
proof (induction ms arbitrary: acc st path0 schemes0 defs0)
  case Nil
  then show ?case by simp
next
  case (Cons mth ms)
  from Cons.prems(1,2) obtain head st1 st2 responses defs1 op sch where
    head: "operation_head env fm r rd mth st = Inr (head, sch, st1)"
    and resp: "operation_responses env fm r rd cls = Inr (responses, defs1)"
    and loop: "path_loop env fm cls r rd cbs ms
        (dict_set (lower mth) op path0, dict_update sch schemes0, dict_update defs1 defs0) st2 = Inr ((path, schemes, defs), st')"
    by (auto simp: Let_def)
  have sch: "sch = route_schemes env r" using operation_head_lookup(4) [OF head] .
  have defs1: "only_validation defs1" using operation_responses_defs [OF resp] only_validation_basic by auto
  note IH = Cons.IH [OF loop refl only_validation_update [OF defs1 Cons.prems(3)]]
  have "has_validation (dict_update defs1 defs0)" if "has_validation defs0 \<or> (\<exists>rs. operation_responses env fm r rd cls = Inr (rs, validation_definitions))"
    using that resp has_validation_basic by (intro has_validation_update [OF defs1]) auto
  with IH show ?case by (simp add: dom_dict_update sch Un_ac)
qed

lemma get_openapi_path_components:
  assumes "get_openapi_path env fm d st = Inr ((path, schemes, defs), st')"
  shows "only_validation defs
     \<and> (ro_in_schema (dr_route d) \<and> ro_methods (dr_route d) \<noteq> [] \<longrightarrow> dom (map_of schemes) = dom (map_of (route_schemes env (dr_route d)))
         \<and> (\<forall>cls rs. rd_class (dr_docs d) = Some cls
              \<and> operation_responses env fm (dr_route d) (dr_docs d) cls = Inr (rs, validation_definitions) \<longrightarrow> has_validation defs))"
proof (cases d)
  case (DocRoute r rd cbs)
  show ?thesis
  proof (cases "ro_in_schema r")
    case True
    with assms DocRoute obtain cls where cls: "rd_class rd = Some cls"
      and loop: "path_loop env fm cls r rd cbs (ro_methods r) ([], [], []) st = Inr ((path, schemes, defs), st')"
      by (auto split: option.splits)
    from path_loop_components [OF loop refl only_validation_basic(2)] show ?thesis
      by (auto simp: DocRoute cls)
  next
    case False
    with assms DocRoute show ?thesis by (auto simp: only_validation_basic split: option.splits)
  qed
qed

text \<open>What a route needs among the components.\<close>

definition provided :: "doc_env \<Rightarrow> field_mapping \<Rightarrow> jobject \<Rightarrow> jobject \<Rightarrow> doc_route option \<Rightarrow> bool" where
  "provided env fm schemes defs x \<longleftrightarrow>
     (\<forall>d. x = Some d \<and> ro_in_schema (dr_route d) \<and> ro_methods (dr_route d) \<noteq> [] \<longrightarrow>
        dom (map_of (route_schemes env (dr_route d))) \<subseteq> dom (map_of schemes)
        \<and> (\<forall>cls rs. rd_class (dr_docs d) = Some cls
              \<and> operation_responses env fm (dr_route d) (dr_docs d) cls = Inr (rs, validation_definitions) \<longrightarrow> has_validation defs))"

lemma provided_mono:
  assumes "provided env fm schemes defs x" and "dom (map_of schemes) \<subseteq> dom (map_of schemes')"
    and "has_validation defs \<Longrightarrow> has_validation defs'"
  shows "provided env fm schemes' defs' x"
  unfolding provided_def
proof (intro allI impI)
  fix d
  assume "x = Some d \<and> ro_in_schema (dr_route d) \<and> ro_methods (dr_route d) \<noteq> []"
  with assms(1) have "dom (map_of (route_schemes env (dr_route d))) \<subseteq> dom (map_of schemes)"
    and "\<forall>cls rs. rd_class (dr_docs d) = Some cls
        \<and> operation_responses env fm (dr_route d) (dr_docs d) cls = Inr (rs, validation_definitions) \<longrightarrow> has_validation defs"
    unfolding provided_def by blast+
  with assms(2,3) show "dom (map_of (route_schemes env (dr_route d))) \<subseteq> dom (map_of schemes')
        \<and> (\<forall>cls rs. rd_class (dr_docs d) = Some cls
              \<and> operation_responses env fm (dr_route d) (dr_docs d) cls = Inr (rs, validation_definitions) \<longrightarrow> has_validation defs')"
    by blast
qed

lemma route_docs_provided:
  assumes "rfold (add_route_docs env fm) routes ((paths0, schemes0, defs0), st) = Inr ((paths, schemes, defs), st')"
    and "\<forall>x\<in>set before. provided env fm schemes0 defs0 x"
  shows "\<forall>x\<in>set (before @ routes). provided env fm schemes defs x"
  using assms
proof (induction routes arbitrary: before paths0 schemes0 defs0 st)
  case Nil
  then show ?case by simp
next
  case (Cons x routes)
  from Cons.prems(1) obtain paths1 schemes1 defs1 st1 where
    step: "add_route_docs env fm x ((paths0, schemes0, defs0), st) = Inr ((paths1, schemes1, defs1), st1)"
    and rest: "rfold (add_route_docs env fm) routes ((paths1, schemes1, defs1), st1) = Inr ((paths, schemes, defs), st')"
    by auto
  have "\<forall>y\<in>set (before @ [x]). provided env fm schemes1 defs1 y"
  proof (cases x)
    case None
    with step Cons.prems(2) show ?thesis by (auto simp: add_route_docs_def provided_def)
  next
    case (Some d)
    with step obtain path schemes' defs' where
      run: "get_openapi_path env fm d st = Inr ((path, schemes', defs'), st1)"
      and eq: "schemes1 = dict_update schemes' schemes0" "defs1 = dict_update defs' defs0"
      by (auto simp: add_route_docs_def Let_def)
    note here = get_openapi_path_components [OF run]
    have valid: "has_validation defs1" if "has_validation defs0 \<or> has_validation defs'"
      unfolding eq using here that by (intro has_validation_update) auto
    have "provided env fm schemes' defs' x" using here by (auto simp: provided_def Some)
    then have "provided env fm schemes1 defs1 x"
      by (rule provided_mono) (use valid in \<open>auto simp: eq dom_dict_update\<close>)
    moreover have "provided env fm schemes1 defs1 y" if "y \<in> set before" for y
      by (rule provided_mono [of env fm schemes0 defs0]) (use that valid Cons.prems(2) in \<open>auto simp: eq dom_dict_update\<close>)
    ultimately show ?thesis by simp
  qed
  from Cons.IH [OF rest this] show ?case by simp
qed

lemma openapi_provided:
  assumes "get_openapi env gen di routes webhooks = Inr (doc, st)"
    and "fm = fst (gen (map (\<lambda>f. (f, schema_mode env f)) (get_fields_from_routes env (routes @ webhooks))))"
    and "Some d \<in> set (routes @ webhooks)"
  obtains schemes defs where
    "map_of doc (S ''components'') = (if components_doc schemes defs \<noteq> [] then Some (DDict (components_doc schemes defs)) else None)"
    "provided env fm schemes defs (Some d)"
proof -
  obtain fm' defs where defs: "get_definitions env gen (get_fields_from_routes env (routes @ webhooks)) = (fm', defs)"
    by fastforce
  with assms(2) have fm: "fm' = fm" by (auto simp: get_definitions_def split: prod.splits)
  from get_openapi_parts [OF assms(1) defs] obtain paths schemes1 defs1 st1 hooks schemes2 defs2 where
    run: "rfold (add_route_docs env fm) routes (([], [], paths_doc defs), \<lparr>is_ids = [], is_warnings = []\<rparr>)
            = Inr ((paths, schemes1, defs1), st1)"
    and hooks: "rfold (add_route_docs env fm) webhooks (([], schemes1, defs1), st1) = Inr ((hooks, schemes2, defs2), st)"
    and doc: "map_of doc (S ''components'') =
      (if components_doc schemes2 defs2 \<noteq> [] then Some (DDict (components_doc schemes2 defs2)) else None)"
    unfolding fm by metis
  from route_docs_provided [OF run, of "[]"] have "\<forall>x\<in>set routes. provided env fm schemes1 defs1 x" by simp
  from route_docs_provided [OF hooks this] assms(3) have "provided env fm schemes2 defs2 (Some d)" by blast
  with doc show ?thesis by (rule that)
qed

subsection \<open>Properties: security\<close>

lemma fold_add_security:
  assumes "fold (add_security env) ss acc = (defs, sets)"
  shows "(\<forall>n scopes. map_of (snd acc) n = Some scopes \<longrightarrow> (\<exists>scopes'. map_of sets n = Some scopes' \<and> set scopes \<subseteq> set scopes'))
     \<and> (\<forall>s\<in>set ss. \<exists>scopes. map_of sets (fst (oe_scheme env (dp_call s))) = Some scopes \<and> set (oauth_scopes s) \<subseteq> set scopes)
     \<and> dom (map_of defs) = dom (map_of (fst acc)) \<union> (\<lambda>s. fst (oe_scheme env (dp_call s))) ` set ss"
  using assms
proof (induction ss arbitrary: acc)
  case Nil
  then show ?case by auto
next
  case (Cons s ss)
  obtain name model where nm: "oe_scheme env (dp_call s) = (name, model)" by fastforce
  let ?acc = "add_security env s acc"
  have acc1: "dom (map_of (fst ?acc)) = insert name (dom (map_of (fst acc)))"
    by (simp add: add_security_def nm map_of_dict_set)
  have acc2: "map_of (snd ?acc) n = (if n = name then Some (fold add_scope (oauth_scopes s) (dict_get (snd acc) name [])) else map_of (snd acc) n)" for n
    by (simp add: add_security_def nm map_of_dict_set)
  from Cons.prems have run: "fold (add_security env) ss ?acc = (defs, sets)" by simp
  note IH = Cons.IH [OF run]
  have "\<exists>scopes'. map_of sets n = Some scopes' \<and> set scopes \<subseteq> set scopes'" if "map_of (snd acc) n = Some scopes" for n scopes
  proof -
    have "\<exists>scopes1. map_of (snd ?acc) n = Some scopes1 \<and> set scopes \<subseteq> set scopes1"
      using that by (auto simp: acc2 set_add_scopes dict_get_def)
    then obtain scopes1 where "map_of (snd ?acc) n = Some scopes1" and sub: "set scopes \<subseteq> set scopes1" by blast
    with IH obtain scopes2 where "map_of sets n = Some scopes2" "set scopes1 \<subseteq> set scopes2" by blast
    with sub show ?thesis by auto
  qed
  moreover have "\<exists>scopes. map_of sets name = Some scopes \<and> set (oauth_scopes s) \<subseteq> set scopes"
  proof -
    have "map_of (snd ?acc) name = Some (fold add_scope (oauth_scopes s) (dict_get (snd acc) name []))" by (simp add: acc2)
    with IH obtain scopes where "map_of sets name = Some scopes"
      "set (fold add_scope (oauth_scopes s) (dict_get (snd acc) name [])) \<subseteq> set scopes" by blast
    then show ?thesis by (auto simp: set_add_scopes)
  qed
  moreover have "dom (map_of defs) = dom (map_of (fst acc)) \<union> (\<lambda>s. fst (oe_scheme env (dp_call s))) ` set (s # ss)"
    using IH acc1 by (simp add: nm)
  ultimately show ?case using IH by (simp add: nm)
qed


subsection \<open>Properties: validation errors\<close>

lemma add_additional_response_keys:
  assumes "add_additional_response env fm r rd cls (sc, resp) rs = Inr rs'"
  shows "\<exists>k v. additional_key sc = Inr k \<and> rs' = dict_set k v rs"
  using assms by (auto simp: add_additional_response_def Let_def)

lemma additional_responses_keys:
  assumes "rfold (add_additional_response env fm r rd cls) xs rs = Inr rs'" and "map_of rs' k \<noteq> None"
  shows "map_of rs k \<noteq> None \<or> (\<exists>x\<in>set xs. additional_key (fst x) = Inr k)"
  using assms(1)
proof (induction xs arbitrary: rs)
  case Nil
  with assms(2) show ?case by simp
next
  case (Cons x xs)
  obtain sc resp where x: "x = (sc, resp)" by (cases x)
  from Cons.prems obtain rs1 where step: "add_additional_response env fm r rd cls (sc, resp) rs = Inr rs1"
    and rest: "rfold (add_additional_response env fm r rd cls) xs rs1 = Inr rs'" by (auto simp: x)
  from add_additional_response_keys [OF step] obtain k' v where "additional_key sc = Inr k'" "rs1 = dict_set k' v rs" by blast
  with Cons.IH [OF rest] show ?case by (auto simp: x map_of_dict_set split: if_splits)
qed

lemma operation_responses_422:
  assumes "operation_responses env fm r rd cls = Inr (rs, defs)"
    and "get_flat_params (oe_callable env) (ro_dependant r) \<noteq> [] \<or> rd_body rd \<noteq> None"
    and "primary_status r cls \<notin> K" and "\<forall>x\<in>set (rd_responses rd). \<forall>k\<in>K. additional_key (fst x) \<noteq> Inr k"
    and "K = {S ''422'', S ''4XX'', S ''default''}"
  shows "defs = validation_definitions \<and> map_of rs (S ''422'') = Some validation_error_response"
proof -
  from assms(1) obtain first rs1 where first: "primary_response env fm r rd cls = Inr first"
    and more: "rfold (add_additional_response env fm r rd cls) (rd_responses rd) first = Inr rs1"
    and rs: "(rs, defs) = (if needs_422 env r rd rs1 then (dict_set (S ''422'') validation_error_response rs1, validation_definitions) else (rs1, []))"
    by (auto simp: operation_responses_def split: if_splits)
  from first obtain v where "first = [(primary_status r cls, v)]" by (auto simp: primary_response_def)
  with additional_responses_keys [OF more] assms(3,4) have "map_of rs1 k = None" if "k \<in> K" for k
    using that by (metis map_of.simps fun_upd_apply fst_conv snd_conv)
  with assms(2,5) have "needs_422 env r rd rs1" by (auto simp: needs_422_def dict_simps)
  with rs show ?thesis by (simp add: map_of_dict_set)
qed

text \<open>
  Where a request can be refused as invalid, the document says so: an operation with parameters or a body, for which no response
  for 422, 4XX or the default is declared, documents the validation error, and the two schemas it refers to are among
  the components.
\<close>

theorem openapi_validation_documented:
  assumes "get_openapi env gen di routes webhooks = Inr (doc, st)"
    and "find (serves p m) (rev routes) = Some (Some d)"
    and "S ''responses'' \<notin> fst ` set (rd_extra (dr_docs d))"
    and "get_flat_params (oe_callable env) (ro_dependant (dr_route d)) \<noteq> [] \<or> rd_body (dr_docs d) \<noteq> None"
    and "\<forall>cls. rd_class (dr_docs d) = Some cls \<longrightarrow> primary_status (dr_route d) cls \<notin> {S ''422'', S ''4XX'', S ''default''}"
    and "\<forall>x\<in>set (rd_responses (dr_docs d)). \<forall>k\<in>{S ''422'', S ''4XX'', S ''default''}. additional_key (fst x) \<noteq> Inr k"
  shows "\<exists>paths op responses components schemas. map_of doc (S ''paths'') = Some (DDict (paths_doc paths))
     \<and> documented paths p m = Some (DDict op) \<and> map_of op (S ''responses'') = Some (DDict responses)
     \<and> map_of responses (S ''422'') = Some (DDict validation_error_response)
     \<and> map_of doc (S ''components'') = Some (DDict components) \<and> map_of components (S ''schemas'') = Some (DDict schemas)
     \<and> map_of schemas (S ''HTTPValidationError'') = Some validation_error_response_definition
     \<and> map_of schemas (S ''ValidationError'') = Some validation_error_definition"
proof -
  obtain fm where fm: "fm = fst (gen (map (\<lambda>f. (f, schema_mode env f)) (get_fields_from_routes env (routes @ webhooks))))" by simp
  from openapi_operation [OF assms(1) fm assms(2)] obtain paths cls mth op where
    doc: "map_of doc (S ''paths'') = Some (DDict (paths_doc paths))" "documented paths p m = Some (DDict op)"
    and cls: "rd_class (dr_docs d) = Some cls"
    and is_op: "is_operation env fm cls d mth (DDict op)" by metis
  from is_operation_lookup [OF is_op] assms(3) obtain responses defs where
    resp: "operation_responses env fm (dr_route d) (dr_docs d) cls = Inr (responses, defs)"
    and op: "map_of op (S ''responses'') = Some (DDict (map (\<lambda>(k, v). (k, DDict v)) responses))"
    by metis
  from operation_responses_422 [OF resp assms(4) _ assms(6) refl] assms(5) cls
  have defs: "defs = validation_definitions" and r422: "map_of responses (S ''422'') = Some validation_error_response" by auto
  from r422 have doc422: "map_of (map (\<lambda>(k, v). (k, DDict v)) responses) (S ''422'') = Some (DDict validation_error_response)"
    by (simp add: map_of_map)
  from assms(2) have serves: "serves p m (Some d)" and "Some d \<in> set (routes @ webhooks)" by (auto dest: find_SomeD)
  with openapi_provided [OF assms(1) fm] obtain schemes defs2 where
    comp: "map_of doc (S ''components'') = (if components_doc schemes defs2 \<noteq> [] then Some (DDict (components_doc schemes defs2)) else None)"
    and prov: "provided env fm schemes defs2 (Some d)" by metis
  from serves have "ro_in_schema (dr_route d)" "ro_methods (dr_route d) \<noteq> []" by (auto simp: serves_def)
  with prov cls resp defs have has: "has_validation defs2" by (auto simp: provided_def)
  have schemas: "map_of (sort_key fst defs2) (S ''HTTPValidationError'') = Some validation_error_response_definition"
    "map_of (sort_key fst defs2) (S ''ValidationError'') = Some validation_error_definition"
    using has by (simp_all add: map_of_sort_key has_validation_def validation_definitions_def)
  then have "defs2 \<noteq> []" by auto
  then have "map_of (components_doc schemes defs2) (S ''schemas'') = Some (DDict (sort_key fst defs2))" "components_doc schemes defs2 \<noteq> []"
    by (auto simp: map_of_components dest: arg_cong [of _ "[]" "\<lambda>d. map_of d (S ''schemas'')"])
  moreover from this(2) comp have "map_of doc (S ''components'') = Some (DDict (components_doc schemes defs2))" by simp
  ultimately show ?thesis using doc op doc422 schemas by blast
qed

subsection \<open>Properties: the document is made\<close>

definition code_ok :: "status_code \<Rightarrow> bool" where
  "code_ok sc \<longleftrightarrow> (case sc of
     StNone \<Rightarrow> False
   | StInt n \<Rightarrow> True
   | StText s \<Rightarrow> upper s \<in> fst ` set status_code_ranges \<or> (\<exists>n. py_int s = Inr n))"

definition subobject_ok :: "jobject \<Rightarrow> str \<Rightarrow> (jobject \<Rightarrow> bool) \<Rightarrow> bool" where
  "subobject_ok d k P \<longleftrightarrow> (case map_of d k of None \<Rightarrow> P [] | Some (DDict x) \<Rightarrow> P x | Some _ \<Rightarrow> False)"

text \<open>The places at which a schema is merged are dictionaries, as far as they are there.\<close>

definition content_ok :: "str \<Rightarrow> jobject \<Rightarrow> bool" where
  "content_ok media resp \<longleftrightarrow>
     subobject_ok resp (S ''content'') (\<lambda>c. subobject_ok c media (\<lambda>e. subobject_ok e (S ''schema'') (\<lambda>_. True)))"

fun documentable :: "doc_route \<Rightarrow> bool" where
  "documentable (DocRoute r rd cbs) \<longleftrightarrow>
     (case rd_class rd of
        None \<Rightarrow> False
      | Some cls \<Rightarrow>
          (\<forall>(sc, resp)\<in>set (rd_responses rd). code_ok sc
             \<and> content_ok (if truthy (rc_media cls) then the (rc_media cls) else S ''application/json'') resp))
     \<and> list_all (pred_option documentable) cbs"

lemma subobject_ok: "subobject_ok d k P \<Longrightarrow> \<exists>x. subobject d k e = Inr x \<and> P x"
  by (auto simp: subobject_ok_def subobject_def split: option.splits data.splits)

lemma content_ok_del: "content_ok media (dict_del (S ''model'') resp) = content_ok media resp"
  by (simp add: content_ok_def subobject_ok_def dict_simps)

lemma merge_response_schema_ok:
  assumes "content_ok media resp"
  shows "\<exists>x. merge_response_schema media js resp = Inr x"
proof -
  from subobject_ok [OF assms [unfolded content_ok_def]] obtain c where
    c: "subobject resp (S ''content'') (AttributeError (S ''setdefault'')) = Inr c"
    "subobject_ok c media (\<lambda>e. subobject_ok e (S ''schema'') (\<lambda>_. True))" by blast
  from subobject_ok [OF c(2)] obtain e where
    e: "subobject c media (AttributeError (S ''setdefault'')) = Inr e" "subobject_ok e (S ''schema'') (\<lambda>_. True)" by blast
  from subobject_ok [OF e(2)] obtain x where "subobject e (S ''schema'') (TypeError (S ''schema'')) = Inr x" by blast
  with c e show ?thesis by (simp add: merge_response_schema_def)
qed

lemma range_codes: "k \<in> fst ` set status_code_ranges \<Longrightarrow> k = S ''DEFAULT'' \<or> is_range_code k"
  by (auto simp: status_code_ranges_def is_range_code_def S_def is_digit_def)

lemma additional_key_ok: "code_ok sc \<Longrightarrow> \<exists>k. additional_key sc = Inr k"
  using range_codes [of "upper (code_text sc)"]
  by (cases sc) (auto simp: code_ok_def additional_key_def Let_def split: sum.splits)

lemma status_phrase_ok: "code_ok sc \<Longrightarrow> \<exists>t. status_phrase env sc = Inr t"
proof -
  assume ok: "code_ok sc"
  show ?thesis
  proof (cases "map_of status_code_ranges (upper (code_text sc))")
    case None
    with ok have "\<exists>n. status_int sc = Inr n"
      by (cases sc) (auto simp: code_ok_def map_of_eq_None_iff)
    with None show ?thesis by (auto simp: status_phrase_def)
  next
    case (Some t)
    then show ?thesis by (simp add: status_phrase_def)
  qed
qed

definition mapped :: "doc_env \<Rightarrow> field_mapping \<Rightarrow> field \<Rightarrow> bool" where
  "mapped env fm f \<longleftrightarrow> fm (f, schema_mode env f) \<noteq> None"

lemma get_schema_ok: "mapped env fm f \<Longrightarrow> \<exists>js. get_schema_from_model_field env fm f = Inr js"
  by (auto simp: mapped_def get_schema_from_model_field_def)

text \<open>The fields that are collected for a route.\<close>

definition route_fields :: "doc_env \<Rightarrow> doc_route option \<Rightarrow> field set" where
  "route_fields env x = (case x of
     None \<Rightarrow> {}
   | Some d \<Rightarrow> if \<not> ro_in_schema (dr_route d) then {}
       else set (get_fields_from_routes env (dr_callbacks d)) \<union> set_option (rd_body (dr_docs d))
         \<union> set_option (rd_response (dr_docs d)) \<union> snd ` set (rd_response_fields (dr_docs d))
         \<union> set (get_flat_params (oe_callable env) (ro_dependant (dr_route d))))"

lemma fields_loop_set: "set (joined_fields (fields_loop env rs acc)) = set (joined_fields acc) \<union> (\<Union>x\<in>set rs. route_fields env x)"
  by (induction env rs acc rule: fields_loop.induct)
    (auto simp: route_fields_def joined_fields_def get_fields_from_routes_def split: option.splits)

lemma get_fields_from_routes_set: "set (get_fields_from_routes env rs) = (\<Union>x\<in>set rs. route_fields env x)"
proof -
  have "joined_fields ([], [], [], []) = []" by (simp add: joined_fields_def)
  then show ?thesis by (simp add: get_fields_from_routes_def fields_loop_set)
qed

lemma declared_parameters_fields: "snd ` set (declared_parameters env d) \<subseteq> set (get_flat_params (oe_callable env) d)"
  by (auto simp: declared_parameters_def parameter_groups_def get_flat_params_def flat_route_dependant_def Let_def)

lemma rmap_ok: "(\<And>x. x \<in> set xs \<Longrightarrow> \<exists>y. f x = Inr y) \<Longrightarrow> \<exists>ys. rmap f xs = Inr ys"
  by (induction xs) fastforce+

lemma rfold_ok: "(\<And>x b. x \<in> set xs \<Longrightarrow> \<exists>b'. f x b = Inr b') \<Longrightarrow> \<exists>b'. rfold f xs b = Inr b'"
  by (induction xs arbitrary: b) fastforce+

lemma operation_head_ok:
  assumes "\<forall>f\<in>set (get_flat_params (oe_callable env) (ro_dependant r)) \<union> set_option (rd_body rd). mapped env fm f"
  shows "\<exists>x. operation_head env fm r rd mth st = Inr x"
proof -
  have "\<exists>ps. get_openapi_operation_parameters env fm (ro_dependant r) = Inr ps"
    unfolding get_openapi_operation_parameters_def Let_def declared_parameters_def [symmetric]
    using declared_parameters_fields [of env "ro_dependant r"] assms get_schema_ok by (intro rmap_ok) (fastforce simp: image_subset_iff)
  moreover have "\<exists>b. get_openapi_operation_request_body env fm (rd_body rd) = Inr b"
    using assms get_schema_ok by (cases "rd_body rd") (fastforce simp: get_openapi_operation_request_body_def Let_def)+
  ultimately show ?thesis by (fastforce simp: operation_head_def split: prod.splits)
qed

lemma operation_responses_ok:
  assumes "\<forall>f\<in>set_option (rd_response rd) \<union> snd ` set (rd_response_fields rd). mapped env fm f"
    and "\<forall>(sc, resp)\<in>set (rd_responses rd). code_ok sc
             \<and> content_ok (if truthy (rc_media cls) then the (rc_media cls) else S ''application/json'') resp"
  shows "\<exists>x. operation_responses env fm r rd cls = Inr x"
proof -
  have allowed: "\<exists>b. is_body_allowed_for_status_code (route_status r) = Inr b"
    by (cases "ro_status r") (auto simp: is_body_allowed_for_status_code_def route_status_def)
  have "\<exists>first. primary_response env fm r rd cls = Inr first"
    using allowed assms(1) get_schema_ok [of env fm]
    by (cases "rd_response rd") (fastforce simp: primary_response_def)+
  moreover have "\<exists>rs. rfold (add_additional_response env fm r rd cls) (rd_responses rd) first = Inr rs" for first
  proof (rule rfold_ok)
    fix x rs
    assume x: "x \<in> set (rd_responses rd)"
    obtain sc resp where eq: "x = (sc, resp)" by (cases x)
    let ?media = "if truthy (rc_media cls) then the (rc_media cls) else S ''application/json''"
    from x assms(2) eq have ok: "code_ok sc" and content: "content_ok ?media (dict_del (S ''model'') resp)"
      unfolding content_ok_del by auto
    from additional_key_ok [OF ok] obtain k where key: "additional_key sc = Inr k" ..
    from status_phrase_ok [OF ok] obtain t where phrase: "status_phrase env sc = Inr t" by blast
    have "\<exists>p. (case map_of (rd_response_fields rd) sc of
                    None \<Rightarrow> Inr (dict_del (S ''model'') resp)
                  | Some f \<Rightarrow> rbind (additional_schema env fm r sc f) (\<lambda>js. merge_response_schema ?media js (dict_del (S ''model'') resp))) = Inr p"
    proof (cases "map_of (rd_response_fields rd) sc")
      case None
      then show ?thesis by simp
    next
      case (Some f)
      then have "mapped env fm f" using assms(1) by (force dest: map_of_SomeD)
      from get_schema_ok [OF this] obtain js where "additional_schema env fm r sc f = Inr js" by (auto simp: additional_schema_def)
      with Some merge_response_schema_ok [OF content, of js] show ?thesis by simp
    qed
    with key phrase show "\<exists>rs'. add_additional_response env fm r rd cls x rs = Inr rs'"
      by (auto simp: add_additional_response_def eq Let_def)
  qed
  ultimately obtain first rs where "primary_response env fm r rd cls = Inr first"
    "rfold (add_additional_response env fm r rd cls) (rd_responses rd) first = Inr rs" by blast
  then show ?thesis by (simp add: operation_responses_def)
qed

lemma get_openapi_path_ok:
  "documentable d \<Longrightarrow> \<forall>f\<in>route_fields env (Some d). mapped env fm f \<Longrightarrow> \<exists>x. get_openapi_path env fm d st = Inr x"
  "\<forall>f\<in>set (get_flat_params (oe_callable env) (ro_dependant r)) \<union> set_option (rd_body rd). mapped env fm f
   \<Longrightarrow> \<exists>x. operation_responses env fm r rd cls = Inr x
   \<Longrightarrow> list_all (pred_option documentable) cbs \<Longrightarrow> \<forall>f\<in>set (get_fields_from_routes env cbs). mapped env fm f
   \<Longrightarrow> \<exists>x. path_loop env fm cls r rd cbs ms acc st = Inr x"
  "list_all (pred_option documentable) cbs \<Longrightarrow> \<forall>f\<in>set (get_fields_from_routes env cbs). mapped env fm f
   \<Longrightarrow> \<exists>x. callback_loop env fm cbs callbacks st = Inr x"
proof (induction env fm d st and env fm cls r rd cbs ms acc st and env fm cbs callbacks st
    rule: get_openapi_path_path_loop_callback_loop.induct)
  case (1 env fm r rd cbs st)
  from 1(2) obtain cls where cls: "rd_class rd = Some cls" by (auto split: option.splits)
  show ?case
  proof (cases "ro_in_schema r")
    case True
    from 1(3) True have mapped: "\<forall>f\<in>set (get_fields_from_routes env cbs) \<union> set_option (rd_body rd) \<union> set_option (rd_response rd)
         \<union> snd ` set (rd_response_fields rd) \<union> set (get_flat_params (oe_callable env) (ro_dependant r)). mapped env fm f"
      by (simp add: route_fields_def)
    from operation_responses_ok [of rd env fm cls r] 1(2) mapped cls
    have "\<exists>x. operation_responses env fm r rd cls = Inr x" by simp
    moreover from mapped have "\<forall>f\<in>set (get_flat_params (oe_callable env) (ro_dependant r)) \<union> set_option (rd_body rd). mapped env fm f"
      "\<forall>f\<in>set (get_fields_from_routes env cbs). mapped env fm f" by blast+
    moreover from 1(2) have "list_all (pred_option documentable) cbs" by simp
    ultimately have "\<exists>x. path_loop env fm cls r rd cbs (ro_methods r) ([], [], []) st = Inr x" using 1(1) [OF cls True] by blast
    then show ?thesis by (simp add: cls True)
  next
    case False
    with cls show ?thesis by simp
  qed
next
  case (2 env fm cls r rd cbs acc st)
  show ?case by (cases acc) simp
next
  case (3 env fm cls r rd cbs m ms acc st)
  from operation_head_ok [OF 3(3)] obtain op schemes st1 where
    head: "operation_head env fm r rd m st = Inr (op, schemes, st1)" by (metis prod_cases3)
  obtain callbacks st2 where cb: "(if cbs \<noteq> [] then callback_loop env fm cbs [] st1 else Inr ([], st1)) = Inr (callbacks, st2)"
    using 3(1) [OF head refl refl] 3(5,6) by (cases "cbs = []") auto
  from 3(4) obtain responses defs where resp: "operation_responses env fm r rd cls = Inr (responses, defs)" by auto
  obtain path schemes0 defs0 where acc: "acc = (path, schemes0, defs0)" by (cases acc)
  from 3(2) [OF head refl refl cb refl resp refl refl acc [symmetric] refl] 3(3-6) show ?case
    using head cb resp by (simp add: acc Let_def)
next
  case (6 env fm c cbs callbacks st)
  have "\<forall>f\<in>route_fields env (Some c). mapped env fm f" "\<forall>f\<in>set (get_fields_from_routes env cbs). mapped env fm f"
    using 6(4) by (simp_all add: get_fields_from_routes_set)
  moreover from this 6(1,3) obtain path rest st' where "get_openapi_path env fm c st = Inr ((path, rest), st')" by fastforce
  ultimately show ?case using 6(2,3) by simp
qed (simp_all add: get_fields_from_routes_set)

lemma openapi_total:
  assumes "\<forall>xs. \<forall>x\<in>set xs. fst (gen xs) x \<noteq> None"
    and "\<forall>d. Some d \<in> set (routes @ webhooks) \<longrightarrow> documentable d"
  shows "\<exists>doc st. get_openapi env gen di routes webhooks = Inr (doc, st)"
proof -
  let ?fields = "get_fields_from_routes env (routes @ webhooks)"
  obtain fm defs where defs: "get_definitions env gen ?fields = (fm, defs)" by fastforce
  then have fm: "fm = fst (gen (map (\<lambda>f. (f, schema_mode env f)) ?fields))"
    by (auto simp: get_definitions_def split: prod.splits)
  have "mapped env fm f" if "f \<in> set ?fields" for f
    using assms(1) that unfolding mapped_def fm by (metis (no_types, lifting) image_eqI list.set_map)
  then have mapped: "\<forall>f\<in>route_fields env x. mapped env fm f" if "x \<in> set (routes @ webhooks)" for x
    using that by (auto simp: get_fields_from_routes_set)
  have step: "\<exists>b'. add_route_docs env fm x b = Inr b'" if "x \<in> set (routes @ webhooks)" for x b
  proof (cases x)
    case None
    then show ?thesis by (simp add: add_route_docs_def)
  next
    case (Some d)
    with that assms(2) have "documentable d" by metis
    with mapped [OF that] Some obtain y where "get_openapi_path env fm d (snd b) = Inr y" using get_openapi_path_ok(1) by blast
    then show ?thesis by (cases b; cases "fst b") (auto simp: add_route_docs_def Some Let_def split: prod.splits)
  qed
  obtain paths schemes1 defs1 st1 where
    "rfold (add_route_docs env fm) routes (([], [], paths_doc defs), \<lparr>is_ids = [], is_warnings = []\<rparr>) = Inr ((paths, schemes1, defs1), st1)"
    using rfold_ok [of routes "add_route_docs env fm"] step by (metis Un_iff set_append prod.collapse)
  moreover obtain hooks schemes2 defs2 st2 where
    "rfold (add_route_docs env fm) webhooks (([], schemes1, defs1), st1) = Inr ((hooks, schemes2, defs2), st2)"
    using rfold_ok [of webhooks "add_route_docs env fm"] step by (metis Un_iff set_append prod.collapse)
  ultimately show ?thesis by (simp add: get_openapi_def defs)
qed


subsection \<open>Examples\<close>

definition sample_query :: "bool \<Rightarrow> field" where
  "sample_query req = Field (S ''q'') None None req VNone (FParam (S ''query'')) None False False False False None None None False False"

text \<open>An endpoint with an optional query parameter and a security dependency (callable 1) that requires the same one.\<close>

definition sample_dependant :: dependant where
  "sample_dependant =
     Dependant (no_params\<lparr>pa_query := [sample_query False]\<rparr>)
       [Dependant (no_params\<lparr>pa_query := [sample_query True]\<rparr>) [] (Some (S ''user'')) 1 no_specials (Some [S ''read'']) None True (S ''/items'') None]
       None 0 no_specials None None True (S ''/items'') None"

definition sample_doc_env :: doc_env where
  "sample_doc_env =
     \<lparr>oe_callable = (\<lambda>n. if n = 1 then PInst None True else PFunc KPlain None),
      oe_scheme = (\<lambda>n. (S ''OAuth2'', DDict [(S ''type'', jtext ''oauth2'')])),
      oe_field = (\<lambda>f. \<lparr>dx_title = None, dx_salias = None, dx_mode = ForValidation, dx_computed = False, dx_in_schema = None,
                        dx_description = None, dx_examples = [], dx_example = None, dx_deprecated = False, dx_media = []\<rparr>),
      oe_phrase = (\<lambda>n. None), oe_fname = (\<lambda>n. S ''f''), oe_file = (\<lambda>n. None), oe_separate = True\<rparr>"

definition sample_api_route :: "str \<Rightarrow> dependant \<Rightarrow> api_route" where
  "sample_api_route path d =
     \<lparr>ro_path = path, ro_endpoint = 0, ro_name = S ''f'', ro_methods = [S ''GET''], ro_tags = [], ro_dependencies = [],
      ro_responses = [], ro_deprecated = None, ro_in_schema = True, ro_class = Default 0, ro_callbacks = [],
      ro_uid_fn = Default 0, ro_status = None, ro_model = None, ro_docs = 0, ro_operation_id = None, ro_unique_id = S ''f'',
      ro_compiled = \<lparr>cp_segs = [], cp_format = path, cp_convs = []\<rparr>, ro_dependant = d, ro_embed = False\<rparr>"

definition sample_docs :: route_docs where
  "sample_docs =
     \<lparr>rd_summary = None, rd_description = [], rd_response_description = S ''OK'',
      rd_class = Some \<lparr>rc_media = Some (S ''application/json''), rc_json = True, rc_default = Some 200\<rparr>,
      rd_body = None, rd_response = None, rd_response_fields = [], rd_responses = [], rd_extra = []\<rparr>"

definition sample_doc_route :: doc_route where
  "sample_doc_route = DocRoute (sample_api_route (S ''/items'') sample_dependant) sample_docs []"

definition sample_generator :: schema_generator where
  "sample_generator xs = (\<lambda>x. if x \<in> set xs then Some [] else None, [])"

definition sample_info :: doc_info where
  "sample_info =
     \<lparr>di_title = S ''T'', di_version = S ''1'', di_openapi = S ''3.1.0'', di_summary = None, di_description = None,
      di_terms = None, di_contact = [], di_license = [], di_servers = [], di_tags = [], di_external = []\<rparr>"

lemma sample_flat:
  "flat_route_dependant sample_doc_env sample_dependant =
     Dependant (no_params\<lparr>pa_query := [sample_query False, sample_query True]\<rparr>)
       [Dependant (no_params\<lparr>pa_query := [sample_query True]\<rparr>) [] (Some (S ''user'')) 1 no_specials (Some [S ''read''])
          (Some [S ''read'']) True (S ''/items'') None]
       None 0 no_specials None (Some []) True (S ''/items'') None"
  by (simp add: flat_route_dependant_def sample_dependant_def sample_doc_env_def cache_key_of_def append_params_def no_params_def
        oauth_scopes_def)

lemma sample_document: "\<exists>doc st. get_openapi sample_doc_env sample_generator sample_info [Some sample_doc_route] [] = Inr (doc, st)"
  by (rule openapi_total)
     (simp_all add: sample_generator_def sample_doc_route_def sample_docs_def)

lemma sample_serves: "serves (S ''/items'') (S ''get'') (Some sample_doc_route)" "\<not> serves (S ''/items'') (S ''put'') (Some sample_doc_route)"
  by (simp_all add: serves_def sample_doc_route_def sample_api_route_def lower_def lower_cp_def S_def)

lemma sample_find: "find (serves (S ''/items'') (S ''get'')) (rev [Some sample_doc_route]) = Some (Some sample_doc_route)"
  by (simp add: sample_serves)

lemma path_loop_callbacks:
  "path_loop env fm cls r rd cbs ms (path0, [], []) st = Inr ((path, schemes, defs), st')
   \<Longrightarrow> operation_responses env fm r rd cls = Inr (rs, []) \<Longrightarrow> route_schemes env r = [] \<Longrightarrow> schemes = [] \<and> defs = []"
proof (induction ms arbitrary: path0 st)
  case Nil
  then show ?case by simp
next
  case (Cons mth ms)
  from Cons.prems(1,2) obtain head sch st1 op st2 where head: "operation_head env fm r rd mth st = Inr (head, sch, st1)"
    and loop: "path_loop env fm cls r rd cbs ms (dict_set (lower mth) op path0, dict_update sch [], dict_update [] []) st2
      = Inr ((path, schemes, defs), st')" by (auto simp: Let_def)
  from operation_head_lookup(4) [OF head] Cons.prems(3) loop Cons.IH [of _ st2] Cons.prems(2,3) show ?case by simp
qed

text \<open>
  Of a callback only its path is kept: a route that itself needs no components adds none, whatever the operations of its callbacks refer to.
\<close>

lemma callback_components_dropped:
  assumes "get_openapi_path env fm (DocRoute r rd cbs) st = Inr ((path, schemes, defs), st')" and "rd_class rd = Some cls"
    and "operation_responses env fm r rd cls = Inr (rs, [])" and "route_schemes env r = []"
  shows "schemes = [] \<and> defs = []"
  using assms path_loop_callbacks [OF _ assms(3,4)] by (auto split: if_splits)

text \<open>A range code outside 1XX to 5XX passes the check of the code and then fails to become an integer.\<close>

lemma range_code_raises:
  "additional_key (StText (S ''9XX'')) = Inr (S ''9XX'')"
  "status_phrase env (StText (S ''9XX'')) = Inl (ValueError (S ''invalid literal for int() with base 10''))"
  "add_additional_response env fm r (rd\<lparr>rd_response_fields := []\<rparr>) cls (StText (S ''9XX''), resp) rs
     = Inl (ValueError (S ''invalid literal for int() with base 10''))"
proof -
  have int: "py_int (S ''9XX'') = Inl (ValueError (S ''invalid literal for int() with base 10''))"
    by (simp add: py_int_def py_nat_def S_def strip_def is_space_def split_on.simps is_digit_def)
  have up: "upper (S ''9XX'') = S ''9XX''" by (simp add: upper_def upper_cp_def S_def)
  show key: "additional_key (StText (S ''9XX'')) = Inr (S ''9XX'')"
    by (simp add: additional_key_def up int Let_def) (simp add: is_range_code_def is_digit_def S_def)
  show phrase: "status_phrase env (StText (S ''9XX'')) = Inl (ValueError (S ''invalid literal for int() with base 10''))"
    by (simp add: status_phrase_def up int status_code_ranges_def)
  show "add_additional_response env fm r (rd\<lparr>rd_response_fields := []\<rparr>) cls (StText (S ''9XX''), resp) rs
     = Inl (ValueError (S ''invalid literal for int() with base 10''))"
    by (simp add: add_additional_response_def key phrase Let_def)
qed

theorem openapi_operations_exact_witness:
  "\<exists>doc st paths. get_openapi sample_doc_env sample_generator sample_info [Some sample_doc_route] [] = Inr (doc, st)
     \<and> map_of doc (S ''paths'') = Some (DDict (paths_doc paths)) \<and> documented paths (S ''/items'') (S ''get'') \<noteq> None
     \<and> documented paths (S ''/items'') (S ''put'') = None"
proof -
  from sample_document obtain doc st where run: "get_openapi sample_doc_env sample_generator sample_info [Some sample_doc_route] [] = Inr (doc, st)"
    by blast
  from openapi_operations_exact [OF run] obtain paths fm where "map_of doc (S ''paths'') = Some (DDict (paths_doc paths))"
    and "\<forall>p m. case find (serves p m) (rev [Some sample_doc_route]) of
           None \<Rightarrow> documented paths p m = None
         | Some x \<Rightarrow> \<exists>op. documented paths p m = Some op \<and> operation_from sample_doc_env fm x m op" by blast
  moreover from this(2) [rule_format, of "S ''/items''" "S ''get''"] this(2) [rule_format, of "S ''/items''" "S ''put''"]
  have "documented paths (S ''/items'') (S ''get'') \<noteq> None" "documented paths (S ''/items'') (S ''put'') = None"
    by (auto simp: sample_serves)
  ultimately show ?thesis using run by blast
qed

lemma distinct_singleton: "distinct xs \<Longrightarrow> set xs = {x} \<Longrightarrow> xs = [x]"
  by (cases xs; cases "tl xs") auto



theorem openapi_validation_documented_witness:
  "\<exists>doc st paths op responses. get_openapi sample_doc_env sample_generator sample_info [Some sample_doc_route] [] = Inr (doc, st)
     \<and> map_of doc (S ''paths'') = Some (DDict (paths_doc paths)) \<and> documented paths (S ''/items'') (S ''get'') = Some (DDict op)
     \<and> map_of op (S ''responses'') = Some (DDict responses) \<and> map_of responses (S ''422'') = Some (DDict validation_error_response)"
proof -
  from sample_document obtain doc st where run: "get_openapi sample_doc_env sample_generator sample_info [Some sample_doc_route] [] = Inr (doc, st)"
    by blast
  have params: "get_flat_params (oe_callable sample_doc_env) (ro_dependant (dr_route sample_doc_route)) \<noteq> []"
    using sample_flat by (simp add: get_flat_params_def flat_route_dependant_def sample_doc_route_def sample_api_route_def Let_def
        flat_fields_from_params_def no_params_def)
  have "primary_status (dr_route sample_doc_route) cls \<notin> {S ''422'', S ''4XX'', S ''default''}"
    if "rd_class (dr_docs sample_doc_route) = Some cls" for cls
    using that by (auto simp: primary_status_def sample_doc_route_def sample_docs_def sample_api_route_def int_str_def dec.simps S_def)
  moreover have "S ''responses'' \<notin> fst ` set (rd_extra (dr_docs sample_doc_route))" "rd_responses (dr_docs sample_doc_route) = []"
    by (simp_all add: sample_doc_route_def sample_docs_def)
  ultimately show ?thesis
    using openapi_validation_documented [OF run sample_find, OF _ disjI1, OF _ params] run by fastforce
qed


end
