(* ===== verification/Spec2Isabelle.thy ===== *)
theory Spec2Isabelle
  imports Url_Codec Multi_Mapping DataStructures Responses Requests Middleware Routing WsServer WebSockets
    Params Dependencies Exceptions Handlers ApiRouter FastPath Security Workers
    Encoders Mounting Shims Application HttpWire HttpServer HttpBuffer HttpConnection Resolvers
    ParamClasses RouteMethods OpenApi
begin

text \<open>
  AstraAPI is a Python web framework in the style of FastAPI, with its hot paths in a C++ core. This
  library models its Python side (\<open>src/astraapi\<close>) and the functions of the core
  (\<open>src/cpp_core/src\<close>) whose results the Python side relies on.

  \<^bold>\<open>How a request passes through the program.\<close> The server turns bytes from a socket into an ASGI
  scope and messages. The middleware wraps the application's \<open>send\<close>; the router finds the first route
  that matches the path and the method; the handler of the route reads the body, solves the tree
  of dependencies of the endpoint (which extracts and validates parameters), calls the endpoint and
  serialises its value into a response; exceptions become responses of their own; last, the
  callbacks of the dependencies run. WebSocket connections take the same way, but talk through a
  channel that the server fills.

  \<^bold>\<open>Theories and source files.\<close>
  \<^item> \<open>Py_Prelude\<close>, \<open>Url_Codec\<close>, \<open>Multi_Mapping\<close>, \<open>Asgi\<close>: what the components share. Python strings are
    lists of code points, bytes are lists of characters, a \<open>dict\<close> is an association list in
    insertion order, an exception is a value of \<open>exn\<close> and an operation that may raise returns
    \<open>exn + 'a\<close>. The locales \<open>multi_mapping\<close>, \<open>selecting_mapping\<close> and \<open>mutable_mapping\<close> are the interface
    of every header, query and form class.
  \<^item> \<open>DataStructures\<close>: \<open>_datastructures_impl.py\<close>. Lazy parsing is transparent, lookup is
    case-insensitive, query strings are read back, uploads are closed.
  \<^item> \<open>Responses\<close>: \<open>_response.py\<close>. Content length, cookies, streaming, server-sent events, files.
  \<^item> \<open>Requests\<close>: \<open>_request.py\<close>. URLs, joined headers, the body stream and its caching.
  \<^item> \<open>Middleware\<close>: \<open>_middleware_impl.py\<close>. CORS, gzip (over an abstract compressor), trusted hosts, WSGI.
    The locale \<open>send_wrapper\<close> is what every middleware that edits the response start keeps.
  \<^item> \<open>Routing\<close>: \<open>_routing_base.py\<close>. The locale \<open>convertor_law\<close> is what a path convertor promises; from it
    follows that a reverse URL is matched again with the same parameters.
  \<^item> \<open>WsServer\<close>, \<open>WebSockets\<close>: the Python parts of \<open>_cpp_server.py\<close>, \<open>_websocket.py\<close> and \<open>_ws_groups.py\<close>. The
    channel between server and application is a step relation with its reachable states; the
    locale \<open>ws_channel\<close> is the connection as the \<open>WebSocket\<close> class uses it, \<open>membership\<close> the groups.
  \<^item> \<open>Params\<close>, \<open>Dependencies\<close>: \<open>dependencies/utils.py\<close> and \<open>dependencies/models.py\<close>, with the
    extraction functions of the core. The batch extraction is equivalent to a field-by-field
    reference; no call lacks an argument; a cached dependency is called once. The locale
    \<open>solve_invariant\<close> carries an invariant over the solving of a tree.
  \<^item> \<open>ParamClasses\<close>: \<open>params.py\<close> and \<open>param_functions.py\<close>, the declarations of parameters up to what pydantic is given.
  \<^item> \<open>Exceptions\<close>, \<open>Handlers\<close>: \<open>exceptions.py\<close>, \<open>_exception_handler.py\<close>, \<open>exception_handlers.py\<close> and the
    first part of \<open>routing.py\<close>: exit stacks, body parsing, the request handler, serialisation.
  \<^item> \<open>ApiRouter\<close>, \<open>RouteMethods\<close>, \<open>FastPath\<close>: the rest of \<open>routing.py\<close>, declaring and including routes, the methods \<open>get\<close>,
    \<open>post\<close>, ... of routers and applications, and what is computed for the C++ fast path when a route is declared.
  \<^item> \<open>OpenApi\<close>: \<open>openapi/utils.py\<close> and the schemas of \<open>_compat/v2.py\<close>. The document has exactly the operations, parameters, security
    requirements and validation errors that the routes and their dependencies declare, and it is always made.
  \<^item> \<open>Resolvers\<close>: the three resolvers of \<open>routing.py\<close> that the core calls with the flattened dependencies, and the request object
    they build. The synchronous one computes a solution of the dependencies, the asynchronous one agrees with it unless names
    collide, the one for generators loses none, and the shortcut for security schemes is the scheme.
  \<^item> \<open>Security\<close>: \<open>security/\<close>. The schemes as dependencies; the locale \<open>header_scheme\<close> is their contract, from
    which follows that an endpoint behind a scheme is not called without credentials.
  \<^item> \<open>Workers\<close>: \<open>_multiworker.py\<close> and \<open>_reloader.py\<close>. The loop of the supervisor is a step relation, with what the
    operating system answers as its input; no worker is lost, shutting down leaves none, connections
    are handed out evenly.
  \<^item> \<open>Encoders\<close>: \<open>encoders.py\<close>, over a heap of objects. The encoder returns on cyclic graphs, is exact on shared
    ones, and returns JSON.
  \<^item> \<open>Mounting\<close>: the mount endpoint of \<open>applications.py\<close> and \<open>_staticfiles.py\<close>: what a mounted application sees, what
    of its response arrives, and which files can be fetched.
  \<^item> \<open>Shims\<close>, \<open>Application\<close>: the rest of \<open>applications.py\<close> that is modelled: the functions between the C++ server and an
    endpoint, with the events of a run, and the registration of routes with the core. The shim's response is that of the
    Python handler, cleanup is complete when there is a response, and the core calls the route declared first.
  \<^item> \<open>HttpWire\<close>: what \<open>_cpp_server.py\<close> reads from and writes to a connection as bytes: the request context, headers
    injected into a built response, chunked streaming, the CORS headers of the asynchronous paths.
  \<^item> \<open>HttpServer\<close>: the handlers of \<open>_cpp_server.py\<close> that finish a request in Python, with the events of a run: a request
    is answered exactly once, in which order tasks and exit callbacks run, and where it goes unanswered.
  \<^item> \<open>HttpBuffer\<close>, \<open>HttpConnection\<close>: the receive buffer of the core, an array that refines a list of bytes (locale
    \<open>receive_buffer\<close>, interpreted on both), and the life of a connection in \<open>_cpp_server.py\<close>: received data, back-pressure, upgrade, loss,
    reuse of protocol objects, the limit on connections and the sweep of idle ones as a step relation with its reachable
    states. Connections are counted exactly, handling data ends, and how a stream is cut does not matter.
  

  \<^bold>\<open>Parameters of the model.\<close> Code that is not part of the repository is an argument of the
  definitions that use it: pydantic's type adapters (\<open>adapter\<close>), JSON libraries, pydantic's schema generator, zlib, compiled
  regular expressions given by users, the file system, \<open>python-multipart\<close>'s tokenizer, the
  endpoint and the dependencies themselves.

  \<^bold>\<open>Fuel.\<close> \<open>solve_dependencies\<close> counts down from \<open>max_depth\<close> (101), as the code counts \<open>_depth\<close> up to
  100, and running out is the \<open>RuntimeError\<close> the code raises; \<open>depth_limit_exact\<close> says that it happens
  for deeper trees only. \<open>get_dependant\<close> counts the interpreter's stack, so running out is the
  \<open>RecursionError\<close> of the code. Waiting for a message that has not arrived is \<open>None\<close>, never an answer.
  Loops that may not end (\<open>drive_loop\<close>, \<open>request_loop\<close>, \<open>dispatch_loop\<close>) are partial functions whose value is then
  \<open>None\<close>, with theorems on when they return. All other loops are structural or have a termination proof.

  \<^bold>\<open>Not modelled.\<close> The HTTP parser and the request dispatch of the C++ core, which are parameters of their
  callers; the start-up of \<open>run_server\<close> (sockets, tuning, warming); the argument stage of the response shim and the form shim of
  \<open>applications.py\<close>; signature inspection and pydantic model creation, which are the libraries' work;
  the documentation pages and the pydantic models of the OpenAPI document; the test client, which drives the application
  through a library; sockets, signals and what runs inside a worker process; binary floating point.
\<close>

subsection \<open>Properties that span components\<close>


text \<open>A router with one route, included with the bearer scheme (callable number 5) as its guard.\<close>

definition guarded_source :: api_router where
  "guarded_source = (blank_router 2)\<lparr>ar_routes := [AnApi \<lparr>ro_path = S ''/x'', ro_endpoint = 7, ro_name = S ''x'', ro_methods = [S ''GET''],
     ro_tags = [], ro_dependencies = [], ro_responses = [], ro_deprecated = None, ro_in_schema = True, ro_class = Default 0, ro_callbacks = [],
     ro_uid_fn = Default 0, ro_status = None, ro_model = None, ro_docs = 0, ro_operation_id = Some (S ''op''), ro_unique_id = S ''op'',
     ro_compiled = \<lparr>cp_segs = [], cp_format = [], cp_convs = []\<rparr>, ro_dependant = plain_dependant [] None 7, ro_embed = False\<rparr>]\<rparr>"

lemma guarded_source_included:
  "\<exists>r' y. include_router guard_env guard_options guarded_source (blank_router 1) = (Inr (), r') \<and> ar_routes r' = [AnApi y]"
proof -
  have "startswith (S ''/v1'') (S ''/'')" "\<not> endswith (S ''/v1'') (S ''/'')"
    by (simp_all add: startswith_def endswith_def S_def)
  then have chk: "include_check guard_options guarded_source = Inr ()"
    by (simp add: include_check_def prefix_ok_def guard_options_def rassert_def)
  have "123 \<notin> set (S ''/v1'' @ S ''/x'')" "startswith (S ''/v1'' @ S ''/x'') (S ''/'')" by (simp_all add: S_def)
  from compile_plain_path [OF this] obtain y where
    "api_route_init guard_env (S ''/v1'' @ S ''/x'') 7 (Some (S ''x'')) (Some [S ''GET'']) [] (io_dependencies guard_options) [] None True
       (Default 0) [] (Default 0) None None 0 (Some (S ''op'')) = Inr y"
    by (auto simp: api_route_init_def unique_id_def body_error_unless_def route_dependant_def guard_env_def guard_options_def
      get_parameterless_sub_dependant_def Let_def)
  moreover have "get_value_or_default (Default 0) [Default 0, Default 0, Default 0] = Default (0 :: nat)"
    "get_value_or_default (Default 0) [Default 0] = Default (0 :: nat)" "dict_update [] [] = ([] :: responses)"
    by (simp_all add: get_value_or_default_def dict_update_def)
  ultimately show ?thesis using chk
    by (simp add: include_router_def guarded_source_def add_api_route_def add_route_to_def guard_options_def blank_router_def or_flag_def)
qed


end
